(* ===== verification/Prelude.thy ===== *)
theory Prelude
  imports Main "HOL-Library.Multiset" "HOL-Library.Word"
begin

text \<open>
  Shared vocabulary of the development: the Go types the model uses, panics and error
  values, the model of in-place element swaps, and the generic list and word lemmas that
  the component theories share.

  \<^item> Go's \<open>int\<close> is \<open>int\<close> or \<open>nat\<close> where it is a length or an index; \<open>int32\<close> and
    \<open>uint32\<close> are \<open>32 word\<close>, read with \<open>sint\<close> and \<open>unat\<close>.
  \<^item> \<open>time.Time\<close> is the integer number of nanoseconds since Go's zero time, so that
    \<open>IsZero\<close> is \<open>t = 0\<close>; \<open>time.Duration\<close> is an integer number of nanoseconds.
  \<^item> A run-time panic is a value of \<open>go_panic\<close>, a returned \<open>error\<close> a value of \<open>go_error\<close>;
    both appear on the left of a sum.
\<close>

type_synonym i32 = "32 word"
type_synonym time = int
type_synonym duration = int

datatype go_panic =
    IndexOutOfRange
  | NilDereference
  | DivideByZero
  | NegativeLength
  | ExplicitPanic string

text \<open>The sentinel errors of \<open>storage/errors.go\<close>, and any other error by its message.\<close>

datatype go_error =
    ErrNotFound
  | ErrNoDatabase
  | ErrInvalidArgument
  | ErrNotSupported
  | ErrAlreadyExists
  | ErrOther string
  | ErrWrap string go_error

text \<open>
  \<open>errors.Is\<close>: the error itself or one it wraps. \<open>errors.WithStack\<close> only adds a stack trace and
  is the identity here; \<open>fmt.Errorf\<close> with \<open>%w\<close> is \<open>ErrWrap\<close>.
\<close>

fun errors_Is :: "go_error \<Rightarrow> go_error \<Rightarrow> bool" where
  "errors_Is (ErrWrap msg e) target = (ErrWrap msg e = target \<or> errors_Is e target)"
| "errors_Is e target = (e = target)"

subsection \<open>Slices\<close>

definition swap :: "'a list \<Rightarrow> nat \<Rightarrow> nat \<Rightarrow> 'a list" where
  "swap xs i j = xs[i := xs ! j, j := xs ! i]"

lemma length_swap [simp]: "length (swap xs i j) = length xs"
  by (simp add: swap_def)

lemma swap_commute: "swap xs i j = swap xs j i"
  by (cases "i = j") (auto simp: swap_def list_update_swap)

lemma nth_swap:
  "i < length xs \<Longrightarrow> j < length xs \<Longrightarrow> k < length xs \<Longrightarrow>
   swap xs i j ! k = (if k = i then xs ! j else if k = j then xs ! i else xs ! k)"
  by (auto simp: swap_def nth_list_update)

lemma mset_swap_eq [simp]:
  "i < length xs \<Longrightarrow> j < length xs \<Longrightarrow> mset (swap xs i j) = mset xs"
  unfolding swap_def by (rule mset_swap)

lemma mset_butlast_last: "xs \<noteq> [] \<Longrightarrow> mset (butlast xs) + {#last xs#} = mset xs"
  by (metis append_butlast_last_id mset.simps mset_append add.commute add_mset_add_single
      union_mset_add_mset_right mset_single_iff_right)

lemma distinct_sub_mset: "mset ys \<subseteq># mset xs \<Longrightarrow> distinct xs \<Longrightarrow> distinct ys"
proof (induction ys arbitrary: xs)
  case (Cons y ys)
  have "y \<in> set xs" using mset_subset_eqD [OF Cons.prems(1), of y] by simp
  have sub: "mset ys \<subseteq># mset (remove1 y xs)" using Cons.prems(1) by (simp add: insert_subset_eq_iff)
  have "set ys \<subseteq> set (remove1 y xs)" using sub by (metis set_mset_mono set_mset_mset)
  then show ?case using Cons.IH [OF sub] Cons.prems(2) by (auto simp: distinct_remove1)
qed simp

lemma mset_nth_single: "i < length xs \<Longrightarrow> xs ! i \<in># mset xs"
  by simp

subsection \<open>Dense indices\<close>

text \<open>A slice read with an \<open>int32\<close> index: negative and large indices panic.\<close>

definition index_i32 :: "'a list \<Rightarrow> i32 \<Rightarrow> go_panic + 'a" where
  "index_i32 xs k =
     (if 0 \<le> sint k \<and> sint k < int (length xs) then Inr (xs ! nat (sint k)) else Inl IndexOutOfRange)"

lemma sint_of_nat_i32 [simp]: "k < 2147483648 \<Longrightarrow> sint (of_nat k :: i32) = int k"
  by (simp add: signed_of_nat signed_take_bit_int_eq_self)

lemma index_i32_of_nat:
  "k < length xs \<Longrightarrow> length xs < 2147483648 \<Longrightarrow> index_i32 xs (of_nat k) = Inr (xs ! k)"
  by (simp add: index_i32_def)

subsection \<open>Calls of other components\<close>

text \<open>
  Code that calls stores, returns errors and may panic is a function of the state of the stores to
  its outcome and the new state. \<open>io_call\<close> runs a store's method, \<open>io_lift\<close> a computation that
  may only panic; \<open>io_bind\<close> is the early return on an error, \<open>if err != nil { return ... }\<close>.
\<close>

datatype failure = Failed go_error | Panicked go_panic

type_synonym ('s, 'a) io = "'s \<Rightarrow> (failure + 'a) \<times> 's"

definition io_return :: "'a \<Rightarrow> ('s, 'a) io" where
  "io_return x s = (Inr x, s)"

definition io_fail :: "failure \<Rightarrow> ('s, 'a) io" where
  "io_fail e s = (Inl e, s)"

definition io_bind :: "('s, 'a) io \<Rightarrow> ('a \<Rightarrow> ('s, 'b) io) \<Rightarrow> ('s, 'b) io" where
  "io_bind m f s = (case m s of (Inl e, s') \<Rightarrow> (Inl e, s') | (Inr x, s') \<Rightarrow> f x s')"

definition io_call :: "('s \<Rightarrow> (go_error + 'a) \<times> 's) \<Rightarrow> ('s, 'a) io" where
  "io_call m s = (case m s of (Inl e, s') \<Rightarrow> (Inl (Failed e), s') | (Inr x, s') \<Rightarrow> (Inr x, s'))"

definition io_do :: "('s \<Rightarrow> go_error option \<times> 's) \<Rightarrow> ('s, unit) io" where
  "io_do m s = (case m s of (Some e, s') \<Rightarrow> (Inl (Failed e), s') | (None, s') \<Rightarrow> (Inr (), s'))"

definition io_lift :: "go_panic + 'a \<Rightarrow> ('s, 'a) io" where
  "io_lift r s = (case r of Inl p \<Rightarrow> (Inl (Panicked p), s) | Inr x \<Rightarrow> (Inr x, s))"

lemma io_return_Inr [simp]: "io_return x s = (Inr y, s') \<longleftrightarrow> y = x \<and> s' = s"
  by (auto simp: io_return_def)

lemma io_fail_Inr [simp]: "io_fail e s \<noteq> (Inr y, s')"
  by (simp add: io_fail_def)

lemma io_bind_Inr: "io_bind m f s = (Inr y, s') \<longleftrightarrow> (\<exists>x s1. m s = (Inr x, s1) \<and> f x s1 = (Inr y, s'))"
  by (auto simp: io_bind_def split: prod.splits sum.splits)

lemma io_call_Inr: "io_call m s = (Inr y, s') \<longleftrightarrow> m s = (Inr y, s')"
  by (auto simp: io_call_def split: prod.splits sum.splits)

lemma io_do_Inr: "io_do m s = (Inr y, s') \<longleftrightarrow> m s = (None, s')"
  by (auto simp: io_do_def split: prod.splits option.splits)

lemma io_lift_Inr: "io_lift r s = (Inr y, s') \<longleftrightarrow> r = Inr y \<and> s' = s"
  by (auto simp: io_lift_def split: sum.splits)

lemmas io_Inr = io_bind_Inr io_call_Inr io_do_Inr io_lift_Inr

lemma io_if_fail_Inr: "(if b then io_fail e else m) s = (Inr y, s') \<longleftrightarrow> \<not> b \<and> m s = (Inr y, s')"
  by simp

lemma io_bind_cong [fundef_cong]:
  "m = m' \<Longrightarrow> (\<And>x s1. m' s = (Inr x, s1) \<Longrightarrow> f x = g x) \<Longrightarrow> s = s' \<Longrightarrow> io_bind m f s = io_bind m' g s'"
  by (auto simp: io_bind_def split: prod.splits sum.splits)

subsection \<open>Code that may panic\<close>

definition p_bind :: "'e + 'a \<Rightarrow> ('a \<Rightarrow> 'e + 'b) \<Rightarrow> 'e + 'b" where
  "p_bind m f = (case m of Inl e \<Rightarrow> Inl e | Inr x \<Rightarrow> f x)"

lemma p_bind_simps [simp]: "p_bind (Inl e) f = Inl e" "p_bind (Inr x) f = f x"
  by (simp_all add: p_bind_def)

lemma p_bind_assoc: "p_bind (p_bind m f) g = p_bind m (\<lambda>x. p_bind (f x) g)"
  by (cases m) auto

lemma p_bind_Inr: "p_bind m f = Inr y \<longleftrightarrow> (\<exists>x. m = Inr x \<and> f x = Inr y)"
  by (cases m) auto

fun p_fold :: "('a \<Rightarrow> 's \<Rightarrow> 'e + 's) \<Rightarrow> 'a list \<Rightarrow> 's \<Rightarrow> 'e + 's" where
  "p_fold f [] s = Inr s"
| "p_fold f (x # xs) s = p_bind (f x s) (p_fold f xs)"

lemma p_fold_append: "p_fold f (xs @ ys) s = p_bind (p_fold f xs s) (p_fold f ys)"
  by (induction xs arbitrary: s) (auto simp: p_bind_def split: sum.splits)

fun p_map :: "('a \<Rightarrow> 'e + 'b) \<Rightarrow> 'a list \<Rightarrow> 'e + 'b list" where
  "p_map f [] = Inr []"
| "p_map f (x # xs) = p_bind (f x) (\<lambda>y. p_bind (p_map f xs) (\<lambda>ys. Inr (y # ys)))"

lemma p_map_all: "(\<And>x. x \<in> set xs \<Longrightarrow> f x = Inr (g x)) \<Longrightarrow> p_map f xs = Inr (map g xs)"
  by (induction xs) auto

definition slice_get :: "'a list \<Rightarrow> nat \<Rightarrow> go_panic + 'a" where
  "slice_get xs k = (if k < length xs then Inr (xs ! k) else Inl IndexOutOfRange)"

lemma slice_get_in [simp]: "k < length xs \<Longrightarrow> slice_get xs k = Inr (xs ! k)"
  by (simp add: slice_get_def)

text \<open>The \<open>int32\<close> loop \<open>for i := low; i < high; i++\<close>.\<close>

definition i32_range :: "i32 \<Rightarrow> i32 \<Rightarrow> i32 list" where
  "i32_range low high = map of_int [sint low..sint high - 1]"

lemma sint_of_int_i32: "- 2147483648 \<le> k \<Longrightarrow> k < 2147483648 \<Longrightarrow> sint (of_int k :: i32) = k"
  by (simp add: signed_of_int signed_take_bit_int_eq_self)

lemma sint_i32_bounds: "- 2147483648 \<le> sint (x :: i32)" "sint (x :: i32) < 2147483648"
  using sint_ge [of x] sint_lt [of x] by simp_all

lemma sint_range: "map sint (i32_range low high) = [sint low..sint high - 1]"
proof -
  have "sint (of_int k :: i32) = k" if "k \<in> set [sint low..sint high - 1]" for k
    using that sint_i32_bounds(1) [of low] sint_i32_bounds(2) [of high] by (intro sint_of_int_i32) auto
  then have "map (\<lambda>k. sint (of_int k :: i32)) [sint low..sint high - 1] = map (\<lambda>k. k) [sint low..sint high - 1]"
    by (intro map_cong refl) blast
  then show ?thesis unfolding i32_range_def by (simp add: o_def)
qed

lemma set_i32_range: "x \<in> set (i32_range low high) \<longleftrightarrow> sint low \<le> sint x \<and> sint x < sint high"
proof -
  have "x \<in> set (i32_range low high) \<longleftrightarrow> sint x \<in> set (map sint (i32_range low high))"
    by (auto dest: signed_word_eqI)
  then show ?thesis unfolding sint_range by auto
qed

lemma distinct_i32_range: "distinct (i32_range low high)"
proof -
  have "distinct (map sint (i32_range low high))" unfolding sint_range by simp
  then show ?thesis by (simp add: distinct_map)
qed

lemma length_i32_range: "length (i32_range low high) = nat (sint high - sint low)"
  using arg_cong [OF sint_range [of low high], of length] by simp

end
