(* ===== verification/Go_Heap.thy ===== *)
theory Go_Heap
  imports Prelude
begin

text \<open>
  The package \<open>container/heap\<close> of Go's standard library, on a slice of elements with the
  order \<open>lt\<close> of the client's \<open>Less\<close> method: \<open>up\<close>, \<open>down\<close>, \<open>Push\<close>, \<open>Pop\<close> and \<open>Fix\<close>.
  The locale \<open>heap_order\<close> is what a client promises of its \<open>Less\<close> (a strict weak order);
  inside it the operations are shown to keep the heap shape, to keep the elements and to
  deliver a minimum. The clients are the priority queue, the top-k filter and the sparse
  vector pruner.
\<close>

subsection \<open>Operations\<close>

function heap_up :: "('e \<Rightarrow> 'e \<Rightarrow> bool) \<Rightarrow> 'e list \<Rightarrow> nat \<Rightarrow> 'e list" where
  "heap_up lt xs j =
     (let i = (j - 1) div 2 in
      if i = j \<or> \<not> lt (xs ! j) (xs ! i) then xs else heap_up lt (swap xs i j) i)"
  by pat_completeness auto
termination
  by (relation "measure (\<lambda>(lt, xs, j). j)") auto

function heap_down :: "('e \<Rightarrow> 'e \<Rightarrow> bool) \<Rightarrow> 'e list \<Rightarrow> nat \<Rightarrow> nat \<Rightarrow> 'e list \<times> nat" where
  "heap_down lt xs i n =
     (let j1 = 2 * i + 1 in
      if n \<le> j1 then (xs, i)
      else let j2 = j1 + 1; j = (if j2 < n \<and> lt (xs ! j2) (xs ! j1) then j2 else j1) in
        if \<not> lt (xs ! j) (xs ! i) then (xs, i) else heap_down lt (swap xs i j) j n)"
  by pat_completeness auto
termination
  by (relation "measure (\<lambda>(lt, xs, i, n). n - i)") (auto split: if_splits)

declare heap_up.simps [simp del] heap_down.simps [simp del]

definition heap_push :: "('e \<Rightarrow> 'e \<Rightarrow> bool) \<Rightarrow> 'e list \<Rightarrow> 'e \<Rightarrow> 'e list" where
  "heap_push lt xs x = heap_up lt (xs @ [x]) (length xs)"

text \<open>\<open>Pop\<close> on an empty heap swaps with index \<open>-1\<close> and panics.\<close>

definition heap_pop :: "('e \<Rightarrow> 'e \<Rightarrow> bool) \<Rightarrow> 'e list \<Rightarrow> go_panic + ('e \<times> 'e list)" where
  "heap_pop lt xs =
     (if xs = [] then Inl IndexOutOfRange
      else let n = length xs - 1; ys = fst (heap_down lt (swap xs 0 n) 0 n)
           in Inr (last ys, butlast ys))"

definition heap_fix :: "('e \<Rightarrow> 'e \<Rightarrow> bool) \<Rightarrow> 'e list \<Rightarrow> nat \<Rightarrow> 'e list" where
  "heap_fix lt xs i =
     (let (ys, i') = heap_down lt xs i (length xs)
      in if i < i' then ys else heap_up lt ys i)"

text \<open>Popping \<open>n\<close> times, the loop of \<open>PopAll\<close>: the popped elements in order.\<close>

fun heap_drain :: "('e \<Rightarrow> 'e \<Rightarrow> bool) \<Rightarrow> nat \<Rightarrow> 'e list \<Rightarrow> go_panic + ('e list \<times> 'e list)" where
  "heap_drain lt 0 xs = Inr ([], xs)"
| "heap_drain lt (Suc n) xs =
     (case heap_pop lt xs of
        Inl p \<Rightarrow> Inl p
      | Inr (x, xs') \<Rightarrow>
          (case heap_drain lt n xs' of
             Inl p \<Rightarrow> Inl p
           | Inr (ys, zs) \<Rightarrow> Inr (x # ys, zs)))"

subsection \<open>Lengths, elements and untouched positions (for any order)\<close>

lemma length_heap_up [simp]: "length (heap_up lt xs j) = length xs"
proof (induction lt xs j rule: heap_up.induct)
  case (1 lt xs j)
  then show ?case by (subst heap_up.simps) (auto simp: Let_def)
qed

lemma length_heap_down [simp]: "length (fst (heap_down lt xs i n)) = length xs"
proof (induction lt xs i n rule: heap_down.induct)
  case (1 lt xs i n)
  then show ?case by (subst heap_down.simps) (auto simp: Let_def)
qed

lemma mset_heap_up: "j < length xs \<Longrightarrow> mset (heap_up lt xs j) = mset xs"
proof (induction lt xs j rule: heap_up.induct)
  case (1 lt xs j)
  show ?case
  proof (cases "(j - 1) div 2 = j \<or> \<not> lt (xs ! j) (xs ! ((j - 1) div 2))")
    case True
    then show ?thesis by (subst heap_up.simps) (auto simp: Let_def)
  next
    case False
    moreover have "(j - 1) div 2 < length xs" using "1.prems" by simp
    ultimately show ?thesis
      using "1.IH" [OF refl False] "1.prems" by (subst heap_up.simps) (auto simp: Let_def)
  qed
qed

text \<open>One step of \<open>down\<close>: the child that is compared with the element at \<open>i\<close>.\<close>

definition down_child :: "('e \<Rightarrow> 'e \<Rightarrow> bool) \<Rightarrow> 'e list \<Rightarrow> nat \<Rightarrow> nat \<Rightarrow> nat" where
  "down_child lt xs i n =
     (if 2 * i + 2 < n \<and> lt (xs ! (2 * i + 2)) (xs ! (2 * i + 1)) then 2 * i + 2 else 2 * i + 1)"

lemma heap_down_unfold:
  "heap_down lt xs i n =
     (if n \<le> 2 * i + 1 \<or> \<not> lt (xs ! down_child lt xs i n) (xs ! i) then (xs, i)
      else heap_down lt (swap xs i (down_child lt xs i n)) (down_child lt xs i n) n)"
  by (subst heap_down.simps) (auto simp: Let_def down_child_def)

lemma down_child_bounds:
  "\<not> n \<le> 2 * i + 1 \<Longrightarrow> i < down_child lt xs i n \<and> down_child lt xs i n < n"
  by (auto simp: down_child_def)

lemma heap_down_induct [case_names stop swap]:
  assumes "\<And>xs i. n \<le> 2 * i + 1 \<or> \<not> lt (xs ! down_child lt xs i n) (xs ! i) \<Longrightarrow> P xs i"
    and "\<And>xs i. \<not> n \<le> 2 * i + 1 \<Longrightarrow> lt (xs ! down_child lt xs i n) (xs ! i) \<Longrightarrow>
           P (swap xs i (down_child lt xs i n)) (down_child lt xs i n) \<Longrightarrow> P xs i"
  shows "P xs i"
proof (induction "n - i" arbitrary: xs i rule: less_induct)
  case less
  show ?case
  proof (cases "n \<le> 2 * i + 1 \<or> \<not> lt (xs ! down_child lt xs i n) (xs ! i)")
    case True
    then show ?thesis by (rule assms(1))
  next
    case False
    then have "n - down_child lt xs i n < n - i"
      using down_child_bounds [of n i lt xs] by auto
    then have "P (swap xs i (down_child lt xs i n)) (down_child lt xs i n)" by (rule less)
    with False show ?thesis by (auto intro: assms(2))
  qed
qed

lemma heap_down_elems:
  "n \<le> length xs \<Longrightarrow>
   mset (fst (heap_down lt xs i n)) = mset xs \<and>
   (\<forall>k. n \<le> k \<longrightarrow> k < length xs \<longrightarrow> i < n \<longrightarrow> fst (heap_down lt xs i n) ! k = xs ! k)"
proof (induction xs i rule: heap_down_induct [where lt = lt and n = n])
  case (stop xs i)
  then show ?case by (subst (1 2) heap_down_unfold) auto
next
  case (swap xs i)
  note b = down_child_bounds [OF swap.hyps(1), of lt xs]
  from b swap show ?case
    by (subst (1 2) heap_down_unfold) (auto simp: nth_swap)
qed

subsection \<open>The heap shape\<close>

abbreviation parent :: "nat \<Rightarrow> nat" where
  "parent k \<equiv> (k - 1) div 2"

definition heap_ok :: "('e \<Rightarrow> 'e \<Rightarrow> bool) \<Rightarrow> 'e list \<Rightarrow> nat \<Rightarrow> bool" where
  "heap_ok lt xs n \<longleftrightarrow> (\<forall>k<n. 0 < k \<longrightarrow> \<not> lt (xs ! k) (xs ! parent k))"

text \<open>
  While \<open>up\<close> runs, only the element at \<open>j\<close> may be smaller than its parent; while \<open>down\<close>
  runs, only the children of \<open>i\<close> may be smaller than the element at \<open>i\<close>. In both cases the
  children of the exceptional position are in order with its parent.
\<close>

definition up_hole :: "('e \<Rightarrow> 'e \<Rightarrow> bool) \<Rightarrow> 'e list \<Rightarrow> nat \<Rightarrow> nat \<Rightarrow> bool" where
  "up_hole lt xs n j \<longleftrightarrow>
     (\<forall>k<n. 0 < k \<longrightarrow> k \<noteq> j \<longrightarrow> \<not> lt (xs ! k) (xs ! parent k)) \<and>
     (\<forall>k<n. 0 < k \<longrightarrow> parent k = j \<longrightarrow> 0 < j \<longrightarrow> \<not> lt (xs ! k) (xs ! parent j))"

definition down_hole :: "('e \<Rightarrow> 'e \<Rightarrow> bool) \<Rightarrow> 'e list \<Rightarrow> nat \<Rightarrow> nat \<Rightarrow> bool" where
  "down_hole lt xs n i \<longleftrightarrow>
     (\<forall>k<n. 0 < k \<longrightarrow> parent k \<noteq> i \<longrightarrow> \<not> lt (xs ! k) (xs ! parent k)) \<and>
     (\<forall>k<n. 0 < k \<longrightarrow> parent k = i \<longrightarrow> 0 < i \<longrightarrow> \<not> lt (xs ! k) (xs ! parent i))"

lemma parent_less: "0 < k \<Longrightarrow> parent k < k"
  by auto

lemma parent_eq_iff: "0 < k \<Longrightarrow> parent k = i \<longleftrightarrow> k = 2 * i + 1 \<or> k = 2 * i + 2"
  by auto

lemma heap_ok_empty [simp]: "heap_ok lt xs 0"
  by (simp add: heap_ok_def)

locale heap_order =
  fixes lt :: "'e \<Rightarrow> 'e \<Rightarrow> bool"
  assumes asym: "lt a b \<Longrightarrow> \<not> lt b a"
    and neg_trans: "\<not> lt a b \<Longrightarrow> \<not> lt b c \<Longrightarrow> \<not> lt a c"
begin

lemma irrefl: "\<not> lt a a"
  using asym by blast

lemma trans: "lt a b \<Longrightarrow> lt b c \<Longrightarrow> lt a c"
  using asym neg_trans by blast

lemma up_hole_step:
  assumes h: "up_hole lt xs n j" and j: "0 < j" "j < n" and n: "n \<le> length xs"
    and less: "lt (xs ! j) (xs ! parent j)"
  shows "up_hole lt (swap xs j (parent j)) n (parent j)"
proof -
  let ?p = "parent j" and ?ys = "swap xs j (parent j)"
  have p: "?p < j" "?p < n" using j by auto
  have ys: "?ys ! k = (if k = j then xs ! ?p else if k = ?p then xs ! j else xs ! k)" if "k < n" for k
    using that j p n by (simp add: nth_swap)
  have ord: "\<not> lt (xs ! k) (xs ! parent k)" if "k < n" "0 < k" "k \<noteq> j" for k
    using h that unfolding up_hole_def by blast
  have ch: "\<not> lt (xs ! k) (xs ! ?p)" if "k < n" "0 < k" "parent k = j" for k
    using h that j unfolding up_hole_def by blast
  have par: "parent k < n" if "k < n" for k using that by auto
  have "\<not> lt (?ys ! k) (?ys ! parent k)" if k: "k < n" "0 < k" "k \<noteq> ?p" for k
  proof (cases "k = j")
    case True
    then show ?thesis using ys [of j] ys [of ?p] j p less asym by simp
  next
    case False
    consider "parent k = j" | "parent k = ?p" | "parent k \<noteq> j" "parent k \<noteq> ?p" by blast
    then show ?thesis
    proof cases
      case 1
      then show ?thesis using ch [OF k(1,2) 1] ys [OF k(1)] ys [OF j(2)] k False by simp
    next
      case 2
      have "\<not> lt (xs ! k) (xs ! j)"
        using ord [OF k(1,2) False] 2 less trans by metis
      then show ?thesis using ys [OF k(1)] ys [OF p(2)] 2 k False p by simp
    next
      case 3
      then show ?thesis using ord [OF k(1,2) False] ys [OF k(1)] ys [OF par [OF k(1)]] k False by simp
    qed
  qed
  moreover have "\<not> lt (?ys ! k) (?ys ! parent ?p)"
    if k: "k < n" "0 < k" "parent k = ?p" "0 < ?p" for k
  proof -
    have pp: "parent ?p < ?p" using k(4) by (rule parent_less)
    have opp: "\<not> lt (xs ! ?p) (xs ! parent ?p)" using ord [OF p(2) k(4)] p by simp
    have yp: "?ys ! parent ?p = xs ! parent ?p" using ys [of "parent ?p"] pp p by simp
    show ?thesis
    proof (cases "k = j")
      case True
      then show ?thesis using opp yp ys [OF j(2)] by simp
    next
      case False
      have "k \<noteq> ?p" using k parent_less [OF k(2)] by auto
      then show ?thesis
        using ord [OF k(1,2) False] k(3) opp yp ys [OF k(1)] False neg_trans by metis
    qed
  qed
  ultimately show ?thesis unfolding up_hole_def by blast
qed

lemma heap_ok_up:
  "up_hole lt xs n j \<Longrightarrow> j < n \<Longrightarrow> n \<le> length xs \<Longrightarrow> heap_ok lt (heap_up lt xs j) n"
proof (induction j arbitrary: xs rule: less_induct)
  case (less j)
  show ?case
  proof (cases "j = 0 \<or> \<not> lt (xs ! j) (xs ! parent j)")
    case True
    then have "heap_up lt xs j = xs" by (subst heap_up.simps) (auto simp: Let_def)
    with True less.prems(1) show ?thesis
      unfolding heap_ok_def up_hole_def by (metis less_numeral_extra(3))
  next
    case False
    then have j: "0 < j" and l: "lt (xs ! j) (xs ! parent j)" by auto
    have eq: "heap_up lt xs j = heap_up lt (swap xs j (parent j)) (parent j)"
      using l parent_less [OF j] by (subst heap_up.simps) (auto simp: Let_def swap_commute)
    show ?thesis
      unfolding eq
      using less.IH [OF parent_less [OF j] up_hole_step [OF less.prems(1) j less.prems(2,3) l]]
        parent_less [OF j] less.prems by simp
  qed
qed

lemma down_hole_step:
  assumes h: "down_hole lt xs n i" and c: "\<not> n \<le> 2 * i + 1" and n: "n \<le> length xs"
    and less: "lt (xs ! down_child lt xs i n) (xs ! i)"
  shows "down_hole lt (swap xs i (down_child lt xs i n)) n (down_child lt xs i n)"
proof -
  let ?j = "down_child lt xs i n"
  let ?ys = "swap xs i ?j"
  have j: "i < ?j" "?j < n" using down_child_bounds [OF c, of lt xs] by auto
  have pj: "parent ?j = i" by (auto simp: down_child_def)
  have ys: "?ys ! k = (if k = i then xs ! ?j else if k = ?j then xs ! i else xs ! k)" if "k < n" for k
    using that j n by (simp add: nth_swap)
  have ord: "\<not> lt (xs ! k) (xs ! parent k)" if "k < n" "0 < k" "parent k \<noteq> i" for k
    using h that unfolding down_hole_def by blast
  have ch: "\<not> lt (xs ! k) (xs ! parent i)" if "k < n" "0 < k" "parent k = i" "0 < i" for k
    using h that unfolding down_hole_def by blast
  have best: "\<not> lt (xs ! k) (xs ! ?j)" if k: "k < n" "0 < k" "parent k = i" for k
    using k(1) parent_eq_iff [OF k(2), of i] k(3) asym irrefl by (auto simp: down_child_def)
  have "\<not> lt (?ys ! k) (?ys ! parent k)" if k: "k < n" "0 < k" "parent k \<noteq> ?j" for k
  proof (cases "parent k = i")
    case True
    then show ?thesis
      using best [OF k(1,2) True] less asym ys [OF k(1)] ys [of i] j parent_less [OF k(2)] by auto
  next
    case False
    have pk: "parent k < n" using k by auto
    show ?thesis
    proof (cases "k = i")
      case True
      then have "parent k \<noteq> i" "0 < i" using k parent_less by auto
      then show ?thesis
        using ch [OF j(2) _ pj] True ys [OF k(1)] ys [OF pk] k j by simp
    next
      case neq: False
      then have "k \<noteq> ?j" using False pj by auto
      then show ?thesis using ord [OF k(1,2) False] ys [OF k(1)] ys [OF pk] neq False k by simp
    qed
  qed
  moreover have "\<not> lt (?ys ! k) (?ys ! parent ?j)" if k: "k < n" "0 < k" "parent k = ?j" for k
  proof -
    have "k \<noteq> i" "k \<noteq> ?j" using k parent_less [OF k(2)] j by auto
    then show ?thesis
      using ord [OF k(1,2)] k(3) j pj ys [OF k(1)] ys [of i] by simp
  qed
  ultimately show ?thesis unfolding down_hole_def by blast
qed

lemma heap_ok_down:
  "down_hole lt xs n i \<Longrightarrow> n \<le> length xs \<Longrightarrow> heap_ok lt (fst (heap_down lt xs i n)) n"
proof (induction xs i rule: heap_down_induct [where lt = lt and n = n])
  case (stop xs i)
  have "\<not> lt (xs ! k) (xs ! i)" if k: "k < n" "0 < k" "parent k = i" for k
  proof -
    have "\<not> n \<le> 2 * i + 1" using k parent_eq_iff [OF k(2), of i] by auto
    with stop.hyps have c: "\<not> lt (xs ! down_child lt xs i n) (xs ! i)" by blast
    have "\<not> lt (xs ! k) (xs ! down_child lt xs i n)"
      using k(1) parent_eq_iff [OF k(2), of i] k(3) asym irrefl by (auto simp: down_child_def)
    with c show ?thesis using neg_trans by blast
  qed
  then have "heap_ok lt xs n"
    using stop.prems(1) unfolding heap_ok_def down_hole_def by blast
  with stop.hyps show ?case by (subst heap_down_unfold) auto
next
  case (swap xs i)
  then have "heap_ok lt
      (fst (heap_down lt (swap xs i (down_child lt xs i n)) (down_child lt xs i n) n)) n"
    by (simp add: down_hole_step)
  with swap.hyps show ?case by (subst heap_down_unfold) auto
qed

lemma heap_ok_root: "heap_ok lt xs n \<Longrightarrow> k < n \<Longrightarrow> \<not> lt (xs ! k) (xs ! 0)"
proof (induction k rule: less_induct)
  case (less k)
  show ?case
  proof (cases "k = 0")
    case True
    then show ?thesis using irrefl by simp
  next
    case False
    then have "\<not> lt (xs ! k) (xs ! parent k)" using less.prems by (simp add: heap_ok_def)
    moreover have "\<not> lt (xs ! parent k) (xs ! 0)"
      using less.IH [of "parent k"] less.prems False by auto
    ultimately show ?thesis using neg_trans by blast
  qed
qed

subsubsection \<open>Push, Pop, Fix and the drain loop\<close>

abbreviation is_heap :: "'e list \<Rightarrow> bool" where
  "is_heap xs \<equiv> heap_ok lt xs (length xs)"

lemma push_ok: "is_heap xs \<Longrightarrow> is_heap (heap_push lt xs x)"
proof -
  assume h: "is_heap xs"
  have "up_hole lt (xs @ [x]) (Suc (length xs)) (length xs)"
    using h unfolding up_hole_def heap_ok_def by (auto simp: nth_append)
  then show ?thesis
    unfolding heap_push_def using heap_ok_up [of "xs @ [x]" "Suc (length xs)" "length xs"] by simp
qed

end

lemma mset_heap_push: "mset (heap_push lt xs x) = add_mset x (mset xs)"
  by (simp add: heap_push_def mset_heap_up)

lemma length_heap_push [simp]: "length (heap_push lt xs x) = Suc (length xs)"
  by (simp add: heap_push_def)

lemma heap_pop_empty: "heap_pop lt [] = Inl IndexOutOfRange"
  by (simp add: heap_pop_def)

lemma heap_pop_total: "xs \<noteq> [] \<Longrightarrow> \<exists>x ys. heap_pop lt xs = Inr (x, ys)"
  by (auto simp: heap_pop_def Let_def)

lemma heap_pop_Inr:
  assumes pop: "heap_pop lt xs = Inr (x, ys)"
  shows "xs \<noteq> [] \<and> x = xs ! 0 \<and> mset xs = add_mset x (mset ys) \<and> length xs = Suc (length ys)"
proof -
  have ne: "xs \<noteq> []" using pop by (auto simp: heap_pop_def)
  let ?n = "length xs - 1"
  let ?d = "fst (heap_down lt (swap xs 0 ?n) 0 ?n)"
  have xy: "x = last ?d" "ys = butlast ?d"
    using pop ne by (auto simp: heap_pop_def Let_def)
  have len: "length ?d = length xs" by simp
  have dne: "?d \<noteq> []" using ne len by (metis length_0_conv)
  have el: "mset ?d = mset (swap xs 0 ?n)"
    and unt: "0 < ?n \<Longrightarrow> ?d ! ?n = swap xs 0 ?n ! ?n"
    using heap_down_elems [of ?n "swap xs 0 ?n" lt 0] ne by auto
  have "last ?d = ?d ! ?n" using dne by (simp add: last_conv_nth)
  also have "\<dots> = xs ! 0"
  proof (cases "?n = 0")
    case True
    then show ?thesis using ne by (subst heap_down_unfold) (auto simp: nth_swap)
  next
    case False
    then show ?thesis using unt ne by (simp add: nth_swap)
  qed
  finally have "x = xs ! 0" using xy by simp
  moreover have "mset xs = add_mset x (mset ys)"
    using el ne xy mset_butlast_last [OF dne] by simp
  moreover have "length xs = Suc (length ys)" using xy len ne by simp
  ultimately show ?thesis using ne by blast
qed

lemmas heap_pop_mset = heap_pop_Inr [THEN conjunct2, THEN conjunct2, THEN conjunct1]
lemmas heap_pop_length = heap_pop_Inr [THEN conjunct2, THEN conjunct2, THEN conjunct2]
lemmas heap_pop_root = heap_pop_Inr [THEN conjunct2, THEN conjunct1]

lemma heap_fix_root: "heap_fix lt xs 0 = fst (heap_down lt xs 0 (length xs))"
proof -
  have "heap_up lt ys 0 = ys" for ys :: "'a list"
    by (subst heap_up.simps) simp
  then show ?thesis by (simp add: heap_fix_def split_beta)
qed

lemma heap_drain_total: "n \<le> length xs \<Longrightarrow> \<exists>ys zs. heap_drain lt n xs = Inr (ys, zs)"
proof (induction n arbitrary: xs)
  case 0
  then show ?case by simp
next
  case (Suc n)
  then have "xs \<noteq> []" by auto
  then obtain x xs' where pop: "heap_pop lt xs = Inr (x, xs')" using heap_pop_total by blast
  then have "n \<le> length xs'" using heap_pop_length [OF pop] Suc.prems by simp
  then obtain ys zs where "heap_drain lt n xs' = Inr (ys, zs)" using Suc.IH by blast
  with pop show ?case by simp
qed

lemma heap_drain_mset:
  "heap_drain lt n xs = Inr (ys, zs) \<Longrightarrow> length ys = n \<and> mset ys + mset zs = mset xs"
proof (induction n arbitrary: xs ys)
  case 0
  then show ?case by simp
next
  case (Suc n)
  then obtain x xs' ys' where pop: "heap_pop lt xs = Inr (x, xs')"
    and dr: "heap_drain lt n xs' = Inr (ys', zs)" and ys: "ys = x # ys'"
    by (auto split: sum.splits prod.splits)
  show ?case using Suc.IH [OF dr] heap_pop_mset [OF pop] ys by simp
qed

context heap_order
begin

lemma pop_ok:
  assumes h: "is_heap xs" and pop: "heap_pop lt xs = Inr (x, ys)"
  shows "is_heap ys \<and> (\<forall>y\<in>set ys. \<not> lt y x)"
proof
  let ?n = "length xs - 1"
  have ne: "xs \<noteq> []" using heap_pop_Inr [OF pop] by blast
  let ?d = "fst (heap_down lt (swap xs 0 ?n) 0 ?n)"
  have ys: "ys = butlast ?d" using pop ne by (auto simp: heap_pop_def Let_def)
  have "down_hole lt (swap xs 0 ?n) ?n 0"
    using h ne unfolding down_hole_def heap_ok_def by (auto simp: nth_swap)
  then have d: "heap_ok lt ?d ?n" using heap_ok_down by simp
  have "length ys = ?n" using ys by simp
  with d show "is_heap ys" unfolding ys heap_ok_def by (simp add: nth_butlast)
  have "\<not> lt y x" if "y \<in># mset ys" for y
  proof -
    have "y \<in> set xs" using that heap_pop_mset [OF pop]
      by (metis insert_iff set_mset_add_mset_insert set_mset_mset)
    then obtain k where "k < length xs" "y = xs ! k" by (metis in_set_conv_nth)
    then show ?thesis using heap_ok_root [OF h] heap_pop_root [OF pop] by simp
  qed
  then show "\<forall>y\<in>set ys. \<not> lt y x" by simp
qed

lemma drain_ok:
  "is_heap xs \<Longrightarrow> heap_drain lt n xs = Inr (ys, zs) \<Longrightarrow>
   is_heap zs \<and> sorted_wrt (\<lambda>a b. \<not> lt b a) ys \<and> (\<forall>y\<in>set ys. \<forall>z\<in>set zs. \<not> lt z y)"
proof (induction n arbitrary: xs ys)
  case 0
  then show ?case by simp
next
  case (Suc n)
  from Suc.prems(2) obtain x xs' ys' where pop: "heap_pop lt xs = Inr (x, xs')"
    and dr: "heap_drain lt n xs' = Inr (ys', zs)" and ys: "ys = x # ys'"
    by (auto split: sum.splits prod.splits)
  from pop_ok [OF Suc.prems(1) pop]
  have xs': "is_heap xs'" and x: "\<forall>y\<in>set xs'. \<not> lt y x" by blast+
  note ih = Suc.IH [OF xs' dr]
  have el: "set xs' = set ys' \<union> set zs"
    using arg_cong [where f = set_mset, OF conjunct2 [OF heap_drain_mset [OF dr]]] by simp
  have "sorted_wrt (\<lambda>a b. \<not> lt b a) ys" using ih x el ys by simp
  moreover have "\<forall>y\<in>set ys. \<forall>z\<in>set zs. \<not> lt z y" using ih x el ys by simp
  ultimately show ?case using ih by blast
qed

lemma fix_root_ok:
  assumes h: "is_heap xs" and ne: "xs \<noteq> []"
  shows "is_heap (heap_fix lt (xs[0 := x]) 0)"
proof -
  have "down_hole lt (xs[0 := x]) (length xs) 0"
    using h ne unfolding down_hole_def heap_ok_def by (auto simp: nth_list_update)
  then have d: "heap_ok lt (fst (heap_down lt (xs[0 := x]) 0 (length xs))) (length xs)"
    using heap_ok_down by simp
  with d show ?thesis by (simp add: heap_fix_root)
qed

end

lemma mset_heap_fix_root: "xs \<noteq> [] \<Longrightarrow> mset (heap_fix lt xs 0) = mset xs"
proof -
  assume "xs \<noteq> []"
  then show ?thesis using heap_down_elems [of "length xs" xs lt 0] by (simp add: heap_fix_root)
qed

lemma length_heap_fix [simp]: "length (heap_fix lt xs i) = length xs"
  by (simp add: heap_fix_def split_beta)

subsection \<open>Selecting the k greatest elements with a bounded heap\<close>

text \<open>
  The contract of a bounded heap that has been offered the elements \<open>xs\<close>: it is a heap of
  \<open>min k (length xs)\<close> of them, and no element left out is above a kept one.
\<close>

definition selects :: "('e \<Rightarrow> 'e \<Rightarrow> bool) \<Rightarrow> nat \<Rightarrow> 'e list \<Rightarrow> 'e list \<Rightarrow> bool" where
  "selects lt k xs h \<longleftrightarrow>
     heap_ok lt h (length h) \<and> length h = min k (length xs) \<and>
     (\<exists>D. mset xs = mset h + D \<and> (\<forall>d\<in>#D. \<forall>y\<in>set h. \<not> lt y d))"

locale top_k_selector = heap_order lt
  for lt :: "'e \<Rightarrow> 'e \<Rightarrow> bool" +
  fixes k :: nat and offer :: "'e list \<Rightarrow> 'e \<Rightarrow> 'e list"
  assumes offer_selects: "selects lt k xs h \<Longrightarrow> selects lt k (xs @ [x]) (offer h x)"
begin

lemma selects_offers: "selects lt k ys h \<Longrightarrow> selects lt k (ys @ xs) (foldl offer h xs)"
proof (induction xs arbitrary: ys h)
  case Nil
  then show ?case by simp
next
  case (Cons x xs)
  then show ?case using Cons.IH [OF offer_selects [OF Cons.prems], of x] by simp
qed

lemma selects_all: "selects lt k xs (foldl offer [] xs)"
proof -
  have "selects lt k [] []" by (simp add: selects_def)
  from selects_offers [OF this, of xs] show ?thesis by simp
qed

end

text \<open>
  The usual bounded heap: push, and pop the minimum when the heap has grown past \<open>k\<close>.
\<close>

definition bounded_offer :: "('e \<Rightarrow> 'e \<Rightarrow> bool) \<Rightarrow> nat \<Rightarrow> 'e list \<Rightarrow> 'e \<Rightarrow> 'e list" where
  "bounded_offer lt k h x =
     (let h' = heap_push lt h x
      in if k < length h' then (case heap_pop lt h' of Inl p \<Rightarrow> h' | Inr (r, h'') \<Rightarrow> h'') else h')"

lemma selects_full: "selects lt k xs h \<Longrightarrow> length h < k \<Longrightarrow> mset xs = mset h"
proof -
  assume sel: "selects lt k xs h" and less: "length h < k"
  from sel obtain D where D: "mset xs = mset h + D" unfolding selects_def by blast
  have "length xs = length h" using sel less unfolding selects_def by linarith
  with arg_cong [OF D, of size] have "D = {#}" by simp
  with D show ?thesis by simp
qed

context heap_order
begin

lemma bounded_offer_selects:
  assumes sel: "selects lt k xs h"
  shows "selects lt k (xs @ [x]) (bounded_offer lt k h x)"
proof -
  let ?h = "heap_push lt h x"
  from sel have "is_heap h" unfolding selects_def by blast
  then have ok: "is_heap ?h" by (rule push_ok)
  show ?thesis
  proof (cases "length h < k")
    case True
    then have "mset xs = mset h" "length xs = length h"
      using selects_full [OF sel] by (auto dest: mset_eq_length)
    then show ?thesis
      using ok True by (simp add: selects_def bounded_offer_def mset_heap_push)
  next
    case False
    then have k: "length h = k" "k \<le> length xs" using sel by (auto simp: selects_def)
    obtain D where D: "mset xs = mset h + D" and low: "\<And>d y. d \<in># D \<Longrightarrow> y \<in> set h \<Longrightarrow> \<not> lt y d"
      using sel by (auto simp: selects_def)
    have "?h \<noteq> []" by (metis length_heap_push list.size(3) nat.distinct(1))
    then obtain r h'' where pop: "heap_pop lt ?h = Inr (r, h'')" using heap_pop_total by blast
    have el: "add_mset x (mset h) = add_mset r (mset h'')"
      using heap_pop_mset [OF pop] by (simp add: mset_heap_push)
    from pop_ok [OF ok pop] have ok': "is_heap h''" and r: "\<And>y. y \<in> set h'' \<Longrightarrow> \<not> lt y r"
      by blast+
    have lowD: "\<not> lt y d" if "d \<in># D" "y \<in> set h''" for y d
    proof (cases "y \<in> set h")
      case True
      then show ?thesis using low that by blast
    next
      case False
      have "y \<in># add_mset x (mset h)" using that(2) el by simp
      with False have y: "y = x" by simp
      from y False that(2) have "r \<noteq> x"
        using el by (metis add_mset_add_mset_same_iff mset_eq_setD)
      then have "r \<in> set h" using el by (metis insert_iff set_mset_add_mset_insert set_mset_mset)
      then have "\<not> lt r d" using low that by blast
      with r [OF that(2)] show ?thesis by (rule neg_trans)
    qed
    have off: "bounded_offer lt k h x = h''"
      using pop k by (simp add: bounded_offer_def)
    have "mset (xs @ [x]) = mset h'' + add_mset r D" using D el by simp
    moreover have "\<forall>d\<in>#add_mset r D. \<forall>y\<in>set h''. \<not> lt y d" using r lowD by auto
    moreover have "length h'' = min k (length (xs @ [x]))"
      using heap_pop_length [OF pop] k by simp
    ultimately show ?thesis unfolding off selects_def using ok' by blast
  qed
qed

lemma bounded_selector: "top_k_selector lt k (bounded_offer lt k)"
  by unfold_locales (rule bounded_offer_selects)

end

end
