(* ===== verification/Weighted_Heap.thy ===== *)
theory Weighted_Heap
  imports Go_Heap
begin

text \<open>
  \<open>common/heap\<close>: the weighted heap \<open>_heap\<close> that both queues embed, the top-k filter of
  \<open>filter.go\<close> and the priority queue of \<open>pq.go\<close>. The weights are any linear order
  (\<open>cmp.Ordered\<close>); a float weight that may be NaN is a value of \<open>gofloat\<close>, whose \<open>Num\<close>
  part is the linearly ordered rest, and the queue's guard against NaN is the only way in.
\<close>

subsection \<open>The embedded heap\<close>

record ('e, 'w) elem =
  elem_value :: 'e
  elem_weight :: 'w

record ('e, 'w) wheap =
  elems :: "('e, 'w) elem list"
  desc :: bool

definition wheap_Len :: "('e, 'w, 'z) wheap_scheme \<Rightarrow> nat" where
  "wheap_Len h = length (elems h)"

text \<open>\<open>Less\<close> on the two elements, and on two positions of the slice.\<close>

definition heap_less :: "bool \<Rightarrow> ('e, 'w::linorder) elem \<Rightarrow> ('e, 'w) elem \<Rightarrow> bool" where
  "heap_less d a b = (if d then elem_weight b < elem_weight a else elem_weight a < elem_weight b)"

definition wheap_Less :: "('e, 'w::linorder, 'z) wheap_scheme \<Rightarrow> nat \<Rightarrow> nat \<Rightarrow> go_panic + bool" where
  "wheap_Less h i j =
     (if i < length (elems h) \<and> j < length (elems h)
      then Inr (heap_less (desc h) (elems h ! i) (elems h ! j)) else Inl IndexOutOfRange)"

definition wheap_Swap :: "('e, 'w, 'z) wheap_scheme \<Rightarrow> nat \<Rightarrow> nat \<Rightarrow> go_panic + ('e, 'w, 'z) wheap_scheme" where
  "wheap_Swap h i j =
     (if i < length (elems h) \<and> j < length (elems h)
      then Inr (h\<lparr>elems := swap (elems h) i j\<rparr>) else Inl IndexOutOfRange)"

definition wheap_Push :: "('e, 'w, 'z) wheap_scheme \<Rightarrow> ('e, 'w) elem \<Rightarrow> ('e, 'w, 'z) wheap_scheme" where
  "wheap_Push h it = h\<lparr>elems := elems h @ [it]\<rparr>"

definition wheap_Pop :: "('e, 'w, 'z) wheap_scheme \<Rightarrow> go_panic + (('e, 'w) elem \<times> ('e, 'w, 'z) wheap_scheme)" where
  "wheap_Pop h =
     (if elems h = [] then Inl IndexOutOfRange
      else Inr (last (elems h), h\<lparr>elems := butlast (elems h)\<rparr>))"

lemma heap_order_weights: "heap_order (heap_less d :: ('e, 'w::linorder) elem \<Rightarrow> _)"
  by unfold_locales (auto simp: heap_less_def split: if_splits)

interpretation weights: heap_order "heap_less d :: ('e, 'w::linorder) elem \<Rightarrow> _" for d
  by (rule heap_order_weights)

text \<open>
  \<open>heap.Push(&h, x)\<close> and \<open>heap.Pop(&h)\<close> of the standard library, on the embedded heap: the
  client's \<open>Push\<close> appends and \<open>up\<close> moves the element; \<open>Pop\<close> swaps the root to the end, \<open>down\<close>
  repairs the rest and the client's \<open>Pop\<close> takes the last element.
\<close>

definition wheap_heap_Push :: "('e, 'w::linorder, 'z) wheap_scheme \<Rightarrow> ('e, 'w) elem \<Rightarrow> ('e, 'w, 'z) wheap_scheme" where
  "wheap_heap_Push h it =
     (let h' = wheap_Push h it
      in h'\<lparr>elems := heap_up (heap_less (desc h)) (elems h') (wheap_Len h' - 1)\<rparr>)"

definition wheap_heap_Pop :: "('e, 'w::linorder, 'z) wheap_scheme \<Rightarrow> go_panic + (('e, 'w) elem \<times> ('e, 'w, 'z) wheap_scheme)" where
  "wheap_heap_Pop h =
     (if elems h = [] then Inl IndexOutOfRange
      else let n = wheap_Len h - 1;
               h' = h\<lparr>elems := fst (heap_down (heap_less (desc h)) (swap (elems h) 0 n) 0 n)\<rparr>
           in wheap_Pop h')"

lemma wheap_heap_Push_eq:
  "wheap_heap_Push h it = h\<lparr>elems := heap_push (heap_less (desc h)) (elems h) it\<rparr>"
  by (simp add: wheap_heap_Push_def wheap_Push_def wheap_Len_def heap_push_def)

lemma wheap_heap_Pop_eq:
  "wheap_heap_Pop h =
     (case heap_pop (heap_less (desc h)) (elems h) of
        Inl p \<Rightarrow> Inl p
      | Inr (x, es) \<Rightarrow> Inr (x, h\<lparr>elems := es\<rparr>))"
proof (cases "elems h = []")
  case True
  then show ?thesis by (simp add: wheap_heap_Pop_def heap_pop_def)
next
  case False
  let ?n = "length (elems h) - 1"
  let ?d = "fst (heap_down (heap_less (desc h)) (swap (elems h) 0 ?n) 0 ?n)"
  have "length ?d = length (elems h)" by simp
  then have "?d \<noteq> []" using False by (metis length_0_conv)
  with False show ?thesis
    by (simp add: wheap_heap_Pop_def wheap_Pop_def wheap_Len_def heap_pop_def Let_def)
qed

lemmas wheap_eqs = wheap_heap_Push_eq wheap_heap_Pop_eq

subsection \<open>The top-k filter\<close>

record ('e, 'w) topk_filter = "('e, 'w) wheap" +
  filter_k :: int

definition NewTopKFilter :: "int \<Rightarrow> ('e, 'w) topk_filter" where
  "NewTopKFilter k = \<lparr>elems = [], desc = False, filter_k = k\<rparr>"

definition topk_Push :: "('e, 'w::linorder) topk_filter \<Rightarrow> 'e \<Rightarrow> 'w \<Rightarrow> go_panic + ('e, 'w) topk_filter" where
  "topk_Push f item weight =
     (let f' = wheap_heap_Push f \<lparr>elem_value = item, elem_weight = weight\<rparr>
      in if int (wheap_Len f') > filter_k f'
         then (case wheap_heap_Pop f' of Inl p \<Rightarrow> Inl p | Inr (x, f'') \<Rightarrow> Inr f'')
         else Inr f')"

text \<open>
  \<open>PopAll\<close> fills the result slice from its end: the element popped at step \<open>t\<close> goes to
  index \<open>n - 1 - t\<close>.
\<close>

fun topk_PopAll_loop :: "nat \<Rightarrow> ('e, 'w::linorder) elem list \<Rightarrow> ('e, 'w) topk_filter \<Rightarrow>
    go_panic + (('e, 'w) elem list \<times> ('e, 'w) topk_filter)" where
  "topk_PopAll_loop 0 results f = Inr (results, f)"
| "topk_PopAll_loop (Suc i) results f =
     (case wheap_heap_Pop f of
        Inl p \<Rightarrow> Inl p
      | Inr (x, f') \<Rightarrow> topk_PopAll_loop i (results[i := x]) f')"

definition topk_PopAll :: "('e, 'w::linorder) elem \<Rightarrow> ('e, 'w) topk_filter \<Rightarrow>
    go_panic + (('e, 'w) elem list \<times> ('e, 'w) topk_filter)" where
  "topk_PopAll zero f = topk_PopAll_loop (wheap_Len f) (replicate (wheap_Len f) zero) f"

fun topk_PopAllValues_loop :: "nat \<Rightarrow> 'e list \<Rightarrow> ('e, 'w::linorder) topk_filter \<Rightarrow>
    go_panic + ('e list \<times> ('e, 'w) topk_filter)" where
  "topk_PopAllValues_loop 0 items f = Inr (items, f)"
| "topk_PopAllValues_loop (Suc i) items f =
     (case wheap_heap_Pop f of
        Inl p \<Rightarrow> Inl p
      | Inr (x, f') \<Rightarrow> topk_PopAllValues_loop i (items[i := elem_value x]) f')"

definition topk_PopAllValues :: "'e \<Rightarrow> ('e, 'w::linorder) topk_filter \<Rightarrow>
    go_panic + ('e list \<times> ('e, 'w) topk_filter)" where
  "topk_PopAllValues zero f = topk_PopAllValues_loop (wheap_Len f) (replicate (wheap_Len f) zero) f"

text \<open>Pushing a sequence of pairs, the loops of the filter's callers.\<close>

fun topk_push_all :: "('e, 'w::linorder) topk_filter \<Rightarrow> ('e \<times> 'w) list \<Rightarrow> go_panic + ('e, 'w) topk_filter" where
  "topk_push_all f [] = Inr f"
| "topk_push_all f ((v, w) # ps) =
     (case topk_Push f v w of Inl p \<Rightarrow> Inl p | Inr f' \<Rightarrow> topk_push_all f' ps)"

subsubsection \<open>The filter on the slice of elements\<close>

interpretation bounded: top_k_selector
  "heap_less d :: ('e, 'w::linorder) elem \<Rightarrow> _" k "bounded_offer (heap_less d) k" for d k
  by (rule weights.bounded_selector)

abbreviation mk_elem :: "'e \<times> 'w \<Rightarrow> ('e, 'w) elem" where
  "mk_elem p \<equiv> \<lparr>elem_value = fst p, elem_weight = snd p\<rparr>"

lemma elems_neq_Nil_pop:
  "xs \<noteq> [] \<Longrightarrow> \<exists>x ys. heap_pop lt xs = Inr (x, ys)"
  by (rule heap_pop_total)

lemma topk_Push_eq:
  "topk_Push f v w =
     Inr (f\<lparr>elems := bounded_offer (heap_less (desc f)) (nat (filter_k f)) (elems f) (mk_elem (v, w))\<rparr>)"
proof -
  let ?lt = "heap_less (desc f) :: ('a, 'b) elem \<Rightarrow> _"
  let ?h = "heap_push ?lt (elems f) (mk_elem (v, w))"
  have "?h \<noteq> []" by (metis length_heap_push list.size(3) nat.distinct(1))
  then obtain x ys where "heap_pop ?lt ?h = Inr (x, ys)" using heap_pop_total by blast
  then show ?thesis
    by (auto simp: topk_Push_def wheap_eqs wheap_Len_def bounded_offer_def Let_def)
qed

lemma topk_push_all_eq:
  "topk_push_all f ps =
     Inr (f\<lparr>elems := foldl (bounded_offer (heap_less (desc f)) (nat (filter_k f))) (elems f) (map mk_elem ps)\<rparr>)"
proof (induction ps arbitrary: f)
  case Nil
  then show ?case by simp
next
  case (Cons p ps)
  then show ?case by (cases p) (simp add: topk_Push_eq)
qed

lemma topk_PopAll_loop_eq:
  "heap_drain (heap_less (desc f)) n (elems f) = Inr (ys, zs) \<Longrightarrow> n \<le> length results \<Longrightarrow>
   topk_PopAll_loop n results f = Inr (rev ys @ drop n results, f\<lparr>elems := zs\<rparr>)"
proof (induction n arbitrary: results f ys)
  case 0
  then show ?case by simp
next
  case (Suc n)
  from Suc.prems(1) obtain x es ys' where pop: "heap_pop (heap_less (desc f)) (elems f) = Inr (x, es)"
    and dr: "heap_drain (heap_less (desc f)) n es = Inr (ys', zs)" and ys: "ys = x # ys'"
    by (auto split: sum.splits prod.splits)
  have "drop n (results[n := x]) = x # drop (Suc n) results"
    using Suc.prems(2) by (simp add: Cons_nth_drop_Suc [symmetric])
  then show ?case
    using pop ys Suc.IH [of "f\<lparr>elems := es\<rparr>" ys' "results[n := x]"] dr Suc.prems(2)
    by (simp add: wheap_heap_Pop_eq)
qed

lemma topk_PopAllValues_loop_eq:
  "heap_drain (heap_less (desc f)) n (elems f) = Inr (ys, zs) \<Longrightarrow> n \<le> length items \<Longrightarrow>
   topk_PopAllValues_loop n items f = Inr (map elem_value (rev ys) @ drop n items, f\<lparr>elems := zs\<rparr>)"
proof (induction n arbitrary: items f ys)
  case 0
  then show ?case by simp
next
  case (Suc n)
  from Suc.prems(1) obtain x es ys' where pop: "heap_pop (heap_less (desc f)) (elems f) = Inr (x, es)"
    and dr: "heap_drain (heap_less (desc f)) n es = Inr (ys', zs)" and ys: "ys = x # ys'"
    by (auto split: sum.splits prod.splits)
  have "drop n (items[n := elem_value x]) = elem_value x # drop (Suc n) items"
    using Suc.prems(2) by (simp add: Cons_nth_drop_Suc [symmetric])
  then show ?case
    using pop ys Suc.IH [of "f\<lparr>elems := es\<rparr>" ys' "items[n := elem_value x]"] dr Suc.prems(2)
    by (simp add: wheap_heap_Pop_eq)
qed

lemma topk_PopAll_drain:
  obtains ys where "heap_drain (heap_less (desc f)) (length (elems f)) (elems f) = Inr (rev ys, [])"
    and "mset ys = mset (elems f)"
    and "\<And>zero. topk_PopAll zero f = Inr (ys, f\<lparr>elems := []\<rparr>)"
    and "\<And>zero. topk_PopAllValues zero f = Inr (map elem_value ys, f\<lparr>elems := []\<rparr>)"
proof -
  obtain ys zs where dr: "heap_drain (heap_less (desc f)) (length (elems f)) (elems f) = Inr (ys, zs)"
    using heap_drain_total by blast
  note m = heap_drain_mset [OF dr]
  have "zs = []" using m by (metis add_diff_cancel_left' diff_self_eq_0 length_0_conv size_mset size_union)
  with dr m that [of "rev ys"] topk_PopAll_loop_eq [OF dr] topk_PopAllValues_loop_eq [OF dr]
  show ?thesis
    by (simp add: topk_PopAll_def topk_PopAllValues_def wheap_Len_def)
qed

lemma sort_split_greatest:
  fixes ws :: "'w::linorder list"
  assumes "mset vs = mset ws + D" and "sorted ws" and "\<And>d w. d \<in># D \<Longrightarrow> w \<in> set ws \<Longrightarrow> d \<le> w"
  shows "rev (sort vs) = rev ws @ rev (sorted_list_of_multiset D)"
proof -
  have "sort vs = sorted_list_of_multiset D @ ws"
    by (rule properties_for_sort) (use assms in \<open>auto simp: sorted_append ac_simps\<close>)
  then show ?thesis by simp
qed

lemma elem_weight_mk [simp]: "map elem_weight (map mk_elem ps) = map snd ps"
  by simp

lemma sorted_weights_drain:
  "sorted_wrt (\<lambda>a b. \<not> heap_less False b a) xs \<longleftrightarrow> sorted (map elem_weight xs)"
  by (simp add: sorted_map heap_less_def not_less)

text \<open>What the filter holds after the pushes, and what \<open>PopAll\<close> makes of it.\<close>

lemma topk_result:
  obtains f ys where "topk_push_all (NewTopKFilter k) ps = Inr f"
    and "\<And>zero. topk_PopAll zero f = Inr (ys, f\<lparr>elems := []\<rparr>)"
    and "\<And>zero. topk_PopAllValues zero f = Inr (map elem_value ys, f\<lparr>elems := []\<rparr>)"
    and "map elem_weight ys = take (nat k) (rev (sort (map snd ps)))"
    and "mset ys \<subseteq># mset (map mk_elem ps)"
proof -
  let ?k = "nat k" and ?es = "map mk_elem ps" and ?lt = "heap_less False :: ('a, 'b) elem \<Rightarrow> _"
  define h where "h = foldl (bounded_offer ?lt ?k) [] ?es"
  define f where "f = (NewTopKFilter k :: ('a, 'b) topk_filter)\<lparr>elems := h\<rparr>"
  have push: "topk_push_all (NewTopKFilter k) ps = Inr f"
    unfolding f_def h_def by (simp add: topk_push_all_eq NewTopKFilter_def)
  have f: "elems f = h" "desc f = False" by (simp_all add: f_def NewTopKFilter_def)
  have "selects ?lt ?k ?es h" unfolding h_def by (rule bounded.selects_all)
  then obtain D where ok: "heap_ok ?lt h (length h)" and len: "length h = min ?k (length ps)"
    and D: "mset ?es = mset h + D"
    and low: "\<And>d y. d \<in># D \<Longrightarrow> y \<in> set h \<Longrightarrow> \<not> ?lt y d"
    by (auto simp: selects_def)
  from topk_PopAll_drain [of f] obtain ys
    where dr: "heap_drain ?lt (length h) h = Inr (rev ys, [])" and el: "mset ys = mset h"
    and pop: "\<And>zero. topk_PopAll zero f = Inr (ys, f\<lparr>elems := []\<rparr>)"
    and popv: "\<And>zero. topk_PopAllValues zero f = Inr (map elem_value ys, f\<lparr>elems := []\<rparr>)"
    by (auto simp: f)
  let ?ws = "map elem_weight (rev ys)"
  have sorted: "sorted ?ws"
    using weights.drain_ok [OF ok dr] by (simp add: sorted_weights_drain)
  have "image_mset elem_weight (mset ?es) = mset (map snd ps)"
    by (simp add: multiset.map_comp o_def)
  then have "mset (map snd ps) = mset ?ws + image_mset elem_weight D"
    unfolding D image_mset_union by (simp add: el)
  moreover have "d \<le> w" if "d \<in># image_mset elem_weight D" "w \<in> set ?ws" for d w
    using that low mset_eq_setD [OF el] by (auto simp: heap_less_def not_less)
  ultimately have greatest: "rev (sort (map snd ps)) =
      map elem_weight ys @ rev (sorted_list_of_multiset (image_mset elem_weight D))"
    using sort_split_greatest [OF _ sorted, of "map snd ps" "image_mset elem_weight D"]
    by (simp add: rev_map)
  have leny: "length ys = min ?k (length ps)" using mset_eq_length [OF el] len by simp
  have w: "map elem_weight ys = take ?k (rev (sort (map snd ps)))"
  proof (cases "?k \<le> length ps")
    case True
    then show ?thesis using greatest leny by simp
  next
    case False
    then have "length ys = length (rev (sort (map snd ps)))" using leny by simp
    then show ?thesis using greatest False leny by simp
  qed
  have "mset ys \<subseteq># mset ?es" unfolding D el by simp
  from that [OF push pop popv w this] show ?thesis .
qed

text \<open>
  (C24) Filter correctness: for every sequence of pushes, with any \<open>k\<close> (zero and negative
  included), the filter never panics, and \<open>PopAll\<close> returns pushed pairs whose weights are
  exactly the \<open>k\<close> greatest weights pushed, in decreasing order, and leaves the filter empty.
\<close>

theorem topk_filter_greatest:
  "\<exists>f ys. topk_push_all (NewTopKFilter k) ps = Inr f \<and>
     topk_PopAll zero f = Inr (ys, f\<lparr>elems := []\<rparr>) \<and>
     map elem_weight ys = take (nat k) (rev (sort (map snd ps))) \<and>
     mset (map (\<lambda>e. (elem_value e, elem_weight e)) ys) \<subseteq># mset ps"
proof -
  obtain f ys where r: "topk_push_all (NewTopKFilter k) ps = Inr f"
    "topk_PopAll zero f = Inr (ys, f\<lparr>elems := []\<rparr>)"
    "map elem_weight ys = take (nat k) (rev (sort (map snd ps)))"
    and sub: "mset ys \<subseteq># mset (map mk_elem ps)"
    by (rule topk_result [of k ps]) blast
  have "image_mset (\<lambda>e. (elem_value e, elem_weight e)) (mset ys) \<subseteq>#
        image_mset (\<lambda>e. (elem_value e, elem_weight e)) (mset (map mk_elem ps))"
    by (rule image_mset_subseteq_mono [OF sub])
  then have "mset (map (\<lambda>e. (elem_value e, elem_weight e)) ys) \<subseteq># mset ps"
    by (simp add: o_def multiset.map_comp)
  with r show ?thesis by blast
qed

end
