(* ===== verification/Priority_Queue.thy ===== *)
theory Priority_Queue
  imports Weighted_Heap
begin

text \<open>
  \<open>common/heap/pq.go\<close>: the priority queue of \<open>int32\<close> values with \<open>float32\<close> weights and a
  set of the values it has taken, with its guard against NaN and duplicates. A weight
  offered to \<open>Push\<close> is a \<open>gofloat\<close>; a stored weight is its non-NaN part.
\<close>

datatype 'w gofloat = NaN | Num 'w

record 'w pqueue = "(i32, 'w) wheap" +
  lookup :: "i32 set"

definition NewPriorityQueue :: "bool \<Rightarrow> 'w pqueue" where
  "NewPriorityQueue d = \<lparr>elems = [], desc = d, lookup = {}\<rparr>"

definition pq_Push :: "('w::linorder) pqueue \<Rightarrow> i32 \<Rightarrow> 'w gofloat \<Rightarrow> go_panic + 'w pqueue" where
  "pq_Push p v weight =
     (case weight of
        NaN \<Rightarrow> Inl (ExplicitPanic ''NaN weight is forbidden'')
      | Num w \<Rightarrow>
          (if v \<notin> lookup p
           then let newItem = \<lparr>elem_value = v, elem_weight = w\<rparr>; p' = wheap_heap_Push p newItem
                in Inr (p'\<lparr>lookup := insert v (lookup p')\<rparr>)
           else Inr p))"

definition pq_Pop :: "('w::linorder) pqueue \<Rightarrow> go_panic + ((i32 \<times> 'w) \<times> 'w pqueue)" where
  "pq_Pop p =
     (case wheap_heap_Pop p of
        Inl e \<Rightarrow> Inl e
      | Inr (item, p') \<Rightarrow> Inr ((elem_value item, elem_weight item), p'))"

definition pq_Peek :: "('w::linorder) pqueue \<Rightarrow> go_panic + (i32 \<times> 'w)" where
  "pq_Peek p =
     (case elems p of [] \<Rightarrow> Inl IndexOutOfRange | e # es \<Rightarrow> Inr (elem_value e, elem_weight e))"

definition pq_Values :: "('w::linorder) pqueue \<Rightarrow> i32 list" where
  "pq_Values p = map elem_value (elems p)"

definition pq_Elems :: "('w::linorder) pqueue \<Rightarrow> (i32, 'w) elem list" where
  "pq_Elems p = elems p"

text \<open>\<open>Clone\<close> copies the elements into a new queue; the new queue's set stays empty.\<close>

definition pq_Clone :: "('w::linorder) pqueue \<Rightarrow> 'w pqueue" where
  "pq_Clone p = (NewPriorityQueue (desc p))\<lparr>elems := elems p\<rparr>"

fun pq_push_elems :: "('w::linorder) pqueue \<Rightarrow> (i32, 'w) elem list \<Rightarrow> go_panic + 'w pqueue" where
  "pq_push_elems p [] = Inr p"
| "pq_push_elems p (e # es) =
     (case pq_Push p (elem_value e) (Num (elem_weight e)) of
        Inl x \<Rightarrow> Inl x
      | Inr p' \<Rightarrow> pq_push_elems p' es)"

definition pq_Reverse :: "('w::linorder) pqueue \<Rightarrow> go_panic + 'w pqueue" where
  "pq_Reverse p = pq_push_elems (NewPriorityQueue (\<not> desc p)) (elems p)"

subsection \<open>Invariant\<close>

text \<open>
  The slice is a heap, no value occurs twice, and every value of the slice is in the set.
\<close>

definition pq_inv :: "('w::linorder) pqueue \<Rightarrow> bool" where
  "pq_inv p \<longleftrightarrow>
     heap_ok (heap_less (desc p)) (elems p) (length (elems p)) \<and>
     distinct (pq_Values p) \<and> set (pq_Values p) \<subseteq> lookup p"

lemma pq_inv_new [simp]: "pq_inv (NewPriorityQueue d)"
  by (simp add: pq_inv_def NewPriorityQueue_def pq_Values_def)

lemma pq_Push_cases:
  "pq_Push p v (Num w) =
     Inr (if v \<in> lookup p then p
          else p\<lparr>elems := heap_push (heap_less (desc p)) (elems p) \<lparr>elem_value = v, elem_weight = w\<rparr>,
                 lookup := insert v (lookup p)\<rparr>)"
  by (simp add: pq_Push_def wheap_heap_Push_eq Let_def)

lemma distinct_Values_mset:
  "mset es = mset fs \<Longrightarrow> distinct (map elem_value es) = distinct (map elem_value fs)"
  by (metis mset_eq_imp_distinct_iff mset_map)

lemma pq_Push_inv:
  assumes inv: "pq_inv p" and push: "pq_Push p v w = Inr p'"
  shows "pq_inv p'"
proof -
  from push obtain x where w: "w = Num x" by (cases w) (auto simp: pq_Push_def)
  let ?e = "\<lparr>elem_value = v, elem_weight = x\<rparr>"
  let ?es = "heap_push (heap_less (desc p)) (elems p) ?e"
  show ?thesis
  proof (cases "v \<in> lookup p")
    case True
    then show ?thesis using push inv w by (simp add: pq_Push_cases)
  next
    case False
    have m: "mset ?es = mset (?e # elems p)" by (simp add: mset_heap_push)
    have "heap_ok (heap_less (desc p)) ?es (length ?es)"
      using inv unfolding pq_inv_def by (intro weights.push_ok) blast
    moreover have "distinct (map elem_value ?es)"
      using inv False unfolding distinct_Values_mset [OF m] by (auto simp: pq_inv_def pq_Values_def)
    moreover have "elem_value ` set ?es \<subseteq> insert v (lookup p)"
      using inv mset_eq_setD [OF m] by (auto simp: pq_inv_def pq_Values_def)
    ultimately show ?thesis
      using push False w by (auto simp: pq_Push_cases) (simp add: pq_inv_def pq_Values_def)
  qed
qed

lemma pq_Pop_Inr:
  "pq_Pop p = Inr (vw, p') \<longleftrightarrow>
     (\<exists>e es. heap_pop (heap_less (desc p)) (elems p) = Inr (e, es) \<and>
        vw = (elem_value e, elem_weight e) \<and> p' = p\<lparr>elems := es\<rparr>)"
  by (auto simp: pq_Pop_def wheap_heap_Pop_eq split: sum.splits prod.splits)

lemma pq_Pop_inv:
  assumes inv: "pq_inv p" and pop: "pq_Pop p = Inr (vw, p')"
  shows "pq_inv p'"
proof -
  obtain e es where hp: "heap_pop (heap_less (desc p)) (elems p) = Inr (e, es)"
    and p': "p' = p\<lparr>elems := es\<rparr>" using pop by (auto simp: pq_Pop_Inr)
  have "mset (elems p) = mset (e # es)" using heap_pop_mset [OF hp] by simp
  note d = distinct_Values_mset [OF this] and s = mset_eq_setD [OF this]
  have "heap_ok (heap_less (desc p)) es (length es)"
    using inv hp weights.pop_ok unfolding pq_inv_def by blast
  then show ?thesis using inv d s p' by (auto simp: pq_inv_def pq_Values_def)
qed

subsection \<open>Runs of the queue\<close>

datatype 'w pq_op = OpPush i32 "'w gofloat" | OpPop

fun pq_step :: "('w::linorder) pqueue \<Rightarrow> 'w pq_op \<Rightarrow> go_panic + 'w pqueue" where
  "pq_step p (OpPush v w) = pq_Push p v w"
| "pq_step p OpPop = (case pq_Pop p of Inl e \<Rightarrow> Inl e | Inr (vw, p') \<Rightarrow> Inr p')"

fun pq_run :: "('w::linorder) pqueue \<Rightarrow> 'w pq_op list \<Rightarrow> go_panic + 'w pqueue" where
  "pq_run p [] = Inr p"
| "pq_run p (c # cs) = (case pq_step p c of Inl e \<Rightarrow> Inl e | Inr p' \<Rightarrow> pq_run p' cs)"

lemma pq_step_inv: "pq_inv p \<Longrightarrow> pq_step p c = Inr p' \<Longrightarrow> pq_inv p'"
  by (cases c) (auto split: sum.splits intro: pq_Push_inv pq_Pop_inv)

lemma pq_run_keeps_inv: "pq_inv p \<Longrightarrow> pq_run p cs = Inr p' \<Longrightarrow> pq_inv p'"
proof (induction cs arbitrary: p)
  case Nil
  then show ?case by simp
next
  case (Cons c cs)
  then show ?case by (auto split: sum.splits dest: pq_step_inv)
qed

lemma pq_Pop_total:
  assumes "elems p \<noteq> []"
  obtains v w p' where "pq_Pop p = Inr ((v, w), p')"
proof -
  obtain e es where "heap_pop (heap_less (desc p)) (elems p) = Inr (e, es)"
    using heap_pop_total [OF assms] by blast
  with that show ?thesis by (simp add: pq_Pop_def wheap_heap_Pop_eq)
qed

text \<open>
  (C36) Push and pop keep the queue well formed: from a new queue, any sequence of pushes and
  pops that does not panic leaves a heap in the queue's order without duplicate values, whose
  lookup set knows every queued value.
\<close>

theorem pq_run_well_formed:
  assumes "pq_run (NewPriorityQueue d) cs = Inr p"
  shows "heap_ok (heap_less (desc p)) (elems p) (length (elems p)) \<and>
    distinct (pq_Values p) \<and> set (pq_Values p) \<subseteq> lookup p"
  using pq_run_keeps_inv [OF pq_inv_new assms] by (simp add: pq_inv_def)

theorem pq_run_well_formed_witness:
  "pq_run (NewPriorityQueue True) [OpPush 1 (Num (5::int)), OpPush 2 (Num 9), OpPush 1 (Num 3)] =
     Inr \<lparr>elems = [\<lparr>elem_value = 2, elem_weight = 9\<rparr>, \<lparr>elem_value = 1, elem_weight = 5\<rparr>],
           desc = True, lookup = {2, 1}\<rparr> \<and>
   distinct (pq_Values \<lparr>elems = [\<lparr>elem_value = 2, elem_weight = 9 :: int\<rparr>,
     \<lparr>elem_value = 1, elem_weight = 5\<rparr>], desc = True, lookup = {2, 1}\<rparr>)"
proof -
  have run: "pq_run (NewPriorityQueue True) [OpPush 1 (Num (5::int)), OpPush 2 (Num 9), OpPush 1 (Num 3)] =
     Inr \<lparr>elems = [\<lparr>elem_value = 2, elem_weight = 9\<rparr>, \<lparr>elem_value = 1, elem_weight = 5\<rparr>],
           desc = True, lookup = {2, 1}\<rparr>"
    by (simp add: NewPriorityQueue_def pq_Push_cases heap_push_def heap_up.simps heap_less_def swap_def)
  from pq_run_well_formed [OF run] run show ?thesis by blast
qed

text \<open>
  (C40) Pop: on a well-formed queue that is not empty, \<open>Pop\<close> does not panic; it removes exactly
  the element \<open>Peek\<close> shows, no element left is ahead of it in the queue's order, and since
  the value stays in the lookup set, pushing it again is without effect.
\<close>

theorem pq_Pop_best:
  assumes inv: "pq_inv p" and ne: "elems p \<noteq> []"
  shows "\<exists>v w p'. pq_Pop p = Inr ((v, w), p') \<and> pq_Peek p = Inr (v, w) \<and> pq_inv p' \<and>
    mset (elems p) = add_mset \<lparr>elem_value = v, elem_weight = w\<rparr> (mset (elems p')) \<and>
    list_all (\<lambda>e. if desc p then elem_weight e \<le> w else w \<le> elem_weight e) (elems p') \<and>
    pq_Push p' v (Num x) = Inr p'"
proof -
  obtain v w p' where pop: "pq_Pop p = Inr ((v, w), p')" using ne by (rule pq_Pop_total)
  then obtain e es where hp: "heap_pop (heap_less (desc p)) (elems p) = Inr (e, es)"
    and vw: "v = elem_value e" "w = elem_weight e" and p': "p' = p\<lparr>elems := es\<rparr>"
    by (auto simp: pq_Pop_Inr)
  have ok: "heap_ok (heap_less (desc p)) (elems p) (length (elems p))"
    using inv by (simp add: pq_inv_def)
  from weights.pop_ok [OF ok hp]
  have best: "list_all (\<lambda>e. if desc p then elem_weight e \<le> w else w \<le> elem_weight e) (elems p')"
    using vw p' by (auto simp: heap_less_def list_all_iff not_less)
  have "e \<in> set (elems p)" using heap_pop_mset [OF hp] by (metis set_mset_mset union_single_eq_member)
  then have "v \<in> lookup p'" using inv vw p' by (auto simp: pq_inv_def pq_Values_def)
  then have again: "pq_Push p' v (Num x) = Inr p'" by (simp add: pq_Push_cases)
  have root: "pq_Peek p = Inr (v, w)"
    using heap_pop_root [OF hp] ne vw by (cases "elems p") (auto simp: pq_Peek_def)
  have "mset (elems p) = add_mset \<lparr>elem_value = v, elem_weight = w\<rparr> (mset (elems p'))"
    using heap_pop_mset [OF hp] vw p' by simp
  with pop root pq_Pop_inv [OF inv pop] best again show ?thesis by blast
qed

text \<open>The queue of the witnesses below.\<close>

abbreviation pq_example :: "int pqueue" where
  "pq_example \<equiv> \<lparr>elems = [\<lparr>elem_value = 2, elem_weight = 9\<rparr>, \<lparr>elem_value = 1, elem_weight = 5\<rparr>],
     desc = True, lookup = {2, 1}\<rparr>"

lemma pq_example_inv: "pq_inv pq_example"
  by (auto simp: pq_inv_def heap_ok_def pq_Values_def heap_less_def less_Suc_eq)

theorem pq_Pop_best_witness:
  "pq_inv pq_example \<and> elems pq_example \<noteq> [] \<and>
   (\<exists>v w p'. pq_Pop pq_example = Inr ((v, w), p') \<and> pq_Peek pq_example = Inr (v, w))"
  using pq_Pop_best [OF pq_example_inv] pq_example_inv by fastforce

lemma elem_collapse [simp]: "\<lparr>elem_value = elem_value e, elem_weight = elem_weight e\<rparr> = e"
  by (cases e) simp

lemma pq_push_elems_fresh:
  "pq_inv q \<Longrightarrow> distinct (map elem_value es) \<Longrightarrow> elem_value ` set es \<inter> lookup q = {} \<Longrightarrow>
   \<exists>q'. pq_push_elems q es = Inr q' \<and> pq_inv q' \<and> desc q' = desc q \<and>
     mset (elems q') = mset (elems q) + mset es \<and> lookup q' = lookup q \<union> elem_value ` set es"
proof (induction es arbitrary: q)
  case Nil
  then show ?case by simp
next
  case (Cons e es)
  let ?q = "q\<lparr>elems := heap_push (heap_less (desc q)) (elems q) e, lookup := insert (elem_value e) (lookup q)\<rparr>"
  have push: "pq_Push q (elem_value e) (Num (elem_weight e)) = Inr ?q"
    using Cons.prems(3) by (auto simp: pq_Push_cases)
  obtain q' where q': "pq_push_elems ?q es = Inr q'" "pq_inv q'" "desc q' = desc ?q"
    "mset (elems q') = mset (elems ?q) + mset es" "lookup q' = lookup ?q \<union> elem_value ` set es"
    using Cons.IH [OF pq_Push_inv [OF Cons.prems(1) push]] Cons.prems by auto
  then show ?case using push by (auto simp: mset_heap_push)
qed

text \<open>
  Reverse: the reversed queue has the opposite order, holds exactly the same elements,
  is well formed again and knows exactly the queued values.
\<close>

theorem pq_Reverse_same_elements:
  assumes "pq_inv p"
  shows "\<exists>q. pq_Reverse p = Inr q \<and> pq_inv q \<and> desc q = (\<not> desc p) \<and>
    mset (elems q) = mset (elems p) \<and> lookup q = set (pq_Values p)"
proof -
  let ?n = "NewPriorityQueue (\<not> desc p) :: 'a pqueue"
  have "lookup ?n = {}" "elems ?n = []" "desc ?n = (\<not> desc p)" by (simp_all add: NewPriorityQueue_def)
  then show ?thesis
    using pq_push_elems_fresh [of ?n "elems p"] assms
    by (auto simp: pq_Reverse_def pq_inv_def [of p] pq_Values_def)
qed

theorem pq_Reverse_same_elements_witness:
  "pq_inv pq_example \<and> (\<exists>q. pq_Reverse pq_example = Inr q \<and> mset (elems q) = mset (elems pq_example))"
  using pq_Reverse_same_elements [OF pq_example_inv] pq_example_inv by blast

text \<open>
  Clone forgets the lookup set: pushing a value that a clone already holds is not
  ignored but queues the value a second time.
\<close>

theorem pq_Clone_duplicates:
  assumes "v \<in> set (pq_Values p)"
  shows "\<exists>q. pq_Push (pq_Clone p) v (Num w) = Inr q \<and> \<not> distinct (pq_Values q) \<and>
    mset (pq_Values q) = add_mset v (mset (pq_Values p))"
proof -
  let ?e = "\<lparr>elem_value = v, elem_weight = w\<rparr>"
  let ?es = "heap_push (heap_less (desc p)) (elems p) ?e"
  have m: "mset ?es = mset (?e # elems p)" by (simp add: mset_heap_push)
  have push: "pq_Push (pq_Clone p) v (Num w) =
      Inr (pq_Clone p\<lparr>elems := ?es, lookup := {v}\<rparr>)"
    by (simp add: pq_Push_cases pq_Clone_def NewPriorityQueue_def)
  have "\<not> distinct (map elem_value ?es)"
    using assms unfolding distinct_Values_mset [OF m] by (simp add: pq_Values_def)
  moreover have "mset (map elem_value ?es) = add_mset v (mset (map elem_value (elems p)))"
    using m by simp
  ultimately show ?thesis using push by (simp add: pq_Values_def)
qed

theorem pq_Clone_duplicates_witness:
  "(2::i32) \<in> set (pq_Values pq_example) \<and>
   (\<exists>q. pq_Push (pq_Clone pq_example) 2 (Num 7) = Inr q \<and> \<not> distinct (pq_Values q))"
proof -
  have v: "(2::i32) \<in> set (pq_Values pq_example)" by (simp add: pq_Values_def)
  from pq_Clone_duplicates [OF v, of 7] v show ?thesis by blast
qed

end
