(* ===== verification/Storage_Cache.thy ===== *)
theory Storage_Cache
  imports Prelude
begin

text \<open>
  \<open>storage/cache/database.go\<close>: cache keys, the values of the key-value part, scored documents and the interface of
  a cache store, as a record of the methods that the modelled code calls.
\<close>

subsection \<open>Collections and keys\<close>

definition c_NonPersonalized :: string where "c_NonPersonalized = ''non-personalized''"
definition c_NonPersonalizedDigest :: string where "c_NonPersonalizedDigest = ''non-personalized_digest''"
definition c_CollaborativeFiltering :: string where "c_CollaborativeFiltering = ''collaborative-filtering''"
definition c_CollaborativeFilteringDigest :: string where
  "c_CollaborativeFilteringDigest = ''collaborative-filtering_digest''"
definition c_CollaborativeFilteringUpdateTime :: string where
  "c_CollaborativeFilteringUpdateTime = ''collaborative-filtering_update_time''"
definition c_Recommend :: string where "c_Recommend = ''recommend''"
definition c_RecommendDigest :: string where "c_RecommendDigest = ''recommend_digest''"
definition c_RecommendUpdateTime :: string where "c_RecommendUpdateTime = ''recommend_update_time''"
definition c_LastModifyItemTime :: string where "c_LastModifyItemTime = ''last_modify_item_time''"
definition c_LastModifyUserTime :: string where "c_LastModifyUserTime = ''last_modify_user_time''"

lemmas cache_names =
  c_NonPersonalized_def c_NonPersonalizedDigest_def c_CollaborativeFiltering_def c_CollaborativeFilteringDigest_def
  c_CollaborativeFilteringUpdateTime_def c_Recommend_def c_RecommendDigest_def c_RecommendUpdateTime_def
  c_LastModifyItemTime_def c_LastModifyUserTime_def

definition Key :: "string list \<Rightarrow> string" where
  "Key keys =
     (case keys of
        [] \<Rightarrow> ''''
      | k # ks \<Rightarrow> foldl (\<lambda>b key. if key \<noteq> '''' then b @ ''/'' @ key else b) k ks)"

lemma Key_two: "k \<noteq> '''' \<Longrightarrow> Key [a, k] = a @ ''/'' @ k"
  by (simp add: Key_def)

text \<open>Keys of one kind are told apart by their ids, and keys of kinds without a slash by their kind.\<close>

lemma Key_inject:
  assumes "Key [a, x] = Key [b, y]" and "CHR ''/'' \<notin> set a" and "CHR ''/'' \<notin> set b"
  shows "a = b \<and> x = y"
proof -
  have tw: "takeWhile (\<lambda>c. c \<noteq> CHR ''/'') (Key [c, z]) = c" if "CHR ''/'' \<notin> set c" for c z
  proof -
    have all: "\<forall>x \<in> set c. x \<noteq> CHR ''/''" using that by auto
    then have "takeWhile (\<lambda>c. c \<noteq> CHR ''/'') c = c" by (simp add: takeWhile_eq_all_conv)
    with all show ?thesis by (cases "z = ''''") (simp_all add: Key_def)
  qed
  have "a = b" using tw [OF assms(2), of x] tw [OF assms(3), of y] assms(1) by simp
  then show ?thesis using assms(1) by (simp add: Key_def split: if_splits)
qed

subsection \<open>Values\<close>

record kv_value =
  kv_name :: string
  kv_value :: string

record return_value =
  rv_value :: string
  rv_err :: "go_error option"
  rv_exists :: bool

definition NewReturnValue :: "string \<Rightarrow> bool \<Rightarrow> return_value" where
  "NewReturnValue v ex = \<lparr>rv_value = v, rv_err = None, rv_exists = ex\<rparr>"

definition NewReturnError :: "go_error \<Rightarrow> return_value" where
  "NewReturnError e = \<lparr>rv_value = '''', rv_err = Some e, rv_exists = False\<rparr>"

definition rv_String :: "return_value \<Rightarrow> go_error + string" where
  "rv_String r = (case rv_err r of Some e \<Rightarrow> Inl e | None \<Rightarrow> if \<not> rv_exists r then Inr '''' else Inr (rv_value r))"

definition rv_Integer :: "(string \<Rightarrow> go_error + int) \<Rightarrow> return_value \<Rightarrow> go_error + int" where
  "rv_Integer Atoi r = (case rv_err r of Some e \<Rightarrow> Inl e | None \<Rightarrow> if \<not> rv_exists r then Inr 0 else Atoi (rv_value r))"

text \<open>\<open>Time\<close> parses with the third-party \<open>dateparse.ParseAny\<close>, a parameter.\<close>

definition rv_Time :: "(string \<Rightarrow> go_error + time) \<Rightarrow> return_value \<Rightarrow> go_error + time" where
  "rv_Time ParseAny r = (case rv_err r of Some e \<Rightarrow> Inl e | None \<Rightarrow> if \<not> rv_exists r then Inr 0 else ParseAny (rv_value r))"

definition kv_String :: "string \<Rightarrow> string \<Rightarrow> kv_value" where
  "kv_String name v = \<lparr>kv_name = name, kv_value = v\<rparr>"

definition kv_Time :: "(time \<Rightarrow> string) \<Rightarrow> string \<Rightarrow> time \<Rightarrow> kv_value" where
  "kv_Time show name t = \<lparr>kv_name = name, kv_value = show t\<rparr>"

subsection \<open>Scored documents\<close>

record 'w score =
  score_Id :: string
  score_Score :: 'w
  score_IsHidden :: bool
  score_Categories :: "string list"
  score_Timestamp :: time

text \<open>
  \<open>SortDocuments\<close> calls \<open>sort.Slice\<close>, which is not stable: \<open>is_SortDocuments\<close> is what it promises,
  \<open>SortDocuments\<close> the stable choice.
\<close>

definition is_SortDocuments :: "('w::linorder) score list \<Rightarrow> 'w score list \<Rightarrow> bool" where
  "is_SortDocuments xs ys \<longleftrightarrow> mset ys = mset xs \<and> sorted_wrt (\<lambda>a b. score_Score b \<le> score_Score a) ys"

definition SortDocuments :: "('w::linorder) score list \<Rightarrow> 'w score list" where
  "SortDocuments xs = rev (sort_key score_Score (rev xs))"

lemma SortDocuments_ok: "is_SortDocuments xs (SortDocuments xs)"
proof -
  have "sorted (map score_Score (sort_key score_Score (rev xs)))" by (rule sorted_sort_key)
  then have "sorted_wrt (\<lambda>a b. score_Score a \<le> score_Score b) (sort_key score_Score (rev xs))"
    by (simp add: sorted_map)
  then show ?thesis by (simp add: is_SortDocuments_def SortDocuments_def sorted_wrt_rev)
qed

definition ConvertDocumentsToValues :: "'w score list \<Rightarrow> string list" where
  "ConvertDocumentsToValues docs = map score_Id docs"

record score_condition =
  sc_Subset :: "string option"
  sc_Id :: "string option"
  sc_Before :: "time option"

definition ScoreCondition_Check :: "score_condition \<Rightarrow> go_error option" where
  "ScoreCondition_Check c =
     (if sc_Id c = None \<and> sc_Before c = None \<and> sc_Subset c = None
      then Some (ErrWrap ''document condition'' ErrInvalidArgument) else None)"

subsection \<open>The interface\<close>

record ('s, 'w) cache_db =
  cdb_Set :: "'s \<Rightarrow> kv_value list \<Rightarrow> go_error option \<times> 's"
  cdb_Get :: "'s \<Rightarrow> string \<Rightarrow> return_value \<times> 's"
  cdb_AddScores :: "'s \<Rightarrow> string \<Rightarrow> string \<Rightarrow> 'w score list \<Rightarrow> go_error option \<times> 's"
  cdb_SearchScores :: "'s \<Rightarrow> string \<Rightarrow> string \<Rightarrow> string list \<Rightarrow> int \<Rightarrow> int \<Rightarrow> (go_error + 'w score list) \<times> 's"
  cdb_DeleteScores :: "'s \<Rightarrow> string list \<Rightarrow> score_condition \<Rightarrow> go_error option \<times> 's"

text \<open>What the server calls beside these.\<close>

record 'w score_patch =
  sp_IsHidden :: "bool option"
  sp_Categories :: "string list option"
  sp_Score :: "'w option"

record ('s, 'w) cache_store =
  cst_Ping :: "'s \<Rightarrow> go_error option \<times> 's"
  cst_UpdateScores :: "'s \<Rightarrow> string list \<Rightarrow> string option \<Rightarrow> string \<Rightarrow> 'w score_patch \<Rightarrow> go_error option \<times> 's"

definition cdb_GetString :: "('s, 'w) cache_db \<Rightarrow> 's \<Rightarrow> string \<Rightarrow> (go_error + string) \<times> 's" where
  "cdb_GetString c s name = (case cdb_Get c s name of (r, s') \<Rightarrow> (rv_String r, s'))"

definition cdb_GetTime :: "(string \<Rightarrow> go_error + time) \<Rightarrow> ('s, 'w) cache_db \<Rightarrow> 's \<Rightarrow> string \<Rightarrow> (go_error + time) \<times> 's" where
  "cdb_GetTime ParseAny c s name = (case cdb_Get c s name of (r, s') \<Rightarrow> (rv_Time ParseAny r, s'))"

end
