(* ===== verification/Feedback_Expr.thy ===== *)
theory Feedback_Expr
  imports Prelude
begin

text \<open>
  \<open>common/expression\<close>: feedback type expressions such as \<open>star>=3\<close>. The regular expression
  of the source is modelled by a matcher that is proved equal to the declarative language of
  the pattern with the leftmost-first choice of Go's \<open>regexp\<close>. The conversions between text
  and \<open>float64\<close> (\<open>strconv.ParseFloat\<close>, the \<open>%v\<close> verb of \<open>fmt\<close>) are the parameters
  \<open>parse\<close> and \<open>fmt_v\<close>.
\<close>

datatype expr_type = ExprNone | ExprLess | ExprLessOrEqual | ExprGreater | ExprGreaterOrEqual

fun ExprType_String :: "expr_type \<Rightarrow> string" where
  "ExprType_String ExprLess = ''<''"
| "ExprType_String ExprLessOrEqual = ''<=''"
| "ExprType_String ExprGreater = ''>''"
| "ExprType_String ExprGreaterOrEqual = ''>=''"
| "ExprType_String ExprNone = ''''"

record 'w fb_expr =
  fe_FeedbackType :: string
  fe_ExprType :: expr_type
  fe_Value :: 'w

definition FeedbackExpr_String :: "('w \<Rightarrow> string) \<Rightarrow> 'w fb_expr \<Rightarrow> string" where
  "FeedbackExpr_String fmt_v f =
     (if fe_ExprType f = ExprNone then fe_FeedbackType f
      else fe_FeedbackType f @ ExprType_String (fe_ExprType f) @ fmt_v (fe_Value f))"

subsection \<open>The pattern\<close>

definition is_letter :: "char \<Rightarrow> bool" where
  "is_letter c = (let n = of_char c :: nat in 65 \<le> n \<and> n \<le> 90 \<or> 97 \<le> n \<and> n \<le> 122)"

definition is_digit :: "char \<Rightarrow> bool" where
  "is_digit c = (let n = of_char c :: nat in 48 \<le> n \<and> n \<le> 57)"

definition is_word :: "char \<Rightarrow> bool" where
  "is_word c = (is_letter c \<or> is_digit c \<or> c = CHR ''_'')"

definition match_value :: "string \<Rightarrow> bool" where
  "match_value s =
     (case dropWhile is_digit s of
        [] \<Rightarrow> True
      | c # r \<Rightarrow> c = CHR ''.'' \<and> list_all is_digit r)"

definition match_op :: "string \<Rightarrow> string \<times> string" where
  "match_op s =
     (case s of
        [] \<Rightarrow> ('''', s)
      | c # r \<Rightarrow>
          if c = CHR ''<'' \<or> c = CHR ''>'' then
            (case r of [] \<Rightarrow> ([c], r) | d # r' \<Rightarrow> if d = CHR ''='' then ([c, d], r') else ([c], r))
          else if c = CHR ''='' then ([c], r)
          else ('''', s))"

text \<open>The three groups of the pattern, or no match.\<close>

definition match_expression :: "string \<Rightarrow> (string \<times> string \<times> string) option" where
  "match_expression s =
     (case s of
        [] \<Rightarrow> None
      | c # cs \<Rightarrow>
          if is_letter c
          then let ft = c # takeWhile is_word cs; (opr, v) = match_op (dropWhile is_word cs)
               in if match_value v then Some (ft, opr, v) else None
          else None)"

text \<open>The language of the pattern, read off the regular expression.\<close>

definition type_language :: "string \<Rightarrow> bool" where
  "type_language s \<longleftrightarrow> (\<exists>c cs. s = c # cs \<and> is_letter c \<and> list_all is_word cs)"

definition op_language :: "string \<Rightarrow> bool" where
  "op_language s \<longleftrightarrow> s \<in> {'''', ''<='', ''>='', ''<'', ''>'', ''=''}"

definition value_language :: "string \<Rightarrow> bool" where
  "value_language s \<longleftrightarrow>
     (\<exists>a b. list_all is_digit a \<and> list_all is_digit b \<and> (s = a @ b \<or> s = a @ ''.'' @ b))"

definition expression_language :: "string \<Rightarrow> string \<times> string \<times> string \<Rightarrow> bool" where
  "expression_language s g \<longleftrightarrow>
     (case g of (ft, opr, v) \<Rightarrow>
        s = ft @ opr @ v \<and> type_language ft \<and> op_language opr \<and> value_language v)"

subsection \<open>Parsing and matching\<close>

definition op_ExprType :: "string \<Rightarrow> expr_type" where
  "op_ExprType m =
     (if m = ''<'' then ExprLess
      else if m = ''<='' then ExprLessOrEqual
      else if m = ''>'' then ExprGreater
      else if m = ''>='' then ExprGreaterOrEqual
      else ExprNone)"

text \<open>
  \<open>FromString\<close> writes the receiver field by field, so an error in the value leaves the first
  two fields changed, and an empty value keeps the old one.
\<close>

definition FeedbackExpr_FromString :: "(string \<Rightarrow> go_error + 'w) \<Rightarrow> 'w fb_expr \<Rightarrow> string \<Rightarrow>
    go_error option \<times> 'w fb_expr" where
  "FeedbackExpr_FromString parse f data =
     (case match_expression data of
        None \<Rightarrow> (Some (ErrOther ''invalid expression format''), f)
      | Some (ft, opr, v) \<Rightarrow>
          (let f1 = f\<lparr>fe_FeedbackType := ft\<rparr>; f2 = f1\<lparr>fe_ExprType := op_ExprType opr\<rparr>
           in if v = '''' then (None, f2)
              else case parse v of
                  Inl e \<Rightarrow> (Some (ErrWrap ''invalid value'' e), f2)
                | Inr x \<Rightarrow> (None, f2\<lparr>fe_Value := x\<rparr>)))"

definition FeedbackExpr_Match :: "('w::linorder) fb_expr \<Rightarrow> string \<Rightarrow> 'w \<Rightarrow> bool" where
  "FeedbackExpr_Match f feedbackType v =
     (if fe_FeedbackType f \<noteq> feedbackType then False
      else case fe_ExprType f of
          ExprNone \<Rightarrow> True
        | ExprLess \<Rightarrow> v < fe_Value f
        | ExprLessOrEqual \<Rightarrow> v \<le> fe_Value f
        | ExprGreater \<Rightarrow> fe_Value f < v
        | ExprGreaterOrEqual \<Rightarrow> fe_Value f \<le> v)"

fun MatchFeedbackTypeExpressions :: "('w::linorder) fb_expr list \<Rightarrow> string \<Rightarrow> 'w \<Rightarrow> bool" where
  "MatchFeedbackTypeExpressions [] feedbackType v = False"
| "MatchFeedbackTypeExpressions (e # es) feedbackType v =
     (if FeedbackExpr_Match e feedbackType v then True
      else MatchFeedbackTypeExpressions es feedbackType v)"

lemma MatchFeedbackTypeExpressions_iff:
  "MatchFeedbackTypeExpressions es t v \<longleftrightarrow> (\<exists>e\<in>set es. FeedbackExpr_Match e t v)"
  by (induction es) auto

definition MustParseFeedbackTypeExpression :: "(string \<Rightarrow> go_error + 'w) \<Rightarrow> 'w \<Rightarrow> string \<Rightarrow> go_panic + 'w fb_expr" where
  "MustParseFeedbackTypeExpression parse zero s =
     (case FeedbackExpr_FromString parse \<lparr>fe_FeedbackType = '''', fe_ExprType = ExprNone, fe_Value = zero\<rparr> s of
        (None, f) \<Rightarrow> Inr f
      | (Some e, f) \<Rightarrow> Inl (ExplicitPanic ''FromString''))"

subsection \<open>Protocol messages\<close>

datatype pb_expr_type = PB_None | PB_Less | PB_LessOrEqual | PB_Greater | PB_GreaterOrEqual

record 'w pb_expr =
  pb_FeedbackType :: string
  pb_ExpressionType :: pb_expr_type
  pb_Value :: 'w

definition FeedbackExpr_ToPB :: "'w fb_expr \<Rightarrow> 'w pb_expr" where
  "FeedbackExpr_ToPB f =
     \<lparr>pb_FeedbackType = fe_FeedbackType f,
      pb_ExpressionType = (case fe_ExprType f of
          ExprNone \<Rightarrow> PB_None | ExprLess \<Rightarrow> PB_Less | ExprLessOrEqual \<Rightarrow> PB_LessOrEqual
        | ExprGreater \<Rightarrow> PB_Greater | ExprGreaterOrEqual \<Rightarrow> PB_GreaterOrEqual),
      pb_Value = fe_Value f\<rparr>"

definition FeedbackExpr_FromPB :: "'w fb_expr \<Rightarrow> 'w pb_expr \<Rightarrow> 'w fb_expr" where
  "FeedbackExpr_FromPB f pb =
     f\<lparr>fe_FeedbackType := pb_FeedbackType pb,
       fe_ExprType := (case pb_ExpressionType pb of
          PB_None \<Rightarrow> ExprNone | PB_Less \<Rightarrow> ExprLess | PB_LessOrEqual \<Rightarrow> ExprLessOrEqual
        | PB_Greater \<Rightarrow> ExprGreater | PB_GreaterOrEqual \<Rightarrow> ExprGreaterOrEqual),
       fe_Value := pb_Value pb\<rparr>"

lemma FeedbackExpr_PB_roundtrip: "FeedbackExpr_FromPB f0 (FeedbackExpr_ToPB f) = f"
  by (cases f) (auto simp: FeedbackExpr_ToPB_def FeedbackExpr_FromPB_def split: expr_type.splits)

subsection \<open>The matcher decides the pattern\<close>

lemma not_word_ops [simp]:
  "\<not> is_word (CHR ''<'')" "\<not> is_word (CHR ''>'')" "\<not> is_word (CHR ''='')" "\<not> is_word (CHR ''.'')"
  "\<not> is_digit (CHR ''<'')" "\<not> is_digit (CHR ''>'')" "\<not> is_digit (CHR ''='')" "\<not> is_digit (CHR ''.'')"
  by (simp_all add: is_word_def is_letter_def is_digit_def)

lemma digit_word: "is_digit c \<Longrightarrow> is_word c"
  by (simp add: is_word_def)

lemma letter_word: "is_letter c \<Longrightarrow> is_word c"
  by (simp add: is_word_def)

lemma match_value_iff: "match_value s \<longleftrightarrow> value_language s"
proof
  assume m: "match_value s"
  let ?a = "takeWhile is_digit s"
  have a: "list_all is_digit ?a" by (auto simp: list_all_iff dest: set_takeWhileD)
  have split: "s = ?a @ dropWhile is_digit s" by simp
  show "value_language s"
  proof (cases "dropWhile is_digit s")
    case Nil
    then have "list_all is_digit s" by (simp add: dropWhile_eq_Nil_conv list_all_iff)
    moreover have "list_all is_digit ''''" "s = s @ ''''" by simp_all
    ultimately show ?thesis unfolding value_language_def by blast
  next
    case (Cons c r)
    then have "c = CHR ''.''" "list_all is_digit r" using m by (auto simp: match_value_def)
    moreover from this have "s = ?a @ ''.'' @ r" using split Cons by simp
    ultimately show ?thesis using a unfolding value_language_def by blast
  qed
next
  assume "value_language s"
  then obtain a b where ab: "list_all is_digit a" "list_all is_digit b" "s = a @ b \<or> s = a @ ''.'' @ b"
    by (auto simp: value_language_def)
  then have a: "\<And>x. x \<in> set a \<Longrightarrow> is_digit x" and b: "\<And>x. x \<in> set b \<Longrightarrow> is_digit x"
    by (auto simp: list_all_iff)
  from ab(3) show "match_value s"
  proof
    assume "s = a @ b"
    then have "dropWhile is_digit s = []" using a b by (simp add: dropWhile_eq_Nil_conv)
    then show ?thesis unfolding match_value_def by (simp only: list.case)
  next
    assume "s = a @ ''.'' @ b"
    then have "dropWhile is_digit s = CHR ''.'' # b" using a by (simp add: dropWhile_append2)
    then show ?thesis using ab(2) by (simp add: match_value_def)
  qed
qed

lemma match_op_split: "match_op s = (opr, v) \<Longrightarrow> s = opr @ v \<and> op_language opr"
  by (auto simp: match_op_def op_language_def split: list.splits if_splits)

lemma value_head: "value_language (c # v) \<Longrightarrow> is_digit c \<or> c = CHR ''.''"
  by (auto simp: value_language_def Cons_eq_append_conv)

text \<open>An operator followed by a value is found by the matcher.\<close>

lemma match_op_complete:
  assumes "op_language opr" and "value_language v" and "opr \<noteq> '''' \<or> v = '''' \<or> \<not> is_digit (hd v)"
  shows "match_op (opr @ v) = (opr, v)"
proof -
  have v: "v = '''' \<or> (\<exists>c r. v = c # r \<and> c \<noteq> CHR ''='' \<and> c \<noteq> CHR ''<'' \<and> c \<noteq> CHR ''>'')"
    using assms(2) value_head by (cases v) (auto dest!: value_head simp: is_digit_def)
  then show ?thesis using assms(1) by (auto simp: match_op_def op_language_def)
qed

lemma match_expression_sound: "match_expression s = Some g \<Longrightarrow> expression_language s g"
proof -
  assume m: "match_expression s = Some g"
  obtain c cs where s: "s = c # cs" and c: "is_letter c"
    using m by (auto simp: match_expression_def split: list.splits if_splits)
  obtain opr v where o: "match_op (dropWhile is_word cs) = (opr, v)" by fastforce
  have g: "g = (c # takeWhile is_word cs, opr, v)" and v: "match_value v"
    using m s c o by (auto simp: match_expression_def Let_def split: if_splits)
  have "list_all is_word (takeWhile is_word cs)" by (auto simp: list_all_iff dest: set_takeWhileD)
  then show ?thesis
    using s c g v match_op_split [OF o] takeWhile_dropWhile_id [of is_word cs]
    by (simp add: expression_language_def type_language_def match_value_iff)
qed

lemma match_expression_exact:
  assumes "type_language ft" "op_language opr" "value_language v"
    and "opr \<noteq> '''' \<or> v = '''' \<or> \<not> is_digit (hd v)"
  shows "match_expression (ft @ opr @ v) = Some (ft, opr, v)"
proof -
  from assms(1) obtain c cs where ft: "ft = c # cs" "is_letter c" "list_all is_word cs"
    by (auto simp: type_language_def)
  have stop: "opr @ v = '''' \<or> \<not> is_word (hd (opr @ v))"
  proof (cases "opr = ''''")
    case True
    then show ?thesis using assms(3,4) value_head [of "hd v" "tl v"] by (cases v) auto
  next
    case False
    then show ?thesis using assms(2) by (auto simp: op_language_def)
  qed
  have cs: "\<And>x. x \<in> set cs \<Longrightarrow> is_word x" using ft(3) by (auto simp: list_all_iff)
  have "takeWhile is_word (cs @ opr @ v) = cs \<and> dropWhile is_word (cs @ opr @ v) = opr @ v"
    using cs stop by (cases "opr @ v") (simp_all add: takeWhile_append2 dropWhile_append2)
  then show ?thesis
    using ft match_op_complete [OF assms(2,3,4)] assms(3)
    by (simp add: match_expression_def match_value_iff)
qed

lemma value_rest:
  assumes "value_language v"
  shows "value_language (dropWhile is_digit v) \<and>
    (dropWhile is_digit v = '''' \<or> \<not> is_digit (hd (dropWhile is_digit v)))"
proof -
  have m: "match_value v" using assms by (simp add: match_value_iff)
  show ?thesis
  proof (cases "dropWhile is_digit v")
    case Nil
    moreover have "value_language ''''" by (simp flip: match_value_iff add: match_value_def)
    ultimately show ?thesis unfolding Nil by blast
  next
    case (Cons c r)
    then have "c = CHR ''.''" "list_all is_digit r" using m by (auto simp: match_value_def)
    then have "match_value (c # r)" by (simp add: match_value_def)
    then show ?thesis using Cons \<open>c = CHR ''.''\<close> by (simp add: match_value_iff)
  qed
qed

lemma match_expression_complete:
  assumes "expression_language s g"
  shows "\<exists>g'. match_expression s = Some g' \<and> length (fst g) \<le> length (fst g')"
proof -
  obtain ft opr v where g: "g = (ft, opr, v)" by (cases g)
  with assms have lang: "s = ft @ opr @ v" "type_language ft" "op_language opr" "value_language v"
    by (simp_all add: expression_language_def)
  show ?thesis
  proof (cases "opr \<noteq> '''' \<or> v = '''' \<or> \<not> is_digit (hd v)")
    case True
    then show ?thesis using match_expression_exact [OF lang(2-4)] lang(1) g by simp
  next
    case False
    let ?ds = "takeWhile is_digit v" and ?w = "dropWhile is_digit v"
    from lang(2) obtain c cs where ft: "ft = c # cs" "is_letter c" "list_all is_word cs"
      by (auto simp: type_language_def)
    have "list_all is_word ?ds" by (auto simp: list_all_iff digit_word dest: set_takeWhileD)
    then have "type_language (ft @ ?ds)" using ft by (auto simp: type_language_def list_all_iff)
    moreover have "op_language ''''" by (simp add: op_language_def)
    ultimately have "match_expression ((ft @ ?ds) @ '''' @ ?w) = Some (ft @ ?ds, '''', ?w)"
      using value_rest [OF lang(4)] by (intro match_expression_exact) auto
    moreover have "(ft @ ?ds) @ '''' @ ?w = s" using False lang(1) by simp
    ultimately have "match_expression s = Some (ft @ ?ds, '''', ?w)" by argo
    then show ?thesis using g by simp
  qed
qed

lemma digit_no_op:
  "op_language opr \<Longrightarrow> opr @ v = d # w \<Longrightarrow> is_digit d \<Longrightarrow> opr = ''''"
  by (cases opr) (auto simp: op_language_def)

lemma op_value_unique:
  assumes eq: "opr @ v = opr' @ v'" and l: "op_language opr" "value_language v"
    and l': "op_language opr'" "value_language v'"
  shows "opr = opr' \<and> v = v'"
proof (cases "\<exists>d w. opr @ v = d # w \<and> is_digit d")
  case True
  then obtain d w where d: "opr @ v = d # w" "is_digit d" by blast
  have "opr' @ v' = d # w" using d(1) eq by simp
  then have "opr' = ''''" using digit_no_op [OF l'(1)] d(2) by blast
  moreover have "opr = ''''" using digit_no_op [OF l(1) d] .
  ultimately show ?thesis using eq by (metis append_Nil)
next
  case False
  have no_digit: "p \<noteq> '''' \<or> x = '''' \<or> \<not> is_digit (hd x)" if "p @ x = opr @ v" for p x
  proof (cases x)
    case (Cons d w)
    then show ?thesis using False that by (metis append_Nil list.sel(1))
  qed simp
  note c = no_digit [OF refl] and c' = no_digit [OF eq [symmetric]]
  have "(opr, v) = match_op (opr @ v)" using match_op_complete [OF l c] by (rule sym)
  also have "\<dots> = match_op (opr' @ v')" by (simp only: eq)
  also have "\<dots> = (opr', v')" using match_op_complete [OF l' c'] .
  finally show ?thesis by simp
qed

text \<open>
  (C36) The parser decides the pattern: it finds groups exactly when the text is in the language
  of the regular expression, and the groups it finds are those of the match with the longest
  feedback type, the one Go's leftmost-first matching selects.
\<close>

theorem match_expression_iff:
  "match_expression s = Some g \<longleftrightarrow>
     expression_language s g \<and> (\<forall>g'. expression_language s g' \<longrightarrow> length (fst g') \<le> length (fst g))"
proof
  assume m: "match_expression s = Some g"
  have "length (fst g') \<le> length (fst g)" if "expression_language s g'" for g'
    using match_expression_complete [OF that] m by auto
  with match_expression_sound [OF m]
  show "expression_language s g \<and> (\<forall>g'. expression_language s g' \<longrightarrow> length (fst g') \<le> length (fst g))"
    by blast
next
  assume r: "expression_language s g \<and> (\<forall>g'. expression_language s g' \<longrightarrow> length (fst g') \<le> length (fst g))"
  then obtain g' where g': "match_expression s = Some g'" "length (fst g) \<le> length (fst g')"
    using match_expression_complete by blast
  have l': "expression_language s g'" using match_expression_sound [OF g'(1)] .
  obtain ft opr v ft' opr' v' where p: "g = (ft, opr, v)" "g' = (ft', opr', v')" by (cases g, cases g')
  have le: "length (fst g') \<le> length (fst g)" using r l' by blast
  have l: "expression_language s g" using r by blast
  have len: "length ft = length ft'" using le g'(2) p by simp
  have "ft @ opr @ v = ft' @ opr' @ v'" using l l' p unfolding expression_language_def by simp
  with len have ft: "ft = ft'" and rest: "opr @ v = opr' @ v'" by simp_all
  have "opr = opr' \<and> v = v'"
    using op_value_unique [OF rest] l l' p unfolding expression_language_def by simp
  with ft g'(1) p show "match_expression s = Some g" by simp
qed

theorem match_expression_iff_witness:
  "match_expression ''star>=3.5'' = Some (''star'', ''>='', ''3.5'') \<and>
   expression_language ''star>=3.5'' (''star'', ''>='', ''3.5'')"
proof -
  have m: "match_expression ''star>=3.5'' = Some (''star'', ''>='', ''3.5'')" by code_simp
  with match_expression_iff [of "''star>=3.5''" "(''star'', ''>='', ''3.5'')"] show ?thesis by blast
qed

subsection \<open>Round trip and the equality sign\<close>

lemma match_expression_operator:
  assumes "type_language ft" and "t \<noteq> ExprNone" and "c \<noteq> CHR ''=''"
  shows "match_expression (ft @ ExprType_String t @ c # cs) =
    (if value_language (c # cs) then Some (ft, ExprType_String t, c # cs) else None)"
proof -
  from assms(1) obtain d ds where ft: "ft = d # ds" "is_letter d" "list_all is_word ds"
    by (auto simp: type_language_def)
  have ds: "\<And>x. x \<in> set ds \<Longrightarrow> is_word x" using ft(3) by (auto simp: list_all_iff)
  have "takeWhile is_word (ds @ ExprType_String t @ c # cs) = ds \<and>
      dropWhile is_word (ds @ ExprType_String t @ c # cs) = ExprType_String t @ c # cs"
    using ds assms(2) by (cases t) (simp_all add: takeWhile_append2 dropWhile_append2)
  moreover have "match_op (ExprType_String t @ c # cs) = (ExprType_String t, c # cs)"
    using assms(2,3) by (cases t) (simp_all add: match_op_def)
  ultimately show ?thesis using ft by (simp add: match_expression_def match_value_iff)
qed

lemma op_language_ExprType: "op_language (ExprType_String t)"
  by (cases t) (simp_all add: op_language_def)

lemma op_ExprType_String: "op_ExprType (ExprType_String t) = t"
  by (cases t) (simp_all add: op_ExprType_def)

lemma match_expression_type:
  assumes "type_language ft"
  shows "match_expression ft = Some (ft, '''', '''')"
proof -
  have "op_language ''''" "value_language ''''" by (auto simp: op_language_def value_language_def)
  from match_expression_exact [OF assms this] show ?thesis by simp
qed

text \<open>
  (C38) Round trip: the text of an expression whose type is a name of the pattern.  Without an operator it is read back with its
  type and no operator, and the value that the receiver had.  With an operator, when \<open>ParseFloat\<close> reads back the text of the
  value, the expression itself is read back if that text is a plain decimal, and the text is rejected, the receiver unchanged, if
  it is not: a text with an exponent or a sign, which \<open>%v\<close> produces for large, small and negative values.  An expression that is
  read back matches what it matched before.
\<close>

theorem FeedbackExpr_String_roundtrip:
  fixes f f0 :: "('w::linorder) fb_expr"
  assumes "type_language (fe_FeedbackType f)"
    and "fe_ExprType f \<noteq> ExprNone \<Longrightarrow> fmt_v (fe_Value f) = c # cs \<and> c \<noteq> CHR ''='' \<and> parse (fmt_v (fe_Value f)) = Inr (fe_Value f)"
  shows "\<exists>e f'. FeedbackExpr_FromString parse f0 (FeedbackExpr_String fmt_v f) = (e, f') \<and>
    (if fe_ExprType f = ExprNone then e = None \<and> f' = f\<lparr>fe_Value := fe_Value f0\<rparr>
     else if value_language (fmt_v (fe_Value f)) then e = None \<and> f' = f
     else e = Some (ErrOther ''invalid expression format'') \<and> f' = f0) \<and>
    (e = None \<longrightarrow> (\<forall>t y. FeedbackExpr_Match f' t y = FeedbackExpr_Match f t y))"
proof (cases "fe_ExprType f = ExprNone")
  case True
  then show ?thesis using match_expression_type [OF assms(1)]
    by (cases f) (simp add: FeedbackExpr_String_def FeedbackExpr_FromString_def op_ExprType_def FeedbackExpr_Match_def)
next
  case False
  let ?o = "ExprType_String (fe_ExprType f)" and ?v = "fmt_v (fe_Value f)"
  from assms(2) [OF False] have v: "?v = c # cs" "c \<noteq> CHR ''=''" "parse ?v = Inr (fe_Value f)" by blast+
  have "FeedbackExpr_String fmt_v f = fe_FeedbackType f @ ?o @ ?v"
    using False by (simp add: FeedbackExpr_String_def)
  then have "match_expression (FeedbackExpr_String fmt_v f) =
      (if value_language ?v then Some (fe_FeedbackType f, ?o, ?v) else None)"
    using match_expression_operator [OF assms(1) False v(2), of cs] v(1) by simp
  then show ?thesis using v False
    by (cases f, cases f0) (simp add: FeedbackExpr_FromString_def Let_def op_ExprType_String)
qed

theorem FeedbackExpr_String_roundtrip_witness:
  "FeedbackExpr_FromString (\<lambda>s. Inr (3::int)) \<lparr>fe_FeedbackType = '''', fe_ExprType = ExprNone, fe_Value = 0\<rparr>
     (FeedbackExpr_String (\<lambda>v::int. ''3'') \<lparr>fe_FeedbackType = ''star'', fe_ExprType = ExprGreater, fe_Value = 3\<rparr>)
   = (None, \<lparr>fe_FeedbackType = ''star'', fe_ExprType = ExprGreater, fe_Value = 3\<rparr>) \<and>
   FeedbackExpr_FromString (\<lambda>s. Inr (1000000::int)) \<lparr>fe_FeedbackType = ''x'', fe_ExprType = ExprNone, fe_Value = 0\<rparr>
     (FeedbackExpr_String (\<lambda>v::int. ''1e+06'') \<lparr>fe_FeedbackType = ''star'', fe_ExprType = ExprGreater, fe_Value = 1000000\<rparr>)
   = (Some (ErrOther ''invalid expression format''), \<lparr>fe_FeedbackType = ''x'', fe_ExprType = ExprNone, fe_Value = 0\<rparr>)"
proof -
  have "match_value ''3''" "match_value ''1e+06'' = False" by code_simp+
  then have v: "value_language ''3''" "\<not> value_language ''1e+06''" by (simp_all only: match_value_iff simp_thms)
  let ?f = "\<lambda>x :: int. \<lparr>fe_FeedbackType = ''star'', fe_ExprType = ExprGreater, fe_Value = x\<rparr>"
  have t: "type_language (fe_FeedbackType (?f x))" for x by (simp add: type_language_def is_letter_def is_word_def)
  have p: "fe_ExprType (?f 3) \<noteq> ExprNone \<Longrightarrow>
      (\<lambda>v. ''3'') (fe_Value (?f 3)) = CHR ''3'' # '''' \<and> CHR ''3'' \<noteq> CHR ''='' \<and>
      (\<lambda>s. Inr 3) ((\<lambda>v. ''3'') (fe_Value (?f 3))) = Inr (fe_Value (?f 3))"
    and q: "fe_ExprType (?f 1000000) \<noteq> ExprNone \<Longrightarrow>
      (\<lambda>v. ''1e+06'') (fe_Value (?f 1000000)) = CHR ''1'' # ''e+06'' \<and> CHR ''1'' \<noteq> CHR ''='' \<and>
      (\<lambda>s. Inr 1000000) ((\<lambda>v. ''1e+06'') (fe_Value (?f 1000000))) = Inr (fe_Value (?f 1000000))"
    by simp_all
  note rt = FeedbackExpr_String_roundtrip [where fmt_v = "\<lambda>v. ''3''" and parse = "\<lambda>s. Inr 3", OF t p,
      of "\<lparr>fe_FeedbackType = '''', fe_ExprType = ExprNone, fe_Value = 0\<rparr>"]
    FeedbackExpr_String_roundtrip [where fmt_v = "\<lambda>v. ''1e+06''" and parse = "\<lambda>s. Inr 1000000", OF t q,
      of "\<lparr>fe_FeedbackType = ''x'', fe_ExprType = ExprNone, fe_Value = 0\<rparr>"]
  from rt(1) rt(2) v show ?thesis by (auto split: if_splits)
qed

text \<open>
  The equality sign: the pattern accepts \<open>type=value\<close>, but the parser gives it no operator,
  so the parsed expression matches feedback of that type with every value.
\<close>

theorem equality_matches_every_value:
  assumes "type_language ft" and "value_language v" and "v = '''' \<or> parse v = Inr x"
  shows "\<exists>f'. FeedbackExpr_FromString parse f (ft @ ''='' @ v) = (None, f') \<and>
    fe_ExprType f' = ExprNone \<and> (\<forall>y. FeedbackExpr_Match f' ft y)"
proof -
  have "op_language ''=''" by (simp add: op_language_def)
  then have "match_expression (ft @ ''='' @ v) = Some (ft, ''='', v)"
    using match_expression_exact [OF assms(1) _ assms(2), of "''=''"] by blast
  then show ?thesis using assms(3)
    by (auto simp: FeedbackExpr_FromString_def Let_def op_ExprType_def FeedbackExpr_Match_def)
qed

theorem equality_matches_every_value_witness:
  "\<exists>f'. FeedbackExpr_FromString (\<lambda>s. Inr (5::int))
       \<lparr>fe_FeedbackType = '''', fe_ExprType = ExprLess, fe_Value = 0\<rparr> (''a'' @ ''='' @ ''5'') = (None, f') \<and>
     fe_ExprType f' = ExprNone \<and> (\<forall>y. FeedbackExpr_Match f' ''a'' y)"
proof -
  have "match_value ''5''" by code_simp
  then have v: "value_language ''5''" by (simp only: match_value_iff)
  have t: "type_language ''a''" by (simp add: type_language_def is_letter_def)
  have p: "''5'' = '''' \<or> (\<lambda>s. Inr 5) ''5'' = Inr (5::int)" by simp
  show ?thesis by (rule equality_matches_every_value [OF t v p])
qed

end
