(* ===== verification/Storage_Data.thy ===== *)
theory Storage_Data
  imports Feedback_Expr
begin

text \<open>
  \<open>storage/data/database.go\<close>: users, items and feedback, the validation of labels, the options of scans
  and the interface of a data store. A store is a record of the methods that the modelled code calls, each a
  function of the store's state; the SQL and MongoDB backends are parameters.
\<close>

subsection \<open>Labels\<close>

text \<open>Labels are decoded JSON.  A number is \<open>JNumber\<close> when its text was kept (\<open>json.Number\<close>) and \<open>JFloat\<close>, again by its text,
  when it was decoded to a \<open>float64\<close>; an object is listed in the order
  in which the loop visits it.  \<open>JHalfs\<close> is the slice of half-precision floats that replaces an embedding in memory.\<close>

datatype json =
    JNull
  | JBool bool
  | JNumber string
  | JFloat string
  | JHalfs "16 word list"
  | JString string
  | JArray "json list"
  | JObject "(string \<times> json) list"

fun is_JString :: "json \<Rightarrow> bool" where
  "is_JString (JString _) = True"
| "is_JString _ = False"

fun is_JNumber :: "json \<Rightarrow> bool" where
  "is_JNumber (JNumber _) = True"
| "is_JNumber _ = False"

fun ValidateLabels :: "json \<Rightarrow> go_error option"
  and ValidateLabels_fields :: "(string \<times> json) list \<Rightarrow> go_error option" where
  "ValidateLabels JNull = None"
| "ValidateLabels (JArray xs) =
     (case xs of
        [] \<Rightarrow> None
      | JString _ # _ \<Rightarrow> (if list_all is_JString xs then None else Some (ErrOther ''unsupported labels''))
      | JNumber _ # _ \<Rightarrow> (if list_all is_JNumber xs then None else Some (ErrOther ''unsupported labels''))
      | _ \<Rightarrow> Some (ErrOther ''unsupported labels''))"
| "ValidateLabels (JObject kvs) = ValidateLabels_fields kvs"
| "ValidateLabels (JString _) = None"
| "ValidateLabels (JNumber _) = None"
| "ValidateLabels (JBool _) = Some (ErrOther ''unsupported type in labels'')"
| "ValidateLabels (JFloat _) = Some (ErrOther ''unsupported type in labels'')"
| "ValidateLabels (JHalfs _) = Some (ErrOther ''unsupported type in labels'')"
| "ValidateLabels_fields [] = None"
| "ValidateLabels_fields ((k, v) # kvs) =
     (case ValidateLabels v of Some e \<Rightarrow> Some e | None \<Rightarrow> ValidateLabels_fields kvs)"

subsection \<open>Users, items and feedback\<close>

record item =
  item_ItemId :: string
  item_IsHidden :: bool
  item_Categories :: "string list"
  item_Timestamp :: time
  item_UpdateAt :: time
  item_Labels :: json
  item_Comment :: string

record user =
  user_UserId :: string
  user_Labels :: json
  user_Comment :: string
  user_UpdateAt :: time

record 'w feedback =
  fb_FeedbackType :: string
  fb_UserId :: string
  fb_ItemId :: string
  fb_Value :: 'w
  fb_Timestamp :: time
  fb_Updated :: time
  fb_Labels :: json
  fb_Comment :: string

text \<open>
  \<open>SortFeedbacks\<close> orders from latest to oldest with \<open>sort.Sort\<close>, which may order equal
  timestamps in any way: \<open>is_SortFeedbacks\<close> is what it promises of its result, \<open>SortFeedbacks\<close> the stable
  choice (which Go makes for short slices).
\<close>

definition feedback_Less :: "'w feedback \<Rightarrow> 'w feedback \<Rightarrow> bool" where
  "feedback_Less a b = (fb_Timestamp a > fb_Timestamp b)"

definition is_SortFeedbacks :: "'w feedback list \<Rightarrow> 'w feedback list \<Rightarrow> bool" where
  "is_SortFeedbacks xs ys \<longleftrightarrow> mset ys = mset xs \<and> sorted_wrt (\<lambda>a b. \<not> feedback_Less b a) ys"

definition SortFeedbacks :: "'w feedback list \<Rightarrow> 'w feedback list" where
  "SortFeedbacks xs = sort_key (\<lambda>f. - fb_Timestamp f) xs"

lemma SortFeedbacks_ok: "is_SortFeedbacks xs (SortFeedbacks xs)"
proof -
  have "sorted (map (\<lambda>f. - fb_Timestamp f) (SortFeedbacks xs))"
    unfolding SortFeedbacks_def by (rule sorted_sort_key)
  then show ?thesis
    by (simp add: is_SortFeedbacks_def feedback_Less_def sorted_wrt_map not_less) (simp add: SortFeedbacks_def)
qed

subsection \<open>Scan options\<close>

record 'w scan_options =
  so_BeginUserId :: "string option"
  so_EndUserId :: "string option"
  so_BeginItemId :: "string option"
  so_EndItemId :: "string option"
  so_BeginTime :: "time option"
  so_EndTime :: "time option"
  so_FeedbackTypes :: "'w fb_expr list"
  so_OrderByItemId :: bool

type_synonym 'w scan_option = "'w scan_options \<Rightarrow> 'w scan_options"

definition WithBeginUserId :: "string \<Rightarrow> 'w scan_option" where
  "WithBeginUserId u = so_BeginUserId_update (\<lambda>_. Some u)"

definition WithEndUserId :: "string \<Rightarrow> 'w scan_option" where
  "WithEndUserId u = so_EndUserId_update (\<lambda>_. Some u)"

definition WithBeginItemId :: "string \<Rightarrow> 'w scan_option" where
  "WithBeginItemId i = so_BeginItemId_update (\<lambda>_. Some i)"

definition WithEndItemId :: "string \<Rightarrow> 'w scan_option" where
  "WithEndItemId i = so_EndItemId_update (\<lambda>_. Some i)"

definition WithBeginTime :: "time \<Rightarrow> 'w scan_option" where
  "WithBeginTime t = so_BeginTime_update (\<lambda>_. Some t)"

definition WithEndTime :: "time \<Rightarrow> 'w scan_option" where
  "WithEndTime t = so_EndTime_update (\<lambda>_. Some t)"

definition WithFeedbackTypes :: "'w fb_expr list \<Rightarrow> 'w scan_option" where
  "WithFeedbackTypes es = so_FeedbackTypes_update (\<lambda>_. es)"

definition WithOrderByItemId :: "'w scan_option" where
  "WithOrderByItemId = so_OrderByItemId_update (\<lambda>_. True)"

text \<open>Nil options are skipped; of two options for one field the later one counts.\<close>

definition NewScanOptions :: "'w scan_option option list \<Rightarrow> 'w scan_options" where
  "NewScanOptions opts =
     foldl (\<lambda>o' opt. case opt of None \<Rightarrow> o' | Some f \<Rightarrow> f o')
       \<lparr>so_BeginUserId = None, so_EndUserId = None, so_BeginItemId = None, so_EndItemId = None,
        so_BeginTime = None, so_EndTime = None, so_FeedbackTypes = [], so_OrderByItemId = False\<rparr> opts"

subsection \<open>The interface\<close>

record get_options =
  go_Categories :: "string list"
  go_SkipHidden :: bool
  go_ReturnId :: bool
  go_After :: "time option"

definition no_get_options :: get_options where
  "no_get_options = \<lparr>go_Categories = [], go_SkipHidden = False, go_ReturnId = False, go_After = None\<rparr>"

record ('s, 'w) data_db =
  ddb_BatchGetItems :: "'s \<Rightarrow> string list \<Rightarrow> get_options \<Rightarrow> (go_error + item list) \<times> 's"
  ddb_GetLatestItems :: "'s \<Rightarrow> int \<Rightarrow> string list \<Rightarrow> time option \<Rightarrow> (go_error + item list) \<times> 's"
  ddb_GetUserFeedback :: "'s \<Rightarrow> string \<Rightarrow> time option \<Rightarrow> 'w fb_expr list \<Rightarrow> (go_error + 'w feedback list) \<times> 's"

text \<open>What the server and the master call beside these.\<close>

record user_patch =
  up_Labels :: json
  up_Comment :: "string option"

text \<open>A nil slice of categories is \<open>None\<close>.\<close>

record item_patch =
  ip_IsHidden :: "bool option"
  ip_Categories :: "string list option"
  ip_Timestamp :: "time option"
  ip_Labels :: json
  ip_Comment :: "string option"

record 'w scored_item =
  si_Item :: item
  si_Score :: 'w

record ('s, 'w) data_store =
  dst_Ping :: "'s \<Rightarrow> go_error option \<times> 's"
  dst_CountUsers :: "'s \<Rightarrow> (go_error + int) \<times> 's"
  dst_CountItems :: "'s \<Rightarrow> (go_error + int) \<times> 's"
  dst_BatchInsertItems :: "'s \<Rightarrow> item list \<Rightarrow> go_error option \<times> 's"
  dst_DeleteItem :: "'s \<Rightarrow> string \<Rightarrow> go_error option \<times> 's"
  dst_GetItem :: "'s \<Rightarrow> string \<Rightarrow> (go_error + item) \<times> 's"
  dst_ModifyItem :: "'s \<Rightarrow> string \<Rightarrow> item_patch \<Rightarrow> go_error option \<times> 's"
  dst_GetItems :: "'s \<Rightarrow> string \<Rightarrow> int \<Rightarrow> time option \<Rightarrow> (go_error + string \<times> item list) \<times> 's"
  dst_SearchItems :: "'s \<Rightarrow> string \<Rightarrow> int \<Rightarrow> (go_error + 'w scored_item list) \<times> 's"
  dst_GetItemFeedback :: "'s \<Rightarrow> string \<Rightarrow> string list \<Rightarrow> (go_error + 'w feedback list) \<times> 's"
  dst_BatchInsertUsers :: "'s \<Rightarrow> user list \<Rightarrow> go_error option \<times> 's"
  dst_DeleteUser :: "'s \<Rightarrow> string \<Rightarrow> go_error option \<times> 's"
  dst_GetUser :: "'s \<Rightarrow> string \<Rightarrow> (go_error + user) \<times> 's"
  dst_ModifyUser :: "'s \<Rightarrow> string \<Rightarrow> user_patch \<Rightarrow> go_error option \<times> 's"
  dst_GetUsers :: "'s \<Rightarrow> string \<Rightarrow> int \<Rightarrow> (go_error + string \<times> user list) \<times> 's"
  dst_GetUserItemFeedback :: "'s \<Rightarrow> string \<Rightarrow> string \<Rightarrow> string list \<Rightarrow> (go_error + 'w feedback list) \<times> 's"
  dst_DeleteUserItemFeedback :: "'s \<Rightarrow> string \<Rightarrow> string \<Rightarrow> string list \<Rightarrow> (go_error + int) \<times> 's"
  dst_BatchInsertFeedback :: "'s \<Rightarrow> 'w feedback list \<Rightarrow> bool \<Rightarrow> bool \<Rightarrow> bool \<Rightarrow> go_error option \<times> 's"
  dst_GetFeedback :: "'s \<Rightarrow> string \<Rightarrow> int \<Rightarrow> time option \<Rightarrow> time option \<Rightarrow> string list \<Rightarrow> (go_error + string \<times> 'w feedback list) \<times> 's"

subsection \<open>The labels that are accepted\<close>

inductive valid_labels :: "json \<Rightarrow> bool" where
  "valid_labels JNull"
| "valid_labels (JString s)"
| "valid_labels (JNumber n)"
| "valid_labels (JArray (map JString ss))"
| "valid_labels (JArray (map JNumber ns))"
| "(\<forall>kv \<in> set kvs. valid_labels (snd kv)) \<Longrightarrow> valid_labels (JObject kvs)"

inductive_simps valid_labels_simps:
  "valid_labels JNull" "valid_labels (JString s)" "valid_labels (JNumber n)" "valid_labels (JBool b)" "valid_labels (JFloat n)" "valid_labels (JHalfs hs)"
  "valid_labels (JArray xs)" "valid_labels (JObject kvs)"

lemma all_JString: "list_all is_JString xs \<longleftrightarrow> (\<exists>ss. xs = map JString ss)"
proof (induction xs)
  case (Cons x xs)
  then show ?case by (cases x) (auto simp: Cons_eq_map_conv)
qed simp

lemma all_JNumber: "list_all is_JNumber xs \<longleftrightarrow> (\<exists>ss. xs = map JNumber ss)"
proof (induction xs)
  case (Cons x xs)
  then show ?case by (cases x) (auto simp: Cons_eq_map_conv)
qed simp

lemma ValidateLabels_array: "ValidateLabels (JArray xs) = None \<longleftrightarrow> valid_labels (JArray xs)"
proof -
  have "ValidateLabels (JArray xs) = None \<longleftrightarrow> list_all is_JString xs \<or> list_all is_JNumber xs"
    by (auto split: list.split json.split)
  then show ?thesis by (simp only: all_JString all_JNumber valid_labels_simps)
qed

lemma ValidateLabels_both:
  "ValidateLabels l = None \<longleftrightarrow> valid_labels l"
  "ValidateLabels_fields kvs = None \<longleftrightarrow> (\<forall>kv \<in> set kvs. valid_labels (snd kv))"
proof (induction l and kvs rule: ValidateLabels_ValidateLabels_fields.induct)
  case (2 xs)
  then show ?case by (rule ValidateLabels_array)
qed (auto simp: valid_labels_simps split: option.splits)

text \<open>\<open>ValidateLabels\<close> accepts exactly these labels: nothing, a string, a number, a list of strings only, a list of
  numbers only, and an object whose fields are valid labels; whatever the order in which the fields are visited.\<close>

theorem ValidateLabels_iff: "ValidateLabels l = None \<longleftrightarrow> valid_labels l"
  by (rule ValidateLabels_both(1))

end
