(* ===== verification/Recommend_Config.thy ===== *)
theory Recommend_Config
  imports Storage_Data
begin

text \<open>
  The \<open>[recommend]\<close> section of \<open>config/config.go\<close>: the fields that the modelled code reads, the names of the
  configured recommenders, their lookup and the digests that tell whether cached recommendations are
  current. \<open>md5\<close> is the hexadecimal digest of a byte string and \<open>render\<close> the rendering of numbers in expressions.
\<close>

record 'w data_source_config =
  ds_PositiveFeedbackTypes :: "'w fb_expr list"
  ds_NegativeFeedbackTypes :: "'w fb_expr list"
  ds_ReadFeedbackTypes :: "'w fb_expr list"
  ds_PositiveFeedbackTTL :: nat
  ds_ItemTTL :: nat

record non_personalized_config =
  np_Name :: string
  np_Score :: string
  np_Filter :: string

record similarity_config =
  sim_Name :: string
  sim_Type :: string
  sim_Column :: string

record collaborative_config =
  co_Type :: string

record external_config =
  ext_Name :: string
  ext_Script :: string

record 'w replacement_config =
  rp_EnableReplacement :: bool
  rp_PositiveReplacementDecay :: 'w
  rp_ReadReplacementDecay :: 'w

record ranker_config =
  rk_Type :: string
  rk_Recommenders :: "string list"
  rk_CacheExpire :: duration

record 'w recommend_config =
  CacheSize :: int
  CacheExpire :: duration
  ContextSize :: int
  ActiveUserTTL :: int
  DataSource :: "'w data_source_config"
  NonPersonalized :: "non_personalized_config list"
  ItemToItem :: "similarity_config list"
  UserToUser :: "similarity_config list"
  Collaborative :: collaborative_config
  External :: "external_config list"
  Replacement :: "'w replacement_config"
  Ranker :: ranker_config
  FallbackRecommenders :: "string list"

subsection \<open>Names\<close>

definition np_FullName :: "non_personalized_config \<Rightarrow> string" where
  "np_FullName c = ''non-personalized/'' @ np_Name c"

definition i2i_FullName :: "similarity_config \<Rightarrow> string" where
  "i2i_FullName c = ''item-to-item/'' @ sim_Name c"

definition u2u_FullName :: "similarity_config \<Rightarrow> string" where
  "u2u_FullName c = ''user-to-user/'' @ sim_Name c"

definition co_FullName :: "collaborative_config \<Rightarrow> string" where
  "co_FullName c = ''collaborative''"

definition ext_FullName :: "external_config \<Rightarrow> string" where
  "ext_FullName c = ''external/'' @ ext_Name c"

definition ListRecommenders :: "'w recommend_config \<Rightarrow> string list" where
  "ListRecommenders r =
     map np_FullName (NonPersonalized r) @ map i2i_FullName (ItemToItem r) @ map u2u_FullName (UserToUser r) @
     map ext_FullName (External r) @ [co_FullName (Collaborative r)] @ [''latest'']"

definition GetItemToItemConfig :: "'w recommend_config \<Rightarrow> string \<Rightarrow> similarity_config option" where
  "GetItemToItemConfig r name = find (\<lambda>c. sim_Name c = name) (ItemToItem r)"

definition GetUserToUserConfig :: "'w recommend_config \<Rightarrow> string \<Rightarrow> similarity_config option" where
  "GetUserToUserConfig r name = find (\<lambda>c. sim_Name c = name) (UserToUser r)"

subsection \<open>Digests\<close>

definition np_Hash :: "(string \<Rightarrow> string) \<Rightarrow> non_personalized_config \<Rightarrow> string" where
  "np_Hash md5 c = md5 (np_Name c @ np_Score c @ np_Filter c)"

text \<open>The expressions that are written to the hash, positive ones first.\<close>

definition feedback_types_text :: "('w \<Rightarrow> string) \<Rightarrow> 'w recommend_config \<Rightarrow> string" where
  "feedback_types_text render cfg =
     concat (map (FeedbackExpr_String render) (ds_PositiveFeedbackTypes (DataSource cfg))) @
     concat (map (FeedbackExpr_String render) (ds_NegativeFeedbackTypes (DataSource cfg)))"

definition i2i_Hash :: "(string \<Rightarrow> string) \<Rightarrow> ('w \<Rightarrow> string) \<Rightarrow> similarity_config \<Rightarrow> 'w recommend_config \<Rightarrow> string" where
  "i2i_Hash md5 render c cfg =
     md5 (sim_Name c @ sim_Type c @ sim_Column c @
       (if sim_Type c = ''users'' then feedback_types_text render cfg else ''''))"

definition u2u_Hash :: "(string \<Rightarrow> string) \<Rightarrow> ('w \<Rightarrow> string) \<Rightarrow> similarity_config \<Rightarrow> 'w recommend_config \<Rightarrow> string" where
  "u2u_Hash md5 render c cfg =
     md5 (sim_Name c @ sim_Type c @ sim_Column c @
       (if sim_Type c = ''items'' then feedback_types_text render cfg else ''''))"

definition co_Hash :: "(string \<Rightarrow> string) \<Rightarrow> ('w \<Rightarrow> string) \<Rightarrow> 'w recommend_config \<Rightarrow> string" where
  "co_Hash md5 render cfg = md5 (feedback_types_text render cfg)"

definition ext_Hash :: "(string \<Rightarrow> string) \<Rightarrow> external_config \<Rightarrow> string" where
  "ext_Hash md5 c = md5 (ext_Name c @ ext_Script c)"

text \<open>\<open>util.MD5\<close> hashes the concatenation of the sorted strings (Go orders strings by bytes).\<close>

definition string_key :: "string \<Rightarrow> nat list" where
  "string_key s = map of_char s"

fun lex_le :: "nat list \<Rightarrow> nat list \<Rightarrow> bool" where
  "lex_le [] ys = True"
| "lex_le (x # xs) [] = False"
| "lex_le (x # xs) (y # ys) = (x < y \<or> x = y \<and> lex_le xs ys)"

fun insert_string :: "string \<Rightarrow> string list \<Rightarrow> string list" where
  "insert_string x [] = [x]"
| "insert_string x (y # ys) = (if lex_le (string_key x) (string_key y) then x # y # ys else y # insert_string x ys)"

definition sort_strings :: "string list \<Rightarrow> string list" where
  "sort_strings ss = foldr insert_string ss []"

definition util_MD5 :: "(string \<Rightarrow> string) \<Rightarrow> string list \<Rightarrow> string" where
  "util_MD5 md5 ss = md5 (concat (sort_strings ss))"

definition config_digests :: "(string \<Rightarrow> string) \<Rightarrow> ('w \<Rightarrow> string) \<Rightarrow> 'w recommend_config \<Rightarrow> string set \<Rightarrow> string list" where
  "config_digests md5 render r recs =
     map (np_Hash md5) (filter (\<lambda>c. np_FullName c \<in> recs) (NonPersonalized r)) @
     map (\<lambda>c. i2i_Hash md5 render c r) (filter (\<lambda>c. i2i_FullName c \<in> recs) (ItemToItem r)) @
     map (\<lambda>c. u2u_Hash md5 render c r) (filter (\<lambda>c. u2u_FullName c \<in> recs) (UserToUser r)) @
     map (ext_Hash md5) (filter (\<lambda>c. ext_FullName c \<in> recs) (External r)) @
     (if co_FullName (Collaborative r) \<in> recs then [co_Hash md5 render r] else []) @
     (if ''latest'' \<in> recs then [''latest''] else [])"

definition config_Hash :: "(string \<Rightarrow> string) \<Rightarrow> ('w \<Rightarrow> string) \<Rightarrow> 'w recommend_config \<Rightarrow> string" where
  "config_Hash md5 render r =
     (let recs = set (rk_Recommenders (Ranker r));
          recs' = (if recs = {} then recs \<union> set (ListRecommenders r) else recs)
      in util_MD5 md5 (config_digests md5 render r recs'))"

subsection \<open>Sorting makes the digest independent of the order\<close>

lemma lex_le_refl: "lex_le xs xs"
  by (induction xs) auto

lemma lex_le_antisym: "lex_le xs ys \<Longrightarrow> lex_le ys xs \<Longrightarrow> xs = ys"
proof (induction xs ys rule: lex_le.induct)
  case (1 ys)
  then show ?case by (cases ys) auto
qed auto

lemma lex_le_trans: "lex_le xs ys \<Longrightarrow> lex_le ys zs \<Longrightarrow> lex_le xs zs"
proof (induction xs ys arbitrary: zs rule: lex_le.induct)
  case (3 x xs y ys)
  then show ?case by (cases zs) auto
qed (auto split: list.splits)

lemma lex_le_total: "lex_le xs ys \<or> lex_le ys xs"
  by (induction xs ys rule: lex_le.induct) auto

lemma string_key_inject: "string_key a = string_key b \<Longrightarrow> a = b"
  unfolding string_key_def by (rule map_injective) (auto intro: injI)

lemma mset_insert_string [simp]: "mset (insert_string x ys) = add_mset x (mset ys)"
  by (induction ys) auto

lemma mset_sort_strings [simp]: "mset (sort_strings ss) = mset ss"
  unfolding sort_strings_def by (induction ss) auto

abbreviation sorted_strings :: "string list \<Rightarrow> bool" where
  "sorted_strings \<equiv> sorted_wrt (\<lambda>a b. lex_le (string_key a) (string_key b))"

lemma sorted_insert_string: "sorted_strings ys \<Longrightarrow> sorted_strings (insert_string x ys)"
proof (induction ys)
  case (Cons y ys)
  have "set (insert_string x ys) = insert x (set ys)" by (metis mset_insert_string set_mset_add_mset_insert set_mset_mset)
  then show ?case using Cons lex_le_total lex_le_trans by (auto 4 3)
qed simp

lemma sorted_sort_strings: "sorted_strings (sort_strings ss)"
  unfolding sort_strings_def by (induction ss) (auto intro: sorted_insert_string)

lemma sorted_strings_unique: "sorted_strings xs \<Longrightarrow> sorted_strings ys \<Longrightarrow> mset xs = mset ys \<Longrightarrow> xs = ys"
proof (induction xs arbitrary: ys)
  case (Cons x xs)
  then obtain y zs where ys: "ys = y # zs" by (cases ys) auto
  have same: "set (x # xs) = set (y # zs)" using mset_eq_setD [OF Cons.prems(3)] ys by simp
  have le: "lex_le (string_key a) (string_key b)" if "sorted_strings (a # as)" "b \<in> set (a # as)" for a b as
    using that lex_le_refl by auto
  have "x \<in> set (y # zs)" unfolding same [symmetric] by simp
  moreover have "y \<in> set (x # xs)" unfolding same by simp
  ultimately have "lex_le (string_key y) (string_key x)" "lex_le (string_key x) (string_key y)"
    using le [OF Cons.prems(2) [unfolded ys]] le [OF Cons.prems(1)] by blast+
  then have "x = y" by (intro string_key_inject lex_le_antisym)
  then show ?case using Cons.IH [of zs] Cons.prems ys by simp
qed simp

lemma util_MD5_perm:
  assumes "mset xs = mset ys"
  shows "util_MD5 md5 xs = util_MD5 md5 ys"
proof -
  have "sort_strings xs = sort_strings ys"
    by (rule sorted_strings_unique [OF sorted_sort_strings sorted_sort_strings]) (simp only: mset_sort_strings assms)
  then show ?thesis unfolding util_MD5_def by (rule arg_cong)
qed

end
