(* ===== verification/Vectors.thy ===== *)
theory Vectors
  imports Prelude
begin

text \<open>
  \<open>storage/vectors/database.go\<close>: vectors, collections and the interface of a vector
  database. A database is a record of its methods, each a function of the database's state;
  the backends (Qdrant, Milvus, Weaviate, Xvec) are other programs and stay parameters.
  Scores and coordinates are of a type \<open>'w\<close>.
\<close>

datatype distance = Cosine | Euclidean | Dot

record vector_config =
  vc_Type :: string
  vc_Bits :: int

record collection_info =
  ci_Name :: string
  ci_Dimension :: nat
  ci_Distance :: distance
  ci_Config :: vector_config

record 'w vector =
  vec_Id :: string
  vec_Values :: "'w list"
  vec_HValues :: "16 word list"
  vec_Indices :: "32 word list"
  vec_IsHidden :: bool
  vec_Categories :: "string list"
  vec_Timestamp :: time

record 'w scored_vector = "'w vector" +
  sv_Score :: 'w

definition zero_vector :: "'w vector" where
  "zero_vector = \<lparr>vec_Id = '''', vec_Values = [], vec_HValues = [], vec_Indices = [],
     vec_IsHidden = False, vec_Categories = [], vec_Timestamp = 0\<rparr>"

definition vec_IsSparse :: "('w, 'z) vector_scheme \<Rightarrow> bool" where
  "vec_IsSparse v = (vec_HValues v = [] \<and> vec_Indices v \<noteq> [])"

definition vec_Len :: "('w, 'z) vector_scheme \<Rightarrow> nat" where
  "vec_Len v = (if vec_HValues v \<noteq> [] then length (vec_HValues v) else length (vec_Values v))"

text \<open>
  \<open>Float32Values\<close> and \<open>Float16Values\<close>, over the conversions \<open>floats.ToFloat32\<close> and
  \<open>floats.FromFloat32\<close> of one half-precision value.
\<close>

definition vec_Float32Values :: "(16 word \<Rightarrow> 'w) \<Rightarrow> ('w, 'z) vector_scheme \<Rightarrow> 'w list" where
  "vec_Float32Values to32 v = (if vec_HValues v \<noteq> [] then map to32 (vec_HValues v) else vec_Values v)"

definition vec_Float16Values :: "('w \<Rightarrow> 16 word) \<Rightarrow> ('w, 'z) vector_scheme \<Rightarrow> 16 word list" where
  "vec_Float16Values to16 v = (if vec_HValues v \<noteq> [] then vec_HValues v else map to16 (vec_Values v))"

subsection \<open>Names of collections\<close>

definition ItemToItemCollection :: "string \<Rightarrow> string" where
  "ItemToItemCollection name = ''item_to_item'' @ ''_'' @ name"

definition UserToUserCollection :: "string \<Rightarrow> string" where
  "UserToUserCollection name = ''user_to_user'' @ ''_'' @ name"

subsection \<open>The interface\<close>

record ('s, 'w) vector_db =
  vdb_Optimize :: "'s \<Rightarrow> string \<Rightarrow> go_error option \<times> 's"
  vdb_ListCollections :: "'s \<Rightarrow> (go_error + string list) \<times> 's"
  vdb_DescribeCollection :: "'s \<Rightarrow> string \<Rightarrow> (go_error + collection_info option) \<times> 's"
  vdb_AddCollection :: "'s \<Rightarrow> string \<Rightarrow> nat \<Rightarrow> distance \<Rightarrow> vector_config \<Rightarrow> go_error option \<times> 's"
  vdb_DeleteCollection :: "'s \<Rightarrow> string \<Rightarrow> go_error option \<times> 's"
  vdb_AddVectors :: "'s \<Rightarrow> string \<Rightarrow> 'w vector list \<Rightarrow> go_error option \<times> 's"
  vdb_GetVectors :: "'s \<Rightarrow> string \<Rightarrow> string list \<Rightarrow> (go_error + 'w vector list) \<times> 's"
  vdb_DeleteVectors :: "'s \<Rightarrow> string \<Rightarrow> time \<Rightarrow> go_error option \<times> 's"
  vdb_QueryVectors :: "'s \<Rightarrow> string \<Rightarrow> 'w vector \<Rightarrow> string list \<Rightarrow> int \<Rightarrow>
    (go_error + 'w scored_vector list) \<times> 's"

text \<open>\<open>Purge\<close> deletes the listed collections and stops at the first error.\<close>

fun vdb_delete_all :: "('s, 'w) vector_db \<Rightarrow> 's \<Rightarrow> string list \<Rightarrow> go_error option \<times> 's" where
  "vdb_delete_all db s [] = (None, s)"
| "vdb_delete_all db s (c # cs) =
     (case vdb_DeleteCollection db s c of
        (Some e, s') \<Rightarrow> (Some e, s')
      | (None, s') \<Rightarrow> vdb_delete_all db s' cs)"

definition vdb_Purge :: "('s, 'w) vector_db \<Rightarrow> 's \<Rightarrow> go_error option \<times> 's" where
  "vdb_Purge db s =
     (case vdb_ListCollections db s of
        (Inl e, s') \<Rightarrow> (Some e, s')
      | (Inr cs, s') \<Rightarrow> vdb_delete_all db s' cs)"

subsection \<open>Results in the order of the request\<close>

text \<open>\<open>byID\<close> keeps the last vector of each id, \<open>seen\<close> drops repeated ids of the request.\<close>

definition vectors_byID :: "('w, 'z) vector_scheme list \<Rightarrow> string \<rightharpoonup> ('w, 'z) vector_scheme" where
  "vectors_byID vs = foldl (\<lambda>m v. m(vec_Id v \<mapsto> v)) Map.empty vs"

fun orderVectors_loop :: "(string \<rightharpoonup> ('w, 'z) vector_scheme) \<Rightarrow> string set \<Rightarrow> string list \<Rightarrow>
    ('w, 'z) vector_scheme list" where
  "orderVectors_loop byID seen [] = []"
| "orderVectors_loop byID seen (i # ids) =
     (if i \<in> seen then orderVectors_loop byID seen ids
      else case byID i of
          None \<Rightarrow> orderVectors_loop byID (insert i seen) ids
        | Some v \<Rightarrow> v # orderVectors_loop byID (insert i seen) ids)"

definition orderVectors :: "string list \<Rightarrow> ('w, 'z) vector_scheme list \<Rightarrow> ('w, 'z) vector_scheme list" where
  "orderVectors ids vs = orderVectors_loop (vectors_byID vs) {} ids"

lemma vectors_byID_snoc: "vectors_byID (vs @ [v]) = (vectors_byID vs)(vec_Id v \<mapsto> v)"
  by (simp add: vectors_byID_def)

lemma vectors_byID_Some: "vectors_byID vs i = Some v \<Longrightarrow> v \<in> set vs \<and> vec_Id v = i"
  by (induction vs rule: rev_induct)
     (auto simp: vectors_byID_snoc vectors_byID_def [of "[]"] split: if_splits)

lemma dom_vectors_byID: "dom (vectors_byID vs) = vec_Id ` set vs"
  by (induction vs rule: rev_induct) (simp_all add: vectors_byID_snoc vectors_byID_def [of "[]"] del: fun_upd_apply)

lemma orderVectors_loop_ids:
  assumes "\<And>i v. byID i = Some v \<Longrightarrow> vec_Id v = i"
  shows "distinct (map vec_Id (orderVectors_loop byID seen ids)) \<and>
    vec_Id ` set (orderVectors_loop byID seen ids) = (set ids - seen) \<inter> dom byID"
proof (induction ids arbitrary: seen)
  case Nil
  then show ?case by simp
next
  case (Cons i ids)
  then show ?case using assms by (auto split: option.splits)
qed

text \<open>
  Reordering a database's answer: the result holds, once each and nothing else, the ids
  that were asked for and that the answer contains; every vector is one of the answer.
\<close>

theorem orderVectors_correct:
  "distinct (map vec_Id (orderVectors ids vs)) \<and>
   vec_Id ` set (orderVectors ids vs) = set ids \<inter> vec_Id ` set vs \<and>
   set (orderVectors ids vs) \<subseteq> set vs"
proof -
  have 1: "\<And>i v. vectors_byID vs i = Some v \<Longrightarrow> vec_Id v = i" using vectors_byID_Some by blast
  have "set (orderVectors_loop (vectors_byID vs) seen ids) \<subseteq> set vs" for seen
    by (induction ids arbitrary: seen) (auto split: option.splits dest!: vectors_byID_Some)
  then show ?thesis
    using orderVectors_loop_ids [where seen = "{}" and ids = ids, OF 1] by (simp add: orderVectors_def dom_vectors_byID)
qed

end
