(* ===== verification/Go_Env.thy ===== *)
theory Go_Env
  imports Storage_Cache Recommend_Config Vectors
begin

text \<open>
  What the modelled code takes from Go's run time and from third-party packages, as one record: the
  clock and calendar, the iteration order of maps, the order that unstable sorts give to equal elements, the MD5
  digest and the rendering and parsing of times and numbers. \<open>env_ok\<close> states the documented laws: an
  iteration visits every key once, and a sort permutes and sorts.
\<close>

record 'w env =
  env_Now :: time
  env_AddDays :: "time \<Rightarrow> int \<Rightarrow> time"
  env_Unix :: "time \<Rightarrow> 'w"
  env_MD5 :: "string \<Rightarrow> string"
  env_Render :: "'w \<Rightarrow> string"
  env_ShowTime :: "time \<Rightarrow> string"
  env_ParseAny :: "string \<Rightarrow> go_error + time"
  env_Iter :: "string list \<Rightarrow> string list"
  env_SortFeedbacks :: "'w feedback list \<Rightarrow> 'w feedback list"
  env_SortDocuments :: "'w score list \<Rightarrow> 'w score list"

definition env_ok :: "('w::linorder) env \<Rightarrow> bool" where
  "env_ok E \<longleftrightarrow> (\<forall>ks. mset (env_Iter E ks) = mset ks) \<and>
     (\<forall>fs. is_SortFeedbacks fs (env_SortFeedbacks E fs)) \<and>
     (\<forall>ds. is_SortDocuments ds (env_SortDocuments E ds))"

lemma env_ok_Iter: "env_ok E \<Longrightarrow> mset (env_Iter E ks) = mset ks"
  by (simp add: env_ok_def)

lemma env_ok_Iter_set: "env_ok E \<Longrightarrow> set (env_Iter E ks) = set ks"
  using env_ok_Iter by (metis mset_eq_setD)

lemma env_ok_Iter_distinct: "env_ok E \<Longrightarrow> distinct (env_Iter E ks) = distinct ks"
  using env_ok_Iter by (metis mset_eq_imp_distinct_iff)

lemma env_ok_SortFeedbacks_set: "env_ok E \<Longrightarrow> set (env_SortFeedbacks E fs) = set fs"
  unfolding env_ok_def is_SortFeedbacks_def by (metis mset_eq_setD)

lemma env_ok_SortDocuments: "env_ok E \<Longrightarrow> is_SortDocuments ds (env_SortDocuments E ds)"
  by (simp add: env_ok_def)

text \<open>An environment over the stable sorts that visits maps in insertion order.\<close>

definition plain_env :: "time \<Rightarrow> (time \<Rightarrow> 'w) \<Rightarrow> ('w::linorder) env" where
  "plain_env now unix =
     \<lparr>env_Now = now, env_AddDays = (\<lambda>t d. t + d * 86400000000000), env_Unix = unix,
      env_MD5 = (\<lambda>s. s), env_Render = (\<lambda>w. ''''), env_ShowTime = (\<lambda>t. ''''),
      env_ParseAny = (\<lambda>s. Inr 0), env_Iter = (\<lambda>ks. ks),
      env_SortFeedbacks = SortFeedbacks, env_SortDocuments = SortDocuments\<rparr>"

lemma plain_env_ok: "env_ok (plain_env now unix)"
  by (simp add: env_ok_def plain_env_def SortFeedbacks_ok SortDocuments_ok)

end
