(* ===== verification/Similarity.thy ===== *)
theory Similarity
  imports Go_Env
begin

text \<open>
  Neighbour queries: \<open>QueryItemToItem\<close> (\<open>logics/item_to_item.go\<close>) and \<open>QueryUserToUser\<close>
  (\<open>logics/user_to_user.go\<close>). Both fetch the stored vector of the queried entity, ask the vector database for
  \<open>n + 1\<close> neighbours and convert the answer. Scores are of a type with arithmetic operations whose laws are not
  used; the literal \<open>0.5\<close> is \<open>1 / (1 + 1)\<close>.
\<close>

definition query_distance :: "similarity_config \<Rightarrow> distance" where
  "query_distance c = (if sim_Type c = ''embedding'' then Euclidean else Dot)"

definition query_scale :: "similarity_config \<Rightarrow> 'w::{one,plus,divide}" where
  "query_scale c = (if sim_Type c = ''auto'' then 1 div (1 + 1) else 1)"

definition neighbor_score :: "similarity_config \<Rightarrow> 'w::{one,plus,minus,times,divide} \<Rightarrow> 'w" where
  "neighbor_score c raw =
     (let score = raw * query_scale c
      in if query_distance c = Euclidean then 1 div (1 - score) else score)"

definition neighbor_skipped :: "similarity_config \<Rightarrow> string \<Rightarrow> ('w::{linorder,zero}) scored_vector \<Rightarrow> bool" where
  "neighbor_skipped c self v = (vec_Id v = self \<or> query_distance c = Dot \<and> sv_Score v \<le> 0)"

fun i2i_neighbors :: "similarity_config \<Rightarrow> string \<Rightarrow> int \<Rightarrow> ('w::{linorder,zero,one,plus,minus,times,divide}) score list \<Rightarrow>
    'w scored_vector list \<Rightarrow> 'w score list" where
  "i2i_neighbors c self n scores [] = scores"
| "i2i_neighbors c self n scores (v # vs) =
     (if neighbor_skipped c self v then i2i_neighbors c self n scores vs
      else let scores' = scores @ [\<lparr>score_Id = vec_Id v, score_Score = neighbor_score c (sv_Score v),
                 score_IsHidden = False, score_Categories = vec_Categories v, score_Timestamp = 0\<rparr>]
           in if int (length scores') = n then scores' else i2i_neighbors c self n scores' vs)"

fun u2u_neighbors :: "similarity_config \<Rightarrow> string \<Rightarrow> int \<Rightarrow> ('w::{linorder,zero,one,plus,minus,times,divide}) score list \<Rightarrow>
    'w scored_vector list \<Rightarrow> 'w score list" where
  "u2u_neighbors c self n scores [] = scores"
| "u2u_neighbors c self n scores (v # vs) =
     (if neighbor_skipped c self v then u2u_neighbors c self n scores vs
      else let scores' = scores @ [\<lparr>score_Id = vec_Id v, score_Score = neighbor_score c (sv_Score v),
                 score_IsHidden = False, score_Categories = [], score_Timestamp = 0\<rparr>]
           in if int (length scores') = n then scores' else u2u_neighbors c self n scores' vs)"

text \<open>\<open>make([]cache.Score, 0, min(n, len(neighbors)))\<close> panics when \<open>n\<close> is negative.\<close>

definition QueryItemToItem ::
  "('s, 'w::{linorder,zero,one,plus,minus,times,divide}) vector_db \<Rightarrow> similarity_config \<Rightarrow> string \<Rightarrow> string list \<Rightarrow> int \<Rightarrow>
    ('s, 'w score list) io" where
  "QueryItemToItem db c itemId categories n =
     (let collection = ItemToItemCollection (sim_Name c) in
      io_bind (io_call (\<lambda>s. vdb_GetVectors db s collection [itemId])) (\<lambda>queries.
      case queries of
        [] \<Rightarrow> io_return []
      | q # _ \<Rightarrow>
          io_bind (io_call (\<lambda>s. vdb_QueryVectors db s collection q categories (n + 1))) (\<lambda>neighbors.
          if min n (int (length neighbors)) < 0 then io_fail (Panicked NegativeLength)
          else io_return (i2i_neighbors c itemId n [] neighbors))))"

definition QueryUserToUser ::
  "('s, 'w::{linorder,zero,one,plus,minus,times,divide}) vector_db \<Rightarrow> similarity_config \<Rightarrow> string \<Rightarrow> int \<Rightarrow>
    ('s, 'w score list) io" where
  "QueryUserToUser db c userId n =
     (let collection = UserToUserCollection (sim_Name c) in
      io_bind (io_call (\<lambda>s. vdb_GetVectors db s collection [userId])) (\<lambda>queries.
      case queries of
        [] \<Rightarrow> io_return []
      | q # _ \<Rightarrow>
          io_bind (io_call (\<lambda>s. vdb_QueryVectors db s collection q [] (n + 1))) (\<lambda>neighbors.
          if min n (int (length neighbors)) < 0 then io_fail (Panicked NegativeLength)
          else io_return (u2u_neighbors c userId n [] neighbors))))"

subsection \<open>The loop is a filter and a prefix\<close>

lemma i2i_neighbors_eq:
  "int (length scores) < n \<Longrightarrow> i2i_neighbors c self n scores vs =
     scores @ map (\<lambda>v. \<lparr>score_Id = vec_Id v, score_Score = neighbor_score c (sv_Score v),
       score_IsHidden = False, score_Categories = vec_Categories v, score_Timestamp = 0\<rparr>)
       (take (nat n - length scores) (filter (\<lambda>v. \<not> neighbor_skipped c self v) vs))"
proof (induction vs arbitrary: scores)
  case (Cons v vs)
  have "nat n - length scores = Suc (nat n - Suc (length scores))" using Cons.prems by linarith
  moreover have "int (length scores) + 1 < n" if "int (length scores) + 1 \<noteq> n" using that Cons.prems by linarith
  ultimately show ?case using Cons by (auto simp: Let_def)
qed simp

lemma u2u_neighbors_eq:
  "int (length scores) < n \<Longrightarrow> u2u_neighbors c self n scores vs =
     scores @ map (\<lambda>v. \<lparr>score_Id = vec_Id v, score_Score = neighbor_score c (sv_Score v),
       score_IsHidden = False, score_Categories = [], score_Timestamp = 0\<rparr>)
       (take (nat n - length scores) (filter (\<lambda>v. \<not> neighbor_skipped c self v) vs))"
proof (induction vs arbitrary: scores)
  case (Cons v vs)
  have "nat n - length scores = Suc (nat n - Suc (length scores))" using Cons.prems by linarith
  moreover have "int (length scores) + 1 < n" if "int (length scores) + 1 \<noteq> n" using that Cons.prems by linarith
  ultimately show ?case using Cons by (auto simp: Let_def)
qed simp

text \<open>The first \<open>n\<close> neighbours other than the queried entity, of positive score when the distance is the dot product.\<close>

definition kept_neighbors :: "similarity_config \<Rightarrow> string \<Rightarrow> int \<Rightarrow> ('w::{linorder,zero}) scored_vector list \<Rightarrow> 'w scored_vector list" where
  "kept_neighbors c self n vs =
     take (nat n) (filter (\<lambda>v. vec_Id v \<noteq> self \<and> (sim_Type c \<noteq> ''embedding'' \<longrightarrow> 0 < sv_Score v)) vs)"

lemma not_skipped: "\<not> neighbor_skipped c self v \<longleftrightarrow> vec_Id v \<noteq> self \<and> (sim_Type c \<noteq> ''embedding'' \<longrightarrow> 0 < sv_Score v)"
  by (auto simp: neighbor_skipped_def query_distance_def)

lemma kept_neighbors_ids: "v \<in> set (kept_neighbors c self n vs) \<Longrightarrow> vec_Id v \<noteq> self \<and> v \<in> set vs"
  unfolding kept_neighbors_def by (auto dest: in_set_takeD)

text \<open>(C34) Neighbour queries with a positive bound never panic: they return the first \<open>n\<close> of the database's
  neighbours that are not the queried entity itself and, except for the embedding type, have a positive score,
  in the database's order; an entity without a stored vector has no neighbours.\<close>

theorem QueryItemToItem_correct:
  assumes n: "0 < n" and get: "vdb_GetVectors db s (ItemToItemCollection (sim_Name c)) [i] = (Inr qs, s1)"
    and query: "\<And>q rest. qs = q # rest \<Longrightarrow> vdb_QueryVectors db s1 (ItemToItemCollection (sim_Name c)) q cats (n + 1) = (Inr vs, s2)"
  shows "QueryItemToItem db c i cats n s =
    (if qs = [] then (Inr [], s1)
     else (Inr (map (\<lambda>v. \<lparr>score_Id = vec_Id v, score_Score = neighbor_score c (sv_Score v), score_IsHidden = False,
             score_Categories = vec_Categories v, score_Timestamp = 0\<rparr>) (kept_neighbors c i n vs)), s2))"
proof (cases qs)
  case Nil
  then show ?thesis using get by (simp add: QueryItemToItem_def io_bind_def io_call_def io_return_def Let_def)
next
  case (Cons q rest)
  then show ?thesis
    using get query [OF Cons] n i2i_neighbors_eq [of "[]" n c i vs]
    by (simp add: QueryItemToItem_def io_bind_def io_call_def io_return_def Let_def kept_neighbors_def not_skipped)
qed

text \<open>A database that answers every query with the same neighbours.\<close>

definition fixed_db :: "'w vector list \<Rightarrow> 'w scored_vector list \<Rightarrow> ('s, 'w) vector_db" where
  "fixed_db qs vs =
     \<lparr>vdb_Optimize = (\<lambda>s c. (None, s)), vdb_ListCollections = (\<lambda>s. (Inr [], s)),
      vdb_DescribeCollection = (\<lambda>s c. (Inr None, s)), vdb_AddCollection = (\<lambda>s c n d cfg. (None, s)),
      vdb_DeleteCollection = (\<lambda>s c. (None, s)), vdb_AddVectors = (\<lambda>s c ws. (None, s)),
      vdb_GetVectors = (\<lambda>s c ids. (Inr qs, s)), vdb_DeleteVectors = (\<lambda>s c t. (None, s)),
      vdb_QueryVectors = (\<lambda>s c q cats n. (Inr (take (nat n) vs), s))\<rparr>"

definition example_neighbor :: "string \<Rightarrow> 'w \<Rightarrow> 'w scored_vector" where
  "example_neighbor i w = \<lparr>vec_Id = i, vec_Values = [], vec_HValues = [], vec_Indices = [],
     vec_IsHidden = False, vec_Categories = [], vec_Timestamp = 0, sv_Score = w\<rparr>"

theorem QueryItemToItem_correct_witness:
  "fst (QueryItemToItem (fixed_db [zero_vector] [example_neighbor ''a'' (5::int), example_neighbor ''i'' 4, example_neighbor ''b'' 0])
     \<lparr>sim_Name = ''x'', sim_Type = ''tags'', sim_Column = ''''\<rparr> ''i'' [] 2 ()) =
   Inr [\<lparr>score_Id = ''a'', score_Score = 5, score_IsHidden = False, score_Categories = [], score_Timestamp = 0\<rparr>]"
proof -
  let ?c = "\<lparr>sim_Name = ''x'', sim_Type = ''tags'', sim_Column = ''''\<rparr>"
  let ?vs = "[example_neighbor ''a'' (5::int), example_neighbor ''i'' 4, example_neighbor ''b'' 0]"
  have "kept_neighbors ?c ''i'' 2 ?vs = [example_neighbor ''a'' 5]" by (simp add: kept_neighbors_def example_neighbor_def)
  then show ?thesis
    by (subst QueryItemToItem_correct [where qs = "[zero_vector]" and vs = ?vs and ?s1.0 = "()" and ?s2.0 = "()"])
      (simp_all add: fixed_db_def example_neighbor_def neighbor_score_def query_distance_def query_scale_def)
qed

end
