(* ===== verification/Recommender.thy ===== *)
theory Recommender
  imports Similarity Weighted_Heap "HOL-Library.AList"
begin

text \<open>
  \<open>logics/recommend.go\<close>: the recommender of one user. It keeps the set of items that must not be recommended,
  runs the configured recommenders one after the other, and adds every result to that set. The stores are the
  records of \<open>Storage_Data\<close>, \<open>Storage_Cache\<close> and \<open>Vectors\<close>; \<open>r_Pull\<close> stands for running an
  external script (\<open>NewExternal\<close>, \<open>Pull\<close>, \<open>Close\<close>). A Go map is an association list
  in insertion order that is visited in the order \<open>env_Iter\<close> gives. When an operation fails the
  recommender is given up by its callers, so a failure carries no recommender.
\<close>

record ('s, 'w) recommender =
  r_config :: "'w recommend_config"
  r_cacheClient :: "('s, 'w) cache_db"
  r_dataClient :: "('s, 'w) data_db"
  r_vectorClient :: "('s, 'w) vector_db"
  r_Pull :: "external_config \<Rightarrow> string \<Rightarrow> 's \<Rightarrow> (go_error + string list) \<times> 's"
  r_online :: bool
  r_coldstart :: bool
  r_userId :: string
  r_userFeedback :: "'w feedback list"
  r_categories :: "string list"
  r_excludeSet :: "string set"

subsection \<open>Construction\<close>

fun exclude_feedback :: "('w::linorder) recommend_config \<Rightarrow> bool \<Rightarrow> string set \<times> bool \<Rightarrow> 'w feedback list \<Rightarrow> string set \<times> bool" where
  "exclude_feedback cfg online (excl, cold) [] = (excl, cold)"
| "exclude_feedback cfg online (excl, cold) (f # fs) =
     (let excl' =
            (if MatchFeedbackTypeExpressions (ds_NegativeFeedbackTypes (DataSource cfg)) (fb_FeedbackType f) (fb_Value f)
             then insert (fb_ItemId f) excl
             else if \<not> rp_EnableReplacement (Replacement cfg) \<or> \<not> online then insert (fb_ItemId f) excl
             else excl);
          cold' =
            (if MatchFeedbackTypeExpressions (ds_PositiveFeedbackTypes (DataSource cfg)) (fb_FeedbackType f) (fb_Value f)
             then False else cold)
      in exclude_feedback cfg online (excl', cold') fs)"

definition NewRecommender :: "('w::linorder) env \<Rightarrow> 'w recommend_config \<Rightarrow> ('s, 'w) cache_db \<Rightarrow> ('s, 'w) data_db \<Rightarrow>
    ('s, 'w) vector_db \<Rightarrow> (external_config \<Rightarrow> string \<Rightarrow> 's \<Rightarrow> (go_error + string list) \<times> 's) \<Rightarrow>
    bool \<Rightarrow> string \<Rightarrow> string list \<Rightarrow> ('s, ('s, 'w) recommender) io" where
  "NewRecommender E cfg cache data vec pull online userId categories =
     io_bind (io_call (\<lambda>s. ddb_GetUserFeedback data s userId (Some (env_Now E)) [])) (\<lambda>userFeedback.
     case exclude_feedback cfg online ({}, True) userFeedback of
       (excl, cold) \<Rightarrow>
         io_return \<lparr>r_config = cfg, r_cacheClient = cache, r_dataClient = data, r_vectorClient = vec, r_Pull = pull,
           r_online = online, r_coldstart = cold, r_userId = userId, r_userFeedback = userFeedback,
           r_categories = categories, r_excludeSet = excl\<rparr>)"

subsection \<open>The sources\<close>

text \<open>The result of a source: its scores, its digest and the recommender afterwards.\<close>

type_synonym ('s, 'w) source =
  "('s, 'w) recommender \<Rightarrow> ('s, 'w score list \<times> string \<times> ('s, 'w) recommender) io"

definition item_after :: "'w env \<Rightarrow> 'w recommend_config \<Rightarrow> time option" where
  "item_after E cfg =
     (if ds_ItemTTL (DataSource cfg) > 0
      then Some (env_AddDays E (env_Now E) (- int (ds_ItemTTL (DataSource cfg)))) else None)"

definition recommendLatest :: "'w env \<Rightarrow> ('s, 'w) source" where
  "recommendLatest E r =
     io_bind (io_call (\<lambda>s. ddb_GetLatestItems (r_dataClient r) s (CacheSize (r_config r)) (r_categories r)
       (item_after E (r_config r)))) (\<lambda>items.
     io_return (map (\<lambda>i. \<lparr>score_Id = item_ItemId i, score_Score = env_Unix E (item_Timestamp i), score_IsHidden = False,
         score_Categories = item_Categories i, score_Timestamp = 0\<rparr>)
       (filter (\<lambda>i. item_ItemId i \<notin> r_excludeSet r) items), ''latest'', r))"

definition recommendNonPersonalized :: "string \<Rightarrow> ('s, 'w) source" where
  "recommendNonPersonalized name r =
     (let categories = (if r_categories r = [] then [''''] else r_categories r) in
      io_bind (io_call (\<lambda>s. cdb_SearchScores (r_cacheClient r) s c_NonPersonalized name categories 0 (CacheSize (r_config r)))) (\<lambda>items.
      io_bind (io_call (\<lambda>s. cdb_GetString (r_cacheClient r) s (Key [c_NonPersonalizedDigest, name]))) (\<lambda>digest.
      io_return (filter (\<lambda>i. score_Id i \<notin> r_excludeSet r) items, digest, r))))"

definition recommendCollaborative :: "('s, 'w) source" where
  "recommendCollaborative r =
     io_bind (io_call (\<lambda>s. cdb_SearchScores (r_cacheClient r) s c_CollaborativeFiltering (r_userId r) (r_categories r) 0
       (CacheSize (r_config r)))) (\<lambda>items.
     io_bind (io_call (\<lambda>s. cdb_GetString (r_cacheClient r) s (Key [c_CollaborativeFilteringDigest, r_userId r]))) (\<lambda>digest.
     io_return (filter (\<lambda>i. score_Id i \<notin> r_excludeSet r) items, digest, r)))"

text \<open>The positive feedback that item-to-item looks at: online only the first \<open>ContextSize\<close> ones.\<close>

fun positive_context :: "('w::linorder) recommend_config \<Rightarrow> bool \<Rightarrow> 'w feedback list \<Rightarrow> 'w feedback list \<Rightarrow> 'w feedback list" where
  "positive_context cfg online acc [] = acc"
| "positive_context cfg online acc (f # fs) =
     (if MatchFeedbackTypeExpressions (ds_PositiveFeedbackTypes (DataSource cfg)) (fb_FeedbackType f) (fb_Value f)
      then let acc' = acc @ [f]
           in if online \<and> ContextSize cfg \<le> int (length acc') then acc' else positive_context cfg online acc' fs
      else positive_context cfg online acc fs)"

text \<open>\<open>scores[id] += w\<close> on a Go map: a missing entry counts as zero.\<close>

definition map_add_score :: "(string \<times> 'w::{zero,plus}) list \<Rightarrow> string \<Rightarrow> 'w \<Rightarrow> (string \<times> 'w) list" where
  "map_add_score m i w = AList.update i ((case map_of m i of None \<Rightarrow> 0 | Some x \<Rightarrow> x) + w) m"

fun add_neighbors :: "string set \<Rightarrow> (string \<times> 'w::{zero,plus}) list \<times> (string \<times> string list) list \<Rightarrow> 'w score list \<Rightarrow>
    (string \<times> 'w) list \<times> (string \<times> string list) list" where
  "add_neighbors excl (scores, cats) [] = (scores, cats)"
| "add_neighbors excl (scores, cats) (x # xs) =
     (if score_Id x \<notin> excl
      then add_neighbors excl (map_add_score scores (score_Id x) (score_Score x),
             AList.update (score_Id x) (score_Categories x) cats) xs
      else add_neighbors excl (scores, cats) xs)"

fun collect_neighbors :: "('s, 'w::{linorder,zero,one,plus,minus,times,divide}) recommender \<Rightarrow> similarity_config \<Rightarrow>
    (string \<times> 'w) list \<times> (string \<times> string list) list \<Rightarrow> 'w feedback list \<Rightarrow>
    ('s, (string \<times> 'w) list \<times> (string \<times> string list) list) io" where
  "collect_neighbors r c m [] = io_return m"
| "collect_neighbors r c m (f # fs) =
     io_bind (QueryItemToItem (r_vectorClient r) c (fb_ItemId f) (r_categories r) (CacheSize (r_config r))) (\<lambda>xs.
     collect_neighbors r c (add_neighbors (r_excludeSet r) m xs) fs)"

text \<open>The map pushed into a top-k filter, in the order in which the map is visited.\<close>

definition topk_of_map :: "('w::{linorder,zero}) env \<Rightarrow> int \<Rightarrow> (string \<times> 'w) list \<Rightarrow> go_panic + (string, 'w) elem list" where
  "topk_of_map E k m =
     (case topk_push_all (NewTopKFilter k) (map (\<lambda>i. (i, the (map_of m i))) (env_Iter E (map fst m))) of
        Inl p \<Rightarrow> Inl p
      | Inr f \<Rightarrow>
          (case topk_PopAll \<lparr>elem_value = '''', elem_weight = 0\<rparr> f of Inl p \<Rightarrow> Inl p | Inr (es, f') \<Rightarrow> Inr es))"

definition recommendItemToItem :: "('w::{linorder,zero,one,plus,minus,times,divide}) env \<Rightarrow> string \<Rightarrow> ('s, 'w) source" where
  "recommendItemToItem E name r =
     (case GetItemToItemConfig (r_config r) name of
        None \<Rightarrow> io_fail (Failed (ErrWrap (''item-to-item recommender '' @ name) ErrNotFound))
      | Some c \<Rightarrow>
          if CacheSize (r_config r) < 0 then io_fail (Panicked NegativeLength)
          else
          let r' = r\<lparr>r_userFeedback := env_SortFeedbacks E (r_userFeedback r)\<rparr>;
              userFeedback = positive_context (r_config r) (r_online r) [] (r_userFeedback r')
          in io_bind (collect_neighbors r' c ([], []) userFeedback) (\<lambda>(scores, cats).
             io_bind (io_lift (topk_of_map E (CacheSize (r_config r)) scores)) (\<lambda>es.
             io_return (map (\<lambda>e. \<lparr>score_Id = elem_value e, score_Score = elem_weight e, score_IsHidden = False,
                 score_Categories = (case map_of cats (elem_value e) of None \<Rightarrow> [] | Some cs \<Rightarrow> cs),
                 score_Timestamp = 0\<rparr>) es, i2i_Hash (env_MD5 E) (env_Render E) c (r_config r), r'))))"

fun add_user_items :: "string set \<Rightarrow> 'w \<Rightarrow> (string \<times> 'w::{zero,plus}) list \<Rightarrow> 'w feedback list \<Rightarrow> (string \<times> 'w) list" where
  "add_user_items excl w m [] = m"
| "add_user_items excl w m (f # fs) =
     (if fb_ItemId f \<notin> excl then add_user_items excl w (map_add_score m (fb_ItemId f) w) fs
      else add_user_items excl w m fs)"

fun collect_user_items :: "'w env \<Rightarrow> ('s, 'w::{zero,plus}) recommender \<Rightarrow> (string \<times> 'w) list \<Rightarrow> 'w score list \<Rightarrow>
    ('s, (string \<times> 'w) list) io" where
  "collect_user_items E r m [] = io_return m"
| "collect_user_items E r m (u # us) =
     io_bind (io_call (\<lambda>s. ddb_GetUserFeedback (r_dataClient r) s (score_Id u) (Some (env_Now E))
       (ds_PositiveFeedbackTypes (DataSource (r_config r))))) (\<lambda>feedbacks.
     collect_user_items E r (add_user_items (r_excludeSet r) (score_Score u) m feedbacks) us)"

definition items_by_id :: "item list \<Rightarrow> string \<rightharpoonup> item" where
  "items_by_id items = foldl (\<lambda>m i. m(item_ItemId i \<mapsto> i)) Map.empty items"

text \<open>\<open>lo.Every(item.Categories, r.categories)\<close>: the item has all requested categories.\<close>

fun u2u_results :: "(string \<rightharpoonup> item) \<Rightarrow> string list \<Rightarrow> (string, 'w) elem list \<Rightarrow> 'w score list" where
  "u2u_results m cats [] = []"
| "u2u_results m cats (e # es) =
     (case m (elem_value e) of
        Some i \<Rightarrow>
          if list_all (\<lambda>c. c \<in> set (item_Categories i)) cats
          then \<lparr>score_Id = item_ItemId i, score_Score = elem_weight e, score_IsHidden = False,
                score_Categories = item_Categories i, score_Timestamp = 0\<rparr> # u2u_results m cats es
          else u2u_results m cats es
      | None \<Rightarrow> u2u_results m cats es)"

definition recommendUserToUser :: "('w::{linorder,zero,one,plus,minus,times,divide}) env \<Rightarrow> string \<Rightarrow> ('s, 'w) source" where
  "recommendUserToUser E name r =
     (case GetUserToUserConfig (r_config r) name of
        None \<Rightarrow> io_fail (Failed (ErrWrap (''user-to-user recommender '' @ name) ErrNotFound))
      | Some c \<Rightarrow>
          io_bind (QueryUserToUser (r_vectorClient r) c (r_userId r) (CacheSize (r_config r))) (\<lambda>users.
          io_bind (collect_user_items E r [] users) (\<lambda>scores.
          io_bind (io_lift (topk_of_map E (CacheSize (r_config r)) scores)) (\<lambda>es.
          io_bind (io_call (\<lambda>s. ddb_BatchGetItems (r_dataClient r) s (map elem_value es)
            (no_get_options\<lparr>go_SkipHidden := True, go_After := item_after E (r_config r)\<rparr>))) (\<lambda>items.
          io_return (u2u_results (items_by_id items) (r_categories r) es,
            u2u_Hash (env_MD5 E) (env_Render E) c (r_config r), r))))))"

definition recommendExternal :: "'w env \<Rightarrow> string \<Rightarrow> ('s, 'w::zero) source" where
  "recommendExternal E name r =
     (let c = (case find (\<lambda>c. ext_Name c = name) (External (r_config r)) of
                 Some c \<Rightarrow> c | None \<Rightarrow> \<lparr>ext_Name = '''', ext_Script = ''''\<rparr>)
      in if r_categories r \<noteq> [] then io_return ([], ext_Hash (env_MD5 E) c, r)
         else io_bind (io_call (r_Pull r c (r_userId r))) (\<lambda>items.
           io_return (map (\<lambda>i. \<lparr>score_Id = i, score_Score = 0, score_IsHidden = False, score_Categories = [], score_Timestamp = 0\<rparr>)
             (filter (\<lambda>i. i \<notin> r_excludeSet r) items), ext_Hash (env_MD5 E) c, r)))"

subsection \<open>Names of sources\<close>

definition cut_prefix :: "string \<Rightarrow> string \<Rightarrow> string option" where
  "cut_prefix p s = (if take (length p) s = p then Some (drop (length p) s) else None)"

definition parse_source :: "('w::{linorder,zero,one,plus,minus,times,divide}) env \<Rightarrow> string \<Rightarrow> go_error + ('s, 'w) source" where
  "parse_source E fullname =
     (if fullname = ''collaborative'' then Inr recommendCollaborative
      else if fullname = ''latest'' then Inr (recommendLatest E)
      else case cut_prefix ''non-personalized/'' fullname of Some name \<Rightarrow> Inr (recommendNonPersonalized name) | None \<Rightarrow>
      (case cut_prefix ''item-to-item/'' fullname of Some name \<Rightarrow> Inr (recommendItemToItem E name) | None \<Rightarrow>
      (case cut_prefix ''user-to-user/'' fullname of Some name \<Rightarrow> Inr (recommendUserToUser E name) | None \<Rightarrow>
      (case cut_prefix ''external/'' fullname of Some name \<Rightarrow> Inr (recommendExternal E name) | None \<Rightarrow>
       Inl (ErrOther (''unknown recommender: '' @ fullname))))))"

subsection \<open>Running the sources\<close>

fun RecommendSequential :: "('w::{linorder,zero,one,plus,minus,times,divide}) env \<Rightarrow> ('s, 'w) recommender \<Rightarrow> 'w score list \<Rightarrow>
    int \<Rightarrow> string list \<Rightarrow> string list \<Rightarrow> ('s, 'w score list \<times> string \<times> ('s, 'w) recommender) io" where
  "RecommendSequential E r result limit digests [] = io_return (result, util_MD5 (env_MD5 E) digests, r)"
| "RecommendSequential E r result limit digests (name # names) =
     (case parse_source E name of
        Inl e \<Rightarrow> io_fail (Failed e)
      | Inr f \<Rightarrow>
          io_bind (f r) (\<lambda>(scores, digest, r1).
          let r2 = r1\<lparr>r_excludeSet := r_excludeSet r1 \<union> set (map score_Id scores)\<rparr>;
              result' = result @ scores;
              digests' = digests @ [digest]
          in if limit > 0 \<and> int (length result') \<ge> limit
             then io_return (take (nat limit) result', util_MD5 (env_MD5 E) digests', r2)
             else RecommendSequential E r2 result' limit digests' names))"

text \<open>\<open>strings.EqualFold(s, "none")\<close>; no letter of \<open>none\<close> has a folding outside ASCII.\<close>

definition to_lower :: "char \<Rightarrow> char" where
  "to_lower c = (let n = of_char c :: nat in if 65 \<le> n \<and> n \<le> 90 then char_of (n + 32) else c)"

definition is_none :: "string \<Rightarrow> bool" where
  "is_none s = (map to_lower s = ''none'')"

fun take_unseen :: "string set \<Rightarrow> 'w score list \<Rightarrow> 'w score list \<Rightarrow> string set \<times> 'w score list" where
  "take_unseen excl result [] = (excl, result)"
| "take_unseen excl result (x # xs) =
     (if score_Id x \<notin> excl then take_unseen (insert (score_Id x) excl) (result @ [x]) xs
      else take_unseen excl result xs)"

definition Recommend :: "('w::{linorder,zero,one,plus,minus,times,divide}) env \<Rightarrow> ('s, 'w) recommender \<Rightarrow> int \<Rightarrow>
    ('s, 'w score list \<times> ('s, 'w) recommender) io" where
  "Recommend E r limit =
     io_bind
       (if \<not> is_none (rk_Type (Ranker (r_config r)))
        then io_bind (io_call (\<lambda>s. cdb_SearchScores (r_cacheClient r) s c_Recommend (r_userId r) (r_categories r) 0
               (CacheSize (r_config r)))) (\<lambda>scores.
             case take_unseen (r_excludeSet r) [] scores of
               (excl, result) \<Rightarrow> io_return (result, r\<lparr>r_excludeSet := excl\<rparr>))
        else io_bind (RecommendSequential E r [] (CacheSize (r_config r)) [] (rk_Recommenders (Ranker (r_config r))))
             (\<lambda>(result, digest, r1). io_return (result, r1))) (\<lambda>(result, r1).
     if int (length result) \<ge> limit \<and> limit > 0 then io_return (take (nat limit) result, r1)
     else io_bind (RecommendSequential E r1 result limit [] (FallbackRecommenders (r_config r)))
       (\<lambda>(result', digest, r2). io_return (result', r2)))"

subsection \<open>Maps of scores\<close>

definition fresh_map :: "string set \<Rightarrow> (string \<times> 'v) list \<Rightarrow> bool" where
  "fresh_map excl m \<longleftrightarrow> distinct (map fst m) \<and> fst ` set m \<inter> excl = {}"

lemma fresh_map_Nil [simp]: "fresh_map excl []"
  by (simp add: fresh_map_def)

lemma fresh_map_update: "fresh_map excl m \<Longrightarrow> i \<notin> excl \<Longrightarrow> fresh_map excl (AList.update i v m)"
  unfolding fresh_map_def AList.dom_update by (simp add: AList.distinct_update)

lemma fresh_map_add_score: "fresh_map excl m \<Longrightarrow> i \<notin> excl \<Longrightarrow> fresh_map excl (map_add_score m i w)"
  by (simp add: map_add_score_def fresh_map_update)

lemma fresh_add_neighbors: "fresh_map excl (fst m) \<Longrightarrow> fresh_map excl (fst (add_neighbors excl m xs))"
  by (induction excl m xs rule: add_neighbors.induct) (auto intro: fresh_map_add_score)

lemma fresh_collect_neighbors:
  "collect_neighbors r c m fs s = (Inr m', s') \<Longrightarrow> fresh_map (r_excludeSet r) (fst m) \<Longrightarrow> fresh_map (r_excludeSet r) (fst m')"
proof (induction fs arbitrary: m s)
  case (Cons f fs)
  obtain xs s1 where "collect_neighbors r c (add_neighbors (r_excludeSet r) m xs) fs s1 = (Inr m', s')"
    using Cons.prems(1) by (auto simp: io_bind_Inr)
  then show ?case by (rule Cons.IH) (rule fresh_add_neighbors [OF Cons.prems(2)])
qed simp

lemma fresh_add_user_items: "fresh_map excl m \<Longrightarrow> fresh_map excl (add_user_items excl w m fs)"
  by (induction excl w m fs rule: add_user_items.induct) (auto intro: fresh_map_add_score)

lemma fresh_collect_user_items:
  "collect_user_items E r m us s = (Inr m', s') \<Longrightarrow> fresh_map (r_excludeSet r) m \<Longrightarrow> fresh_map (r_excludeSet r) m'"
  by (induction us arbitrary: m s) (auto simp: io_Inr intro: fresh_add_user_items)

lemma topk_of_map_correct:
  assumes E: "env_ok E" and m: "distinct (map fst m)"
  obtains es where "topk_of_map E k m = Inr es" and "distinct (map elem_value es)"
    and "set (map (\<lambda>e. (elem_value e, elem_weight e)) es) \<subseteq> set m"
    and "map elem_weight es = take (nat k) (rev (sort (map (\<lambda>i. the (map_of m i)) (env_Iter E (map fst m)))))"
proof -
  let ?ks = "env_Iter E (map fst m)"
  let ?ps = "map (\<lambda>i. (i, the (map_of m i))) ?ks"
  obtain f ys where r: "topk_push_all (NewTopKFilter k) ?ps = Inr f"
    "\<And>zero. topk_PopAll zero f = Inr (ys, f\<lparr>elems := []\<rparr>)"
    "map elem_weight ys = take (nat k) (rev (sort (map snd ?ps)))" "mset ys \<subseteq># mset (map mk_elem ?ps)"
    by (rule topk_result [of k ?ps]) blast
  have vals: "map elem_value (map mk_elem ?ps) = ?ks" by (simp add: o_def)
  have "image_mset elem_value (mset ys) \<subseteq># image_mset elem_value (mset (map mk_elem ?ps))"
    by (rule image_mset_subseteq_mono [OF r(4)])
  then have "mset (map elem_value ys) \<subseteq># mset ?ks" unfolding mset_map [symmetric] vals .
  moreover have "distinct ?ks" using env_ok_Iter_distinct [OF E] m by simp
  ultimately have dist: "distinct (map elem_value ys)" by (rule distinct_sub_mset)
  have sub: "set (map (\<lambda>e. (elem_value e, elem_weight e)) ys) \<subseteq> set m"
  proof
    fix p assume "p \<in> set (map (\<lambda>e. (elem_value e, elem_weight e)) ys)"
    then obtain e where e: "e \<in> set ys" "p = (elem_value e, elem_weight e)" by auto
    then have "e \<in> set (map mk_elem ?ps)" using r(4) by (meson mset_subset_eqD set_mset_mset in_multiset_in_set)
    then obtain i where i: "i \<in> set ?ks" "p = (i, the (map_of m i))" using e(2) by auto
    then have "i \<in> fst ` set m" using env_ok_Iter_set [OF E] by auto
    then obtain w where "(i, w) \<in> set m" by auto
    then show "p \<in> set m" using i(2) map_of_is_SomeI [OF m] by simp
  qed
  show ?thesis
    by (rule that [OF _ dist sub]) (use r in \<open>simp_all add: topk_of_map_def o_def\<close>)
qed

subsection \<open>What a source may return\<close>

abbreviation score_ids :: "'w score list \<Rightarrow> string list" where
  "score_ids xs \<equiv> map score_Id xs"

text \<open>No store answers with the same id twice, and no script lists an item twice.\<close>

definition stores_distinct :: "('s, 'w) recommender \<Rightarrow> bool" where
  "stores_distinct r \<longleftrightarrow>
     (\<forall>s c sub q b e xs s'. cdb_SearchScores (r_cacheClient r) s c sub q b e = (Inr xs, s') \<longrightarrow> distinct (score_ids xs)) \<and>
     (\<forall>s n cats a xs s'. ddb_GetLatestItems (r_dataClient r) s n cats a = (Inr xs, s') \<longrightarrow> distinct (map item_ItemId xs)) \<and>
     (\<forall>c u s xs s'. r_Pull r c u s = (Inr xs, s') \<longrightarrow> distinct xs)"

definition source_result :: "('s, 'w) recommender \<Rightarrow> 'w score list \<Rightarrow> ('s, 'w) recommender \<Rightarrow> bool" where
  "source_result r scores r' \<longleftrightarrow> set (score_ids scores) \<inter> r_excludeSet r = {} \<and>
     (\<exists>fs. set fs = set (r_userFeedback r) \<and> r' = r\<lparr>r_userFeedback := fs\<rparr>) \<and> (stores_distinct r \<longrightarrow> distinct (score_ids scores))"

lemma source_result_same:
  "set (score_ids scores) \<inter> r_excludeSet r = {} \<Longrightarrow> (stores_distinct r \<Longrightarrow> distinct (score_ids scores)) \<Longrightarrow> source_result r scores r"
  unfolding source_result_def by (metis recommender.surjective recommender.update_convs(9))

lemma distinct_map_filter_ids: "distinct (map f xs) \<Longrightarrow> distinct (map f (filter P xs))"
  by (rule distinct_map_filter)

lemma source_Latest: "recommendLatest E r s = (Inr (scores, d, r'), s') \<Longrightarrow> source_result r scores r'"
proof -
  assume "recommendLatest E r s = (Inr (scores, d, r'), s')"
  then obtain items where items: "ddb_GetLatestItems (r_dataClient r) s (CacheSize (r_config r)) (r_categories r) (item_after E (r_config r)) = (Inr items, s')"
    "score_ids scores = map item_ItemId (filter (\<lambda>i. item_ItemId i \<notin> r_excludeSet r) items)" "r' = r"
    by (auto simp: recommendLatest_def io_Inr)
  show ?thesis unfolding items(3)
  proof (rule source_result_same)
    show "set (score_ids scores) \<inter> r_excludeSet r = {}" unfolding items(2) by auto
    assume "stores_distinct r"
    then have "distinct (map item_ItemId items)" using items(1) unfolding stores_distinct_def by blast
    then show "distinct (score_ids scores)" unfolding items(2) by (rule distinct_map_filter)
  qed
qed

lemma source_filtered:
  assumes "cdb_SearchScores (r_cacheClient r) s c sub q b e = (Inr items, s1)"
  shows "source_result r (filter (\<lambda>i. score_Id i \<notin> r_excludeSet r) items) r"
proof (rule source_result_same)
  show "set (score_ids (filter (\<lambda>i. score_Id i \<notin> r_excludeSet r) items)) \<inter> r_excludeSet r = {}" by auto
  assume "stores_distinct r"
  then have "distinct (score_ids items)" using assms unfolding stores_distinct_def by blast
  then show "distinct (score_ids (filter (\<lambda>i. score_Id i \<notin> r_excludeSet r) items))" by (rule distinct_map_filter)
qed

lemma source_NonPersonalized: "recommendNonPersonalized name r s = (Inr (scores, d, r'), s') \<Longrightarrow> source_result r scores r'"
  by (auto simp: recommendNonPersonalized_def io_Inr Let_def intro: source_filtered)

lemma source_Collaborative: "recommendCollaborative r s = (Inr (scores, d, r'), s') \<Longrightarrow> source_result r scores r'"
  by (auto simp: recommendCollaborative_def io_Inr intro: source_filtered)

lemma source_External: "recommendExternal E name r s = (Inr (scores, d, r'), s') \<Longrightarrow> source_result r scores r'"
proof -
  assume run: "recommendExternal E name r s = (Inr (scores, d, r'), s')"
  show ?thesis
  proof (cases "r_categories r = []")
    case False
    then show ?thesis using run by (auto simp: recommendExternal_def Let_def intro: source_result_same)
  next
    case True
    then obtain c items where items: "r_Pull r c (r_userId r) s = (Inr items, s')"
      "score_ids scores = filter (\<lambda>i. i \<notin> r_excludeSet r) items" "r' = r"
      using run by (auto simp: recommendExternal_def io_Inr Let_def o_def)
    show ?thesis unfolding items(3)
    proof (rule source_result_same)
      show "set (score_ids scores) \<inter> r_excludeSet r = {}" unfolding items(2) by auto
      assume "stores_distinct r"
      then have "distinct items" using items(1) unfolding stores_distinct_def by blast
      then show "distinct (score_ids scores)" unfolding items(2) by (rule distinct_filter)
    qed
  qed
qed

lemma topk_of_map_fresh:
  assumes "env_ok E" and "fresh_map excl m" and "topk_of_map E k m = Inr es"
  shows "distinct (map elem_value es) \<and> set (map elem_value es) \<inter> excl = {}"
proof -
  have dist: "distinct (map fst m)" using assms(2) by (simp add: fresh_map_def)
  obtain es' where es': "topk_of_map E k m = Inr es'" "distinct (map elem_value es')"
    "set (map (\<lambda>e. (elem_value e, elem_weight e)) es') \<subseteq> set m"
    by (rule topk_of_map_correct [OF assms(1) dist, of k]) blast
  have "fst ` set (map (\<lambda>e. (elem_value e, elem_weight e)) es') \<subseteq> fst ` set m" using es'(3) by blast
  then have "set (map elem_value es') \<subseteq> fst ` set m" by (simp add: image_image)
  then show ?thesis using es' assms(2,3) by (auto simp: fresh_map_def)
qed

lemma source_ItemToItem:
  assumes "env_ok E" and run: "recommendItemToItem E name r s = (Inr (scores, d, r'), s')"
  shows "source_result r scores r'"
proof -
  let ?r = "r\<lparr>r_userFeedback := env_SortFeedbacks E (r_userFeedback r)\<rparr>"
  obtain c where c: "GetItemToItemConfig (r_config r) name = Some c"
    using run by (cases "GetItemToItemConfig (r_config r) name") (simp_all add: recommendItemToItem_def)
  obtain m cats fs es s1 where m: "collect_neighbors ?r c ([], []) fs s = (Inr (m, cats), s1)"
    "topk_of_map E (CacheSize (r_config r)) m = Inr es" "score_ids scores = map elem_value es" "r' = ?r"
    using run c by (auto simp: recommendItemToItem_def io_Inr Let_def o_def split: if_splits)
  have "fresh_map (r_excludeSet r) m" using fresh_collect_neighbors [OF m(1)] by simp
  then have "distinct (score_ids scores) \<and> set (score_ids scores) \<inter> r_excludeSet r = {}"
    unfolding m(3) using topk_of_map_fresh [OF assms(1) _ m(2)] by blast
  then show ?thesis unfolding source_result_def m(4) using env_ok_SortFeedbacks_set [OF assms(1)] by blast
qed

lemma items_by_id_Some: "items_by_id items i = Some x \<Longrightarrow> item_ItemId x = i"
proof -
  define keyed where "keyed m \<longleftrightarrow> (\<forall>i x. m i = Some x \<longrightarrow> item_ItemId x = i)" for m :: "string \<rightharpoonup> item"
  have upd: "keyed m \<Longrightarrow> keyed (m(item_ItemId a \<mapsto> a))" for m a unfolding keyed_def by simp
  have "keyed m \<Longrightarrow> keyed (foldl (\<lambda>m i. m(item_ItemId i \<mapsto> i)) m items)" for m
    by (induction items arbitrary: m) (simp_all add: upd)
  moreover have "keyed Map.empty" by (simp add: keyed_def)
  ultimately have "keyed (items_by_id items)" unfolding items_by_id_def by blast
  then show "items_by_id items i = Some x \<Longrightarrow> item_ItemId x = i" unfolding keyed_def by blast
qed

lemma u2u_results_ids:
  assumes "\<And>i x. m i = Some x \<Longrightarrow> item_ItemId x = i"
  shows "\<exists>P. score_ids (u2u_results m cats es) = filter P (map elem_value es)"
proof -
  have "score_ids (u2u_results m cats es) =
    filter (\<lambda>i. \<exists>x. m i = Some x \<and> list_all (\<lambda>c. c \<in> set (item_Categories x)) cats) (map elem_value es)"
    using assms by (induction es) (auto split: option.split)
  then show ?thesis by blast
qed

lemma source_UserToUser:
  assumes "env_ok E" and run: "recommendUserToUser E name r s = (Inr (scores, d, r'), s')"
  shows "source_result r scores r'"
proof -
  obtain c where c: "GetUserToUserConfig (r_config r) name = Some c"
    using run by (cases "GetUserToUserConfig (r_config r) name") (simp_all add: recommendUserToUser_def)
  obtain us s1 m s2 es items where m: "collect_user_items E r [] us s1 = (Inr m, s2)"
    "topk_of_map E (CacheSize (r_config r)) m = Inr es"
    "scores = u2u_results (items_by_id items) (r_categories r) es" "r' = r"
    using run c by (auto simp: recommendUserToUser_def io_Inr)
  have "fresh_map (r_excludeSet r) m" using fresh_collect_user_items [OF m(1)] by simp
  then have es: "distinct (map elem_value es)" "set (map elem_value es) \<inter> r_excludeSet r = {}"
    using topk_of_map_fresh [OF assms(1) _ m(2)] by blast+
  obtain P where P: "score_ids scores = filter P (map elem_value es)"
    unfolding m(3) using u2u_results_ids [of "items_by_id items"] items_by_id_Some by blast
  show ?thesis unfolding m(4)
    by (rule source_result_same) (use es in \<open>auto simp: P\<close>)
qed

lemma parse_source_result:
  assumes E: "env_ok E" and "parse_source E name = Inr f" and "f r s = (Inr (scores, d, r'), s')"
  shows "source_result r scores r'"
  using assms(2,3) source_Latest source_NonPersonalized source_Collaborative source_External
    source_ItemToItem [OF E] source_UserToUser [OF E]
  unfolding parse_source_def by (fastforce split: if_splits option.splits)

subsection \<open>Recommendations avoid the excluded items\<close>

text \<open>The invariant of a run that began with the exclude set \<open>X\<close> and has collected \<open>result\<close>.\<close>

definition run_inv :: "string set \<Rightarrow> ('s, 'w) recommender \<Rightarrow> 'w score list \<Rightarrow> bool" where
  "run_inv X r result \<longleftrightarrow> X \<subseteq> r_excludeSet r \<and> set (score_ids result) \<subseteq> r_excludeSet r \<and>
     set (score_ids result) \<inter> X = {} \<and> (stores_distinct r \<longrightarrow> distinct (score_ids result))"

lemma stores_distinct_update [simp]:
  "stores_distinct (r\<lparr>r_userFeedback := fs\<rparr>) = stores_distinct r"
  "stores_distinct (r\<lparr>r_excludeSet := X\<rparr>) = stores_distinct r"
  by (simp_all add: stores_distinct_def)

lemma run_inv_start: "run_inv (r_excludeSet r) r []"
  by (simp add: run_inv_def)

lemma run_inv_take: "run_inv X r result \<Longrightarrow> run_inv X r (take n result)"
  unfolding run_inv_def take_map [symmetric] using set_take_subset [of n "score_ids result"] distinct_take by blast

lemma run_inv_source:
  assumes inv: "run_inv X r result" and src: "source_result r scores r1"
  shows "run_inv X (r1\<lparr>r_excludeSet := r_excludeSet r1 \<union> set (score_ids scores)\<rparr>) (result @ scores) \<and>
    stores_distinct r1 = stores_distinct r"
proof -
  obtain fs where r1: "r1 = r\<lparr>r_userFeedback := fs\<rparr>" using src unfolding source_result_def by blast
  have new: "set (score_ids scores) \<inter> r_excludeSet r = {}" "stores_distinct r \<longrightarrow> distinct (score_ids scores)"
    using src unfolding source_result_def by blast+
  have old: "X \<subseteq> r_excludeSet r" "set (score_ids result) \<subseteq> r_excludeSet r" "set (score_ids result) \<inter> X = {}"
    "stores_distinct r \<longrightarrow> distinct (score_ids result)"
    using inv unfolding run_inv_def by blast+
  have same: "r_excludeSet r1 = r_excludeSet r" "stores_distinct r1 = stores_distinct r" by (simp_all add: r1)
  have apart: "set (score_ids result) \<inter> set (score_ids scores) = {}" "set (score_ids scores) \<inter> X = {}"
    using old(1,2) new(1) by blast+
  have "stores_distinct r \<longrightarrow> distinct (score_ids result @ score_ids scores)"
    unfolding distinct_append using apart(1) new(2) old(4) by blast
  moreover have "X \<subseteq> r_excludeSet r \<union> set (score_ids scores)"
    "set (score_ids result) \<union> set (score_ids scores) \<subseteq> r_excludeSet r \<union> set (score_ids scores)"
    "(set (score_ids result) \<union> set (score_ids scores)) \<inter> X = {}"
    using old apart by blast+
  moreover have "r_excludeSet (r1\<lparr>r_excludeSet := r_excludeSet r1 \<union> set (score_ids scores)\<rparr>) = r_excludeSet r \<union> set (score_ids scores)"
    using same(1) by simp
  moreover have "stores_distinct (r1\<lparr>r_excludeSet := r_excludeSet r1 \<union> set (score_ids scores)\<rparr>) = stores_distinct r"
    using same(2) by simp
  ultimately show ?thesis unfolding run_inv_def map_append set_append same(2) by argo
qed

lemma RecommendSequential_inv:
  assumes E: "env_ok E"
  shows "RecommendSequential E r result limit ds names s = (Inr (out, d, r'), s') \<Longrightarrow> run_inv X r result \<Longrightarrow>
    run_inv X r' out \<and> stores_distinct r' = stores_distinct r \<and>
    (0 < limit \<longrightarrow> int (length result) \<le> limit \<longrightarrow> int (length out) \<le> limit)"
proof (induction names arbitrary: r result ds s)
  case Nil
  then show ?case by auto
next
  case (Cons name names)
  obtain f scores digest r1 s1 where f: "parse_source E name = Inr f"
    and src: "f r s = (Inr (scores, digest, r1), s1)"
    using Cons.prems(1) by (auto simp: io_bind_Inr split: sum.splits)
  let ?r2 = "r1\<lparr>r_excludeSet := r_excludeSet r1 \<union> set (score_ids scores)\<rparr>"
  have inv: "run_inv X ?r2 (result @ scores)" and same: "stores_distinct r1 = stores_distinct r"
    using run_inv_source [OF Cons.prems(2) parse_source_result [OF E f src]] by blast+
  have rest: "(if limit > 0 \<and> int (length (result @ scores)) \<ge> limit
      then io_return (take (nat limit) (result @ scores), util_MD5 (env_MD5 E) (ds @ [digest]), ?r2)
      else RecommendSequential E ?r2 (result @ scores) limit (ds @ [digest]) names) s1 = (Inr (out, d, r'), s')"
    using Cons.prems(1) f src by (auto simp: io_bind_def Let_def split: if_splits)
  show ?case
  proof (cases "limit > 0 \<and> int (length (result @ scores)) \<ge> limit")
    case True
    then have out: "out = take (nat limit) (result @ scores)" "r' = ?r2" using rest by auto
    have "length out \<le> nat limit" unfolding out(1) length_take by simp
    then have "int (length out) \<le> limit" using True by linarith
    moreover have "run_inv X r' out" unfolding out by (rule run_inv_take [OF inv])
    ultimately show ?thesis using same out(2) by simp
  next
    case False
    then have rec: "RecommendSequential E ?r2 (result @ scores) limit (ds @ [digest]) names s1 = (Inr (out, d, r'), s')"
      using rest by (simp only: if_False)
    show ?thesis using Cons.IH [OF rec inv] same False by auto
  qed
qed

text \<open>A run reorders the feedback of its user at most.\<close>

lemma RecommendSequential_feedback:
  assumes E: "env_ok E"
  shows "RecommendSequential E r result limit ds names s = (Inr (out, d, r'), s') \<Longrightarrow>
    set (r_userFeedback r') = set (r_userFeedback r)"
proof (induction names arbitrary: r result ds s)
  case Nil
  then show ?case by simp
next
  case (Cons name names)
  obtain f scores digest r1 s1 where f: "parse_source E name = Inr f"
    and src: "f r s = (Inr (scores, digest, r1), s1)"
    using Cons.prems by (auto simp: io_bind_Inr split: sum.splits)
  let ?r2 = "r1\<lparr>r_excludeSet := r_excludeSet r1 \<union> set (score_ids scores)\<rparr>"
  obtain fs where "set fs = set (r_userFeedback r)" "r1 = r\<lparr>r_userFeedback := fs\<rparr>"
    using parse_source_result [OF E f src] unfolding source_result_def by blast
  then have r2: "set (r_userFeedback ?r2) = set (r_userFeedback r)" by simp
  have rest: "(if limit > 0 \<and> int (length (result @ scores)) \<ge> limit
      then io_return (take (nat limit) (result @ scores), util_MD5 (env_MD5 E) (ds @ [digest]), ?r2)
      else RecommendSequential E ?r2 (result @ scores) limit (ds @ [digest]) names) s1 = (Inr (out, d, r'), s')"
    using Cons.prems f src by (auto simp: io_bind_def Let_def split: if_splits)
  show ?case
  proof (cases "limit > 0 \<and> int (length (result @ scores)) \<ge> limit")
    case True
    then have "r' = ?r2" using rest by auto
    then show ?thesis using r2 by simp
  next
    case False
    then have "RecommendSequential E ?r2 (result @ scores) limit (ds @ [digest]) names s1 = (Inr (out, d, r'), s')"
      using rest by (simp only: if_False)
    from Cons.IH [OF this] show ?thesis using r2 by simp
  qed
qed

lemma take_unseen_inv:
  "take_unseen excl result xs = (excl', result') \<Longrightarrow> run_inv X (r\<lparr>r_excludeSet := excl\<rparr>) result \<Longrightarrow>
   run_inv X (r\<lparr>r_excludeSet := excl'\<rparr>) result'"
proof (induction xs arbitrary: excl result)
  case (Cons x xs)
  show ?case
  proof (cases "score_Id x \<in> excl")
    case True
    then show ?thesis using Cons by simp
  next
    case False
    have "run_inv X (r\<lparr>r_excludeSet := insert (score_Id x) excl\<rparr>) (result @ [x])"
      using Cons.prems(2) False unfolding run_inv_def by auto
    then show ?thesis using Cons.IH Cons.prems(1) False by simp
  qed
qed simp

lemma Recommend_inv:
  assumes E: "env_ok E" and run: "Recommend E r limit s = (Inr (out, r'), s')"
  shows "run_inv (r_excludeSet r) r' out \<and> stores_distinct r' = stores_distinct r \<and> (0 < limit \<longrightarrow> int (length out) \<le> limit)"
proof -
  let ?first = "if \<not> is_none (rk_Type (Ranker (r_config r)))
        then io_bind (io_call (\<lambda>s. cdb_SearchScores (r_cacheClient r) s c_Recommend (r_userId r) (r_categories r) 0
               (CacheSize (r_config r)))) (\<lambda>scores.
             case take_unseen (r_excludeSet r) [] scores of
               (excl, result) \<Rightarrow> io_return (result, r\<lparr>r_excludeSet := excl\<rparr>))
        else io_bind (RecommendSequential E r [] (CacheSize (r_config r)) [] (rk_Recommenders (Ranker (r_config r))))
             (\<lambda>(result, digest, r1). io_return (result, r1))"
  obtain result r1 s1 where first: "?first s = (Inr (result, r1), s1)"
    and rest: "(if int (length result) \<ge> limit \<and> limit > 0 then io_return (take (nat limit) result, r1)
     else io_bind (RecommendSequential E r1 result limit [] (FallbackRecommenders (r_config r)))
       (\<lambda>(result', digest, r2). io_return (result', r2))) s1 = (Inr (out, r'), s')"
    using run unfolding Recommend_def io_bind_Inr [of "?first"] by auto
  have inv: "run_inv (r_excludeSet r) r1 result \<and> stores_distinct r1 = stores_distinct r"
  proof (cases "is_none (rk_Type (Ranker (r_config r)))")
    case True
    then obtain d s2 where "RecommendSequential E r [] (CacheSize (r_config r)) [] (rk_Recommenders (Ranker (r_config r))) s
        = (Inr (result, d, r1), s2)" using first by (auto simp: io_bind_Inr)
    from RecommendSequential_inv [OF E this run_inv_start] show ?thesis by blast
  next
    case False
    then obtain scores s2 where "(case take_unseen (r_excludeSet r) [] scores of
        (excl, result) \<Rightarrow> io_return (result, r\<lparr>r_excludeSet := excl\<rparr>)) s2 = (Inr (result, r1), s1)"
      using first unfolding io_bind_Inr by (simp only: if_True simp_thms) (auto simp: io_bind_Inr)
    then obtain excl where "take_unseen (r_excludeSet r) [] scores = (excl, result)" "r1 = r\<lparr>r_excludeSet := excl\<rparr>"
      by (cases "take_unseen (r_excludeSet r) [] scores") auto
    moreover have "run_inv (r_excludeSet r) (r\<lparr>r_excludeSet := r_excludeSet r\<rparr>) []" by (simp add: run_inv_def)
    ultimately show ?thesis using take_unseen_inv by fastforce
  qed
  show ?thesis
  proof (cases "int (length result) \<ge> limit \<and> limit > 0")
    case True
    then show ?thesis using rest run_inv_take inv by auto
  next
    case False
    then obtain d s2 where "RecommendSequential E r1 result limit [] (FallbackRecommenders (r_config r)) s1 = (Inr (out, d, r'), s2)"
      using rest by (auto simp: io_bind_Inr)
    from RecommendSequential_inv [OF E this conjunct1 [OF inv]] show ?thesis using inv False by auto
  qed
qed

lemma exclude_feedback_set:
  "fst (exclude_feedback cfg online (X, c) fs) = X \<union> {fb_ItemId f | f. f \<in> set fs \<and>
     (MatchFeedbackTypeExpressions (ds_NegativeFeedbackTypes (DataSource cfg)) (fb_FeedbackType f) (fb_Value f) \<or>
      \<not> (rp_EnableReplacement (Replacement cfg) \<and> online))}"
  by (induction fs arbitrary: X c) (auto simp: Let_def)

text \<open>The items that a user's feedback rules out.\<close>

definition ruled_out :: "('w::linorder) recommend_config \<Rightarrow> bool \<Rightarrow> 'w feedback list \<Rightarrow> string set" where
  "ruled_out cfg online fs = {fb_ItemId f | f. f \<in> set fs \<and>
     (MatchFeedbackTypeExpressions (ds_NegativeFeedbackTypes (DataSource cfg)) (fb_FeedbackType f) (fb_Value f) \<or>
      \<not> (rp_EnableReplacement (Replacement cfg) \<and> online))}"

lemma NewRecommender_excludes:
  assumes "NewRecommender E cfg cache data vec pull online u cats s = (Inr r, s1)"
  shows "r_excludeSet r = ruled_out cfg online (r_userFeedback r) \<and> r_cacheClient r = cache \<and> r_dataClient r = data \<and>
    r_Pull r = pull \<and> ddb_GetUserFeedback data s u (Some (env_Now E)) [] = (Inr (r_userFeedback r), s1) \<and>
    r_config r = cfg \<and> r_userId r = u"
proof -
  obtain fs s2 where fs: "ddb_GetUserFeedback data s u (Some (env_Now E)) [] = (Inr fs, s2)"
    and r: "(case exclude_feedback cfg online ({}, True) fs of
       (excl, cold) \<Rightarrow>
         io_return \<lparr>r_config = cfg, r_cacheClient = cache, r_dataClient = data, r_vectorClient = vec, r_Pull = pull,
           r_online = online, r_coldstart = cold, r_userId = u, r_userFeedback = fs,
           r_categories = cats, r_excludeSet = excl\<rparr>) s2 = (Inr r, s1)"
    using assms unfolding NewRecommender_def io_bind_Inr io_call_Inr by blast
  have "fst (exclude_feedback cfg online ({}, True) fs) = ruled_out cfg online fs"
    unfolding exclude_feedback_set ruled_out_def by simp
  then show ?thesis using fs r by (cases "exclude_feedback cfg online ({}, True) fs") auto
qed

text \<open>(C1) Safety of recommendations: whatever the stores answer, a recommender made for a user never recommends an
  item with negative feedback of the user, nor (unless it serves online with replacement enabled) any item the user
  has feedback on; it respects a positive limit; and if no single store answer repeats an id, then neither
  does the recommendation, although it merges several sources.\<close>

theorem recommend_safe:
  assumes E: "env_ok E"
    and new: "NewRecommender E cfg cache data vec pull online u cats s = (Inr r, s1)"
    and run: "Recommend E r limit s2 = (Inr (out, r'), s3)"
  shows "(\<forall>x \<in> set out. \<forall>f \<in> set (r_userFeedback r).
      MatchFeedbackTypeExpressions (ds_NegativeFeedbackTypes (DataSource cfg)) (fb_FeedbackType f) (fb_Value f) \<or>
      \<not> (rp_EnableReplacement (Replacement cfg) \<and> online) \<longrightarrow> score_Id x \<noteq> fb_ItemId f) \<and>
    (0 < limit \<longrightarrow> int (length out) \<le> limit) \<and>
    (stores_distinct r \<longrightarrow> distinct (map score_Id out))"
proof -
  note inv = Recommend_inv [OF E run]
  have apart: "set (score_ids out) \<inter> ruled_out cfg online (r_userFeedback r) = {}"
    using inv NewRecommender_excludes [OF new] unfolding run_inv_def by simp
  have "score_Id x \<noteq> fb_ItemId f" if "x \<in> set out" "f \<in> set (r_userFeedback r)"
    "MatchFeedbackTypeExpressions (ds_NegativeFeedbackTypes (DataSource cfg)) (fb_FeedbackType f) (fb_Value f) \<or>
      \<not> (rp_EnableReplacement (Replacement cfg) \<and> online)" for x f
  proof
    assume eq: "score_Id x = fb_ItemId f"
    have "score_Id x \<in> set (score_ids out)" using that(1) by simp
    moreover have "fb_ItemId f \<in> ruled_out cfg online (r_userFeedback r)" unfolding ruled_out_def using that(2,3) by blast
    ultimately show False using apart eq by auto
  qed
  moreover have "distinct (score_ids out)" if "stores_distinct r" using inv that unfolding run_inv_def by simp
  ultimately show ?thesis using inv by blast
qed

subsection \<open>An example\<close>

definition example_config :: "int recommend_config" where
  "example_config =
     \<lparr>CacheSize = 10, CacheExpire = 0, ContextSize = 10, ActiveUserTTL = 0,
      DataSource = \<lparr>ds_PositiveFeedbackTypes = [], ds_NegativeFeedbackTypes = [], ds_ReadFeedbackTypes = [],
        ds_PositiveFeedbackTTL = 0, ds_ItemTTL = 0\<rparr>,
      NonPersonalized = [\<lparr>np_Name = ''pop'', np_Score = ''s'', np_Filter = ''''\<rparr>], ItemToItem = [], UserToUser = [],
      Collaborative = \<lparr>co_Type = ''none''\<rparr>, External = [],
      Replacement = \<lparr>rp_EnableReplacement = False, rp_PositiveReplacementDecay = 1, rp_ReadReplacementDecay = 1\<rparr>,
      Ranker = \<lparr>rk_Type = ''None'', rk_Recommenders = [''non-personalized/pop''], rk_CacheExpire = 0\<rparr>,
      FallbackRecommenders = [''latest'']\<rparr>"

definition example_score :: "string \<Rightarrow> int \<Rightarrow> int score" where
  "example_score i w = \<lparr>score_Id = i, score_Score = w, score_IsHidden = False, score_Categories = [], score_Timestamp = 0\<rparr>"

definition example_item :: "string \<Rightarrow> item" where
  "example_item i = \<lparr>item_ItemId = i, item_IsHidden = False, item_Categories = [], item_Timestamp = 5, item_UpdateAt = 0,
     item_Labels = JNull, item_Comment = ''''\<rparr>"

definition example_feedback :: "string \<Rightarrow> int feedback" where
  "example_feedback i = \<lparr>fb_FeedbackType = ''read'', fb_UserId = ''u'', fb_ItemId = i, fb_Value = 0, fb_Timestamp = 0,
     fb_Updated = 0, fb_Labels = JNull, fb_Comment = ''''\<rparr>"

definition example_cache :: "(unit, int) cache_db" where
  "example_cache =
     \<lparr>cdb_Set = (\<lambda>s vs. (None, s)), cdb_Get = (\<lambda>s k. (NewReturnValue ''pops'' True, s)),
      cdb_AddScores = (\<lambda>s c u xs. (None, s)),
      cdb_SearchScores = (\<lambda>s c u q b e. (Inr [example_score ''a'' 3, example_score ''b'' 2], s)),
      cdb_DeleteScores = (\<lambda>s cs c. (None, s))\<rparr>"

definition example_data :: "(unit, int) data_db" where
  "example_data =
     \<lparr>ddb_BatchGetItems = (\<lambda>s ids o'. (Inr [], s)),
      ddb_GetLatestItems = (\<lambda>s n cats a. (Inr [example_item ''b'', example_item ''c'', example_item ''d''], s)),
      ddb_GetUserFeedback = (\<lambda>s u t es. (Inr [example_feedback ''a''], s))\<rparr>"

definition example_recommender :: "(unit, int) recommender" where
  "example_recommender =
     \<lparr>r_config = example_config, r_cacheClient = example_cache, r_dataClient = example_data,
      r_vectorClient = fixed_db [] [], r_Pull = (\<lambda>c u s. (Inr [], s)), r_online = False, r_coldstart = True,
      r_userId = ''u'', r_userFeedback = [example_feedback ''a''], r_categories = [], r_excludeSet = {''a''}\<rparr>"

lemma example_stores_distinct: "stores_distinct example_recommender"
  by (simp add: stores_distinct_def example_recommender_def example_cache_def example_data_def example_score_def example_item_def)

lemma example_run:
  "NewRecommender (plain_env 0 (\<lambda>t. t)) example_config example_cache example_data (fixed_db [] []) (\<lambda>c u s. (Inr [], s)) False ''u'' [] ()
     = (Inr example_recommender, ())"
  "map_prod (map_sum id (\<lambda>(xs, r'). score_ids xs)) id (Recommend (plain_env 0 (\<lambda>t. t)) example_recommender 2 ())
     = (Inr [''b'', ''c''], ())"
  by (simp_all add: NewRecommender_def io_bind_def io_call_def io_return_def example_recommender_def example_data_def
      example_config_def example_feedback_def) code_simp

theorem recommend_safe_witness:
  "\<exists>out r'. Recommend (plain_env 0 (\<lambda>t. t)) example_recommender 2 () = (Inr (out, r'), ()) \<and>
     out \<noteq> [] \<and> (\<forall>x \<in> set out. score_Id x \<noteq> ''a'') \<and> length out \<le> 2 \<and> distinct (map score_Id out)"
proof -
  obtain out r' where run: "Recommend (plain_env 0 (\<lambda>t. t)) example_recommender 2 () = (Inr (out, r'), ())"
    and ids: "score_ids out = [''b'', ''c'']"
    using example_run(2) by (cases "Recommend (plain_env 0 (\<lambda>t. t)) example_recommender 2 ()")
      (auto simp: map_sum_def split: sum.splits)
  have ne: "out \<noteq> []" using ids by auto
  have f: "example_feedback ''a'' \<in> set (r_userFeedback example_recommender)" by (simp add: example_recommender_def)
  have "\<forall>x \<in> set out. score_Id x \<noteq> ''a''"
    using recommend_safe [OF plain_env_ok example_run(1) run] f
    by (auto simp: example_config_def example_feedback_def example_recommender_def)
  moreover have "length out \<le> 2 \<and> distinct (map score_Id out)"
    using recommend_safe [OF plain_env_ok example_run(1) run] example_stores_distinct by auto
  ultimately show ?thesis using run ne by blast
qed

subsection \<open>Digests of a run\<close>

text \<open>The digest that the configuration gives to each recommender.\<close>

definition digest_table :: "('w \<Rightarrow> string) \<Rightarrow> (string \<Rightarrow> string) \<Rightarrow> 'w recommend_config \<Rightarrow> (string \<times> string) list" where
  "digest_table render md5 cfg =
     map (\<lambda>c. (np_FullName c, np_Hash md5 c)) (NonPersonalized cfg) @
     map (\<lambda>c. (i2i_FullName c, i2i_Hash md5 render c cfg)) (ItemToItem cfg) @
     map (\<lambda>c. (u2u_FullName c, u2u_Hash md5 render c cfg)) (UserToUser cfg) @
     map (\<lambda>c. (ext_FullName c, ext_Hash md5 c)) (External cfg) @
     [(co_FullName (Collaborative cfg), co_Hash md5 render cfg), (''latest'', ''latest'')]"

lemma digest_table_names: "map fst (digest_table render md5 cfg) = ListRecommenders cfg"
  by (simp add: digest_table_def ListRecommenders_def o_def)

lemma digest_table_config: "config_digests md5 render cfg recs = map snd (filter (\<lambda>p. fst p \<in> recs) (digest_table render md5 cfg))"
  by (simp add: digest_table_def config_digests_def filter_map o_def)

text \<open>The cached digests of the sources that are computed elsewhere are those of the configuration.\<close>

definition digests_current :: "('w \<Rightarrow> string) \<Rightarrow> (string \<Rightarrow> string) \<Rightarrow> ('s, 'w) recommender \<Rightarrow> bool" where
  "digests_current render md5 r \<longleftrightarrow>
     (\<forall>c \<in> set (NonPersonalized (r_config r)). \<forall>s. fst (cdb_GetString (r_cacheClient r) s (Key [c_NonPersonalizedDigest, np_Name c])) = Inr (np_Hash md5 c)) \<and>
     (\<forall>s. fst (cdb_GetString (r_cacheClient r) s (Key [c_CollaborativeFilteringDigest, r_userId r])) = Inr (co_Hash md5 render (r_config r)))"

lemma distinct_map_same: "distinct (map f xs) \<Longrightarrow> x \<in> set xs \<Longrightarrow> y \<in> set xs \<Longrightarrow> f x = f y \<Longrightarrow> x = y"
  by (auto simp: distinct_map dest: inj_onD)

lemma find_named:
  assumes "distinct (map f cs)" and "c \<in> set cs" and "\<And>x y. f x = f y \<longleftrightarrow> g x = g y"
  shows "find (\<lambda>x. g x = g c) cs = Some c"
proof -
  have "find (\<lambda>x. g x = g c) cs \<noteq> None" using assms(2) by (auto simp: find_None_iff)
  then obtain d where d: "find (\<lambda>x. g x = g c) cs = Some d" by blast
  then have "g d = g c" "d \<in> set cs" by (auto simp: find_Some_iff)
  then show ?thesis using d distinct_map_same [OF assms(1) _ assms(2), of d] assms(3) by blast
qed

lemma parse_names [simp]:
  "parse_source E (np_FullName c) = Inr (recommendNonPersonalized (np_Name c))"
  "parse_source E (i2i_FullName d) = Inr (recommendItemToItem E (sim_Name d))"
  "parse_source E (u2u_FullName d) = Inr (recommendUserToUser E (sim_Name d))"
  "parse_source E (ext_FullName e) = Inr (recommendExternal E (ext_Name e))"
  "parse_source E (co_FullName k) = Inr recommendCollaborative"
  "parse_source E ''latest'' = Inr (recommendLatest E)"
  by (simp_all add: parse_source_def np_FullName_def i2i_FullName_def u2u_FullName_def ext_FullName_def co_FullName_def cut_prefix_def)

text \<open>Each configured recommender runs and reports the digest of its entry.\<close>

lemma source_digest:
  assumes cur: "digests_current (env_Render E) (env_MD5 E) r" and dist: "distinct (ListRecommenders (r_config r))"
    and entry: "(name, h) \<in> set (digest_table (env_Render E) (env_MD5 E) (r_config r))"
    and f: "parse_source E name = Inr f" and run: "f r s = (Inr (scores, d, r'), s')"
  shows "d = h"
proof -
  let ?cfg = "r_config r"
  have d_i2i: "distinct (map i2i_FullName (ItemToItem ?cfg))" and d_u2u: "distinct (map u2u_FullName (UserToUser ?cfg))"
    and d_ext: "distinct (map ext_FullName (External ?cfg))"
    using dist by (simp_all add: ListRecommenders_def)
  consider (np) c where "c \<in> set (NonPersonalized ?cfg)" "name = np_FullName c" "h = np_Hash (env_MD5 E) c"
    | (i2i) c where "c \<in> set (ItemToItem ?cfg)" "name = i2i_FullName c" "h = i2i_Hash (env_MD5 E) (env_Render E) c ?cfg"
    | (u2u) c where "c \<in> set (UserToUser ?cfg)" "name = u2u_FullName c" "h = u2u_Hash (env_MD5 E) (env_Render E) c ?cfg"
    | (ext) c where "c \<in> set (External ?cfg)" "name = ext_FullName c" "h = ext_Hash (env_MD5 E) c"
    | (co) "name = co_FullName (Collaborative ?cfg)" "h = co_Hash (env_MD5 E) (env_Render E) ?cfg"
    | (latest) "name = ''latest''" "h = ''latest''"
    using entry unfolding digest_table_def by auto
  then show ?thesis
  proof cases
    case np
    then have "f = recommendNonPersonalized (np_Name c)" using f by simp
    then obtain s1 where "cdb_GetString (r_cacheClient r) s1 (Key [c_NonPersonalizedDigest, np_Name c]) = (Inr d, s')"
      using run by (auto simp: recommendNonPersonalized_def io_Inr Let_def)
    then show ?thesis using cur np unfolding digests_current_def by (metis fst_conv sum.inject(2))
  next
    case i2i
    then have f': "f = recommendItemToItem E (sim_Name c)" using f by simp
    have "GetItemToItemConfig ?cfg (sim_Name c) = Some c"
      unfolding GetItemToItemConfig_def by (rule find_named [OF d_i2i i2i(1)]) (simp add: i2i_FullName_def)
    then show ?thesis using run f' i2i by (auto simp: recommendItemToItem_def io_Inr Let_def split: if_splits)
  next
    case u2u
    then have f': "f = recommendUserToUser E (sim_Name c)" using f by simp
    have "GetUserToUserConfig ?cfg (sim_Name c) = Some c"
      unfolding GetUserToUserConfig_def by (rule find_named [OF d_u2u u2u(1)]) (simp add: u2u_FullName_def)
    then show ?thesis using run f' u2u by (auto simp: recommendUserToUser_def io_Inr)
  next
    case ext
    then have f': "f = recommendExternal E (ext_Name c)" using f by simp
    have "find (\<lambda>x. ext_Name x = ext_Name c) (External ?cfg) = Some c"
      by (rule find_named [OF d_ext ext(1)]) (simp add: ext_FullName_def)
    then show ?thesis using run f' ext by (auto simp: recommendExternal_def io_Inr Let_def split: if_splits)
  next
    case co
    then have "f = recommendCollaborative" using f by simp
    then obtain s1 where "cdb_GetString (r_cacheClient r) s1 (Key [c_CollaborativeFilteringDigest, r_userId r]) = (Inr d, s')"
      using run by (auto simp: recommendCollaborative_def io_Inr)
    then show ?thesis using cur co unfolding digests_current_def by (metis fst_conv sum.inject(2))
  next
    case latest
    then have "f = recommendLatest E" using f by simp
    then show ?thesis using run latest by (auto simp: recommendLatest_def io_Inr)
  qed
qed

lemma digests_current_update [simp]:
  "digests_current render md5 (r\<lparr>r_userFeedback := fs\<rparr>) = digests_current render md5 r"
  "digests_current render md5 (r\<lparr>r_excludeSet := X\<rparr>) = digests_current render md5 r"
  by (simp_all add: digests_current_def)

lemma RecommendSequential_digest:
  assumes E: "env_ok E"
  shows "RecommendSequential E r result 0 ds names s = (Inr (out, d, r'), s') \<Longrightarrow>
    digests_current (env_Render E) (env_MD5 E) r \<Longrightarrow> r_config r = cfg \<Longrightarrow> distinct (ListRecommenders cfg) \<Longrightarrow>
    set names \<subseteq> set (ListRecommenders cfg) \<Longrightarrow>
    d = util_MD5 (env_MD5 E) (ds @ map (\<lambda>n. the (map_of (digest_table (env_Render E) (env_MD5 E) cfg) n)) names)"
proof (induction names arbitrary: r result ds s)
  case Nil
  then show ?case by simp
next
  case (Cons name names)
  let ?T = "digest_table (env_Render E) (env_MD5 E) cfg"
  obtain f scores digest r1 s1 where f: "parse_source E name = Inr f"
    and src: "f r s = (Inr (scores, digest, r1), s1)"
    and rest: "RecommendSequential E (r1\<lparr>r_excludeSet := r_excludeSet r1 \<union> set (score_ids scores)\<rparr>) (result @ scores) 0
      (ds @ [digest]) names s1 = (Inr (out, d, r'), s')"
    using Cons.prems(1) by (auto simp: io_bind_Inr Let_def split: sum.splits)
  obtain fs where r1: "r1 = r\<lparr>r_userFeedback := fs\<rparr>"
    using parse_source_result [OF E f src] unfolding source_result_def by blast
  have dist: "distinct (map fst ?T)" using Cons.prems(4) by (simp add: digest_table_names)
  have "name \<in> fst ` set ?T" using Cons.prems(5) unfolding digest_table_names [of "env_Render E" "env_MD5 E", symmetric] by auto
  then obtain h where h: "(name, h) \<in> set ?T" by auto
  have "digest = h"
    by (rule source_digest [OF Cons.prems(2) _ _ f src]) (use Cons.prems h in simp_all)
  then have "digest = the (map_of ?T name)" using map_of_is_SomeI [OF dist h] by simp
  moreover have "d = util_MD5 (env_MD5 E) ((ds @ [digest]) @ map (\<lambda>n. the (map_of ?T n)) names)"
    by (rule Cons.IH [OF rest]) (use Cons.prems in \<open>simp_all add: r1\<close>)
  ultimately show ?case by simp
qed

lemma table_multiset:
  assumes "distinct (map fst T)" and "distinct names" and "set names \<subseteq> set (map fst T)"
  shows "mset (map snd (filter (\<lambda>p. fst p \<in> set names) T)) = mset (map (\<lambda>n. the (map_of T n)) names)"
proof -
  let ?F = "filter (\<lambda>p. fst p \<in> set names) T"
  have dF: "distinct (map fst ?F)" using assms(1) by (rule distinct_map_filter)
  have "set (map fst ?F) = set names" using assms(3) by auto
  then have "mset (map fst ?F) = mset names" using set_eq_iff_mset_eq_distinct [OF dF assms(2)] by blast
  moreover have "map snd ?F = map (\<lambda>n. the (map_of T n)) (map fst ?F)"
    using assms(1) by (auto simp: map_of_is_SomeI)
  ultimately show ?thesis by (metis mset_map)
qed

lemma RecommendSequential_digest_config:
  assumes E: "env_ok E"
    and names: "names = (if rk_Recommenders (Ranker (r_config r)) \<noteq> [] then rk_Recommenders (Ranker (r_config r)) else ListRecommenders (r_config r))"
    and run: "RecommendSequential E r [] 0 [] names s = (Inr (out, d, r'), s')"
    and listed: "distinct names" "set names \<subseteq> set (ListRecommenders (r_config r))" "distinct (ListRecommenders (r_config r))"
    and cur: "digests_current (env_Render E) (env_MD5 E) r"
  shows "d = config_Hash (env_MD5 E) (env_Render E) (r_config r)"
proof -
  let ?T = "digest_table (env_Render E) (env_MD5 E) (r_config r)"
  have T: "distinct (map fst ?T)" "set names \<subseteq> set (map fst ?T)" using listed by (simp_all only: digest_table_names)
  have "mset (map snd (filter (\<lambda>p. fst p \<in> set names) ?T)) = mset (map (\<lambda>n. the (map_of ?T n)) names)"
    by (rule table_multiset [OF T(1) listed(1) T(2)])
  moreover have "d = util_MD5 (env_MD5 E) (map (\<lambda>n. the (map_of ?T n)) names)"
    using RecommendSequential_digest [OF E run cur refl listed(3,2)] by simp
  moreover have "config_Hash (env_MD5 E) (env_Render E) (r_config r) =
    util_MD5 (env_MD5 E) (map snd (filter (\<lambda>p. fst p \<in> set names) ?T))"
    using names by (simp add: config_Hash_def Let_def digest_table_config)
  ultimately show ?thesis using util_MD5_perm by metis
qed

text \<open>(C16) Freshness of cached recommendations: when the recommenders of the ranker (or, if none are listed, all
  configured ones) have been run without a limit, in whatever order they are listed, and the digests cached for the
  non-personalized and collaborative sources are those of the configuration, then the digest stored with
  the recommendation equals the digest of the configuration, so the cache is not taken for outdated.\<close>

theorem digest_matches_config:
  assumes E: "env_ok E"
    and names: "names = (if rk_Recommenders (Ranker (r_config r)) \<noteq> [] then rk_Recommenders (Ranker (r_config r)) else ListRecommenders (r_config r))"
    and run: "RecommendSequential E r [] 0 [] names s = (Inr (out, d, r'), s')"
    and listed: "distinct names" "set names \<subseteq> set (ListRecommenders (r_config r))" "distinct (ListRecommenders (r_config r))"
    and cur: "digests_current (env_Render E) (env_MD5 E) r"
  shows "d = config_Hash (env_MD5 E) (env_Render E) (r_config r)"
  by (rule RecommendSequential_digest_config [OF E names run listed cur])

theorem digest_matches_config_witness:
  "\<exists>out d r'. RecommendSequential ((plain_env 0 (\<lambda>t. t))\<lparr>env_MD5 := (\<lambda>s. s)\<rparr>)
      (example_recommender\<lparr>r_cacheClient := example_cache\<lparr>cdb_Get := (\<lambda>s k. (if k = ''non-personalized_digest/pop'' then
        NewReturnValue ''pops'' True else NewReturnValue '''' False, s))\<rparr>\<rparr>) [] 0 [] [''non-personalized/pop''] ()
      = (Inr (out, d, r'), ()) \<and> d = config_Hash (\<lambda>s. s) (\<lambda>w. '''') example_config"
proof -
  let ?E = "(plain_env 0 (\<lambda>t. t))\<lparr>env_MD5 := (\<lambda>s. s)\<rparr>"
  let ?r = "example_recommender\<lparr>r_cacheClient := example_cache\<lparr>cdb_Get := (\<lambda>s k. (if k = ''non-personalized_digest/pop'' then
        NewReturnValue ''pops'' True else NewReturnValue '''' False, s))\<rparr>\<rparr>"
  have E: "?E = plain_env 0 (\<lambda>t. t)" by (simp add: plain_env_def)
  have "\<exists>out d r'. RecommendSequential ?E ?r [] 0 [] [''non-personalized/pop''] () = (Inr (out, d, r'), ())"
    by (simp add: parse_source_def cut_prefix_def recommendNonPersonalized_def io_bind_def io_call_def io_return_def Let_def
        example_recommender_def example_config_def example_cache_def cdb_GetString_def rv_String_def Key_def NewReturnValue_def
        c_NonPersonalizedDigest_def c_NonPersonalized_def)
  then obtain out d r' where run: "RecommendSequential ?E ?r [] 0 [] [''non-personalized/pop''] () = (Inr (out, d, r'), ())" by blast
  have cfg: "r_config ?r = example_config" by (simp add: example_recommender_def)
  have cur: "digests_current (env_Render ?E) (env_MD5 ?E) ?r"
    by (simp add: digests_current_def example_recommender_def example_config_def cdb_GetString_def rv_String_def Key_def
        NewReturnValue_def cache_names np_Hash_def co_Hash_def feedback_types_text_def plain_env_def)
  have "d = config_Hash (env_MD5 ?E) (env_Render ?E) (r_config ?r)"
    by (rule digest_matches_config [OF _ _ run _ _ _ cur])
      (use plain_env_ok [of 0 "\<lambda>t. t"] in \<open>simp_all add: example_recommender_def E example_config_def ListRecommenders_def
         np_FullName_def co_FullName_def\<close>)
  then show ?thesis using run cfg by (auto simp: plain_env_def)
qed

end
