(* ===== verification/Pipeline.thy ===== *)
theory Pipeline
  imports Recommender
begin

text \<open>
  \<open>worker/pipeline.go\<close>: the offline recommendation of one user. The items that the workers have already
  fetched are a shared map, so the state of a computation is the state of the stores together with this map. The
  rankers (the factorization machine and the services behind \<open>Reranker\<close> and \<open>Decision\<close>) and the
  compression of label embeddings are parameters. Logging, metrics and progress are not modelled; an
  operation that is logged and given up is a failure.
\<close>

type_synonym 's world = "'s \<times> (string \<rightharpoonup> item)"

definition on_store :: "('s, 'a) io \<Rightarrow> ('s world, 'a) io" where
  "on_store m w = (case m (fst w) of (r, s') \<Rightarrow> (r, (s', snd w)))"

type_synonym ('s, 'w) ranker =
  "user \<Rightarrow> (string \<times> item) list \<Rightarrow> item list \<Rightarrow> 's \<Rightarrow> (go_error + 'w score list) \<times> 's"

datatype 'w predictor = BatchInference "user \<Rightarrow> item list \<Rightarrow> 'w list" | SingleInference "user \<Rightarrow> item \<Rightarrow> 'w"

record ('s, 'w) pipeline =
  pl_Config :: "'w recommend_config"
  pl_CacheClient :: "('s, 'w) cache_db"
  pl_DataClient :: "('s, 'w) data_db"
  pl_VectorClient :: "('s, 'w) vector_db"
  pl_Pull :: "external_config \<Rightarrow> string \<Rightarrow> 's \<Rightarrow> (go_error + string list) \<times> 's"
  pl_Compress :: "json \<Rightarrow> json"
  pl_MatrixFactorizationId :: int
  pl_MatrixFactorizationUsers :: "(string \<rightharpoonup> 'w list) option"
  pl_Predictor :: "'w predictor option"
  pl_NewReranker :: "go_error + ('s, 'w) ranker"
  pl_NewDecision :: "go_error + ('s, 'w) ranker"
  pl_dontskipColdStartUsers :: bool

subsection \<open>The item cache\<close>

definition ic_requests :: "(string \<rightharpoonup> item) \<Rightarrow> string list \<Rightarrow> string list" where
  "ic_requests cache ids = filter (\<lambda>i. cache i = None) ids"

fun ic_store :: "(json \<Rightarrow> json) \<Rightarrow> (string \<rightharpoonup> item) \<Rightarrow> item list \<Rightarrow> (string \<rightharpoonup> item)" where
  "ic_store compress cache [] = cache"
| "ic_store compress cache (x # xs) =
     ic_store compress (cache(item_ItemId x \<mapsto> x\<lparr>item_Labels := compress (item_Labels x)\<rparr>)) xs"

fun ic_visible :: "(string \<rightharpoonup> item) \<Rightarrow> string list \<Rightarrow> item list" where
  "ic_visible cache [] = []"
| "ic_visible cache (i # is) =
     (case cache i of
        Some x \<Rightarrow> if \<not> item_IsHidden x then x # ic_visible cache is else ic_visible cache is
      | None \<Rightarrow> ic_visible cache is)"

definition GetSlice :: "('s, 'w) pipeline \<Rightarrow> string list \<Rightarrow> ('s world, item list) io" where
  "GetSlice p ids w =
     (case ddb_BatchGetItems (pl_DataClient p) (fst w) (ic_requests (snd w) ids) no_get_options of
        (Inl e, s') \<Rightarrow> (Inl (Failed e), (s', snd w))
      | (Inr response, s') \<Rightarrow>
          (let cache = ic_store (pl_Compress p) (snd w) response
           in (Inr (ic_visible cache ids), (s', cache))))"

definition GetMap :: "('s, 'w) pipeline \<Rightarrow> string list \<Rightarrow> ('s world, string \<rightharpoonup> item) io" where
  "GetMap p ids = io_bind (GetSlice p ids) (\<lambda>items. io_return (items_by_id items))"

subsection \<open>Whether a user needs a new recommendation\<close>

definition hour :: duration where
  "hour = 3600000000000"

definition checkUserActiveTime :: "'w env \<Rightarrow> ('s, 'w) pipeline \<Rightarrow> string \<Rightarrow> 's \<Rightarrow> bool \<times> 's" where
  "checkUserActiveTime E p userId s =
     (if ActiveUserTTL (pl_Config p) = 0 then (True, s)
      else case cdb_GetTime (env_ParseAny E) (pl_CacheClient p) s (Key [c_LastModifyUserTime, userId]) of
          (Inl e, s1) \<Rightarrow> (True, s1)
        | (Inr activeTime, s1) \<Rightarrow>
            if activeTime = 0 then (True, s1)
            else if env_Now E - activeTime < ActiveUserTTL (pl_Config p) * 24 * hour then (True, s1)
            else (False, snd (cdb_DeleteScores (pl_CacheClient p) s1 [c_Recommend]
              \<lparr>sc_Subset = Some userId, sc_Id = None, sc_Before = None\<rparr>)))"

definition checkRecommendCacheOutOfDate :: "'w env \<Rightarrow> ('s, 'w) pipeline \<Rightarrow> string \<Rightarrow> 's \<Rightarrow> bool \<times> 's" where
  "checkRecommendCacheOutOfDate E p userId s =
     (case cdb_SearchScores (pl_CacheClient p) s c_Recommend userId [] 0 (-1) of
        (Inl e, s1) \<Rightarrow> (True, s1)
      | (Inr items, s1) \<Rightarrow>
          if items = [] then (True, s1)
          else case cdb_GetString (pl_CacheClient p) s1 (Key [c_RecommendDigest, userId]) of
            (Inl e, s2) \<Rightarrow> (True, s2)
          | (Inr digest, s2) \<Rightarrow>
              if digest = '''' then (True, s2)
              else if digest \<noteq> config_Hash (env_MD5 E) (env_Render E) (pl_Config p) then (True, s2)
              else case cdb_GetTime (env_ParseAny E) (pl_CacheClient p) s2 (Key [c_LastModifyUserTime, userId]) of (active, s3) \<Rightarrow>
                (let activeTime = (case active of Inl e \<Rightarrow> 0 | Inr t \<Rightarrow> t)
                 in case cdb_GetTime (env_ParseAny E) (pl_CacheClient p) s3 (Key [c_RecommendUpdateTime, userId]) of
                   (Inl e, s4) \<Rightarrow> (True, s4)
                 | (Inr recommendTime, s4) \<Rightarrow>
                     if recommendTime < env_Now E - CacheExpire (pl_Config p) then (True, s4)
                     else if activeTime < recommendTime
                     then (recommendTime + rk_CacheExpire (Ranker (pl_Config p)) < env_Now E, s4)
                     else (True, s4)))"

subsection \<open>Collaborative filtering\<close>

definition CollaborativeFilteringCollection :: "(int \<Rightarrow> string) \<Rightarrow> int \<Rightarrow> string" where
  "CollaborativeFilteringCollection itoa k = ''collaborative_filtering'' @ ''_'' @ itoa k"

definition updateCollaborativeRecommend :: "(int \<Rightarrow> string) \<Rightarrow> 'w env \<Rightarrow> ('s, 'w) pipeline \<Rightarrow> int \<Rightarrow> string \<Rightarrow> 'w list \<Rightarrow> string set \<Rightarrow> ('s, unit) io" where
  "updateCollaborativeRecommend itoa E p mfId userId embedding excl =
     (let t = env_Now E in
      io_bind (io_call (\<lambda>s. vdb_QueryVectors (pl_VectorClient p) s (CollaborativeFilteringCollection itoa mfId)
        (zero_vector\<lparr>vec_Values := embedding\<rparr>) [] (CacheSize (pl_Config p) + int (card excl)))) (\<lambda>vs.
      let recommend = map (\<lambda>v. \<lparr>score_Id = vec_Id v, score_Score = sv_Score v, score_IsHidden = False,
            score_Categories = vec_Categories v, score_Timestamp = t\<rparr>) (filter (\<lambda>v. vec_Id v \<notin> excl) vs) in
      io_bind (io_do (\<lambda>s. cdb_AddScores (pl_CacheClient p) s c_CollaborativeFiltering userId recommend)) (\<lambda>_.
      io_bind (io_do (\<lambda>s. cdb_Set (pl_CacheClient p) s
        [kv_Time (env_ShowTime E) (Key [c_CollaborativeFilteringUpdateTime, userId]) t,
         kv_String (Key [c_CollaborativeFilteringDigest, userId]) (co_Hash (env_MD5 E) (env_Render E) (pl_Config p))])) (\<lambda>_.
      io_do (\<lambda>s. cdb_DeleteScores (pl_CacheClient p) s [c_CollaborativeFiltering]
        \<lparr>sc_Subset = Some userId, sc_Id = None, sc_Before = Some t\<rparr>)))))"

subsection \<open>Ranking\<close>

definition ctr_score :: "time \<Rightarrow> item \<Rightarrow> 'w \<Rightarrow> 'w score" where
  "ctr_score t i w = \<lparr>score_Id = item_ItemId i, score_Score = w, score_IsHidden = False,
     score_Categories = item_Categories i, score_Timestamp = t\<rparr>"

definition rankByClickTroughRate :: "'w env \<Rightarrow> ('s, 'w) pipeline \<Rightarrow> 'w predictor \<Rightarrow> user \<Rightarrow> 'w score list \<Rightarrow> time \<Rightarrow> ('s world, 'w score list) io" where
  "rankByClickTroughRate E p predictor u candidates t =
     io_bind (GetSlice p (map score_Id candidates)) (\<lambda>items.
     case predictor of
       BatchInference f \<Rightarrow>
         (let output = f u items
          in if length output > length items then io_fail (Panicked IndexOutOfRange)
             else io_return (env_SortDocuments E (map (\<lambda>(i, w). ctr_score t i w) (zip items output))))
     | SingleInference f \<Rightarrow> io_return (env_SortDocuments E (map (\<lambda>i. ctr_score t i (f u i)) items)))"

fun context_feedback :: "('w::linorder) recommend_config \<Rightarrow> 'w feedback list \<Rightarrow> 'w feedback list \<Rightarrow> 'w feedback list" where
  "context_feedback cfg acc [] = acc"
| "context_feedback cfg acc (f # fs) =
     (if ContextSize cfg \<le> int (length acc) then acc
      else if MatchFeedbackTypeExpressions (ds_PositiveFeedbackTypes (DataSource cfg)) (fb_FeedbackType f) (fb_Value f)
      then context_feedback cfg (acc @ [f]) fs
      else context_feedback cfg acc fs)"

fun feedback_items :: "(string \<rightharpoonup> item) \<Rightarrow> 'w feedback list \<Rightarrow> (string \<times> item) list" where
  "feedback_items m [] = []"
| "feedback_items m (f # fs) =
     (case m (fb_ItemId f) of Some x \<Rightarrow> (fb_FeedbackType f, x) # feedback_items m fs | None \<Rightarrow> feedback_items m fs)"

definition item_categories :: "item list \<Rightarrow> string \<Rightarrow> string list" where
  "item_categories items i = (case items_by_id items i of None \<Rightarrow> [] | Some x \<Rightarrow> item_Categories x)"

text \<open>\<open>rankByReranker\<close> and \<open>rankByDecision\<close> only pass their ranker to \<open>rankByAPI\<close>.\<close>

definition rankByAPI :: "('w::linorder) env \<Rightarrow> ('s, 'w) pipeline \<Rightarrow> ('s, 'w) ranker \<Rightarrow> user \<Rightarrow> 'w feedback list \<Rightarrow> 'w score list \<Rightarrow> time \<Rightarrow>
    ('s world, 'w score list) io" where
  "rankByAPI E p rank u feedback candidates t =
     io_bind (GetSlice p (map score_Id candidates)) (\<lambda>items.
     if ContextSize (pl_Config p) < 0 then io_fail (Panicked NegativeLength)
     else
     let ctx = context_feedback (pl_Config p) [] (env_SortFeedbacks E feedback) in
     io_bind (GetMap p (map fb_ItemId ctx)) (\<lambda>m.
     io_bind (on_store (io_call (rank u (feedback_items m ctx) items))) (\<lambda>parsed.
     io_return (map (\<lambda>x. \<lparr>score_Id = score_Id x, score_Score = score_Score x, score_IsHidden = False,
       score_Categories = item_categories items (score_Id x), score_Timestamp = t\<rparr>) parsed))))"

subsection \<open>Replacement\<close>

text \<open>A \<open>mapset.Set\<close> whose elements are listed is a list without duplicates, in insertion order.\<close>

definition set_add :: "string \<Rightarrow> string list \<Rightarrow> string list" where
  "set_add x xs = (if x \<in> set xs then xs else xs @ [x])"

fun replacement_items :: "('w::linorder) recommend_config \<Rightarrow> string set \<times> string list \<Rightarrow> 'w feedback list \<Rightarrow> string set \<times> string list" where
  "replacement_items cfg (positive, seen) [] = (positive, seen)"
| "replacement_items cfg (positive, seen) (f # fs) =
     (if MatchFeedbackTypeExpressions (ds_PositiveFeedbackTypes (DataSource cfg)) (fb_FeedbackType f) (fb_Value f)
      then replacement_items cfg (insert (fb_ItemId f) positive, set_add (fb_ItemId f) seen) fs
      else if MatchFeedbackTypeExpressions (ds_ReadFeedbackTypes (DataSource cfg)) (fb_FeedbackType f) (fb_Value f)
      then replacement_items cfg (positive, set_add (fb_ItemId f) seen) fs
      else replacement_items cfg (positive, seen) fs)"

fun add_candidates :: "time \<Rightarrow> ('w::zero) score list \<times> string set \<Rightarrow> item list \<Rightarrow> 'w score list \<times> string set" where
  "add_candidates t (candidates, cset) [] = (candidates, cset)"
| "add_candidates t (candidates, cset) (i # is) =
     (if item_ItemId i \<in> cset then add_candidates t (candidates, cset) is
      else add_candidates t (candidates @ [\<lparr>score_Id = item_ItemId i, score_Score = 0, score_IsHidden = False,
             score_Categories = item_Categories i, score_Timestamp = t\<rparr>], insert (item_ItemId i) cset) is)"

text \<open>The candidates with the replacement items, the positive and the negative (only read) replacement items.\<close>

definition addReplacementCandidates :: "('w::{linorder,zero}) env \<Rightarrow> ('s, 'w) pipeline \<Rightarrow> 'w score list \<Rightarrow> string set \<Rightarrow> 'w feedback list \<Rightarrow> time \<Rightarrow>
    ('s world, 'w score list \<times> string set \<times> string set) io" where
  "addReplacementCandidates E p candidates cset feedbacks t =
     (case replacement_items (pl_Config p) ({}, []) feedbacks of
        (positive, seen) \<Rightarrow>
          if length seen = 0 then io_return (candidates, positive, {})
          else
          io_bind (GetSlice p (env_Iter E seen)) (\<lambda>items.
          let existing = set (map item_ItemId items);
              (candidates', cset') = add_candidates t (candidates, cset) items
          in io_return (candidates', positive \<inter> existing, (set seen - positive) \<inter> existing)))"

text \<open>A nil set is the empty set here: the code tests for both and treats them alike.\<close>

definition decay_score :: "('w::times) replacement_config \<Rightarrow> string set \<Rightarrow> string set \<Rightarrow> 'w score \<Rightarrow> 'w score" where
  "decay_score rc positive negative x =
     (if score_Id x \<in> positive then x\<lparr>score_Score := score_Score x * rp_PositiveReplacementDecay rc\<rparr>
      else if score_Id x \<in> negative then x\<lparr>score_Score := score_Score x * rp_ReadReplacementDecay rc\<rparr>
      else x)"

definition applyReplacementDecay :: "('w::times) env \<Rightarrow> ('s, 'w) pipeline \<Rightarrow> 'w score list \<Rightarrow> string set \<Rightarrow> string set \<Rightarrow> 'w score list" where
  "applyReplacementDecay E p results positive negative =
     (if positive = {} \<and> negative = {} then results
      else
      let updated = map (decay_score (Replacement (pl_Config p)) positive negative) results;
          changed = list_ex (\<lambda>x. score_Id x \<in> positive \<or> score_Id x \<in> negative) results
      in if changed then env_SortDocuments E updated else updated)"

subsection \<open>The job of one user\<close>

datatype 'w job_outcome = Skipped | Cached "'w score list" string

definition lift_check :: "('s \<Rightarrow> bool \<times> 's) \<Rightarrow> ('s world, bool) io" where
  "lift_check m w = (case m (fst w) of (b, s') \<Rightarrow> (Inr b, (s', snd w)))"

definition existing_candidates :: "(string \<rightharpoonup> item) \<Rightarrow> time \<Rightarrow> 'w score list \<Rightarrow> 'w score list" where
  "existing_candidates m t scores = map (\<lambda>x. x\<lparr>score_Timestamp := t\<rparr>) (filter (\<lambda>x. m (score_Id x) \<noteq> None) scores)"

definition collaborative_step :: "(int \<Rightarrow> string) \<Rightarrow> 'w env \<Rightarrow> ('s, 'w) pipeline \<Rightarrow> string \<Rightarrow> string set \<Rightarrow> ('s, bool) io" where
  "collaborative_step itoa E p userId excl =
     (case pl_MatrixFactorizationUsers p of
        None \<Rightarrow> io_return True
      | Some embeddings \<Rightarrow>
          if is_none (co_Type (Collaborative (pl_Config p))) then io_return True
          else case embeddings userId of
            Some embedding \<Rightarrow>
              io_bind (updateCollaborativeRecommend itoa E p (pl_MatrixFactorizationId p) userId embedding excl) (\<lambda>_. io_return True)
          | None \<Rightarrow> io_return (pl_dontskipColdStartUsers p))"

definition rank_step :: "('w::{linorder,zero,one,plus,minus,times,divide}) env \<Rightarrow> ('s, 'w) pipeline \<Rightarrow> user \<Rightarrow> 'w feedback list \<Rightarrow> 'w score list \<Rightarrow> time \<Rightarrow>
    ('s world, 'w score list) io" where
  "rank_step E p u feedback candidates t =
     (let ty = rk_Type (Ranker (pl_Config p))
      in if ty = ''fm'' \<and> pl_Predictor p \<noteq> None
         then rankByClickTroughRate E p (the (pl_Predictor p)) u candidates t
         else if ty = ''reranker''
         then (case pl_NewReranker p of Inl e \<Rightarrow> io_fail (Failed e) | Inr f \<Rightarrow> rankByAPI E p f u feedback candidates t)
         else if ty = ''decision''
         then (case pl_NewDecision p of Inl e \<Rightarrow> io_fail (Failed e) | Inr f \<Rightarrow> rankByAPI E p f u feedback candidates t)
         else io_return candidates)"

definition store_step :: "'w env \<Rightarrow> ('s, 'w) pipeline \<Rightarrow> string \<Rightarrow> 'w score list \<Rightarrow> string \<Rightarrow> time \<Rightarrow> ('s, unit) io" where
  "store_step E p userId results digest t =
     io_bind (io_do (\<lambda>s. cdb_AddScores (pl_CacheClient p) s c_Recommend userId results)) (\<lambda>_.
     io_bind (io_do (\<lambda>s. cdb_DeleteScores (pl_CacheClient p) s [c_Recommend]
       \<lparr>sc_Subset = Some userId, sc_Id = None, sc_Before = Some t\<rparr>)) (\<lambda>_.
     io_do (\<lambda>s. cdb_Set (pl_CacheClient p) s
       [kv_Time (env_ShowTime E) (Key [c_RecommendUpdateTime, userId]) t,
        kv_String (Key [c_RecommendDigest, userId]) digest])))"

definition replacement_on :: "('s, 'w) pipeline \<Rightarrow> bool" where
  "replacement_on p = (rp_EnableReplacement (Replacement (pl_Config p)) \<and> rk_Type (Ranker (pl_Config p)) \<noteq> ''none'')"

definition candidate_step :: "('w::{linorder,zero}) env \<Rightarrow> ('s, 'w) pipeline \<Rightarrow> 'w feedback list \<Rightarrow> 'w score list \<Rightarrow> time \<Rightarrow>
    ('s world, 'w score list \<times> string set \<times> string set) io" where
  "candidate_step E p feedback scores t =
     io_bind (GetMap p (map score_Id scores)) (\<lambda>items.
     let candidates = existing_candidates items t scores in
     if replacement_on p then addReplacementCandidates E p candidates (set (map score_Id candidates)) feedback t
     else io_return (candidates, {}, {}))"

definition recommend_job :: "(int \<Rightarrow> string) \<Rightarrow> ('w::{linorder,zero,one,plus,minus,times,divide}) env \<Rightarrow> ('s, 'w) pipeline \<Rightarrow> user \<Rightarrow>
    ('s world, 'w job_outcome) io" where
  "recommend_job itoa E p u =
     (let userId = user_UserId u; t = env_Now E in
      io_bind (lift_check (checkUserActiveTime E p userId)) (\<lambda>active.
      if \<not> active then io_return Skipped else
      io_bind (lift_check (checkRecommendCacheOutOfDate E p userId)) (\<lambda>stale.
      if \<not> stale then io_return Skipped else
      io_bind (on_store (NewRecommender E (pl_Config p) (pl_CacheClient p) (pl_DataClient p) (pl_VectorClient p) (pl_Pull p) False userId [])) (\<lambda>r.
      if \<not> pl_dontskipColdStartUsers p \<and> r_coldstart r then io_return Skipped else
      io_bind (on_store (collaborative_step itoa E p userId (r_excludeSet r))) (\<lambda>go.
      if \<not> go then io_return Skipped else
      io_bind (on_store (RecommendSequential E r [] 0 []
        (if rk_Recommenders (Ranker (pl_Config p)) \<noteq> [] then rk_Recommenders (Ranker (pl_Config p)) else ListRecommenders (pl_Config p)))) (\<lambda>(scores, digest, r').
      io_bind (candidate_step E p (r_userFeedback r') scores t) (\<lambda>(candidates, positive, negative).
      io_bind (rank_step E p u (r_userFeedback r') candidates t) (\<lambda>ranked.
      let results = (if replacement_on p then applyReplacementDecay E p ranked positive negative else ranked) in
      io_bind (on_store (store_step E p userId results digest t)) (\<lambda>_.
      io_return (Cached results digest))))))))))"

subsection \<open>The item cache only grows\<close>

text \<open>The store answers a batch only with items that were asked for.\<close>

definition batch_law :: "('s, 'w) pipeline \<Rightarrow> bool" where
  "batch_law p \<longleftrightarrow> (\<forall>s ids opts xs s'. ddb_BatchGetItems (pl_DataClient p) s ids opts = (Inr xs, s') \<longrightarrow> set (map item_ItemId xs) \<subseteq> set ids)"

definition cache_keyed :: "(string \<rightharpoonup> item) \<Rightarrow> bool" where
  "cache_keyed c \<longleftrightarrow> (\<forall>i x. c i = Some x \<longrightarrow> item_ItemId x = i)"

definition visible :: "(string \<rightharpoonup> item) \<Rightarrow> string \<Rightarrow> bool" where
  "visible c i \<longleftrightarrow> (\<exists>x. c i = Some x \<and> \<not> item_IsHidden x)"

lemma visible_mono: "c \<subseteq>\<^sub>m c' \<Longrightarrow> visible c i \<Longrightarrow> visible c' i"
  unfolding visible_def map_le_def by (metis domI)

lemma cache_keyed_upd: "cache_keyed c \<Longrightarrow> item_ItemId y = i \<Longrightarrow> cache_keyed (c(i \<mapsto> y))"
  unfolding cache_keyed_def fun_upd_apply by (metis option.inject)

lemma ic_store_keyed: "cache_keyed c \<Longrightarrow> cache_keyed (ic_store f c xs)"
  by (induction xs arbitrary: c) (simp_all add: cache_keyed_upd)

lemma ic_store_extends: "\<forall>x \<in> set xs. c0 (item_ItemId x) = None \<Longrightarrow> c0 \<subseteq>\<^sub>m c \<Longrightarrow> c0 \<subseteq>\<^sub>m ic_store f c xs"
proof (induction xs arbitrary: c)
  case (Cons x xs)
  have "c0 \<subseteq>\<^sub>m c(item_ItemId x \<mapsto> x\<lparr>item_Labels := f (item_Labels x)\<rparr>)"
    using Cons.prems by (auto simp: map_le_def)
  then show ?case using Cons by simp
qed simp

lemma ic_visible_in: "x \<in> set (ic_visible c ids) \<Longrightarrow> cache_keyed c \<Longrightarrow>
    \<not> item_IsHidden x \<and> c (item_ItemId x) = Some x \<and> item_ItemId x \<in> set ids"
proof (induction ids)
  case (Cons i ids)
  show ?case
  proof (cases "c i")
    case None
    then show ?thesis using Cons by simp
  next
    case (Some y)
    then have "item_ItemId y = i" using Cons.prems(2) unfolding cache_keyed_def by blast
    moreover have "x = y \<and> \<not> item_IsHidden y \<or> x \<in> set (ic_visible c ids)"
      using Cons.prems(1) Some by (simp split: if_splits)
    ultimately show ?thesis using Cons.IH Cons.prems(2) Some by auto
  qed
qed simp

lemma GetSlice_facts:
  assumes run: "GetSlice p ids w = (Inr items, w')" and law: "batch_law p" and keyed: "cache_keyed (snd w)"
  shows "cache_keyed (snd w') \<and> snd w \<subseteq>\<^sub>m snd w' \<and>
    (\<forall>x \<in> set items. visible (snd w') (item_ItemId x) \<and> item_ItemId x \<in> set ids)"
proof -
  obtain response s' where r: "ddb_BatchGetItems (pl_DataClient p) (fst w) (ic_requests (snd w) ids) no_get_options = (Inr response, s')"
    "items = ic_visible (ic_store (pl_Compress p) (snd w) response) ids" "snd w' = ic_store (pl_Compress p) (snd w) response"
    using run by (auto simp: GetSlice_def Let_def split: prod.splits sum.splits)
  have "set (map item_ItemId response) \<subseteq> set (ic_requests (snd w) ids)" using law r(1) unfolding batch_law_def by blast
  then have new: "\<forall>x \<in> set response. snd w (item_ItemId x) = None" unfolding ic_requests_def by auto
  have k: "cache_keyed (snd w')" unfolding r(3) by (rule ic_store_keyed [OF keyed])
  have "snd w \<subseteq>\<^sub>m snd w'" unfolding r(3) by (rule ic_store_extends [OF new map_le_refl])
  moreover have "visible (snd w') (item_ItemId x) \<and> item_ItemId x \<in> set ids" if "x \<in> set items" for x
    using ic_visible_in [OF that [unfolded r(2), folded r(3)] k] unfolding visible_def by blast
  ultimately show ?thesis using k by blast
qed

lemma items_by_id_in: "items_by_id items i = Some x \<Longrightarrow> x \<in> set items"
proof -
  have "foldl (\<lambda>m i. m(item_ItemId i \<mapsto> i)) m items i = Some x \<Longrightarrow> x \<in> set items \<or> m i = Some x" for m :: "string \<rightharpoonup> item"
    by (induction items arbitrary: m) (fastforce split: if_splits)+
  from this [of Map.empty] show "items_by_id items i = Some x \<Longrightarrow> x \<in> set items" by (simp add: items_by_id_def)
qed

lemma GetMap_facts:
  assumes "GetMap p ids w = (Inr m, w')" and "batch_law p" and "cache_keyed (snd w)"
  shows "cache_keyed (snd w') \<and> snd w \<subseteq>\<^sub>m snd w' \<and> (\<forall>i. m i \<noteq> None \<longrightarrow> visible (snd w') i)"
proof -
  obtain items where items: "GetSlice p ids w = (Inr items, w')" "m = items_by_id items"
    using assms(1) by (auto simp: GetMap_def io_bind_Inr)
  have "visible (snd w') i" if some: "m i \<noteq> None" for i
  proof -
    obtain x where x: "items_by_id items i = Some x" using some unfolding items(2) by blast
    show ?thesis using GetSlice_facts [OF items(1) assms(2,3)] items_by_id_in [OF x] items_by_id_Some [OF x] by blast
  qed
  then show ?thesis using GetSlice_facts [OF items(1) assms(2,3)] by blast
qed

lemma on_store_Inr: "on_store m w = (Inr x, w') \<longleftrightarrow> m (fst w) = (Inr x, fst w') \<and> snd w' = snd w"
  by (cases w') (auto simp: on_store_def split: prod.splits)

lemma lift_check_Inr: "lift_check m w = (Inr b, w') \<longleftrightarrow> m (fst w) = (b, fst w') \<and> snd w' = snd w"
  by (cases w') (auto simp: lift_check_def split: prod.splits)

subsection \<open>Candidates\<close>

text \<open>The items that the replacement brings back.\<close>

definition replaced :: "('w::linorder) recommend_config \<Rightarrow> 'w feedback list \<Rightarrow> string set" where
  "replaced cfg fs = {fb_ItemId f | f. f \<in> set fs \<and>
     (MatchFeedbackTypeExpressions (ds_PositiveFeedbackTypes (DataSource cfg)) (fb_FeedbackType f) (fb_Value f) \<or>
      MatchFeedbackTypeExpressions (ds_ReadFeedbackTypes (DataSource cfg)) (fb_FeedbackType f) (fb_Value f))}"

lemma set_set_add [simp]: "set (set_add x xs) = insert x (set xs)"
  by (auto simp: set_add_def)

lemma distinct_set_add: "distinct xs \<Longrightarrow> distinct (set_add x xs)"
  by (simp add: set_add_def)

lemma replacement_items_set:
  "replacement_items cfg (P, seen) fs = (P', seen') \<Longrightarrow> P \<subseteq> set seen \<Longrightarrow>
   set seen' = set seen \<union> replaced cfg fs \<and> P' \<subseteq> set seen' \<and> (distinct seen \<longrightarrow> distinct seen')"
proof (induction fs arbitrary: P seen)
  case Nil
  then show ?case by (simp add: replaced_def)
next
  case (Cons f fs)
  have split: "replaced cfg (f # fs) = replaced cfg [f] \<union> replaced cfg fs" unfolding replaced_def by auto
  consider (pos) "MatchFeedbackTypeExpressions (ds_PositiveFeedbackTypes (DataSource cfg)) (fb_FeedbackType f) (fb_Value f)"
    | (read) "\<not> MatchFeedbackTypeExpressions (ds_PositiveFeedbackTypes (DataSource cfg)) (fb_FeedbackType f) (fb_Value f)"
        "MatchFeedbackTypeExpressions (ds_ReadFeedbackTypes (DataSource cfg)) (fb_FeedbackType f) (fb_Value f)"
    | (none) "\<not> MatchFeedbackTypeExpressions (ds_PositiveFeedbackTypes (DataSource cfg)) (fb_FeedbackType f) (fb_Value f)"
        "\<not> MatchFeedbackTypeExpressions (ds_ReadFeedbackTypes (DataSource cfg)) (fb_FeedbackType f) (fb_Value f)" by blast
  then show ?case
  proof cases
    case pos
    then have one: "replaced cfg [f] = {fb_ItemId f}" by (auto simp: replaced_def)
    have run: "replacement_items cfg (insert (fb_ItemId f) P, set_add (fb_ItemId f) seen) fs = (P', seen')"
      using Cons.prems(1) pos by simp
    have "insert (fb_ItemId f) P \<subseteq> set (set_add (fb_ItemId f) seen)" using Cons.prems(2) by auto
    from Cons.IH [OF run this] show ?thesis unfolding split one using distinct_set_add [of seen "fb_ItemId f"] by auto
  next
    case read
    then have one: "replaced cfg [f] = {fb_ItemId f}" by (auto simp: replaced_def)
    have run: "replacement_items cfg (P, set_add (fb_ItemId f) seen) fs = (P', seen')" using Cons.prems(1) read by simp
    have "P \<subseteq> set (set_add (fb_ItemId f) seen)" using Cons.prems(2) by auto
    from Cons.IH [OF run this] show ?thesis unfolding split one using distinct_set_add [of seen "fb_ItemId f"] by auto
  next
    case none
    then have one: "replaced cfg [f] = {}" by (auto simp: replaced_def)
    have run: "replacement_items cfg (P, seen) fs = (P', seen')" using Cons.prems(1) none by simp
    from Cons.IH [OF run Cons.prems(2)] show ?thesis unfolding split one by auto
  qed
qed

lemma add_candidates_ids:
  "add_candidates t (cs, X) items = (cs', X') \<Longrightarrow> X = set (map score_Id cs) \<Longrightarrow>
   X' = set (map score_Id cs') \<and> X' = X \<union> set (map item_ItemId items) \<and> (distinct (map score_Id cs) \<longrightarrow> distinct (map score_Id cs'))"
proof (induction items arbitrary: cs X)
  case (Cons i its)
  show ?case
  proof (cases "item_ItemId i \<in> X")
    case True
    then show ?thesis using Cons by auto
  next
    case False
    let ?cs = "cs @ [\<lparr>score_Id = item_ItemId i, score_Score = 0, score_IsHidden = False, score_Categories = item_Categories i, score_Timestamp = t\<rparr>]"
    have "add_candidates t (?cs, insert (item_ItemId i) X) its = (cs', X')" using Cons.prems(1) False by simp
    from Cons.IH [OF this] show ?thesis using Cons.prems(2) False by auto
  qed
qed simp

lemma addReplacementCandidates_facts:
  assumes E: "env_ok E" and law: "batch_law p" and keyed: "cache_keyed (snd w)"
    and cands: "X = set (map score_Id cs)" "\<forall>i \<in> X. visible (snd w) i"
    and run: "addReplacementCandidates E p cs X fs t w = (Inr (cs', pos, neg), w')"
  shows "cache_keyed (snd w') \<and> snd w \<subseteq>\<^sub>m snd w' \<and> (\<forall>x \<in> set cs'. visible (snd w') (score_Id x)) \<and>
    set (map score_Id cs') \<subseteq> X \<union> replaced (pl_Config p) fs \<and> (distinct (map score_Id cs) \<longrightarrow> distinct (map score_Id cs')) \<and>
    pos \<inter> neg = {} \<and> (replaced (pl_Config p) fs \<noteq> {} \<longrightarrow> pos \<union> neg \<subseteq> set (map score_Id cs'))"
proof -
  obtain positive seen where seen: "replacement_items (pl_Config p) ({}, []) fs = (positive, seen)" by fastforce
  from replacement_items_set [OF seen] have s: "set seen = replaced (pl_Config p) fs" "positive \<subseteq> set seen" by auto
  show ?thesis
  proof (cases "length seen = 0")
    case True
    then have "cs' = cs" "w' = w" "neg = {}" using run seen by (simp_all add: addReplacementCandidates_def)
    then show ?thesis using keyed cands s True by auto
  next
    case False
    obtain items where get: "GetSlice p (env_Iter E seen) w = (Inr items, w')"
      and rest: "add_candidates t (cs, X) items = (cs', snd (add_candidates t (cs, X) items))"
      "pos = positive \<inter> set (map item_ItemId items)" "neg = (set seen - positive) \<inter> set (map item_ItemId items)"
    proof -
      obtain items w1 where get: "GetSlice p (env_Iter E seen) w = (Inr items, w1)"
        and rest: "(let existing = set (map item_ItemId items); (candidates', cset') = add_candidates t (cs, X) items
          in io_return (candidates', positive \<inter> existing, (set seen - positive) \<inter> existing)) w1 = (Inr (cs', pos, neg), w')"
        using run seen False unfolding addReplacementCandidates_def io_bind_Inr by (simp add: io_bind_Inr) blast
      have "w1 = w'" using rest by (cases "add_candidates t (cs, X) items") (simp add: Let_def)
      then show ?thesis using get rest that by (cases "add_candidates t (cs, X) items") (simp add: Let_def)
    qed
    note g = GetSlice_facts [OF get law keyed]
    note a = add_candidates_ids [OF rest(1) cands(1)]
    have ids: "set (map score_Id cs') = X \<union> set (map item_ItemId items)" using a by metis
    have sub: "set (map item_ItemId items) \<subseteq> replaced (pl_Config p) fs"
      using g env_ok_Iter_set [OF E, of seen] s(1) by auto
    have vis: "visible (snd w') i" if "i \<in> X \<union> set (map item_ItemId items)" for i
      using that g cands(2) visible_mono [of "snd w" "snd w'"] by auto
    have "visible (snd w') (score_Id x)" if x: "x \<in> set cs'" for x
    proof -
      have "score_Id x \<in> set (map score_Id cs')" using x by simp
      then show ?thesis using vis unfolding ids by blast
    qed
    moreover have "pos \<inter> neg = {}" "pos \<union> neg \<subseteq> set (map score_Id cs')" using rest(2,3) ids by auto
    ultimately show ?thesis using g a ids sub by blast
  qed
qed

lemma candidate_step_facts:
  assumes E: "env_ok E" and law: "batch_law p" and keyed: "cache_keyed (snd w)"
    and run: "candidate_step E p fs scores t w = (Inr (cs, pos, neg), w')"
  shows "cache_keyed (snd w') \<and> (\<forall>x \<in> set cs. visible (snd w') (score_Id x)) \<and>
    set (map score_Id cs) \<subseteq> set (map score_Id scores) \<union> (if replacement_on p then replaced (pl_Config p) fs else {})"
proof -
  obtain m w1 where m: "GetMap p (map score_Id scores) w = (Inr m, w1)"
    and rest: "(let candidates = existing_candidates m t scores in
      if replacement_on p then addReplacementCandidates E p candidates (set (map score_Id candidates)) fs t
      else io_return (candidates, {}, {})) w1 = (Inr (cs, pos, neg), w')"
    using run unfolding candidate_step_def io_bind_Inr by blast
  let ?c = "existing_candidates m t scores"
  note g = GetMap_facts [OF m law keyed]
  have sub: "set (map score_Id ?c) \<subseteq> set (map score_Id scores)" by (auto simp: existing_candidates_def)
  have vis: "\<forall>i \<in> set (map score_Id ?c). visible (snd w1) i" using g by (auto simp: existing_candidates_def)
  show ?thesis
  proof (cases "replacement_on p")
    case True
    then have "addReplacementCandidates E p ?c (set (map score_Id ?c)) fs t w1 = (Inr (cs, pos, neg), w')" using rest unfolding Let_def by simp
    from addReplacementCandidates_facts [OF E law _ refl vis this] g
    have "cache_keyed (snd w') \<and> (\<forall>x \<in> set cs. visible (snd w') (score_Id x)) \<and>
      set (map score_Id cs) \<subseteq> set (map score_Id ?c) \<union> replaced (pl_Config p) fs" by blast
    then show ?thesis unfolding if_P [OF True] using sub by blast
  next
    case False
    then have "cs = ?c" "w' = w1" using rest by simp_all
    then show ?thesis using g sub vis False by auto
  qed
qed

text \<open>A ranking that returns candidates only: every kind but the two services.\<close>

definition ranks_candidates :: "('s, 'w) pipeline \<Rightarrow> bool" where
  "ranks_candidates p \<longleftrightarrow> rk_Type (Ranker (pl_Config p)) \<noteq> ''reranker'' \<and> rk_Type (Ranker (pl_Config p)) \<noteq> ''decision''"

lemma env_SortDocuments_set: "env_ok E \<Longrightarrow> set (env_SortDocuments E xs) = set xs"
  using env_ok_SortDocuments unfolding is_SortDocuments_def by (metis mset_eq_setD)

lemma ctr_score_Id [simp]: "score_Id (ctr_score t i w) = item_ItemId i"
  by (simp add: ctr_score_def)

lemma rankByClickTroughRate_ids:
  assumes E: "env_ok E" and law: "batch_law p" and keyed: "cache_keyed (snd w)"
    and run: "rankByClickTroughRate E p f u cs t w = (Inr out, w')"
  shows "set (map score_Id out) \<subseteq> set (map score_Id cs) \<and> snd w \<subseteq>\<^sub>m snd w' \<and> sorted_wrt (\<lambda>a b. score_Score b \<le> score_Score a) out"
proof -
  obtain items w1 where get: "GetSlice p (map score_Id cs) w = (Inr items, w1)"
    and rest: "(case f of
       BatchInference f \<Rightarrow>
         (let output = f u items
          in if length output > length items then io_fail (Panicked IndexOutOfRange)
             else io_return (env_SortDocuments E (map (\<lambda>(i, w). ctr_score t i w) (zip items output))))
     | SingleInference f \<Rightarrow> io_return (env_SortDocuments E (map (\<lambda>i. ctr_score t i (f u i)) items))) w1 = (Inr out, w')"
    using run unfolding rankByClickTroughRate_def io_bind_Inr by blast
  note g = GetSlice_facts [OF get law keyed]
  obtain ys where ys: "out = env_SortDocuments E ys" "set (map score_Id ys) \<subseteq> set (map item_ItemId items)" "w' = w1"
  proof (cases f)
    case (BatchInference h)
    have "set (map score_Id (map (\<lambda>(i, w). ctr_score t i w) (zip items (h u items)))) \<subseteq> set (map item_ItemId items)"
      by (auto simp: ctr_score_def dest: set_zip_leftD)
    then show ?thesis using rest BatchInference by (intro that [OF _ \<open>set _ \<subseteq> set _\<close>]) (auto simp: Let_def split: if_splits)
  next
    case (SingleInference h)
    have "set (map score_Id (map (\<lambda>i. ctr_score t i (h u i)) items)) \<subseteq> set (map item_ItemId items)"
      by (auto simp: ctr_score_def)
    then show ?thesis using rest SingleInference by (intro that) auto
  qed
  have "set (map item_ItemId items) \<subseteq> set (map score_Id cs)" using g by auto
  moreover have "set (map score_Id out) = set (map score_Id ys)" using env_SortDocuments_set [OF E] ys(1) by simp
  moreover have "sorted_wrt (\<lambda>a b. score_Score b \<le> score_Score a) out"
    using env_ok_SortDocuments [OF E] unfolding ys(1) is_SortDocuments_def by blast
  ultimately show ?thesis using g ys(2,3) by blast
qed

lemma rank_step_ids:
  assumes "env_ok E" and "batch_law p" and "cache_keyed (snd w)" and kind: "ranks_candidates p"
    and run: "rank_step E p u fs cs t w = (Inr out, w')"
  shows "set (map score_Id out) \<subseteq> set (map score_Id cs) \<and> snd w \<subseteq>\<^sub>m snd w'"
proof (cases "rk_Type (Ranker (pl_Config p)) = ''fm'' \<and> pl_Predictor p \<noteq> None")
  case True
  then have "rankByClickTroughRate E p (the (pl_Predictor p)) u cs t w = (Inr out, w')"
    using run by (simp add: rank_step_def)
  from rankByClickTroughRate_ids [OF assms(1-3) this] show ?thesis by blast
next
  case False
  then have "out = cs \<and> w' = w" using run kind unfolding ranks_candidates_def rank_step_def Let_def by (simp split: if_splits)
  then show ?thesis by simp
qed

lemma decay_score_Id [simp]: "score_Id (decay_score rc pos neg x) = score_Id x"
  by (simp add: decay_score_def)

lemma applyReplacementDecay_ids:
  assumes "env_ok E"
  shows "set (map score_Id (applyReplacementDecay E p out pos neg)) = set (map score_Id out)"
proof -
  let ?u = "map (decay_score (Replacement (pl_Config p)) pos neg) out"
  have u: "set (map score_Id ?u) = set (map score_Id out)" by (simp add: image_image)
  have v: "set (map score_Id (env_SortDocuments E ?u)) = set (map score_Id ?u)"
    by (simp only: set_map env_SortDocuments_set [OF assms])
  have "applyReplacementDecay E p out pos neg \<in> {out, ?u, env_SortDocuments E ?u}"
    unfolding applyReplacementDecay_def Let_def by simp
  then show ?thesis using u v by (metis insertE singletonD)
qed

subsection \<open>What a job caches\<close>

lemma skip_Inr: "(if b then io_return Skipped else m) w = (Inr (Cached r d), w') \<longleftrightarrow> \<not> b \<and> m w = (Inr (Cached r d), w')"
  by simp

text \<open>The stages of a job that caches a recommendation.\<close>

lemma recommend_job_stages:
  assumes "recommend_job itoa E p u w = (Inr (Cached results digest), w')"
  obtains r s0 s1 scores r' s2 s3 candidates positive negative w2 ranked w3
  where "NewRecommender E (pl_Config p) (pl_CacheClient p) (pl_DataClient p) (pl_VectorClient p) (pl_Pull p) False (user_UserId u) [] s0
      = (Inr r, s1)"
    and "RecommendSequential E r [] 0 [] (if rk_Recommenders (Ranker (pl_Config p)) \<noteq> []
        then rk_Recommenders (Ranker (pl_Config p)) else ListRecommenders (pl_Config p)) s2 = (Inr (scores, digest, r'), s3)"
    and "candidate_step E p (r_userFeedback r') scores (env_Now E) (s3, snd w) = (Inr (candidates, positive, negative), w2)"
    and "rank_step E p u (r_userFeedback r') candidates (env_Now E) w2 = (Inr ranked, w3)"
    and "results = (if replacement_on p then applyReplacementDecay E p ranked positive negative else ranked)"
    and "snd w' = snd w3"
    and "store_step E p (user_UserId u) results digest (env_Now E) (fst w3) = (Inr (), fst w')"
  using assms
  apply (simp only: recommend_job_def Let_def io_bind_Inr skip_Inr split_paired_Ex prod.case io_return_Inr job_outcome.inject
      lift_check_Inr on_store_Inr fst_conv snd_conv)
  apply (elim exE conjE)
  apply hypsubst
  apply (rule that)
       apply assumption
      apply assumption
      apply assumption
     apply assumption
    apply simp
   apply simp
  apply simp
  done

lemma replaced_cong: "set fs = set gs \<Longrightarrow> replaced cfg fs = replaced cfg gs"
  by (simp add: replaced_def)

text \<open>(C2) An offline recommendation (with a ranker that returns candidates) holds only items that exist and are not
  hidden, and no item that the feedback of its user rules out, except those that the replacement brings back: items
  with positive or read feedback. The user's feedback is the answer of the store.\<close>

theorem job_results_allowed:
  assumes E: "env_ok E" and law: "batch_law p" and keyed: "cache_keyed (snd w)" and kind: "ranks_candidates p"
    and run: "recommend_job itoa E p u w = (Inr (Cached results digest), w')"
  shows "\<exists>fs s s'. ddb_GetUserFeedback (pl_DataClient p) s (user_UserId u) (Some (env_Now E)) [] = (Inr fs, s') \<and>
    (\<forall>x \<in> set results. visible (snd w') (score_Id x) \<and>
      (score_Id x \<in> ruled_out (pl_Config p) False fs \<longrightarrow> replacement_on p \<and> score_Id x \<in> replaced (pl_Config p) fs))"
  using run
proof (rule recommend_job_stages)
  fix r s0 s1 scores r' s2 s3 candidates positive negative w2 ranked w3
  assume new: "NewRecommender E (pl_Config p) (pl_CacheClient p) (pl_DataClient p) (pl_VectorClient p) (pl_Pull p) False (user_UserId u) [] s0
      = (Inr r, s1)"
    and seq: "RecommendSequential E r [] 0 [] (if rk_Recommenders (Ranker (pl_Config p)) \<noteq> []
        then rk_Recommenders (Ranker (pl_Config p)) else ListRecommenders (pl_Config p)) s2 = (Inr (scores, digest, r'), s3)"
    and cand: "candidate_step E p (r_userFeedback r') scores (env_Now E) (s3, snd w) = (Inr (candidates, positive, negative), w2)"
    and rank: "rank_step E p u (r_userFeedback r') candidates (env_Now E) w2 = (Inr ranked, w3)"
    and res: "results = (if replacement_on p then applyReplacementDecay E p ranked positive negative else ranked)"
    and w': "snd w' = snd w3"
  note excl = NewRecommender_excludes [OF new]
  have fb: "replaced (pl_Config p) (r_userFeedback r') = replaced (pl_Config p) (r_userFeedback r)"
    by (rule replaced_cong [OF RecommendSequential_feedback [OF E seq]])
  have scores: "set (map score_Id scores) \<inter> ruled_out (pl_Config p) False (r_userFeedback r) = {}"
    using RecommendSequential_inv [OF E seq run_inv_start] excl unfolding run_inv_def by simp
  have keyed': "cache_keyed (snd (s3, snd w))" using keyed by simp
  note c = candidate_step_facts [OF E law keyed' cand]
  note k = rank_step_ids [OF E law conjunct1 [OF c] kind rank]
  have ids: "set (map score_Id results) = set (map score_Id ranked)"
    unfolding res by (cases "replacement_on p") (simp_all only: if_True if_False applyReplacementDecay_ids [OF E])
  have "visible (snd w') (score_Id x) \<and>
      (score_Id x \<in> ruled_out (pl_Config p) False (r_userFeedback r) \<longrightarrow>
       replacement_on p \<and> score_Id x \<in> replaced (pl_Config p) (r_userFeedback r))" if x: "x \<in> set results" for x
  proof -
    have "score_Id x \<in> set (map score_Id results)" using x by simp
    then have in_c: "score_Id x \<in> set (map score_Id candidates)" using ids k by blast
    then have "visible (snd w2) (score_Id x)" using c by auto
    then have "visible (snd w') (score_Id x)" unfolding w' using k visible_mono by blast
    moreover have "score_Id x \<in> set (map score_Id scores) \<union> (if replacement_on p then replaced (pl_Config p) (r_userFeedback r) else {})"
      using in_c c unfolding fb by blast
    ultimately show ?thesis using scores by (cases "replacement_on p") auto
  qed
  then show ?thesis using excl by blast
qed

subsection \<open>A job leaves a current cache\<close>
















subsection \<open>An example\<close>

text \<open>A cache that knows the digests of the sources and, once a job has stored something, its digest and time.\<close>

definition job_env :: "int env" where
  "job_env = (plain_env 10 (\<lambda>t. t))\<lparr>env_MD5 := ((#) (CHR ''h'')), env_ParseAny := (\<lambda>s. Inr 10)\<rparr>"

definition job_cache :: "(bool, int) cache_db" where
  "job_cache =
     \<lparr>cdb_Set = (\<lambda>s vs. (None, True)),
      cdb_Get = (\<lambda>s k. (if k = Key [c_NonPersonalizedDigest, ''pop''] then NewReturnValue (np_Hash ((#) (CHR ''h'')) (hd (NonPersonalized example_config))) True
         else if k = Key [c_CollaborativeFilteringDigest, ''u''] then NewReturnValue (co_Hash ((#) (CHR ''h'')) (\<lambda>w. '''') example_config) True
         else if k = Key [c_RecommendDigest, ''u''] then NewReturnValue (config_Hash ((#) (CHR ''h'')) (\<lambda>w. '''') example_config) s
         else if k = Key [c_RecommendUpdateTime, ''u''] then NewReturnValue ''10'' s
         else NewReturnValue '''' False, s)),
      cdb_AddScores = (\<lambda>s c u xs. (None, s)),
      cdb_SearchScores = (\<lambda>s c u q b e. (Inr [example_score ''a'' 3, example_score ''b'' 2], s)),
      cdb_DeleteScores = (\<lambda>s cs c. (None, s))\<rparr>"

definition job_data :: "('s, int) data_db" where
  "job_data =
     \<lparr>ddb_BatchGetItems = (\<lambda>s ids o'. (Inr (map example_item ids), s)),
      ddb_GetLatestItems = (\<lambda>s n cats a. (Inr [], s)),
      ddb_GetUserFeedback = (\<lambda>s u t es. (Inr [example_feedback ''a''], s))\<rparr>"

definition job_pipeline :: "(bool, int) pipeline" where
  "job_pipeline =
     \<lparr>pl_Config = example_config, pl_CacheClient = job_cache, pl_DataClient = job_data, pl_VectorClient = fixed_db [] [],
      pl_Pull = (\<lambda>c u s. (Inr [], s)), pl_Compress = (\<lambda>j. j), pl_MatrixFactorizationId = 0, pl_MatrixFactorizationUsers = None,
      pl_Predictor = None, pl_NewReranker = Inl (ErrWrap ''reranker'' ErrInvalidArgument),
      pl_NewDecision = Inl (ErrWrap ''decision'' ErrInvalidArgument), pl_dontskipColdStartUsers = True\<rparr>"

definition job_user :: user where
  "job_user = \<lparr>user_UserId = ''u'', user_Labels = JNull, user_Comment = '''', user_UpdateAt = 0\<rparr>"

definition cached_ids :: "('w job_outcome) \<Rightarrow> (string list \<times> string) option" where
  "cached_ids o' = (case o' of Skipped \<Rightarrow> None | Cached xs d \<Rightarrow> Some (map score_Id xs, d))"

lemma job_run:
  "map_prod (map_sum (\<lambda>_. ()) cached_ids) (\<lambda>w. fst w) (recommend_job (\<lambda>i. '''') job_env job_pipeline job_user (False, Map.empty))
     = (Inr (Some ([''b''], config_Hash (env_MD5 job_env) (env_Render job_env) example_config)), True)"
  by code_simp

lemma job_env_ok: "env_ok job_env"
  using plain_env_ok [of 10 "\<lambda>t. t"] unfolding env_ok_def job_env_def by simp

lemma job_run_ex:
  obtains results w' where "recommend_job (\<lambda>i. '''') job_env job_pipeline job_user (False, Map.empty) =
      (Inr (Cached results (config_Hash (env_MD5 job_env) (env_Render job_env) example_config)), w')" and "map score_Id results = [''b'']"
proof -
  obtain r w' where r: "recommend_job (\<lambda>i. '''') job_env job_pipeline job_user (False, Map.empty) = (r, w')" by (meson surj_pair)
  have eq: "map_sum (\<lambda>_. ()) cached_ids r = Inr (Some ([''b''], config_Hash (env_MD5 job_env) (env_Render job_env) example_config))"
    using job_run unfolding r by simp
  then obtain x where x: "r = Inr x" by (cases r) auto
  have "cached_ids x = Some ([''b''], config_Hash (env_MD5 job_env) (env_Render job_env) example_config)" using eq x by simp
  then obtain xs where "x = Cached xs (config_Hash (env_MD5 job_env) (env_Render job_env) example_config)" "map score_Id xs = [''b'']"
    by (cases x) (simp_all add: cached_ids_def)
  then show ?thesis by (intro that) (simp_all only: r x)
qed

theorem job_results_allowed_witness:
  "\<exists>results digest w'. recommend_job (\<lambda>i. '''') job_env job_pipeline job_user (False, Map.empty) = (Inr (Cached results digest), w') \<and>
     map score_Id results = [''b''] \<and> (\<forall>x \<in> set results. visible (snd w') (score_Id x) \<and> score_Id x \<noteq> ''a'')"
proof -
  obtain results w' where run: "recommend_job (\<lambda>i. '''') job_env job_pipeline job_user (False, Map.empty) =
      (Inr (Cached results (config_Hash (env_MD5 job_env) (env_Render job_env) example_config)), w')" and ids: "map score_Id results = [''b'']"
    by (rule job_run_ex)
  have law: "batch_law job_pipeline" by (auto simp: batch_law_def job_pipeline_def job_data_def example_item_def)
  have keyed: "cache_keyed (snd (False, Map.empty))" by (simp add: cache_keyed_def)
  have kind: "ranks_candidates job_pipeline" by (simp add: ranks_candidates_def job_pipeline_def example_config_def)
  obtain fs s s' where fs: "ddb_GetUserFeedback (pl_DataClient job_pipeline) s (user_UserId job_user) (Some (env_Now job_env)) [] = (Inr fs, s')"
    and all: "\<forall>x \<in> set results. visible (snd w') (score_Id x) \<and> (score_Id x \<in> ruled_out (pl_Config job_pipeline) False fs \<longrightarrow>
      replacement_on job_pipeline \<and> score_Id x \<in> replaced (pl_Config job_pipeline) fs)"
    using job_results_allowed [OF job_env_ok law keyed kind run] by blast
  have "fs = [example_feedback ''a'']" using fs by (simp add: job_pipeline_def job_data_def)
  then have "''a'' \<in> ruled_out (pl_Config job_pipeline) False fs"
    by (simp add: ruled_out_def example_feedback_def job_pipeline_def example_config_def)
  moreover have "\<not> replacement_on job_pipeline" by (simp add: replacement_on_def job_pipeline_def example_config_def)
  ultimately have "\<forall>x \<in> set results. visible (snd w') (score_Id x) \<and> score_Id x \<noteq> ''a''" using all by auto
  then show ?thesis using run ids by (intro exI conjI) assumption+
qed













end
