(* ===== verification/Vector_Writer.thy ===== *)
theory Vector_Writer
  imports Vectors
begin

text \<open>
  \<open>VectorWriter\<close> of \<open>logics/vector_writer.go\<close>: buffered vector writes with collection
  validation. The database is a \<open>vector_db\<close> record (or nil) over a state \<open>'s\<close>; every operation
  returns a panic or the returned error with the new writer and database state. The writer's
  mutex makes each operation atomic, so operations are functions of the state.
\<close>

definition defaultSimilarityVectorBatchSize :: int where
  "defaultSimilarityVectorBatchSize = 1024"

record 'w writer =
  w_collection :: string
  w_distance :: distance
  w_config :: vector_config
  w_timestamp :: time
  w_batchSize :: int
  w_sparse :: bool
  w_dimension :: "nat option"
  w_collectionExists :: bool
  w_buffer :: "'w vector list"

definition newSimilarityVectorWriter :: "string \<Rightarrow> distance \<Rightarrow> vector_config \<Rightarrow> time \<Rightarrow> int \<Rightarrow> bool \<Rightarrow> 'w writer" where
  "newSimilarityVectorWriter collection dist cfg timestamp batchSize sparse =
     \<lparr>w_collection = collection, w_distance = dist,
      w_config = (if sparse then \<lparr>vc_Type = '''', vc_Bits = 0\<rparr> else cfg),
      w_timestamp = timestamp,
      w_batchSize = (if batchSize \<le> 0 then defaultSimilarityVectorBatchSize else batchSize),
      w_sparse = sparse, w_dimension = (if sparse then Some 0 else None),
      w_collectionExists = False, w_buffer = []\<rparr>"

type_synonym ('s, 'w) outcome = "go_panic + (go_error option \<times> 'w writer \<times> 's)"

definition same_collection :: "'w writer \<Rightarrow> nat \<Rightarrow> collection_info \<Rightarrow> bool" where
  "same_collection w dimension info =
     (ci_Dimension info = dimension \<and> ci_Distance info = w_distance w \<and>
      vc_Type (ci_Config info) = vc_Type (w_config w) \<and> vc_Bits (ci_Config info) = vc_Bits (w_config w))"

definition create_collection :: "('s, 'w) vector_db \<Rightarrow> 'w writer \<Rightarrow> nat \<Rightarrow> 's \<Rightarrow> ('s, 'w) outcome" where
  "create_collection db w dimension s =
     (case vdb_AddCollection db s (w_collection w) dimension (w_distance w) (w_config w) of
        (Some e, s') \<Rightarrow> Inr (Some e, w, s')
      | (None, s') \<Rightarrow> Inr (None, w\<lparr>w_collectionExists := True\<rparr>, s'))"

definition ensureCollectionLocked :: "('s, 'w) vector_db option \<Rightarrow> 'w writer \<Rightarrow> 's \<Rightarrow> ('s, 'w) outcome" where
  "ensureCollectionLocked client w s =
     (if w_collectionExists w then Inr (None, w, s)
      else case client of
        None \<Rightarrow> Inr (Some (ErrWrap ''vector database'' ErrNoDatabase), w, s)
      | Some db \<Rightarrow>
         (let (r, s1) = vdb_DescribeCollection db s (w_collection w);
              info = (case r of Inl e \<Rightarrow> if errors_Is e ErrNotFound then Inr None else Inl e | Inr i \<Rightarrow> Inr i)
          in case info of
            Inl e \<Rightarrow> Inr (Some e, w, s1)
          | Inr info \<Rightarrow>
             (case w_dimension w of
                None \<Rightarrow> Inl NilDereference
              | Some dimension \<Rightarrow>
                 (case info of
                    Some i \<Rightarrow>
                      if same_collection w dimension i
                      then Inr (None, w\<lparr>w_collectionExists := True\<rparr>, s1)
                      else (case vdb_DeleteCollection db s1 (w_collection w) of
                          (Some e, s2) \<Rightarrow>
                            if errors_Is e ErrNotFound then create_collection db w dimension s2
                            else Inr (Some e, w, s2)
                        | (None, s2) \<Rightarrow> create_collection db w dimension s2)
                  | None \<Rightarrow> create_collection db w dimension s1))))"

text \<open>The dimension most of the buffered vectors have, the first such one on ties.\<close>

definition len_count :: "'w vector list \<Rightarrow> nat \<Rightarrow> nat" where
  "len_count vs d = length (filter (\<lambda>v. vec_Len v = d) vs)"

definition pick_dimension :: "'w vector list \<Rightarrow> nat" where
  "pick_dimension vs =
     foldl (\<lambda>d v. if len_count vs d < len_count vs (vec_Len v) then vec_Len v else d)
       (vec_Len (vs ! 0)) vs"

definition flush_dimension :: "'w writer \<Rightarrow> 'w writer" where
  "flush_dimension w =
     (if w_sparse w then w
      else let d = (case w_dimension w of None \<Rightarrow> pick_dimension (w_buffer w) | Some d \<Rightarrow> d)
           in w\<lparr>w_dimension := Some d, w_buffer := filter (\<lambda>v. vec_Len v = d) (w_buffer w)\<rparr>)"

definition flushLocked :: "('s, 'w) vector_db option \<Rightarrow> 'w writer \<Rightarrow> 's \<Rightarrow> ('s, 'w) outcome" where
  "flushLocked client w s =
     (if w_buffer w = [] then Inr (None, w, s)
      else let w1 = flush_dimension w
        in case ensureCollectionLocked client w1 s of
            Inl p \<Rightarrow> Inl p
          | Inr (Some e, w2, s2) \<Rightarrow> Inr (Some e, w2, s2)
          | Inr (None, w2, s2) \<Rightarrow>
             (case client of
                None \<Rightarrow> Inl NilDereference
              | Some db \<Rightarrow>
                 (case vdb_AddVectors db s2 (w_collection w2) (w_buffer w2) of
                    (Some e, s3) \<Rightarrow> Inr (Some e, w2, s3)
                  | (None, s3) \<Rightarrow> Inr (None, w2\<lparr>w_buffer := []\<rparr>, s3))))"

text \<open>Which vectors \<open>Add\<close> drops silently.\<close>

definition writer_rejects :: "'w writer \<Rightarrow> 'w vector \<Rightarrow> bool" where
  "writer_rejects w v =
     (if vec_HValues v \<noteq> [] then w_sparse w
      else if w_sparse w then vec_Indices v = [] \<or> length (vec_Indices v) \<noteq> length (vec_Values v)
      else vec_Indices v \<noteq> [] \<or> vec_Len v = 0)"

definition writer_Add :: "('s, 'w) vector_db option \<Rightarrow> 'w writer \<Rightarrow> 's \<Rightarrow> 'w vector \<Rightarrow> ('s, 'w) outcome" where
  "writer_Add client w s v =
     (if writer_rejects w v then Inr (None, w, s)
      else let w' = w\<lparr>w_buffer := w_buffer w @ [v]\<rparr>
        in if w_batchSize w' \<le> int (length (w_buffer w')) then flushLocked client w' s
           else Inr (None, w', s))"

definition writer_Clean :: "('s, 'w) vector_db option \<Rightarrow> 'w writer \<Rightarrow> 's \<Rightarrow> ('s, 'w) outcome" where
  "writer_Clean client w s =
     (case flushLocked client w s of
        Inl p \<Rightarrow> Inl p
      | Inr (Some e, w1, s1) \<Rightarrow> Inr (Some e, w1, s1)
      | Inr (None, w1, s1) \<Rightarrow>
         (case client of
            None \<Rightarrow> Inl NilDereference
          | Some db \<Rightarrow>
             (case vdb_DeleteVectors db s1 (w_collection w1) (w_timestamp w1) of
                (Some e, s2) \<Rightarrow> if errors_Is e ErrNotFound then Inr (None, w1, s2) else Inr (Some e, w1, s2)
              | (None, s2) \<Rightarrow>
                 (case vdb_Optimize db s2 (w_collection w1) of (r, s3) \<Rightarrow> Inr (r, w1, s3)))))"

lemma writer_rejects_upd [simp]:
  "writer_rejects (w\<lparr>w_collectionExists := b\<rparr>) v = writer_rejects w v"
  "writer_rejects (w\<lparr>w_buffer := vs\<rparr>) v = writer_rejects w v"
  by (simp_all add: writer_rejects_def)

subsection \<open>The dimension is a most frequent one\<close>

lemma pick_dimension_fold:
  fixes vs :: "'w vector list"
  defines "f \<equiv> \<lambda>d v. if len_count vs d < len_count vs (vec_Len v) then vec_Len v else d"
  shows "len_count vs d \<le> len_count vs (foldl f d ws) \<and>
    (\<forall>v\<in>set ws. len_count vs (vec_Len v) \<le> len_count vs (foldl f d ws)) \<and>
    (foldl f d ws = d \<or> foldl f d ws \<in> vec_Len ` set ws)"
proof (induction ws arbitrary: d)
  case Nil
  then show ?case by simp
next
  case (Cons w ws)
  have "len_count vs d \<le> len_count vs (f d w)" "len_count vs (vec_Len w) \<le> len_count vs (f d w)"
    "f d w = d \<or> f d w = vec_Len w" by (auto simp: f_def)
  then show ?case using Cons.IH [of "f d w"] by fastforce
qed

lemma pick_dimension_mode:
  assumes "vs \<noteq> []"
  shows "pick_dimension vs \<in> vec_Len ` set vs \<and>
    (\<forall>v\<in>set vs. len_count vs (vec_Len v) \<le> len_count vs (pick_dimension vs))"
proof -
  have "vec_Len (vs ! 0) \<in> vec_Len ` set vs" using assms by simp
  then show ?thesis
    using pick_dimension_fold [of vs "vec_Len (vs ! 0)" vs] unfolding pick_dimension_def by force
qed

subsection \<open>Invariant\<close>

definition writer_inv :: "'w writer \<Rightarrow> bool" where
  "writer_inv w \<longleftrightarrow> 0 < w_batchSize w \<and> (w_sparse w \<longrightarrow> w_dimension w \<noteq> None) \<and>
     (\<forall>v\<in>set (w_buffer w). \<not> writer_rejects w v)"

lemma writer_inv_new: "writer_inv (newSimilarityVectorWriter c d cfg t b sp)"
  by (simp add: writer_inv_def newSimilarityVectorWriter_def defaultSimilarityVectorBatchSize_def)

lemma flush_dimension_fields [simp]:
  "w_collection (flush_dimension w) = w_collection w" "w_sparse (flush_dimension w) = w_sparse w"
  "w_batchSize (flush_dimension w) = w_batchSize w" "w_timestamp (flush_dimension w) = w_timestamp w"
  "w_collectionExists (flush_dimension w) = w_collectionExists w"
  by (simp_all add: flush_dimension_def Let_def)

lemma flush_dimension_inv:
  "writer_inv w \<Longrightarrow> writer_inv (flush_dimension w) \<and> w_dimension (flush_dimension w) \<noteq> None"
  by (auto simp: writer_inv_def flush_dimension_def Let_def writer_rejects_def)

text \<open>What \<open>ensureCollectionLocked\<close> may change: only the flag, and it does not panic.\<close>

lemma create_collection_result:
  obtains r b s' where "create_collection db w d s = Inr (r, w\<lparr>w_collectionExists := b\<rparr>, s')"
proof -
  obtain r s' where "vdb_AddCollection db s (w_collection w) d (w_distance w) (w_config w) = (r, s')"
    by fastforce
  then show ?thesis
    using that [of _ "w_collectionExists w"] that [of _ True]
    by (cases r) (simp_all add: create_collection_def)
qed

lemma ensureCollectionLocked_result:
  assumes "w_dimension w \<noteq> None"
  obtains r b s' where "ensureCollectionLocked client w s = Inr (r, w\<lparr>w_collectionExists := b\<rparr>, s')"
proof -
  have *: "\<exists>r b s'. ensureCollectionLocked client w s = Inr (r, w\<lparr>w_collectionExists := b\<rparr>, s')"
  proof -
    have same: "\<exists>b. w = w\<lparr>w_collectionExists := b\<rparr>"
      by (rule exI [of _ "w_collectionExists w"]) simp
    have cr: "\<And>db w d s. \<exists>r b s'. create_collection db w d s = Inr (r, (w :: 'a writer)\<lparr>w_collectionExists := b\<rparr>, s')"
      using create_collection_result by metis
    show ?thesis
      using assms cr unfolding ensureCollectionLocked_def
      by (auto simp: Let_def intro!: same split: option.split sum.split prod.split)
  qed
  then show ?thesis using that by blast
qed

lemma flushLocked_cases:
  assumes inv: "writer_inv w" and ne: "w_buffer w \<noteq> []"
  obtains (collection_error) e w2 s2 b where "flushLocked client w s = Inr (Some e, w2, s2)"
      and "w2 = (flush_dimension w)\<lparr>w_collectionExists := b\<rparr>"
    | (write_error) db e w2 s2 s3 b where "flushLocked client w s = Inr (Some e, w2, s3)"
      and "client = Some db" and "w2 = (flush_dimension w)\<lparr>w_collectionExists := b\<rparr>"
      and "vdb_AddVectors db s2 (w_collection w) (w_buffer (flush_dimension w)) = (Some e, s3)"
    | (written) db w2 s2 s3 b where "flushLocked client w s = Inr (None, w2, s3)"
      and "client = Some db" and "w2 = (flush_dimension w)\<lparr>w_collectionExists := b, w_buffer := []\<rparr>"
      and "vdb_AddVectors db s2 (w_collection w) (w_buffer (flush_dimension w)) = (None, s3)"
    | (nil_client) "client = None" "w_collectionExists w" "flushLocked client w s = Inl NilDereference"
proof -
  have "w_dimension (flush_dimension w) \<noteq> None" using flush_dimension_inv [OF inv] by blast
  then obtain r b s2 where en: "ensureCollectionLocked client (flush_dimension w) s =
      Inr (r, (flush_dimension w)\<lparr>w_collectionExists := b\<rparr>, s2)"
    by (rule ensureCollectionLocked_result)
  show ?thesis
  proof (cases r)
    case (Some e)
    then show ?thesis using collection_error en ne by (simp add: flushLocked_def)
  next
    case None
    show ?thesis
    proof (cases client)
      case nil: None
      have "w_collectionExists w"
        using en nil None by (auto simp: ensureCollectionLocked_def split: if_splits)
      then show ?thesis using nil_client nil None en ne by (simp add: flushLocked_def)
    next
      case (Some db)
      let ?w = "(flush_dimension w)\<lparr>w_collectionExists := b\<rparr>"
      obtain r' s3 where add:
        "vdb_AddVectors db s2 (w_collection w) (w_buffer (flush_dimension w)) = (r', s3)" by fastforce
      have eq: "flushLocked client w s =
          Inr (case r' of None \<Rightarrow> (None, ?w\<lparr>w_buffer := []\<rparr>, s3) | Some e \<Rightarrow> (Some e, ?w, s3))"
        using add en ne None Some by (simp add: flushLocked_def split: option.split)
      show ?thesis
      proof (cases r')
        case nil: None
        from eq nil have "flushLocked client w s = Inr (None, ?w\<lparr>w_buffer := []\<rparr>, s3)" by simp
        from written [OF this Some] add nil show ?thesis by simp
      next
        case err: (Some e)
        from eq err have "flushLocked client w s = Inr (Some e, ?w, s3)" by simp
        from write_error [OF this Some refl] add err show ?thesis by simp
      qed
    qed
  qed
qed

subsection \<open>The calls of a flush\<close>

text \<open>
  A log of the writes that reach a database: \<open>AddVectors\<close> appends what it is called with, and the calls about collections write
  no vectors.  Any database has such a log, once its calls are recorded.
\<close>

definition writes_logged :: "('s, 'w) vector_db \<Rightarrow> ('s \<Rightarrow> (string \<times> 'w vector list) list) \<Rightarrow> bool" where
  "writes_logged db log \<longleftrightarrow>
     (\<forall>s c. log (snd (vdb_DescribeCollection db s c)) = log s) \<and>
     (\<forall>s c n d cfg. log (snd (vdb_AddCollection db s c n d cfg)) = log s) \<and>
     (\<forall>s c. log (snd (vdb_DeleteCollection db s c)) = log s) \<and>
     (\<forall>s c vs. log (snd (vdb_AddVectors db s c vs)) = log s @ [(c, vs)])"

definition kept_log :: "'l \<Rightarrow> 'r \<times> 's \<Rightarrow> 'r \<times> 's \<times> 'l" where
  "kept_log l rs = (fst rs, snd rs, l)"

definition recording :: "('s, 'w) vector_db \<Rightarrow> ('s \<times> (string \<times> 'w vector list) list, 'w) vector_db" where
  "recording db =
     \<lparr>vdb_Optimize = (\<lambda>(s, l) c. kept_log l (vdb_Optimize db s c)), vdb_ListCollections = (\<lambda>(s, l). kept_log l (vdb_ListCollections db s)),
      vdb_DescribeCollection = (\<lambda>(s, l) c. kept_log l (vdb_DescribeCollection db s c)),
      vdb_AddCollection = (\<lambda>(s, l) c n d cfg. kept_log l (vdb_AddCollection db s c n d cfg)),
      vdb_DeleteCollection = (\<lambda>(s, l) c. kept_log l (vdb_DeleteCollection db s c)),
      vdb_AddVectors = (\<lambda>(s, l) c vs. kept_log (l @ [(c, vs)]) (vdb_AddVectors db s c vs)),
      vdb_GetVectors = (\<lambda>(s, l) c ids. kept_log l (vdb_GetVectors db s c ids)),
      vdb_DeleteVectors = (\<lambda>(s, l) c t. kept_log l (vdb_DeleteVectors db s c t)),
      vdb_QueryVectors = (\<lambda>(s, l) c v cs n. kept_log l (vdb_QueryVectors db s c v cs n))\<rparr>"

lemma writes_logged_recording: "writes_logged (recording db) snd"
  by (simp add: writes_logged_def recording_def kept_log_def split: prod.splits)

lemma create_collection_log:
  assumes "writes_logged db log" and "create_collection db w d s = Inr (r, w', s')"
  shows "log s' = log s"
proof -
  have "log (snd (vdb_AddCollection db s (w_collection w) d (w_distance w) (w_config w))) = log s"
    using assms(1) by (simp add: writes_logged_def)
  then show ?thesis using assms(2) by (auto simp: create_collection_def split: prod.splits option.splits)
qed

lemma ensureCollectionLocked_log:
  assumes log: "writes_logged db log" and en: "ensureCollectionLocked (Some db) w s = Inr (r, w', s')"
  shows "log s' = log s"
proof -
  have calls: "\<And>s r s' c. vdb_DescribeCollection db s c = (r, s') \<Longrightarrow> log s' = log s"
    "\<And>s r s' c. vdb_DeleteCollection db s c = (r, s') \<Longrightarrow> log s' = log s"
    using log unfolding writes_logged_def by (metis snd_conv)+
  show ?thesis using en unfolding ensureCollectionLocked_def
    by (auto simp: Let_def dest!: calls create_collection_log [OF log] split: if_splits sum.splits prod.splits option.splits)
qed

text \<open>A flush writes at most once, and exactly once when it succeeds.\<close>

lemma flushLocked_log:
  assumes log: "writes_logged db log" and ne: "w_buffer w \<noteq> []" and inv: "writer_inv w"
    and fl: "flushLocked (Some db) w s = Inr (r, w', s')"
  shows "log s' = log s @ [(w_collection w, w_buffer (flush_dimension w))] \<or> r \<noteq> None \<and> log s' = log s"
proof -
  from flush_dimension_inv [OF inv] have "w_dimension (flush_dimension w) \<noteq> None" by blast
  then obtain r1 b s2 where en: "ensureCollectionLocked (Some db) (flush_dimension w) s =
      Inr (r1, (flush_dimension w)\<lparr>w_collectionExists := b\<rparr>, s2)"
    by (rule ensureCollectionLocked_result)
  have same: "log s2 = log s" by (rule ensureCollectionLocked_log [OF log en])
  have add: "vdb_AddVectors db s2 c vs = (r', s3) \<Longrightarrow> log s3 = log s2 @ [(c, vs)]" for c vs r' s3
    using log unfolding writes_logged_def by (metis snd_conv)
  from fl ne en same show ?thesis
    by (auto simp: flushLocked_def Let_def dest!: add split: option.splits prod.splits)
qed

text \<open>
  (C9) Flush: with a database, flushing a well-formed writer does not panic.  The vectors of another dimension than the writer's
  are dropped (none, for a sparse writer); a first flush chooses a dimension that no other occurs more often than.  If the flush
  reports success, all the other vectors of the buffer have been handed over, in their order and by exactly one call of
  \<open>AddVectors\<close> on the writer's collection, which succeeded, and the buffer is empty.  If it reports an error, they are still in
  the buffer for the next attempt, and at most that one call was made.
\<close>

theorem flush_writes_or_keeps:
  assumes "writer_inv w" and "w_buffer w \<noteq> []" and "client = Some db" and "writes_logged db log"
  shows "\<exists>r w' s'. flushLocked client w s = Inr (r, w', s') \<and> writer_inv w' \<and>
    (let d = the (w_dimension w');
         good = filter (\<lambda>v. w_sparse w \<or> vec_Len v = d) (w_buffer w)
     in (case r of
           None \<Rightarrow> w_buffer w' = [] \<and> (\<exists>s2. vdb_AddVectors db s2 (w_collection w) good = (None, s')) \<and>
             log s' = log s @ [(w_collection w, good)]
         | Some e \<Rightarrow> w_buffer w' = good \<and> (log s' = log s \<or> log s' = log s @ [(w_collection w, good)])) \<and>
        (w_sparse w \<or> (case w_dimension w of
           Some d0 \<Rightarrow> d = d0
         | None \<Rightarrow> \<forall>n. len_count (w_buffer w) n \<le> len_count (w_buffer w) d)))"
proof -
  let ?f = "flush_dimension w"
  let ?d = "the (w_dimension ?f)"
  let ?good = "filter (\<lambda>v. w_sparse w \<or> vec_Len v = ?d) (w_buffer w)"
  have buf: "w_buffer ?f = ?good"
    by (auto simp: flush_dimension_def Let_def split: option.splits)
  have mode: "len_count (w_buffer w) n \<le> len_count (w_buffer w) (pick_dimension (w_buffer w))" for n
  proof (cases "n \<in> vec_Len ` set (w_buffer w)")
    case True
    then show ?thesis using pick_dimension_mode [OF assms(2)] by auto
  next
    case False
    then have "len_count (w_buffer w) n = 0" by (auto simp: len_count_def filter_empty_conv)
    then show ?thesis by simp
  qed
  have dim: "w_sparse w \<or> (case w_dimension w of Some d0 \<Rightarrow> ?d = d0
      | None \<Rightarrow> \<forall>n. len_count (w_buffer w) n \<le> len_count (w_buffer w) ?d)"
    using mode by (auto simp: flush_dimension_def Let_def split: option.splits)
  have inv: "writer_inv ?f" using flush_dimension_inv [OF assms(1)] by blast
  then have inv1: "writer_inv (?f\<lparr>w_collectionExists := b\<rparr>)"
    and inv2: "writer_inv (?f\<lparr>w_collectionExists := b, w_buffer := []\<rparr>)" for b
    by (simp_all add: writer_inv_def)
  note log = flushLocked_log [OF assms(4,2,1), unfolded buf]
  from assms(1,2) show ?thesis
  proof (cases rule: flushLocked_cases [where client = client and s = s])
    case (collection_error e w2 s2 b)
    then have "flushLocked (Some db) w s = Inr (Some e, w2, s2)" using assms(3) by simp
    from log [OF this] show ?thesis using collection_error dim buf inv1 by (auto simp: Let_def split: option.splits)
  next
    case (write_error db' e w2 s2 s3 b)
    then have "flushLocked (Some db) w s = Inr (Some e, w2, s3)" using assms(3) by simp
    from log [OF this] show ?thesis using write_error dim buf inv1 by (auto simp: Let_def split: option.splits)
  next
    case (written db' w2 s2 s3 b)
    then have "flushLocked (Some db) w s = Inr (None, w2, s3)" using assms(3) by simp
    from log [OF this] show ?thesis using written dim buf inv2 assms(3) by (auto simp: Let_def split: option.splits)
  next
    case nil_client
    then show ?thesis using assms(3) by simp
  qed
qed

text \<open>A database over a list of writes, for the witnesses: every call succeeds.\<close>

definition logging_db :: "(('w vector list) list, 'w) vector_db" where
  "logging_db = \<lparr>vdb_Optimize = (\<lambda>s c. (None, s)), vdb_ListCollections = (\<lambda>s. (Inr [], s)),
     vdb_DescribeCollection = (\<lambda>s c. (Inl ErrNotFound, s)),
     vdb_AddCollection = (\<lambda>s c n d cfg. (None, s)), vdb_DeleteCollection = (\<lambda>s c. (None, s)),
     vdb_AddVectors = (\<lambda>s c vs. (None, s @ [vs])), vdb_GetVectors = (\<lambda>s c ids. (Inr [], s)),
     vdb_DeleteVectors = (\<lambda>s c t. (None, s)), vdb_QueryVectors = (\<lambda>s c v cs n. (Inr [], s))\<rparr>"

abbreviation dense :: "string \<Rightarrow> nat \<Rightarrow> int vector" where
  "dense i n \<equiv> zero_vector\<lparr>vec_Id := i, vec_Values := replicate n 1\<rparr>"

abbreviation writer_example :: "int writer" where
  "writer_example \<equiv>
     (newSimilarityVectorWriter ''c'' Euclidean \<lparr>vc_Type = '''', vc_Bits = 0\<rparr> 7 10 False)
       \<lparr>w_buffer := [dense ''a'' 3, dense ''b'' 2, dense ''c'' 2]\<rparr>"

lemma writer_example_inv: "writer_inv writer_example"
  by (simp add: writer_inv_def newSimilarityVectorWriter_def writer_rejects_def vec_Len_def zero_vector_def)

theorem flush_writes_or_keeps_witness:
  "writer_inv writer_example \<and>
   (\<exists>w' s'. flushLocked (Some (recording logging_db)) writer_example ([], []) = Inr (None, w', s') \<and> w_buffer w' = [] \<and>
      snd s' = [(''c'', [dense ''b'' 2, dense ''c'' 2])])"
proof -
  have ne: "w_buffer writer_example \<noteq> []" by simp
  obtain w' s' where fl: "flushLocked (Some (recording logging_db)) writer_example ([], []) = Inr (None, w', s')"
    and d: "w_dimension w' = Some 2"
    by (simp add: flushLocked_def flush_dimension_def ensureCollectionLocked_def create_collection_def recording_def kept_log_def
        logging_db_def newSimilarityVectorWriter_def pick_dimension_def len_count_def zero_vector_def vec_Len_def Let_def)
  from flush_writes_or_keeps [OF writer_example_inv ne refl writes_logged_recording [of logging_db], of "([], [])"] fl
  have "w_buffer w' = [] \<and> snd s' = [(w_collection writer_example, filter (\<lambda>v. w_sparse writer_example \<or> vec_Len v = 2) (w_buffer writer_example))]"
    by (auto simp: Let_def d)
  moreover have "w_collection writer_example = ''c''" "w_sparse writer_example = False" by (simp_all add: newSimilarityVectorWriter_def)
  ultimately show ?thesis using fl writer_example_inv by (simp add: vec_Len_def zero_vector_def)
qed

text \<open>For vectors of different dimensions that are not sparse, the order of the calls of \<open>Add\<close> decides which of them a flush keeps.\<close>

lemma order_decides_dimension:
  "flush_dimension (writer_example\<lparr>w_buffer := [dense ''a'' 2, dense ''b'' 3]\<rparr>) = writer_example\<lparr>w_dimension := Some 2, w_buffer := [dense ''a'' 2]\<rparr>"
  "flush_dimension (writer_example\<lparr>w_buffer := [dense ''b'' 3, dense ''a'' 2]\<rparr>) = writer_example\<lparr>w_dimension := Some 3, w_buffer := [dense ''b'' 3]\<rparr>"
  by (simp_all add: flush_dimension_def pick_dimension_def len_count_def newSimilarityVectorWriter_def zero_vector_def vec_Len_def)

text \<open>
  (C37) Buffer bound: as long as its calls succeed, a well-formed writer never holds as many
  vectors as its batch size, so \<open>Add\<close> flushes in time; a rejected vector changes nothing.
\<close>

theorem writer_Add_bounded:
  assumes "writer_inv w" and "int (length (w_buffer w)) < w_batchSize w"
    and "writer_Add client w s v = Inr (None, w', s')"
  shows "int (length (w_buffer w')) < w_batchSize w' \<and> writer_inv w' \<and>
    (if writer_rejects w v then w' = w \<and> s' = s
     else w_buffer w' = [] \<or> w_buffer w' = w_buffer w @ [v])"
proof (cases "writer_rejects w v")
  case True
  then show ?thesis using assms by (simp add: writer_Add_def)
next
  case False
  let ?w = "w\<lparr>w_buffer := w_buffer w @ [v]\<rparr>"
  have inv: "writer_inv ?w" using assms(1) False by (auto simp: writer_inv_def)
  show ?thesis
  proof (cases "w_batchSize w \<le> int (length (w_buffer ?w))")
    case small: False
    then show ?thesis using assms(3) False inv by (auto simp: writer_Add_def)
  next
    case True
    then have fl: "flushLocked client ?w s = Inr (None, w', s')"
      using assms(3) False by (simp add: writer_Add_def)
    from inv have finv: "writer_inv (flush_dimension ?w)" using flush_dimension_inv by blast
    have "w_buffer ?w \<noteq> []" by simp
    with inv show ?thesis
    proof (cases rule: flushLocked_cases [where client = client and s = s])
      case (written db w2 s2 s3 b)
      then have "w' = (flush_dimension ?w)\<lparr>w_collectionExists := b, w_buffer := []\<rparr>" using fl by simp
      then show ?thesis using False finv by (simp add: writer_inv_def)
    qed (use fl in auto)
  qed
qed

theorem writer_Add_bounded_witness:
  "writer_inv writer_example \<and>
   (\<exists>w'. writer_Add (Some logging_db) writer_example [] (dense ''d'' 2) = Inr (None, w', []) \<and>
      int (length (w_buffer w')) < w_batchSize w')"
proof -
  have small: "int (length (w_buffer writer_example)) < w_batchSize writer_example"
    by (simp add: newSimilarityVectorWriter_def)
  have add: "writer_Add (Some logging_db) writer_example [] (dense ''d'' 2) =
      Inr (None, writer_example\<lparr>w_buffer := w_buffer writer_example @ [dense ''d'' 2]\<rparr>, [])"
    by (simp add: writer_Add_def writer_rejects_def newSimilarityVectorWriter_def zero_vector_def vec_Len_def)
  from writer_Add_bounded [OF writer_example_inv small add] writer_example_inv add show ?thesis by blast
qed

end
