(* ===== verification/Sparse_Vector.thy ===== *)
theory Sparse_Vector
  imports Go_Heap Vectors
begin

text \<open>
  The sparse vectors of \<open>logics/vector_writer.go\<close>: the heap of the greatest entries
  (\<open>sparseVectorPruner\<close>) and the construction of tag and feedback vectors from ids and their
  inverse document frequencies. Values are of a linear order \<open>'w\<close> (\<open>float32\<close> without NaN);
  the conversion \<open>float32(math.Sqrt(float64(x)))\<close> is the parameter \<open>sqrt32\<close>.
\<close>

definition maxSparseVectorNNZ :: int where
  "maxSparseVectorNNZ = 1024"

record 'w sparse_entry =
  entry_index :: "32 word"
  entry_value :: 'w

record 'w pruner =
  entries :: "'w sparse_entry list"
  maxNNZ :: int

definition entry_less :: "('w::linorder) sparse_entry \<Rightarrow> 'w sparse_entry \<Rightarrow> bool" where
  "entry_less a b =
     (if entry_value a = entry_value b then entry_index b < entry_index a
      else entry_value a < entry_value b)"

interpretation sparse_order: heap_order "entry_less :: ('w::linorder) sparse_entry \<Rightarrow> _"
  by unfold_locales (auto simp: entry_less_def split: if_splits)

definition newSparseVectorPruner :: "int \<Rightarrow> 'w pruner" where
  "newSparseVectorPruner k = \<lparr>entries = [], maxNNZ = k\<rparr>"

definition pruner_Add :: "('w::linorder) pruner \<Rightarrow> 32 word \<Rightarrow> 'w \<Rightarrow> 'w pruner" where
  "pruner_Add p index value =
     (if maxNNZ p \<le> 0 then p
      else let entry = \<lparr>entry_index = index, entry_value = value\<rparr>
        in if int (length (entries p)) < maxNNZ p
           then p\<lparr>entries := heap_push entry_less (entries p) entry\<rparr>
           else let root = entries p ! 0
             in if entry_value root < entry_value entry \<or>
                   entry_value entry = entry_value root \<and> entry_index entry < entry_index root
                then p\<lparr>entries := heap_fix entry_less ((entries p)[0 := entry]) 0\<rparr>
                else p)"

definition pruner_Result :: "('w::linorder) pruner \<Rightarrow> 32 word list \<times> 'w list" where
  "pruner_Result p =
     (let es = sort_key entry_index (entries p)
      in (map entry_index es, map entry_value es))"

text \<open>
  The ids that contribute: in range of the frequencies and with a positive frequency, whose
  index (wrapped to \<open>uint32\<close>) has not been seen.
\<close>

fun sparse_candidates :: "('w::{linorder,zero} \<Rightarrow> 'w) \<Rightarrow> 'w list \<Rightarrow> 32 word \<Rightarrow> 32 word set \<Rightarrow>
    i32 list \<Rightarrow> 'w sparse_entry list" where
  "sparse_candidates sqrt32 idf offset seen [] = []"
| "sparse_candidates sqrt32 idf offset seen (i # ids) =
     (if sint i < 0 \<or> int (length idf) \<le> sint i \<or> idf ! unat i \<le> 0
      then sparse_candidates sqrt32 idf offset seen ids
      else let index = offset + i
        in if index \<in> seen then sparse_candidates sqrt32 idf offset seen ids
           else \<lparr>entry_index = index, entry_value = sqrt32 (idf ! unat i)\<rparr>
                # sparse_candidates sqrt32 idf offset (insert index seen) ids)"

definition pruner_add_all :: "('w::linorder) pruner \<Rightarrow> 'w sparse_entry list \<Rightarrow> 'w pruner" where
  "pruner_add_all p es = foldl (\<lambda>p e. pruner_Add p (entry_index e) (entry_value e)) p es"

text \<open>
  \<open>vector.Values[i]\<close> is read for every index, so a vector with fewer values than indices
  panics.
\<close>

definition appendSparseVector :: "('w::{linorder,zero} \<Rightarrow> 'w) \<Rightarrow> 'w vector \<Rightarrow> i32 list \<Rightarrow> 'w list \<Rightarrow>
    32 word \<Rightarrow> go_panic + 'w vector" where
  "appendSparseVector sqrt32 v ids idf offset =
     (if length (vec_Values v) < length (vec_Indices v) then Inl IndexOutOfRange
      else let old = map2 (\<lambda>i x. \<lparr>entry_index = i, entry_value = x\<rparr>) (vec_Indices v) (vec_Values v);
               new = sparse_candidates sqrt32 idf offset (set (vec_Indices v)) ids;
               p = pruner_add_all (newSparseVectorPruner maxSparseVectorNNZ) (old @ new);
               (indices, vals) = pruner_Result p
           in Inr (v\<lparr>vec_Indices := indices, vec_Values := vals\<rparr>))"

definition newSparseVector :: "('w::{linorder,zero} \<Rightarrow> 'w) \<Rightarrow> i32 list \<Rightarrow> 'w list \<Rightarrow> 32 word \<Rightarrow>
    go_panic + 'w vector" where
  "newSparseVector sqrt32 ids idf offset = appendSparseVector sqrt32 zero_vector ids idf offset"

subsection \<open>The pruner selects the greatest entries\<close>

definition pruner_offer :: "nat \<Rightarrow> ('w::linorder) sparse_entry list \<Rightarrow> 'w sparse_entry \<Rightarrow> 'w sparse_entry list" where
  "pruner_offer k es e = entries (pruner_Add \<lparr>entries = es, maxNNZ = int k\<rparr> (entry_index e) (entry_value e))"

lemma entry_collapse [simp]: "\<lparr>entry_index = entry_index e, entry_value = entry_value e\<rparr> = e"
  by (cases e) simp

lemma entry_better_iff:
  "(entry_value r < entry_value e \<or> entry_value e = entry_value r \<and> entry_index e < entry_index r)
   = entry_less r e"
  by (auto simp: entry_less_def)

lemma pruner_offer_eq:
  "pruner_offer k es e =
     (if k = 0 then es
      else if length es < k then heap_push entry_less es e
      else if entry_less (es ! 0) e then heap_fix entry_less (es[0 := e]) 0 else es)"
  by (simp add: pruner_offer_def pruner_Add_def Let_def entry_better_iff)

lemma pruner_offer_selects:
  assumes sel: "selects entry_less k xs h"
  shows "selects entry_less k (xs @ [x]) (pruner_offer k h x)"
proof -
  from sel obtain D where ok: "heap_ok entry_less h (length h)" and len: "length h = min k (length xs)"
    and D: "mset xs = mset h + D" and low: "\<forall>d\<in>#D. \<forall>y\<in>set h. \<not> entry_less y d"
    unfolding selects_def by blast
  consider (zero) "k = 0" | (room) "0 < k" "length h < k"
    | (better) "0 < k" "length h = k" "entry_less (h ! 0) x"
    | (worse) "0 < k" "length h = k" "\<not> entry_less (h ! 0) x"
    using len by linarith
  then show ?thesis
  proof cases
    case zero
    then show ?thesis using len by (simp add: pruner_offer_eq selects_def)
  next
    case room
    have m: "mset xs = mset h" using selects_full [OF sel room(2)] .
    have "heap_ok entry_less (heap_push entry_less h x) (length (heap_push entry_less h x))"
      using sparse_order.push_ok [OF ok] .
    then show ?thesis
      using room m mset_eq_length [OF m] by (simp add: pruner_offer_eq selects_def mset_heap_push)
  next
    case better
    let ?h = "heap_fix entry_less (h[0 := x]) 0"
    have ne: "h \<noteq> []" using better by auto
    have ok': "heap_ok entry_less ?h (length ?h)"
      using sparse_order.fix_root_ok [OF ok ne, of x] by simp
    have h: "mset h = add_mset (h ! 0) (mset (tl h))" using ne by (cases h) auto
    have h': "mset ?h = add_mset x (mset (tl h))"
      using ne by (cases h) (auto simp: mset_heap_fix_root)
    then have set': "set ?h = insert x (set (tl h))"
      by (metis set_mset_add_mset_insert set_mset_mset)
    have root: "\<not> entry_less y (h ! 0)" if "y \<in> set h" for y
      using that sparse_order.heap_ok_root [OF ok] by (auto simp: in_set_conv_nth)
    have "\<not> entry_less y d" if d: "d \<in># add_mset (h ! 0) D" and y: "y \<in> set ?h" for y d
    proof -
      have "y = x \<or> y \<in> set h" using y set' ne by (cases h) auto
      then have "\<not> entry_less y (h ! 0)" using root sparse_order.asym [OF better(3)] by blast
      moreover have "h ! 0 \<in> set h" using ne by simp
      then have "\<not> entry_less (h ! 0) d" using d low sparse_order.irrefl by auto
      ultimately show ?thesis by (rule sparse_order.neg_trans)
    qed
    moreover have "mset (xs @ [x]) = mset ?h + add_mset (h ! 0) D" using D h h' by simp
    moreover have "length ?h = min k (length (xs @ [x]))" using better len by simp
    ultimately show ?thesis
      using ok' better unfolding selects_def by (auto simp: pruner_offer_eq)
  next
    case worse
    have "\<not> entry_less y x" if "y \<in> set h" for y
    proof -
      have "\<not> entry_less y (h ! 0)"
        using that sparse_order.heap_ok_root [OF ok] by (auto simp: in_set_conv_nth)
      then show ?thesis using worse(3) by (rule sparse_order.neg_trans)
    qed
    then have "\<forall>d\<in>#add_mset x D. \<forall>y\<in>set h. \<not> entry_less y d" using low by auto
    moreover have "mset (xs @ [x]) = mset h + add_mset x D" using D by simp
    moreover have "length h = min k (length (xs @ [x]))" using worse len by simp
    ultimately show ?thesis
      using ok worse unfolding selects_def by (auto simp: pruner_offer_eq)
  qed
qed

interpretation pruning: top_k_selector "entry_less :: ('w::linorder) sparse_entry \<Rightarrow> _" k "pruner_offer k" for k
  by unfold_locales (rule pruner_offer_selects)

lemma pruner_add_all_eq:
  "pruner_add_all \<lparr>entries = h, maxNNZ = int k\<rparr> es = \<lparr>entries = foldl (pruner_offer k) h es, maxNNZ = int k\<rparr>"
proof (induction es arbitrary: h)
  case Nil
  then show ?case by (simp add: pruner_add_all_def)
next
  case (Cons e es)
  have "pruner_Add \<lparr>entries = h, maxNNZ = int k\<rparr> (entry_index e) (entry_value e) =
      \<lparr>entries = pruner_offer k h e, maxNNZ = int k\<rparr>"
    by (simp add: pruner_offer_def pruner_Add_def Let_def)
  then show ?case using Cons by (simp add: pruner_add_all_def)
qed

subsection \<open>Candidates\<close>

abbreviation idf_positive :: "('w::{linorder,zero}) list \<Rightarrow> i32 \<Rightarrow> bool" where
  "idf_positive idf i \<equiv> 0 \<le> sint i \<and> sint i < int (length idf) \<and> 0 < idf ! unat i"

lemma sparse_candidates_set:
  "set (sparse_candidates sqrt32 idf offset seen ids) =
     (\<lambda>i. \<lparr>entry_index = offset + i, entry_value = sqrt32 (idf ! unat i)\<rparr>) `
       {i \<in> set ids. idf_positive idf i \<and> offset + i \<notin> seen}"
  by (induction ids arbitrary: seen) (auto simp: Let_def not_le not_less image_iff)

lemma sparse_candidates_distinct:
  "distinct (map entry_index (sparse_candidates sqrt32 idf offset seen ids))"
proof (induction ids arbitrary: seen)
  case Nil
  then show ?case by simp
next
  case (Cons i ids)
  have "offset + i \<notin> entry_index ` set (sparse_candidates sqrt32 idf offset (insert (offset + i) seen) ids)"
    by (auto simp: sparse_candidates_set)
  then show ?case using Cons by (simp add: Let_def)
qed

text \<open>The pairs offered to the pruner, and the pairs of a vector.\<close>

abbreviation entry_pair :: "'w sparse_entry \<Rightarrow> 32 word \<times> 'w" where
  "entry_pair e \<equiv> (entry_index e, entry_value e)"

abbreviation vec_pairs :: "('w, 'z) vector_scheme \<Rightarrow> (32 word \<times> 'w) list" where
  "vec_pairs v \<equiv> zip (vec_Indices v) (vec_Values v)"

definition new_pairs :: "('w::{linorder,zero} \<Rightarrow> 'w) \<Rightarrow> ('w, 'z) vector_scheme \<Rightarrow> i32 list \<Rightarrow> 'w list \<Rightarrow>
    32 word \<Rightarrow> (32 word \<times> 'w) set" where
  "new_pairs sqrt32 v ids idf offset =
     (\<lambda>i. (offset + i, sqrt32 (idf ! unat i))) `
       {i \<in> set ids. idf_positive idf i \<and> offset + i \<notin> set (vec_Indices v)}"

lemma zip_entry_pairs: "zip (map entry_index es) (map entry_value es) = map entry_pair es"
  by (induction es) auto

lemma sorted_index_strict:
  "distinct (map entry_index es) \<Longrightarrow> sorted_wrt (<) (map entry_index (sort_key entry_index es))"
  by (simp add: strict_sorted_iff distinct_map)

lemma entry_of_pair: "entry_pair e = entry_pair f \<Longrightarrow> e = f"
  by (cases e, cases f) simp

lemma pruned_list:
  fixes k :: nat and es :: "('w::linorder) sparse_entry list"
  assumes d: "distinct (map entry_index es)"
  defines "p \<equiv> pruner_add_all (newSparseVectorPruner (int k)) es"
  defines "idx \<equiv> fst (pruner_Result p)" and "vals \<equiv> snd (pruner_Result p)"
  shows "sorted_wrt (<) idx \<and> length vals = length idx \<and> length idx = min k (length es) \<and>
    set (zip idx vals) \<subseteq> entry_pair ` set es \<and>
    (\<forall>a \<in> entry_pair ` set es. a \<notin> set (zip idx vals) \<longrightarrow>
       (\<forall>b \<in> set (zip idx vals). snd a < snd b \<or> snd a = snd b \<and> fst b < fst a))"
proof -
  let ?h = "foldl (pruner_offer k) [] es"
  have p: "p = \<lparr>entries = ?h, maxNNZ = int k\<rparr>"
    unfolding p_def newSparseVectorPruner_def by (rule pruner_add_all_eq)
  have "selects entry_less k es ?h" by (rule pruning.selects_all)
  then obtain D where len: "length ?h = min k (length es)" and D: "mset es = mset ?h + D"
    and low: "\<forall>d\<in>#D. \<forall>y\<in>set ?h. \<not> entry_less y d"
    unfolding selects_def by blast
  have sub: "set ?h \<subseteq> set es" using D by (metis set_mset_mset set_mset_union sup_ge1)
  have zs: "set (zip idx vals) = entry_pair ` set ?h"
    by (simp add: idx_def vals_def p pruner_Result_def Let_def zip_entry_pairs)
  have "mset (map entry_index es) = mset (map entry_index ?h) + image_mset entry_index D"
    by (simp add: D)
  then have dh: "distinct (map entry_index ?h)"
    using d by (metis distinct_append ex_mset mset_append mset_eq_imp_distinct_iff)
  have "sorted_wrt (<) idx"
    using sorted_index_strict [OF dh] by (simp add: idx_def p pruner_Result_def Let_def)
  moreover have "length vals = length idx" "length idx = min k (length es)"
    using len by (simp_all add: idx_def vals_def p pruner_Result_def Let_def)
  moreover have "set (zip idx vals) \<subseteq> entry_pair ` set es" using zs sub by blast
  moreover have "snd a < snd b \<or> snd a = snd b \<and> fst b < fst a"
    if a: "a \<in> entry_pair ` set es" "a \<notin> set (zip idx vals)" and b: "b \<in> set (zip idx vals)" for a b
  proof -
    obtain e where e: "a = entry_pair e" "e \<in> set es" using a(1) by blast
    obtain f where f: "b = entry_pair f" "f \<in> set ?h" using b zs by blast
    have "e \<notin> set ?h" using a(2) zs e by blast
    moreover have "set es = set ?h \<union> set_mset D" using D by (metis set_mset_mset set_mset_union)
    ultimately have "e \<in># D" using e by blast
    then have nl: "\<not> entry_less f e" using low f by blast
    have "entry_index e \<noteq> entry_index f"
      using d e(2) f(2) sub \<open>e \<notin> set ?h\<close> by (auto simp: distinct_map inj_on_def)
    with nl show ?thesis using e f by (auto simp: entry_less_def split: if_splits)
  qed
  ultimately show ?thesis by blast
qed

lemma entry_pairs_card:
  assumes "distinct (map entry_index es)"
  shows "length es = card (entry_pair ` set es)"
proof -
  have "distinct (map entry_pair es)" using assms by (induction es) auto
  then show ?thesis by (metis distinct_card length_map set_map)
qed

text \<open>
  (C40) Sparse vectors: appending ids to a vector with distinct indices never panics and changes only its entries.  The candidates are
  the old entries, whatever the sign of their values, and for every id in range with a positive frequency whose index is not in
  the vector yet, the entry of its index and the converted frequency.  The result keeps exactly 1024 of them, or all when there are
  fewer; its indices increase strictly; and a candidate is left out only when every kept entry has a greater (signed) value, or
  the same value and a smaller index.
\<close>

theorem appendSparseVector_greatest:
  assumes "distinct (vec_Indices v)" and "length (vec_Indices v) = length (vec_Values v)"
  shows "\<exists>v'. appendSparseVector sqrt32 v ids idf offset = Inr v' \<and>
    v' = v\<lparr>vec_Indices := vec_Indices v', vec_Values := vec_Values v'\<rparr> \<and>
    sorted_wrt (<) (vec_Indices v') \<and> length (vec_Values v') = length (vec_Indices v') \<and>
    length (vec_Indices v') = min 1024 (card (set (vec_pairs v) \<union> new_pairs sqrt32 v ids idf offset)) \<and>
    set (vec_pairs v') \<subseteq> set (vec_pairs v) \<union> new_pairs sqrt32 v ids idf offset \<and>
    (\<forall>a \<in> set (vec_pairs v) \<union> new_pairs sqrt32 v ids idf offset. a \<notin> set (vec_pairs v') \<longrightarrow>
       (\<forall>b \<in> set (vec_pairs v'). snd a < snd b \<or> snd a = snd b \<and> fst b < fst a))"
proof -
  let ?old = "map2 (\<lambda>i x. \<lparr>entry_index = i, entry_value = x\<rparr>) (vec_Indices v) (vec_Values v)"
  let ?new = "sparse_candidates sqrt32 idf offset (set (vec_Indices v)) ids"
  have old: "map entry_index ?old = vec_Indices v" "entry_pair ` set ?old = set (vec_pairs v)"
    using assms(2) by (auto simp: o_def split_beta image_image intro: nth_equalityI)
  have "entry_index ` set ?new \<inter> set (vec_Indices v) = {}" by (auto simp: sparse_candidates_set)
  then have d: "distinct (map entry_index (?old @ ?new))"
    using old(1) assms(1) sparse_candidates_distinct by (auto simp: Int_commute)
  have all: "entry_pair ` set (?old @ ?new) = set (vec_pairs v) \<union> new_pairs sqrt32 v ids idf offset"
    using old(2) by (simp only: set_append image_Un) (simp add: sparse_candidates_set new_pairs_def image_image)
  let ?p = "pruner_add_all (newSparseVectorPruner (int 1024)) (?old @ ?new)"
  obtain idx vals where pr: "pruner_Result ?p = (idx, vals)" by fastforce
  have app: "appendSparseVector sqrt32 v ids idf offset = Inr (v\<lparr>vec_Indices := idx, vec_Values := vals\<rparr>)"
    using assms(2) pr by (simp add: appendSparseVector_def maxSparseVectorNNZ_def Let_def)
  note kept = pruned_list [OF d, of 1024, unfolded all pr fst_conv snd_conv]
  let ?v = "v\<lparr>vec_Indices := idx, vec_Values := vals\<rparr>"
  have "vec_Indices ?v = idx" "vec_Values ?v = vals" by simp_all
  moreover have "length idx = min 1024 (card (set (vec_pairs v) \<union> new_pairs sqrt32 v ids idf offset))"
    using kept entry_pairs_card [OF d] unfolding all by simp
  moreover have "?v = ?v\<lparr>vec_Indices := idx, vec_Values := vals\<rparr>" by simp
  ultimately show ?thesis using kept app by (intro exI [of _ ?v]) (simp only:, blast)
qed

theorem appendSparseVector_greatest_witness:
  "\<exists>v'. appendSparseVector (\<lambda>x. x) (zero_vector\<lparr>vec_Indices := [11, 2], vec_Values := [- 1, 0]\<rparr> :: int vector) [1, 0, 1, 5] [3, 4] 10 = Inr v' \<and>
     length (vec_Indices v') = 3 \<and> set (vec_pairs v') = {(11, - 1), (2, 0), (10, 3)}"
proof -
  let ?v = "zero_vector\<lparr>vec_Indices := [11, 2], vec_Values := [- 1, 0]\<rparr> :: int vector"
  have h: "distinct (vec_Indices ?v)" "length (vec_Indices ?v) = length (vec_Values ?v)" by simp_all
  have new: "set (vec_pairs ?v) \<union> new_pairs (\<lambda>x. x) ?v [1, 0, 1, 5] [3, 4] 10 = {(11, - 1), (2, 0), (10, 3)}"
    by (auto simp: new_pairs_def)
  from appendSparseVector_greatest [OF h, of "\<lambda>x. x" "[1, 0, 1, 5]" "[3, 4]" 10, unfolded new]
  obtain v' where v': "appendSparseVector (\<lambda>x. x) ?v [1, 0, 1, 5] [3, 4] 10 = Inr v'"
    and len: "length (vec_Indices v') = min 1024 (card {(11 :: 32 word, - 1 :: int), (2, 0), (10, 3)})"
    and idx: "sorted_wrt (<) (vec_Indices v')" and vals: "length (vec_Values v') = length (vec_Indices v')"
    and sub: "set (vec_pairs v') \<subseteq> {(11, - 1), (2, 0), (10, 3)}"
    by blast
  have len3: "length (vec_Indices v') = 3" using len by simp
  have "distinct (vec_pairs v')" using idx vals by (simp add: strict_sorted_iff distinct_zipI1)
  then have "card (set (vec_pairs v')) = 3" using len3 vals by (simp add: distinct_card)
  then have "set (vec_pairs v') = {(11, - 1), (2, 0), (10, 3)}" using sub by (intro card_seteq) simp_all
  then show ?thesis using v' len3 by blast
qed

end
