(* ===== verification/Id_Index.thy ===== *)
theory Id_Index
  imports Prelude
begin

text \<open>
  The id indices of \<open>dataset\<close>: \<open>Index\<close> (\<open>index.go\<close>), \<open>FreqDict\<close> (\<open>dict.go\<close>) and the unified
  index of factorization machines (\<open>unified_index.go\<close>). Dense indices are \<open>int32\<close>, so they
  are words and the size bound \<open>2 ^ 31\<close> of the correctness results is explicit. The locale
  \<open>id_index\<close> is the contract both dictionaries meet and the unified index relies on.
\<close>

subsection \<open>The contract of an index\<close>

text \<open>
  \<open>names\<close> lists the registered ids, \<open>add\<close> registers one and \<open>number\<close> looks one up.
\<close>

locale id_index =
  fixes names :: "'t \<Rightarrow> string list" and add :: "'t \<Rightarrow> string \<Rightarrow> 't" and number :: "'t \<Rightarrow> string \<Rightarrow> i32"
    and inv :: "'t \<Rightarrow> bool"
  assumes names_distinct: "inv t \<Longrightarrow> distinct (names t)"
    and number_in: "inv t \<Longrightarrow> k < length (names t) \<Longrightarrow> number t (names t ! k) = of_nat k"
    and number_out: "inv t \<Longrightarrow> s \<notin> set (names t) \<Longrightarrow> number t s = -1"
    and inv_add: "inv t \<Longrightarrow> inv (add t s)"
    and names_add: "inv t \<Longrightarrow> names (add t s) = (if s \<in> set (names t) then names t else names t @ [s])"
begin

lemma inv_add_all: "inv t \<Longrightarrow> inv (foldl add t ss)"
  by (induction ss arbitrary: t) (auto intro: inv_add)

lemma set_names_add_all: "inv t \<Longrightarrow> set (names (foldl add t ss)) = set (names t) \<union> set ss"
  by (induction ss arbitrary: t) (auto simp: names_add inv_add)

text \<open>Numbers of registered ids never change when ids are added.\<close>

lemma number_stable:
  assumes "inv t" and "s \<in> set (names t)"
  shows "number (add t x) s = number t s"
proof -
  obtain k where k: "k < length (names t)" "s = names t ! k"
    using assms(2) by (metis in_set_conv_nth)
  have "names (add t x) ! k = s" "k < length (names (add t x))"
    using k names_add [OF assms(1), of x] by (auto simp: nth_append)
  then show ?thesis using number_in [OF inv_add [OF assms(1)]] number_in [OF assms(1)] k by metis
qed

lemma number_stable_all:
  "inv t \<Longrightarrow> s \<in> set (names t) \<Longrightarrow> number (foldl add t ss) s = number t s"
proof (induction ss arbitrary: t)
  case Nil
  then show ?case by simp
next
  case (Cons x ss)
  have "s \<in> set (names (add t x))" using Cons.prems by (simp add: names_add)
  then show ?case using Cons number_stable inv_add by simp
qed

lemma number_bounds:
  assumes "inv t" and "s \<in> set (names t)" and "length (names t) < 2147483648"
  shows "0 \<le> sint (number t s) \<and> sint (number t s) < int (length (names t)) \<and>
    names t ! nat (sint (number t s)) = s"
proof -
  obtain k where k: "k < length (names t)" "s = names t ! k"
    using assms(2) by (metis in_set_conv_nth)
  have "sint (of_nat k :: i32) = int k"
    using k assms(3) by simp
  then show ?thesis using number_in [OF assms(1) k(1)] k by simp
qed

lemma number_neq_NotId:
  assumes "inv t" and "s \<in> set (names t)" and "length (names t) < 2147483648"
  shows "number t s \<noteq> -1"
proof
  assume "number t s = -1"
  then show False using number_bounds [OF assms] by simp
qed

end

subsection \<open>\<open>Index\<close> (\<open>dataset/index.go\<close>)\<close>

record index =
  Numbers :: "string \<rightharpoonup> i32"
  Names :: "string list"

definition NotId :: i32 where
  "NotId = -1"

definition NewMapIndex :: index where
  "NewMapIndex = \<lparr>Numbers = Map.empty, Names = []\<rparr>"

text \<open>\<open>Len\<close> is defined on a nil pointer too.\<close>

definition idx_Len :: "index option \<Rightarrow> i32" where
  "idx_Len idx = (case idx of None \<Rightarrow> 0 | Some ix \<Rightarrow> of_nat (length (Names ix)))"

definition idx_Add :: "index \<Rightarrow> string \<Rightarrow> index" where
  "idx_Add ix name =
     (case Numbers ix name of
        Some _ \<Rightarrow> ix
      | None \<Rightarrow> ix\<lparr>Numbers := (Numbers ix)(name \<mapsto> of_nat (length (Names ix))), Names := Names ix @ [name]\<rparr>)"

definition idx_ToNumber :: "index \<Rightarrow> string \<Rightarrow> i32" where
  "idx_ToNumber ix name = (case Numbers ix name of Some k \<Rightarrow> k | None \<Rightarrow> NotId)"

definition idx_ToName :: "index \<Rightarrow> i32 \<Rightarrow> go_panic + string" where
  "idx_ToName ix k = index_i32 (Names ix) k"

definition idx_GetNames :: "index \<Rightarrow> string list" where
  "idx_GetNames ix = Names ix"

text \<open>The map and the list describe one numbering.\<close>

definition numbering :: "(string \<rightharpoonup> i32) \<Rightarrow> string list \<Rightarrow> bool" where
  "numbering num ns \<longleftrightarrow> distinct ns \<and> dom num = set ns \<and>
     (\<forall>k<length ns. num (ns ! k) = Some (of_nat k))"

abbreviation index_ok :: "index \<Rightarrow> bool" where
  "index_ok ix \<equiv> numbering (Numbers ix) (Names ix)"

lemma numbering_empty [simp]: "numbering Map.empty []"
  by (simp add: numbering_def)

lemma numbering_None: "numbering num ns \<Longrightarrow> num s = None \<longleftrightarrow> s \<notin> set ns"
  unfolding numbering_def by (metis domIff)

lemma numbering_extend:
  assumes "numbering num ns" and "num s = None"
  shows "numbering (num(s \<mapsto> of_nat (length ns))) (ns @ [s])"
proof -
  have s: "s \<notin> set ns" using assms numbering_None by blast
  have "(num(s \<mapsto> of_nat (length ns))) ((ns @ [s]) ! k) = Some (of_nat k)" if k: "k < length (ns @ [s])" for k
  proof (cases "k < length ns")
    case True
    then have "ns ! k \<noteq> s" using s by (metis nth_mem)
    then show ?thesis using True assms(1) by (simp add: nth_append numbering_def)
  next
    case False
    then show ?thesis using k by (simp add: nth_append less_Suc_eq)
  qed
  then show ?thesis using assms(1) s unfolding numbering_def by auto
qed

lemma numbering_Some: "numbering num ns \<Longrightarrow> num s = Some y \<Longrightarrow> \<exists>k<length ns. ns ! k = s \<and> y = of_nat k"
  unfolding numbering_def by (metis domI in_set_conv_nth option.inject)

lemma index_ok_New [simp]: "index_ok NewMapIndex"
  by (simp add: NewMapIndex_def)

lemma index_ok_Add [simp]: "index_ok ix \<Longrightarrow> index_ok (idx_Add ix s)"
  by (auto simp: idx_Add_def numbering_extend split: option.splits)

lemma Names_Add: "index_ok ix \<Longrightarrow> Names (idx_Add ix s) = (if s \<in> set (Names ix) then Names ix else Names ix @ [s])"
  using numbering_None [of "Numbers ix" "Names ix" s] by (auto simp: idx_Add_def split: option.splits)

interpretation index: id_index Names idx_Add idx_ToNumber index_ok
proof
  fix t :: index and k s
  show "index_ok t \<Longrightarrow> distinct (Names t)" by (simp add: numbering_def)
  show "index_ok t \<Longrightarrow> k < length (Names t) \<Longrightarrow> idx_ToNumber t (Names t ! k) = of_nat k"
    by (simp add: numbering_def idx_ToNumber_def)
  show "index_ok t \<Longrightarrow> s \<notin> set (Names t) \<Longrightarrow> idx_ToNumber t s = - 1"
    using numbering_None [of "Numbers t" "Names t" s] by (simp add: idx_ToNumber_def NotId_def)
  show "index_ok t \<Longrightarrow> index_ok (idx_Add t s)" by (rule index_ok_Add)
qed (rule Names_Add)

subsection \<open>\<open>FreqDict\<close> (\<open>dataset/dict.go\<close>)\<close>

record freq_dict =
  fd_si :: "string \<rightharpoonup> i32"
  fd_is :: "string list"
  fd_cnt :: "i32 list"

definition NewFreqDict :: freq_dict where
  "NewFreqDict = \<lparr>fd_si = Map.empty, fd_is = [], fd_cnt = []\<rparr>"

definition fd_Count :: "freq_dict \<Rightarrow> i32" where
  "fd_Count d = of_nat (length (fd_is d))"

definition fd_append :: "freq_dict \<Rightarrow> string \<Rightarrow> i32 \<Rightarrow> freq_dict \<times> i32" where
  "fd_append d s c =
     (let y = of_nat (length (fd_is d))
      in (\<lparr>fd_si = (fd_si d)(s \<mapsto> y), fd_is = fd_is d @ [s], fd_cnt = fd_cnt d @ [c]\<rparr>, y))"

definition fd_Add :: "freq_dict \<Rightarrow> string \<Rightarrow> go_panic + freq_dict \<times> i32" where
  "fd_Add d s =
     (case fd_si d s of
        Some y \<Rightarrow>
          (case index_i32 (fd_cnt d) y of
             Inl p \<Rightarrow> Inl p
           | Inr c \<Rightarrow> Inr (d\<lparr>fd_cnt := (fd_cnt d)[nat (sint y) := c + 1]\<rparr>, y))
      | None \<Rightarrow> Inr (fd_append d s 1))"

definition fd_AddNoCount :: "freq_dict \<Rightarrow> string \<Rightarrow> freq_dict \<times> i32" where
  "fd_AddNoCount d s = (case fd_si d s of Some y \<Rightarrow> (d, y) | None \<Rightarrow> fd_append d s 0)"

definition fd_Id :: "freq_dict \<Rightarrow> string \<Rightarrow> i32" where
  "fd_Id d s = (case fd_si d s of Some y \<Rightarrow> y | None \<Rightarrow> -1)"

text \<open>Only the upper bound is checked before the slice is read.\<close>

definition fd_String :: "freq_dict \<Rightarrow> i32 \<Rightarrow> go_panic + string option" where
  "fd_String d k =
     (if sint k \<ge> sint (of_nat (length (fd_is d)) :: i32) then Inr None
      else case index_i32 (fd_is d) k of Inl p \<Rightarrow> Inl p | Inr s \<Rightarrow> Inr (Some s))"

definition fd_Freq :: "freq_dict \<Rightarrow> i32 \<Rightarrow> go_panic + i32" where
  "fd_Freq d k =
     (if sint k \<ge> sint (of_nat (length (fd_cnt d)) :: i32) then Inr 0 else index_i32 (fd_cnt d) k)"

definition fd_ToIndex :: "freq_dict \<Rightarrow> index" where
  "fd_ToIndex d = \<lparr>Numbers = fd_si d, Names = fd_is d\<rparr>"

definition freq_dict_ok :: "freq_dict \<Rightarrow> bool" where
  "freq_dict_ok d \<longleftrightarrow> numbering (fd_si d) (fd_is d) \<and> length (fd_cnt d) = length (fd_is d)"

lemma freq_dict_ok_New [simp]: "freq_dict_ok NewFreqDict"
  by (simp add: freq_dict_ok_def NewFreqDict_def)

lemma freq_dict_ok_append: "freq_dict_ok d \<Longrightarrow> fd_si d s = None \<Longrightarrow> freq_dict_ok (fst (fd_append d s c))"
  by (simp add: freq_dict_ok_def fd_append_def numbering_extend Let_def del: of_nat_add)

lemma freq_dict_ok_AddNoCount: "freq_dict_ok d \<Longrightarrow> freq_dict_ok (fst (fd_AddNoCount d s))"
  by (auto simp: fd_AddNoCount_def freq_dict_ok_append split: option.splits)

lemma fd_is_AddNoCount:
  "freq_dict_ok d \<Longrightarrow> fd_is (fst (fd_AddNoCount d s)) = (if s \<in> set (fd_is d) then fd_is d else fd_is d @ [s])"
  using numbering_None [of "fd_si d" "fd_is d" s]
  by (auto simp: fd_AddNoCount_def freq_dict_ok_def fd_append_def Let_def split: option.splits)

interpretation freq_dict: id_index fd_is "\<lambda>d s. fst (fd_AddNoCount d s)" fd_Id freq_dict_ok
proof
  fix t k s
  show "freq_dict_ok t \<Longrightarrow> distinct (fd_is t)" by (simp add: freq_dict_ok_def numbering_def)
  show "freq_dict_ok t \<Longrightarrow> k < length (fd_is t) \<Longrightarrow> fd_Id t (fd_is t ! k) = of_nat k"
    by (simp add: freq_dict_ok_def numbering_def fd_Id_def)
  show "freq_dict_ok t \<Longrightarrow> s \<notin> set (fd_is t) \<Longrightarrow> fd_Id t s = - 1"
    using numbering_None [of "fd_si t" "fd_is t" s] by (simp add: freq_dict_ok_def fd_Id_def)
qed (simp_all add: freq_dict_ok_AddNoCount fd_is_AddNoCount)

lemma fd_ToIndex_ok: "freq_dict_ok d \<Longrightarrow> index_ok (fd_ToIndex d) \<and> idx_ToNumber (fd_ToIndex d) s = fd_Id d s"
  by (simp add: freq_dict_ok_def fd_ToIndex_def idx_ToNumber_def fd_Id_def NotId_def split: option.split)

text \<open>A dictionary is filled by counted and uncounted additions.\<close>

datatype fd_op = CountedAdd string | PlainAdd string

fun fd_op_name :: "fd_op \<Rightarrow> string" where
  "fd_op_name (CountedAdd s) = s"
| "fd_op_name (PlainAdd s) = s"

fun fd_step :: "freq_dict \<Rightarrow> fd_op \<Rightarrow> go_panic + freq_dict" where
  "fd_step d (CountedAdd s) = (case fd_Add d s of Inl p \<Rightarrow> Inl p | Inr (d', y) \<Rightarrow> Inr d')"
| "fd_step d (PlainAdd s) = Inr (fst (fd_AddNoCount d s))"

fun fd_run :: "freq_dict \<Rightarrow> fd_op list \<Rightarrow> go_panic + freq_dict" where
  "fd_run d [] = Inr d"
| "fd_run d (x # xs) = (case fd_step d x of Inl p \<Rightarrow> Inl p | Inr d' \<Rightarrow> fd_run d' xs)"

definition fd_counts :: "freq_dict \<Rightarrow> (string \<Rightarrow> nat) \<Rightarrow> bool" where
  "fd_counts d n \<longleftrightarrow> (\<forall>k<length (fd_is d). fd_cnt d ! k = of_nat (n (fd_is d ! k))) \<and>
     (\<forall>s. s \<notin> set (fd_is d) \<longrightarrow> n s = 0)"

lemma fd_append_counts:
  assumes "freq_dict_ok d" "fd_counts d n" "s \<notin> set (fd_is d)"
  shows "fd_counts (fst (fd_append d s (of_nat c))) (n(s := c))"
  using assms by (auto simp: fd_counts_def fd_append_def Let_def freq_dict_ok_def nth_append less_Suc_eq)

lemma fd_step_known:
  assumes ok: "freq_dict_ok d" and n: "fd_counts d n" and s: "s \<in> set (fd_is d)"
    and len: "length (fd_is d) < 2147483648"
  shows "\<exists>d' y. fd_Add d s = Inr (d', y) \<and> freq_dict_ok d' \<and> fd_is d' = fd_is d \<and> fd_counts d' (n(s := Suc (n s)))"
proof -
  obtain k where k: "k < length (fd_is d)" "fd_is d ! k = s" using s by (metis in_set_conv_nth)
  have si: "fd_si d s = Some (of_nat k)" using ok k by (auto simp: freq_dict_ok_def numbering_def)
  have dist: "distinct (fd_is d)" using ok by (simp add: freq_dict_ok_def numbering_def)
  have lc: "length (fd_cnt d) = length (fd_is d)" using ok by (simp add: freq_dict_ok_def)
  have ix: "index_i32 (fd_cnt d) (of_nat k) = Inr (fd_cnt d ! k)"
    using k lc len by (simp add: index_i32_of_nat)
  define d' where "d' = d\<lparr>fd_cnt := (fd_cnt d)[k := fd_cnt d ! k + 1]\<rparr>"
  have add: "fd_Add d s = Inr (d', of_nat k)"
    using si ix k len by (simp add: fd_Add_def d'_def)
  have "fd_counts d' (n(s := Suc (n s)))"
    using n k dist lc unfolding fd_counts_def d'_def
    by (auto simp: nth_list_update nth_eq_iff_index_eq)
  then show ?thesis using add ok by (auto simp: d'_def freq_dict_ok_def)
qed

lemma fd_step_counts:
  assumes ok: "freq_dict_ok d" and n: "fd_counts d n" and len: "length (fd_is d) < 2147483648"
  shows "\<exists>d'. fd_step d x = Inr d' \<and> freq_dict_ok d' \<and>
    fd_is d' = (if fd_op_name x \<in> set (fd_is d) then fd_is d else fd_is d @ [fd_op_name x]) \<and>
    fd_counts d' (case x of CountedAdd s \<Rightarrow> n(s := Suc (n s)) | PlainAdd s \<Rightarrow> n)"
proof (cases x)
  case (CountedAdd s)
  show ?thesis
  proof (cases "s \<in> set (fd_is d)")
    case True
    then show ?thesis using fd_step_known [OF ok n True len] CountedAdd by auto
  next
    case False
    then have none: "fd_si d s = None" using ok numbering_None by (auto simp: freq_dict_ok_def)
    have "n s = 0" using n False by (simp add: fd_counts_def)
    then show ?thesis
      using CountedAdd none False freq_dict_ok_append [OF ok none, of 1] fd_append_counts [OF ok n False, of 1]
      by (simp add: fd_Add_def) (simp add: fd_append_def Let_def)
  qed
next
  case (PlainAdd s)
  show ?thesis
  proof (cases "s \<in> set (fd_is d)")
    case True
    then have "fd_AddNoCount d s = (d, fd_Id d s)"
      using ok numbering_None by (fastforce simp: freq_dict_ok_def fd_AddNoCount_def fd_Id_def split: option.splits)
    then show ?thesis using True PlainAdd ok n by simp
  next
    case False
    then have none: "fd_si d s = None" using ok numbering_None by (auto simp: freq_dict_ok_def)
    have "n(s := 0) = n" using n False by (auto simp: fd_counts_def fun_eq_iff)
    then show ?thesis
      using PlainAdd none False freq_dict_ok_append [OF ok none, of 0] fd_append_counts [OF ok n False, of 0]
      by (simp add: fd_AddNoCount_def) (simp add: fd_append_def Let_def)
  qed
qed

definition counted :: "fd_op list \<Rightarrow> string \<Rightarrow> nat" where
  "counted ops s = length (filter (\<lambda>x. x = CountedAdd s) ops)"

lemma fd_run_counts:
  assumes "freq_dict_ok d" and "fd_counts d n" and "card (set (fd_is d) \<union> fd_op_name ` set ops) < 2147483648"
  shows "\<exists>d'. fd_run d ops = Inr d' \<and> freq_dict_ok d' \<and> set (fd_is d') = set (fd_is d) \<union> fd_op_name ` set ops \<and>
    fd_counts d' (\<lambda>s. n s + counted ops s)"
  using assms
proof (induction ops arbitrary: d n)
  case Nil
  then show ?case by (simp add: counted_def)
next
  case (Cons x xs)
  have dist: "distinct (fd_is d)" using Cons.prems(1) by (simp add: freq_dict_ok_def numbering_def)
  have "length (fd_is d) \<le> card (set (fd_is d) \<union> fd_op_name ` set (x # xs))"
    unfolding distinct_card [OF dist, symmetric] by (rule card_mono) auto
  then have len: "length (fd_is d) < 2147483648" using Cons.prems(3) by linarith
  define m where "m = (case x of CountedAdd s \<Rightarrow> n(s := Suc (n s)) | PlainAdd s \<Rightarrow> n)"
  obtain d' where d': "fd_step d x = Inr d'" "freq_dict_ok d'" "fd_counts d' m"
    "fd_is d' = (if fd_op_name x \<in> set (fd_is d) then fd_is d else fd_is d @ [fd_op_name x])"
    using fd_step_counts [OF Cons.prems(1,2) len, of x] unfolding m_def by blast
  have set: "set (fd_is d') = insert (fd_op_name x) (set (fd_is d))" using d'(4) by auto
  have same: "set (fd_is d') \<union> fd_op_name ` set xs = set (fd_is d) \<union> fd_op_name ` set (x # xs)" using set by simp
  obtain d'' where d'': "fd_run d' xs = Inr d''" "freq_dict_ok d''"
    "set (fd_is d'') = set (fd_is d) \<union> fd_op_name ` set (x # xs)" "fd_counts d'' (\<lambda>s. m s + counted xs s)"
    using Cons.IH [OF d'(2,3)] Cons.prems(3) unfolding same by blast
  have "(\<lambda>s. m s + counted xs s) = (\<lambda>s. n s + counted (x # xs) s)"
    by (auto simp: m_def counted_def fun_eq_iff split: fd_op.split)
  then show ?case using d' d'' by simp
qed

lemma fd_lookup:
  assumes ok: "freq_dict_ok d" and n: "fd_counts d n" and s: "s \<in> set (fd_is d)"
    and len: "length (fd_is d) < 2147483648"
  shows "fd_String d (fd_Id d s) = Inr (Some s) \<and> fd_Freq d (fd_Id d s) = Inr (of_nat (n s))"
proof -
  obtain k where k: "k < length (fd_is d)" "fd_is d ! k = s" using s by (metis in_set_conv_nth)
  have number: "fd_Id d s = of_nat k" using freq_dict.number_in [OF ok k(1)] k(2) by simp
  have "fd_cnt d ! k = of_nat (n s)" using n k by (auto simp: fd_counts_def)
  then show ?thesis
    using number k len ok by (simp add: fd_String_def fd_Freq_def index_i32_of_nat freq_dict_ok_def)
qed

text \<open>(C38) A frequency dictionary filled from the empty one by any mix of \<open>Add\<close> and \<open>AddNoCount\<close> with
  fewer than \<open>2 ^ 31\<close> distinct strings never panics; it numbers exactly the added strings, \<open>String\<close> inverts
  \<open>Id\<close>, and \<open>Freq\<close> of an id is the number of \<open>Add\<close>s of its string (modulo \<open>2 ^ 32\<close>), without the
  uncounted additions.\<close>

theorem freq_dict_counts:
  assumes "card (fd_op_name ` set ops) < 2147483648"
  shows "\<exists>d. fd_run NewFreqDict ops = Inr d \<and>
    (\<forall>s. fd_Id d s = -1 \<longleftrightarrow> s \<notin> fd_op_name ` set ops) \<and>
    (\<forall>s \<in> fd_op_name ` set ops. fd_String d (fd_Id d s) = Inr (Some s) \<and>
       fd_Freq d (fd_Id d s) = Inr (of_nat (counted ops s))) \<and>
    sint (fd_Count d) = int (card (fd_op_name ` set ops))"
proof -
  have "fd_counts NewFreqDict (\<lambda>s. 0)" by (simp add: fd_counts_def NewFreqDict_def)
  moreover have "set (fd_is NewFreqDict) = {}" by (simp add: NewFreqDict_def)
  ultimately obtain d where d: "fd_run NewFreqDict ops = Inr d" "freq_dict_ok d"
    "set (fd_is d) = fd_op_name ` set ops" "fd_counts d (counted ops)"
    using fd_run_counts [OF freq_dict_ok_New, of "\<lambda>s. 0" ops] assms by auto
  have dist: "distinct (fd_is d)" using d(2) by (simp add: freq_dict_ok_def numbering_def)
  have len: "length (fd_is d) = card (fd_op_name ` set ops)" using distinct_card [OF dist] d(3) by simp
  then have small: "length (fd_is d) < 2147483648" using assms by simp
  have "sint (fd_Count d) = int (card (fd_op_name ` set ops))" using small len by (simp add: fd_Count_def)
  moreover have "fd_Id d s = -1 \<longleftrightarrow> s \<notin> fd_op_name ` set ops" for s
    using freq_dict.number_neq_NotId [OF d(2) _ small] freq_dict.number_out [OF d(2)] d(3) by blast
  ultimately show ?thesis using d fd_lookup [OF d(2,4) _ small] by blast
qed

theorem freq_dict_counts_witness:
  "\<exists>d. fd_run NewFreqDict [CountedAdd ''a'', PlainAdd ''b'', CountedAdd ''a''] = Inr d \<and>
    fd_Freq d (fd_Id d ''a'') = Inr 2 \<and> fd_Freq d (fd_Id d ''b'') = Inr 0"
  using freq_dict_counts [of "[CountedAdd ''a'', PlainAdd ''b'', CountedAdd ''a'']"]
  by (auto simp: counted_def card_insert_if)

subsection \<open>The unified index (\<open>dataset/unified_index.go\<close>)\<close>

text \<open>
  The builder's \<open>Build\<close> shares its indices with the result. The model copies them; the code
  adds nothing to a builder after \<open>Build\<close>.
\<close>

record unified_builder =
  ub_UserIndex :: index
  ub_ItemIndex :: index
  ub_UserLabelIndex :: index
  ub_ItemLabelIndex :: index
  ub_CtxLabelIndex :: index

definition NewUnifiedMapIndexBuilder :: unified_builder where
  "NewUnifiedMapIndexBuilder =
     \<lparr>ub_UserIndex = NewMapIndex, ub_ItemIndex = NewMapIndex, ub_UserLabelIndex = NewMapIndex,
      ub_ItemLabelIndex = NewMapIndex, ub_CtxLabelIndex = NewMapIndex\<rparr>"

definition ub_AddUser :: "unified_builder \<Rightarrow> string \<Rightarrow> unified_builder" where
  "ub_AddUser b s = b\<lparr>ub_UserIndex := idx_Add (ub_UserIndex b) s\<rparr>"

definition ub_AddItem :: "unified_builder \<Rightarrow> string \<Rightarrow> unified_builder" where
  "ub_AddItem b s = b\<lparr>ub_ItemIndex := idx_Add (ub_ItemIndex b) s\<rparr>"

definition ub_AddUserLabel :: "unified_builder \<Rightarrow> string \<Rightarrow> unified_builder" where
  "ub_AddUserLabel b s = b\<lparr>ub_UserLabelIndex := idx_Add (ub_UserLabelIndex b) s\<rparr>"

definition ub_AddItemLabel :: "unified_builder \<Rightarrow> string \<Rightarrow> unified_builder" where
  "ub_AddItemLabel b s = b\<lparr>ub_ItemLabelIndex := idx_Add (ub_ItemLabelIndex b) s\<rparr>"

definition ub_AddCtxLabel :: "unified_builder \<Rightarrow> string \<Rightarrow> unified_builder" where
  "ub_AddCtxLabel b s = b\<lparr>ub_CtxLabelIndex := idx_Add (ub_CtxLabelIndex b) s\<rparr>"

record unified_map_index =
  um_UserIndex :: index
  um_ItemIndex :: index
  um_UserLabelIndex :: index
  um_ItemLabelIndex :: index
  um_CtxLabelIndex :: index

definition ub_Build :: "unified_builder \<Rightarrow> unified_map_index" where
  "ub_Build b =
     \<lparr>um_UserIndex = ub_UserIndex b, um_ItemIndex = ub_ItemIndex b,
      um_UserLabelIndex = ub_UserLabelIndex b, um_ItemLabelIndex = ub_ItemLabelIndex b,
      um_CtxLabelIndex = ub_CtxLabelIndex b\<rparr>"

definition um_CountUsers :: "unified_map_index \<Rightarrow> i32" where
  "um_CountUsers u = idx_Len (Some (um_UserIndex u))"

definition um_CountItems :: "unified_map_index \<Rightarrow> i32" where
  "um_CountItems u = idx_Len (Some (um_ItemIndex u))"

definition um_CountUserLabels :: "unified_map_index \<Rightarrow> i32" where
  "um_CountUserLabels u = idx_Len (Some (um_UserLabelIndex u))"

definition um_CountItemLabels :: "unified_map_index \<Rightarrow> i32" where
  "um_CountItemLabels u = idx_Len (Some (um_ItemLabelIndex u))"

definition um_CountContextLabels :: "unified_map_index \<Rightarrow> i32" where
  "um_CountContextLabels u = idx_Len (Some (um_CtxLabelIndex u))"

definition um_Len :: "unified_map_index \<Rightarrow> i32" where
  "um_Len u =
     idx_Len (Some (um_UserIndex u)) + idx_Len (Some (um_ItemIndex u)) +
     idx_Len (Some (um_UserLabelIndex u)) + idx_Len (Some (um_ItemLabelIndex u)) +
     idx_Len (Some (um_CtxLabelIndex u))"

definition um_EncodeUser :: "unified_map_index \<Rightarrow> string \<Rightarrow> i32" where
  "um_EncodeUser u s = idx_ToNumber (um_UserIndex u) s"

definition um_EncodeItem :: "unified_map_index \<Rightarrow> string \<Rightarrow> i32" where
  "um_EncodeItem u s =
     (let k = idx_ToNumber (um_ItemIndex u) s
      in if k \<noteq> NotId then k + idx_Len (Some (um_UserIndex u)) else k)"

definition um_EncodeUserLabel :: "unified_map_index \<Rightarrow> string \<Rightarrow> i32" where
  "um_EncodeUserLabel u s =
     (let k = idx_ToNumber (um_UserLabelIndex u) s
      in if k \<noteq> NotId then k + (idx_Len (Some (um_UserIndex u)) + idx_Len (Some (um_ItemIndex u))) else k)"

definition um_EncodeItemLabel :: "unified_map_index \<Rightarrow> string \<Rightarrow> i32" where
  "um_EncodeItemLabel u s =
     (let k = idx_ToNumber (um_ItemLabelIndex u) s
      in if k \<noteq> NotId
         then k + (idx_Len (Some (um_UserIndex u)) + idx_Len (Some (um_ItemIndex u)) +
                   idx_Len (Some (um_UserLabelIndex u)))
         else k)"

definition um_EncodeContextLabel :: "unified_map_index \<Rightarrow> string \<Rightarrow> i32" where
  "um_EncodeContextLabel u s =
     (let k = idx_ToNumber (um_CtxLabelIndex u) s
      in if k \<noteq> NotId
         then k + (idx_Len (Some (um_UserIndex u)) + idx_Len (Some (um_ItemIndex u)) +
                   idx_Len (Some (um_UserLabelIndex u)) + idx_Len (Some (um_ItemLabelIndex u)))
         else k)"

definition um_GetUsers :: "unified_map_index \<Rightarrow> string list" where
  "um_GetUsers u = idx_GetNames (um_UserIndex u)"

definition um_GetItems :: "unified_map_index \<Rightarrow> string list" where
  "um_GetItems u = idx_GetNames (um_ItemIndex u)"

definition um_GetUserLabels :: "unified_map_index \<Rightarrow> string list" where
  "um_GetUserLabels u = idx_GetNames (um_UserLabelIndex u)"

definition um_GetItemLabels :: "unified_map_index \<Rightarrow> string list" where
  "um_GetItemLabels u = idx_GetNames (um_ItemLabelIndex u)"

definition um_GetContextLabels :: "unified_map_index \<Rightarrow> string list" where
  "um_GetContextLabels u = idx_GetNames (um_CtxLabelIndex u)"

subsection \<open>Blocks of the encoding space\<close>

datatype ub_op = BUser string | BItem string | BUserLabel string | BItemLabel string | BCtxLabel string

fun ub_step :: "unified_builder \<Rightarrow> ub_op \<Rightarrow> unified_builder" where
  "ub_step b (BUser s) = ub_AddUser b s"
| "ub_step b (BItem s) = ub_AddItem b s"
| "ub_step b (BUserLabel s) = ub_AddUserLabel b s"
| "ub_step b (BItemLabel s) = ub_AddItemLabel b s"
| "ub_step b (BCtxLabel s) = ub_AddCtxLabel b s"

definition ub_run :: "ub_op list \<Rightarrow> unified_map_index" where
  "ub_run ops = ub_Build (foldl ub_step NewUnifiedMapIndexBuilder ops)"

definition builder_ok :: "unified_builder \<Rightarrow> bool" where
  "builder_ok b \<longleftrightarrow> index_ok (ub_UserIndex b) \<and> index_ok (ub_ItemIndex b) \<and> index_ok (ub_UserLabelIndex b) \<and>
     index_ok (ub_ItemLabelIndex b) \<and> index_ok (ub_CtxLabelIndex b)"

lemmas builder_defs =
  ub_AddUser_def ub_AddItem_def ub_AddUserLabel_def ub_AddItemLabel_def ub_AddCtxLabel_def

lemma builder_ok_step: "builder_ok b \<Longrightarrow> builder_ok (ub_step b x)"
  by (cases x) (simp_all add: builder_ok_def builder_defs)

lemma builder_ok_run: "builder_ok b \<Longrightarrow> builder_ok (foldl ub_step b ops)"
  by (induction ops arbitrary: b) (auto intro: builder_ok_step)

lemma builder_names_step:
  assumes "builder_ok b"
  shows "set (Names (ub_UserIndex (ub_step b x))) = set (Names (ub_UserIndex b)) \<union> {s. x = BUser s}"
    "set (Names (ub_ItemIndex (ub_step b x))) = set (Names (ub_ItemIndex b)) \<union> {s. x = BItem s}"
    "set (Names (ub_UserLabelIndex (ub_step b x))) = set (Names (ub_UserLabelIndex b)) \<union> {s. x = BUserLabel s}"
    "set (Names (ub_ItemLabelIndex (ub_step b x))) = set (Names (ub_ItemLabelIndex b)) \<union> {s. x = BItemLabel s}"
    "set (Names (ub_CtxLabelIndex (ub_step b x))) = set (Names (ub_CtxLabelIndex b)) \<union> {s. x = BCtxLabel s}"
  using assms by (cases x; auto simp: builder_ok_def builder_defs Names_Add)+

lemma builder_names_run:
  assumes "builder_ok b"
  shows "set (Names (ub_UserIndex (foldl ub_step b ops))) = set (Names (ub_UserIndex b)) \<union> {s. BUser s \<in> set ops} \<and>
    set (Names (ub_ItemIndex (foldl ub_step b ops))) = set (Names (ub_ItemIndex b)) \<union> {s. BItem s \<in> set ops} \<and>
    set (Names (ub_UserLabelIndex (foldl ub_step b ops))) = set (Names (ub_UserLabelIndex b)) \<union> {s. BUserLabel s \<in> set ops} \<and>
    set (Names (ub_ItemLabelIndex (foldl ub_step b ops))) = set (Names (ub_ItemLabelIndex b)) \<union> {s. BItemLabel s \<in> set ops} \<and>
    set (Names (ub_CtxLabelIndex (foldl ub_step b ops))) = set (Names (ub_CtxLabelIndex b)) \<union> {s. BCtxLabel s \<in> set ops}"
  using assms
proof (induction ops arbitrary: b)
  case Nil
  then show ?case by simp
next
  case (Cons x xs)
  show ?case using Cons.IH [OF builder_ok_step [OF Cons.prems]] builder_names_step [OF Cons.prems, of x]
    by (simp only: foldl_Cons list.set) blast
qed

text \<open>\<open>block enc ns off\<close>: \<open>enc\<close> maps the names \<open>ns\<close>, in their order, to the numbers from \<open>off\<close> on, and every
  other string to \<open>NotId\<close>.\<close>

definition block :: "(string \<Rightarrow> i32) \<Rightarrow> string list \<Rightarrow> nat \<Rightarrow> bool" where
  "block enc ns off \<longleftrightarrow> (\<forall>k<length ns. sint (enc (ns ! k)) = int (off + k)) \<and>
     (\<forall>s. s \<notin> set ns \<longrightarrow> enc s = NotId)"

lemma block_shifted:
  assumes ok: "index_ok ix" and small: "off + length (Names ix) < 2147483648"
  shows "block (\<lambda>s. let k = idx_ToNumber ix s in if k \<noteq> NotId then k + of_nat off else k) (Names ix) off"
proof -
  have "sint (let n = idx_ToNumber ix (Names ix ! k) in if n \<noteq> NotId then n + of_nat off else n) = int (off + k)"
    if k: "k < length (Names ix)" for k
  proof -
    have n: "idx_ToNumber ix (Names ix ! k) = of_nat k" by (rule index.number_in [OF ok k])
    have "(of_nat k :: i32) \<noteq> NotId"
      using index.number_neq_NotId [OF ok nth_mem [OF k]] small n by (simp add: NotId_def)
    moreover have "(of_nat k :: i32) + of_nat off = of_nat (off + k)" by simp
    moreover have "sint (of_nat (off + k) :: i32) = int (off + k)" using small k by (intro sint_of_nat_i32) simp
    ultimately show ?thesis by (simp only: n Let_def) simp
  qed
  then show ?thesis
    unfolding block_def using index.number_out [OF ok] by (auto simp: NotId_def Let_def)
qed

lemma idx_Len_Some: "idx_Len (Some ix) = of_nat (length (Names ix))"
  by (simp add: idx_Len_def)

text \<open>(C28) When an index is built from fewer than \<open>2 ^ 31\<close> distinct strings in total, its encoding space is divided into the
  five consecutive blocks users, items, user labels, item labels and context labels: each \<open>Encode\<close> function
  maps the strings added under its kind, in the order of the corresponding \<open>Get\<close> function, one to one to the numbers of
  its block and every other string to \<open>NotId\<close>; \<open>Len\<close> is the end of the last block.\<close>

theorem unified_blocks:
  fixes ops
  defines "u \<equiv> ub_run ops"
  defines "n1 \<equiv> length (um_GetUsers u)" and "n2 \<equiv> length (um_GetItems u)"
    and "n3 \<equiv> length (um_GetUserLabels u)" and "n4 \<equiv> length (um_GetItemLabels u)"
    and "n5 \<equiv> length (um_GetContextLabels u)"
  assumes small: "n1 + n2 + n3 + n4 + n5 < 2147483648"
  shows "set (um_GetUsers u) = {s. BUser s \<in> set ops} \<and> block (um_EncodeUser u) (um_GetUsers u) 0 \<and>
    set (um_GetItems u) = {s. BItem s \<in> set ops} \<and> block (um_EncodeItem u) (um_GetItems u) n1 \<and>
    set (um_GetUserLabels u) = {s. BUserLabel s \<in> set ops} \<and>
      block (um_EncodeUserLabel u) (um_GetUserLabels u) (n1 + n2) \<and>
    set (um_GetItemLabels u) = {s. BItemLabel s \<in> set ops} \<and>
      block (um_EncodeItemLabel u) (um_GetItemLabels u) (n1 + n2 + n3) \<and>
    set (um_GetContextLabels u) = {s. BCtxLabel s \<in> set ops} \<and>
      block (um_EncodeContextLabel u) (um_GetContextLabels u) (n1 + n2 + n3 + n4) \<and>
    sint (um_Len u) = int (n1 + n2 + n3 + n4 + n5)"
proof -
  have new: "builder_ok NewUnifiedMapIndexBuilder" by (simp add: builder_ok_def NewUnifiedMapIndexBuilder_def)
  note names = builder_names_run [OF new, of ops]
  have ok: "index_ok (um_UserIndex u)" "index_ok (um_ItemIndex u)" "index_ok (um_UserLabelIndex u)"
    "index_ok (um_ItemLabelIndex u)" "index_ok (um_CtxLabelIndex u)"
    using builder_ok_run [OF new, of ops] by (simp_all add: builder_ok_def u_def ub_run_def ub_Build_def)
  note gets = um_GetUsers_def um_GetItems_def um_GetUserLabels_def um_GetItemLabels_def um_GetContextLabels_def idx_GetNames_def
  have l: "idx_Len (Some (um_UserIndex u)) = of_nat n1" "idx_Len (Some (um_ItemIndex u)) = of_nat n2"
    "idx_Len (Some (um_UserLabelIndex u)) = of_nat n3" "idx_Len (Some (um_ItemLabelIndex u)) = of_nat n4"
    "idx_Len (Some (um_CtxLabelIndex u)) = of_nat n5"
    by (simp_all add: idx_Len_Some n1_def n2_def n3_def n4_def n5_def gets)
  have le: "0 + length (Names (um_UserIndex u)) < 2147483648" "n1 + length (Names (um_ItemIndex u)) < 2147483648"
    "n1 + n2 + length (Names (um_UserLabelIndex u)) < 2147483648"
    "n1 + n2 + n3 + length (Names (um_ItemLabelIndex u)) < 2147483648"
    "n1 + n2 + n3 + n4 + length (Names (um_CtxLabelIndex u)) < 2147483648"
    using small by (simp_all add: n1_def n2_def n3_def n4_def n5_def gets)
  have b1: "block (um_EncodeUser u) (um_GetUsers u) 0"
    using block_shifted [OF ok(1) le(1)] by (simp add: um_EncodeUser_def [abs_def] gets Let_def cong: if_cong)
  have b2: "block (um_EncodeItem u) (um_GetItems u) n1"
    using block_shifted [OF ok(2) le(2)] by (simp add: um_EncodeItem_def [abs_def] l gets cong: if_cong)
  have b3: "block (um_EncodeUserLabel u) (um_GetUserLabels u) (n1 + n2)"
    using block_shifted [OF ok(3) le(3)] by (simp add: um_EncodeUserLabel_def [abs_def] l gets cong: if_cong)
  have b4: "block (um_EncodeItemLabel u) (um_GetItemLabels u) (n1 + n2 + n3)"
    using block_shifted [OF ok(4) le(4)] by (simp add: um_EncodeItemLabel_def [abs_def] l gets cong: if_cong)
  have b5: "block (um_EncodeContextLabel u) (um_GetContextLabels u) (n1 + n2 + n3 + n4)"
    using block_shifted [OF ok(5) le(5)] by (simp add: um_EncodeContextLabel_def [abs_def] l gets cong: if_cong)
  have "um_Len u = of_nat (n1 + n2 + n3 + n4 + n5)" by (simp add: um_Len_def l)
  then have len: "sint (um_Len u) = int (n1 + n2 + n3 + n4 + n5)" using small by (simp only: sint_of_nat_i32)
  have "set (um_GetUsers u) = {s. BUser s \<in> set ops}" "set (um_GetItems u) = {s. BItem s \<in> set ops}"
    "set (um_GetUserLabels u) = {s. BUserLabel s \<in> set ops}" "set (um_GetItemLabels u) = {s. BItemLabel s \<in> set ops}"
    "set (um_GetContextLabels u) = {s. BCtxLabel s \<in> set ops}"
    using names by (simp_all add: gets u_def ub_run_def ub_Build_def NewUnifiedMapIndexBuilder_def NewMapIndex_def)
  then show ?thesis using b1 b2 b3 b4 b5 len by blast
qed

theorem unified_blocks_witness:
  "sint (um_EncodeItem (ub_run [BUser ''u'', BItem ''i'', BItem ''j'', BUser ''u'']) ''j'') = 2 \<and>
   sint (um_Len (ub_run [BUser ''u'', BItem ''i'', BItem ''j'', BUser ''u''])) = 3"
proof -
  let ?ops = "[BUser ''u'', BItem ''i'', BItem ''j'', BUser ''u'']"
  have g: "um_GetUsers (ub_run ?ops) = [''u''] \<and> um_GetItems (ub_run ?ops) = [''i'', ''j''] \<and>
    um_GetUserLabels (ub_run ?ops) = [] \<and> um_GetItemLabels (ub_run ?ops) = [] \<and> um_GetContextLabels (ub_run ?ops) = []"
    by code_simp
  have b: "block (um_EncodeItem (ub_run ?ops)) [''i'', ''j''] 1" "sint (um_Len (ub_run ?ops)) = 3"
    using unified_blocks [of ?ops] unfolding g [THEN conjunct1] g [THEN conjunct2, THEN conjunct1]
      g [THEN conjunct2, THEN conjunct2, THEN conjunct1] g [THEN conjunct2, THEN conjunct2, THEN conjunct2, THEN conjunct1]
      g [THEN conjunct2, THEN conjunct2, THEN conjunct2, THEN conjunct2] by simp_all
  have "sint (um_EncodeItem (ub_run ?ops) ([''i'', ''j''] ! 1)) = int (1 + 1)"
    using b(1) unfolding block_def by (elim conjE allE [of _ 1]) simp
  then show ?thesis using b(2) by simp
qed

end
