(* ===== verification/Non_Personalized.thy ===== *)
theory Non_Personalized
  imports Go_Env Weighted_Heap "HOL-Library.AList"
begin

text \<open>
  \<open>logics/non_personalized.go\<close>: a leaderboard of items by a score expression, one top-k filter per
  category and one for all items (the category \<open>""\<close>). The expression language (\<open>expr-lang/expr\<close>) is a
  parameter: compiling, the kind of a program's result and running it. The mutex serialises \<open>Push\<close> and
  \<open>PopAll\<close>, so each is one step. A Go map is an association list visited in the order of \<open>env_Iter\<close>.
\<close>

datatype expr_kind = KindFloat64 | KindInt | KindBool | KindOther

datatype 'w expr_value = VFloat64 'w | VInt int | VBool bool | VOther

record ('p, 'w) expr_lib =
  el_Compile :: "string \<Rightarrow> go_error + 'p"
  el_Kind :: "'p \<Rightarrow> expr_kind"
  el_Run :: "'p \<Rightarrow> item \<Rightarrow> 'w feedback list \<Rightarrow> go_error + 'w expr_value"
  el_Float :: "int \<Rightarrow> 'w"

record ('p, 'w) leaderboard =
  lb_name :: string
  lb_timestamp :: time
  lb_scoreFunc :: 'p
  lb_filterFunc :: "'p option"
  lb_heapSize :: int
  lb_heaps :: "(string \<times> (string, 'w) topk_filter) list"

definition NewNonPersonalized :: "('p, 'w) expr_lib \<Rightarrow> non_personalized_config \<Rightarrow> int \<Rightarrow> time \<Rightarrow> go_error + ('p, 'w) leaderboard" where
  "NewNonPersonalized L cfg n timestamp =
     (case el_Compile L (np_Score cfg) of
        Inl e \<Rightarrow> Inl e
      | Inr scoreFunc \<Rightarrow>
          if el_Kind L scoreFunc \<noteq> KindFloat64 \<and> el_Kind L scoreFunc \<noteq> KindInt
          then Inl (ErrOther ''score function must return float64'')
          else
          let new = (\<lambda>flt. Inr \<lparr>lb_name = np_Name cfg, lb_timestamp = timestamp, lb_scoreFunc = scoreFunc,
                lb_filterFunc = flt, lb_heapSize = n, lb_heaps = [('''', NewTopKFilter n)]\<rparr>)
          in if np_Filter cfg \<noteq> ''''
             then (case el_Compile L (np_Filter cfg) of
                     Inl e \<Rightarrow> Inl e
                   | Inr flt \<Rightarrow>
                       if el_Kind L flt \<noteq> KindBool then Inl (ErrOther ''filter function must return bool'')
                       else new (Some flt))
             else new None)"

subsection \<open>Push\<close>

text \<open>Whether the filter lets the item pass; \<open>result.(bool)\<close> panics on any other type.\<close>

definition lb_passes :: "('p, 'w) expr_lib \<Rightarrow> ('p, 'w) leaderboard \<Rightarrow> item \<Rightarrow> 'w feedback list \<Rightarrow> go_panic + bool" where
  "lb_passes L l i fs =
     (case lb_filterFunc l of
        None \<Rightarrow> Inr True
      | Some flt \<Rightarrow>
          (case el_Run L flt i fs of
             Inl e \<Rightarrow> Inr False
           | Inr (VBool b) \<Rightarrow> Inr b
           | Inr _ \<Rightarrow> Inl (ExplicitPanic ''interface conversion'')))"

definition lb_score :: "('p, 'w) expr_lib \<Rightarrow> ('p, 'w) leaderboard \<Rightarrow> item \<Rightarrow> 'w feedback list \<Rightarrow> 'w option" where
  "lb_score L l i fs =
     (case el_Run L (lb_scoreFunc l) i fs of
        Inl e \<Rightarrow> None
      | Inr (VFloat64 w) \<Rightarrow> Some w
      | Inr (VInt n) \<Rightarrow> Some (el_Float L n)
      | Inr _ \<Rightarrow> None)"

definition push_group :: "int \<Rightarrow> string \<Rightarrow> ('w::linorder) \<Rightarrow> string \<Rightarrow> (string \<times> (string, 'w) topk_filter) list \<Rightarrow>
    go_panic + (string \<times> (string, 'w) topk_filter) list" where
  "push_group k i w grp heaps =
     (let h = (case map_of heaps grp of None \<Rightarrow> NewTopKFilter k | Some h \<Rightarrow> h)
      in case topk_Push h i w of Inl p \<Rightarrow> Inl p | Inr h' \<Rightarrow> Inr (AList.update grp h' heaps))"

fun push_groups :: "int \<Rightarrow> string \<Rightarrow> ('w::linorder) \<Rightarrow> string list \<Rightarrow> (string \<times> (string, 'w) topk_filter) list \<Rightarrow>
    go_panic + (string \<times> (string, 'w) topk_filter) list" where
  "push_groups k i w [] heaps = Inr heaps"
| "push_groups k i w (g # gs) heaps =
     (case push_group k i w g heaps of Inl p \<Rightarrow> Inl p | Inr heaps' \<Rightarrow> push_groups k i w gs heaps')"

definition lb_Push :: "('p, 'w::linorder) expr_lib \<Rightarrow> ('p, 'w) leaderboard \<Rightarrow> item \<Rightarrow> 'w feedback list \<Rightarrow> go_panic + ('p, 'w) leaderboard" where
  "lb_Push L l i fs =
     (if item_IsHidden i then Inr l
      else case lb_passes L l i fs of
          Inl p \<Rightarrow> Inl p
        | Inr False \<Rightarrow> Inr l
        | Inr True \<Rightarrow>
            (case lb_score L l i fs of
               None \<Rightarrow> Inr l
             | Some w \<Rightarrow>
                 (case map_of (lb_heaps l) '''' of
                    None \<Rightarrow> Inl NilDereference
                  | Some h \<Rightarrow>
                      (case topk_Push h (item_ItemId i) w of
                         Inl p \<Rightarrow> Inl p
                       | Inr h' \<Rightarrow>
                           (case push_groups (lb_heapSize l) (item_ItemId i) w (item_Categories i)
                               (AList.update '''' h' (lb_heaps l)) of
                              Inl p \<Rightarrow> Inl p
                            | Inr heaps \<Rightarrow> Inr (l\<lparr>lb_heaps := heaps\<rparr>))))))"

fun lb_push_all :: "('p, 'w::linorder) expr_lib \<Rightarrow> ('p, 'w) leaderboard \<Rightarrow> (item \<times> 'w feedback list) list \<Rightarrow> go_panic + ('p, 'w) leaderboard" where
  "lb_push_all L l [] = Inr l"
| "lb_push_all L l ((i, fs) # xs) = (case lb_Push L l i fs of Inl p \<Rightarrow> Inl p | Inr l' \<Rightarrow> lb_push_all L l' xs)"

subsection \<open>PopAll\<close>

fun merge_elems :: "time \<Rightarrow> string \<Rightarrow> (string \<times> 'w score) list \<Rightarrow> (string, 'w) elem list \<Rightarrow> (string \<times> 'w score) list" where
  "merge_elems t category scores [] = scores"
| "merge_elems t category scores (e # es) =
     merge_elems t category
       (case map_of scores (elem_value e) of
          None \<Rightarrow> AList.update (elem_value e) \<lparr>score_Id = elem_value e, score_Score = elem_weight e, score_IsHidden = False,
            score_Categories = [category], score_Timestamp = t\<rparr> scores
        | Some sc \<Rightarrow> AList.update (elem_value e) (sc\<lparr>score_Categories := score_Categories sc @ [category]\<rparr>) scores) es"

fun pop_heaps :: "time \<Rightarrow> string list \<Rightarrow> (string \<times> (string, 'w::{linorder,zero}) topk_filter) list \<Rightarrow>
    (string \<times> 'w score) list \<Rightarrow> go_panic + (string \<times> 'w score) list \<times> (string \<times> (string, 'w) topk_filter) list" where
  "pop_heaps t [] heaps scores = Inr (scores, heaps)"
| "pop_heaps t (c # cs) heaps scores =
     (case map_of heaps c of
        None \<Rightarrow> pop_heaps t cs heaps scores
      | Some h \<Rightarrow>
          (case topk_PopAll \<lparr>elem_value = '''', elem_weight = 0\<rparr> h of
             Inl p \<Rightarrow> Inl p
           | Inr (es, h') \<Rightarrow> pop_heaps t cs (AList.update c h' heaps) (merge_elems t c scores es)))"

definition lb_PopAll :: "('w::{linorder,zero}) env \<Rightarrow> ('p, 'w) leaderboard \<Rightarrow> go_panic + 'w score list \<times> ('p, 'w) leaderboard" where
  "lb_PopAll E l =
     (case pop_heaps (lb_timestamp l) (env_Iter E (map fst (lb_heaps l))) (lb_heaps l) [] of
        Inl p \<Rightarrow> Inl p
      | Inr (scores, heaps) \<Rightarrow>
          Inr (env_SortDocuments E (map (\<lambda>i. the (map_of scores i)) (env_Iter E (map fst scores))), l\<lparr>lb_heaps := heaps\<rparr>))"

subsection \<open>The filters hold the pushes of their category\<close>

definition lb_entry :: "('p, 'w) expr_lib \<Rightarrow> ('p, 'w) leaderboard \<Rightarrow> item \<times> 'w feedback list \<Rightarrow> 'w option" where
  "lb_entry L l x = (if item_IsHidden (fst x) \<or> lb_passes L l (fst x) (snd x) = Inr False then None else lb_score L l (fst x) (snd x))"

text \<open>The pairs of id and score that belong to a category, in the order of the pushes.\<close>

fun lb_entries :: "('p, 'w) expr_lib \<Rightarrow> ('p, 'w) leaderboard \<Rightarrow> string \<Rightarrow> (item \<times> 'w feedback list) list \<Rightarrow> (string \<times> 'w) list" where
  "lb_entries L l c [] = []"
| "lb_entries L l c (x # xs) =
     (case lb_entry L l x of
        Some w \<Rightarrow> if c = '''' \<or> c \<in> set (item_Categories (fst x)) then (item_ItemId (fst x), w) # lb_entries L l c xs
          else lb_entries L l c xs
      | None \<Rightarrow> lb_entries L l c xs)"

lemma topk_push_all_snoc:
  "topk_push_all f (ps @ [(i, w)]) = (case topk_push_all f ps of Inl p \<Rightarrow> Inl p | Inr f' \<Rightarrow> topk_Push f' i w)"
  by (induction ps arbitrary: f) (auto split: sum.splits)

definition heaps_hold :: "int \<Rightarrow> (string \<Rightarrow> (string \<times> 'w::linorder) list) \<Rightarrow> (string \<times> (string, 'w) topk_filter) list \<Rightarrow> bool" where
  "heaps_hold k P heaps \<longleftrightarrow> distinct (map fst heaps) \<and>
     (\<forall>c. case map_of heaps c of None \<Rightarrow> P c = [] | Some h \<Rightarrow> topk_push_all (NewTopKFilter k) (P c) = Inr h)"

lemma heaps_holdD: "heaps_hold k P heaps \<Longrightarrow> map_of heaps c = Some h \<Longrightarrow> topk_push_all (NewTopKFilter k) (P c) = Inr h"
  unfolding heaps_hold_def by (auto dest!: spec [of _ c])

lemma heaps_hold_None: "heaps_hold k P heaps \<Longrightarrow> map_of heaps c = None \<Longrightarrow> P c = []"
  unfolding heaps_hold_def by (auto dest!: spec [of _ c])

lemma push_after:
  assumes "topk_push_all (NewTopKFilter k) ps = Inr h"
  shows "\<exists>h'. topk_Push h i w = Inr h' \<and> topk_push_all (NewTopKFilter k) (ps @ [(i, w)]) = Inr h'"
proof -
  obtain h' where "topk_push_all (NewTopKFilter k) (ps @ [(i, w)]) = Inr h'" by (rule topk_result)
  then show ?thesis using assms by (simp add: topk_push_all_snoc)
qed

lemma heaps_hold_update:
  assumes "heaps_hold k P heaps" and "topk_push_all (NewTopKFilter k) ps = Inr h"
  shows "heaps_hold k (P(c := ps)) (AList.update c h heaps)"
proof -
  have "case map_of (AList.update c h heaps) d of None \<Rightarrow> (P(c := ps)) d = []
    | Some h' \<Rightarrow> topk_push_all (NewTopKFilter k) ((P(c := ps)) d) = Inr h'" for d
  proof (cases "d = c")
    case True
    then show ?thesis using assms(2) by (simp add: update_conv')
  next
    case False
    then show ?thesis
      using assms(1) [unfolded heaps_hold_def, THEN conjunct2, THEN spec, of d] by (cases "map_of heaps d") (simp_all add: update_conv')
  qed
  moreover have "distinct (map fst (AList.update c h heaps))"
    using assms(1) unfolding heaps_hold_def by (blast intro: AList.distinct_update)
  ultimately show ?thesis unfolding heaps_hold_def by blast
qed

lemma push_group_hold:
  assumes "heaps_hold k P heaps"
  shows "\<exists>heaps'. push_group k i w c heaps = Inr heaps' \<and> heaps_hold k (P(c := P c @ [(i, w)])) heaps'"
proof -
  let ?h = "case map_of heaps c of None \<Rightarrow> NewTopKFilter k | Some h \<Rightarrow> h"
  have "topk_push_all (NewTopKFilter k) (P c) = Inr ?h"
  proof (cases "map_of heaps c")
    case None
    then show ?thesis using heaps_hold_None [OF assms None] by simp
  next
    case (Some h)
    then show ?thesis using heaps_holdD [OF assms Some] by simp
  qed
  from push_after [OF this, of i w]
  obtain h' where h': "topk_Push ?h i w = Inr h'" "topk_push_all (NewTopKFilter k) (P c @ [(i, w)]) = Inr h'" by blast
  have "push_group k i w c heaps = Inr (AList.update c h' heaps)" using h'(1) by (simp add: push_group_def Let_def)
  then show ?thesis using heaps_hold_update [OF assms h'(2), of c] by blast
qed

lemma push_group_keys:
  assumes "push_group k i w c heaps = Inr heaps'"
  shows "fst ` set heaps \<subseteq> fst ` set heaps'"
proof (cases "topk_Push (case map_of heaps c of None \<Rightarrow> NewTopKFilter k | Some h \<Rightarrow> h) i w")
  case (Inl p)
  then show ?thesis using assms unfolding push_group_def Let_def Inl sum.case by (simp only: sum.distinct)
next
  case (Inr h')
  have upd: "heaps' = AList.update c h' heaps" using assms unfolding push_group_def Let_def Inr sum.case by (simp only: sum.inject)
  show ?thesis unfolding upd AList.dom_update by blast
qed

lemma push_groups_hold:
  "heaps_hold k P heaps \<Longrightarrow> distinct gs \<Longrightarrow> \<exists>heaps'. push_groups k i w gs heaps = Inr heaps' \<and>
     heaps_hold k (\<lambda>c. P c @ (if c \<in> set gs then [(i, w)] else [])) heaps' \<and> fst ` set heaps \<subseteq> fst ` set heaps'"
proof (induction gs arbitrary: P heaps)
  case Nil
  then show ?case by simp
next
  case (Cons g gs)
  from push_group_hold [OF Cons.prems(1), of i w g]
  obtain heaps1 where h1: "push_group k i w g heaps = Inr heaps1" "heaps_hold k (P(g := P g @ [(i, w)])) heaps1" by blast
  have sub: "fst ` set heaps \<subseteq> fst ` set heaps1"
    by (rule push_group_keys [OF h1(1)])
  have d: "distinct gs" using Cons.prems(2) by simp
  from Cons.IH [OF h1(2) d]
  obtain heaps2 where h2: "push_groups k i w gs heaps1 = Inr heaps2"
    "heaps_hold k (\<lambda>c. (P(g := P g @ [(i, w)])) c @ (if c \<in> set gs then [(i, w)] else [])) heaps2"
    "fst ` set heaps1 \<subseteq> fst ` set heaps2" by blast
  have g: "g \<notin> set gs" using Cons.prems(2) by simp
  have eq: "(\<lambda>c. (P(g := P g @ [(i, w)])) c @ (if c \<in> set gs then [(i, w)] else [])) =
    (\<lambda>c. P c @ (if c \<in> set (g # gs) then [(i, w)] else []))"
  proof
    fix c
    show "(P(g := P g @ [(i, w)])) c @ (if c \<in> set gs then [(i, w)] else []) = P c @ (if c \<in> set (g # gs) then [(i, w)] else [])"
      using g by (cases "c = g") simp_all
  qed
  have "push_groups k i w (g # gs) heaps = Inr heaps2" using h1(1) h2(1) by simp
  moreover have "fst ` set heaps \<subseteq> fst ` set heaps2" using sub h2(3) by (rule order_trans)
  moreover have "heaps_hold k (\<lambda>c. P c @ (if c \<in> set (g # gs) then [(i, w)] else [])) heaps2"
    using h2(2) unfolding eq .
  ultimately show ?case by blast
qed

text \<open>The conditions under which items are pushed: categories are distinct and nonempty strings, and the filter,
  being compiled to a boolean program, gives booleans.\<close>

definition item_ok :: "item \<Rightarrow> bool" where
  "item_ok i \<longleftrightarrow> distinct (item_Categories i) \<and> '''' \<notin> set (item_Categories i)"

definition filter_ok :: "('p, 'w) expr_lib \<Rightarrow> ('p, 'w) leaderboard \<Rightarrow> bool" where
  "filter_ok L l \<longleftrightarrow> (\<forall>flt i fs. lb_filterFunc l = Some flt \<longrightarrow> (\<exists>e. el_Run L flt i fs = Inl e) \<or> (\<exists>b. el_Run L flt i fs = Inr (VBool b)))"

lemma lb_passes_total: "filter_ok L l \<Longrightarrow> \<exists>b. lb_passes L l i fs = Inr b"
proof (cases "lb_filterFunc l")
  case None
  then show ?thesis by (intro exI [of _ True]) (simp add: lb_passes_def)
next
  case (Some flt)
  assume "filter_ok L l"
  then have "(\<exists>e. el_Run L flt i fs = Inl e) \<or> (\<exists>b. el_Run L flt i fs = Inr (VBool b))"
    unfolding filter_ok_def using Some by blast
  then show ?thesis using Some by (auto simp: lb_passes_def)
qed

lemma lb_Push_hold:
  assumes ok: "filter_ok L l" "item_ok i" and hold: "heaps_hold (lb_heapSize l) P (lb_heaps l)" and root: "'''' \<in> fst ` set (lb_heaps l)"
  shows "\<exists>heaps. lb_Push L l i fs = Inr (l\<lparr>lb_heaps := heaps\<rparr>) \<and> '''' \<in> fst ` set heaps \<and>
    heaps_hold (lb_heapSize l) (\<lambda>c. P c @ lb_entries L l c [(i, fs)]) heaps"
proof -
  obtain b where b: "lb_passes L l i fs = Inr b" using lb_passes_total [OF ok(1)] by blast
  show ?thesis
  proof (cases "lb_entry L l (i, fs)")
    case None
    then have "lb_Push L l i fs = Inr l" using b by (auto simp: lb_entry_def lb_Push_def split: if_splits bool.split)
    then show ?thesis using None hold root by (intro exI [of _ "lb_heaps l"]) simp
  next
    case (Some w)
    then have vis: "\<not> item_IsHidden i" "lb_passes L l i fs = Inr True" "lb_score L l i fs = Some w"
      using b by (auto simp: lb_entry_def split: if_splits)
    have "map_of (lb_heaps l) '''' \<noteq> None" using root by (simp only: map_of_eq_None_iff not_not)
    then obtain h where h: "map_of (lb_heaps l) '''' = Some h" by blast
    obtain h' where h': "topk_Push h (item_ItemId i) w = Inr h'"
      "topk_push_all (NewTopKFilter (lb_heapSize l)) (P '''' @ [(item_ItemId i, w)]) = Inr h'"
      using push_after [OF heaps_holdD [OF hold h]] by blast
    note hold1 = heaps_hold_update [OF hold h'(2), of "''''"]
    obtain heaps where heaps: "push_groups (lb_heapSize l) (item_ItemId i) w (item_Categories i) (AList.update '''' h' (lb_heaps l)) = Inr heaps"
      "heaps_hold (lb_heapSize l) (\<lambda>c. (P('''' := P '''' @ [(item_ItemId i, w)])) c @
         (if c \<in> set (item_Categories i) then [(item_ItemId i, w)] else [])) heaps"
      "fst ` set (AList.update '''' h' (lb_heaps l)) \<subseteq> fst ` set heaps"
      using push_groups_hold [OF hold1] ok(2) unfolding item_ok_def by blast
    have "(\<lambda>c. (P('''' := P '''' @ [(item_ItemId i, w)])) c @ (if c \<in> set (item_Categories i) then [(item_ItemId i, w)] else [])) =
      (\<lambda>c. P c @ lb_entries L l c [(i, fs)])"
      using ok(2) Some by (auto simp: fun_eq_iff item_ok_def)
    moreover have "lb_Push L l i fs = Inr (l\<lparr>lb_heaps := heaps\<rparr>)" using vis h h'(1) heaps(1) by (simp add: lb_Push_def)
    moreover have "'''' \<in> fst ` set heaps" using heaps(3) unfolding AList.dom_update by blast
    ultimately show ?thesis using heaps(2) by (intro exI [of _ heaps] conjI) simp_all
  qed
qed

lemma lb_upd [simp]:
  "lb_entry L (l\<lparr>lb_heaps := h\<rparr>) x = lb_entry L l x"
  "filter_ok L (l\<lparr>lb_heaps := h\<rparr>) = filter_ok L l"
  by (simp_all add: lb_entry_def lb_passes_def lb_score_def filter_ok_def)

lemma lb_entries_upd [simp]: "lb_entries L (l\<lparr>lb_heaps := h\<rparr>) c xs = lb_entries L l c xs"
  by (induction xs) (simp_all split: option.split)

lemma lb_entries_Cons: "lb_entries L l c (x # xs) = lb_entries L l c [x] @ lb_entries L l c xs"
  by (simp split: option.split)

lemma lb_push_all_hold:
  assumes "filter_ok L l" and "\<forall>x \<in> set xs. item_ok (fst x)" and "heaps_hold (lb_heapSize l) P (lb_heaps l)"
    and "'''' \<in> fst ` set (lb_heaps l)"
  shows "\<exists>heaps. lb_push_all L l xs = Inr (l\<lparr>lb_heaps := heaps\<rparr>) \<and>
    heaps_hold (lb_heapSize l) (\<lambda>c. P c @ lb_entries L l c xs) heaps"
  using assms
proof (induction xs arbitrary: l P)
  case Nil
  then show ?case by (intro exI [of _ "lb_heaps l"]) simp
next
  case (Cons x xs)
  obtain i fs where x: "x = (i, fs)" by (cases x)
  have iok: "item_ok i" using Cons.prems(2) x by simp
  from lb_Push_hold [OF Cons.prems(1) iok Cons.prems(3,4), of fs]
  obtain heaps where h: "lb_Push L l i fs = Inr (l\<lparr>lb_heaps := heaps\<rparr>)" "'''' \<in> fst ` set heaps"
    "heaps_hold (lb_heapSize l) (\<lambda>c. P c @ lb_entries L l c [(i, fs)]) heaps" by blast
  let ?l = "l\<lparr>lb_heaps := heaps\<rparr>"
  have p: "filter_ok L ?l" "\<forall>x \<in> set xs. item_ok (fst x)" "'''' \<in> fst ` set (lb_heaps ?l)"
    "heaps_hold (lb_heapSize ?l) (\<lambda>c. P c @ lb_entries L l c [(i, fs)]) (lb_heaps ?l)"
    using Cons.prems(1,2) h(2,3) by simp_all
  from Cons.IH [OF p(1,2,4,3)]
  obtain heaps' where h': "lb_push_all L ?l xs = Inr (?l\<lparr>lb_heaps := heaps'\<rparr>)"
    "heaps_hold (lb_heapSize ?l) (\<lambda>c. (P c @ lb_entries L l c [(i, fs)]) @ lb_entries L ?l c xs) heaps'" by blast
  have "lb_push_all L l (x # xs) = Inr (l\<lparr>lb_heaps := heaps'\<rparr>)" using h(1) h'(1) x by simp
  moreover have "heaps_hold (lb_heapSize l) (\<lambda>c. P c @ lb_entries L l c (x # xs)) heaps'"
    using h'(2) unfolding x lb_entries_upd append_assoc lb_entries_Cons [of L l _ "(i, fs)" xs, symmetric] by simp
  ultimately show ?case by blast
qed

subsection \<open>Merging the filters\<close>

lemma pop_heaps_eq:
  assumes "distinct cs" and "\<And>c. c \<in> set cs \<Longrightarrow> \<exists>h h'. map_of heaps c = Some h \<and>
      topk_PopAll \<lparr>elem_value = '''', elem_weight = 0\<rparr> h = Inr (ys c, h')"
  shows "\<exists>heaps'. pop_heaps t cs heaps scores = Inr (foldl (\<lambda>s c. merge_elems t c s (ys c)) scores cs, heaps')"
  using assms
proof (induction cs arbitrary: heaps scores)
  case Nil
  then show ?case by simp
next
  case (Cons c cs)
  obtain h h' where h: "map_of heaps c = Some h" "topk_PopAll \<lparr>elem_value = '''', elem_weight = 0\<rparr> h = Inr (ys c, h')"
    using Cons.prems(2) [of c] by auto
  have rest: "\<exists>g g'. map_of (AList.update c h' heaps) d = Some g \<and> topk_PopAll \<lparr>elem_value = '''', elem_weight = 0\<rparr> g = Inr (ys d, g')"
    if "d \<in> set cs" for d
  proof -
    have "d \<noteq> c" using that Cons.prems(1) by auto
    then show ?thesis using Cons.prems(2) [of d] that by (simp add: update_conv')
  qed
  have "distinct cs" using Cons.prems(1) by simp
  from Cons.IH [OF this rest] show ?case using h by simp
qed

definition merged :: "time \<Rightarrow> (string \<Rightarrow> 'w) \<Rightarrow> string \<Rightarrow> string list \<Rightarrow> 'w score" where
  "merged t W i cats = \<lparr>score_Id = i, score_Score = W i, score_IsHidden = False, score_Categories = cats, score_Timestamp = t\<rparr>"

definition represents :: "time \<Rightarrow> (string \<Rightarrow> 'w) \<Rightarrow> (string \<times> 'w score) list \<Rightarrow> (string \<Rightarrow> string list) \<Rightarrow> bool" where
  "represents t W scores C \<longleftrightarrow> distinct (map fst scores) \<and>
     (\<forall>i. map_of scores i = (if C i = [] then None else Some (merged t W i (C i))))"

lemma represents_step:
  assumes "represents t W scores C" and "elem_weight e = W (elem_value e)"
  shows "represents t W (merge_elems t c scores [e]) (C(elem_value e := C (elem_value e) @ [c]))"
  using assms by (auto simp: represents_def merged_def AList.distinct_update update_conv' split: option.splits)

lemma merge_elems_Cons: "merge_elems t c scores (e # es) = merge_elems t c (merge_elems t c scores [e]) es"
  by simp

lemma represents_merge:
  assumes "represents t W scores C" and "distinct (map elem_value es)" and "\<And>e. e \<in> set es \<Longrightarrow> elem_weight e = W (elem_value e)"
  shows "represents t W (merge_elems t c scores es) (\<lambda>i. C i @ (if i \<in> elem_value ` set es then [c] else []))"
  using assms
proof (induction es arbitrary: scores C)
  case Nil
  then show ?case by simp
next
  case (Cons e es)
  have "represents t W (merge_elems t c (merge_elems t c scores [e]) es)
    (\<lambda>i. (C(elem_value e := C (elem_value e) @ [c])) i @ (if i \<in> elem_value ` set es then [c] else []))"
    by (rule Cons.IH [OF represents_step [OF Cons.prems(1)]]) (use Cons.prems in auto)
  moreover have "(\<lambda>i. (C(elem_value e := C (elem_value e) @ [c])) i @ (if i \<in> elem_value ` set es then [c] else [])) =
    (\<lambda>i. C i @ (if i \<in> elem_value ` set (e # es) then [c] else []))"
  proof
    fix i
    show "(C(elem_value e := C (elem_value e) @ [c])) i @ (if i \<in> elem_value ` set es then [c] else []) =
      C i @ (if i \<in> elem_value ` set (e # es) then [c] else [])"
      using Cons.prems(2) by (cases "i = elem_value e") auto
  qed
  ultimately show ?case by (simp only: merge_elems_Cons [of t c scores e es])
qed

lemma represents_foldl:
  assumes "represents t W scores C" and "\<And>c. c \<in> set cs \<Longrightarrow> distinct (map elem_value (ys c))"
    and "\<And>c e. c \<in> set cs \<Longrightarrow> e \<in> set (ys c) \<Longrightarrow> elem_weight e = W (elem_value e)"
  shows "represents t W (foldl (\<lambda>s c. merge_elems t c s (ys c)) scores cs)
    (\<lambda>i. C i @ filter (\<lambda>c. i \<in> elem_value ` set (ys c)) cs)"
  using assms
proof (induction cs arbitrary: scores C)
  case Nil
  then show ?case by simp
next
  case (Cons c cs)
  have "represents t W (merge_elems t c scores (ys c)) (\<lambda>i. C i @ (if i \<in> elem_value ` set (ys c) then [c] else []))"
    by (rule represents_merge [OF Cons.prems(1) Cons.prems(2) [of c] Cons.prems(3) [of c]]) simp_all
  note step = Cons.IH [OF this Cons.prems(2) Cons.prems(3)]
  have "represents t W (foldl (\<lambda>s c. merge_elems t c s (ys c)) (merge_elems t c scores (ys c)) cs)
    (\<lambda>i. (C i @ (if i \<in> elem_value ` set (ys c) then [c] else [])) @ filter (\<lambda>c. i \<in> elem_value ` set (ys c)) cs)"
    by (rule step) simp_all
  moreover have "(\<lambda>i. (C i @ (if i \<in> elem_value ` set (ys c) then [c] else [])) @ filter (\<lambda>c. i \<in> elem_value ` set (ys c)) cs) =
    (\<lambda>i. C i @ filter (\<lambda>c. i \<in> elem_value ` set (ys c)) (c # cs))" by (simp add: fun_eq_iff)
  ultimately show ?case by simp
qed

subsection \<open>Every category lists its best items\<close>

lemma lb_entries_sub: "set (lb_entries L l c xs) \<subseteq> set (lb_entries L l '''' xs)"
  by (induction xs) (auto split: option.split)

lemma lb_entries_ids: "fst ` set (lb_entries L l c xs) \<subseteq> (\<lambda>x. item_ItemId (fst x)) ` set xs"
  by (induction xs) (auto split: option.split)

lemma lb_entries_distinct: "distinct (map (\<lambda>x. item_ItemId (fst x)) xs) \<Longrightarrow> distinct (map fst (lb_entries L l c xs))"
proof (induction xs)
  case (Cons x xs)
  have "item_ItemId (fst x) \<notin> fst ` set (lb_entries L l c xs)" using Cons.prems lb_entries_ids [of L l c xs] by auto
  then show ?case using Cons by (simp split: option.split)
qed simp

definition popped :: "int \<Rightarrow> (string \<times> 'w::{linorder,zero}) list \<Rightarrow> (string, 'w) elem list" where
  "popped k ps =
     (case topk_push_all (NewTopKFilter k) ps of
        Inl p \<Rightarrow> []
      | Inr f \<Rightarrow> (case topk_PopAll \<lparr>elem_value = '''', elem_weight = 0\<rparr> f of Inl p \<Rightarrow> [] | Inr (es, f') \<Rightarrow> es))"

lemma popped_facts:
  "map elem_weight (popped k ps) = take (nat k) (rev (sort (map snd ps)))"
  "mset (popped k ps) \<subseteq># mset (map mk_elem ps)"
  "topk_push_all (NewTopKFilter k) ps = Inr f \<Longrightarrow> \<exists>f'. topk_PopAll \<lparr>elem_value = '''', elem_weight = 0\<rparr> f = Inr (popped k ps, f')"
proof -
  obtain g ys where g: "topk_push_all (NewTopKFilter k) ps = Inr g"
    "\<And>zero. topk_PopAll zero g = Inr (ys, g\<lparr>elems := []\<rparr>)"
    "map elem_weight ys = take (nat k) (rev (sort (map snd ps)))" "mset ys \<subseteq># mset (map mk_elem ps)"
    by (rule topk_result [of k ps]) blast
  then have "popped k ps = ys" by (simp add: popped_def)
  with g show "map elem_weight (popped k ps) = take (nat k) (rev (sort (map snd ps)))"
    "mset (popped k ps) \<subseteq># mset (map mk_elem ps)"
    "topk_push_all (NewTopKFilter k) ps = Inr f \<Longrightarrow> \<exists>f'. topk_PopAll \<lparr>elem_value = '''', elem_weight = 0\<rparr> f = Inr (popped k ps, f')"
    by simp_all
qed

lemma popped_Nil [simp]: "popped k [] = []"
  using popped_facts(1) [of k "[]"] by simp

lemma popped_in: "e \<in> set (popped k ps) \<Longrightarrow> (elem_value e, elem_weight e) \<in> set ps"
proof -
  assume "e \<in> set (popped k ps)"
  then have "e \<in># mset (map mk_elem ps)" using mset_subset_eqD [OF popped_facts(2)] by auto
  then obtain p where "p \<in> set ps" "e = mk_elem p" by auto
  then show ?thesis by simp
qed

lemma popped_distinct: "distinct (map fst ps) \<Longrightarrow> distinct (map elem_value (popped k ps))"
proof -
  assume d: "distinct (map fst ps)"
  have "image_mset elem_value (mset (popped k ps)) \<subseteq># image_mset elem_value (mset (map mk_elem ps))"
    by (rule image_mset_subseteq_mono [OF popped_facts(2)])
  then have "mset (map elem_value (popped k ps)) \<subseteq># mset (map fst ps)" by (simp add: o_def multiset.map_comp)
  then show ?thesis using d by (rule distinct_sub_mset)
qed

lemma desc_unique:
  assumes "sorted_wrt (\<lambda>a b. b \<le> a) (xs :: 'a::linorder list)" and "sorted_wrt (\<lambda>a b. b \<le> a) ys" and "mset xs = mset ys"
  shows "xs = ys"
proof -
  have "sorted (rev xs)" "sorted (rev ys)" using assms(1,2) by (simp_all add: sorted_wrt_rev)
  moreover have "mset (rev xs) = mset (rev ys)" using assms(3) by simp
  ultimately have "rev xs = rev ys" by (metis properties_for_sort)
  then show ?thesis by simp
qed

lemma desc_take_rev_sort: "sorted_wrt (\<lambda>a b. b \<le> a) (take n (rev (sort (xs :: 'a::linorder list))))"
  by (rule sorted_wrt_take) (simp add: sorted_wrt_rev)

text \<open>The scores of one category in a sorted list of merged entries.\<close>

lemma category_scores:
  fixes W :: "string \<Rightarrow> 'w::linorder"
  assumes out: "mset out = mset (map (\<lambda>i. merged t W i (C i)) ks)" "sorted_wrt (\<lambda>a b. score_Score b \<le> score_Score a) out"
    and ks: "distinct ks" "\<And>i. C i \<noteq> [] \<Longrightarrow> i \<in> set ks"
    and ys: "distinct (map elem_value ys)" "\<And>i. c \<in> set (C i) \<longleftrightarrow> i \<in> elem_value ` set ys"
      "\<And>e. e \<in> set ys \<Longrightarrow> elem_weight e = W (elem_value e)" "sorted_wrt (\<lambda>a b. b \<le> a) (map elem_weight ys)"
  shows "map score_Score (filter (\<lambda>s. c \<in> set (score_Categories s)) out) = map elem_weight ys"
proof (rule desc_unique [OF _ ys(4)])
  show "sorted_wrt (\<lambda>a b. b \<le> a) (map score_Score (filter (\<lambda>s. c \<in> set (score_Categories s)) out))"
    unfolding sorted_wrt_map by (rule sorted_wrt_filter [OF out(2)])
  let ?ks = "filter (\<lambda>i. c \<in> set (C i)) ks"
  have "mset (filter (\<lambda>s. c \<in> set (score_Categories s)) out) =
    filter_mset (\<lambda>s. c \<in> set (score_Categories s)) (mset (map (\<lambda>i. merged t W i (C i)) ks))"
    by (simp only: mset_filter out(1))
  also have "\<dots> = mset (map (\<lambda>i. merged t W i (C i)) ?ks)" by (induction ks) (simp_all add: merged_def)
  finally have m: "mset (map score_Score (filter (\<lambda>s. c \<in> set (score_Categories s)) out)) = mset (map W ?ks)"
    by (metis (no_types, lifting) mset_map map_map comp_def merged_def score.select_convs(2) map_eq_conv)
  have "x \<in> set ?ks \<longleftrightarrow> x \<in> set (map elem_value ys)" for x
    using ks(2) [of x] ys(2) [of x] by (cases "C x") auto
  then have "set ?ks = set (map elem_value ys)" by blast
  then have "mset ?ks = mset (map elem_value ys)"
    using set_eq_iff_mset_eq_distinct [OF distinct_filter [OF ks(1)] ys(1)] by blast
  then have "mset (map W ?ks) = mset (map W (map elem_value ys))" unfolding mset_map by (rule arg_cong)
  also have "map W (map elem_value ys) = map elem_weight ys" using ys(3) by simp
  finally show "mset (map score_Score (filter (\<lambda>s. c \<in> set (score_Categories s)) out)) = mset (map elem_weight ys)"
    using m by (rule trans [rotated])
qed

lemma New_hold:
  assumes "NewNonPersonalized L cfg k t = Inr l"
  shows "lb_heapSize l = k \<and> lb_heaps l = [('''', NewTopKFilter k)]"
  using assms by (auto simp: NewNonPersonalized_def Let_def split: sum.splits if_splits)

lemma leaderboard_lists:
  fixes L :: "('p, 'w::{linorder,zero}) expr_lib"
  assumes E: "env_ok E" and new: "NewNonPersonalized L cfg k t = Inr l" and bool: "filter_ok L l"
    and items: "\<forall>x \<in> set xs. item_ok (fst x)" and ids: "distinct (map (\<lambda>x. item_ItemId (fst x)) xs)"
  shows "\<exists>l1 out l2. lb_push_all L l xs = Inr l1 \<and> lb_PopAll E l1 = Inr (out, l2) \<and> distinct (map score_Id out) \<and>
    sorted_wrt (\<lambda>a b. score_Score b \<le> score_Score a) out \<and>
    (\<forall>c. map score_Score (filter (\<lambda>s. c \<in> set (score_Categories s)) out) = take (nat k) (rev (sort (map snd (lb_entries L l c xs))))) \<and>
    (\<forall>s \<in> set out. \<forall>c \<in> set (score_Categories s). (score_Id s, score_Score s) \<in> set (lb_entries L l c xs))"
proof -
  let ?P = "\<lambda>c. lb_entries L l c xs" and ?zero = "\<lparr>elem_value = '''', elem_weight = 0\<rparr> :: (string, 'w) elem"
  note l = New_hold [OF new]
  have hold0: "heaps_hold (lb_heapSize l) (\<lambda>c. []) (lb_heaps l)" by (simp add: l heaps_hold_def)
  have root: "'''' \<in> fst ` set (lb_heaps l)" by (simp add: l)
  from lb_push_all_hold [OF bool items hold0 root]
  obtain heaps where push: "lb_push_all L l xs = Inr (l\<lparr>lb_heaps := heaps\<rparr>)" and hold: "heaps_hold k ?P heaps"
    using l by auto
  let ?cs = "env_Iter E (map fst heaps)" and ?ys = "\<lambda>c. popped k (?P c)"
  have dkeys: "distinct (map fst heaps)" using hold by (simp add: heaps_hold_def)
  have cs: "distinct ?cs" "set ?cs = fst ` set heaps" using env_ok_Iter_distinct [OF E] dkeys env_ok_Iter_set [OF E] by simp_all
  have key: "\<exists>h h'. map_of heaps c = Some h \<and> topk_PopAll ?zero h = Inr (?ys c, h')" if "c \<in> set ?cs" for c
  proof -
    have "map_of heaps c \<noteq> None" using that cs(2) by (simp only: map_of_eq_None_iff not_not)
    then obtain h where h: "map_of heaps c = Some h" by blast
    then show ?thesis using popped_facts(3) [OF heaps_holdD [OF hold h]] by blast
  qed
  have nokey: "?ys c = []" if "c \<notin> set ?cs" for c
  proof -
    have "map_of heaps c = None" using that unfolding cs(2) map_of_eq_None_iff .
    then show ?thesis using heaps_hold_None [OF hold] by simp
  qed
  define W where "W = (\<lambda>i. the (map_of (?P '''') i))"
  have W: "w = W i" if "(i, w) \<in> set (?P c)" for c i w
    using that lb_entries_sub [of L l c xs] map_of_is_SomeI [OF lb_entries_distinct [OF ids]] unfolding W_def by fastforce
  have yW: "elem_weight e = W (elem_value e)" if "e \<in> set (?ys c)" for c e using W [OF popped_in [OF that]] .
  have yd: "distinct (map elem_value (?ys c))" for c by (rule popped_distinct [OF lb_entries_distinct [OF ids]])
  let ?C = "\<lambda>i. filter (\<lambda>c. i \<in> elem_value ` set (?ys c)) ?cs"
  define scores where "scores = foldl (\<lambda>s c. merge_elems (lb_timestamp l) c s (?ys c)) [] ?cs"
  obtain heaps' where pop: "pop_heaps (lb_timestamp l) ?cs heaps [] = Inr (scores, heaps')"
    using pop_heaps_eq [OF cs(1) key, where t = "lb_timestamp l" and scores = "[]"] unfolding scores_def by blast
  have "represents (lb_timestamp l) W [] (\<lambda>i. [])" by (simp add: represents_def)
  from represents_foldl [OF this, where cs = ?cs and ys = ?ys, OF yd yW]
  have rep: "represents (lb_timestamp l) W scores ?C" unfolding scores_def by simp
  let ?ks = "env_Iter E (map fst scores)"
  have ks: "distinct ?ks" "set ?ks = fst ` set scores"
    using rep env_ok_Iter_distinct [OF E] env_ok_Iter_set [OF E] by (simp_all add: represents_def)
  have C_ks: "?C i \<noteq> [] \<longleftrightarrow> i \<in> set ?ks" for i
    using rep unfolding represents_def ks(2) by (metis map_of_eq_None_iff option.distinct(1))
  have entry: "map_of scores i = (if ?C i = [] then None else Some (merged (lb_timestamp l) W i (?C i)))" for i
    using rep unfolding represents_def by blast
  have "the (map_of scores i) = merged (lb_timestamp l) W i (?C i)" if "i \<in> set ?ks" for i
  proof -
    have "?C i \<noteq> []" using that C_ks by blast
    then show ?thesis unfolding entry by (subst if_not_P) (assumption, rule option.sel)
  qed
  then have vals: "map (\<lambda>i. the (map_of scores i)) ?ks = map (\<lambda>i. merged (lb_timestamp l) W i (?C i)) ?ks" by simp
  define out where "out = env_SortDocuments E (map (\<lambda>i. merged (lb_timestamp l) W i (?C i)) ?ks)"
  have sorted: "mset out = mset (map (\<lambda>i. merged (lb_timestamp l) W i (?C i)) ?ks)"
    "sorted_wrt (\<lambda>a b. score_Score b \<le> score_Score a) out"
    using env_ok_SortDocuments [OF E] unfolding is_SortDocuments_def out_def by blast+
  have run: "lb_PopAll E (l\<lparr>lb_heaps := heaps\<rparr>) = Inr (out, l\<lparr>lb_heaps := heaps'\<rparr>)"
    unfolding out_def vals [symmetric] using pop by (simp add: lb_PopAll_def)
  have "mset (map score_Id out) = mset ?ks"
    using arg_cong [OF sorted(1), of "image_mset score_Id"] by (simp add: merged_def multiset.map_comp o_def)
  then have dist: "distinct (map score_Id out)" using ks(1) by (metis mset_eq_imp_distinct_iff)
  have cat: "map score_Score (filter (\<lambda>s. c \<in> set (score_Categories s)) out) = take (nat k) (rev (sort (map snd (?P c))))" for c
  proof -
    have "c \<in> set (?C i) \<longleftrightarrow> i \<in> elem_value ` set (?ys c)" for i
      using nokey [of c] by (cases "c \<in> set ?cs") simp_all
    moreover have "sorted_wrt (\<lambda>a b. b \<le> a) (map elem_weight (?ys c))"
      unfolding popped_facts(1) by (rule desc_take_rev_sort)
    moreover have "i \<in> set ?ks" if "?C i \<noteq> []" for i using that C_ks by blast
    ultimately have "map score_Score (filter (\<lambda>s. c \<in> set (score_Categories s)) out) = map elem_weight (?ys c)"
      using category_scores [OF sorted ks(1) _ yd _ yW [of _ c]] by blast
    then show ?thesis unfolding popped_facts(1) .
  qed
  have "(score_Id s, score_Score s) \<in> set (?P c)" if s: "s \<in> set out" "c \<in> set (score_Categories s)" for s c
  proof -
    obtain i where i: "s = merged (lb_timestamp l) W i (?C i)" using s(1) mset_eq_setD [OF sorted(1)] by auto
    then have "i \<in> elem_value ` set (?ys c)" using s(2) by (simp add: merged_def)
    then obtain e where e: "e \<in> set (?ys c)" "elem_value e = i" by auto
    then have "(i, elem_weight e) \<in> set (?P c)" using popped_in [OF e(1)] by simp
    then show ?thesis using yW [OF e(1)] e(2) i by (simp add: merged_def)
  qed
  then show ?thesis using push run dist sorted(2) cat by blast
qed

text \<open>(C7) A leaderboard of size \<open>k\<close> into which items with distinct ids have been pushed: \<open>PopAll\<close> lists every
  item at most once, by decreasing score; for each category (and for \<open>""\<close>, all items) the listed scores
  are the \<open>k\<close> greatest among the scores of the visible items of the category that pass the filter;
  and every listed score is the one computed for the item. Neither \<open>Push\<close> nor \<open>PopAll\<close> panics.\<close>

theorem leaderboard_top_k:
  fixes L :: "('p, 'w::{linorder,zero}) expr_lib"
  assumes E: "env_ok E" and new: "NewNonPersonalized L cfg k t = Inr l" and bool: "filter_ok L l"
    and items: "\<forall>x \<in> set xs. item_ok (fst x)" and ids: "distinct (map (\<lambda>x. item_ItemId (fst x)) xs)"
  shows "\<exists>l1 out l2. lb_push_all L l xs = Inr l1 \<and> lb_PopAll E l1 = Inr (out, l2) \<and> distinct (map score_Id out) \<and>
    sorted_wrt (\<lambda>a b. score_Score b \<le> score_Score a) out \<and>
    (\<forall>c. map score_Score (filter (\<lambda>s. c \<in> set (score_Categories s)) out) = take (nat k) (rev (sort (map snd (lb_entries L l c xs))))) \<and>
    (\<forall>s \<in> set out. \<forall>c \<in> set (score_Categories s). (score_Id s, score_Score s) \<in> set (lb_entries L l c xs))"
  by (rule leaderboard_lists [OF assms])

subsection \<open>An example\<close>

definition example_lib :: "(string, int) expr_lib" where
  "example_lib = \<lparr>el_Compile = (\<lambda>s. Inr s), el_Kind = (\<lambda>p. if p = ''f'' then KindBool else KindInt),
     el_Run = (\<lambda>p i fs. if p = ''f'' then Inr (VBool True) else Inr (VInt (item_Timestamp i))), el_Float = (\<lambda>n. n)\<rparr>"

definition example_entry :: "string \<Rightarrow> time \<Rightarrow> item \<times> int feedback list" where
  "example_entry i t = (\<lparr>item_ItemId = i, item_IsHidden = False, item_Categories = [''x''], item_Timestamp = t,
     item_UpdateAt = 0, item_Labels = JNull, item_Comment = ''''\<rparr>, [])"

theorem leaderboard_top_k_witness:
  "\<exists>l l1 out l2. NewNonPersonalized example_lib \<lparr>np_Name = ''n'', np_Score = ''s'', np_Filter = ''f''\<rparr> 1 0 = Inr l \<and>
     lb_push_all example_lib l [example_entry ''a'' 3, example_entry ''b'' 5] = Inr l1 \<and>
     lb_PopAll (plain_env 0 (\<lambda>t. t)) l1 = Inr (out, l2) \<and>
     map score_Score (filter (\<lambda>s. ''x'' \<in> set (score_Categories s)) out) = [5]"
proof -
  let ?cfg = "\<lparr>np_Name = ''n'', np_Score = ''s'', np_Filter = ''f''\<rparr>" and ?xs = "[example_entry ''a'' 3, example_entry ''b'' 5]"
  obtain l where l: "NewNonPersonalized example_lib ?cfg 1 0 = Inr l" "lb_scoreFunc l = ''s''" "lb_filterFunc l = Some ''f''"
    by (simp add: NewNonPersonalized_def example_lib_def)
  have ok: "filter_ok example_lib l" using l(3) by (auto simp: filter_ok_def example_lib_def)
  have items: "\<forall>x \<in> set ?xs. item_ok (fst x)" by (simp add: item_ok_def example_entry_def)
  have ids: "distinct (map (\<lambda>x. item_ItemId (fst x)) ?xs)" by (simp add: example_entry_def)
  have entries: "map snd (lb_entries example_lib l ''x'' ?xs) = [3, 5]"
    using l by (simp add: lb_entry_def lb_passes_def lb_score_def example_lib_def example_entry_def)
  from leaderboard_top_k [OF plain_env_ok l(1) ok items ids, of 0 "\<lambda>t. t"]
  obtain l1 out l2 where r: "lb_push_all example_lib l ?xs = Inr l1" "lb_PopAll (plain_env 0 (\<lambda>t. t)) l1 = Inr (out, l2)"
    "\<forall>c. map score_Score (filter (\<lambda>s. c \<in> set (score_Categories s)) out) =
      take (nat 1) (rev (sort (map snd (lb_entries example_lib l c ?xs))))" by blast
  have "map score_Score (filter (\<lambda>s. ''x'' \<in> set (score_Categories s)) out) = [5]"
    unfolding r(3) [rule_format] entries by simp
  then show ?thesis using l(1) r(1,2)
    by (intro exI [of _ l] exI [of _ l1] exI [of _ out] exI [of _ l2] conjI)
qed

end
