(* ===== verification/Random_Sampling.thy ===== *)
theory Random_Sampling
  imports Prelude
begin

text \<open>
  Sampling without replacement, \<open>common/util/random.go\<close>. The generator of \<open>math/rand\<close> is a function from its
  state to a draw and the next state. The rejection loop may never end, so it is a partial function: \<open>None\<close> is the
  loop that runs forever. That it ends for a generator that keeps producing every value is a theorem.
\<close>

partial_function (option) sample_loop :: "('g \<Rightarrow> 'a \<times> 'g) \<Rightarrow> int \<Rightarrow> 'a set \<Rightarrow> 'a list \<Rightarrow> 'g \<Rightarrow> ('a list \<times> 'g) option" where
  [code]: "sample_loop draw n excl sampled g =
     (if int (length sampled) < n
      then case draw g of (v, g') \<Rightarrow>
        if v \<notin> excl then sample_loop draw n (insert v excl) (sampled @ [v]) g'
        else sample_loop draw n excl sampled g'
      else Some (sampled, g))"

fun sample_rest :: "'a set \<Rightarrow> 'a list \<Rightarrow> 'a list \<Rightarrow> 'a list" where
  "sample_rest excl sampled [] = sampled"
| "sample_rest excl sampled (i # is) =
     (if i \<notin> excl then sample_rest (insert i excl) (sampled @ [i]) is else sample_rest excl sampled is)"

text \<open>\<open>Int31n\<close> and \<open>Intn\<close> panic unless the bound is positive.\<close>

definition Sample :: "(int \<Rightarrow> 'g \<Rightarrow> int \<times> 'g) \<Rightarrow> int \<Rightarrow> int \<Rightarrow> int \<Rightarrow> int set \<Rightarrow> 'g \<Rightarrow> (go_panic + int list \<times> 'g) option" where
  "Sample Intn low high n excl g =
     (let len = high - low in
      if n < 0 then Some (Inl NegativeLength)
      else if n \<ge> len - int (card excl) then Some (Inr (sample_rest excl [] [low..high - 1], g))
      else if len \<le> 0 then Some (Inl (ExplicitPanic ''invalid argument to Intn''))
      else map_option Inr (sample_loop (\<lambda>g. case Intn len g of (v, g') \<Rightarrow> (v + low, g')) n excl [] g))"

definition SampleInt32 :: "(i32 \<Rightarrow> 'g \<Rightarrow> i32 \<times> 'g) \<Rightarrow> i32 \<Rightarrow> i32 \<Rightarrow> int \<Rightarrow> i32 set \<Rightarrow> 'g \<Rightarrow> (go_panic + i32 list \<times> 'g) option" where
  "SampleInt32 Int31n low high n excl g =
     (let len = high - low in
      if n < 0 then Some (Inl NegativeLength)
      else if n \<ge> sint len - int (card excl) then Some (Inr (sample_rest excl [] (i32_range low high), g))
      else if sint len \<le> 0 then Some (Inl (ExplicitPanic ''invalid argument to Int31n''))
      else map_option Inr (sample_loop (\<lambda>g. case Int31n len g of (v, g') \<Rightarrow> (v + low, g')) n excl [] g))"

subsection \<open>The loops\<close>

lemma sample_rest_facts:
  "distinct is \<Longrightarrow> sample_rest excl sampled is = sampled @ filter (\<lambda>i. i \<notin> excl) is"
proof (induction "is" arbitrary: excl sampled)
  case (Cons i js)
  have "filter (\<lambda>x. x \<notin> insert i excl) js = filter (\<lambda>x. x \<notin> excl) js"
    using Cons.prems by (intro filter_cong) auto
  then show ?case using Cons by simp
qed simp

text \<open>The state of the generator after some draws.\<close>

definition drawn :: "('g \<Rightarrow> 'a \<times> 'g) \<Rightarrow> nat \<Rightarrow> 'g \<Rightarrow> 'g" where
  "drawn draw k = (\<lambda>g. snd (draw g)) ^^ k"

text \<open>A fair generator over \<open>R\<close> draws only from \<open>R\<close> and, from every state, eventually draws each value of \<open>R\<close>.\<close>

definition fair_draw :: "('g \<Rightarrow> 'a \<times> 'g) \<Rightarrow> 'a set \<Rightarrow> bool" where
  "fair_draw draw R \<longleftrightarrow> (\<forall>g. fst (draw g) \<in> R) \<and> (\<forall>g. \<forall>v \<in> R. \<exists>k. fst (draw (drawn draw k g)) = v)"

lemma sample_loop_step:
  "int (length sampled) < n \<Longrightarrow> fst (draw (drawn draw k g)) \<notin> excl \<Longrightarrow>
   \<exists>v g'. v \<notin> excl \<and> (\<exists>j. v = fst (draw (drawn draw j g))) \<and>
     sample_loop draw n excl sampled g = sample_loop draw n (insert v excl) (sampled @ [v]) g'"
proof (induction k arbitrary: g)
  case 0
  obtain v g' where d: "draw g = (v, g')" by fastforce
  have "sample_loop draw n excl sampled g = sample_loop draw n (insert v excl) (sampled @ [v]) g'"
    using 0 d by (subst sample_loop.simps) (simp add: drawn_def)
  moreover have "v \<notin> excl \<and> v = fst (draw (drawn draw 0 g))" using 0 d by (simp add: drawn_def)
  ultimately show ?case by blast
next
  case (Suc k)
  obtain v g' where d: "draw g = (v, g')" by fastforce
  show ?case
  proof (cases "v \<in> excl")
    case True
    have shift: "drawn draw (Suc j) g = drawn draw j g'" for j
      using d by (simp add: drawn_def funpow_Suc_right del: funpow.simps)
    have "sample_loop draw n excl sampled g = sample_loop draw n excl sampled g'"
      using Suc.prems(1) d True by (subst sample_loop.simps) simp
    moreover have "fst (draw (drawn draw k g')) \<notin> excl" using Suc.prems(2) unfolding shift .
    ultimately show ?thesis using Suc.IH [OF Suc.prems(1), of g'] shift by metis
  next
    case False
    have "sample_loop draw n excl sampled g = sample_loop draw n (insert v excl) (sampled @ [v]) g'"
      using Suc.prems(1) d False by (subst sample_loop.simps) simp
    moreover have "v = fst (draw (drawn draw 0 g))" using d by (simp add: drawn_def)
    ultimately show ?thesis using False by blast
  qed
qed

lemma sample_loop_ends:
  assumes fair: "fair_draw draw R" and fin: "finite R" "finite excl" and sub: "excl \<subseteq> R"
    and room: "n \<le> int (length sampled) + int (card (R - excl))"
  shows "\<exists>xs g'. sample_loop draw n excl sampled g = Some (sampled @ xs, g') \<and> distinct xs \<and> set xs \<subseteq> R - excl \<and>
    int (length sampled + length xs) = max n (int (length sampled))"
  using fin(2) sub room
proof (induction "nat (n - int (length sampled))" arbitrary: excl sampled g rule: less_induct)
  case less
  show ?case
  proof (cases "int (length sampled) < n")
    case False
    then have "sample_loop draw n excl sampled g = Some (sampled, g)" by (subst sample_loop.simps) simp
    then show ?thesis using False by (intro exI [of _ "[]"] exI [of _ g]) simp
  next
    case True
    then have "card (R - excl) > 0" using less.prems(3) by linarith
    then obtain w where w: "w \<in> R" "w \<notin> excl" using card_gt_0_iff [of "R - excl"] by blast
    then obtain k where "fst (draw (drawn draw k g)) = w" using fair unfolding fair_draw_def by blast
    with w have "fst (draw (drawn draw k g)) \<notin> excl" by simp
    from sample_loop_step [of sampled n draw k g excl, OF True this] obtain v g' j where v: "v \<notin> excl" "v = fst (draw (drawn draw j g))"
      and step: "sample_loop draw n excl sampled g = sample_loop draw n (insert v excl) (sampled @ [v]) g'" by blast
    have vR: "v \<in> R" using fair v(2) unfolding fair_draw_def by simp
    have card: "card (R - excl) = Suc (card (R - insert v excl))"
      unfolding Diff_insert [of R v excl] by (rule card.remove) (use fin(1) vR v(1) in auto)
    have smaller: "nat (n - int (length (sampled @ [v]))) < nat (n - int (length sampled))" using True by simp
    have room: "n \<le> int (length (sampled @ [v])) + int (card (R - insert v excl))" using less.prems(3) card by simp
    have "finite (insert v excl)" "insert v excl \<subseteq> R" using less.prems(1,2) vR by simp_all
    from less.hyps [OF smaller this room, of g'] obtain xs g2 where xs: "sample_loop draw n (insert v excl) (sampled @ [v]) g' = Some ((sampled @ [v]) @ xs, g2)" "distinct xs"
        "set xs \<subseteq> R - insert v excl" "int (length (sampled @ [v]) + length xs) = max n (int (length (sampled @ [v])))"
      by blast
    have "distinct (v # xs)" "set (v # xs) \<subseteq> R - excl" using xs(2,3) vR v(1) by auto
    moreover have "int (length sampled + length (v # xs)) = max n (int (length sampled))" using xs(4) True by simp
    ultimately show ?thesis using xs(1) unfolding step by (intro exI [of _ "v # xs"] exI [of _ g2]) simp
  qed
qed

subsection \<open>Samples\<close>

lemma SampleInt32_result:
  assumes range: "sint low \<le> sint high" "sint high - sint low < 2147483648" and n: "0 \<le> n"
    and excl: "excl \<subseteq> set (i32_range low high)"
    and fair: "fair_draw (\<lambda>g. case Int31n (high - low) g of (v, g') \<Rightarrow> (v + low, g')) (set (i32_range low high))"
  shows "\<exists>xs g'. SampleInt32 Int31n low high n excl g = Some (Inr (xs, g')) \<and> distinct xs \<and>
    set xs \<subseteq> set (i32_range low high) - excl \<and> length xs = min (nat n) (card (set (i32_range low high) - excl))"
proof -
  let ?R = "set (i32_range low high)"
  have len: "sint (high - low) = sint high - sint low"
    using range by (simp add: sint_word_ariths signed_take_bit_int_eq_self)
  have cardR: "card ?R = nat (sint high - sint low)"
    using distinct_card [OF distinct_i32_range] by (simp add: length_i32_range)
  have fin: "finite excl" using excl by (rule finite_subset) simp
  have cardD: "int (card (?R - excl)) = sint high - sint low - int (card excl)"
    using card_Diff_subset [OF fin excl] card_mono [OF _ excl] cardR range(1) by (simp add: of_nat_diff)
  show ?thesis
  proof (cases "n \<ge> sint (high - low) - int (card excl)")
    case True
    let ?xs = "filter (\<lambda>i. i \<notin> excl) (i32_range low high)"
    have "length ?xs = card (?R - excl)"
      using distinct_card [of ?xs] distinct_filter [OF distinct_i32_range] by (simp add: set_diff_eq)
    moreover have "int (card (?R - excl)) \<le> n" using True len cardD by simp
    ultimately have "length ?xs = min (nat n) (card (?R - excl))" by simp
    then show ?thesis using True n
      by (intro exI [of _ ?xs] exI [of _ g]) (auto simp: SampleInt32_def Let_def sample_rest_facts distinct_i32_range)
  next
    case False
    have "n \<le> int (length ([] :: i32 list)) + int (card (?R - excl))" using False len cardD by simp
    from sample_loop_ends [OF fair _ fin excl this, of g] obtain xs g' where xs:
      "sample_loop (\<lambda>g. case Int31n (high - low) g of (v, g') \<Rightarrow> (v + low, g')) n excl [] g = Some (xs, g')" "distinct xs"
      "set xs \<subseteq> ?R - excl" "int (length xs) = max n 0" by auto
    have "sint (high - low) > 0" using False n by linarith
    moreover have "length xs = min (nat n) (card (?R - excl))" using xs(4) n False len cardD by simp
    ultimately show ?thesis using xs False n by (auto simp: SampleInt32_def Let_def)
  qed
qed

text \<open>(C35) Sampling ends, for every fair generator, with distinct values of the interval outside the excluded set: \<open>n\<close>
  of them, or all of them when fewer are left. The excluded values must lie in the interval: the code compares \<open>n\<close> with
  the length of the interval less the number of excluded values.\<close>

theorem SampleInt32_ends:
  assumes "sint low \<le> sint high" "sint high - sint low < 2147483648" and "0 \<le> n"
    and "excl \<subseteq> set (i32_range low high)"
    and "fair_draw (\<lambda>g. case Int31n (high - low) g of (v, g') \<Rightarrow> (v + low, g')) (set (i32_range low high))"
  shows "\<exists>xs g'. SampleInt32 Int31n low high n excl g = Some (Inr (xs, g')) \<and> distinct xs \<and>
    set xs \<subseteq> set (i32_range low high) - excl \<and> length xs = min (nat n) (card (set (i32_range low high) - excl))"
  using assms by (rule SampleInt32_result)

text \<open>A generator that counts.\<close>

definition counting_draw :: "i32 \<Rightarrow> nat \<Rightarrow> i32 \<times> nat" where
  "counting_draw n g = (of_nat (g mod unat n), Suc g)"

lemma counting_drawn: "drawn (counting_draw n) k g = g + k"
  by (induction k) (simp_all add: drawn_def counting_draw_def)

lemma counting_fair:
  assumes n: "0 < n" "n < 2147483648"
  shows "fair_draw (counting_draw (of_nat n)) (set (i32_range 0 (of_nat n)))"
proof -
  have un: "unat (of_nat n :: i32) = n" using n by (simp add: unat_of_nat take_bit_nat_eq_self)
  have member: "(of_nat m :: i32) \<in> set (i32_range 0 (of_nat n))" if "m < n" for m
    using that n by (simp add: set_i32_range)
  have back_to: "\<exists>m < n. v = of_nat m" if "v \<in> set (i32_range 0 (of_nat n))" for v :: i32
  proof -
    have v: "0 \<le> sint v" "sint v < int n" using that n by (simp_all add: set_i32_range)
    then have "sint (of_nat (nat (sint v)) :: i32) = sint v" using n by simp
    then have "v = of_nat (nat (sint v))" by (metis signed_word_eqI)
    moreover have "nat (sint v) < n" using v by linarith
    ultimately show ?thesis by blast
  qed
  have "\<exists>k. fst (counting_draw (of_nat n) (drawn (counting_draw (of_nat n)) k g)) = of_nat m" if "m < n" for g m
  proof (intro exI)
    have "(g + (m + (n - 1) * g)) mod n = m"
      using that n by (metis add.assoc add.commute add.left_commute add_diff_inverse_nat gr_implies_not0 less_one mod_less mod_mult_self2 mult.commute mult_Suc plus_1_eq_Suc)
    then show "fst (counting_draw (of_nat n) (drawn (counting_draw (of_nat n)) (m + (n - 1) * g) g)) = of_nat m"
      by (simp add: counting_drawn counting_draw_def un)
  qed
  moreover have "fst (counting_draw (of_nat n) g) \<in> set (i32_range 0 (of_nat n))" for g
    using n member by (simp add: counting_draw_def un)
  ultimately show ?thesis unfolding fair_draw_def using back_to by metis
qed

theorem SampleInt32_ends_witness:
  "\<exists>xs g'. SampleInt32 counting_draw 0 5 2 {1} 0 = Some (Inr (xs, g')) \<and> distinct xs \<and> length xs = 2"
proof -
  have R: "set (i32_range 0 5) = {0, 1, 2, 3, 4}" by code_simp
  have "fair_draw (\<lambda>g. case counting_draw (5 - 0) g of (v, g') \<Rightarrow> (v + 0, g')) (set (i32_range 0 5))"
    using counting_fair [of 5] by (simp add: case_prod_beta')
  from SampleInt32_ends [where low = 0 and high = 5 and n = 2 and excl = "{1}" and Int31n = counting_draw and g = 0, OF _ _ _ _ this]
  have "\<exists>xs g'. SampleInt32 counting_draw 0 5 2 {1} 0 = Some (Inr (xs, g')) \<and> distinct xs \<and>
    set xs \<subseteq> set (i32_range 0 5) - {1} \<and> length xs = min (nat 2) (card (set (i32_range 0 5) - {1}))"
    by (simp add: R)
  moreover have "card (set (i32_range 0 5) - {1}) = 4" unfolding R by code_simp
  ultimately show ?thesis by auto
qed

end
