(* ===== verification/Dataset.thy ===== *)
theory Dataset
  imports Random_Sampling Id_Index Storage_Data
begin

text \<open>
  \<open>dataset/dataset.go\<close>: the data set of users, items and positive feedback over dense indices, the compression of
  labels, and the splits into a training and a test set. Users are numbered by \<open>int32\<close>. The half-precision
  conversion \<open>floats.FromAny\<close> and the order that the unstable \<open>sort.Slice\<close> gives are parameters.
\<close>

subsection \<open>Labels\<close>

datatype label =
    LRaw json
  | LObject "(string \<times> label) list"
  | LFloats "16 word list"
  | LIDs "i32 list"
  | LID i32

fun id_list :: "string \<Rightarrow> freq_dict \<Rightarrow> json list \<Rightarrow> go_panic + freq_dict \<times> i32 list" where
  "id_list parent d [] = Inr (d, [])"
| "id_list parent d (x # xs) =
     (case x of
        JString s \<Rightarrow> p_bind (fd_Add d (parent @ '':'' @ s)) (\<lambda>(d1, y).
          p_bind (id_list parent d1 xs) (\<lambda>(d2, ys). Inr (d2, y # ys)))
      | _ \<Rightarrow> Inl (ExplicitPanic ''interface conversion''))"

text \<open>\<open>processLabels\<close>, with the interned field names left out: \<open>Pool.Align\<close> returns an equal string. A slice of half-precision
  floats is \<open>LFloats\<close>, whether it was there already or was made of an array.\<close>

fun processLabels :: "(json list \<Rightarrow> 16 word list option) \<Rightarrow> freq_dict \<Rightarrow> string \<Rightarrow> json \<Rightarrow> go_panic + freq_dict \<times> label"
  and processLabels_fields :: "(json list \<Rightarrow> 16 word list option) \<Rightarrow> freq_dict \<Rightarrow> string \<Rightarrow> (string \<times> json) list \<Rightarrow>
    go_panic + freq_dict \<times> (string \<times> label) list" where
  "processLabels FromAny d parent (JObject kvs) =
     p_bind (processLabels_fields FromAny d parent kvs) (\<lambda>(d', o'). Inr (d', LObject o'))"
| "processLabels FromAny d parent (JArray xs) =
     (case FromAny xs of
        Some values \<Rightarrow> Inr (d, LFloats values)
      | None \<Rightarrow> if list_all is_JString xs then p_bind (id_list parent d xs) (\<lambda>(d', ids). Inr (d', LIDs ids))
               else Inr (d, LRaw (JArray xs)))"
| "processLabels FromAny d parent (JString s) =
     p_bind (fd_Add d (parent @ '':'' @ s)) (\<lambda>(d', y). Inr (d', LID y))"
| "processLabels FromAny d parent JNull = Inr (d, LRaw JNull)"
| "processLabels FromAny d parent (JBool b) = Inr (d, LRaw (JBool b))"
| "processLabels FromAny d parent (JNumber n) = Inr (d, LRaw (JNumber n))"
| "processLabels FromAny d parent (JFloat n) = Inr (d, LRaw (JFloat n))"
| "processLabels FromAny d parent (JHalfs hs) = Inr (d, LFloats hs)"
| "processLabels_fields FromAny d parent [] = Inr (d, [])"
| "processLabels_fields FromAny d parent ((k, v) # kvs) =
     p_bind (processLabels FromAny d (parent @ ''.'' @ k) v) (\<lambda>(d1, l).
     p_bind (processLabels_fields FromAny d1 parent kvs) (\<lambda>(d2, ls). Inr (d2, (k, l) # ls)))"

subsection \<open>The data set\<close>

record dataset_user =
  du_UserId :: string
  du_Labels :: "label"
  du_Comment :: string

record dataset_item =
  di_ItemId :: string
  di_IsHidden :: bool
  di_Categories :: "string list"
  di_Timestamp :: time
  di_Labels :: "label"
  di_Comment :: string

record dataset =
  dt_timestamp :: time
  dt_users :: "dataset_user list"
  dt_items :: "dataset_item list"
  dt_userLabels :: freq_dict
  dt_itemLabels :: freq_dict
  dt_userFeedback :: "i32 list list"
  dt_itemFeedback :: "i32 list list"
  dt_timestamps :: "time list list"
  dt_negatives :: "i32 list list"
  dt_userDict :: freq_dict
  dt_itemDict :: freq_dict
  dt_numFeedback :: int
  dt_categories :: "string \<rightharpoonup> int"

definition NewDataset :: "time \<Rightarrow> int \<Rightarrow> int \<Rightarrow> go_panic + dataset" where
  "NewDataset t userCount itemCount =
     (if userCount < 0 \<or> itemCount < 0 then Inl NegativeLength
      else Inr \<lparr>dt_timestamp = t, dt_users = [], dt_items = [], dt_userLabels = NewFreqDict, dt_itemLabels = NewFreqDict,
        dt_userFeedback = replicate (nat userCount) [], dt_itemFeedback = replicate (nat itemCount) [],
        dt_timestamps = replicate (nat userCount) [], dt_negatives = [], dt_userDict = NewFreqDict, dt_itemDict = NewFreqDict,
        dt_numFeedback = 0, dt_categories = Map.empty\<rparr>)"

definition CountUsers :: "dataset \<Rightarrow> nat" where
  "CountUsers d = length (dt_users d)"

definition CountItems :: "dataset \<Rightarrow> nat" where
  "CountItems d = length (dt_items d)"

definition CountFeedback :: "dataset \<Rightarrow> int" where
  "CountFeedback d = dt_numFeedback d"

text \<open>\<open>if len(xs) < n { xs = append(xs, nil) }\<close>\<close>

definition grow :: "nat \<Rightarrow> 'a list list \<Rightarrow> 'a list list" where
  "grow n xs = (if length xs < n then xs @ [[]] else xs)"

definition AddUser :: "(json list \<Rightarrow> 16 word list option) \<Rightarrow> user \<Rightarrow> dataset \<Rightarrow> go_panic + dataset" where
  "AddUser FromAny u d =
     p_bind (processLabels FromAny (dt_userLabels d) '''' (user_Labels u)) (\<lambda>(labels, l).
     let users = dt_users d @ [\<lparr>du_UserId = user_UserId u, du_Labels = l, du_Comment = user_Comment u\<rparr>] in
     Inr (d\<lparr>dt_userLabels := labels, dt_users := users, dt_userDict := fst (fd_AddNoCount (dt_userDict d) (user_UserId u)),
       dt_userFeedback := grow (length users) (dt_userFeedback d), dt_timestamps := grow (length users) (dt_timestamps d)\<rparr>))"

fun count_categories :: "(string \<rightharpoonup> int) \<Rightarrow> string list \<Rightarrow> (string \<rightharpoonup> int)" where
  "count_categories m [] = m"
| "count_categories m (c # cs) = count_categories (m(c \<mapsto> (case m c of None \<Rightarrow> 0 | Some n \<Rightarrow> n) + 1)) cs"

definition AddItem :: "(json list \<Rightarrow> 16 word list option) \<Rightarrow> item \<Rightarrow> dataset \<Rightarrow> go_panic + dataset" where
  "AddItem FromAny i d =
     p_bind (processLabels FromAny (dt_itemLabels d) '''' (item_Labels i)) (\<lambda>(labels, l).
     let items = dt_items d @ [\<lparr>di_ItemId = item_ItemId i, di_IsHidden = item_IsHidden i, di_Categories = item_Categories i,
           di_Timestamp = item_Timestamp i, di_Labels = l, di_Comment = item_Comment i\<rparr>] in
     Inr (d\<lparr>dt_itemLabels := labels, dt_items := items, dt_itemDict := fst (fd_AddNoCount (dt_itemDict d) (item_ItemId i)),
       dt_itemFeedback := grow (length items) (dt_itemFeedback d), dt_categories := count_categories (dt_categories d) (item_Categories i)\<rparr>))"

text \<open>\<open>xs[k] = append(xs[k], x)\<close> with an \<open>int32\<close> index.\<close>

definition append_at :: "i32 \<Rightarrow> 'a \<Rightarrow> 'a list list \<Rightarrow> go_panic + 'a list list" where
  "append_at k x xs =
     (if 0 \<le> sint k \<and> sint k < int (length xs) then Inr (xs[nat (sint k) := xs ! nat (sint k) @ [x]]) else Inl IndexOutOfRange)"

text \<open>The four updates that record one feedback; \<open>AddFeedback\<close> and the splits share them.\<close>

definition record_feedback :: "i32 \<Rightarrow> i32 \<Rightarrow> time \<Rightarrow> dataset \<Rightarrow> go_panic + dataset" where
  "record_feedback u i t d =
     p_bind (append_at i u (dt_itemFeedback d)) (\<lambda>itf.
     p_bind (append_at u i (dt_userFeedback d)) (\<lambda>uf.
     p_bind (append_at u t (dt_timestamps d)) (\<lambda>ts.
     Inr (d\<lparr>dt_itemFeedback := itf, dt_userFeedback := uf, dt_timestamps := ts, dt_numFeedback := dt_numFeedback d + 1\<rparr>))))"

definition AddFeedback :: "string \<Rightarrow> string \<Rightarrow> time \<Rightarrow> dataset \<Rightarrow> go_panic + dataset" where
  "AddFeedback userId itemId t d =
     p_bind (fd_Add (dt_userDict d) userId) (\<lambda>(ud, u).
     p_bind (fd_Add (dt_itemDict d) itemId) (\<lambda>(itd, i).
     record_feedback u i t (d\<lparr>dt_userDict := ud, dt_itemDict := itd\<rparr>)))"

subsection \<open>Splits\<close>

definition split_start :: "dataset \<Rightarrow> dataset" where
  "split_start d =
     \<lparr>dt_timestamp = 0, dt_users = dt_users d, dt_items = dt_items d, dt_userLabels = NewFreqDict, dt_itemLabels = NewFreqDict,
      dt_userFeedback = replicate (CountUsers d) [], dt_itemFeedback = replicate (CountItems d) [],
      dt_timestamps = replicate (CountUsers d) [], dt_negatives = [], dt_userDict = dt_userDict d, dt_itemDict = dt_itemDict d,
      dt_numFeedback = 0, dt_categories = Map.empty\<rparr>"

text \<open>Copying the \<open>k\<close>-th feedback of a user.\<close>

definition copy_feedback :: "dataset \<Rightarrow> i32 \<Rightarrow> nat \<Rightarrow> dataset \<Rightarrow> go_panic + dataset" where
  "copy_feedback d u k to =
     p_bind (index_i32 (dt_userFeedback d) u) (\<lambda>fb.
     p_bind (slice_get fb k) (\<lambda>i.
     p_bind (index_i32 (dt_timestamps d) u) (\<lambda>ts.
     p_bind (slice_get ts k) (\<lambda>t. record_feedback u i t to))))"

definition leave_one_out :: "('g \<Rightarrow> nat \<Rightarrow> nat \<times> 'g) \<Rightarrow> dataset \<Rightarrow> i32 \<Rightarrow> dataset \<times> dataset \<times> 'g \<Rightarrow> go_panic + dataset \<times> dataset \<times> 'g" where
  "leave_one_out Intn d u = (\<lambda>(train, test, g).
     p_bind (index_i32 (dt_userFeedback d) u) (\<lambda>fb.
     if length fb > 0
     then case Intn g (length fb) of (k, g') \<Rightarrow>
       p_bind (copy_feedback d u k test) (\<lambda>test'.
       p_bind (p_fold (copy_feedback d u) (filter (\<lambda>i. i \<noteq> k) [0..<length fb]) train) (\<lambda>train'. Inr (train', test', g')))
     else Inr (train, test, g)))"

definition keep_user :: "dataset \<Rightarrow> i32 \<Rightarrow> dataset \<Rightarrow> go_panic + dataset" where
  "keep_user d u train =
     p_bind (index_i32 (dt_userFeedback d) u) (\<lambda>fb. p_fold (copy_feedback d u) [0..<length fb] train)"

definition SplitCF :: "('g \<Rightarrow> nat \<Rightarrow> nat \<times> 'g) \<Rightarrow> (i32 \<Rightarrow> 'g \<Rightarrow> i32 \<times> 'g) \<Rightarrow> int \<Rightarrow> 'g \<Rightarrow> dataset \<Rightarrow>
    (go_panic + dataset \<times> dataset) option" where
  "SplitCF Intn Int31n numTestUsers rng d =
     (let start = split_start d; users = i32_range 0 (of_nat (CountUsers d)) in
      if numTestUsers \<ge> int (CountUsers d) \<or> numTestUsers \<le> 0
      then Some (p_bind (p_fold (leave_one_out Intn d) users (start, start, rng)) (\<lambda>(train, test, g). Inr (train, test)))
      else case SampleInt32 Int31n 0 (of_nat (CountUsers d)) numTestUsers {} rng of
          None \<Rightarrow> None
        | Some (Inl p) \<Rightarrow> Some (Inl p)
        | Some (Inr (testUsers, g)) \<Rightarrow>
            Some (p_bind (p_fold (leave_one_out Intn d) testUsers (start, start, g)) (\<lambda>(train, test, g').
              p_bind (p_fold (keep_user d) (filter (\<lambda>u. u \<notin> set testUsers) users) train) (\<lambda>train'. Inr (train', test)))))"

definition split_latest_user :: "(time list \<Rightarrow> nat list) \<Rightarrow> int \<Rightarrow> dataset \<Rightarrow> i32 \<Rightarrow> dataset \<times> dataset \<Rightarrow> go_panic + dataset \<times> dataset" where
  "split_latest_user order shots d u = (\<lambda>(train, test).
     p_bind (index_i32 (dt_userFeedback d) u) (\<lambda>fb.
     if length fb = 0 then Inr (train, test)
     else
     p_bind (index_i32 (dt_timestamps d) u) (\<lambda>ts.
     if length ts < length fb then Inl IndexOutOfRange else
     let idxs = order (take (length fb) ts) in
     p_bind (copy_feedback d u (hd idxs) test) (\<lambda>test'.
     p_bind (p_fold (copy_feedback d u) (take (nat shots) (tl idxs)) train) (\<lambda>train'. Inr (train', test'))))))"

definition SplitLatest :: "(time list \<Rightarrow> nat list) \<Rightarrow> int \<Rightarrow> dataset \<Rightarrow> go_panic + dataset \<times> dataset" where
  "SplitLatest order shots d =
     p_fold (split_latest_user order shots d) (i32_range 0 (of_nat (CountUsers d))) (split_start d, split_start d)"

subsection \<open>The feedback tables\<close>

text \<open>An index is in a table of \<open>n\<close> rows; then it is its own row number.\<close>

definition in_rows :: "i32 \<Rightarrow> nat \<Rightarrow> bool" where
  "in_rows k n \<longleftrightarrow> 0 \<le> sint k \<and> sint k < int n"

definition row :: "i32 \<Rightarrow> nat" where
  "row k = nat (sint k)"

text \<open>
  The two tables list the same pairs, by user and by item; the timestamps are parallel to the feedback
  of a user; the counter is the number of pairs.
\<close>

definition tables_ok :: "dataset \<Rightarrow> bool" where
  "tables_ok d \<longleftrightarrow>
     map length (dt_timestamps d) = map length (dt_userFeedback d) \<and>
     (\<forall>is \<in> set (dt_userFeedback d). \<forall>i \<in> set is. in_rows i (length (dt_itemFeedback d))) \<and>
     (\<forall>u i. in_rows u (length (dt_userFeedback d)) \<longrightarrow> in_rows i (length (dt_itemFeedback d)) \<longrightarrow>
        count_list (dt_userFeedback d ! row u) i = count_list (dt_itemFeedback d ! row i) u) \<and>
     (\<forall>us \<in> set (dt_itemFeedback d). \<forall>u \<in> set us. in_rows u (length (dt_userFeedback d))) \<and>
     dt_numFeedback d = int (sum_list (map length (dt_userFeedback d)))"

lemma append_at_in: "in_rows k (length xs) \<Longrightarrow> append_at k x xs = Inr (xs[row k := xs ! row k @ [x]])"
  by (simp add: append_at_def in_rows_def row_def)

lemma index_i32_in: "in_rows k (length xs) \<Longrightarrow> index_i32 xs k = Inr (xs ! row k)"
  by (simp add: index_i32_def in_rows_def row_def)

lemma row_less: "in_rows k n \<Longrightarrow> row k < n"
  unfolding in_rows_def row_def by linarith

lemma row_inject: "in_rows k n \<Longrightarrow> in_rows j n \<Longrightarrow> row k = row j \<longleftrightarrow> k = j"
  unfolding in_rows_def row_def by (metis eq_nat_nat_iff signed_word_eqI)

lemma sum_list_length_append:
  "k < length xs \<Longrightarrow> sum_list (map length (xs[k := xs ! k @ [x]])) = Suc (sum_list (map length xs))"
  by (induction xs arbitrary: k) (auto split: nat.splits)

lemma map_length_append: "map length (xs[k := xs ! k @ [x]]) = (map length xs)[k := Suc (map length xs ! k)]" if "k < length xs"
  using that by (simp add: map_update)

lemma set_append_row: "is \<in> set (xs[k := xs ! k @ [x]]) \<Longrightarrow> i \<in> set is \<Longrightarrow> k < length xs \<Longrightarrow> i = x \<or> (\<exists>js \<in> set xs. i \<in> set js)"
  using set_update_subset_insert [of xs k "xs ! k @ [x]"] nth_mem [of k xs] by fastforce

text \<open>Two data sets that differ in their feedback only.\<close>

definition same_rows :: "dataset \<Rightarrow> dataset \<Rightarrow> bool" where
  "same_rows d e \<longleftrightarrow> length (dt_userFeedback d) = length (dt_userFeedback e) \<and> length (dt_itemFeedback d) = length (dt_itemFeedback e)"

lemma record_feedback_ok:
  assumes ok: "tables_ok d" and u: "in_rows u (length (dt_userFeedback d))" and i: "in_rows i (length (dt_itemFeedback d))"
  obtains d' where "record_feedback u i t d = Inr d'" "tables_ok d'" "same_rows d d'"
    "dt_userFeedback d' = (dt_userFeedback d)[row u := dt_userFeedback d ! row u @ [i]]"
    "dt_timestamps d' = (dt_timestamps d)[row u := dt_timestamps d ! row u @ [t]]"
    "dt_users d' = dt_users d" "dt_items d' = dt_items d" "dt_userDict d' = dt_userDict d" "dt_itemDict d' = dt_itemDict d"
proof -
  let ?uf = "dt_userFeedback d" and ?if = "dt_itemFeedback d" and ?ts = "dt_timestamps d"
  have len: "length ?ts = length ?uf" using ok unfolding tables_ok_def by (metis length_map)
  have ru: "row u < length ?uf" and ri: "row i < length ?if" using u i by (simp_all add: row_less)
  let ?d = "d\<lparr>dt_itemFeedback := ?if[row i := ?if ! row i @ [u]], dt_userFeedback := ?uf[row u := ?uf ! row u @ [i]],
    dt_timestamps := ?ts[row u := ?ts ! row u @ [t]], dt_numFeedback := dt_numFeedback d + 1\<rparr>"
  have run: "record_feedback u i t d = Inr ?d"
    using u i len by (simp add: record_feedback_def append_at_in)
  have "map length (?ts[row u := ?ts ! row u @ [t]]) = map length (?uf[row u := ?uf ! row u @ [i]])"
    using ok ru len by (simp add: map_length_append tables_ok_def)
  moreover have "\<forall>is \<in> set (?uf[row u := ?uf ! row u @ [i]]). \<forall>j \<in> set is. in_rows j (length ?if)"
    using set_append_row [OF _ _ ru] ok i unfolding tables_ok_def by metis
  moreover have "\<forall>us \<in> set (?if[row i := ?if ! row i @ [u]]). \<forall>v \<in> set us. in_rows v (length ?uf)"
    using set_append_row [OF _ _ ri] ok u unfolding tables_ok_def by metis
  moreover have "count_list (?uf[row u := ?uf ! row u @ [i]] ! row v) j = count_list (?if[row i := ?if ! row i @ [u]] ! row j) v"
    if v: "in_rows v (length ?uf)" and j: "in_rows j (length ?if)" for v j
  proof -
    have "count_list (?uf ! row v) j = count_list (?if ! row j) v" using ok v j unfolding tables_ok_def by blast
    then show ?thesis using row_inject [OF v u] row_inject [OF j i] ru ri by (auto simp: nth_list_update)
  qed
  moreover have "dt_numFeedback d + 1 = int (sum_list (map length (?uf[row u := ?uf ! row u @ [i]])))"
    using ok sum_list_length_append [OF ru] unfolding tables_ok_def by simp
  ultimately have "tables_ok ?d" unfolding tables_ok_def by simp
  from that [OF run this] show ?thesis by (simp add: same_rows_def)
qed

text \<open>Copying the feedback of a user at given positions.\<close>

lemma copy_feedback_ok:
  assumes d: "tables_ok d" and ok: "tables_ok e" and same: "same_rows d e" and u: "in_rows u (length (dt_userFeedback d))"
    and k: "k < length (dt_userFeedback d ! row u)"
  obtains e' where "copy_feedback d u k e = Inr e'" "tables_ok e'" "same_rows d e'"
    "dt_userFeedback e' = (dt_userFeedback e)[row u := dt_userFeedback e ! row u @ [dt_userFeedback d ! row u ! k]]"
    "dt_timestamps e' = (dt_timestamps e)[row u := dt_timestamps e ! row u @ [dt_timestamps d ! row u ! k]]"
proof -
  let ?i = "dt_userFeedback d ! row u ! k"
  have len: "map length (dt_timestamps d) = map length (dt_userFeedback d)" using d unfolding tables_ok_def by blast
  then have lt: "length (dt_timestamps d) = length (dt_userFeedback d)" by (metis length_map)
  have r: "row u < length (dt_userFeedback d)" using u by (rule row_less)
  have lk: "length (dt_timestamps d ! row u) = length (dt_userFeedback d ! row u)"
    using arg_cong [OF len, of "\<lambda>xs. xs ! row u"] r lt by simp
  have "?i \<in> set (dt_userFeedback d ! row u)" "dt_userFeedback d ! row u \<in> set (dt_userFeedback d)" using k r by simp_all
  then have "in_rows ?i (length (dt_itemFeedback d))" using d unfolding tables_ok_def by blast
  then have i: "in_rows ?i (length (dt_itemFeedback e))" and u': "in_rows u (length (dt_userFeedback e))"
    using same u unfolding same_rows_def by simp_all
  have run: "copy_feedback d u k e = record_feedback u ?i (dt_timestamps d ! row u ! k) e"
    using u k lk lt by (simp add: copy_feedback_def index_i32_in)
  show ?thesis
    using record_feedback_ok [OF ok u' i, of "dt_timestamps d ! row u ! k"] that same unfolding run same_rows_def by metis
qed

lemma copy_feedback_all:
  assumes d: "tables_ok d" and u: "in_rows u (length (dt_userFeedback d))"
  shows "tables_ok e \<Longrightarrow> same_rows d e \<Longrightarrow> \<forall>k \<in> set ks. k < length (dt_userFeedback d ! row u) \<Longrightarrow>
    \<exists>e'. p_fold (copy_feedback d u) ks e = Inr e' \<and> tables_ok e' \<and> same_rows d e' \<and>
      dt_userFeedback e' = (dt_userFeedback e)[row u := dt_userFeedback e ! row u @ map ((!) (dt_userFeedback d ! row u)) ks] \<and>
      dt_timestamps e' = (dt_timestamps e)[row u := dt_timestamps e ! row u @ map ((!) (dt_timestamps d ! row u)) ks]"
proof (induction ks arbitrary: e)
  case Nil
  then show ?case by simp
next
  case (Cons k ks)
  have k: "k < length (dt_userFeedback d ! row u)" using Cons.prems(3) by simp
  obtain e1 where e1: "copy_feedback d u k e = Inr e1" "tables_ok e1" "same_rows d e1"
    "dt_userFeedback e1 = (dt_userFeedback e)[row u := dt_userFeedback e ! row u @ [dt_userFeedback d ! row u ! k]]"
    "dt_timestamps e1 = (dt_timestamps e)[row u := dt_timestamps e ! row u @ [dt_timestamps d ! row u ! k]]"
    by (rule copy_feedback_ok [OF d Cons.prems(1,2) u k])
  have r: "row u < length (dt_userFeedback e)" "row u < length (dt_timestamps e)"
  proof -
    show r: "row u < length (dt_userFeedback e)" using row_less [OF u] Cons.prems(2) by (simp add: same_rows_def)
    have "map length (dt_timestamps e) = map length (dt_userFeedback e)" using Cons.prems(1) unfolding tables_ok_def by blast
    then show "row u < length (dt_timestamps e)" using r by (metis length_map)
  qed
  have "\<forall>k \<in> set ks. k < length (dt_userFeedback d ! row u)" using Cons.prems(3) by simp
  from Cons.IH [OF e1(2,3) this] show ?case using e1(1) r unfolding e1(4,5) by simp
qed

text \<open>A loop over distinct users whose step for a user only changes the row of that user.\<close>

lemma p_fold_rows:
  fixes same :: "nat \<Rightarrow> 's \<Rightarrow> 's \<Rightarrow> bool"
  assumes refl: "\<And>a s. same a s s" and trans: "\<And>a s t u. same a s t \<Longrightarrow> same a t u \<Longrightarrow> same a s u"
    and P: "\<And>a s t. same a s t \<Longrightarrow> P a s \<Longrightarrow> P a t" and fresh: "\<And>a s t. same a s t \<Longrightarrow> fresh a s \<Longrightarrow> fresh a t"
    and step: "\<And>u s. in_rows u n \<Longrightarrow> good s \<Longrightarrow> fresh (row u) s \<Longrightarrow>
      \<exists>s'. f u s = Inr s' \<and> good s' \<and> P (row u) s' \<and> (\<forall>a. a \<noteq> row u \<longrightarrow> same a s s')"
  shows "distinct us \<Longrightarrow> \<forall>u \<in> set us. in_rows u n \<and> fresh (row u) s \<Longrightarrow> good s \<Longrightarrow>
    \<exists>s'. p_fold f us s = Inr s' \<and> good s' \<and> (\<forall>u \<in> set us. P (row u) s') \<and> (\<forall>a. a \<notin> row ` set us \<longrightarrow> same a s s')"
proof (induction us arbitrary: s)
  case Nil
  then show ?case using refl by simp
next
  case (Cons u us)
  obtain s1 where one: "f u s = Inr s1" "good s1" "P (row u) s1" "\<forall>a. a \<noteq> row u \<longrightarrow> same a s s1"
    using step [of u s] Cons.prems(2,3) by auto
  have apart: "row v \<noteq> row u" if "v \<in> set us" for v
    using that Cons.prems(1,2) row_inject [of v n u] by auto
  have "\<forall>v \<in> set us. in_rows v n \<and> fresh (row v) s1" using Cons.prems(2) one(4) apart fresh by fastforce
  from Cons.IH [OF _ this one(2)] Cons.prems(1) obtain s' where run: "p_fold f us s1 = Inr s'" and ok: "good s'" "\<forall>u \<in> set us. P (row u) s'"
    and rest: "\<forall>a. a \<notin> row ` set us \<longrightarrow> same a s1 s'" by auto
  have "row u \<notin> row ` set us" using apart by (metis image_iff)
  then have "P (row u) s'" using P one(3) rest by blast
  moreover have "same a s s'" if "a \<notin> row ` set (u # us)" for a
    using that one(4) rest trans [of a s s1 s'] by simp
  ultimately show ?case using one(1) run ok by (intro exI [of _ s']) auto
qed

subsection \<open>Leaving feedback out\<close>

lemma map_nth_except:
  assumes "k < length xs"
  shows "map ((!) xs) (filter (\<lambda>i. i \<noteq> k) [0..<length xs]) = take k xs @ drop (Suc k) xs"
proof -
  have upt_split: "[0..<length xs] = [0..<k] @ k # [Suc k..<length xs]"
    using assms upt_add_eq_append [of 0 k "length xs - k"] by (simp add: upt_conv_Cons)
  have all: "map ((!) xs) [0..<length xs] = xs" by (rule map_nth)
  have front_k: "map ((!) xs) [0..<k] = take k xs"
    using arg_cong [OF all, of "take k"] assms by (simp add: take_map)
  have back_k: "map ((!) xs) [Suc k..<length xs] = drop (Suc k) xs"
    using arg_cong [OF all, of "drop (Suc k)"] by (simp add: drop_map)
  have "filter (\<lambda>i. i \<noteq> k) [0..<k] = [0..<k]" "filter (\<lambda>i. i \<noteq> k) [Suc k..<length xs] = [Suc k..<length xs]"
    by (simp_all add: filter_id_conv)
  then show ?thesis unfolding upt_split by (simp add: front_k back_k)
qed

text \<open>What a split makes of one user: one feedback goes to the test set and the others stay, or all stay.\<close>

definition left_out :: "dataset \<Rightarrow> nat \<Rightarrow> dataset \<Rightarrow> dataset \<Rightarrow> bool" where
  "left_out d a train test \<longleftrightarrow> (\<exists>k < length (dt_userFeedback d ! a).
     dt_userFeedback test ! a = [dt_userFeedback d ! a ! k] \<and> dt_timestamps test ! a = [dt_timestamps d ! a ! k] \<and>
     dt_userFeedback train ! a = take k (dt_userFeedback d ! a) @ drop (Suc k) (dt_userFeedback d ! a) \<and>
     dt_timestamps train ! a = take k (dt_timestamps d ! a) @ drop (Suc k) (dt_timestamps d ! a))"

definition all_kept :: "dataset \<Rightarrow> nat \<Rightarrow> dataset \<Rightarrow> dataset \<Rightarrow> bool" where
  "all_kept d a train test \<longleftrightarrow> dt_userFeedback train ! a = dt_userFeedback d ! a \<and> dt_timestamps train ! a = dt_timestamps d ! a \<and>
     dt_userFeedback test ! a = [] \<and> dt_timestamps test ! a = []"

definition empty_row :: "nat \<Rightarrow> dataset \<Rightarrow> bool" where
  "empty_row a e \<longleftrightarrow> dt_userFeedback e ! a = [] \<and> dt_timestamps e ! a = []"

definition same_row :: "nat \<Rightarrow> dataset \<Rightarrow> dataset \<Rightarrow> bool" where
  "same_row a e e' \<longleftrightarrow> dt_userFeedback e ! a = dt_userFeedback e' ! a \<and> dt_timestamps e ! a = dt_timestamps e' ! a"

lemma tables_lengths:
  assumes "tables_ok d"
  shows "length (dt_timestamps d) = length (dt_userFeedback d)"
    and "a < length (dt_userFeedback d) \<Longrightarrow> length (dt_timestamps d ! a) = length (dt_userFeedback d ! a)"
proof -
  have len: "map length (dt_timestamps d) = map length (dt_userFeedback d)" using assms unfolding tables_ok_def by blast
  then show l: "length (dt_timestamps d) = length (dt_userFeedback d)" by (metis length_map)
  show "length (dt_timestamps d ! a) = length (dt_userFeedback d ! a)" if "a < length (dt_userFeedback d)"
    using arg_cong [OF len, of "\<lambda>xs. xs ! a"] that l by simp
qed

lemma leave_one_out_ok:
  assumes d: "tables_ok d" and u: "in_rows u (length (dt_userFeedback d))" and rng: "\<And>g n. 0 < n \<Longrightarrow> fst (Intn g n) < n"
    and train: "tables_ok train" "same_rows d train" "empty_row (row u) train"
    and test: "tables_ok test" "same_rows d test" "empty_row (row u) test"
  obtains train' test' g' where "leave_one_out Intn d u (train, test, g) = Inr (train', test', g')"
    "tables_ok train'" "tables_ok test'" "same_rows d train'" "same_rows d test'"
    "dt_userFeedback d ! row u = [] \<or> left_out d (row u) train' test'"
    "dt_userFeedback d ! row u = [] \<longrightarrow> empty_row (row u) train' \<and> empty_row (row u) test'"
    "\<forall>a. a \<noteq> row u \<longrightarrow> same_row a train train' \<and> same_row a test test'"
proof (cases "dt_userFeedback d ! row u = []")
  case True
  then have "leave_one_out Intn d u (train, test, g) = Inr (train, test, g)"
    using u by (simp add: leave_one_out_def index_i32_in)
  then show ?thesis using that True train test by (simp add: same_row_def)
next
  case False
  obtain k g' where k: "Intn g (length (dt_userFeedback d ! row u)) = (k, g')" by fastforce
  then have lt: "k < length (dt_userFeedback d ! row u)" using rng [of "length (dt_userFeedback d ! row u)" g] False by simp
  have lts: "length (dt_timestamps d ! row u) = length (dt_userFeedback d ! row u)"
    by (rule tables_lengths(2) [OF d row_less [OF u]])
  obtain test' where test': "copy_feedback d u k test = Inr test'" "tables_ok test'" "same_rows d test'"
    "dt_userFeedback test' = (dt_userFeedback test)[row u := dt_userFeedback test ! row u @ [dt_userFeedback d ! row u ! k]]"
    "dt_timestamps test' = (dt_timestamps test)[row u := dt_timestamps test ! row u @ [dt_timestamps d ! row u ! k]]"
    by (rule copy_feedback_ok [OF d test(1,2) u lt])
  let ?ks = "filter (\<lambda>i. i \<noteq> k) [0..<length (dt_userFeedback d ! row u)]"
  have "\<forall>j \<in> set ?ks. j < length (dt_userFeedback d ! row u)" by simp
  from copy_feedback_all [OF d u train(1,2) this] obtain train' where train': "p_fold (copy_feedback d u) ?ks train = Inr train'"
    "tables_ok train'" "same_rows d train'"
    "dt_userFeedback train' = (dt_userFeedback train)[row u := dt_userFeedback train ! row u @ map ((!) (dt_userFeedback d ! row u)) ?ks]"
    "dt_timestamps train' = (dt_timestamps train)[row u := dt_timestamps train ! row u @ map ((!) (dt_timestamps d ! row u)) ?ks]"
    by blast
  have run: "leave_one_out Intn d u (train, test, g) = Inr (train', test', g')"
    using u False k test'(1) train'(1) by (simp add: leave_one_out_def index_i32_in)
  have r: "row u < length (dt_userFeedback test)" "row u < length (dt_userFeedback train)"
    using row_less [OF u] train(2) test(2) by (simp_all add: same_rows_def)
  have rt: "row u < length (dt_timestamps test)" "row u < length (dt_timestamps train)"
    using r tables_lengths(1) [OF train(1)] tables_lengths(1) [OF test(1)] by simp_all
  have kt: "k < length (dt_timestamps d ! row u)" using lt lts by simp
  have "map ((!) (dt_timestamps d ! row u)) ?ks = take k (dt_timestamps d ! row u) @ drop (Suc k) (dt_timestamps d ! row u)"
    using map_nth_except [OF kt] lts by simp
  then have "left_out d (row u) train' test'"
    unfolding left_out_def using lt r rt train(3) test(3) map_nth_except [OF lt]
    by (intro exI [of _ k]) (simp add: test'(4,5) train'(4,5) empty_row_def)
  moreover have "same_row a train train' \<and> same_row a test test'" if "a \<noteq> row u" for a
    using that by (simp add: same_row_def test'(4,5) train'(4,5))
  ultimately show ?thesis using that [OF run train'(2) test'(2) train'(3) test'(3)] False by blast
qed

text \<open>A user's part of a split is determined by its rows.\<close>

lemma left_out_cong: "same_row a train train' \<Longrightarrow> same_row a test test' \<Longrightarrow> left_out d a train test = left_out d a train' test'"
  by (simp add: left_out_def same_row_def)

lemma all_kept_cong: "same_row a train train' \<Longrightarrow> same_row a test test' \<Longrightarrow> all_kept d a train test = all_kept d a train' test'"
  by (simp add: all_kept_def same_row_def)

lemma same_row_trans: "same_row a x y \<Longrightarrow> same_row a y z \<Longrightarrow> same_row a x z"
  by (simp add: same_row_def)

lemma empty_row_cong: "same_row a x y \<Longrightarrow> empty_row a x = empty_row a y"
  by (simp add: empty_row_def same_row_def)

definition split_user :: "dataset \<Rightarrow> nat \<Rightarrow> dataset \<Rightarrow> dataset \<Rightarrow> bool" where
  "split_user d a train test \<longleftrightarrow>
     (if dt_userFeedback d ! a = [] then empty_row a train \<and> empty_row a test else left_out d a train test)"

lemma split_user_same:
  "same_row a train train' \<Longrightarrow> same_row a test test' \<Longrightarrow> split_user d a train test \<Longrightarrow> split_user d a train' test'"
  unfolding split_user_def using left_out_cong [of a train train' test test' d] empty_row_cong [of a train train'] empty_row_cong [of a test test']
  by (simp split: if_splits)

lemma leave_one_out_all:
  fixes Intn :: "'g \<Rightarrow> nat \<Rightarrow> nat \<times> 'g"
  assumes d: "tables_ok d" and rng: "\<And>g n. 0 < n \<Longrightarrow> fst (Intn g n) < n"
    and us: "distinct us" "\<forall>u \<in> set us. in_rows u (length (dt_userFeedback d)) \<and> empty_row (row u) train \<and> empty_row (row u) test"
    and ok: "tables_ok train" "same_rows d train" "tables_ok test" "same_rows d test"
  shows "\<exists>train' test' g'. p_fold (leave_one_out Intn d) us (train, test, g) = Inr (train', test', g') \<and>
      tables_ok train' \<and> tables_ok test' \<and> same_rows d train' \<and> same_rows d test' \<and>
      (\<forall>u \<in> set us. split_user d (row u) train' test') \<and>
      (\<forall>a. a \<notin> row ` set us \<longrightarrow> same_row a train train' \<and> same_row a test test')"
proof -
  let ?same = "\<lambda>a (x, y, _ :: 'g) (x', y', _ :: 'g). same_row a x x' \<and> same_row a y y'"
  let ?P = "\<lambda>a (x, y, _ :: 'g). split_user d a x y"
  let ?fresh = "\<lambda>a (x, y, _ :: 'g). empty_row a x \<and> empty_row a y"
  let ?good = "\<lambda>(x, y, _ :: 'g). tables_ok x \<and> tables_ok y \<and> same_rows d x \<and> same_rows d y"
  have step: "\<exists>s'. leave_one_out Intn d u s = Inr s' \<and> ?good s' \<and> ?P (row u) s' \<and> (\<forall>a. a \<noteq> row u \<longrightarrow> ?same a s s')"
    if u: "in_rows u (length (dt_userFeedback d))" and good: "?good s" and fresh: "?fresh (row u) s" for u s
  proof -
    obtain x y h where s: "s = (x, y, h)" by (cases s)
    have g: "tables_ok x" "same_rows d x" "empty_row (row u) x" "tables_ok y" "same_rows d y" "empty_row (row u) y"
      using good fresh unfolding s by simp_all
    show ?thesis unfolding s
      by (rule leave_one_out_ok [where Intn = Intn and g = h, OF d u rng g]) (auto simp: split_user_def)
  qed
  have "\<exists>s'. p_fold (leave_one_out Intn d) us (train, test, g) = Inr s' \<and> ?good s' \<and> (\<forall>u \<in> set us. ?P (row u) s') \<and>
      (\<forall>a. a \<notin> row ` set us \<longrightarrow> ?same a (train, test, g) s')"
  proof (rule p_fold_rows [where n = "length (dt_userFeedback d)" and fresh = ?fresh])
    show "?same a s s" for a s by (simp add: same_row_def split: prod.split)
    show "?same a s t \<Longrightarrow> ?same a t v \<Longrightarrow> ?same a s v" for a s t v by (simp add: same_row_def split: prod.splits)
    show "?same a s t \<Longrightarrow> ?P a s \<Longrightarrow> ?P a t" for a s t by (cases s; cases t) (auto intro: split_user_same)
    show "?same a s t \<Longrightarrow> ?fresh a s \<Longrightarrow> ?fresh a t" for a s t by (cases s; cases t) (auto simp: empty_row_def same_row_def)
  qed (use step us ok in auto)
  then show ?thesis by auto
qed

lemma keep_user_ok:
  assumes d: "tables_ok d" and u: "in_rows u (length (dt_userFeedback d))"
    and e: "tables_ok e" "same_rows d e" "empty_row (row u) e"
  shows "\<exists>e'. keep_user d u e = Inr e' \<and> tables_ok e' \<and> same_rows d e' \<and> same_row (row u) d e' \<and> (\<forall>a. a \<noteq> row u \<longrightarrow> same_row a e e')"
proof -
  let ?n = "length (dt_userFeedback d ! row u)"
  have "\<forall>k \<in> set [0..<?n]. k < ?n" by simp
  from copy_feedback_all [OF d u e(1,2) this] obtain e' where e': "p_fold (copy_feedback d u) [0..<?n] e = Inr e'"
    "tables_ok e'" "same_rows d e'"
    "dt_userFeedback e' = (dt_userFeedback e)[row u := dt_userFeedback e ! row u @ map ((!) (dt_userFeedback d ! row u)) [0..<?n]]"
    "dt_timestamps e' = (dt_timestamps e)[row u := dt_timestamps e ! row u @ map ((!) (dt_timestamps d ! row u)) [0..<?n]]"
    by blast
  have r: "row u < length (dt_userFeedback e)" "row u < length (dt_timestamps e)"
    using row_less [OF u] e(2) tables_lengths(1) [OF e(1)] by (simp_all add: same_rows_def)
  have ts: "map ((!) (dt_timestamps d ! row u)) [0..<?n] = dt_timestamps d ! row u"
    using map_nth [of "dt_timestamps d ! row u"] tables_lengths(2) [OF d row_less [OF u]] by simp
  have "same_row (row u) d e'" using r e(3) by (simp add: same_row_def e'(4,5) map_nth ts empty_row_def)
  moreover have "same_row a e e'" if "a \<noteq> row u" for a using that by (simp add: same_row_def e'(4,5))
  ultimately show ?thesis using u e'(1-3) by (simp add: keep_user_def index_i32_in)
qed

lemma keep_user_all:
  assumes d: "tables_ok d" and us: "distinct us" "\<forall>u \<in> set us. in_rows u (length (dt_userFeedback d)) \<and> empty_row (row u) e"
    and e: "tables_ok e" "same_rows d e"
  shows "\<exists>e'. p_fold (keep_user d) us e = Inr e' \<and> (tables_ok e' \<and> same_rows d e') \<and> (\<forall>u \<in> set us. same_row (row u) d e') \<and>
      (\<forall>a. a \<notin> row ` set us \<longrightarrow> same_row a e e')"
proof (rule p_fold_rows [where n = "length (dt_userFeedback d)" and fresh = empty_row])
  show "\<exists>s'. keep_user d u s = Inr s' \<and> (tables_ok s' \<and> same_rows d s') \<and> same_row (row u) d s' \<and> (\<forall>a. a \<noteq> row u \<longrightarrow> same_row a s s')"
    if "in_rows u (length (dt_userFeedback d))" "tables_ok s \<and> same_rows d s" "empty_row (row u) s" for u s
    using keep_user_ok [OF d that(1) _ _ that(3)] that(2) by simp
qed (use us e in \<open>auto simp: same_row_def empty_row_def\<close>)

subsection \<open>The split for collaborative filtering\<close>

text \<open>Every user and item has a row, and the users can be counted in an \<open>int32\<close>.\<close>

definition rows_fit :: "dataset \<Rightarrow> bool" where
  "rows_fit d \<longleftrightarrow> length (dt_userFeedback d) = CountUsers d \<and> length (dt_itemFeedback d) = CountItems d \<and> CountUsers d < 2147483648"

lemma split_start_ok:
  assumes "rows_fit d"
  shows "tables_ok (split_start d)" "same_rows d (split_start d)" "a < CountUsers d \<Longrightarrow> empty_row a (split_start d)"
proof -
  have "count_list (replicate n [] ! row k) x = 0" if "in_rows k n" for k n and x :: i32
    using row_less [OF that] by simp
  then show "tables_ok (split_start d)" by (simp add: tables_ok_def split_start_def sum_list_replicate)
  show "same_rows d (split_start d)" using assms by (simp add: rows_fit_def same_rows_def split_start_def)
  show "a < CountUsers d \<Longrightarrow> empty_row a (split_start d)" by (simp add: empty_row_def split_start_def)
qed

lemma users_range:
  assumes "rows_fit d"
  shows "u \<in> set (i32_range 0 (of_nat (CountUsers d))) \<longleftrightarrow> in_rows u (CountUsers d)"
    and "row ` set (i32_range 0 (of_nat (CountUsers d))) = {..<CountUsers d}"
proof -
  have c: "CountUsers d < 2147483648" using assms by (simp add: rows_fit_def)
  show mem: "u \<in> set (i32_range 0 (of_nat (CountUsers d))) \<longleftrightarrow> in_rows u (CountUsers d)" for u
    using c by (simp add: set_i32_range in_rows_def)
  have "a \<in> row ` set (i32_range 0 (of_nat (CountUsers d)))" if "a < CountUsers d" for a
  proof -
    have "row (of_nat a) = a" "in_rows (of_nat a) (CountUsers d)" using that c by (simp_all add: row_def in_rows_def)
    then show ?thesis using mem by (metis image_eqI)
  qed
  then show "row ` set (i32_range 0 (of_nat (CountUsers d))) = {..<CountUsers d}"
    using mem row_less by auto
qed

lemma empty_rows_kept:
  assumes "tables_ok d" "a < length (dt_userFeedback d)" "dt_userFeedback d ! a = []"
  shows "all_kept d a e e' \<longleftrightarrow> empty_row a e \<and> empty_row a e'"
  using tables_lengths(2) [OF assms(1,2)] assms(3) by (auto simp: all_kept_def empty_row_def)

lemma leave_one_out_start:
  assumes d: "tables_ok d" "rows_fit d" and rng: "\<And>g n. 0 < n \<Longrightarrow> fst (Intn g n) < n"
    and us: "distinct us" "set us \<subseteq> set (i32_range 0 (of_nat (CountUsers d)))"
  shows "\<exists>train test g'. p_fold (leave_one_out Intn d) us (split_start d, split_start d, g) = Inr (train, test, g') \<and>
    tables_ok train \<and> tables_ok test \<and> same_rows d train \<and> same_rows d test \<and>
    (\<forall>a \<in> row ` set us. if dt_userFeedback d ! a \<noteq> [] then left_out d a train test else all_kept d a train test) \<and>
    (\<forall>a < CountUsers d. a \<notin> row ` set us \<longrightarrow> empty_row a train \<and> empty_row a test)"
proof -
  have rows: "in_rows u (length (dt_userFeedback d))" "row u < CountUsers d" if "u \<in> set us" for u
    using that us(2) users_range(1) [OF d(2)] d(2) row_less by (auto simp: rows_fit_def)
  have "\<forall>u \<in> set us. in_rows u (length (dt_userFeedback d)) \<and> empty_row (row u) (split_start d) \<and> empty_row (row u) (split_start d)"
    using rows split_start_ok(3) [OF d(2)] by blast
  from leave_one_out_all [where Intn = Intn and g = g, OF d(1) rng us(1) this split_start_ok(1,2) [OF d(2)] split_start_ok(1,2) [OF d(2)]]
  obtain train test g' where run: "p_fold (leave_one_out Intn d) us (split_start d, split_start d, g) = Inr (train, test, g')"
    and ok: "tables_ok train" "tables_ok test" "same_rows d train" "same_rows d test"
    and each: "\<forall>u \<in> set us. split_user d (row u) train test"
    and rest: "\<forall>a. a \<notin> row ` set us \<longrightarrow> same_row a (split_start d) train \<and> same_row a (split_start d) test" by blast
  have "if dt_userFeedback d ! row u \<noteq> [] then left_out d (row u) train test else all_kept d (row u) train test" if "u \<in> set us" for u
    using that each empty_rows_kept [OF d(1) row_less [OF rows(1) [OF that]]] unfolding split_user_def by auto
  moreover have "empty_row a train \<and> empty_row a test" if "a < CountUsers d" "a \<notin> row ` set us" for a
    using rest that split_start_ok(3) [OF d(2) that(1)] empty_row_cong by blast
  ultimately show ?thesis using run ok by blast
qed

lemma split_some_users:
  assumes d: "tables_ok d" "rows_fit d" and rng: "\<And>g n. 0 < n \<Longrightarrow> fst (Intn g n) < n"
    and us: "distinct us" "set us \<subseteq> set (i32_range 0 (of_nat (CountUsers d)))"
  obtains train test g' train' where "p_fold (leave_one_out Intn d) us (split_start d, split_start d, g) = Inr (train, test, g')"
    "p_fold (keep_user d) (filter (\<lambda>u. u \<notin> set us) (i32_range 0 (of_nat (CountUsers d)))) train = Inr train'"
    "tables_ok train'" "tables_ok test"
    "\<forall>a < CountUsers d. if a \<in> row ` set us \<and> dt_userFeedback d ! a \<noteq> [] then left_out d a train' test else all_kept d a train' test"
proof -
  let ?all = "i32_range 0 (of_nat (CountUsers d))"
  note rows = users_range [OF d(2)]
  have rin: "in_rows u (CountUsers d)" if "u \<in> set ?all" for u using that rows(1) by blast
  have inj: "inj_on row (set ?all)" using rin row_inject by (intro inj_onI) blast
  obtain train test g' where run: "p_fold (leave_one_out Intn d) us (split_start d, split_start d, g) = Inr (train, test, g')"
    and ok: "tables_ok train" "tables_ok test" "same_rows d train"
    and each: "\<forall>a \<in> row ` set us. if dt_userFeedback d ! a \<noteq> [] then left_out d a train test else all_kept d a train test"
    and rest: "\<forall>a < CountUsers d. a \<notin> row ` set us \<longrightarrow> empty_row a train \<and> empty_row a test"
    using leave_one_out_start [where Intn = Intn and g = g, OF d rng us] by blast
  let ?others = "filter (\<lambda>u. u \<notin> set us) ?all"
  have apart: "row u \<notin> row ` set us" if "u \<in> set ?all" "u \<notin> set us" for u
    using that inj_on_image_mem_iff [OF inj that(1) us(2)] by blast
  have "\<forall>u \<in> set ?others. in_rows u (length (dt_userFeedback d)) \<and> empty_row (row u) train"
    using rin rest apart row_less d(2) by (auto simp: rows_fit_def)
  from keep_user_all [OF d(1) distinct_filter [OF distinct_i32_range] this ok(1,3)] obtain train' where
    run': "p_fold (keep_user d) ?others train = Inr train'" and ok': "tables_ok train'"
    and kept: "\<forall>u \<in> set ?others. same_row (row u) d train'"
    and same: "\<forall>a. a \<notin> row ` set ?others \<longrightarrow> same_row a train train'" by blast
  have "if a \<in> row ` set us \<and> dt_userFeedback d ! a \<noteq> [] then left_out d a train' test else all_kept d a train' test"
    if a: "a < CountUsers d" for a
  proof (cases "a \<in> row ` set us")
    case True
    then obtain u where u: "u \<in> set us" "a = row u" by blast
    have "a \<notin> row ` set ?others"
    proof
      assume "a \<in> row ` set ?others"
      then obtain v where "v \<in> set ?all" "v \<notin> set us" "a = row v" by auto
      then show False using apart True by blast
    qed
    then have "same_row a train train'" using same by blast
    moreover have "same_row a test test" by (simp add: same_row_def)
    ultimately show ?thesis using each True left_out_cong all_kept_cong by metis
  next
    case False
    obtain u where u: "u \<in> set ?all" "a = row u" using a rows(2) by blast
    then have "u \<in> set ?others" using False by auto
    then have "same_row a d train'" using kept u(2) by blast
    moreover have "empty_row a test" using rest a False by blast
    ultimately show ?thesis using False by (simp add: all_kept_def same_row_def empty_row_def)
  qed
  then show ?thesis using that [OF run run' ok' ok(2)] by blast
qed

text \<open>(C15) A split for collaborative filtering ends without a panic, for every fair generator: of every test user (all
  users, or as many as asked for) with feedback, exactly one feedback with its timestamp is moved to the test set and the others stay,
  in order, in the training set; all feedback of other users stays. Both results are consistent: their tables by
  user and by item agree and their counters are exact.\<close>

theorem SplitCF_partitions:
  assumes d: "tables_ok d" "rows_fit d" and rng: "\<And>g n. 0 < n \<Longrightarrow> fst (Intn g n) < n"
    and fair: "fair_draw (Int31n (of_nat (CountUsers d))) (set (i32_range 0 (of_nat (CountUsers d))))"
  shows "\<exists>train test T. SplitCF Intn Int31n numTestUsers rng d = Some (Inr (train, test)) \<and> tables_ok train \<and> tables_ok test \<and>
    T \<subseteq> {..<CountUsers d} \<and>
    card T = (if numTestUsers \<ge> int (CountUsers d) \<or> numTestUsers \<le> 0 then CountUsers d else nat numTestUsers) \<and>
    (\<forall>a < CountUsers d. if a \<in> T \<and> dt_userFeedback d ! a \<noteq> [] then left_out d a train test else all_kept d a train test)"
proof -
  let ?all = "i32_range 0 (of_nat (CountUsers d))"
  note rows = users_range [OF d(2)]
  show ?thesis
  proof (cases "numTestUsers \<ge> int (CountUsers d) \<or> numTestUsers \<le> 0")
    case True
    obtain train test g where run: "p_fold (leave_one_out Intn d) ?all (split_start d, split_start d, rng) = Inr (train, test, g)"
      and ok: "tables_ok train" "tables_ok test"
      and each: "\<forall>a \<in> {..<CountUsers d}. if dt_userFeedback d ! a \<noteq> [] then left_out d a train test else all_kept d a train test"
      using leave_one_out_start [where Intn = Intn and g = rng, OF d rng distinct_i32_range subset_refl] unfolding rows(2) by blast
    have "SplitCF Intn Int31n numTestUsers rng d = Some (Inr (train, test))" using True run by (simp add: SplitCF_def Let_def)
    then show ?thesis using True ok each by (intro exI [of _ train] exI [of _ test] exI [of _ "{..<CountUsers d}"]) simp
  next
    case False
    have c: "sint (of_nat (CountUsers d) :: i32) = int (CountUsers d)" using d(2) by (simp add: rows_fit_def)
    have fair': "fair_draw (\<lambda>g. case Int31n (of_nat (CountUsers d) - 0) g of (v, g') \<Rightarrow> (v + 0, g')) (set ?all)"
      using fair by simp
    have "sint (0 :: i32) \<le> sint (of_nat (CountUsers d) :: i32)" "sint (of_nat (CountUsers d) :: i32) - sint (0 :: i32) < 2147483648"
      "0 \<le> numTestUsers" using False c d(2) by (simp_all add: rows_fit_def)
    from SampleInt32_result [where Int31n = Int31n and g = rng, OF this empty_subsetI fair']
    obtain us g where us: "SampleInt32 Int31n 0 (of_nat (CountUsers d)) numTestUsers {} rng = Some (Inr (us, g))" "distinct us"
      "set us \<subseteq> set ?all" "length us = min (nat numTestUsers) (card (set ?all))" by auto
    have "card (set ?all) = CountUsers d"
      using distinct_card [OF distinct_i32_range] c by (simp add: length_i32_range)
    then have len: "length us = nat numTestUsers" using us(4) False by (simp add: min_absorb1 nat_le_iff)
    have rin: "in_rows u (CountUsers d)" if "u \<in> set ?all" for u using that rows(1) by blast
    have inj: "inj_on row (set ?all)" using rin row_inject by (intro inj_onI) blast
    have cardT: "card (row ` set us) = nat numTestUsers"
      using card_image [OF inj_on_subset [OF inj us(3)]] distinct_card [OF us(2)] len by simp
    obtain train test g' train' where run: "p_fold (leave_one_out Intn d) us (split_start d, split_start d, g) = Inr (train, test, g')"
      "p_fold (keep_user d) (filter (\<lambda>u. u \<notin> set us) ?all) train = Inr train'"
      and ok: "tables_ok train'" "tables_ok test"
      and each: "\<forall>a < CountUsers d. if a \<in> row ` set us \<and> dt_userFeedback d ! a \<noteq> [] then left_out d a train' test
        else all_kept d a train' test"
      by (rule split_some_users [where Intn = Intn and g = g, OF d rng us(2,3)])
    have "SplitCF Intn Int31n numTestUsers rng d = Some (Inr (train', test))"
      using False us(1) run by (simp add: SplitCF_def Let_def)
    moreover have "row ` set us \<subseteq> {..<CountUsers d}" using us(3) rows(2) by blast
    ultimately show ?thesis using False ok each cardT
      by (intro exI [of _ train'] exI [of _ test] exI [of _ "row ` set us"]) simp
  qed
qed

subsection \<open>Compressed labels\<close>

lemma fd_Add_ok:
  assumes ok: "freq_dict_ok d" and small: "length (fd_is d) < 2147483648"
  shows "\<exists>d' y. fd_Add d s = Inr (d', y) \<and> freq_dict_ok d' \<and> fd_is d' = (if s \<in> set (fd_is d) then fd_is d else fd_is d @ [s]) \<and>
    in_rows y (length (fd_is d')) \<and> fd_is d' ! row y = s"
proof (cases "s \<in> set (fd_is d)")
  case True
  then obtain k where k: "k < length (fd_is d)" "fd_is d ! k = s" by (metis in_set_conv_nth)
  then have si: "fd_si d s = Some (of_nat k)" using ok by (auto simp: freq_dict_ok_def numbering_def)
  have y: "in_rows (of_nat k) (length (fd_is d))" "row (of_nat k) = k" using k(1) small by (simp_all add: in_rows_def row_def)
  have "length (fd_cnt d) = length (fd_is d)" using ok by (simp add: freq_dict_ok_def)
  then have "fd_Add d s = Inr (d\<lparr>fd_cnt := (fd_cnt d)[k := fd_cnt d ! k + 1]\<rparr>, of_nat k)"
    using si y index_i32_in [of "of_nat k" "fd_cnt d"] by (simp add: fd_Add_def row_def)
  then show ?thesis using ok True k y by (auto simp: freq_dict_ok_def)
next
  case False
  then have none: "fd_si d s = None" using ok numbering_None by (auto simp: freq_dict_ok_def)
  have "in_rows (of_nat (length (fd_is d))) (Suc (length (fd_is d)))" "row (of_nat (length (fd_is d))) = length (fd_is d)"
    using small by (simp_all add: in_rows_def row_def)
  then show ?thesis using none False freq_dict_ok_append [OF ok none, of 1] by (auto simp: fd_Add_def fd_append_def Let_def)
qed

text \<open>The number of strings of a label bounds the growth of the dictionary.\<close>

fun label_size :: "json \<Rightarrow> nat"
  and label_size_fields :: "(string \<times> json) list \<Rightarrow> nat" where
  "label_size (JObject kvs) = label_size_fields kvs"
| "label_size (JArray xs) = length xs"
| "label_size (JString s) = 1"
| "label_size JNull = 0"
| "label_size (JBool b) = 0"
| "label_size (JNumber n) = 0"
| "label_size (JFloat n) = 0"
| "label_size (JHalfs hs) = 0"
| "label_size_fields [] = 0"
| "label_size_fields ((k, v) # kvs) = label_size v + label_size_fields kvs"

definition names_id :: "string list \<Rightarrow> i32 \<Rightarrow> string \<Rightarrow> bool" where
  "names_id ns y s \<longleftrightarrow> in_rows y (length ns) \<and> ns ! row y = s"

text \<open>What a compressed label stands for, given the names of the dictionary.\<close>

fun denotes :: "(json list \<Rightarrow> 16 word list option) \<Rightarrow> string list \<Rightarrow> string \<Rightarrow> label \<Rightarrow> json \<Rightarrow> bool"
  and denotes_fields :: "(json list \<Rightarrow> 16 word list option) \<Rightarrow> string list \<Rightarrow> string \<Rightarrow> (string \<times> label) list \<Rightarrow> (string \<times> json) list \<Rightarrow> bool" where
  "denotes FromAny ns parent (LRaw j') j = (j' = j)"
| "denotes FromAny ns parent (LID y) j = (\<exists>s. j = JString s \<and> names_id ns y (parent @ '':'' @ s))"
| "denotes FromAny ns parent (LIDs ys) j =
     (\<exists>xs. j = JArray xs \<and> list_all2 (\<lambda>y x. \<exists>s. x = JString s \<and> names_id ns y (parent @ '':'' @ s)) ys xs)"
| "denotes FromAny ns parent (LFloats hs) j = (j = JHalfs hs \<or> (\<exists>xs. j = JArray xs \<and> FromAny xs = Some hs))"
| "denotes FromAny ns parent (LObject ls) j = (\<exists>kvs. j = JObject kvs \<and> denotes_fields FromAny ns parent ls kvs)"
| "denotes_fields FromAny ns parent [] kvs = (kvs = [])"
| "denotes_fields FromAny ns parent ((k, l) # ls) kvs =
     (\<exists>v rest. kvs = (k, v) # rest \<and> denotes FromAny ns (parent @ ''.'' @ k) l v \<and> denotes_fields FromAny ns parent ls rest)"

lemma names_id_append: "names_id ns y s \<Longrightarrow> names_id (ns @ ms) y s"
  using row_less [of y "length ns"] by (auto simp: names_id_def in_rows_def nth_append)

lemma denotes_append:
  "denotes FromAny ns parent l j \<Longrightarrow> denotes FromAny (ns @ ms) parent l j"
  "denotes_fields FromAny ns parent ls kvs \<Longrightarrow> denotes_fields FromAny (ns @ ms) parent ls kvs"
proof (induction FromAny ns parent l j and FromAny ns parent ls kvs rule: denotes_denotes_fields.induct)
  case (3 FromAny ns parent ys j)
  then obtain xs where xs: "j = JArray xs" "list_all2 (\<lambda>y x. \<exists>s. x = JString s \<and> names_id ns y (parent @ '':'' @ s)) ys xs" by auto
  have "list_all2 (\<lambda>y x. \<exists>s. x = JString s \<and> names_id (ns @ ms) y (parent @ '':'' @ s)) ys xs"
    using xs(2) by (rule list_all2_mono) (auto intro: names_id_append)
  then show ?case using xs(1) by simp
qed (auto intro: names_id_append)

lemma id_list_ok:
  "list_all is_JString xs \<Longrightarrow> freq_dict_ok d \<Longrightarrow> length (fd_is d) + length xs \<le> 2147483648 \<Longrightarrow>
   \<exists>d' ys ms. id_list parent d xs = Inr (d', ys) \<and> freq_dict_ok d' \<and> fd_is d' = fd_is d @ ms \<and> length ms \<le> length xs \<and>
     list_all2 (\<lambda>y x. \<exists>s. x = JString s \<and> names_id (fd_is d') y (parent @ '':'' @ s)) ys xs"
proof (induction xs arbitrary: d)
  case Nil
  then show ?case by simp
next
  case (Cons x xs)
  obtain s where s: "x = JString s" using Cons.prems(1) by (cases x) simp_all
  have small: "length (fd_is d) < 2147483648" using Cons.prems(3) by simp
  obtain d1 y where add: "fd_Add d (parent @ '':'' @ s) = Inr (d1, y)" "freq_dict_ok d1"
    "fd_is d1 = (if parent @ '':'' @ s \<in> set (fd_is d) then fd_is d else fd_is d @ [parent @ '':'' @ s])"
    and y: "names_id (fd_is d1) y (parent @ '':'' @ s)"
    using fd_Add_ok [OF Cons.prems(2) small] unfolding names_id_def by blast
  obtain ms1 where ms1: "fd_is d1 = fd_is d @ ms1" "length ms1 \<le> 1" unfolding add(3) by (cases "parent @ '':'' @ s \<in> set (fd_is d)") auto
  have "length (fd_is d1) + length xs \<le> 2147483648" using ms1 Cons.prems(3) by simp
  with Cons.IH [OF _ add(2)] Cons.prems(1) obtain d' ys ms where rest: "id_list parent d1 xs = Inr (d', ys)" "freq_dict_ok d'"
    "fd_is d' = fd_is d1 @ ms" "length ms \<le> length xs"
    "list_all2 (\<lambda>y x. \<exists>s. x = JString s \<and> names_id (fd_is d') y (parent @ '':'' @ s)) ys xs" by auto
  have "names_id (fd_is d') y (parent @ '':'' @ s)" unfolding rest(3) by (rule names_id_append [OF y])
  then show ?case using s add(1) rest ms1 by (intro exI [of _ d'] exI [of _ "y # ys"] exI [of _ "ms1 @ ms"]) simp
qed

lemma processLabels_ok:
  "freq_dict_ok d \<Longrightarrow> length (fd_is d) + label_size j \<le> 2147483648 \<Longrightarrow>
   \<exists>d' l ms. processLabels FromAny d parent j = Inr (d', l) \<and> freq_dict_ok d' \<and> fd_is d' = fd_is d @ ms \<and> length ms \<le> label_size j \<and>
     denotes FromAny (fd_is d') parent l j"
  "freq_dict_ok d \<Longrightarrow> length (fd_is d) + label_size_fields kvs \<le> 2147483648 \<Longrightarrow>
   \<exists>d' ls ms. processLabels_fields FromAny d parent kvs = Inr (d', ls) \<and> freq_dict_ok d' \<and> fd_is d' = fd_is d @ ms \<and>
     length ms \<le> label_size_fields kvs \<and> denotes_fields FromAny (fd_is d') parent ls kvs"
proof (induction FromAny d parent j and FromAny d parent kvs rule: processLabels_processLabels_fields.induct)
  case (1 FromAny d parent kvs)
  then obtain d' ls ms where "processLabels_fields FromAny d parent kvs = Inr (d', ls)" "freq_dict_ok d'" "fd_is d' = fd_is d @ ms"
     "length ms \<le> label_size_fields kvs" "denotes_fields FromAny (fd_is d') parent ls kvs" by auto
  then show ?case by simp
next
  case (2 FromAny d parent xs)
  show ?case
  proof (cases "FromAny xs = None \<and> list_all is_JString xs")
    case True
    then obtain d' ys ms where "id_list parent d xs = Inr (d', ys)" "freq_dict_ok d'" "fd_is d' = fd_is d @ ms" "length ms \<le> length xs"
      "list_all2 (\<lambda>y x. \<exists>s. x = JString s \<and> names_id (fd_is d') y (parent @ '':'' @ s)) ys xs"
      using id_list_ok [of xs d parent] 2 by auto
    then show ?thesis using True by simp
  next
    case False
    then show ?thesis using 2 by (cases "FromAny xs") auto
  qed
next
  case (3 FromAny d parent s)
  then have small: "length (fd_is d) < 2147483648" by simp
  obtain d1 y where add: "fd_Add d (parent @ '':'' @ s) = Inr (d1, y)" "freq_dict_ok d1"
    "fd_is d1 = (if parent @ '':'' @ s \<in> set (fd_is d) then fd_is d else fd_is d @ [parent @ '':'' @ s])"
    "names_id (fd_is d1) y (parent @ '':'' @ s)"
    using fd_Add_ok [OF 3(1) small] unfolding names_id_def by blast
  then show ?case by (cases "parent @ '':'' @ s \<in> set (fd_is d)") auto
next
  case (10 FromAny d parent k v kvs)
  have "length (fd_is d) + label_size v \<le> 2147483648" using 10(4) by simp
  with 10(1) [OF 10(3)] obtain d1 l ms where one: "processLabels FromAny d (parent @ ''.'' @ k) v = Inr (d1, l)" "freq_dict_ok d1"
    "fd_is d1 = fd_is d @ ms" "length ms \<le> label_size v" "denotes FromAny (fd_is d1) (parent @ ''.'' @ k) l v" by blast
  have "length (fd_is d1) + label_size_fields kvs \<le> 2147483648" using 10(4) one(3,4) by simp
  with 10(2) [OF one(2)] obtain d' ls ms' where rest: "processLabels_fields FromAny d1 parent kvs = Inr (d', ls)" "freq_dict_ok d'"
    "fd_is d' = fd_is d1 @ ms'" "length ms' \<le> label_size_fields kvs" "denotes_fields FromAny (fd_is d') parent ls kvs" by blast
  have "denotes FromAny (fd_is d') (parent @ ''.'' @ k) l v" unfolding rest(3) by (rule denotes_append(1) [OF one(5)])
  then show ?case using one rest by (intro exI [of _ d'] exI [of _ "(k, l) # ls"] exI [of _ "ms @ ms'"]) simp
qed auto

text \<open>(C39) Compressing labels loses nothing but the precision of numbers: while the dictionary has room, the compression
  does not panic, it only adds names to the dictionary, and the result denotes the original labels under the names
  of the dictionary: every id is the number of its string, prefixed by the path of its field.\<close>

theorem processLabels_roundtrip:
  assumes "freq_dict_ok d" and "length (fd_is d) + label_size j \<le> 2147483648"
  shows "\<exists>d' l. processLabels FromAny d '''' j = Inr (d', l) \<and> freq_dict_ok d' \<and> (\<exists>ms. fd_is d' = fd_is d @ ms) \<and>
     denotes FromAny (fd_is d') '''' l j"
  using processLabels_ok(1) [OF assms] by blast

theorem processLabels_roundtrip_witness:
  "\<exists>d' l. processLabels (\<lambda>xs. None :: 16 word list option) NewFreqDict '''' (JObject [(''a'', JString ''x''), (''b'', JArray [JString ''y'', JString ''x''])]) = Inr (d', l) \<and>
     denotes (\<lambda>xs. None) (fd_is d') '''' l (JObject [(''a'', JString ''x''), (''b'', JArray [JString ''y'', JString ''x''])])"
proof -
  let ?j = "JObject [(''a'', JString ''x''), (''b'', JArray [JString ''y'', JString ''x''])]"
  have "length (fd_is NewFreqDict) + label_size ?j \<le> 2147483648" by (simp add: NewFreqDict_def)
  from processLabels_roundtrip [OF freq_dict_ok_New this, of "\<lambda>xs. None"] show ?thesis by blast
qed

end
