(* ===== verification/Dataset_Build.thy ===== *)
theory Dataset_Build
  imports Dataset
begin

text \<open>
  Building a data set and splitting it by time: the invariant of \<open>AddUser\<close>, \<open>AddItem\<close> and \<open>AddFeedback\<close>
  (\<open>dataset/dataset.go\<close>), the panic of feedback on ids that were never added, and \<open>SplitLatest\<close>.
\<close>

subsection \<open>The most recent feedback\<close>

text \<open>The order that \<open>sort.Slice\<close> may return: the indices, from the latest timestamp to the earliest.\<close>

definition latest_order :: "(time list \<Rightarrow> nat list) \<Rightarrow> bool" where
  "latest_order order \<longleftrightarrow> (\<forall>ts. mset (order ts) = mset [0..<length ts] \<and> sorted_wrt (\<lambda>i j. ts ! j \<le> ts ! i) (order ts))"

definition latest_split :: "(time list \<Rightarrow> nat list) \<Rightarrow> int \<Rightarrow> dataset \<Rightarrow> nat \<Rightarrow> dataset \<Rightarrow> dataset \<Rightarrow> bool" where
  "latest_split order shots d a train test \<longleftrightarrow>
     (let idxs = order (dt_timestamps d ! a); shown = take (nat shots) (tl idxs) in
      if dt_userFeedback d ! a = [] then empty_row a train \<and> empty_row a test
      else dt_userFeedback test ! a = [dt_userFeedback d ! a ! hd idxs] \<and> dt_timestamps test ! a = [dt_timestamps d ! a ! hd idxs] \<and>
        dt_userFeedback train ! a = map ((!) (dt_userFeedback d ! a)) shown \<and>
        dt_timestamps train ! a = map ((!) (dt_timestamps d ! a)) shown)"

lemma latest_split_same:
  "same_row a train train' \<Longrightarrow> same_row a test test' \<Longrightarrow> latest_split order shots d a train test \<Longrightarrow> latest_split order shots d a train' test'"
  by (simp add: latest_split_def Let_def empty_row_def same_row_def split: if_splits)

lemma split_latest_user_ok:
  assumes order: "latest_order order" and d: "tables_ok d" and u: "in_rows u (length (dt_userFeedback d))"
    and train: "tables_ok train" "same_rows d train" "empty_row (row u) train"
    and test: "tables_ok test" "same_rows d test" "empty_row (row u) test"
  shows "\<exists>train' test'. split_latest_user order shots d u (train, test) = Inr (train', test') \<and>
    tables_ok train' \<and> same_rows d train' \<and> tables_ok test' \<and> same_rows d test' \<and> latest_split order shots d (row u) train' test' \<and>
    (\<forall>a. a \<noteq> row u \<longrightarrow> same_row a train train' \<and> same_row a test test')"
proof (cases "dt_userFeedback d ! row u = []")
  case True
  then have "split_latest_user order shots d u (train, test) = Inr (train, test)" using u by (simp add: split_latest_user_def index_i32_in)
  then show ?thesis using True train test by (simp add: latest_split_def same_row_def)
next
  case False
  let ?fb = "dt_userFeedback d ! row u" and ?ts = "dt_timestamps d ! row u"
  let ?idxs = "order ?ts"
  have lts: "length ?ts = length ?fb" by (rule tables_lengths(2) [OF d row_less [OF u]])
  have perm: "mset ?idxs = mset [0..<length ?fb]" using order lts unfolding latest_order_def by metis
  then have set: "set ?idxs = {0..<length ?fb}" by (metis mset_eq_setD set_upt)
  then have ne: "?idxs \<noteq> []" using False by auto
  have k: "hd ?idxs < length ?fb" using set ne hd_in_set [of ?idxs] by auto
  have ks: "\<forall>k \<in> set (take (nat shots) (tl ?idxs)). k < length ?fb"
    using set set_take_subset [of "nat shots" "tl ?idxs"] list.set_sel(2) [OF ne] by fastforce
  obtain test' where test': "copy_feedback d u (hd ?idxs) test = Inr test'" "tables_ok test'" "same_rows d test'"
    "dt_userFeedback test' = (dt_userFeedback test)[row u := dt_userFeedback test ! row u @ [?fb ! hd ?idxs]]"
    "dt_timestamps test' = (dt_timestamps test)[row u := dt_timestamps test ! row u @ [?ts ! hd ?idxs]]"
    by (rule copy_feedback_ok [OF d test(1,2) u k])
  obtain train' where train': "p_fold (copy_feedback d u) (take (nat shots) (tl ?idxs)) train = Inr train'" "tables_ok train'" "same_rows d train'"
    "dt_userFeedback train' = (dt_userFeedback train)[row u := dt_userFeedback train ! row u @ map ((!) ?fb) (take (nat shots) (tl ?idxs))]"
    "dt_timestamps train' = (dt_timestamps train)[row u := dt_timestamps train ! row u @ map ((!) ?ts) (take (nat shots) (tl ?idxs))]"
    using copy_feedback_all [OF d u train(1,2) ks] by blast
  have run: "split_latest_user order shots d u (train, test) = Inr (train', test')"
    using u False lts test'(1) train'(1) tables_lengths(1) [OF d] by (simp add: split_latest_user_def index_i32_in Let_def)
  have r: "row u < length (dt_userFeedback test)" "row u < length (dt_userFeedback train)"
    using row_less [OF u] train(2) test(2) by (simp_all add: same_rows_def)
  have rt: "row u < length (dt_timestamps test)" "row u < length (dt_timestamps train)"
    using r tables_lengths(1) [OF train(1)] tables_lengths(1) [OF test(1)] by simp_all
  have "latest_split order shots d (row u) train' test'"
    using False r rt train(3) test(3) by (simp add: latest_split_def Let_def test'(4,5) train'(4,5) empty_row_def)
  moreover have "same_row a train train' \<and> same_row a test test'" if "a \<noteq> row u" for a
    using that by (simp add: same_row_def test'(4,5) train'(4,5))
  ultimately show ?thesis using run train'(2,3) test'(2,3) by blast
qed

lemma SplitLatest_run:
  assumes order: "latest_order order" and d: "tables_ok d" "rows_fit d"
  obtains train test where "SplitLatest order shots d = Inr (train, test)" "tables_ok train" "tables_ok test"
    "\<And>a. a < CountUsers d \<Longrightarrow> latest_split order shots d a train test"
proof -
  let ?same = "\<lambda>a (x, y) (x', y'). same_row a x x' \<and> same_row a y y'"
  let ?P = "\<lambda>a (x, y). latest_split order shots d a x y"
  let ?fresh = "\<lambda>a (x, y). empty_row a x \<and> empty_row a y"
  let ?good = "\<lambda>(x, y). tables_ok x \<and> same_rows d x \<and> tables_ok y \<and> same_rows d y"
  let ?us = "i32_range 0 (of_nat (CountUsers d))"
  note rows = users_range [OF d(2)]
  have n: "length (dt_userFeedback d) = CountUsers d" using d(2) by (simp add: rows_fit_def)
  have step: "\<exists>s'. split_latest_user order shots d u s = Inr s' \<and> ?good s' \<and> ?P (row u) s' \<and> (\<forall>a. a \<noteq> row u \<longrightarrow> ?same a s s')"
    if "in_rows u (CountUsers d)" "?good s" "?fresh (row u) s" for u s
    using split_latest_user_ok [OF order d(1), of u "fst s" "snd s" shots] that n by (cases s) fastforce
  have "\<exists>s'. p_fold (split_latest_user order shots d) ?us (split_start d, split_start d) = Inr s' \<and> ?good s' \<and> (\<forall>u \<in> set ?us. ?P (row u) s') \<and>
      (\<forall>a. a \<notin> row ` set ?us \<longrightarrow> ?same a (split_start d, split_start d) s')"
  proof (rule p_fold_rows [where n = "CountUsers d" and fresh = ?fresh])
    show "?same a s s" for a s by (simp add: same_row_def split: prod.split)
    show "?same a s t \<Longrightarrow> ?same a t v \<Longrightarrow> ?same a s v" for a s t v by (simp add: same_row_def split: prod.splits)
    show "?same a s t \<Longrightarrow> ?P a s \<Longrightarrow> ?P a t" for a s t by (cases s; cases t) (auto intro: latest_split_same)
    show "?same a s t \<Longrightarrow> ?fresh a s \<Longrightarrow> ?fresh a t" for a s t by (cases s; cases t) (auto simp: empty_row_def same_row_def)
    show "\<forall>u \<in> set ?us. in_rows u (CountUsers d) \<and> ?fresh (row u) (split_start d, split_start d)"
      using rows(1) split_start_ok(3) [OF d(2)] row_less by auto
  qed (use step split_start_ok [OF d(2)] distinct_i32_range in auto)
  then obtain train test where run: "SplitLatest order shots d = Inr (train, test)" "tables_ok train" "tables_ok test"
    and each: "\<forall>u \<in> set ?us. latest_split order shots d (row u) train test" unfolding SplitLatest_def by auto
  have "latest_split order shots d a train test" if "a < CountUsers d" for a
  proof -
    have "a \<in> row ` set ?us" using that rows(2) by simp
    then show ?thesis using each by blast
  qed
  then show ?thesis using that run by blast
qed

text \<open>(C32) A split by time does not panic and does not leak the future: of every user with feedback the test set gets one
  feedback, one with the latest timestamp, and the training set gets as many of the others as asked for (all, if there are
  not enough), none newer than the test feedback. Both results have consistent tables.\<close>

theorem SplitLatest_no_leak:
  assumes order: "latest_order order" and d: "tables_ok d" "rows_fit d"
  shows "\<exists>train test. SplitLatest order shots d = Inr (train, test) \<and> tables_ok train \<and> tables_ok test \<and>
    (\<forall>a < CountUsers d. dt_userFeedback d ! a \<noteq> [] \<longrightarrow>
       (\<exists>k < length (dt_userFeedback d ! a). dt_userFeedback test ! a = [dt_userFeedback d ! a ! k] \<and> dt_timestamps test ! a = [dt_timestamps d ! a ! k] \<and>
          (\<forall>t \<in> set (dt_timestamps d ! a). t \<le> dt_timestamps d ! a ! k)) \<and>
       length (dt_userFeedback train ! a) = min (nat shots) (length (dt_userFeedback d ! a) - 1) \<and>
       mset (dt_userFeedback train ! a) + mset (dt_userFeedback test ! a) \<subseteq># mset (dt_userFeedback d ! a))"
proof -
  obtain train test where run: "SplitLatest order shots d = Inr (train, test)" "tables_ok train" "tables_ok test"
    and each: "\<And>a. a < CountUsers d \<Longrightarrow> latest_split order shots d a train test"
    by (rule SplitLatest_run [OF order d]) blast
  have "(\<exists>k < length (dt_userFeedback d ! a). dt_userFeedback test ! a = [dt_userFeedback d ! a ! k] \<and> dt_timestamps test ! a = [dt_timestamps d ! a ! k] \<and>
          (\<forall>t \<in> set (dt_timestamps d ! a). t \<le> dt_timestamps d ! a ! k)) \<and>
       length (dt_userFeedback train ! a) = min (nat shots) (length (dt_userFeedback d ! a) - 1) \<and>
       mset (dt_userFeedback train ! a) + mset (dt_userFeedback test ! a) \<subseteq># mset (dt_userFeedback d ! a)"
    if a: "a < CountUsers d" and some: "dt_userFeedback d ! a \<noteq> []" for a
  proof -
    let ?fb = "dt_userFeedback d ! a" and ?ts = "dt_timestamps d ! a"
    let ?idxs = "order ?ts"
    have lts: "length ?ts = length ?fb" using tables_lengths(2) [OF d(1)] a d(2) by (simp add: rows_fit_def)
    have perm: "mset ?idxs = mset [0..<length ?fb]" and sorted: "sorted_wrt (\<lambda>i j. ?ts ! j \<le> ?ts ! i) ?idxs"
      using order lts unfolding latest_order_def by metis+
    have set: "set ?idxs = {0..<length ?fb}" using perm by (metis mset_eq_setD set_upt)
    have len: "length ?idxs = length ?fb" using arg_cong [OF perm, of size] by simp
    obtain k ks where ks: "?idxs = k # ks" using len some by (cases ?idxs) auto
    have k: "k < length ?fb" using set ks by auto
    have first: "dt_userFeedback test ! a = [?fb ! k]" "dt_timestamps test ! a = [?ts ! k]" "dt_userFeedback train ! a = map ((!) ?fb) (take (nat shots) ks)"
      using each [OF a] some ks by (simp_all add: latest_split_def Let_def)
    have "t \<le> ?ts ! k" if "t \<in> set ?ts" for t
    proof -
      obtain j where j: "j < length ?ts" "t = ?ts ! j" using \<open>t \<in> set ?ts\<close> by (metis in_set_conv_nth)
      then have "j \<in> set (k # ks)" using set lts ks by auto
      then show ?thesis using sorted ks j(2) by auto
    qed
    moreover have "length (dt_userFeedback train ! a) = min (nat shots) (length ?fb - 1)"
      using len ks unfolding first by auto
    moreover have "mset (dt_userFeedback train ! a) + mset (dt_userFeedback test ! a) \<subseteq># mset ?fb"
    proof -
      have all: "mset (map ((!) ?fb) (k # ks)) = mset ?fb"
        using arg_cong [OF perm, of "image_mset ((!) ?fb)"] ks map_nth [of ?fb] by (metis mset_map)
      have "mset (map ((!) ?fb) (take (nat shots) ks)) \<subseteq># mset (map ((!) ?fb) ks)"
        by (metis append_take_drop_id map_append mset_append mset_subset_eq_add_left)
      then show ?thesis unfolding first all [symmetric] by simp
    qed
    ultimately show ?thesis using first k by blast
  qed
  then show ?thesis using run by blast
qed

subsection \<open>Building a data set\<close>

datatype dataset_op = OpUser user | OpItem item | OpFeedback string string time

fun dataset_step :: "(json list \<Rightarrow> 16 word list option) \<Rightarrow> dataset_op \<Rightarrow> dataset \<Rightarrow> go_panic + dataset" where
  "dataset_step FromAny (OpUser u) d = AddUser FromAny u d"
| "dataset_step FromAny (OpItem i) d = AddItem FromAny i d"
| "dataset_step FromAny (OpFeedback u i t) d = AddFeedback u i t d"

definition user_ids :: "dataset_op list \<Rightarrow> string list" where
  "user_ids ops = concat (map (\<lambda>x. case x of OpUser u \<Rightarrow> [user_UserId u] | _ \<Rightarrow> []) ops)"

definition item_ids :: "dataset_op list \<Rightarrow> string list" where
  "item_ids ops = concat (map (\<lambda>x. case x of OpItem i \<Rightarrow> [item_ItemId i] | _ \<Rightarrow> []) ops)"

definition feedback_pairs :: "dataset_op list \<Rightarrow> (string \<times> string) list" where
  "feedback_pairs ops = concat (map (\<lambda>x. case x of OpFeedback u i t \<Rightarrow> [(u, i)] | _ \<Rightarrow> []) ops)"

definition label_total :: "dataset_op list \<Rightarrow> nat" where
  "label_total ops = sum_list (map (\<lambda>x. case x of OpUser u \<Rightarrow> label_size (user_Labels u) | OpItem i \<Rightarrow> label_size (item_Labels i) | _ \<Rightarrow> 0) ops)"

text \<open>Ids are added once, and feedback comes after its user and its item.\<close>

fun feed_ok :: "string list \<Rightarrow> string list \<Rightarrow> dataset_op list \<Rightarrow> bool" where
  "feed_ok us is [] = True"
| "feed_ok us is (OpUser u # ops) = (user_UserId u \<notin> set us \<and> feed_ok (us @ [user_UserId u]) is ops)"
| "feed_ok us is (OpItem i # ops) = (item_ItemId i \<notin> set is \<and> feed_ok us (is @ [item_ItemId i]) ops)"
| "feed_ok us is (OpFeedback u i t # ops) = (u \<in> set us \<and> i \<in> set is \<and> feed_ok us is ops)"

text \<open>The invariant of a data set with users \<open>us\<close>, items \<open>is\<close> and \<open>n\<close> strings in labels, that has seen the feedback \<open>ps\<close>.\<close>

definition dataset_inv :: "string list \<Rightarrow> string list \<Rightarrow> nat \<Rightarrow> (string \<times> string) list \<Rightarrow> dataset \<Rightarrow> bool" where
  "dataset_inv us is n ps d \<longleftrightarrow> tables_ok d \<and>
     freq_dict_ok (dt_userDict d) \<and> freq_dict_ok (dt_itemDict d) \<and> freq_dict_ok (dt_userLabels d) \<and> freq_dict_ok (dt_itemLabels d) \<and>
     length (fd_is (dt_userLabels d)) \<le> n \<and> length (fd_is (dt_itemLabels d)) \<le> n \<and>
     map du_UserId (dt_users d) = us \<and> map di_ItemId (dt_items d) = is \<and> fd_is (dt_userDict d) = us \<and> fd_is (dt_itemDict d) = is \<and>
     length us \<le> length (dt_userFeedback d) \<and> length is \<le> length (dt_itemFeedback d) \<and>
     (\<forall>a < length (dt_userFeedback d). \<forall>i \<in> set (dt_userFeedback d ! a). a < length us \<and> in_rows i (length is)) \<and>
     dt_numFeedback d = int (length ps) \<and>
     (\<forall>a < length us. \<forall>b < length is. count_list (dt_userFeedback d ! a) (of_nat b) = count_list ps (us ! a, is ! b))"

lemma grow_rows: "length xs \<le> n \<Longrightarrow> n \<le> Suc (length xs) \<Longrightarrow> n \<le> length (grow n xs)"
  by (simp add: grow_def)

lemma tables_ok_grow_users:
  assumes "tables_ok d"
  shows "tables_ok (d\<lparr>dt_userLabels := l, dt_users := us, dt_userDict := ud, dt_userFeedback := grow n (dt_userFeedback d), dt_timestamps := grow n (dt_timestamps d)\<rparr>)"
proof (cases "length (dt_userFeedback d) < n")
  case False
  then show ?thesis using assms tables_lengths(1) [OF assms] by (simp add: grow_def tables_ok_def)
next
  case True
  let ?m = "length (dt_userFeedback d)"
  have new: "in_rows u (Suc ?m) \<Longrightarrow> in_rows u ?m \<or> row u = ?m" for u unfolding in_rows_def row_def by linarith
  have none: "count_list (dt_itemFeedback d ! row i) u = 0" if "row u = ?m" "in_rows i (length (dt_itemFeedback d))" for u i
  proof -
    have "dt_itemFeedback d ! row i \<in> set (dt_itemFeedback d)" using row_less [OF that(2)] by simp
    then have "u \<notin> set (dt_itemFeedback d ! row i)" using assms that(1) row_less unfolding tables_ok_def by fastforce
    then show ?thesis by simp
  qed
  have mono: "in_rows u ?m \<Longrightarrow> in_rows u (Suc ?m)" for u by (simp add: in_rows_def)
  have rows: "(dt_userFeedback d @ [[]]) ! row u = dt_userFeedback d ! row u" if "in_rows u ?m" for u
    using row_less [OF that] by (simp add: nth_append)
  have "count_list ((dt_userFeedback d @ [[]]) ! row u) i = count_list (dt_itemFeedback d ! row i) u"
    if u: "in_rows u (Suc ?m)" and i: "in_rows i (length (dt_itemFeedback d))" for u i
    using new [OF u]
  proof
    assume "in_rows u ?m"
    then show ?thesis using assms i rows unfolding tables_ok_def by simp
  next
    assume "row u = ?m"
    then show ?thesis using none [OF _ i] by (simp add: nth_append)
  qed
  then show ?thesis
    using assms True tables_lengths(1) [OF assms] mono unfolding tables_ok_def by (auto simp: grow_def)
qed

lemma tables_ok_grow_items:
  assumes "tables_ok d"
  shows "tables_ok (d\<lparr>dt_itemLabels := l, dt_items := is, dt_itemDict := itd, dt_itemFeedback := grow n (dt_itemFeedback d), dt_categories := cs\<rparr>)"
proof (cases "length (dt_itemFeedback d) < n")
  case False
  then show ?thesis using assms by (simp add: grow_def tables_ok_def)
next
  case True
  let ?m = "length (dt_itemFeedback d)"
  have new: "in_rows i (Suc ?m) \<Longrightarrow> in_rows i ?m \<or> row i = ?m" for i unfolding in_rows_def row_def by linarith
  have none: "count_list (dt_userFeedback d ! row u) i = 0" if "row i = ?m" "in_rows u (length (dt_userFeedback d))" for u i
  proof -
    have "dt_userFeedback d ! row u \<in> set (dt_userFeedback d)" using row_less [OF that(2)] by simp
    then have "i \<notin> set (dt_userFeedback d ! row u)" using assms that(1) row_less unfolding tables_ok_def by fastforce
    then show ?thesis by simp
  qed
  have mono: "in_rows i ?m \<Longrightarrow> in_rows i (Suc ?m)" for i by (simp add: in_rows_def)
  have rows: "(dt_itemFeedback d @ [[]]) ! row i = dt_itemFeedback d ! row i" if "in_rows i ?m" for i
    using row_less [OF that] by (simp add: nth_append)
  have "count_list (dt_userFeedback d ! row u) i = count_list ((dt_itemFeedback d @ [[]]) ! row i) u"
    if i: "in_rows i (Suc ?m)" and u: "in_rows u (length (dt_userFeedback d))" for u i
    using new [OF i]
  proof
    assume "in_rows i ?m"
    then show ?thesis using assms u rows unfolding tables_ok_def by simp
  next
    assume "row i = ?m"
    then show ?thesis using none [OF _ u] by (simp add: nth_append)
  qed
  then show ?thesis using assms True mono unfolding tables_ok_def by (auto simp: grow_def)
qed

lemma fd_AddNoCount_new:
  "freq_dict_ok d \<Longrightarrow> s \<notin> set (fd_is d) \<Longrightarrow> freq_dict_ok (fst (fd_AddNoCount d s)) \<and> fd_is (fst (fd_AddNoCount d s)) = fd_is d @ [s]"
  by (simp add: freq_dict_ok_AddNoCount fd_is_AddNoCount)

lemma grow_same: "a < length xs \<Longrightarrow> grow n xs ! a = xs ! a"
  by (simp add: grow_def nth_append)

lemma grow_new: "a < length (grow n xs) \<Longrightarrow> x \<in> set (grow n xs ! a) \<Longrightarrow> a < length xs \<and> x \<in> set (xs ! a)"
  by (auto simp: grow_def nth_append split: if_splits)

lemma dataset_inv_user:
  assumes "dataset_inv us is n ps d" and fresh: "user_UserId u \<notin> set us" and room: "n + label_size (user_Labels u) \<le> 2147483648"
    and ps: "set ps \<subseteq> set us \<times> set is"
  shows "\<exists>d'. AddUser FromAny u d = Inr d' \<and> dataset_inv (us @ [user_UserId u]) is (n + label_size (user_Labels u)) ps d'"
proof -
  have d: "tables_ok d" "freq_dict_ok (dt_userDict d)" "freq_dict_ok (dt_userLabels d)" "length (fd_is (dt_userLabels d)) \<le> n"
    "fd_is (dt_userDict d) = us" "map du_UserId (dt_users d) = us" "length us \<le> length (dt_userFeedback d)"
    "\<forall>a < length (dt_userFeedback d). \<forall>i \<in> set (dt_userFeedback d ! a). a < length us \<and> in_rows i (length is)"
    "\<forall>a < length us. \<forall>b < length is. count_list (dt_userFeedback d ! a) (of_nat b) = count_list ps (us ! a, is ! b)"
    using assms(1) unfolding dataset_inv_def by blast+
  have "length (fd_is (dt_userLabels d)) + label_size (user_Labels u) \<le> 2147483648" using d(4) room by simp
  from processLabels_ok(1) [OF d(3) this, of FromAny "''''"] obtain l' l ms where
    l: "processLabels FromAny (dt_userLabels d) '''' (user_Labels u) = Inr (l', l)" "freq_dict_ok l'"
    "fd_is l' = fd_is (dt_userLabels d) @ ms" "length ms \<le> label_size (user_Labels u)" by blast
  have len: "length (dt_users d) = length us" using d(6) by (metis length_map)
  let ?uf = "grow (Suc (length us)) (dt_userFeedback d)"
  let ?d = "d\<lparr>dt_userLabels := l', dt_users := dt_users d @ [\<lparr>du_UserId = user_UserId u, du_Labels = l, du_Comment = user_Comment u\<rparr>],
    dt_userDict := fst (fd_AddNoCount (dt_userDict d) (user_UserId u)), dt_userFeedback := ?uf, dt_timestamps := grow (Suc (length us)) (dt_timestamps d)\<rparr>"
  have run: "AddUser FromAny u d = Inr ?d" using l(1) len by (simp add: AddUser_def Let_def)
  have grown: "Suc (length us) \<le> length ?uf" "length (dt_userFeedback d) \<le> length ?uf" using d(7) by (simp_all add: grow_def)
  have "count_list (?uf ! a) (of_nat b) = count_list ps ((us @ [user_UserId u]) ! a, is ! b)"
    if ab: "a < Suc (length us)" "b < length is" for a b
  proof (cases "a < length us")
    case True
    then show ?thesis using d(7,9) ab(2) grow_same [of a "dt_userFeedback d"] by (simp add: nth_append)
  next
    case False
    then have a: "a = length us" using ab by simp
    have "x \<notin> set (?uf ! a)" for x
    proof
      assume "x \<in> set (?uf ! a)"
      moreover have "a < length ?uf" using grown(1) a by simp
      ultimately have "a < length (dt_userFeedback d) \<and> x \<in> set (dt_userFeedback d ! a)" by (intro grow_new)
      then have "a < length us" using d(8) by blast
      then show False using a by simp
    qed
    moreover have "(user_UserId u, is ! b) \<notin> set ps" using ps fresh by auto
    ultimately show ?thesis using a by simp
  qed
  moreover have "a < Suc (length us) \<and> in_rows i (length is)" if "a < length ?uf" "i \<in> set (?uf ! a)" for a i
    using grow_new [OF that] d(8) less_SucI by blast
  moreover have "tables_ok ?d" by (rule tables_ok_grow_users [OF d(1)])
  ultimately have "dataset_inv (us @ [user_UserId u]) is (n + label_size (user_Labels u)) ps ?d"
    using assms(1) fd_AddNoCount_new [OF d(2), of "user_UserId u"] fresh d(4,5) l(2-4) grown unfolding dataset_inv_def by simp
  then show ?thesis using run by blast
qed

lemma dataset_inv_item:
  assumes "dataset_inv us is n ps d" and fresh: "item_ItemId i \<notin> set is" and room: "n + label_size (item_Labels i) \<le> 2147483648"
    and small: "length is < 2147483648" and ps: "set ps \<subseteq> set us \<times> set is"
  shows "\<exists>d'. AddItem FromAny i d = Inr d' \<and> dataset_inv us (is @ [item_ItemId i]) (n + label_size (item_Labels i)) ps d'"
proof -
  have d: "tables_ok d" "freq_dict_ok (dt_itemDict d)" "freq_dict_ok (dt_itemLabels d)" "length (fd_is (dt_itemLabels d)) \<le> n"
    "fd_is (dt_itemDict d) = is" "map di_ItemId (dt_items d) = is" "length is \<le> length (dt_itemFeedback d)"
    "\<forall>a < length (dt_userFeedback d). \<forall>i \<in> set (dt_userFeedback d ! a). a < length us \<and> in_rows i (length is)"
    "\<forall>a < length us. \<forall>b < length is. count_list (dt_userFeedback d ! a) (of_nat b) = count_list ps (us ! a, is ! b)"
    "length us \<le> length (dt_userFeedback d)"
    using assms(1) unfolding dataset_inv_def by blast+
  have "length (fd_is (dt_itemLabels d)) + label_size (item_Labels i) \<le> 2147483648" using d(4) room by simp
  from processLabels_ok(1) [OF d(3) this, of FromAny "''''"] obtain l' l ms where
    l: "processLabels FromAny (dt_itemLabels d) '''' (item_Labels i) = Inr (l', l)" "freq_dict_ok l'"
    "fd_is l' = fd_is (dt_itemLabels d) @ ms" "length ms \<le> label_size (item_Labels i)" by blast
  have len: "length (dt_items d) = length is" using d(6) by (metis length_map)
  let ?d = "d\<lparr>dt_itemLabels := l', dt_items := dt_items d @ [\<lparr>di_ItemId = item_ItemId i, di_IsHidden = item_IsHidden i,
      di_Categories = item_Categories i, di_Timestamp = item_Timestamp i, di_Labels = l, di_Comment = item_Comment i\<rparr>],
    dt_itemDict := fst (fd_AddNoCount (dt_itemDict d) (item_ItemId i)), dt_itemFeedback := grow (Suc (length is)) (dt_itemFeedback d),
    dt_categories := count_categories (dt_categories d) (item_Categories i)\<rparr>"
  have run: "AddItem FromAny i d = Inr ?d" using l(1) len by (simp add: AddItem_def Let_def)
  have "count_list (dt_userFeedback d ! a) (of_nat b) = count_list ps (us ! a, (is @ [item_ItemId i]) ! b)"
    if ab: "a < length us" "b < Suc (length is)" for a b
  proof (cases "b < length is")
    case True
    then show ?thesis using d(9) ab(1) by (simp add: nth_append)
  next
    case False
    then have b: "b = length is" using ab by simp
    have "\<not> in_rows (of_nat b) (length is)" using b small by (simp add: in_rows_def)
    moreover have "a < length (dt_userFeedback d)" using d(10) ab(1) by simp
    ultimately have "of_nat b \<notin> set (dt_userFeedback d ! a)" using d(8) by blast
    moreover have "(us ! a, item_ItemId i) \<notin> set ps" using ps fresh by auto
    ultimately show ?thesis using b by simp
  qed
  moreover have "in_rows j (Suc (length is))" if "in_rows j (length is)" for j using that by (simp add: in_rows_def)
  moreover have "tables_ok ?d" by (rule tables_ok_grow_items [OF d(1)])
  ultimately have "dataset_inv us (is @ [item_ItemId i]) (n + label_size (item_Labels i)) ps ?d"
    using assms(1) fd_AddNoCount_new [OF d(2), of "item_ItemId i"] fresh d(4,5,7) l(2-4) unfolding dataset_inv_def
    by (simp add: grow_def)
  then show ?thesis using run by blast
qed

lemma dataset_inv_feedback:
  assumes "dataset_inv us is n ps d" and u: "u \<in> set us" and i: "i \<in> set is"
    and small: "length us < 2147483648" "length is < 2147483648"
  shows "\<exists>d'. AddFeedback u i t d = Inr d' \<and> dataset_inv us is n (ps @ [(u, i)]) d'"
proof -
  have d: "tables_ok d" "freq_dict_ok (dt_userDict d)" "freq_dict_ok (dt_itemDict d)" "fd_is (dt_userDict d) = us" "fd_is (dt_itemDict d) = is"
    "length us \<le> length (dt_userFeedback d)" "length is \<le> length (dt_itemFeedback d)"
    "\<forall>a < length (dt_userFeedback d). \<forall>i \<in> set (dt_userFeedback d ! a). a < length us \<and> in_rows i (length is)"
    "\<forall>a < length us. \<forall>b < length is. count_list (dt_userFeedback d ! a) (of_nat b) = count_list ps (us ! a, is ! b)"
    "dt_numFeedback d = int (length ps)"
    using assms(1) unfolding dataset_inv_def by blast+
  have "length (fd_is (dt_userDict d)) < 2147483648" "length (fd_is (dt_itemDict d)) < 2147483648" using small d(4,5) by simp_all
  with fd_Add_ok [OF d(2), of u] fd_Add_ok [OF d(3), of i] u i d(4,5) obtain ud x itd y where
    x: "fd_Add (dt_userDict d) u = Inr (ud, x)" "freq_dict_ok ud" "fd_is ud = us" "in_rows x (length us)" "us ! row x = u"
    and y: "fd_Add (dt_itemDict d) i = Inr (itd, y)" "freq_dict_ok itd" "fd_is itd = is" "in_rows y (length is)" "is ! row y = i" by auto
  let ?d = "d\<lparr>dt_userDict := ud, dt_itemDict := itd\<rparr>"
  have ok: "tables_ok ?d" using d(1) by (simp add: tables_ok_def)
  have rows: "in_rows x (length (dt_userFeedback ?d))" "in_rows y (length (dt_itemFeedback ?d))"
    using x(4) y(4) d(6,7) by (simp_all add: in_rows_def)
  obtain d' where d': "record_feedback x y t ?d = Inr d'" "tables_ok d'" "same_rows ?d d'"
    "dt_userFeedback d' = (dt_userFeedback ?d)[row x := dt_userFeedback ?d ! row x @ [y]]"
    "dt_users d' = dt_users ?d" "dt_items d' = dt_items ?d" "dt_userDict d' = dt_userDict ?d" "dt_itemDict d' = dt_itemDict ?d"
    "dt_userLabels d' = dt_userLabels d" "dt_itemLabels d' = dt_itemLabels d" "dt_numFeedback d' = dt_numFeedback d + 1"
  proof (rule record_feedback_ok [OF ok rows, of t])
    fix d' assume r: "record_feedback x y t ?d = Inr d'" "tables_ok d'" "same_rows ?d d'"
      "dt_userFeedback d' = (dt_userFeedback ?d)[row x := dt_userFeedback ?d ! row x @ [y]]"
      "dt_users d' = dt_users ?d" "dt_items d' = dt_items ?d" "dt_userDict d' = dt_userDict ?d" "dt_itemDict d' = dt_itemDict ?d"
    have "dt_userLabels d' = dt_userLabels d \<and> dt_itemLabels d' = dt_itemLabels d \<and> dt_numFeedback d' = dt_numFeedback d + 1"
      using r(1) by (auto simp: record_feedback_def p_bind_Inr)
    then show thesis using that r by blast
  qed
  have run: "AddFeedback u i t d = Inr d'" using x(1) y(1) d'(1) by (simp add: AddFeedback_def)
  have dist: "distinct us" "distinct is" using d(2-5) by (auto simp: freq_dict_ok_def numbering_def)
  have rx: "row x < length us" "row y < length is" using x(4) y(4) by (simp_all add: row_less)
  have same_y: "(of_nat b :: i32) = y \<longleftrightarrow> is ! b = i" if "b < length is" for b
  proof -
    have "in_rows (of_nat b) (length is)" "row (of_nat b) = b" using that small(2) by (simp_all add: in_rows_def row_def)
    then have "(of_nat b :: i32) = y \<longleftrightarrow> b = row y" using row_inject [OF _ y(4), of "of_nat b"] by simp
    then show ?thesis using nth_eq_iff_index_eq [OF dist(2) that rx(2)] y(5) by metis
  qed
  have "count_list (dt_userFeedback d' ! a) (of_nat b) = count_list (ps @ [(u, i)]) (us ! a, is ! b)"
    if ab: "a < length us" "b < length is" for a b
  proof (cases "a = row x")
    case True
    then show ?thesis using d(6,9) ab same_y [OF ab(2)] x(5) by (simp add: d'(4) count_list_append eq_commute)
  next
    case False
    then have "us ! a \<noteq> u" using nth_eq_iff_index_eq [OF dist(1) ab(1) rx(1)] x(5) by simp
    then show ?thesis using d(9) ab False by (simp add: d'(4) count_list_append)
  qed
  moreover have "a < length us \<and> in_rows j (length is)" if "a < length (dt_userFeedback d')" "j \<in> set (dt_userFeedback d' ! a)" for a j
    using that d(8) y(4) rx(1) by (cases "a = row x") (auto simp: d'(4))
  ultimately have "dataset_inv us is n (ps @ [(u, i)]) d'"
    using assms(1) d' d(4-7) x(2,3) y(2,3) unfolding dataset_inv_def same_rows_def by simp
  then show ?thesis using run by blast
qed

lemma dataset_inv_New:
  assumes "0 \<le> uc" "0 \<le> ic"
  shows "\<exists>d. NewDataset t uc ic = Inr d \<and> dataset_inv [] [] 0 [] d"
proof -
  have "count_list (replicate n [] ! row k) x = 0" if "in_rows k n" for k n and x :: i32
    using row_less [OF that] by simp
  then show ?thesis using assms
    by (simp add: NewDataset_def dataset_inv_def tables_ok_def NewFreqDict_def freq_dict_ok_def sum_list_replicate)
qed

lemma dataset_inv_run:
  "feed_ok us is ops \<Longrightarrow> dataset_inv us is n ps d \<Longrightarrow> set ps \<subseteq> set us \<times> set is \<Longrightarrow> n + label_total ops \<le> 2147483648 \<Longrightarrow>
   length us + length is + length ops < 2147483648 \<Longrightarrow>
   \<exists>d'. p_fold (dataset_step FromAny) ops d = Inr d' \<and>
     dataset_inv (us @ user_ids ops) (is @ item_ids ops) (n + label_total ops) (ps @ feedback_pairs ops) d'"
proof (induction us "is" ops arbitrary: n ps d rule: feed_ok.induct)
  case (1 us "is")
  then show ?case by (simp add: user_ids_def item_ids_def label_total_def feedback_pairs_def)
next
  case (2 us "is" u ops)
  from 2(2) have fresh: "user_UserId u \<notin> set us" and rest: "feed_ok (us @ [user_UserId u]) is ops" by simp_all
  have room: "n + label_size (user_Labels u) \<le> 2147483648" using 2(5) by (simp add: label_total_def)
  obtain d1 where d1: "AddUser FromAny u d = Inr d1" "dataset_inv (us @ [user_UserId u]) is (n + label_size (user_Labels u)) ps d1"
    using dataset_inv_user [OF 2(3) fresh room 2(4)] by blast
  have "set ps \<subseteq> set (us @ [user_UserId u]) \<times> set is" "n + label_size (user_Labels u) + label_total ops \<le> 2147483648"
    "length (us @ [user_UserId u]) + length is + length ops < 2147483648" using 2(4-6) by (auto simp: label_total_def)
  from 2(1) [OF rest d1(2) this] show ?case using d1(1)
    by (simp add: user_ids_def item_ids_def label_total_def feedback_pairs_def add.assoc)
next
  case (3 us "is" i ops)
  from 3(2) have fresh: "item_ItemId i \<notin> set is" and rest: "feed_ok us (is @ [item_ItemId i]) ops" by simp_all
  have room: "n + label_size (item_Labels i) \<le> 2147483648" "length is < 2147483648" using 3(5,6) by (simp_all add: label_total_def)
  obtain d1 where d1: "AddItem FromAny i d = Inr d1" "dataset_inv us (is @ [item_ItemId i]) (n + label_size (item_Labels i)) ps d1"
    using dataset_inv_item [OF 3(3) fresh room 3(4)] by blast
  have "set ps \<subseteq> set us \<times> set (is @ [item_ItemId i])" "n + label_size (item_Labels i) + label_total ops \<le> 2147483648"
    "length us + length (is @ [item_ItemId i]) + length ops < 2147483648" using 3(4-6) by (auto simp: label_total_def)
  from 3(1) [OF rest d1(2) this] show ?case using d1(1)
    by (simp add: user_ids_def item_ids_def label_total_def feedback_pairs_def add.assoc)
next
  case (4 us "is" u i t ops)
  from 4(2) have known: "u \<in> set us" "i \<in> set is" and rest: "feed_ok us is ops" by simp_all
  have small: "length us < 2147483648" "length is < 2147483648" using 4(6) by simp_all
  obtain d1 where d1: "AddFeedback u i t d = Inr d1" "dataset_inv us is n (ps @ [(u, i)]) d1"
    using dataset_inv_feedback [OF 4(3) known small] by blast
  have "set (ps @ [(u, i)]) \<subseteq> set us \<times> set is" "n + label_total ops \<le> 2147483648"
    "length us + length is + length ops < 2147483648" using 4(4-6) known by (auto simp: label_total_def)
  from 4(1) [OF rest d1(2) this] show ?case using d1(1)
    by (simp add: user_ids_def item_ids_def label_total_def feedback_pairs_def)
qed

lemma dataset_build_inv:
  assumes "0 \<le> uc" "0 \<le> ic" "feed_ok [] [] ops" "label_total ops \<le> 2147483648" "length ops < 2147483648"
  shows "\<exists>d. p_bind (NewDataset t uc ic) (p_fold (dataset_step FromAny) ops) = Inr d \<and>
    dataset_inv (user_ids ops) (item_ids ops) (label_total ops) (feedback_pairs ops) d"
proof -
  obtain d0 where d0: "NewDataset t uc ic = Inr d0" "dataset_inv [] [] 0 [] (d0 :: dataset)"
    using dataset_inv_New [OF assms(1,2)] by blast
  from dataset_inv_run [OF assms(3) d0(2)] assms(4,5) show ?thesis unfolding d0(1) by simp
qed

text \<open>(C27) Building a data set, with whatever capacities, never panics when every id is added once and feedback only follows its user and its
  item (and the sizes fit an \<open>int32\<close>): users and items keep the order of their ids, the tables by user and by item are
  consistent, the counter is the number of feedbacks, and the row of a user lists an item as often as
  there was feedback of this user on this item.\<close>

theorem dataset_build:
  assumes "0 \<le> uc" "0 \<le> ic" "feed_ok [] [] ops" "label_total ops \<le> 2147483648" "length ops < 2147483648"
  shows "\<exists>d. p_bind (NewDataset t uc ic) (p_fold (dataset_step FromAny) ops) = Inr d \<and> tables_ok d \<and>
    map du_UserId (dt_users d) = user_ids ops \<and> map di_ItemId (dt_items d) = item_ids ops \<and>
    CountFeedback d = int (length (feedback_pairs ops)) \<and>
    (\<forall>a < CountUsers d. \<forall>b < CountItems d.
       count_list (dt_userFeedback d ! a) (of_nat b) = count_list (feedback_pairs ops) (user_ids ops ! a, item_ids ops ! b))"
proof -
  obtain d where d: "p_bind (NewDataset t uc ic) (p_fold (dataset_step FromAny) ops) = Inr d"
    and inv: "dataset_inv (user_ids ops) (item_ids ops) (label_total ops) (feedback_pairs ops) d"
    using dataset_build_inv [OF assms] by blast
  have "CountUsers d = length (user_ids ops)" "CountItems d = length (item_ids ops)"
    using inv unfolding dataset_inv_def CountUsers_def CountItems_def by (metis length_map)+
  then show ?thesis using d inv unfolding dataset_inv_def CountFeedback_def by auto
qed

text \<open>Feedback of a user or on an item that was never added panics, when no spare capacity was reserved: the dictionaries
  number the new id but the feedback tables have no row for it.\<close>

theorem AddFeedback_unknown_panics:
  assumes "dataset_inv us is n ps d" and "length (dt_userFeedback d) = length us" and "length (dt_itemFeedback d) = length is"
    and "length us < 2147483648" "length is < 2147483648" and unknown: "u \<notin> set us \<or> i \<notin> set is"
  shows "AddFeedback u i t d = Inl IndexOutOfRange"
proof -
  have d: "freq_dict_ok (dt_userDict d)" "freq_dict_ok (dt_itemDict d)" "fd_is (dt_userDict d) = us" "fd_is (dt_itemDict d) = is"
    using assms(1) unfolding dataset_inv_def by blast+
  have number: "\<exists>d' y. fd_Add e s = Inr (d', y) \<and> (if s \<in> set xs then in_rows y (length xs) else y = of_nat (length xs))"
    if e: "freq_dict_ok e" "fd_is e = xs" "length xs < 2147483648" for e s xs
  proof (cases "s \<in> set xs")
    case True
    then show ?thesis using fd_Add_ok [OF e(1), of s] e(2,3) by auto
  next
    case False
    then have "fd_si e s = None" using e(1,2) numbering_None by (auto simp: freq_dict_ok_def)
    then show ?thesis using False e(2) by (auto simp: fd_Add_def fd_append_def Let_def)
  qed
  obtain ud x where x: "fd_Add (dt_userDict d) u = Inr (ud, x)" "if u \<in> set us then in_rows x (length us) else x = of_nat (length us)"
    using number [OF d(1,3) assms(4), of u] by blast
  obtain itd y where y: "fd_Add (dt_itemDict d) i = Inr (itd, y)" "if i \<in> set is then in_rows y (length is) else y = of_nat (length is)"
    using number [OF d(2,4) assms(5), of i] by blast
  have panics: "append_at (of_nat (length xs)) z xs = Inl IndexOutOfRange" if "length xs < 2147483648" for z :: i32 and xs
    using that by (simp add: append_at_def)
  have "append_at y x (dt_itemFeedback d) = Inl IndexOutOfRange" if "i \<notin> set is"
    using y(2) that panics [of "dt_itemFeedback d" x] assms(3,5) by simp
  moreover have "append_at x y (dt_userFeedback d) = Inl IndexOutOfRange" if "u \<notin> set us"
    using x(2) that panics [of "dt_userFeedback d" y] assms(2,4) by simp
  moreover have "\<exists>itf. append_at y x (dt_itemFeedback d) = Inr itf" if "i \<in> set is"
    using y(2) that append_at_in [of y "dt_itemFeedback d" x] assms(3) by simp
  ultimately show ?thesis using unknown x(1) y(1)
    by (cases "i \<in> set is") (auto simp: AddFeedback_def record_feedback_def)
qed

subsection \<open>An example\<close>

definition example_op_user :: "string \<Rightarrow> dataset_op" where
  "example_op_user u = OpUser \<lparr>user_UserId = u, user_Labels = JString ''l'', user_Comment = '''', user_UpdateAt = 0\<rparr>"

definition example_op_item :: "string \<Rightarrow> dataset_op" where
  "example_op_item i = OpItem \<lparr>item_ItemId = i, item_IsHidden = False, item_Categories = [''c''], item_Timestamp = 0, item_UpdateAt = 0,
     item_Labels = JNull, item_Comment = ''''\<rparr>"

definition example_ops :: "dataset_op list" where
  "example_ops = [example_op_user ''u'', example_op_item ''a'', example_op_item ''b'', OpFeedback ''u'' ''a'' 1, example_op_user ''v'',
     OpFeedback ''u'' ''b'' 2, OpFeedback ''v'' ''a'' 3]"

definition example_dataset :: dataset where
  "example_dataset = (case p_bind (NewDataset 0 0 0) (p_fold (dataset_step (\<lambda>xs. None)) example_ops) of Inr d \<Rightarrow> d)"

lemma example_ops_facts:
  "feed_ok [] [] example_ops" "label_total example_ops = 2" "length example_ops = 7"
  "user_ids example_ops = [''u'', ''v'']" "item_ids example_ops = [''a'', ''b'']"
  "feedback_pairs example_ops = [(''u'', ''a''), (''u'', ''b''), (''v'', ''a'')]"
  by code_simp+

lemma example_ops_sizes: "label_total example_ops \<le> 2147483648" "length example_ops < 2147483648"
  by (simp_all add: example_ops_facts)

lemma example_dataset_inv:
  "dataset_inv [''u'', ''v''] [''a'', ''b''] (label_total example_ops) [(''u'', ''a''), (''u'', ''b''), (''v'', ''a'')] example_dataset"
  using dataset_build_inv [of 0 0 example_ops 0 "\<lambda>xs. None :: 16 word list option", OF _ _ example_ops_facts(1) example_ops_sizes]
  by (auto simp: example_dataset_def example_ops_facts(4-6))

lemma example_rows:
  "length (dt_userFeedback example_dataset) = 2" "length (dt_itemFeedback example_dataset) = 2" "CountUsers example_dataset = 2" "CountItems example_dataset = 2"
  "dt_userFeedback example_dataset = [[0, 1], [0]]" "dt_timestamps example_dataset = [[1, 2], [3]]"
  by code_simp+

lemma example_dataset_ok: "tables_ok example_dataset" "rows_fit example_dataset"
  using example_dataset_inv example_rows by (simp_all add: dataset_inv_def rows_fit_def)

theorem dataset_build_witness:
  "\<exists>d. p_bind (NewDataset 0 0 0) (p_fold (dataset_step (\<lambda>xs. None :: 16 word list option)) example_ops) = Inr d \<and> CountFeedback d = 3 \<and> tables_ok d"
  using dataset_build [of 0 0 example_ops 0 "\<lambda>xs. None :: 16 word list option", OF _ _ example_ops_facts(1) example_ops_sizes] by (auto simp: example_ops_facts(6))

theorem AddFeedback_unknown_panics_witness:
  "AddFeedback ''w'' ''a'' 4 example_dataset = Inl IndexOutOfRange"
  using AddFeedback_unknown_panics [OF example_dataset_inv, of "''w''" "''a''" 4] example_rows by simp

theorem SplitCF_partitions_witness:
  "\<exists>train test. SplitCF (\<lambda>g n. (g mod n, Suc g)) counting_draw 1 0 example_dataset = Some (Inr (train, test)) \<and> tables_ok train \<and> tables_ok test"
proof -
  have fair: "fair_draw (counting_draw (of_nat (CountUsers example_dataset))) (set (i32_range 0 (of_nat (CountUsers example_dataset))))"
    unfolding example_rows by (rule counting_fair) simp_all
  have rng: "fst (g mod n, Suc g) < n" if "0 < n" for g n :: nat using that by simp
  from SplitCF_partitions [where numTestUsers = 1 and rng = 0 and Intn = "\<lambda>g n. (g mod n, Suc g)" and Int31n = counting_draw, OF example_dataset_ok rng fair] show ?thesis by blast
qed

definition insertion_order :: "time list \<Rightarrow> nat list" where
  "insertion_order ts = sort_key (\<lambda>i. - ts ! i) [0..<length ts]"

lemma insertion_order_latest: "latest_order insertion_order"
proof -
  have "sorted (map (\<lambda>i. - ts ! i) (insertion_order ts))" for ts :: "time list"
    unfolding insertion_order_def by (rule sorted_sort_key)
  then show ?thesis by (simp add: latest_order_def sorted_wrt_map) (simp add: insertion_order_def)
qed

theorem SplitLatest_no_leak_witness:
  "\<exists>train test. SplitLatest insertion_order 1 example_dataset = Inr (train, test) \<and> length (dt_userFeedback train ! 0) = 1 \<and>
     (\<exists>k < 2. dt_timestamps test ! 0 = [[1, 2] ! k] \<and> (\<forall>t \<in> {1, 2 :: time}. t \<le> [1, 2] ! k))"
proof -
  obtain train test where run: "SplitLatest insertion_order 1 example_dataset = Inr (train, test)"
    and each: "\<forall>a < CountUsers example_dataset. dt_userFeedback example_dataset ! a \<noteq> [] \<longrightarrow>
       (\<exists>k < length (dt_userFeedback example_dataset ! a). dt_userFeedback test ! a = [dt_userFeedback example_dataset ! a ! k] \<and>
          dt_timestamps test ! a = [dt_timestamps example_dataset ! a ! k] \<and>
          (\<forall>t \<in> set (dt_timestamps example_dataset ! a). t \<le> dt_timestamps example_dataset ! a ! k)) \<and>
       length (dt_userFeedback train ! a) = min (nat 1) (length (dt_userFeedback example_dataset ! a) - 1) \<and>
       mset (dt_userFeedback train ! a) + mset (dt_userFeedback test ! a) \<subseteq># mset (dt_userFeedback example_dataset ! a)"
    using SplitLatest_no_leak [OF insertion_order_latest example_dataset_ok, of 1] by blast
  from each [rule_format, of 0] have "(\<exists>k < 2. dt_timestamps test ! 0 = [[1, 2] ! k] \<and> (\<forall>t \<in> {1, 2 :: time}. t \<le> [1, 2] ! k)) \<and> length (dt_userFeedback train ! 0) = 1"
    by (auto simp: example_rows numeral_2_eq_2)
  then show ?thesis using run by blast
qed

end
