(* ===== verification/Parallel.thy ===== *)
theory Parallel
  imports Prelude
begin

text \<open>
  \<open>common/parallel/parallel.go\<close>: splitting a slice, the pool of workers behind \<open>Parallel\<close>, \<open>For\<close> and
  \<open>ForEach\<close>, and the jobs that may give up their slot for a while (\<open>Detachable\<close>). Goroutines interleave, so
  the pools are step relations: a step is one channel operation, one check of the context or the run of one job.
  A buffered channel is a list (the pool) or the number of its elements (a semaphore).
\<close>

subsection \<open>Splitting a slice\<close>

text \<open>Go's \<open>/\<close> and \<open>%\<close> agree with \<open>div\<close> and \<open>mod\<close> here: the divisor is positive when the chunks are made.\<close>

fun chunks_from :: "nat \<Rightarrow> nat \<Rightarrow> nat \<Rightarrow> nat \<Rightarrow> 'a list \<Rightarrow> 'a list list" where
  "chunks_from minChunkSize maxChunkNum i 0 a = []"
| "chunks_from minChunkSize maxChunkNum i (Suc n) a =
     (let chunkSize = (if i < maxChunkNum then minChunkSize + 1 else minChunkSize)
      in take chunkSize a # chunks_from minChunkSize maxChunkNum (Suc i) n (drop chunkSize a))"

definition Split :: "'a list \<Rightarrow> int \<Rightarrow> go_panic + 'a list list" where
  "Split a n =
     (if length a = 0 then Inr []
      else let m = (if n > int (length a) then int (length a) else n) in
        if m = 0 then Inl DivideByZero else if m < 0 then Inl NegativeLength
        else Inr (chunks_from (length a div nat m) (length a mod nat m) 0 (nat m) a))"

lemma chunks_from_concat:
  "length a = n * k + (r - i) \<Longrightarrow> r - i \<le> n \<Longrightarrow>
   concat (chunks_from k r i n a) = a \<and> length (chunks_from k r i n a) = n \<and> (\<forall>c \<in> set (chunks_from k r i n a). length c = k \<or> length c = k + 1)"
proof (induction n arbitrary: i a)
  case (Suc n)
  let ?s = "if i < r then k + 1 else k"
  have "length (drop ?s a) = n * k + (r - Suc i)" "r - Suc i \<le> n" "?s \<le> length a" using Suc.prems by auto
  with Suc.IH [of "drop ?s a" "Suc i"] show ?case by (auto simp: Let_def)
qed simp

text \<open>Splitting keeps all elements in order, in as many chunks as asked for (or one per element, when there are fewer), whose
  sizes differ by at most one; a request for zero or fewer chunks of a non-empty slice panics.\<close>

theorem Split_chunks:
  "(a \<noteq> [] \<and> 0 < n \<longrightarrow> (\<exists>cs. Split a n = Inr cs \<and> concat cs = a \<and> length cs = min (nat n) (length a) \<and>
      (\<exists>k > 0. \<forall>c \<in> set cs. length c = k \<or> length c = k + 1))) \<and>
   (a \<noteq> [] \<and> n \<le> 0 \<longrightarrow> (\<exists>p. Split a n = Inl p)) \<and> Split ([] :: 'a list) n = Inr []"
proof -
  have "\<exists>cs. Split a n = Inr cs \<and> concat cs = a \<and> length cs = min (nat n) (length a) \<and> (\<exists>k > 0. \<forall>c \<in> set cs. length c = k \<or> length c = k + 1)"
    if a: "a \<noteq> []" and n: "0 < n"
  proof -
    let ?m = "min (nat n) (length a)"
    have m: "0 < ?m" "?m \<le> length a" using a n by auto
    have "nat (if n > int (length a) then int (length a) else n) = ?m" by auto
    then have run: "Split a n = Inr (chunks_from (length a div ?m) (length a mod ?m) 0 ?m a)"
      using a n by (auto simp: Split_def Let_def)
    have "length a = ?m * (length a div ?m) + (length a mod ?m - 0)" "length a mod ?m - 0 \<le> ?m"
      using mod_less_divisor [OF m(1), of "length a"] by simp_all
    note c = chunks_from_concat [OF this]
    have "0 < length a div ?m" using m by (simp add: div_greater_zero_iff)
    then show ?thesis using run c by blast
  qed
  then show ?thesis by (auto simp: Split_def Let_def)
qed

theorem Split_chunks_witness: "\<exists>cs. Split [1, 2, 3, 4, 5 :: nat] 2 = Inr cs \<and> concat cs = [1, 2, 3, 4, 5] \<and> length cs = 2"
proof -
  have "[1, 2, 3, 4, 5 :: nat] \<noteq> [] \<and> (0 :: int) < 2" by simp
  with Split_chunks [of "[1, 2, 3, 4, 5 :: nat]" 2] obtain cs where
    "Split [1, 2, 3, 4, 5 :: nat] 2 = Inr cs" "concat cs = [1, 2, 3, 4, 5]" "length cs = min (nat 2) (length [1, 2, 3, 4, 5 :: nat])" by blast
  then show ?thesis by auto
qed

subsection \<open>Sums over threads\<close>

text \<open>Changing the state of one thread changes a sum over the threads by that thread's part.\<close>

lemma sum_thread:
  fixes m :: "'s \<Rightarrow> 'b::comm_monoid_add" and f :: "nat \<Rightarrow> 's"
  assumes "i < n"
  shows "(\<Sum>j<n. m ((f(i := x)) j)) + m (f i) = (\<Sum>j<n. m (f j)) + m x"
proof -
  have "(\<Sum>j<n. m (g j)) = m (g i) + (\<Sum>j \<in> {..<n} - {i}. m (g j))" for g :: "nat \<Rightarrow> 's"
    using assms by (intro sum.remove) simp_all
  from this [of f] this [of "f(i := x)"]
  have "(\<Sum>j<n. m (f j)) = m (f i) + (\<Sum>j \<in> {..<n} - {i}. m (f j))"
    "(\<Sum>j<n. m ((f(i := x)) j)) = m x + (\<Sum>j \<in> {..<n} - {i}. m ((f(i := x)) j))" by simp_all
  moreover have "(\<Sum>j \<in> {..<n} - {i}. m ((f(i := x)) j)) = (\<Sum>j \<in> {..<n} - {i}. m (f j))" by (intro sum.cong) auto
  ultimately show ?thesis by (simp add: ac_simps)
qed

subsection \<open>The pool of workers\<close>

datatype worker = Idle | Checking nat | Working nat | Exited

datatype job_result = Done | Error go_error | Panicking

text \<open>\<open>Parallel\<close> records the error of a job and of a cancelled job; \<open>For\<close> and \<open>ForEach\<close> record nothing.\<close>

datatype pool_kind = PoolParallel | PoolFor

definition chanSize :: nat where
  "chanSize = 1024"

record pool =
  wp_next :: nat
  wp_closed :: bool
  wp_chan :: "nat list"
  wp_workers :: "nat \<Rightarrow> worker"
  wp_errs :: "nat \<Rightarrow> go_error option"
  wp_cancelled :: bool
  wp_done :: "nat list"

definition pool_start :: pool where
  "pool_start = \<lparr>wp_next = 0, wp_closed = False, wp_chan = [], wp_workers = (\<lambda>w. Idle), wp_errs = (\<lambda>j. None),
     wp_cancelled = False, wp_done = []\<rparr>"

definition set_worker :: "nat \<Rightarrow> worker \<Rightarrow> pool \<Rightarrow> pool" where
  "set_worker w x s = s\<lparr>wp_workers := (wp_workers s)(w := x)\<rparr>"

definition set_err :: "pool_kind \<Rightarrow> nat \<Rightarrow> go_error \<Rightarrow> pool \<Rightarrow> pool" where
  "set_err kind j e s = (case kind of PoolParallel \<Rightarrow> s\<lparr>wp_errs := (wp_errs s)(j := Some e)\<rparr> | PoolFor \<Rightarrow> s)"

text \<open>A cancelled producer closes the channel early; a select with several ready cases may take any of them.\<close>

inductive pool_step :: "pool_kind \<Rightarrow> go_error \<Rightarrow> nat \<Rightarrow> nat \<Rightarrow> (nat \<Rightarrow> nat \<Rightarrow> job_result) \<Rightarrow> pool \<Rightarrow> pool \<Rightarrow> bool"
  for kind ctxErr nJobs nWorkers work where
  Produce: "\<not> wp_closed s \<Longrightarrow> wp_next s < nJobs \<Longrightarrow> length (wp_chan s) < chanSize \<Longrightarrow>
    pool_step kind ctxErr nJobs nWorkers work s (s\<lparr>wp_chan := wp_chan s @ [wp_next s], wp_next := Suc (wp_next s)\<rparr>)"
| Close: "\<not> wp_closed s \<Longrightarrow> wp_next s = nJobs \<or> wp_cancelled s \<Longrightarrow>
    pool_step kind ctxErr nJobs nWorkers work s (s\<lparr>wp_closed := True\<rparr>)"
| Cancel: "\<not> wp_cancelled s \<Longrightarrow> pool_step kind ctxErr nJobs nWorkers work s (s\<lparr>wp_cancelled := True\<rparr>)"
| Take: "w < nWorkers \<Longrightarrow> wp_workers s w = Idle \<Longrightarrow> wp_chan s = j # js \<Longrightarrow>
    pool_step kind ctxErr nJobs nWorkers work s (set_worker w (Checking j) (s\<lparr>wp_chan := js\<rparr>))"
| TakeClosed: "w < nWorkers \<Longrightarrow> wp_workers s w = Idle \<Longrightarrow> wp_chan s = [] \<Longrightarrow> wp_closed s \<Longrightarrow>
    pool_step kind ctxErr nJobs nWorkers work s (set_worker w Exited s)"
| TakeCancelled: "w < nWorkers \<Longrightarrow> wp_workers s w = Idle \<Longrightarrow> wp_cancelled s \<Longrightarrow>
    pool_step kind ctxErr nJobs nWorkers work s (set_worker w Exited s)"
| CheckCancelled: "w < nWorkers \<Longrightarrow> wp_workers s w = Checking j \<Longrightarrow> wp_cancelled s \<Longrightarrow>
    pool_step kind ctxErr nJobs nWorkers work s (set_worker w Exited (set_err kind j ctxErr s))"
| CheckOk: "w < nWorkers \<Longrightarrow> wp_workers s w = Checking j \<Longrightarrow> \<not> wp_cancelled s \<Longrightarrow>
    pool_step kind ctxErr nJobs nWorkers work s (set_worker w (Working j) s)"
| FinishDone: "w < nWorkers \<Longrightarrow> wp_workers s w = Working j \<Longrightarrow> work w j = Done \<Longrightarrow>
    pool_step kind ctxErr nJobs nWorkers work s (set_worker w Idle (s\<lparr>wp_done := wp_done s @ [j]\<rparr>))"
| FinishError: "w < nWorkers \<Longrightarrow> wp_workers s w = Working j \<Longrightarrow> work w j = Error e \<Longrightarrow> kind = PoolParallel \<Longrightarrow>
    pool_step kind ctxErr nJobs nWorkers work s (set_worker w Exited (set_err kind j e s))"
| FinishPanic: "w < nWorkers \<Longrightarrow> wp_workers s w = Working j \<Longrightarrow> work w j = Panicking \<Longrightarrow> kind = PoolParallel \<Longrightarrow>
    pool_step kind ctxErr nJobs nWorkers work s (set_worker w Exited s)"

text \<open>\<open>wg.Wait()\<close> returns when every worker has exited; then the first error in job order is returned, else \<open>ctx.Err()\<close>.\<close>

definition pool_returned :: "nat \<Rightarrow> pool \<Rightarrow> bool" where
  "pool_returned nWorkers s \<longleftrightarrow> (\<forall>w<nWorkers. wp_workers s w = Exited)"

definition pool_result :: "go_error \<Rightarrow> nat \<Rightarrow> pool \<Rightarrow> go_error option" where
  "pool_result ctxErr nJobs s =
     (case List.find (\<lambda>j. wp_errs s j \<noteq> None) [0..<nJobs] of
        Some j \<Rightarrow> wp_errs s j
      | None \<Rightarrow> if wp_cancelled s then Some ctxErr else None)"

text \<open>The sequential loop for at most one worker: the context is checked before every job.\<close>

fun sequential_jobs :: "(nat \<Rightarrow> bool) \<Rightarrow> go_error \<Rightarrow> (nat \<Rightarrow> go_error option) \<Rightarrow> nat list \<Rightarrow> nat list \<times> go_error option" where
  "sequential_jobs cancelled ctxErr work [] = ([], None)"
| "sequential_jobs cancelled ctxErr work (j # js) =
     (if cancelled j then ([], Some ctxErr)
      else case work j of
        Some e \<Rightarrow> ([j], Some e)
      | None \<Rightarrow> (case sequential_jobs cancelled ctxErr work js of (jobs, r) \<Rightarrow> (j # jobs, r)))"

text \<open>After the loop, \<open>ctx.Err()\<close> decides; \<open>cancelled nJobs\<close> is its value then.\<close>

definition Parallel_sequential :: "(nat \<Rightarrow> bool) \<Rightarrow> go_error \<Rightarrow> (nat \<Rightarrow> go_error option) \<Rightarrow> nat \<Rightarrow> nat list \<times> go_error option" where
  "Parallel_sequential cancelled ctxErr work nJobs =
     (case sequential_jobs cancelled ctxErr work [0..<nJobs] of
        (jobs, Some e) \<Rightarrow> (jobs, Some e)
      | (jobs, None) \<Rightarrow> (jobs, if cancelled nJobs then Some ctxErr else None))"

definition pool_reachable :: "pool_kind \<Rightarrow> go_error \<Rightarrow> nat \<Rightarrow> nat \<Rightarrow> (nat \<Rightarrow> nat \<Rightarrow> job_result) \<Rightarrow> pool \<Rightarrow> bool" where
  "pool_reachable kind ctxErr nJobs nWorkers work s \<longleftrightarrow> (pool_step kind ctxErr nJobs nWorkers work)\<^sup>*\<^sup>* pool_start s"

subsection \<open>What the pool computes\<close>

text \<open>The jobs that a worker holds.\<close>

fun held :: "worker \<Rightarrow> nat multiset" where
  "held (Checking j) = {#j#}"
| "held (Working j) = {#j#}"
| "held Idle = {#}"
| "held Exited = {#}"

definition pool_jobs :: "nat \<Rightarrow> pool \<Rightarrow> nat multiset" where
  "pool_jobs nWorkers s = mset (wp_done s) + mset (wp_chan s) + (\<Sum>w<nWorkers. held (wp_workers s w))"

text \<open>Jobs are only lost after an error, a panic or a cancellation; without them the jobs seen are exactly those produced.\<close>

definition pool_inv :: "pool_kind \<Rightarrow> nat \<Rightarrow> nat \<Rightarrow> (nat \<Rightarrow> nat \<Rightarrow> job_result) \<Rightarrow> pool \<Rightarrow> bool" where
  "pool_inv kind nJobs nWorkers work s \<longleftrightarrow>
     wp_next s \<le> nJobs \<and> length (wp_chan s) \<le> chanSize \<and>
     pool_jobs nWorkers s \<subseteq># mset [0..<wp_next s] \<and>
     (wp_closed s \<and> \<not> wp_cancelled s \<longrightarrow> wp_next s = nJobs) \<and>
     ((\<forall>w j. work w j \<noteq> Panicking) \<and> \<not> wp_cancelled s \<and> (\<forall>j<nJobs. wp_errs s j = None) \<longrightarrow>
        pool_jobs nWorkers s = mset [0..<wp_next s] \<and>
        (\<forall>w<nWorkers. wp_workers s w = Exited \<longrightarrow> wp_closed s \<and> wp_chan s = [])) \<and>
     (\<forall>j \<in> set (wp_done s). \<exists>w<nWorkers. work w j = Done) \<and>
     (\<forall>j e. wp_errs s j = Some e \<and> \<not> wp_cancelled s \<longrightarrow> (\<exists>w<nWorkers. work w j = Error e))"

lemma pool_jobs_set_worker:
  "w < nWorkers \<Longrightarrow> pool_jobs nWorkers (set_worker w x s) + held (wp_workers s w) = pool_jobs nWorkers s + held x"
  using sum_thread [of w nWorkers held "wp_workers s" x] by (simp add: pool_jobs_def set_worker_def ac_simps)

lemma set_worker_simps [simp]:
  "wp_next (set_worker w x s) = wp_next s" "wp_closed (set_worker w x s) = wp_closed s" "wp_chan (set_worker w x s) = wp_chan s"
  "wp_errs (set_worker w x s) = wp_errs s" "wp_cancelled (set_worker w x s) = wp_cancelled s" "wp_done (set_worker w x s) = wp_done s"
  "wp_workers (set_worker w x s) = (wp_workers s)(w := x)"
  by (simp_all add: set_worker_def)

lemma set_err_simps [simp]:
  "wp_next (set_err k j e s) = wp_next s" "wp_closed (set_err k j e s) = wp_closed s" "wp_chan (set_err k j e s) = wp_chan s"
  "wp_cancelled (set_err k j e s) = wp_cancelled s" "wp_done (set_err k j e s) = wp_done s" "wp_workers (set_err k j e s) = wp_workers s"
  by (cases k; simp add: set_err_def)+

lemma wp_errs_set_err: "wp_errs (set_err PoolParallel j e s) = (wp_errs s)(j := Some e)"
  by (simp add: set_err_def)

lemma pool_jobs_cong:
  "wp_done s = wp_done t \<Longrightarrow> wp_chan s = wp_chan t \<Longrightarrow> wp_workers s = wp_workers t \<Longrightarrow> pool_jobs n s = pool_jobs n t"
  by (simp add: pool_jobs_def)

text \<open>The jobs of the pool after each kind of step.\<close>

lemma pool_jobs_drop:
  assumes "w < n" shows "pool_jobs n (set_worker w Exited s) \<subseteq># pool_jobs n s"
  using pool_jobs_set_worker [OF assms, of Exited s] by (metis add.right_neutral held.simps(4) mset_subset_eq_add_left)

lemma held_in_jobs:
  assumes "w < n" shows "held (wp_workers s w) \<subseteq># pool_jobs n s"
  using pool_jobs_set_worker [OF assms, of Exited s] by (metis add.commute add.right_neutral held.simps(4) mset_subset_eq_add_left)

lemma pool_inv_start: "pool_inv kind nJobs nWorkers work pool_start"
  by (simp add: pool_inv_def pool_start_def pool_jobs_def)

lemma pool_inv_exit:
  assumes inv: "pool_inv kind nJobs n work s" and w: "w < n"
    and lost: "wp_closed s \<and> wp_chan s = [] \<and> held (wp_workers s w) = {#} \<or> wp_cancelled s \<or> (\<exists>w j. work w j = Panicking)"
  shows "pool_inv kind nJobs n work (set_worker w Exited s)"
proof -
  note i = inv [unfolded pool_inv_def]
  have sub: "pool_jobs n (set_worker w Exited s) \<subseteq># mset [0..<wp_next s]"
    using subset_mset.order_trans [OF pool_jobs_drop [OF w]] i by blast
  have same: "pool_jobs n (set_worker w Exited s) = pool_jobs n s" if "held (wp_workers s w) = {#}"
    using pool_jobs_set_worker [OF w, of Exited s] that by simp
  show ?thesis using i sub same lost unfolding pool_inv_def by auto
qed

lemma pool_inv_step:
  assumes "pool_step kind ctxErr nJobs n work s t" and inv: "pool_inv kind nJobs n work s"
  shows "pool_inv kind nJobs n work t"
  using assms(1)
proof cases
  case Produce
  have jobs: "pool_jobs n t = add_mset (wp_next s) (pool_jobs n s)" unfolding Produce by (simp add: pool_jobs_def)
  have "mset [0..<Suc (wp_next s)] = add_mset (wp_next s) (mset [0..<wp_next s])" by simp
  then show ?thesis using inv jobs Produce unfolding pool_inv_def by (simp add: Suc_le_eq del: upt_Suc)
next
  case Close
  have jobs: "pool_jobs n t = pool_jobs n s" unfolding Close by (rule pool_jobs_cong) simp_all
  show ?thesis using inv Close(3) unfolding pool_inv_def jobs unfolding Close(1) by auto
next
  case Cancel
  have jobs: "pool_jobs n t = pool_jobs n s" unfolding Cancel by (rule pool_jobs_cong) simp_all
  show ?thesis using inv unfolding pool_inv_def jobs unfolding Cancel(1) by simp
next
  case (Take w j js)
  have "pool_jobs n t = pool_jobs n (s\<lparr>wp_chan := js\<rparr>) + {#j#}"
    using pool_jobs_set_worker [OF Take(2), of "Checking j" "s\<lparr>wp_chan := js\<rparr>"] Take(3) unfolding Take(1) by simp
  then have jobs: "pool_jobs n t = pool_jobs n s" using Take(4) by (simp add: pool_jobs_def)
  show ?thesis using inv Take(4) unfolding pool_inv_def jobs unfolding Take(1) by auto
next
  case (TakeClosed w)
  then show ?thesis using pool_inv_exit [OF inv, of w] by simp
next
  case (TakeCancelled w)
  then show ?thesis using pool_inv_exit [OF inv, of w] by simp
next
  case (CheckCancelled w j)
  have jobs: "pool_jobs n (set_err kind j ctxErr s) = pool_jobs n s" by (rule pool_jobs_cong) simp_all
  have "pool_inv kind nJobs n work (set_err kind j ctxErr s)"
    using inv CheckCancelled(4) unfolding pool_inv_def jobs by simp
  from pool_inv_exit [OF this CheckCancelled(2)] CheckCancelled(4) show ?thesis unfolding CheckCancelled(1) by simp
next
  case (CheckOk w j)
  have jobs: "pool_jobs n t = pool_jobs n s"
    using pool_jobs_set_worker [OF CheckOk(2), of "Working j" s] CheckOk(3) unfolding CheckOk(1) by simp
  show ?thesis using inv unfolding pool_inv_def jobs unfolding CheckOk(1) by auto
next
  case (FinishDone w j)
  let ?s = "s\<lparr>wp_done := wp_done s @ [j]\<rparr>"
  have "pool_jobs n t + {#j#} = pool_jobs n ?s"
    using pool_jobs_set_worker [OF FinishDone(2), of Idle ?s] FinishDone(3) unfolding FinishDone(1) by simp
  moreover have "pool_jobs n ?s = pool_jobs n s + {#j#}" by (simp add: pool_jobs_def)
  ultimately have jobs: "pool_jobs n t = pool_jobs n s" by simp
  show ?thesis using inv FinishDone(2,4) unfolding pool_inv_def jobs unfolding FinishDone(1) by auto
next
  case (FinishError w j e)
  have "j \<in># pool_jobs n s" using held_in_jobs [OF FinishError(2), of s] FinishError(3) by simp
  then have "j \<in># mset [0..<wp_next s]" using inv unfolding pool_inv_def by (meson mset_subset_eqD)
  then have j: "j < nJobs" using inv unfolding pool_inv_def by simp
  have sub: "pool_jobs n t \<subseteq># pool_jobs n s"
    using pool_jobs_drop [OF FinishError(2), of "set_err kind j e s"] pool_jobs_cong [of "set_err kind j e s" s n] unfolding FinishError(1) by simp
  have errs: "wp_errs t = (wp_errs s)(j := Some e)" unfolding FinishError(1,5) by (simp add: wp_errs_set_err)
  have "pool_jobs n t \<subseteq># mset [0..<wp_next t]"
    using subset_mset.order_trans [OF sub] inv unfolding FinishError(1) pool_inv_def by simp
  moreover have "\<not> (\<forall>i<nJobs. wp_errs t i = None)" using j unfolding errs by auto
  ultimately show ?thesis using inv FinishError(2,4) unfolding pool_inv_def errs unfolding FinishError(1) by auto
next
  case (FinishPanic w j)
  then show ?thesis using pool_inv_exit [OF inv, of w] by blast
qed

lemma pool_inv_reachable: "pool_reachable kind ctxErr nJobs n work s \<Longrightarrow> pool_inv kind nJobs n work s"
  unfolding pool_reachable_def by (induction rule: rtranclp_induct) (auto intro: pool_inv_start pool_inv_step)

lemma pool_once:
  assumes "pool_reachable kind ctxErr nJobs n work s"
  shows "distinct (wp_done s) \<and> set (wp_done s) \<subseteq> {..<nJobs} \<and>
    (pool_returned n s \<and> 0 < n \<and> pool_result ctxErr nJobs s = None \<and> (\<forall>w j. work w j \<noteq> Panicking) \<longrightarrow>
       set (wp_done s) = {..<nJobs} \<and> (\<forall>j<nJobs. \<exists>w<n. work w j = Done)) \<and>
    (\<forall>e. pool_result ctxErr nJobs s = Some e \<and> \<not> wp_cancelled s \<longrightarrow> (\<exists>j<nJobs. \<exists>w<n. work w j = Error e))"
proof -
  note i = pool_inv_reachable [OF assms, unfolded pool_inv_def]
  have "mset (wp_done s) \<subseteq># pool_jobs n s" by (simp add: pool_jobs_def add.assoc)
  then have sub: "mset (wp_done s) \<subseteq># mset [0..<wp_next s]" using i subset_mset.order_trans by blast
  have dist: "distinct (wp_done s)" by (rule distinct_sub_mset [OF sub]) simp
  have "set (wp_done s) \<subseteq> {..<wp_next s}" using set_mset_mono [OF sub] by auto
  then have set: "set (wp_done s) \<subseteq> {..<nJobs}" using i by auto
  have errs: "\<forall>j<nJobs. wp_errs s j = None" "\<not> wp_cancelled s" if none: "pool_result ctxErr nJobs s = None"
  proof -
    have f: "List.find (\<lambda>j. wp_errs s j \<noteq> None) [0..<nJobs] = None"
      using none by (auto simp: pool_result_def find_Some_iff split: option.splits)
    then show "\<forall>j<nJobs. wp_errs s j = None" by (simp add: find_None_iff)
    show "\<not> wp_cancelled s" using none f by (simp add: pool_result_def split: if_splits)
  qed
  have all: "set (wp_done s) = {..<nJobs}"
    if ret: "pool_returned n s" "0 < n" and none: "pool_result ctxErr nJobs s = None" and np: "\<forall>w j. work w j \<noteq> Panicking"
  proof -
    have closed: "wp_closed s" "wp_chan s = []" using i errs [OF none] np ret unfolding pool_returned_def by blast+
    then have produced: "wp_next s = nJobs" using i errs(2) [OF none] by blast
    have "(\<Sum>w<n. held (wp_workers s w)) = {#}" using ret(1) by (simp add: pool_returned_def)
    then have "mset (wp_done s) = pool_jobs n s" using closed(2) by (simp add: pool_jobs_def)
    also have "\<dots> = mset [0..<nJobs]" using i errs [OF none] np produced by simp
    finally show ?thesis by (metis mset_eq_setD atLeast_upt lessThan_atLeast0 atLeastLessThan_upt)
  qed
  have "\<exists>j<nJobs. \<exists>w<n. work w j = Error e" if e: "pool_result ctxErr nJobs s = Some e" "\<not> wp_cancelled s" for e
  proof -
    obtain j where "j < nJobs" "wp_errs s j = Some e"
      using e by (auto simp: pool_result_def find_Some_iff split: option.splits if_splits)
    then show ?thesis using i e(2) by blast
  qed
  then show ?thesis using dist set all i by blast
qed

text \<open>(C8) The pool of workers runs every job at most once, whatever the interleaving. When it returns \<open>nil\<close> and no job has
  panicked, every job has been run exactly once and succeeded; and an error it returns comes from a job or from the context.\<close>

theorem pool_runs_each_job_once:
  assumes "pool_reachable kind ctxErr nJobs n work s"
  shows "distinct (wp_done s) \<and> set (wp_done s) \<subseteq> {..<nJobs} \<and>
    (pool_returned n s \<and> 0 < n \<and> pool_result ctxErr nJobs s = None \<and> (\<forall>w j. work w j \<noteq> Panicking) \<longrightarrow>
       set (wp_done s) = {..<nJobs} \<and> (\<forall>j<nJobs. \<exists>w<n. work w j = Done)) \<and>
    (\<forall>e. pool_result ctxErr nJobs s = Some e \<and> \<not> wp_cancelled s \<longrightarrow> (\<exists>j<nJobs. \<exists>w<n. work w j = Error e))"
  using assms by (rule pool_once)

text \<open>\<open>For\<close> and \<open>ForEach\<close> run jobs without results; job \<open>j\<close> of \<open>ForEach\<close> gets \<open>j\<close> and the element at \<open>j\<close>.\<close>

definition For_step :: "go_error \<Rightarrow> nat \<Rightarrow> nat \<Rightarrow> pool \<Rightarrow> pool \<Rightarrow> bool" where
  "For_step ctxErr nJobs nWorkers = pool_step PoolFor ctxErr nJobs nWorkers (\<lambda>w j. Done)"

definition ForEach_step :: "go_error \<Rightarrow> 'a list \<Rightarrow> nat \<Rightarrow> pool \<Rightarrow> pool \<Rightarrow> bool" where
  "ForEach_step ctxErr a nWorkers = For_step ctxErr (length a) nWorkers"

definition ForEach_sequential :: "(nat \<Rightarrow> bool) \<Rightarrow> go_error \<Rightarrow> 'a list \<Rightarrow> nat list \<times> go_error option" where
  "ForEach_sequential cancelled ctxErr a = Parallel_sequential cancelled ctxErr (\<lambda>j. None) (length a)"

definition visited :: "'a list \<Rightarrow> nat list \<Rightarrow> (nat \<times> 'a) list" where
  "visited a js = map (\<lambda>j. (j, a ! j)) js"

lemma sequential_all: "snd (sequential_jobs cancelled ctxErr (\<lambda>j. None) js) = None \<Longrightarrow> fst (sequential_jobs cancelled ctxErr (\<lambda>j. None) js) = js"
  by (induction js) (auto split: prod.splits if_splits)

text \<open>When \<open>ForEach\<close> returns \<open>nil\<close> it has visited every element with its index exactly once: in order with one worker, in some
  order with more.\<close>

theorem ForEach_visits_all:
  "((ForEach_step ctxErr a n)\<^sup>*\<^sup>* pool_start s \<and> pool_returned n s \<and> 0 < n \<and> pool_result ctxErr (length a) s = None \<longrightarrow>
      mset (visited a (wp_done s)) = mset (enumerate 0 a)) \<and>
   (snd (ForEach_sequential cancelled ctxErr a) = None \<longrightarrow> visited a (fst (ForEach_sequential cancelled ctxErr a)) = enumerate 0 a)"
proof -
  have all: "visited a [0..<length a] = enumerate 0 a"
    by (rule nth_equalityI) (simp_all add: visited_def nth_enumerate_eq)
  have "mset (visited a (wp_done s)) = mset (enumerate 0 a)"
    if run: "(ForEach_step ctxErr a n)\<^sup>*\<^sup>* pool_start s" "pool_returned n s" "0 < n" "pool_result ctxErr (length a) s = None"
  proof -
    have "pool_reachable PoolFor ctxErr (length a) n (\<lambda>w j. Done) s"
      using run(1) by (simp add: pool_reachable_def ForEach_step_def For_step_def)
    from pool_once [OF this] run have "distinct (wp_done s)" "set (wp_done s) = set [0..<length a]" by auto
    then have "mset (wp_done s) = mset [0..<length a]" by (metis distinct_upt set_eq_iff_mset_eq_distinct)
    then show ?thesis unfolding all [symmetric] visited_def by (metis mset_map)
  qed
  moreover have "visited a (fst (ForEach_sequential cancelled ctxErr a)) = enumerate 0 a"
    if "snd (ForEach_sequential cancelled ctxErr a) = None"
  proof -
    obtain js r where j: "sequential_jobs cancelled ctxErr (\<lambda>j. None) [0..<length a] = (js, r)" by fastforce
    then have "r = None" "fst (ForEach_sequential cancelled ctxErr a) = js" using that
      by (auto simp: ForEach_sequential_def Parallel_sequential_def split: option.splits)
    then show ?thesis using j sequential_all [of cancelled ctxErr "[0..<length a]"] all by simp
  qed
  ultimately show ?thesis by blast
qed

theorem ForEach_visits_all_witness:
  "visited [''a'', ''b''] (fst (ForEach_sequential (\<lambda>j. False) ErrNotFound [''a'', ''b''])) = [(0, ''a''), (1, ''b'')]"
proof -
  have "snd (ForEach_sequential (\<lambda>j. False) ErrNotFound [''a'', ''b'']) = None" by code_simp
  with ForEach_visits_all [of ErrNotFound "[''a'', ''b'']" 1 pool_start "\<lambda>j. False"]
  have "visited [''a'', ''b''] (fst (ForEach_sequential (\<lambda>j. False) ErrNotFound [''a'', ''b''])) = enumerate 0 [''a'', ''b'']" by blast
  then show ?thesis by simp
qed

subsection \<open>The pool always returns\<close>

fun worker_weight :: "worker \<Rightarrow> nat" where
  "worker_weight Exited = 0"
| "worker_weight Idle = 1"
| "worker_weight (Working j) = 2"
| "worker_weight (Checking j) = 3"

definition pool_weight :: "nat \<Rightarrow> nat \<Rightarrow> pool \<Rightarrow> nat" where
  "pool_weight nJobs n s =
     4 * (nJobs - wp_next s) + 3 * length (wp_chan s) + of_bool (\<not> wp_closed s) + of_bool (\<not> wp_cancelled s) + (\<Sum>w<n. worker_weight (wp_workers s w))"

lemma workers_weight:
  fixes ws :: "nat \<Rightarrow> worker"
  shows "w < n \<Longrightarrow> (\<Sum>v<n. worker_weight ((ws(w := x)) v)) + worker_weight (ws w) = (\<Sum>v<n. worker_weight (ws v)) + worker_weight x"
  by (rule sum_thread [where m = worker_weight])

lemma pool_weight_decreases: "pool_step kind ctxErr nJobs n work s t \<Longrightarrow> pool_weight nJobs n t < pool_weight nJobs n s"
proof (induction rule: pool_step.induct)
  case (Take w s j js)
  then show ?case using workers_weight [of w n "wp_workers s" "Checking j"] by (simp add: pool_weight_def)
next
  case (TakeClosed w s)
  then show ?case using workers_weight [of w n "wp_workers s" Exited] by (simp add: pool_weight_def)
next
  case (TakeCancelled w s)
  then show ?case using workers_weight [of w n "wp_workers s" Exited] by (simp add: pool_weight_def)
next
  case (CheckCancelled w s j)
  then show ?case using workers_weight [of w n "wp_workers s" Exited] by (simp add: pool_weight_def)
next
  case (CheckOk w s j)
  then show ?case using workers_weight [of w n "wp_workers s" "Working j"] by (simp add: pool_weight_def)
next
  case (FinishDone w s j)
  then show ?case using workers_weight [of w n "wp_workers s" Idle] by (simp add: pool_weight_def)
next
  case (FinishError w s j e)
  then show ?case using workers_weight [of w n "wp_workers s" Exited] by (simp add: pool_weight_def)
next
  case (FinishPanic w s j)
  then show ?case using workers_weight [of w n "wp_workers s" Exited] by (simp add: pool_weight_def)
qed (simp_all add: pool_weight_def)

text \<open>A pool that has not returned can move, without being cancelled. The jobs of \<open>For\<close> have no error to return.\<close>

lemma pool_moves:
  assumes inv: "pool_inv kind nJobs n work s" and kind: "kind = PoolFor \<Longrightarrow> \<forall>w j. work w j = Done"
    and running: "\<not> pool_returned n s"
  shows "\<exists>t. pool_step kind ctxErr nJobs n work s t \<and> wp_cancelled t = wp_cancelled s"
proof -
  obtain w where w: "w < n" "wp_workers s w \<noteq> Exited" using running unfolding pool_returned_def by blast
  show ?thesis
  proof (cases "wp_workers s w")
    case Idle
    have "wp_next s \<le> nJobs" using inv unfolding pool_inv_def by blast
    moreover have "length ([] :: nat list) < chanSize" by (simp add: chanSize_def)
    ultimately consider j js where "wp_chan s = j # js" | "wp_chan s = []" "wp_closed s"
      | "wp_chan s = []" "\<not> wp_closed s" "wp_next s < nJobs" | "\<not> wp_closed s" "wp_next s = nJobs"
      by (cases "wp_chan s") force+
    then show ?thesis
    proof cases
      case 1
      from Take [OF w(1) Idle 1, of kind ctxErr nJobs work] show ?thesis by (intro exI conjI, assumption) simp
    next
      case 2
      from TakeClosed [OF w(1) Idle 2, of kind ctxErr nJobs work] show ?thesis by (intro exI conjI, assumption) simp
    next
      case 3
      then have "length (wp_chan s) < chanSize" by (simp add: chanSize_def)
      from Produce [OF 3(2,3) this, of kind ctxErr n work] show ?thesis by (intro exI conjI, assumption) simp
    next
      case 4
      from Close [OF 4(1) disjI1 [OF 4(2)], of kind ctxErr n work] show ?thesis by (intro exI conjI, assumption) simp
    qed
  next
    case (Checking j)
    show ?thesis
    proof (cases "wp_cancelled s")
      case True
      from CheckCancelled [OF w(1) Checking True, of kind ctxErr nJobs work] show ?thesis by (intro exI conjI, assumption) simp
    next
      case False
      from CheckOk [OF w(1) Checking False, of kind ctxErr nJobs work] show ?thesis by (intro exI conjI, assumption) simp
    qed
  next
    case (Working j)
    show ?thesis
    proof (cases "work w j")
      case Done
      from FinishDone [of w n s j work kind ctxErr nJobs, OF w(1) Working Done] show ?thesis by (intro exI conjI, assumption) simp
    next
      case (Error e)
      then have "kind = PoolParallel" using kind by (cases kind) auto
      from FinishError [of w n s j work e kind ctxErr nJobs, OF w(1) Working Error this] show ?thesis by (intro exI conjI, assumption) simp
    next
      case Panicking
      then have "kind = PoolParallel" using kind by (cases kind) auto
      from FinishPanic [of w n s j work kind ctxErr nJobs, OF w(1) Working Panicking this] show ?thesis by (intro exI conjI, assumption) simp
    qed
  next
    case Exited
    then show ?thesis using w by simp
  qed
qed

text \<open>(C29) The pool always returns: no run is infinite, and a pool with a worker that has not exited can always move on by itself, whether it is
  cancelled or not. So it cannot deadlock and every run that goes on as long as it can ends with all workers exited.\<close>

theorem pool_returns:
  "(\<nexists>f. \<forall>i. pool_step kind ctxErr nJobs n work (f i) (f (Suc i))) \<and>
   (pool_reachable kind ctxErr nJobs n work s \<and> (kind = PoolFor \<longrightarrow> (\<forall>w j. work w j = Done)) \<and> \<not> pool_returned n s \<longrightarrow>
      (\<exists>t. pool_step kind ctxErr nJobs n work s t \<and> wp_cancelled t = wp_cancelled s))"
proof -
  have False if f: "\<forall>i. pool_step kind ctxErr nJobs n work (f i) (f (Suc i))" for f
  proof -
    have "\<forall>i. pool_weight nJobs n (f (Suc i)) < pool_weight nJobs n (f i)" using f pool_weight_decreases by blast
    then show False using wf_no_infinite_down_chainE [OF wf_measure [of "pool_weight nJobs n"], where f = f] by auto
  qed
  then show ?thesis using pool_moves pool_inv_reachable by blast
qed

text \<open>One job and one worker.\<close>

definition pool_after :: "nat \<Rightarrow> bool \<Rightarrow> nat list \<Rightarrow> worker \<Rightarrow> nat list \<Rightarrow> pool" where
  "pool_after k closed chan w finished = \<lparr>wp_next = k, wp_closed = closed, wp_chan = chan, wp_workers = (\<lambda>v. Idle)(0 := w),
     wp_errs = (\<lambda>j. None), wp_cancelled = False, wp_done = finished\<rparr>"

lemma pool_example_run: "pool_reachable PoolParallel ErrNotFound 1 1 (\<lambda>w j. Done) (pool_after 1 True [] Exited [0])"
proof -
  let ?step = "pool_step PoolParallel ErrNotFound 1 1 (\<lambda>w j. Done)"
  have "?step pool_start (pool_after 1 False [0] Idle [])"
    using Produce [of pool_start 1] by (simp add: pool_start_def pool_after_def chanSize_def fun_upd_idem)
  moreover have "?step (pool_after 1 False [0] Idle []) (pool_after 1 True [0] Idle [])"
    using Close [of "pool_after 1 False [0] Idle []" 1] by (simp add: pool_after_def)
  moreover have "?step (pool_after 1 True [0] Idle []) (pool_after 1 True [] (Checking 0) [])"
    using Take [of 0 1 "pool_after 1 True [0] Idle []" 0 "[]"] by (simp add: pool_after_def set_worker_def)
  moreover have "?step (pool_after 1 True [] (Checking 0) []) (pool_after 1 True [] (Working 0) [])"
    using CheckOk [of 0 1 "pool_after 1 True [] (Checking 0) []" 0] by (simp add: pool_after_def set_worker_def pool_start_def)
  moreover have "?step (pool_after 1 True [] (Working 0) []) (pool_after 1 True [] Idle [0])"
    using FinishDone [of 0 1 "pool_after 1 True [] (Working 0) []" 0] by (simp add: pool_after_def set_worker_def pool_start_def)
  moreover have "?step (pool_after 1 True [] Idle [0]) (pool_after 1 True [] Exited [0])"
    using TakeClosed [of 0 1 "pool_after 1 True [] Idle [0]"] by (simp add: pool_after_def set_worker_def pool_start_def)
  ultimately show ?thesis unfolding pool_reachable_def
    by (meson rtranclp.rtrancl_into_rtrancl rtranclp.rtrancl_refl)
qed

theorem pool_runs_each_job_once_witness:
  "pool_returned 1 (pool_after 1 True [] Exited [0]) \<and> set (wp_done (pool_after 1 True [] Exited [0])) = {..<1}"
proof -
  have ret: "pool_returned 1 (pool_after 1 True [] Exited [0])" by (simp add: pool_returned_def pool_after_def)
  moreover have "pool_result ErrNotFound 1 (pool_after 1 True [] Exited [0]) = None"
    by (simp add: pool_result_def pool_after_def pool_start_def)
  ultimately show ?thesis using pool_runs_each_job_once [OF pool_example_run] by auto
qed

theorem pool_returns_witness:
  "\<exists>t. pool_step PoolParallel ErrNotFound 1 1 (\<lambda>w j. Done) pool_start t \<and> wp_cancelled t = wp_cancelled pool_start"
proof -
  have "pool_reachable PoolParallel ErrNotFound 1 1 (\<lambda>w j. Done) pool_start" by (simp add: pool_reachable_def)
  moreover have "\<not> pool_returned 1 pool_start" by (simp add: pool_returned_def pool_start_def)
  ultimately show ?thesis using pool_returns [of PoolParallel ErrNotFound 1 1 "\<lambda>w j. Done" pool_start] by blast
qed

text \<open>\<open>Parallel\<close> recovers a panic of a job without recording it: it can return \<open>nil\<close> although the only job
  panicked and no job was completed.\<close>

theorem Parallel_hides_panics:
  "\<exists>s. pool_reachable PoolParallel ErrNotFound 1 1 (\<lambda>w j. Panicking) s \<and> pool_returned 1 s \<and>
     pool_result ErrNotFound 1 s = None \<and> wp_done s = []"
proof -
  let ?step = "pool_step PoolParallel ErrNotFound 1 1 (\<lambda>w j. Panicking)"
  have "?step pool_start (pool_after 1 False [0] Idle [])"
    using Produce [of pool_start 1] by (simp add: pool_start_def pool_after_def chanSize_def fun_upd_idem)
  moreover have "?step (pool_after 1 False [0] Idle []) (pool_after 1 False [] (Checking 0) [])"
    using Take [of 0 1 "pool_after 1 False [0] Idle []" 0 "[]"] by (simp add: pool_after_def set_worker_def)
  moreover have "?step (pool_after 1 False [] (Checking 0) []) (pool_after 1 False [] (Working 0) [])"
    using CheckOk [of 0 1 "pool_after 1 False [] (Checking 0) []" 0] by (simp add: pool_after_def set_worker_def pool_start_def)
  moreover have "?step (pool_after 1 False [] (Working 0) []) (pool_after 1 False [] Exited [])"
    using FinishPanic [of 0 1 "pool_after 1 False [] (Working 0) []" 0] by (simp add: pool_after_def set_worker_def pool_start_def)
  ultimately have "pool_reachable PoolParallel ErrNotFound 1 1 (\<lambda>w j. Panicking) (pool_after 1 False [] Exited [])"
    unfolding pool_reachable_def by (meson rtranclp.rtrancl_into_rtrancl rtranclp.rtrancl_refl)
  moreover have "pool_returned 1 (pool_after 1 False [] Exited [])" by (simp add: pool_returned_def pool_after_def)
  moreover have "pool_result ErrNotFound 1 (pool_after 1 False [] Exited []) = None" "wp_done (pool_after 1 False [] Exited []) = []"
    by (simp_all add: pool_result_def pool_after_def pool_start_def)
  ultimately show ?thesis by blast
qed

end
