(* ===== verification/Detachable.thy ===== *)
theory Detachable
  imports Parallel
begin

text \<open>
  \<open>Detachable\<close> of \<open>common/parallel/parallel.go\<close>: jobs run under a semaphore of \<open>nWorkers\<close> slots; while a job waits for
  something slow it may detach, trading its slot for one of \<open>nMaxDetached\<close> others, and attach again. A job is
  the list of the calls it still makes; each operation on a channel is one step.
\<close>

datatype call = CallDetach | CallAttach

datatype job =
    NotStarted
  | Spawned
  | Running "call list" bool
  | Detaching "call list"
  | Attaching "call list"
  | Finished

record jobs =
  jb_state :: "nat \<Rightarrow> job"
  jb_started :: nat
  jb_stopped :: bool
  jb_cancelled :: bool
  jb_sem :: nat
  jb_detachedSem :: nat

definition jobs_start :: jobs where
  "jobs_start = \<lparr>jb_state = (\<lambda>i. NotStarted), jb_started = 0, jb_stopped = False, jb_cancelled = False, jb_sem = 0, jb_detachedSem = 0\<rparr>"

definition set_job :: "nat \<Rightarrow> job \<Rightarrow> jobs \<Rightarrow> jobs" where
  "set_job i x s = s\<lparr>jb_state := (jb_state s)(i := x)\<rparr>"

text \<open>
  The calling goroutine spawns the jobs in order, each after taking a slot, and stops on a cancellation. The flag of
  \<open>Running\<close> is \<open>detached\<close>, which is set before the slot is given back; \<open>Detaching\<close> holds both
  slots, \<open>Attaching\<close> holds none.
\<close>

inductive jobs_step :: "nat \<Rightarrow> nat \<Rightarrow> nat \<Rightarrow> (nat \<Rightarrow> call list) \<Rightarrow> jobs \<Rightarrow> jobs \<Rightarrow> bool"
  for nJobs nWorkers nMaxDetached script where
  Spawn: "\<not> jb_stopped s \<Longrightarrow> jb_started s < nJobs \<Longrightarrow> jb_sem s < nWorkers \<Longrightarrow>
    jobs_step nJobs nWorkers nMaxDetached script s
      (set_job (jb_started s) Spawned (s\<lparr>jb_started := Suc (jb_started s), jb_sem := Suc (jb_sem s)\<rparr>))"
| Stop: "\<not> jb_stopped s \<Longrightarrow> jb_started s < nJobs \<Longrightarrow> jb_cancelled s \<Longrightarrow>
    jobs_step nJobs nWorkers nMaxDetached script s (s\<lparr>jb_stopped := True\<rparr>)"
| Cancel: "\<not> jb_cancelled s \<Longrightarrow> jobs_step nJobs nWorkers nMaxDetached script s (s\<lparr>jb_cancelled := True\<rparr>)"
| GiveUp: "i < nJobs \<Longrightarrow> jb_state s i = Spawned \<Longrightarrow> jb_cancelled s \<Longrightarrow>
    jobs_step nJobs nWorkers nMaxDetached script s (set_job i Finished (s\<lparr>jb_sem := jb_sem s - 1\<rparr>))"
| Begin: "i < nJobs \<Longrightarrow> jb_state s i = Spawned \<Longrightarrow> \<not> jb_cancelled s \<Longrightarrow>
    jobs_step nJobs nWorkers nMaxDetached script s (set_job i (Running (script i) False) s)"
| DetachAgain: "i < nJobs \<Longrightarrow> jb_state s i = Running (CallDetach # cs) True \<Longrightarrow>
    jobs_step nJobs nWorkers nMaxDetached script s (set_job i (Running cs True) s)"
| Detach: "i < nJobs \<Longrightarrow> jb_state s i = Running (CallDetach # cs) False \<Longrightarrow> jb_detachedSem s < nMaxDetached \<Longrightarrow>
    jobs_step nJobs nWorkers nMaxDetached script s (set_job i (Detaching cs) (s\<lparr>jb_detachedSem := Suc (jb_detachedSem s)\<rparr>))"
| Detached: "i < nJobs \<Longrightarrow> jb_state s i = Detaching cs \<Longrightarrow>
    jobs_step nJobs nWorkers nMaxDetached script s (set_job i (Running cs True) (s\<lparr>jb_sem := jb_sem s - 1\<rparr>))"
| AttachAgain: "i < nJobs \<Longrightarrow> jb_state s i = Running (CallAttach # cs) False \<Longrightarrow>
    jobs_step nJobs nWorkers nMaxDetached script s (set_job i (Running cs False) s)"
| Attach: "i < nJobs \<Longrightarrow> jb_state s i = Running (CallAttach # cs) True \<Longrightarrow>
    jobs_step nJobs nWorkers nMaxDetached script s (set_job i (Attaching cs) (s\<lparr>jb_detachedSem := jb_detachedSem s - 1\<rparr>))"
| Attached: "i < nJobs \<Longrightarrow> jb_state s i = Attaching cs \<Longrightarrow> jb_sem s < nWorkers \<Longrightarrow>
    jobs_step nJobs nWorkers nMaxDetached script s (set_job i (Running cs False) (s\<lparr>jb_sem := Suc (jb_sem s)\<rparr>))"
| FinishAttached: "i < nJobs \<Longrightarrow> jb_state s i = Running [] False \<Longrightarrow>
    jobs_step nJobs nWorkers nMaxDetached script s (set_job i Finished (s\<lparr>jb_sem := jb_sem s - 1\<rparr>))"
| FinishDetached: "i < nJobs \<Longrightarrow> jb_state s i = Running [] True \<Longrightarrow>
    jobs_step nJobs nWorkers nMaxDetached script s (set_job i Finished (s\<lparr>jb_detachedSem := jb_detachedSem s - 1\<rparr>))"

definition jobs_reachable :: "nat \<Rightarrow> nat \<Rightarrow> nat \<Rightarrow> (nat \<Rightarrow> call list) \<Rightarrow> jobs \<Rightarrow> bool" where
  "jobs_reachable nJobs nWorkers nMaxDetached script s \<longleftrightarrow> (jobs_step nJobs nWorkers nMaxDetached script)\<^sup>*\<^sup>* jobs_start s"

text \<open>The call returns when the loop is over and \<open>wg.Wait()\<close> has seen every spawned job finish.\<close>

definition jobs_returned :: "nat \<Rightarrow> jobs \<Rightarrow> bool" where
  "jobs_returned nJobs s \<longleftrightarrow> (jb_started s = nJobs \<or> jb_stopped s) \<and> (\<forall>i < jb_started s. jb_state s i = Finished)"

subsection \<open>The semaphores\<close>

fun holds_slot :: "job \<Rightarrow> nat" where
  "holds_slot Spawned = 1"
| "holds_slot (Running cs False) = 1"
| "holds_slot (Detaching cs) = 1"
| "holds_slot _ = 0"

fun holds_detached :: "job \<Rightarrow> nat" where
  "holds_detached (Running cs True) = 1"
| "holds_detached (Detaching cs) = 1"
| "holds_detached _ = 0"

definition jobs_inv :: "nat \<Rightarrow> nat \<Rightarrow> nat \<Rightarrow> jobs \<Rightarrow> bool" where
  "jobs_inv nJobs nWorkers nMaxDetached s \<longleftrightarrow>
     jb_started s \<le> nJobs \<and> (\<forall>i<nJobs. jb_state s i = NotStarted \<longleftrightarrow> jb_started s \<le> i) \<and>
     jb_sem s = (\<Sum>i<nJobs. holds_slot (jb_state s i)) \<and> jb_sem s \<le> nWorkers \<and>
     jb_detachedSem s = (\<Sum>i<nJobs. holds_detached (jb_state s i)) \<and> jb_detachedSem s \<le> nMaxDetached"

lemma set_job_simps [simp]:
  "jb_state (set_job i x s) = (jb_state s)(i := x)" "jb_started (set_job i x s) = jb_started s" "jb_stopped (set_job i x s) = jb_stopped s"
  "jb_cancelled (set_job i x s) = jb_cancelled s" "jb_sem (set_job i x s) = jb_sem s" "jb_detachedSem (set_job i x s) = jb_detachedSem s"
  by (simp_all add: set_job_def)

lemma sum_slots:
  fixes f :: "nat \<Rightarrow> job"
  assumes "i < n"
  shows "(\<Sum>j<n. holds_slot ((f(i := x)) j)) + holds_slot (f i) = (\<Sum>j<n. holds_slot (f j)) + holds_slot x"
    and "(\<Sum>j<n. holds_detached ((f(i := x)) j)) + holds_detached (f i) = (\<Sum>j<n. holds_detached (f j)) + holds_detached x"
  using sum_thread [OF assms, where m = holds_slot] sum_thread [OF assms, where m = holds_detached] by blast+

text \<open>Every step of a running job moves its slots and the two counters alike.\<close>

lemma jobs_inv_move:
  assumes inv: "jobs_inv n w m s" and i: "i < n" and x: "jb_state s i \<noteq> NotStarted" "x \<noteq> NotStarted"
    and t: "jb_state t = (jb_state s)(i := x)" "jb_started t = jb_started s"
    and sem: "jb_sem t + holds_slot (jb_state s i) = jb_sem s + holds_slot x" "jb_sem t \<le> w"
    and det: "jb_detachedSem t + holds_detached (jb_state s i) = jb_detachedSem s + holds_detached x" "jb_detachedSem t \<le> m"
  shows "jobs_inv n w m t"
proof -
  have "jb_sem t = (\<Sum>j<n. holds_slot (jb_state t j))" "jb_detachedSem t = (\<Sum>j<n. holds_detached (jb_state t j))"
    using inv sum_slots [OF i, of "jb_state s" x] sem(1) det(1) unfolding jobs_inv_def t by linarith+
  then show ?thesis using inv i x sem(2) det(2) unfolding jobs_inv_def t by auto
qed

lemma holders_positive:
  assumes "jobs_inv n w m s" "i < n"
  shows "holds_slot (jb_state s i) \<le> jb_sem s" "holds_detached (jb_state s i) \<le> jb_detachedSem s"
  using assms member_le_sum [of i "{..<n}" "\<lambda>i. holds_slot (jb_state s i)"] member_le_sum [of i "{..<n}" "\<lambda>i. holds_detached (jb_state s i)"]
  unfolding jobs_inv_def by auto

lemma jobs_inv_step: "jobs_step n w m script s t \<Longrightarrow> jobs_inv n w m s \<Longrightarrow> jobs_inv n w m t"
proof (induction rule: jobs_step.induct)
  case (Spawn s)
  have old: "jb_state s (jb_started s) = NotStarted" using Spawn(2,4) unfolding jobs_inv_def by blast
  let ?t = "set_job (jb_started s) Spawned (s\<lparr>jb_started := Suc (jb_started s), jb_sem := Suc (jb_sem s)\<rparr>)"
  have "jb_sem ?t = (\<Sum>j<n. holds_slot (jb_state ?t j))" "jb_detachedSem ?t = (\<Sum>j<n. holds_detached (jb_state ?t j))"
    using sum_slots [OF Spawn(2), of "jb_state s" Spawned] Spawn(4) old unfolding jobs_inv_def by simp_all
  then show ?case using Spawn unfolding jobs_inv_def by (auto simp: Suc_le_eq)
next
  case (Stop s)
  then show ?case unfolding jobs_inv_def by simp
next
  case (Cancel s)
  then show ?case unfolding jobs_inv_def by simp
next
  case (GiveUp i s)
  note holders_positive [OF GiveUp(4,1)]
  then show ?case using GiveUp by (intro jobs_inv_move [OF GiveUp(4,1)]) (auto simp: jobs_inv_def)
next
  case (Begin i s)
  then show ?case by (intro jobs_inv_move [OF Begin(4,1)]) (auto simp: jobs_inv_def)
next
  case (DetachAgain i s cs)
  then show ?case by (intro jobs_inv_move [OF DetachAgain(3,1)]) (auto simp: jobs_inv_def)
next
  case (Detach i s cs)
  then show ?case by (intro jobs_inv_move [OF Detach(4,1)]) (auto simp: jobs_inv_def)
next
  case (Detached i s cs)
  note holders_positive [OF Detached(3,1)]
  then show ?case using Detached by (intro jobs_inv_move [OF Detached(3,1)]) (auto simp: jobs_inv_def)
next
  case (AttachAgain i s cs)
  then show ?case by (intro jobs_inv_move [OF AttachAgain(3,1)]) (auto simp: jobs_inv_def)
next
  case (Attach i s cs)
  note holders_positive [OF Attach(3,1)]
  then show ?case using Attach by (intro jobs_inv_move [OF Attach(3,1)]) (auto simp: jobs_inv_def)
next
  case (Attached i s cs)
  then show ?case by (intro jobs_inv_move [OF Attached(4,1)]) (auto simp: jobs_inv_def)
next
  case (FinishAttached i s)
  note holders_positive [OF FinishAttached(3,1)]
  then show ?case using FinishAttached by (intro jobs_inv_move [OF FinishAttached(3,1)]) (auto simp: jobs_inv_def)
next
  case (FinishDetached i s)
  note holders_positive [OF FinishDetached(3,1)]
  then show ?case using FinishDetached by (intro jobs_inv_move [OF FinishDetached(3,1)]) (auto simp: jobs_inv_def)
qed

lemma jobs_inv_reachable: "jobs_reachable n w m script s \<Longrightarrow> jobs_inv n w m s"
  unfolding jobs_reachable_def
proof (induction rule: rtranclp_induct)
  case base
  show ?case by (simp add: jobs_inv_def jobs_start_def)
qed (rule jobs_inv_step)

text \<open>(C26) However the jobs interleave, at most \<open>nWorkers\<close> of them are running attached and at most \<open>nMaxDetached\<close> detached.\<close>

theorem jobs_bounded:
  assumes "jobs_reachable nJobs nWorkers nMaxDetached script s"
  shows "card {i. i < nJobs \<and> (\<exists>cs. jb_state s i = Running cs False)} \<le> nWorkers \<and>
    card {i. i < nJobs \<and> (\<exists>cs. jb_state s i = Running cs True)} \<le> nMaxDetached"
proof -
  have bound: "card {i. i < nJobs \<and> P (jb_state s i)} \<le> (\<Sum>i<nJobs. h (jb_state s i))" if "\<And>x. P x \<Longrightarrow> h x = (1 :: nat)" for P h
  proof -
    have "card {i. i < nJobs \<and> P (jb_state s i)} = (\<Sum>i \<in> {i. i < nJobs \<and> P (jb_state s i)}. h (jb_state s i))"
      using that by simp
    also have "\<dots> \<le> (\<Sum>i<nJobs. h (jb_state s i))" by (intro sum_mono2) auto
    finally show ?thesis .
  qed
  show ?thesis using jobs_inv_reachable [OF assms] bound [of "\<lambda>x. \<exists>cs. x = Running cs False" holds_slot]
      bound [of "\<lambda>x. \<exists>cs. x = Running cs True" holds_detached] unfolding jobs_inv_def by fastforce
qed

subsection \<open>No deadlock\<close>

lemma jobs_move:
  assumes inv: "jobs_inv n w m s" and slots: "0 < w" "0 < m" and running: "\<not> jobs_returned n s"
  shows "\<exists>t. jobs_step n w m script s t \<and> jb_cancelled t = jb_cancelled s"
proof (rule ccontr)
  assume stuck: "\<not> ?thesis"
  have no: "\<not> jobs_step n w m script s t" if "jb_cancelled t = jb_cancelled s" for t using stuck that by blast
  have state: "jb_state s i = NotStarted \<or> jb_state s i = Finished \<or> (\<exists>cs. jb_state s i = Attaching cs) \<or>
      (\<exists>cs. jb_state s i = Running (CallDetach # cs) False)" if i: "i < n" for i
  proof (cases "jb_state s i")
    case Spawned
    show ?thesis
    proof (cases "jb_cancelled s")
      case True
      from GiveUp [OF i Spawned True, of w m script] no show ?thesis by simp
    next
      case False
      from Begin [OF i Spawned False, of w m script] no show ?thesis by simp
    qed
  next
    case (Running cs d)
    show ?thesis
    proof (cases cs)
      case Nil
      show ?thesis
      proof (cases d)
        case True
        from FinishDetached [OF i, of s w m script] no Running Nil True show ?thesis by simp
      next
        case False
        from FinishAttached [OF i, of s w m script] no Running Nil False show ?thesis by simp
      qed
    next
      case (Cons c cs')
      show ?thesis
      proof (cases c)
        case CallDetach
        from DetachAgain [OF i, of s cs' w m script] no Running Cons CallDetach show ?thesis by (cases d) simp_all
      next
        case CallAttach
        show ?thesis
        proof (cases d)
          case True
          from Attach [OF i, of s cs' w m script] no Running Cons CallAttach True show ?thesis by simp
        next
          case False
          from AttachAgain [OF i, of s cs' w m script] no Running Cons CallAttach False show ?thesis by simp
        qed
      qed
    qed
  next
    case (Detaching cs)
    from Detached [OF i Detaching, of w m script] no show ?thesis by simp
  qed auto
  have "holds_detached (jb_state s i) = 0" if "i < n" for i using state [OF that] by auto
  then have "jb_detachedSem s = 0" using inv unfolding jobs_inv_def by simp
  then have "jb_state s i \<noteq> Running (CallDetach # cs) False" if "i < n" for i cs
    using Detach [OF that, of s cs m w script] no slots(2) by auto
  then have state': "jb_state s i = NotStarted \<or> jb_state s i = Finished \<or> (\<exists>cs. jb_state s i = Attaching cs)" if "i < n" for i
    using state [OF that] that by blast
  have "holds_slot (jb_state s i) = 0" if "i < n" for i using state' [OF that] by auto
  then have "jb_sem s = 0" using inv unfolding jobs_inv_def by simp
  then have free: "jb_sem s < w" using slots(1) by simp
  have "jb_state s i \<noteq> Attaching cs" if "i < n" for i cs
    using Attached [OF that, of s cs w m script] no free by auto
  then have "jb_state s i = NotStarted \<or> jb_state s i = Finished" if "i < n" for i using state' [OF that] that by blast
  then have "jb_state s i = Finished" if "i < jb_started s" for i
    using that inv unfolding jobs_inv_def by (meson leD order_less_le_trans)
  then have "jb_started s < n" "\<not> jb_stopped s" using running inv unfolding jobs_returned_def jobs_inv_def by auto
  from Spawn [OF this(2,1) free, of m script] no show False by simp
qed

fun job_weight :: "call list \<Rightarrow> job \<Rightarrow> nat" where
  "job_weight cs NotStarted = 2 * length cs + 3"
| "job_weight cs Spawned = 2 * length cs + 2"
| "job_weight _ (Running cs d) = 2 * length cs + 1"
| "job_weight _ (Detaching cs) = 2 * length cs + 2"
| "job_weight _ (Attaching cs) = 2 * length cs + 2"
| "job_weight _ Finished = 0"

definition jobs_weight :: "nat \<Rightarrow> (nat \<Rightarrow> call list) \<Rightarrow> jobs \<Rightarrow> nat" where
  "jobs_weight n script s = (\<Sum>i<n. job_weight (script i) (jb_state s i)) + of_bool (\<not> jb_stopped s) + of_bool (\<not> jb_cancelled s)"

lemma jobs_weight_move:
  assumes "i < n" and "job_weight (script i) x < job_weight (script i) (jb_state s i)"
    and "jb_state t = (jb_state s)(i := x)" "jb_stopped t = jb_stopped s" "jb_cancelled t = jb_cancelled s"
  shows "jobs_weight n script t < jobs_weight n script s"
proof -
  have "(\<Sum>j<n. job_weight (script j) (jb_state t j)) < (\<Sum>j<n. job_weight (script j) (jb_state s j))"
    using assms(1,2) unfolding assms(3) by (intro sum_strict_mono_ex1) auto
  then show ?thesis using assms(4,5) unfolding jobs_weight_def by simp
qed

lemma jobs_weight_decreases:
  assumes "jobs_step n w m script s t" and inv: "jobs_inv n w m s"
  shows "jobs_weight n script t < jobs_weight n script s"
  using assms(1)
proof cases
  case Spawn
  have "jb_state s (jb_started s) = NotStarted" using inv Spawn(3) unfolding jobs_inv_def by blast
  then show ?thesis using Spawn by (intro jobs_weight_move [of "jb_started s"]) auto
next
  case Stop
  then show ?thesis by (simp add: jobs_weight_def)
next
  case Cancel
  then show ?thesis by (simp add: jobs_weight_def)
qed (auto intro!: jobs_weight_move)

text \<open>(C31) With at least one worker slot and one slot for detached jobs, \<open>Detachable\<close> cannot deadlock and always returns: no run is
  infinite, and in every reachable state before the return some step other than a cancellation is possible.\<close>

theorem jobs_return:
  assumes "0 < nWorkers" "0 < nMaxDetached"
  shows "(\<nexists>f. f 0 = jobs_start \<and> (\<forall>i. jobs_step nJobs nWorkers nMaxDetached script (f i) (f (Suc i)))) \<and>
    (jobs_reachable nJobs nWorkers nMaxDetached script s \<and> \<not> jobs_returned nJobs s \<longrightarrow>
      (\<exists>t. jobs_step nJobs nWorkers nMaxDetached script s t \<and> jb_cancelled t = jb_cancelled s))"
proof -
  have False if f: "f 0 = jobs_start" "\<forall>i. jobs_step nJobs nWorkers nMaxDetached script (f i) (f (Suc i))" for f
  proof -
    have "jobs_reachable nJobs nWorkers nMaxDetached script (f i)" for i
      using f by (induction i) (auto simp: jobs_reachable_def intro: rtranclp.rtrancl_into_rtrancl)
    then have "\<forall>i. jobs_weight nJobs script (f (Suc i)) < jobs_weight nJobs script (f i)"
      using f(2) jobs_weight_decreases jobs_inv_reachable by blast
    then show False using wf_no_infinite_down_chainE [OF wf_measure [of "jobs_weight nJobs script"], where f = f] by auto
  qed
  then show ?thesis using jobs_move [OF jobs_inv_reachable assms] by blast
qed

text \<open>Without a slot for detached jobs the first \<open>Detach\<close> blocks forever, and with it the call, unless it is cancelled: then
  the job still never finishes.\<close>

theorem detach_without_slots_blocks:
  assumes "jobs_reachable nJobs nWorkers 0 script s" and "jb_state s i = Running (CallDetach # cs) False" and "i < nJobs"
    and "(jobs_step nJobs nWorkers 0 script)\<^sup>*\<^sup>* s t"
  shows "jb_state t i = Running (CallDetach # cs) False \<and> \<not> jobs_returned nJobs t"
proof -
  have keep: "jb_state t i = Running (CallDetach # cs) False" using assms(4)
  proof (induction rule: rtranclp_induct)
    case base
    show ?case by (rule assms(2))
  next
    case (step t u)
    have inv: "jobs_inv nJobs nWorkers 0 t"
      using jobs_inv_reachable assms(1) step.hyps(1) unfolding jobs_reachable_def by (meson rtranclp_trans)
    have started: "jb_started t \<noteq> i" using inv step.IH assms(3) unfolding jobs_inv_def by fastforce
    show ?case using step.hyps(2) by cases (use step.IH started in auto)
  qed
  have "jobs_inv nJobs nWorkers 0 t"
    using jobs_inv_reachable assms(1,4) unfolding jobs_reachable_def by (meson rtranclp_trans)
  then have "i < jb_started t" using keep assms(3) unfolding jobs_inv_def by fastforce
  then show ?thesis using keep unfolding jobs_returned_def by auto
qed

subsection \<open>An example\<close>

text \<open>One job that detaches and attaches again.\<close>

definition jobs_after :: "job \<Rightarrow> nat \<Rightarrow> nat \<Rightarrow> jobs" where
  "jobs_after x sem det = \<lparr>jb_state = (\<lambda>i. NotStarted)(0 := x), jb_started = 1, jb_stopped = False, jb_cancelled = False,
     jb_sem = sem, jb_detachedSem = det\<rparr>"

lemma jobs_example_begin:
  "jobs_reachable 1 1 m (\<lambda>i. [CallDetach, CallAttach]) (jobs_after (Running [CallDetach, CallAttach] False) 1 0)"
proof -
  let ?step = "jobs_step 1 1 m (\<lambda>i. [CallDetach, CallAttach])"
  have "?step jobs_start (jobs_after Spawned 1 0)"
    using Spawn [of jobs_start 1 1 m] by (simp add: jobs_start_def jobs_after_def set_job_def)
  moreover have "?step (jobs_after Spawned 1 0) (jobs_after (Running [CallDetach, CallAttach] False) 1 0)"
    using Begin [of 0 1 "jobs_after Spawned 1 0" 1 m "\<lambda>i. [CallDetach, CallAttach]"] by (simp add: jobs_after_def set_job_def)
  ultimately show ?thesis unfolding jobs_reachable_def by (meson rtranclp.rtrancl_into_rtrancl rtranclp.rtrancl_refl)
qed

lemma jobs_example_detached:
  "jobs_reachable 1 1 1 (\<lambda>i. [CallDetach, CallAttach]) (jobs_after (Running [CallAttach] True) 0 1)"
proof -
  let ?step = "jobs_step 1 1 1 (\<lambda>i. [CallDetach, CallAttach])"
  have "?step (jobs_after (Running [CallDetach, CallAttach] False) 1 0) (jobs_after (Detaching [CallAttach]) 1 1)"
    using Detach [of 0 1 "jobs_after (Running [CallDetach, CallAttach] False) 1 0" "[CallAttach]" 1 1]
    by (simp add: jobs_after_def set_job_def)
  moreover have "?step (jobs_after (Detaching [CallAttach]) 1 1) (jobs_after (Running [CallAttach] True) 0 1)"
    using Detached [of 0 1 "jobs_after (Detaching [CallAttach]) 1 1" "[CallAttach]" 1 1] by (simp add: jobs_after_def set_job_def)
  ultimately show ?thesis using jobs_example_begin [of 1] unfolding jobs_reachable_def by (meson rtranclp.rtrancl_into_rtrancl)
qed

theorem jobs_bounded_witness:
  "card {i. i < 1 \<and> (\<exists>cs. jb_state (jobs_after (Running [CallAttach] True) 0 1) i = Running cs True)} \<le> 1"
  using jobs_bounded [OF jobs_example_detached] by blast

theorem jobs_return_witness:
  "\<exists>t. jobs_step 1 1 1 (\<lambda>i. [CallDetach, CallAttach]) (jobs_after (Running [CallAttach] True) 0 1) t"
proof -
  have "\<not> jobs_returned 1 (jobs_after (Running [CallAttach] True) 0 1)" by (simp add: jobs_returned_def jobs_after_def)
  with jobs_return [of 1 1 1 "\<lambda>i. [CallDetach, CallAttach]" "jobs_after (Running [CallAttach] True) 0 1"] jobs_example_detached
  show ?thesis by auto
qed

theorem detach_without_slots_blocks_witness:
  "\<not> jobs_returned 1 (jobs_after (Running [CallDetach, CallAttach] False) 1 0)"
  using detach_without_slots_blocks [OF jobs_example_begin, of 0 "[CallAttach]" "jobs_after (Running [CallDetach, CallAttach] False) 1 0"]
  by (simp add: jobs_after_def)

end
