(* ===== verification/Decimal.thy ===== *)
theory Decimal
  imports Prelude
begin

text \<open>
  Decimal numbers as \<open>strconv\<close> reads and prints them: \<open>Atoi\<close>, which is \<open>ParseInt\<close> with base 10 and 64 bits but for the
  text of its errors, and \<open>FormatInt\<close> with base 10.
\<close>

definition digit :: "char \<Rightarrow> nat option" where
  "digit c = (let n = of_char c :: nat in if 48 \<le> n \<and> n \<le> 57 then Some (n - 48) else None)"

fun digits_value :: "nat \<Rightarrow> string \<Rightarrow> nat option" where
  "digits_value acc [] = Some acc"
| "digits_value acc (c # cs) = (case digit c of None \<Rightarrow> None | Some d \<Rightarrow> digits_value (10 * acc + d) cs)"

text \<open>An optional sign and at least one decimal digit, within the 64-bit range.\<close>

definition Atoi :: "string \<Rightarrow> go_error + int" where
  "Atoi s =
     (let (neg, ds) = (case s of c # cs \<Rightarrow> (if c = CHR ''-'' then (True, cs) else if c = CHR ''+'' then (False, cs) else (False, s)) | [] \<Rightarrow> (False, s))
      in case (if ds = [] then None else digits_value 0 ds) of
          None \<Rightarrow> Inl (ErrOther ''invalid syntax'')
        | Some n \<Rightarrow>
            let k = (if neg then - int n else int n)
            in if k < - (2 ^ 63) \<or> k \<ge> 2 ^ 63 then Inl (ErrOther ''value out of range'') else Inr k)"

fun format_nat :: "nat \<Rightarrow> string" where
  "format_nat n = (if n < 10 then [char_of (48 + n)] else format_nat (n div 10) @ [char_of (48 + n mod 10)])"

declare format_nat.simps [simp del]

definition FormatInt :: "int \<Rightarrow> string" where
  "FormatInt k = (if k < 0 then CHR ''-'' # format_nat (nat (- k)) else format_nat (nat k))"

subsection \<open>What is printed is read back\<close>

lemma digit_char_of: "d < 10 \<Longrightarrow> digit (char_of (48 + d)) = Some d"
  by (simp add: digit_def Let_def)

lemma digits_value_snoc:
  "digits_value acc (cs @ [c]) = (case digits_value acc cs of None \<Rightarrow> None | Some m \<Rightarrow> map_option (\<lambda>d. 10 * m + d) (digit c))"
  by (induction cs arbitrary: acc) (auto split: option.splits)

lemma digits_value_format_nat: "digits_value 0 (format_nat n) = Some n"
proof (induction n rule: format_nat.induct)
  case (1 n)
  show ?case
  proof (cases "n < 10")
    case True
    then show ?thesis by (simp add: format_nat.simps [of n] digit_char_of)
  next
    case False
    then show ?thesis using 1 by (simp add: format_nat.simps [of n] digits_value_snoc digit_char_of)
  qed
qed

lemma digit_sign [simp]: "digit (CHR ''-'') = None" "digit (CHR ''+'') = None"
  by (simp_all add: digit_def)

lemma format_nat_start: "\<exists>c cs d. format_nat n = c # cs \<and> digit c = Some d"
proof -
  have "format_nat n \<noteq> []" by (simp add: format_nat.simps [of n])
  then obtain c cs where c: "format_nat n = c # cs" by (cases "format_nat n") auto
  then show ?thesis using digits_value_format_nat [of n] by (cases "digit c") auto
qed

lemma Atoi_FormatInt:
  assumes "- (2 ^ 63) \<le> k" and "k < 2 ^ 63"
  shows "Atoi (FormatInt k) = Inr k"
proof -
  obtain c cs d where n: "format_nat (nat \<bar>k\<bar>) = c # cs" "digit c = Some d" using format_nat_start by blast
  have c: "c \<noteq> CHR ''-''" "c \<noteq> CHR ''+''" using n(2) digit_sign by auto
  have v: "digits_value 0 (c # cs) = Some (nat \<bar>k\<bar>)" using digits_value_format_nat [of "nat \<bar>k\<bar>"] n(1) by simp
  show ?thesis
  proof (cases "k < 0")
    case True
    then have "FormatInt k = CHR ''-'' # c # cs" using n(1) by (simp add: FormatInt_def)
    then show ?thesis using True assms v unfolding Atoi_def by (simp del: digits_value.simps)
  next
    case False
    then have "FormatInt k = c # cs" using n(1) by (simp add: FormatInt_def)
    then show ?thesis using False assms v c unfolding Atoi_def by (simp del: digits_value.simps)
  qed
qed

lemma format_nat_inject: "format_nat a = format_nat b \<Longrightarrow> a = b"
  by (metis digits_value_format_nat option.inject)

lemma FormatInt_inject:
  assumes "FormatInt a = FormatInt b"
  shows "a = b"
proof -
  have sign: "CHR ''-'' # cs \<noteq> format_nat n" for cs n
    using format_nat_start [of n] digit_sign by auto
  show ?thesis
  proof (cases "a < 0"; cases "b < 0")
    assume "a < 0" "b < 0"
    then show ?thesis using assms format_nat_inject by (fastforce simp: FormatInt_def)
  next
    assume "\<not> a < 0" "\<not> b < 0"
    then show ?thesis using assms format_nat_inject by (fastforce simp: FormatInt_def)
  next
    assume "a < 0" "\<not> b < 0"
    then show ?thesis using assms sign by (simp add: FormatInt_def)
  next
    assume "\<not> a < 0" "b < 0"
    then show ?thesis using assms sign by (metis FormatInt_def)
  qed
qed

end
