(* ===== verification/Rest_Core.thy ===== *)
theory Rest_Core
  imports Recommender Decimal
begin

text \<open>
  The frame of the REST server (\<open>server/rest.go\<close>): requests, responses, parameters, the methods of the stores that
  the handlers call, and handlers as computations that stop at the first response. The body of a request is what
  \<open>ReadEntity\<close> returned, an error or the decoded value. Headers other than the API key and version are not modelled,
  nor are logs and metrics; numbers in error messages are left out.
\<close>

subsection \<open>Requests and responses\<close>

record request =
  rq_path :: "string \<Rightarrow> string"
  rq_query :: "string \<Rightarrow> string list"
  rq_header :: "string \<Rightarrow> string"

definition PathParameter :: "request \<Rightarrow> string \<Rightarrow> string" where
  "PathParameter rq name = rq_path rq name"

definition QueryParameter :: "request \<Rightarrow> string \<Rightarrow> string" where
  "QueryParameter rq name = (case rq_query rq name of [] \<Rightarrow> '''' | v # _ \<Rightarrow> v)"

record health_status =
  hs_Ready :: bool
  hs_DataStoreError :: "go_error option"
  hs_CacheStoreError :: "go_error option"
  hs_DataStoreConnected :: bool
  hs_CacheStoreConnected :: bool

datatype 'w content =
    CSuccess int
  | CUser user
  | CUsers string "user list"
  | CItem item
  | CItems string "item list"
  | CScores "'w score list"
  | CIds "string list"
  | CFeedback "'w feedback list"
  | CFeedbackPage string "'w feedback list"
  | COneFeedback "'w feedback"
  | CHealth health_status

text \<open>\<open>Silent\<close> is a handler that returns without writing anything, \<open>Crashed\<close> one that panics.\<close>

datatype 'w response =
    Ok "'w content"
  | Text string
  | BadRequest go_error
  | TooManyRequests go_error
  | InternalServerError go_error
  | PageNotFound go_error
  | ServiceUnavailable health_status
  | Unauthorized
  | Silent
  | Crashed go_panic

subsection \<open>Handlers\<close>

type_synonym ('s, 'w, 'a) handler = "'s \<Rightarrow> ('w response + 'a) \<times> 's"

definition h_bind :: "('s, 'w, 'a) handler \<Rightarrow> ('a \<Rightarrow> ('s, 'w, 'b) handler) \<Rightarrow> ('s, 'w, 'b) handler" where
  "h_bind m f s = (case m s of (Inl r, s') \<Rightarrow> (Inl r, s') | (Inr x, s') \<Rightarrow> f x s')"

definition h_return :: "'a \<Rightarrow> ('s, 'w, 'a) handler" where
  "h_return x s = (Inr x, s)"

definition h_stop :: "'w response \<Rightarrow> ('s, 'w, 'a) handler" where
  "h_stop r s = (Inl r, s)"

text \<open>\<open>if err != nil { answer(response, err); return }\<close>, after a check, a computation or a call of a store.\<close>

definition h_check :: "(go_error \<Rightarrow> 'w response) \<Rightarrow> go_error option \<Rightarrow> ('s, 'w, unit) handler" where
  "h_check answer e s = (case e of Some e \<Rightarrow> (Inl (answer e), s) | None \<Rightarrow> (Inr (), s))"

definition h_get :: "(go_error \<Rightarrow> 'w response) \<Rightarrow> go_error + 'a \<Rightarrow> ('s, 'w, 'a) handler" where
  "h_get answer r s = (case r of Inl e \<Rightarrow> (Inl (answer e), s) | Inr x \<Rightarrow> (Inr x, s))"

definition h_call :: "(go_error \<Rightarrow> 'w response) \<Rightarrow> ('s \<Rightarrow> (go_error + 'a) \<times> 's) \<Rightarrow> ('s, 'w, 'a) handler" where
  "h_call answer m s = (case m s of (Inl e, s') \<Rightarrow> (Inl (answer e), s') | (Inr x, s') \<Rightarrow> (Inr x, s'))"

definition h_do :: "(go_error \<Rightarrow> 'w response) \<Rightarrow> ('s \<Rightarrow> go_error option \<times> 's) \<Rightarrow> ('s, 'w, unit) handler" where
  "h_do answer m s = (case m s of (Some e, s') \<Rightarrow> (Inl (answer e), s') | (None, s') \<Rightarrow> (Inr (), s'))"

text \<open>A computation of \<open>logics\<close> that may also panic.\<close>

definition h_io :: "(go_error \<Rightarrow> 'w response) \<Rightarrow> ('s, 'a) io \<Rightarrow> ('s, 'w, 'a) handler" where
  "h_io answer m s =
     (case m s of
        (Inl (Failed e), s') \<Rightarrow> (Inl (answer e), s')
      | (Inl (Panicked p), s') \<Rightarrow> (Inl (Crashed p), s')
      | (Inr x, s') \<Rightarrow> (Inr x, s'))"

definition h_panic :: "go_panic + 'a \<Rightarrow> ('s, 'w, 'a) handler" where
  "h_panic r s = (case r of Inl p \<Rightarrow> (Inl (Crashed p), s) | Inr x \<Rightarrow> (Inr x, s))"

text \<open>The response of a handler: where it stopped, or the content it ends with.\<close>

definition h_run :: "('s, 'w, 'w content) handler \<Rightarrow> 's \<Rightarrow> 'w response \<times> 's" where
  "h_run m s = (case m s of (Inl r, s') \<Rightarrow> (r, s') | (Inr c, s') \<Rightarrow> (Ok c, s'))"

lemma h_Inr:
  "h_bind m f s = (Inr y, s') \<longleftrightarrow> (\<exists>x s1. m s = (Inr x, s1) \<and> f x s1 = (Inr y, s'))"
  "h_return x s = (Inr y, s') \<longleftrightarrow> y = x \<and> s' = s"
  "h_stop r s = (Inr y, s') \<longleftrightarrow> False"
  "h_check a e s = (Inr u, s') \<longleftrightarrow> e = None \<and> s' = s"
  "h_get a g s = (Inr y, s') \<longleftrightarrow> g = Inr y \<and> s' = s"
  "h_call a c s = (Inr y, s') \<longleftrightarrow> c s = (Inr y, s')"
  "h_do a d s = (Inr u, s') \<longleftrightarrow> d s = (None, s')"
  "h_io a i s = (Inr y, s') \<longleftrightarrow> i s = (Inr y, s')"
  "h_panic q s = (Inr y, s') \<longleftrightarrow> q = Inr y \<and> s' = s"
  by (auto simp: h_bind_def h_return_def h_stop_def h_check_def h_get_def h_call_def h_do_def h_io_def h_panic_def
      split: prod.splits sum.splits option.splits failure.splits)

lemma h_Inl:
  "h_bind m f s = (Inl r, s') \<longleftrightarrow> m s = (Inl r, s') \<or> (\<exists>x s1. m s = (Inr x, s1) \<and> f x s1 = (Inl r, s'))"
  "h_return x s = (Inl r, s') \<longleftrightarrow> False"
  "h_stop q s = (Inl r, s') \<longleftrightarrow> r = q \<and> s' = s"
  "h_check a e s = (Inl r, s') \<longleftrightarrow> (\<exists>x. e = Some x \<and> r = a x) \<and> s' = s"
  "h_get a g s = (Inl r, s') \<longleftrightarrow> (\<exists>x. g = Inl x \<and> r = a x) \<and> s' = s"
  "h_call a c s = (Inl r, s') \<longleftrightarrow> (\<exists>x. c s = (Inl x, s') \<and> r = a x)"
  "h_do a d s = (Inl r, s') \<longleftrightarrow> (\<exists>x. d s = (Some x, s') \<and> r = a x)"
  by (auto simp: h_bind_def h_return_def h_stop_def h_check_def h_get_def h_call_def h_do_def
      split: prod.splits sum.splits option.splits)

lemma h_run_Ok: "h_run m s = (Ok c, s') \<Longrightarrow> (\<exists>r. m s = (Inl (Ok r), s')) \<or> m s = (Inr c, s')"
  by (auto simp: h_run_def split: prod.splits sum.splits)

subsection \<open>Parameters\<close>

definition ParseInt :: "request \<Rightarrow> string \<Rightarrow> int \<Rightarrow> go_error + int" where
  "ParseInt rq name fallback =
     (let valueString = QueryParameter rq name in
      case Atoi valueString of
        Inl e \<Rightarrow> if valueString = '''' then Inr fallback else Inl e
      | Inr k \<Rightarrow> Inr k)"

text \<open>\<open>time.ParseDuration\<close> is the parameter.\<close>

definition ParseDuration :: "(string \<Rightarrow> go_error + duration) \<Rightarrow> request \<Rightarrow> string \<Rightarrow> go_error + duration" where
  "ParseDuration parse rq name = (let v = QueryParameter rq name in if v = '''' then Inr 0 else parse v)"

definition ReadCategories :: "request \<Rightarrow> string list \<Rightarrow> string list" where
  "ReadCategories rq fallback =
     (if PathParameter rq ''category'' \<noteq> '''' then [PathParameter rq ''category'']
      else if rq_query rq ''category'' \<noteq> [] then filter (\<lambda>c. c \<noteq> '''') (rq_query rq ''category'')
      else fallback)"

definition withWildCard :: "string list \<Rightarrow> string list" where
  "withWildCard categories = categories @ ['''']"

text \<open>Addition of Go's \<open>int\<close>.\<close>

definition add64 :: "int \<Rightarrow> int \<Rightarrow> int" where
  "add64 a b = (a + b + 2 ^ 63) mod 2 ^ 64 - 2 ^ 63"

lemma add64_exact: "- (2 ^ 63) \<le> a + b \<Longrightarrow> a + b < 2 ^ 63 \<Longrightarrow> add64 a b = a + b"
  by (simp add: add64_def mod_pos_pos_trivial)

text \<open>\<open>xs[k:]\<close> with \<open>k\<close> at most the length.\<close>

definition slice_from :: "'a list \<Rightarrow> int \<Rightarrow> go_panic + 'a list" where
  "slice_from xs k = (if k < 0 \<or> k > int (length xs) then Inl IndexOutOfRange else Inr (drop (nat k) xs))"

definition slice_to :: "'a list \<Rightarrow> int \<Rightarrow> go_panic + 'a list" where
  "slice_to xs k = (if k < 0 \<or> k > int (length xs) then Inl IndexOutOfRange else Inr (take (nat k) xs))"

text \<open>\<open>if n > 0 && len(xs) > n { xs = xs[:n] }\<close>\<close>

definition at_most :: "int \<Rightarrow> 'a list \<Rightarrow> 'a list" where
  "at_most n xs = (if n > 0 \<and> int (length xs) > n then take (nat n) xs else xs)"

subsection \<open>The server\<close>

text \<open>The parts of the configuration that the server reads, beside those of the recommenders; \<open>rs_JsonSize\<close> is the length
  of the JSON encoding of labels.\<close>

record ('s, 'w) rest_server =
  rs_Recommend :: "'w recommend_config"
  rs_DefaultN :: int
  rs_APIKey :: string
  rs_ClockError :: duration
  rs_AutoInsertUser :: bool
  rs_AutoInsertItem :: bool
  rs_MaxUsersCount :: int
  rs_MaxItemsCount :: int
  rs_MaxLabelsSize :: int
  rs_MaxCommentSize :: int
  rs_MaxCategoriesCount :: int
  rs_MaxCategoriesSize :: int
  rs_SearchColumns :: "string list"
  rs_Data :: "('s, 'w) data_db"
  rs_DataStore :: "('s, 'w) data_store"
  rs_Cache :: "('s, 'w) cache_db"
  rs_CacheStore :: "('s, 'w) cache_store"
  rs_Vector :: "('s, 'w) vector_db"
  rs_Pull :: "external_config \<Rightarrow> string \<Rightarrow> 's \<Rightarrow> (go_error + string list) \<times> 's"
  rs_Embed :: "string \<Rightarrow> 's \<Rightarrow> (go_error + 'w list list) \<times> 's"
  rs_JsonSize :: "json \<Rightarrow> int"
  rs_ParseDuration :: "string \<Rightarrow> go_error + duration"

definition config_Now :: "'w env \<Rightarrow> ('s, 'w) rest_server \<Rightarrow> time" where
  "config_Now E srv = env_Now E + rs_ClockError srv"

subsection \<open>Authentication and health\<close>

definition AuthFilter :: "('s, 'w) rest_server \<Rightarrow> string \<Rightarrow> request \<Rightarrow> ('s \<Rightarrow> 'w response \<times> 's) \<Rightarrow> 's \<Rightarrow> 'w response \<times> 's" where
  "AuthFilter srv path rq chain s =
     (if cut_prefix ''/api/health/'' path \<noteq> None then chain s
      else if rs_APIKey srv = '''' then chain s
      else if rq_header rq ''X-API-Key'' = rs_APIKey srv then chain s
      else (Unauthorized, s))"

definition checkHealth :: "('s, 'w) rest_server \<Rightarrow> 's \<Rightarrow> health_status \<times> 's" where
  "checkHealth srv s =
     (case dst_Ping (rs_DataStore srv) s of (d, s1) \<Rightarrow>
      case cst_Ping (rs_CacheStore srv) s1 of (c, s2) \<Rightarrow>
      (\<lparr>hs_Ready = (d = None \<and> c = None), hs_DataStoreError = d, hs_CacheStoreError = c,
        hs_DataStoreConnected = (d = None), hs_CacheStoreConnected = (c = None)\<rparr>, s2))"

text \<open>When the store is down, the status is sent as JSON in an error.\<close>

definition checkReady :: "('s, 'w) rest_server \<Rightarrow> 's \<Rightarrow> 'w response \<times> 's" where
  "checkReady srv s = (case checkHealth srv s of (h, s') \<Rightarrow> (if hs_Ready h then Ok (CHealth h) else ServiceUnavailable h, s'))"

definition checkLive :: "('s, 'w) rest_server \<Rightarrow> 's \<Rightarrow> 'w response \<times> 's" where
  "checkLive srv s = (case checkHealth srv s of (h, s') \<Rightarrow> (Ok (CHealth h), s'))"

lemma at_most_length: "0 < n \<Longrightarrow> int (length (at_most n xs)) \<le> n"
  by (simp add: at_most_def)

lemma set_at_most: "set (at_most n xs) \<subseteq> set xs"
  by (auto simp: at_most_def dest: in_set_takeD)

end
