(* ===== verification/Rest_Read.thy ===== *)
theory Rest_Read
  imports Rest_Core
begin

text \<open>
  The handlers of \<open>server/rest.go\<close> that read: leaderboards, latest items, neighbours, recommendations, sessions, search, items
  and feedback. The embedding service of the item search is a parameter.
\<close>

subsection \<open>Feedback of a user\<close>

text \<open>The items that the user of the query has feedback on; none without a user.\<close>

definition read_items :: "'w env \<Rightarrow> ('s, 'w) rest_server \<Rightarrow> string \<Rightarrow> ('s, 'w, string set) handler" where
  "read_items E srv userId =
     (if userId \<noteq> ''''
      then h_bind (h_call InternalServerError (\<lambda>s. ddb_GetUserFeedback (rs_Data srv) s userId (Some (config_Now E srv)) [])) (\<lambda>feedback.
        h_return (set (map fb_ItemId feedback)))
      else h_return {})"

subsection \<open>Cached documents\<close>

definition SearchDocuments :: "'w env \<Rightarrow> ('s, 'w) rest_server \<Rightarrow> string \<Rightarrow> string \<Rightarrow> string list \<Rightarrow> request \<Rightarrow> ('s, 'w, 'w content) handler" where
  "SearchDocuments E srv collection owner categories rq =
     h_bind (h_get BadRequest (ParseInt rq ''offset'' 0)) (\<lambda>offset.
     h_bind (h_get BadRequest (ParseInt rq ''n'' (rs_DefaultN srv))) (\<lambda>n.
     let userId = QueryParameter rq ''user-id'' in
     h_bind (read_items E srv userId) (\<lambda>readItems.
     let stop = add64 offset n; stop' = (if stop > 0 \<and> card readItems > 0 then add64 stop (int (card readItems)) else stop) in
     h_bind (h_call InternalServerError (\<lambda>s. cdb_SearchScores (rs_Cache srv) s collection owner categories offset stop')) (\<lambda>items.
     h_return (CScores (at_most n (if userId \<noteq> '''' then filter (\<lambda>x. score_Id x \<notin> readItems) items else items)))))))"

text \<open>The time goes into a header; only the read of the cache is modelled, its error is logged.\<close>

definition SetLastModified :: "('s, 'w) rest_server \<Rightarrow> string \<Rightarrow> ('s, 'w, unit) handler" where
  "SetLastModified srv key s = (Inr (), snd (cdb_Get (rs_Cache srv) s key))"

definition getNonPersonalized :: "'w env \<Rightarrow> ('s, 'w) rest_server \<Rightarrow> request \<Rightarrow> 's \<Rightarrow> 'w response \<times> 's" where
  "getNonPersonalized E srv rq = h_run (
     let name = PathParameter rq ''name''; categories = ReadCategories rq [''''] in
     h_bind (SetLastModified srv (Key [''non-personalized_update_time'', name])) (\<lambda>_.
     SearchDocuments E srv c_NonPersonalized name categories rq))"

definition getCollaborativeFiltering :: "'w env \<Rightarrow> ('s, 'w) rest_server \<Rightarrow> request \<Rightarrow> 's \<Rightarrow> 'w response \<times> 's" where
  "getCollaborativeFiltering E srv rq = h_run (
     if is_none (co_Type (Collaborative (rs_Recommend srv)))
     then h_stop (PageNotFound (ErrOther ''collaborative filtering recommendation is disabled''))
     else let userId = PathParameter rq ''user-id''; categories = ReadCategories rq [] in
       h_bind (SetLastModified srv (Key [c_RecommendUpdateTime, userId])) (\<lambda>_.
       SearchDocuments E srv c_Recommend userId categories rq))"

subsection \<open>Latest items\<close>

definition latest_score :: "'w env \<Rightarrow> item \<Rightarrow> 'w score" where
  "latest_score E i = \<lparr>score_Id = item_ItemId i, score_Score = env_Unix E (item_Timestamp i), score_IsHidden = False,
     score_Categories = [], score_Timestamp = 0\<rparr>"

definition wrap_error :: "string \<Rightarrow> go_error \<Rightarrow> 'w response" where
  "wrap_error msg e = BadRequest (ErrOther msg)"

definition getLatest :: "'w env \<Rightarrow> ('s, 'w) rest_server \<Rightarrow> request \<Rightarrow> 's \<Rightarrow> 'w response \<times> 's" where
  "getLatest E srv rq = h_run (
     h_bind (h_get (wrap_error ''invalid offset parameter'') (ParseInt rq ''offset'' 0)) (\<lambda>offset.
     h_bind (h_get (wrap_error ''invalid n parameter'') (ParseInt rq ''n'' (rs_DefaultN srv))) (\<lambda>n.
     let categories = ReadCategories rq [] in
     h_bind (read_items E srv (QueryParameter rq ''user-id'')) (\<lambda>readItems.
     let limit = add64 (add64 offset n) (int (card readItems)) in
     h_bind (h_call InternalServerError (\<lambda>s. ddb_GetLatestItems (rs_Data srv) s limit categories (item_after E (rs_Recommend srv)))) (\<lambda>found.
     let items = filter (\<lambda>i. item_ItemId i \<notin> readItems) found in
     h_bind (h_panic (slice_from items (min offset (int (length items))))) (\<lambda>page.
     h_return (CScores (map (latest_score E) (at_most n page)))))))))"

subsection \<open>Neighbours\<close>

definition category_matched :: "string list \<Rightarrow> item \<Rightarrow> bool" where
  "category_matched categories i = list_all (\<lambda>c. c \<in> set (item_Categories i)) categories"

definition FilterVisibleItemsByCategories :: "('s, 'w) data_db \<Rightarrow> 'w score list \<Rightarrow> string list \<Rightarrow> 's \<Rightarrow> (go_error + 'w score list) \<times> 's" where
  "FilterVisibleItemsByCategories client scores categories s =
     (case ddb_BatchGetItems client s (ConvertDocumentsToValues scores) no_get_options of
        (Inl e, s') \<Rightarrow> (Inl e, s')
      | (Inr items, s') \<Rightarrow>
          (let visibleItems = set (map item_ItemId (filter (\<lambda>i. \<not> item_IsHidden i \<and> category_matched categories i) items))
           in (Inr (filter (\<lambda>x. score_Id x \<in> visibleItems) scores), s')))"

text \<open>The page of a list of results: past its end there is nothing, before its start the slice panics.\<close>

definition page_from :: "int \<Rightarrow> 'a list \<Rightarrow> go_panic + 'a list" where
  "page_from offset xs = (if offset < int (length xs) then slice_from xs offset else Inr [])"

definition SearchItemToItem :: "('w::{linorder,zero,one,plus,minus,times,divide}) env \<Rightarrow> ('s, 'w) rest_server \<Rightarrow> similarity_config \<Rightarrow> string \<Rightarrow>
    string list \<Rightarrow> request \<Rightarrow> ('s, 'w, 'w content) handler" where
  "SearchItemToItem E srv c itemId categories rq =
     h_bind (h_get BadRequest (ParseInt rq ''offset'' 0)) (\<lambda>offset.
     h_bind (h_get BadRequest (ParseInt rq ''n'' (rs_DefaultN srv))) (\<lambda>n.
     h_bind (read_items E srv (QueryParameter rq ''user-id'')) (\<lambda>readItems.
     let queryN = max (add64 (add64 offset n) (int (card readItems))) (CacheSize (rs_Recommend srv)) in
     h_bind (h_io InternalServerError (QueryItemToItem (rs_Vector srv) c itemId [] queryN)) (\<lambda>found.
     h_bind (h_call InternalServerError (FilterVisibleItemsByCategories (rs_Data srv) found categories)) (\<lambda>visible.
     h_bind (h_panic (page_from offset (filter (\<lambda>x. score_Id x \<notin> readItems) visible))) (\<lambda>page.
     h_return (CScores (at_most n page))))))))"

definition getItemToItem :: "('w::{linorder,zero,one,plus,minus,times,divide}) env \<Rightarrow> ('s, 'w) rest_server \<Rightarrow> request \<Rightarrow> 's \<Rightarrow> 'w response \<times> 's" where
  "getItemToItem E srv rq = h_run (
     let name = PathParameter rq ''name'' in
     case GetItemToItemConfig (rs_Recommend srv) name of
       None \<Rightarrow> h_stop (PageNotFound (ErrOther (''item-to-item recommender '' @ name @ '' not found'')))
     | Some c \<Rightarrow> SearchItemToItem E srv c (PathParameter rq ''item-id'') (ReadCategories rq []) rq)"

definition getItemNeighbors :: "('w::{linorder,zero,one,plus,minus,times,divide}) env \<Rightarrow> ('s, 'w) rest_server \<Rightarrow> request \<Rightarrow> 's \<Rightarrow> 'w response \<times> 's" where
  "getItemNeighbors E srv rq = h_run (
     case ItemToItem (rs_Recommend srv) of
       [] \<Rightarrow> h_stop (PageNotFound (ErrOther ''item-to-item recommendation is not enabled''))
     | c # _ \<Rightarrow> SearchItemToItem E srv c (PathParameter rq ''item-id'') (ReadCategories rq []) rq)"

definition SearchUserToUser :: "('w::{linorder,zero,one,plus,minus,times,divide}) env \<Rightarrow> ('s, 'w) rest_server \<Rightarrow> similarity_config \<Rightarrow> string \<Rightarrow>
    request \<Rightarrow> ('s, 'w, 'w content) handler" where
  "SearchUserToUser E srv c userId rq =
     h_bind (h_get BadRequest (ParseInt rq ''offset'' 0)) (\<lambda>offset.
     h_bind (h_get BadRequest (ParseInt rq ''n'' (rs_DefaultN srv))) (\<lambda>n.
     h_bind (h_io InternalServerError (QueryUserToUser (rs_Vector srv) c userId (add64 offset n))) (\<lambda>results.
     h_bind (h_panic (page_from offset results)) (\<lambda>page.
     h_return (CScores (at_most n page))))))"

definition getUserToUser :: "('w::{linorder,zero,one,plus,minus,times,divide}) env \<Rightarrow> ('s, 'w) rest_server \<Rightarrow> request \<Rightarrow> 's \<Rightarrow> 'w response \<times> 's" where
  "getUserToUser E srv rq = h_run (
     let name = PathParameter rq ''name'' in
     case GetUserToUserConfig (rs_Recommend srv) name of
       None \<Rightarrow> h_stop (PageNotFound (ErrOther (''user-to-user recommender '' @ name @ '' not found'')))
     | Some c \<Rightarrow> SearchUserToUser E srv c (PathParameter rq ''user-id'') rq)"

definition getUserNeighbors :: "('w::{linorder,zero,one,plus,minus,times,divide}) env \<Rightarrow> ('s, 'w) rest_server \<Rightarrow> request \<Rightarrow> 's \<Rightarrow> 'w response \<times> 's" where
  "getUserNeighbors E srv rq = h_run (
     case UserToUser (rs_Recommend srv) of
       [] \<Rightarrow> h_stop (PageNotFound (ErrOther ''user-to-user recommendation is not enabled''))
     | c # _ \<Rightarrow> SearchUserToUser E srv c (PathParameter rq ''user-id'') rq)"

subsection \<open>Recommendations\<close>

fun write_back :: "('s, 'w::zero) rest_server \<Rightarrow> string \<Rightarrow> string \<Rightarrow> time \<Rightarrow> string list \<Rightarrow> ('s, 'w, unit) handler" where
  "write_back srv userId ty t [] = h_return ()"
| "write_back srv userId ty t (i # is) =
     h_bind (h_do InternalServerError (\<lambda>s. dst_BatchInsertFeedback (rs_DataStore srv) s
       [\<lparr>fb_FeedbackType = ty, fb_UserId = userId, fb_ItemId = i, fb_Value = 0, fb_Timestamp = t, fb_Updated = 0, fb_Labels = JNull, fb_Comment = ''''\<rparr>]
       False False False)) (\<lambda>_. write_back srv userId ty t is)"

text \<open>\<open>strings.TrimSpace\<close> on ASCII white space.\<close>

definition is_space :: "char \<Rightarrow> bool" where
  "is_space c = (of_char c \<in> {9, 10, 11, 12, 13, 32 :: nat})"

definition TrimSpace :: "string \<Rightarrow> string" where
  "TrimSpace s = rev (dropWhile is_space (rev (dropWhile is_space s)))"

definition getRecommend :: "('w::{linorder,zero,one,plus,minus,times,divide}) env \<Rightarrow> ('s, 'w) rest_server \<Rightarrow> request \<Rightarrow> 's \<Rightarrow> 'w response \<times> 's" where
  "getRecommend E srv rq = h_run (
     let userId = PathParameter rq ''user-id'' in
     h_bind (h_get BadRequest (ParseInt rq ''n'' (rs_DefaultN srv))) (\<lambda>n.
     let categories = ReadCategories rq [] in
     h_bind (h_get BadRequest (ParseInt rq ''offset'' 0)) (\<lambda>offset.
     let writeBackFeedback = QueryParameter rq ''write-back-type'' in
     h_bind (h_get BadRequest (ParseDuration (rs_ParseDuration srv) rq ''write-back-delay'')) (\<lambda>writeBackDelay.
     h_bind (h_io InternalServerError (NewRecommender E (rs_Recommend srv) (rs_Cache srv) (rs_Data srv) (rs_Vector srv) (rs_Pull srv) True userId categories)) (\<lambda>recommender.
     h_bind (h_io InternalServerError (Recommend E recommender (add64 n offset))) (\<lambda>(found, _).
     h_bind (h_panic (page_from offset found)) (\<lambda>scores.
     let results = map score_Id scores in
     h_bind (if writeBackFeedback \<noteq> '''' then write_back srv userId writeBackFeedback (env_Now E + writeBackDelay) results else h_return ()) (\<lambda>_.
     h_return (if TrimSpace (rq_header rq ''X-API-Version'') = ''2'' then CScores scores else CIds results)))))))))"

subsection \<open>Sessions\<close>

fun add_session_scores :: "string set \<Rightarrow> (string \<times> 'w::{zero,plus}) list \<Rightarrow> 'w score list \<Rightarrow> (string \<times> 'w) list" where
  "add_session_scores excl m [] = m"
| "add_session_scores excl m (x # xs) =
     (if score_Id x \<notin> excl then add_session_scores excl (map_add_score m (score_Id x) (score_Score x)) xs else add_session_scores excl m xs)"

fun session_candidates :: "('s, 'w::{linorder,zero,one,plus,minus,times,divide}) rest_server \<Rightarrow> similarity_config \<Rightarrow> string set \<Rightarrow> string list \<Rightarrow>
    (string \<times> 'w) list \<Rightarrow> int \<Rightarrow> 'w feedback list \<Rightarrow> ('s, 'w, (string \<times> 'w) list) handler" where
  "session_candidates srv c excl categories m used [] = h_return m"
| "session_candidates srv c excl categories m used (f # fs) =
     h_bind (h_io BadRequest (QueryItemToItem (rs_Vector srv) c (fb_ItemId f) [] (CacheSize (rs_Recommend srv)))) (\<lambda>similar.
     h_bind (h_call InternalServerError (FilterVisibleItemsByCategories (rs_Data srv) similar categories)) (\<lambda>similarItems.
     let m' = add_session_scores excl m similarItems in
     if length similarItems > 0
     then (if used + 1 \<ge> ContextSize (rs_Recommend srv) then h_return m' else session_candidates srv c excl categories m' (used + 1) fs)
     else session_candidates srv c excl categories m' used fs))"

text \<open>The feedbacks of the body are given with their conversion \<open>ToDataFeedback\<close>.\<close>

definition sessionRecommend :: "('w::{linorder,zero,one,plus,minus,times,divide}) env \<Rightarrow> ('s, 'w) rest_server \<Rightarrow> ('a \<Rightarrow> go_error + 'w feedback) \<Rightarrow> request \<Rightarrow>
    go_error + 'a list \<Rightarrow> 's \<Rightarrow> 'w response \<times> 's" where
  "sessionRecommend E srv convert rq body = h_run (
     case ItemToItem (rs_Recommend srv) of
       [] \<Rightarrow> h_stop (PageNotFound (ErrOther ''item-to-item recommendation is not enabled''))
     | c # _ \<Rightarrow>
     h_bind (h_get BadRequest body) (\<lambda>feedbacks.
     h_bind (h_get BadRequest (ParseInt rq ''n'' (rs_DefaultN srv))) (\<lambda>n.
     let category = PathParameter rq ''category''; categories = (if category \<noteq> '''' then [category] else []) in
     h_bind (h_get BadRequest (ParseInt rq ''offset'' 0)) (\<lambda>offset.
     h_bind (h_get BadRequest (p_map convert feedbacks)) (\<lambda>converted.
     let dataFeedback = env_SortFeedbacks E converted;
         excludeSet = set (map fb_ItemId dataFeedback);
         userFeedback = filter (\<lambda>f. MatchFeedbackTypeExpressions (ds_PositiveFeedbackTypes (DataSource (rs_Recommend srv))) (fb_FeedbackType f) (fb_Value f)) dataFeedback in
     h_bind (session_candidates srv c excludeSet categories [] 0 userFeedback) (\<lambda>candidates.
     h_bind (h_panic (topk_of_map E (add64 n offset) candidates)) (\<lambda>es.
     let result = map (\<lambda>e. \<lparr>score_Id = elem_value e, score_Score = elem_weight e, score_IsHidden = False, score_Categories = [], score_Timestamp = 0\<rparr>) es in
     h_bind (h_panic (page_from offset result)) (\<lambda>page.
     h_bind (h_panic (slice_to page (min (int (length page)) n))) (\<lambda>final.
     h_return (CScores final))))))))))"

subsection \<open>Items and search\<close>

definition searchEmbedding :: "('s, 'w::zero) rest_server \<Rightarrow> string \<Rightarrow> string \<Rightarrow> int \<Rightarrow> ('s, 'w, 'w content) handler" where
  "searchEmbedding srv query index n =
     (case GetItemToItemConfig (rs_Recommend srv) index of
        None \<Rightarrow> h_stop (BadRequest (ErrOther (''item search index '' @ index @ '' not found'')))
      | Some c \<Rightarrow>
          if sim_Type c \<noteq> ''embedding''
          then h_stop (BadRequest (ErrOther (''item search index '' @ index @ '' must be an embedding item-to-item recommender'')))
          else if n \<le> 0 then h_return (CItems '''' [])
          else
          h_bind (h_call InternalServerError (rs_Embed srv query)) (\<lambda>embedding.
          if embedding = [] \<or> hd embedding = [] then h_stop (InternalServerError (ErrOther ''embedding response contains no embedding''))
          else
          h_bind (h_call InternalServerError (\<lambda>s. vdb_QueryVectors (rs_Vector srv) s (ItemToItemCollection index) (zero_vector\<lparr>vec_Values := hd embedding\<rparr>) [] n)) (\<lambda>results.
          h_bind (h_call InternalServerError (\<lambda>s. ddb_BatchGetItems (rs_Data srv) s (map vec_Id results) no_get_options)) (\<lambda>items.
          h_return (CItems '''' (concat (map (\<lambda>r. case items_by_id items (vec_Id r) of
              Some i \<Rightarrow> if \<not> item_IsHidden i then [i] else [] | None \<Rightarrow> []) results))))))) "

definition searchFullText :: "('s, 'w) rest_server \<Rightarrow> string \<Rightarrow> int \<Rightarrow> ('s, 'w, 'w content) handler" where
  "searchFullText srv query n =
     (if rs_SearchColumns srv = [] then h_stop (BadRequest (ErrOther ''item search is not supported because [recommend.search].columns is empty''))
      else h_bind (h_call InternalServerError (\<lambda>s. dst_SearchItems (rs_DataStore srv) s query n)) (\<lambda>scoredItems. h_return (CItems '''' (map si_Item scoredItems))))"

definition getItems :: "('s, 'w::zero) rest_server \<Rightarrow> request \<Rightarrow> 's \<Rightarrow> 'w response \<times> 's" where
  "getItems srv rq = h_run (
     h_bind (h_get BadRequest (ParseInt rq ''n'' (rs_DefaultN srv))) (\<lambda>n.
     let query = QueryParameter rq ''q''; index = QueryParameter rq ''index'' in
     if query \<noteq> '''' then (if index \<noteq> '''' then searchEmbedding srv query index n else searchFullText srv query n)
     else h_bind (h_call InternalServerError (\<lambda>s. dst_GetItems (rs_DataStore srv) s (QueryParameter rq ''cursor'') n None)) (\<lambda>(cursor, items).
       h_return (CItems cursor items))))"

subsection \<open>Feedback\<close>

definition getTypedFeedbackByItem :: "('s, 'w) rest_server \<Rightarrow> request \<Rightarrow> 's \<Rightarrow> 'w response \<times> 's" where
  "getTypedFeedbackByItem srv rq = h_run (
     h_bind (h_call InternalServerError (\<lambda>s. dst_GetItemFeedback (rs_DataStore srv) s (PathParameter rq ''item-id'') [PathParameter rq ''feedback-type''])) (\<lambda>fs.
     h_return (CFeedback fs)))"

definition getFeedbackByItem :: "('s, 'w) rest_server \<Rightarrow> request \<Rightarrow> 's \<Rightarrow> 'w response \<times> 's" where
  "getFeedbackByItem srv rq = h_run (
     h_bind (h_call InternalServerError (\<lambda>s. dst_GetItemFeedback (rs_DataStore srv) s (PathParameter rq ''item-id'') [])) (\<lambda>fs. h_return (CFeedback fs)))"

definition getTypedFeedbackByUser :: "(string \<Rightarrow> go_error + 'w::zero) \<Rightarrow> 'w env \<Rightarrow> ('s, 'w) rest_server \<Rightarrow> request \<Rightarrow> 's \<Rightarrow> 'w response \<times> 's" where
  "getTypedFeedbackByUser parse E srv rq = h_run (
     case FeedbackExpr_FromString parse \<lparr>fe_FeedbackType = '''', fe_ExprType = ExprNone, fe_Value = 0\<rparr> (PathParameter rq ''feedback-type'') of
       (Some e, f) \<Rightarrow> h_stop (BadRequest e)
     | (None, f) \<Rightarrow>
         h_bind (h_call InternalServerError (\<lambda>s. ddb_GetUserFeedback (rs_Data srv) s (PathParameter rq ''user-id'') (Some (config_Now E srv)) [f])) (\<lambda>fs.
         h_return (CFeedback fs)))"

definition getFeedbackByUser :: "'w env \<Rightarrow> ('s, 'w) rest_server \<Rightarrow> request \<Rightarrow> 's \<Rightarrow> 'w response \<times> 's" where
  "getFeedbackByUser E srv rq = h_run (
     h_bind (h_call InternalServerError (\<lambda>s. ddb_GetUserFeedback (rs_Data srv) s (PathParameter rq ''user-id'') (Some (config_Now E srv)) [])) (\<lambda>fs.
     h_return (CFeedback fs)))"

definition getFeedback :: "'w env \<Rightarrow> ('s, 'w) rest_server \<Rightarrow> request \<Rightarrow> 's \<Rightarrow> 'w response \<times> 's" where
  "getFeedback E srv rq = h_run (
     h_bind (h_get BadRequest (ParseInt rq ''n'' (rs_DefaultN srv))) (\<lambda>n.
     h_bind (h_call InternalServerError (\<lambda>s. dst_GetFeedback (rs_DataStore srv) s (QueryParameter rq ''cursor'') n None (Some (config_Now E srv)) [])) (\<lambda>(cursor, fs).
     h_return (CFeedbackPage cursor fs))))"

definition getTypedFeedback :: "'w env \<Rightarrow> ('s, 'w) rest_server \<Rightarrow> request \<Rightarrow> 's \<Rightarrow> 'w response \<times> 's" where
  "getTypedFeedback E srv rq = h_run (
     h_bind (h_get BadRequest (ParseInt rq ''n'' (rs_DefaultN srv))) (\<lambda>n.
     h_bind (h_call InternalServerError (\<lambda>s. dst_GetFeedback (rs_DataStore srv) s (QueryParameter rq ''cursor'') n None (Some (config_Now E srv))
       [PathParameter rq ''feedback-type''])) (\<lambda>(cursor, fs).
     h_return (CFeedbackPage cursor fs))))"

end
