(* ===== verification/Rest_Write.thy ===== *)
theory Rest_Write
  imports Rest_Core
begin

text \<open>
  The handlers of \<open>server/rest.go\<close> that change users, items and feedback, with their validation and quotas.
\<close>

subsection \<open>Quotas\<close>

definition checkLabelsSize :: "('s, 'w) rest_server \<Rightarrow> json \<Rightarrow> go_error option" where
  "checkLabelsSize srv labels =
     (let limit = rs_MaxLabelsSize srv in
      if limit \<le> 0 \<or> labels = JNull then None
      else if rs_JsonSize srv labels > limit then Some (ErrOther ''labels size exceeds limit'') else None)"

fun category_too_long :: "int \<Rightarrow> string list \<Rightarrow> go_error option" where
  "category_too_long sizeLimit [] = None"
| "category_too_long sizeLimit (c # cs) =
     (if int (length c) > sizeLimit then Some (ErrOther ''category size exceeds limit'') else category_too_long sizeLimit cs)"

definition checkCategoriesSize :: "('s, 'w) rest_server \<Rightarrow> string list \<Rightarrow> go_error option" where
  "checkCategoriesSize srv categories =
     (let countLimit = rs_MaxCategoriesCount srv; sizeLimit = rs_MaxCategoriesSize srv in
      if countLimit > 0 \<and> int (length categories) > countLimit then Some (ErrOther ''item categories count exceeds limit'')
      else if sizeLimit \<le> 0 then None
      else category_too_long sizeLimit categories)"

definition checkCommentSize :: "('s, 'w) rest_server \<Rightarrow> string \<Rightarrow> go_error option" where
  "checkCommentSize srv comment =
     (let limit = rs_MaxCommentSize srv in
      if limit > 0 \<and> int (length comment) > limit then Some (ErrOther ''comment size exceeds limit'') else None)"

definition checkItemSize :: "('s, 'w) rest_server \<Rightarrow> item \<Rightarrow> go_error option" where
  "checkItemSize srv i =
     (case checkLabelsSize srv (item_Labels i) of Some e \<Rightarrow> Some e
      | None \<Rightarrow> (case checkCommentSize srv (item_Comment i) of Some e \<Rightarrow> Some e
                 | None \<Rightarrow> checkCategoriesSize srv (item_Categories i)))"

definition checkUserSize :: "('s, 'w) rest_server \<Rightarrow> user \<Rightarrow> go_error option" where
  "checkUserSize srv u =
     (case checkLabelsSize srv (user_Labels u) of Some e \<Rightarrow> Some e | None \<Rightarrow> checkCommentSize srv (user_Comment u))"

text \<open>A failure to count is only logged.\<close>

definition checkUserCountLimit :: "('s, 'w) rest_server \<Rightarrow> string list \<Rightarrow> ('s, 'w, unit) handler" where
  "checkUserCountLimit srv userIds s =
     (let limit = rs_MaxUsersCount srv in
      if limit \<le> 0 then (Inr (), s)
      else case dst_CountUsers (rs_DataStore srv) s of
          (Inl e, s') \<Rightarrow> (Inr (), s')
        | (Inr totalUsers, s') \<Rightarrow>
            if totalUsers + int (length userIds) > limit
            then (Inl (TooManyRequests (ErrOther ''users count exceeds limit'')), s') else (Inr (), s'))"

definition checkItemCountLimit :: "('s, 'w) rest_server \<Rightarrow> string list \<Rightarrow> ('s, 'w, unit) handler" where
  "checkItemCountLimit srv itemIds s =
     (let limit = rs_MaxItemsCount srv in
      if limit \<le> 0 then (Inr (), s)
      else case dst_CountItems (rs_DataStore srv) s of
          (Inl e, s') \<Rightarrow> (Inr (), s')
        | (Inr totalItems, s') \<Rightarrow>
            if totalItems + int (length itemIds) > limit
            then (Inl (TooManyRequests (ErrOther ''items count exceeds limit'')), s') else (Inr (), s'))"

subsection \<open>Users\<close>

definition modified :: "'w env \<Rightarrow> string \<Rightarrow> string \<Rightarrow> kv_value" where
  "modified E key i = kv_Time (env_ShowTime E) (Key [key, i]) (env_Now E)"

definition insertUser :: "'w env \<Rightarrow> ('s, 'w) rest_server \<Rightarrow> go_error + user \<Rightarrow> 's \<Rightarrow> 'w response \<times> 's" where
  "insertUser E srv body = h_run (
     h_bind (h_get BadRequest body) (\<lambda>temp.
     h_bind (h_check BadRequest (ValidateLabels (user_Labels temp))) (\<lambda>_.
     h_bind (h_check TooManyRequests (checkUserSize srv temp)) (\<lambda>_.
     h_bind (checkUserCountLimit srv [user_UserId temp]) (\<lambda>_.
     h_bind (h_do InternalServerError (\<lambda>s. dst_BatchInsertUsers (rs_DataStore srv) s [temp])) (\<lambda>_.
     h_bind (h_do InternalServerError (\<lambda>s. cdb_Set (rs_Cache srv) s [modified E c_LastModifyUserTime (user_UserId temp)])) (\<lambda>_.
     h_return (CSuccess 1))))))))"

definition modifyUser :: "'w env \<Rightarrow> ('s, 'w) rest_server \<Rightarrow> request \<Rightarrow> go_error + user_patch \<Rightarrow> 's \<Rightarrow> 'w response \<times> 's" where
  "modifyUser E srv rq body = h_run (
     let userId = PathParameter rq ''user-id'' in
     h_bind (h_get BadRequest body) (\<lambda>patch.
     h_bind (h_check BadRequest (ValidateLabels (up_Labels patch))) (\<lambda>_.
     h_bind (h_check TooManyRequests (checkLabelsSize srv (up_Labels patch))) (\<lambda>_.
     h_bind (h_check TooManyRequests (case up_Comment patch of None \<Rightarrow> None | Some c \<Rightarrow> checkCommentSize srv c)) (\<lambda>_.
     h_bind (h_do InternalServerError (\<lambda>s. dst_ModifyUser (rs_DataStore srv) s userId patch)) (\<lambda>_.
     h_bind (h_do (\<lambda>e. Silent) (\<lambda>s. cdb_Set (rs_Cache srv) s [modified E c_LastModifyUserTime userId])) (\<lambda>_.
     h_return (CSuccess 1))))))))"

definition not_found :: "go_error \<Rightarrow> 'w response" where
  "not_found e = (if errors_Is e ErrNotFound then PageNotFound e else InternalServerError e)"

definition getUser :: "('s, 'w) rest_server \<Rightarrow> request \<Rightarrow> 's \<Rightarrow> 'w response \<times> 's" where
  "getUser srv rq = h_run (
     h_bind (h_call not_found (\<lambda>s. dst_GetUser (rs_DataStore srv) s (PathParameter rq ''user-id''))) (\<lambda>u. h_return (CUser u)))"

fun check_users :: "('s, 'w) rest_server \<Rightarrow> user list \<Rightarrow> ('s, 'w, unit) handler" where
  "check_users srv [] = h_return ()"
| "check_users srv (u # us) =
     h_bind (h_check BadRequest (ValidateLabels (user_Labels u))) (\<lambda>_.
     h_bind (h_check TooManyRequests (checkUserSize srv u)) (\<lambda>_. check_users srv us))"

definition insertUsers :: "'w env \<Rightarrow> ('s, 'w) rest_server \<Rightarrow> go_error + user list \<Rightarrow> 's \<Rightarrow> 'w response \<times> 's" where
  "insertUsers E srv body = h_run (
     h_bind (h_get BadRequest body) (\<lambda>temp.
     h_bind (check_users srv temp) (\<lambda>_.
     h_bind (checkUserCountLimit srv (map user_UserId temp)) (\<lambda>_.
     h_bind (h_do InternalServerError (\<lambda>s. dst_BatchInsertUsers (rs_DataStore srv) s temp)) (\<lambda>_.
     h_bind (h_do InternalServerError (\<lambda>s. cdb_Set (rs_Cache srv) s (map (\<lambda>u. modified E c_LastModifyUserTime (user_UserId u)) temp))) (\<lambda>_.
     h_return (CSuccess (int (length temp)))))))))"

definition getUsers :: "('s, 'w) rest_server \<Rightarrow> request \<Rightarrow> 's \<Rightarrow> 'w response \<times> 's" where
  "getUsers srv rq = h_run (
     h_bind (h_get BadRequest (ParseInt rq ''n'' (rs_DefaultN srv))) (\<lambda>n.
     h_bind (h_call InternalServerError (\<lambda>s. dst_GetUsers (rs_DataStore srv) s (QueryParameter rq ''cursor'') n)) (\<lambda>(cursor, users).
     h_return (CUsers cursor users))))"

definition deleteUser :: "('s, 'w) rest_server \<Rightarrow> request \<Rightarrow> 's \<Rightarrow> 'w response \<times> 's" where
  "deleteUser srv rq = h_run (
     h_bind (h_do InternalServerError (\<lambda>s. dst_DeleteUser (rs_DataStore srv) s (PathParameter rq ''user-id''))) (\<lambda>_.
     h_return (CSuccess 1)))"

subsection \<open>Items\<close>

text \<open>The item of a request: its timestamp is text.\<close>

record rest_item =
  ri_ItemId :: string
  ri_IsHidden :: bool
  ri_Categories :: "string list"
  ri_Timestamp :: string
  ri_Labels :: json
  ri_Comment :: string

definition parse_time :: "'w env \<Rightarrow> string \<Rightarrow> go_error + time" where
  "parse_time E t = (if t \<noteq> '''' then env_ParseAny E t else Inr 0)"

definition data_item :: "rest_item \<Rightarrow> time \<Rightarrow> item" where
  "data_item i t = \<lparr>item_ItemId = ri_ItemId i, item_IsHidden = ri_IsHidden i, item_Categories = ri_Categories i, item_Timestamp = t,
     item_UpdateAt = 0, item_Labels = ri_Labels i, item_Comment = ri_Comment i\<rparr>"

definition c_ItemCache :: "string list" where
  "c_ItemCache = [c_NonPersonalized, ''item-to-item'', c_Recommend]"

definition update_scores :: "('s, 'w) rest_server \<Rightarrow> string \<Rightarrow> 'w score_patch \<Rightarrow> ('s, 'w, unit) handler" where
  "update_scores srv itemId patch =
     h_do InternalServerError (\<lambda>s. cst_UpdateScores (rs_CacheStore srv) s c_ItemCache None itemId patch)"

fun prepare_items :: "'w env \<Rightarrow> ('s, 'w) rest_server \<Rightarrow> item list \<Rightarrow> rest_item list \<Rightarrow> ('s, 'w, item list) handler" where
  "prepare_items E srv items [] = h_return items"
| "prepare_items E srv items (i # temp) =
     h_bind (h_get BadRequest (parse_time E (ri_Timestamp i))) (\<lambda>t.
     h_bind (h_check TooManyRequests (checkItemSize srv (data_item i t))) (\<lambda>_.
     h_bind (update_scores srv (ri_ItemId i) \<lparr>sp_IsHidden = Some (ri_IsHidden i), sp_Categories = Some (withWildCard (ri_Categories i)), sp_Score = None\<rparr>) (\<lambda>_.
     prepare_items E srv (items @ [data_item i t]) temp)))"

text \<open>The map of existing items that the code builds is never read.\<close>

definition batchInsertItems :: "'w env \<Rightarrow> ('s, 'w) rest_server \<Rightarrow> rest_item list \<Rightarrow> ('s, 'w, 'w content) handler" where
  "batchInsertItems E srv temp =
     h_bind (h_call InternalServerError (\<lambda>s. ddb_BatchGetItems (rs_Data srv) s (map ri_ItemId temp) no_get_options)) (\<lambda>existedItems.
     h_bind (checkItemCountLimit srv (map ri_ItemId temp)) (\<lambda>_.
     h_bind (prepare_items E srv [] temp) (\<lambda>items.
     h_bind (h_do InternalServerError (\<lambda>s. dst_BatchInsertItems (rs_DataStore srv) s items)) (\<lambda>_.
     h_bind (h_do InternalServerError (\<lambda>s. cdb_Set (rs_Cache srv) s (map (\<lambda>i. modified E c_LastModifyItemTime (item_ItemId i)) items))) (\<lambda>_.
     h_return (CSuccess (int (length temp))))))))"

fun check_item_labels :: "rest_item list \<Rightarrow> go_error option" where
  "check_item_labels [] = None"
| "check_item_labels (i # temp) = (case ValidateLabels (ri_Labels i) of Some e \<Rightarrow> Some e | None \<Rightarrow> check_item_labels temp)"

definition insertItems :: "'w env \<Rightarrow> ('s, 'w) rest_server \<Rightarrow> go_error + rest_item list \<Rightarrow> 's \<Rightarrow> 'w response \<times> 's" where
  "insertItems E srv body = h_run (
     h_bind (h_get BadRequest body) (\<lambda>items.
     h_bind (h_check BadRequest (check_item_labels items)) (\<lambda>_. batchInsertItems E srv items)))"

definition insertItem :: "'w env \<Rightarrow> ('s, 'w) rest_server \<Rightarrow> go_error + rest_item \<Rightarrow> 's \<Rightarrow> 'w response \<times> 's" where
  "insertItem E srv body = h_run (
     h_bind (h_get BadRequest body) (\<lambda>i.
     h_bind (h_check BadRequest (ValidateLabels (ri_Labels i))) (\<lambda>_. batchInsertItems E srv [i])))"

text \<open>The cache is updated before the item is modified.\<close>

definition modifyItem :: "'w env \<Rightarrow> ('s, 'w) rest_server \<Rightarrow> request \<Rightarrow> go_error + item_patch \<Rightarrow> 's \<Rightarrow> 'w response \<times> 's" where
  "modifyItem E srv rq body = h_run (
     let itemId = PathParameter rq ''item-id'' in
     h_bind (h_get BadRequest body) (\<lambda>patch.
     h_bind (h_check BadRequest (ValidateLabels (ip_Labels patch))) (\<lambda>_.
     h_bind (h_check TooManyRequests (checkLabelsSize srv (ip_Labels patch))) (\<lambda>_.
     h_bind (h_check TooManyRequests (case ip_Comment patch of None \<Rightarrow> None | Some c \<Rightarrow> checkCommentSize srv c)) (\<lambda>_.
     h_bind (h_check TooManyRequests (case ip_Categories patch of None \<Rightarrow> None | Some cs \<Rightarrow> checkCategoriesSize srv cs)) (\<lambda>_.
     h_bind (case ip_IsHidden patch of None \<Rightarrow> h_return () | Some h \<Rightarrow>
       update_scores srv itemId \<lparr>sp_IsHidden = Some h, sp_Categories = None, sp_Score = None\<rparr>) (\<lambda>_.
     h_bind (case ip_Categories patch of None \<Rightarrow> h_return () | Some cs \<Rightarrow>
       update_scores srv itemId \<lparr>sp_IsHidden = None, sp_Categories = Some (withWildCard cs), sp_Score = None\<rparr>) (\<lambda>_.
     h_bind (h_do InternalServerError (\<lambda>s. dst_ModifyItem (rs_DataStore srv) s itemId patch)) (\<lambda>_.
     h_bind (h_do (\<lambda>e. Silent) (\<lambda>s. cdb_Set (rs_Cache srv) s [modified E c_LastModifyItemTime itemId])) (\<lambda>_.
     h_return (CSuccess 1)))))))))))"

definition getItem :: "('s, 'w) rest_server \<Rightarrow> request \<Rightarrow> 's \<Rightarrow> 'w response \<times> 's" where
  "getItem srv rq = h_run (
     h_bind (h_call not_found (\<lambda>s. dst_GetItem (rs_DataStore srv) s (PathParameter rq ''item-id''))) (\<lambda>i. h_return (CItem i)))"

definition deleteItem :: "('s, 'w) rest_server \<Rightarrow> request \<Rightarrow> 's \<Rightarrow> 'w response \<times> 's" where
  "deleteItem srv rq = h_run (
     let itemId = PathParameter rq ''item-id'' in
     h_bind (h_do InternalServerError (\<lambda>s. dst_DeleteItem (rs_DataStore srv) s itemId)) (\<lambda>_.
     h_bind (h_do InternalServerError (\<lambda>s. cdb_DeleteScores (rs_Cache srv) s c_ItemCache \<lparr>sc_Subset = None, sc_Id = Some itemId, sc_Before = None\<rparr>)) (\<lambda>_.
     h_return (CSuccess 1))))"

definition insertItemCategory :: "('s, 'w) rest_server \<Rightarrow> request \<Rightarrow> 's \<Rightarrow> 'w response \<times> 's" where
  "insertItemCategory srv rq = h_run (
     let itemId = PathParameter rq ''item-id''; category = PathParameter rq ''category'' in
     h_bind (h_call InternalServerError (\<lambda>s. dst_GetItem (rs_DataStore srv) s itemId)) (\<lambda>old.
     let i = (if category \<in> set (item_Categories old) then old else old\<lparr>item_Categories := item_Categories old @ [category]\<rparr>) in
     h_bind (h_check TooManyRequests (checkItemSize srv i)) (\<lambda>_.
     h_bind (h_do InternalServerError (\<lambda>s. dst_BatchInsertItems (rs_DataStore srv) s [i])) (\<lambda>_.
     h_bind (update_scores srv itemId \<lparr>sp_IsHidden = None, sp_Categories = Some (withWildCard (item_Categories i)), sp_Score = None\<rparr>) (\<lambda>_.
     h_return (CSuccess 1))))))"

definition deleteItemCategory :: "('s, 'w) rest_server \<Rightarrow> request \<Rightarrow> 's \<Rightarrow> 'w response \<times> 's" where
  "deleteItemCategory srv rq = h_run (
     let itemId = PathParameter rq ''item-id''; category = PathParameter rq ''category'' in
     h_bind (h_call InternalServerError (\<lambda>s. dst_GetItem (rs_DataStore srv) s itemId)) (\<lambda>old.
     let i = old\<lparr>item_Categories := filter (\<lambda>c. c \<noteq> category) (item_Categories old)\<rparr> in
     h_bind (update_scores srv itemId \<lparr>sp_IsHidden = None, sp_Categories = Some (withWildCard (item_Categories i)), sp_Score = None\<rparr>) (\<lambda>_.
     h_bind (h_do InternalServerError (\<lambda>s. dst_BatchInsertItems (rs_DataStore srv) s [i])) (\<lambda>_.
     h_return (CSuccess 1)))))"

subsection \<open>Feedback\<close>

record 'w rest_feedback =
  rf_FeedbackType :: string
  rf_UserId :: string
  rf_ItemId :: string
  rf_Value :: 'w
  rf_Timestamp :: string
  rf_Labels :: json
  rf_Comment :: string

definition ToDataFeedback :: "'w env \<Rightarrow> 'w rest_feedback \<Rightarrow> go_error + 'w feedback" where
  "ToDataFeedback E f =
     (case parse_time E (rf_Timestamp f) of
        Inl e \<Rightarrow> Inl e
      | Inr t \<Rightarrow> Inr \<lparr>fb_FeedbackType = rf_FeedbackType f, fb_UserId = rf_UserId f, fb_ItemId = rf_ItemId f, fb_Value = rf_Value f,
          fb_Timestamp = t, fb_Updated = 0, fb_Labels = rf_Labels f, fb_Comment = rf_Comment f\<rparr>)"

fun convert_feedback :: "'w env \<Rightarrow> ('s, 'w) rest_server \<Rightarrow> 'w rest_feedback list \<Rightarrow> ('s, 'w, 'w feedback list) handler" where
  "convert_feedback E srv [] = h_return []"
| "convert_feedback E srv (f # fs) =
     h_bind (h_get BadRequest (ToDataFeedback E f)) (\<lambda>d.
     h_bind (h_check BadRequest (ValidateLabels (fb_Labels d))) (\<lambda>_.
     h_bind (h_check TooManyRequests (checkLabelsSize srv (fb_Labels d))) (\<lambda>_.
     h_bind (h_check TooManyRequests (checkCommentSize srv (fb_Comment d))) (\<lambda>_.
     h_bind (convert_feedback E srv fs) (\<lambda>ds. h_return (d # ds))))))"

text \<open>The sets of users and items are listed in the order of \<open>env_Iter\<close>.\<close>

definition insertFeedback :: "'w env \<Rightarrow> ('s, 'w) rest_server \<Rightarrow> bool \<Rightarrow> go_error + 'w rest_feedback list \<Rightarrow> 's \<Rightarrow> 'w response \<times> 's" where
  "insertFeedback E srv overwrite body = h_run (
     h_bind (h_get BadRequest body) (\<lambda>feedbackLiterTime.
     h_bind (convert_feedback E srv feedbackLiterTime) (\<lambda>feedback.
     let users = env_Iter E (remdups (map rf_UserId feedbackLiterTime)); items = env_Iter E (remdups (map rf_ItemId feedbackLiterTime)) in
     h_bind (if rs_AutoInsertUser srv then checkUserCountLimit srv users else h_return ()) (\<lambda>_.
     h_bind (if rs_AutoInsertItem srv then checkItemCountLimit srv items else h_return ()) (\<lambda>_.
     h_bind (h_do InternalServerError (\<lambda>s. dst_BatchInsertFeedback (rs_DataStore srv) s feedback (rs_AutoInsertUser srv) (rs_AutoInsertItem srv) overwrite)) (\<lambda>_.
     h_bind (h_do InternalServerError (\<lambda>s. cdb_Set (rs_Cache srv) s
       (map (modified E c_LastModifyUserTime) users @ map (modified E c_LastModifyItemTime) items))) (\<lambda>_.
     h_return (CSuccess (int (length feedback))))))))))"


definition getUserItemFeedback :: "('s, 'w) rest_server \<Rightarrow> request \<Rightarrow> 's \<Rightarrow> 'w response \<times> 's" where
  "getUserItemFeedback srv rq = h_run (
     h_bind (h_call InternalServerError (\<lambda>s. dst_GetUserItemFeedback (rs_DataStore srv) s (PathParameter rq ''user-id'') (PathParameter rq ''item-id'') [])) (\<lambda>fs.
     h_return (CFeedback fs)))"

definition deleteUserItemFeedback :: "('s, 'w) rest_server \<Rightarrow> request \<Rightarrow> 's \<Rightarrow> 'w response \<times> 's" where
  "deleteUserItemFeedback srv rq = h_run (
     h_bind (h_call InternalServerError (\<lambda>s. dst_DeleteUserItemFeedback (rs_DataStore srv) s (PathParameter rq ''user-id'') (PathParameter rq ''item-id'') [])) (\<lambda>n.
     h_return (CSuccess n)))"

definition getTypedUserItemFeedback :: "('s, 'w) rest_server \<Rightarrow> request \<Rightarrow> 's \<Rightarrow> 'w response \<times> 's" where
  "getTypedUserItemFeedback srv rq = h_run (
     h_bind (h_call InternalServerError (\<lambda>s. dst_GetUserItemFeedback (rs_DataStore srv) s (PathParameter rq ''user-id'') (PathParameter rq ''item-id'')
       [PathParameter rq ''feedback-type''])) (\<lambda>fs.
     case fs of [] \<Rightarrow> h_stop (Text ''{}'') | f # _ \<Rightarrow> h_return (COneFeedback f)))"

definition deleteTypedUserItemFeedback :: "('s, 'w) rest_server \<Rightarrow> request \<Rightarrow> 's \<Rightarrow> 'w response \<times> 's" where
  "deleteTypedUserItemFeedback srv rq = h_run (
     h_bind (h_call InternalServerError (\<lambda>s. dst_DeleteUserItemFeedback (rs_DataStore srv) s (PathParameter rq ''user-id'') (PathParameter rq ''item-id'')
       [PathParameter rq ''feedback-type''])) (\<lambda>n.
     h_return (CSuccess n)))"

end
