(* ===== verification/Rest_Props.thy ===== *)
theory Rest_Props
  imports Rest_Read Rest_Write
begin

text \<open>
  Properties of the REST handlers: what a recommendation request may answer, what a rejected or accepted insertion has
  done to the stores, and that adding a category and deleting it again is neutral.
\<close>

subsection \<open>Recommendations\<close>

text \<open>A computation that only stops with errors.\<close>

definition never_ok :: "('s, 'w, 'a) handler \<Rightarrow> bool" where
  "never_ok m \<longleftrightarrow> (\<forall>s c s'. m s \<noteq> (Inl (Ok c), s'))"

lemma never_ok_bind: "never_ok m \<Longrightarrow> (\<And>x. never_ok (f x)) \<Longrightarrow> never_ok (h_bind m f)"
  by (auto simp: never_ok_def h_Inl)

lemma never_ok_basic:
  "never_ok (h_return x)" "never_ok (h_get BadRequest g)" "never_ok (h_check BadRequest e)" "never_ok (h_check TooManyRequests e)"
  "never_ok (h_call InternalServerError c)" "never_ok (h_do InternalServerError d)" "never_ok (h_io InternalServerError i)" "never_ok (h_panic p)"
  by (auto simp: never_ok_def h_Inl h_io_def h_panic_def split: prod.splits sum.splits failure.splits)

lemma never_ok_write_back: "never_ok (write_back srv u ty t is)"
  by (induction "is") (auto intro!: never_ok_bind never_ok_basic)

lemma h_run_never_ok: "never_ok m \<Longrightarrow> h_run m s = (Ok c, s') \<Longrightarrow> m s = (Inr c, s')"
  using h_run_Ok [of m s c s'] unfolding never_ok_def by blast

definition content_ids :: "'w content \<Rightarrow> string list" where
  "content_ids c = (case c of CIds is \<Rightarrow> is | CScores xs \<Rightarrow> map score_Id xs | _ \<Rightarrow> [])"

text \<open>The stages of a request that is answered.\<close>

lemma getRecommend_stages:
  assumes "getRecommend E srv rq s = (Ok c, s')"
  obtains n offset r s1 found r' s2 s3 page where
    "ParseInt rq ''n'' (rs_DefaultN srv) = Inr n" "ParseInt rq ''offset'' 0 = Inr offset"
    "NewRecommender E (rs_Recommend srv) (rs_Cache srv) (rs_Data srv) (rs_Vector srv) (rs_Pull srv) True (PathParameter rq ''user-id'') (ReadCategories rq []) s = (Inr r, s1)"
    "Recommend E r (add64 n offset) s1 = (Inr (found, r'), s2)" "page_from offset found = Inr page" "content_ids c = map score_Id page"
proof -
  from assms obtain m where m: "h_run m s = (Ok c, s')" "never_ok m"
    "m = h_bind (h_get BadRequest (ParseInt rq ''n'' (rs_DefaultN srv))) (\<lambda>n.
     h_bind (h_get BadRequest (ParseInt rq ''offset'' 0)) (\<lambda>offset.
     h_bind (h_get BadRequest (ParseDuration (rs_ParseDuration srv) rq ''write-back-delay'')) (\<lambda>writeBackDelay.
     h_bind (h_io InternalServerError (NewRecommender E (rs_Recommend srv) (rs_Cache srv) (rs_Data srv) (rs_Vector srv) (rs_Pull srv) True
       (PathParameter rq ''user-id'') (ReadCategories rq []))) (\<lambda>recommender.
     h_bind (h_io InternalServerError (Recommend E recommender (add64 n offset))) (\<lambda>(found, _).
     h_bind (h_panic (page_from offset found)) (\<lambda>scores.
     h_bind (if QueryParameter rq ''write-back-type'' \<noteq> '''' then write_back srv (PathParameter rq ''user-id'') (QueryParameter rq ''write-back-type'')
       (env_Now E + writeBackDelay) (map score_Id scores) else h_return ()) (\<lambda>_.
     h_return (if TrimSpace (rq_header rq ''X-API-Version'') = ''2'' then CScores scores else CIds (map score_Id scores)))))))))"
    unfolding getRecommend_def Let_def
    by (atomize_elim, intro exI conjI, assumption)
      (auto intro!: never_ok_bind never_ok_basic never_ok_write_back split: prod.splits)
  from h_run_never_ok [OF m(2,1)] show ?thesis
    unfolding m(3) by (auto simp: h_Inr content_ids_def intro: that split: if_splits)
qed

lemma page_from_Inr: "page_from offset xs = Inr page \<Longrightarrow> 0 \<le> offset \<and> page = drop (nat offset) xs"
  by (auto simp: page_from_def slice_from_def split: if_splits)

text \<open>(C3) What a recommendation request answers: only ids that the recommender found, never an item with negative feedback of
  the user, none with any feedback when replacement is off, and at most \<open>n\<close> of them whenever \<open>n + offset\<close> is positive
  and does not overflow.
  A request with a negative offset is never answered: the slice expression panics.\<close>

theorem getRecommend_answer:
  assumes E: "env_ok E" and run: "getRecommend E srv rq s = (Ok c, s')"
  shows "\<exists>n offset fs s1. ParseInt rq ''n'' (rs_DefaultN srv) = Inr n \<and> ParseInt rq ''offset'' 0 = Inr offset \<and> 0 \<le> offset \<and>
    ddb_GetUserFeedback (rs_Data srv) s (PathParameter rq ''user-id'') (Some (env_Now E)) [] = (Inr fs, s1) \<and>
    (0 < n + offset \<longrightarrow> n + offset < 2 ^ 63 \<longrightarrow> int (length (content_ids c)) \<le> max 0 n) \<and>
    (\<forall>f \<in> set fs. fb_ItemId f \<in> set (content_ids c) \<longrightarrow>
       \<not> MatchFeedbackTypeExpressions (ds_NegativeFeedbackTypes (DataSource (rs_Recommend srv))) (fb_FeedbackType f) (fb_Value f) \<and>
       rp_EnableReplacement (Replacement (rs_Recommend srv)))"
proof -
  obtain n offset r s1 found r' s2 s3 page where n: "ParseInt rq ''n'' (rs_DefaultN srv) = Inr n" "ParseInt rq ''offset'' 0 = Inr offset"
    and new: "NewRecommender E (rs_Recommend srv) (rs_Cache srv) (rs_Data srv) (rs_Vector srv) (rs_Pull srv) True (PathParameter rq ''user-id'') (ReadCategories rq []) s = (Inr r, s1)"
    and rec: "Recommend E r (add64 n offset) s1 = (Inr (found, r'), s2)" and page: "page_from offset found = Inr page" "content_ids c = map score_Id page"
    by (rule getRecommend_stages [OF run])
  note off = page_from_Inr [OF page(1)]
  note inv = Recommend_inv [OF E rec] and excl = NewRecommender_excludes [OF new]
  have sub: "set (content_ids c) \<subseteq> set (score_ids found)" unfolding page(2) using off set_drop_subset [of "nat offset" found] by auto
  have apart: "set (content_ids c) \<inter> ruled_out (rs_Recommend srv) True (r_userFeedback r) = {}"
    using inv excl sub unfolding run_inv_def by auto
  have allowed: "\<not> MatchFeedbackTypeExpressions (ds_NegativeFeedbackTypes (DataSource (rs_Recommend srv))) (fb_FeedbackType f) (fb_Value f) \<and>
       rp_EnableReplacement (Replacement (rs_Recommend srv))"
    if f: "f \<in> set (r_userFeedback r)" "fb_ItemId f \<in> set (content_ids c)" for f
  proof (rule ccontr)
    assume "\<not> ?thesis"
    then have "fb_ItemId f \<in> ruled_out (rs_Recommend srv) True (r_userFeedback r)" unfolding ruled_out_def using f(1) by blast
    then show False using apart f(2) by blast
  qed
  have "int (length (content_ids c)) \<le> max 0 n" if "0 < n + offset" "n + offset < 2 ^ 63"
    using inv that off add64_exact [of n offset] unfolding page(2) by (auto simp: max_def of_nat_diff)
  then show ?thesis using n off excl allowed by blast
qed

text \<open>A data store without users, items and feedback, and a server over the stores of the recommender's example.\<close>

definition quiet_store :: "('s, int) data_store" where
  "quiet_store =
     \<lparr>dst_Ping = (\<lambda>s. (None, s)), dst_CountUsers = (\<lambda>s. (Inr 0, s)), dst_CountItems = (\<lambda>s. (Inr 0, s)),
        dst_BatchInsertItems = (\<lambda>s xs. (None, s)), dst_DeleteItem = (\<lambda>s i. (None, s)), dst_GetItem = (\<lambda>s i. (Inl ErrNotFound, s)),
        dst_ModifyItem = (\<lambda>s i p. (None, s)), dst_GetItems = (\<lambda>s c n t. (Inr ('''', []), s)), dst_SearchItems = (\<lambda>s q n. (Inr [], s)),
        dst_GetItemFeedback = (\<lambda>s i ts. (Inr [], s)), dst_BatchInsertUsers = (\<lambda>s us. (None, s)), dst_DeleteUser = (\<lambda>s u. (None, s)),
        dst_GetUser = (\<lambda>s u. (Inl ErrNotFound, s)), dst_ModifyUser = (\<lambda>s u p. (None, s)), dst_GetUsers = (\<lambda>s c n. (Inr ('''', []), s)),
        dst_GetUserItemFeedback = (\<lambda>s u i ts. (Inr [], s)), dst_DeleteUserItemFeedback = (\<lambda>s u i ts. (Inr 0, s)),
        dst_BatchInsertFeedback = (\<lambda>s fs a b o'. (None, s)), dst_GetFeedback = (\<lambda>s c n b e ts. (Inr ('''', []), s))\<rparr>"

definition example_server :: "(unit, int) rest_server" where
  "example_server =
     \<lparr>rs_Recommend = example_config, rs_DefaultN = 10, rs_APIKey = '''', rs_ClockError = 0, rs_AutoInsertUser = True, rs_AutoInsertItem = True,
      rs_MaxUsersCount = 0, rs_MaxItemsCount = 0, rs_MaxLabelsSize = 0, rs_MaxCommentSize = 0, rs_MaxCategoriesCount = 0,
      rs_MaxCategoriesSize = 0, rs_SearchColumns = [], rs_Data = example_data,
      rs_DataStore = quiet_store,
      rs_Cache = example_cache,
      rs_CacheStore = \<lparr>cst_Ping = (\<lambda>s. (None, s)), cst_UpdateScores = (\<lambda>s cs sub i p. (None, s))\<rparr>,
      rs_Vector = fixed_db [] [], rs_Pull = (\<lambda>c u s. (Inr [], s)), rs_Embed = (\<lambda>q s. (Inr [], s)), rs_JsonSize = (\<lambda>j. 0),
      rs_ParseDuration = (\<lambda>v. Inr 0)\<rparr>"

definition example_request :: "string \<Rightarrow> string \<Rightarrow> request" where
  "example_request n offset = \<lparr>rq_path = (\<lambda>k. if k = ''user-id'' then ''u'' else ''''),
     rq_query = (\<lambda>k. if k = ''n'' then [n] else if k = ''offset'' then [offset] else []), rq_header = (\<lambda>k. '''')\<rparr>"

lemma example_answers:
  "getRecommend (plain_env 0 (\<lambda>t. t)) example_server (example_request ''1'' ''1'') () = (Ok (CIds [''c'']), ())"
  "getRecommend (plain_env 0 (\<lambda>t. t)) example_server (example_request ''1'' ''-1'') () = (Crashed IndexOutOfRange, ())"
  by code_simp+

theorem getRecommend_answer_witness:
  "\<exists>c. getRecommend (plain_env 0 (\<lambda>t. t)) example_server (example_request ''1'' ''1'') () = (Ok c, ()) \<and> content_ids c \<noteq> [] \<and>
     ''a'' \<notin> set (content_ids c) \<and> length (content_ids c) \<le> 1"
proof -
  let ?c = "CIds [''c''] :: int content"
  obtain n offset fs s1 where n: "ParseInt (example_request ''1'' ''1'') ''n'' (rs_DefaultN example_server) = Inr n"
    "ParseInt (example_request ''1'' ''1'') ''offset'' 0 = Inr offset" "0 \<le> offset"
    and fs: "ddb_GetUserFeedback (rs_Data example_server) () (PathParameter (example_request ''1'' ''1'') ''user-id'') (Some (env_Now (plain_env 0 (\<lambda>t. t) :: int env))) [] = (Inr fs, s1)"
    and len: "0 < n + offset \<longrightarrow> n + offset < 2 ^ 63 \<longrightarrow> int (length (content_ids ?c)) \<le> max 0 n"
    and all: "\<forall>f \<in> set fs. fb_ItemId f \<in> set (content_ids ?c) \<longrightarrow> rp_EnableReplacement (Replacement (rs_Recommend example_server))"
    using getRecommend_answer [OF plain_env_ok example_answers(1)] by blast
  have "ParseInt (example_request ''1'' ''1'') ''n'' (rs_DefaultN example_server) = Inr 1" by code_simp
  then have "n = 1" using n(1) by simp
  have "ParseInt (example_request ''1'' ''1'') ''offset'' 0 = Inr 1" by code_simp
  then have "offset = 1" using n(2) by simp
  with \<open>n = 1\<close> have "length (content_ids ?c) \<le> 1" using len n(3) by simp
  moreover have "fs = [example_feedback ''a'']" using fs by (simp add: example_server_def example_data_def)
  then have "''a'' \<notin> set (content_ids ?c)" using all by (simp add: example_feedback_def example_server_def example_config_def)
  moreover have "content_ids ?c \<noteq> []" by (simp add: content_ids_def)
  ultimately show ?thesis using example_answers(1) by blast
qed

subsection \<open>Insertions\<close>

text \<open>What the server asks of the users of a request, the counting of its quota, and when the quota refuses them.\<close>

definition acceptable_users :: "('s, 'w) rest_server \<Rightarrow> user list \<Rightarrow> bool" where
  "acceptable_users srv us = list_all (\<lambda>u. ValidateLabels (user_Labels u) = None \<and> checkUserSize srv u = None) us"

definition after_count :: "('s, 'w) rest_server \<Rightarrow> 's \<Rightarrow> 's" where
  "after_count srv s = (if rs_MaxUsersCount srv \<le> 0 then s else snd (dst_CountUsers (rs_DataStore srv) s))"

definition over_quota :: "('s, 'w) rest_server \<Rightarrow> nat \<Rightarrow> 's \<Rightarrow> bool" where
  "over_quota srv n s =
     (rs_MaxUsersCount srv > 0 \<and> (case fst (dst_CountUsers (rs_DataStore srv) s) of Inl e \<Rightarrow> False | Inr k \<Rightarrow> k + int n > rs_MaxUsersCount srv))"

lemma check_users_Inr: "check_users srv us s = (Inr u, s') \<longleftrightarrow> s' = s \<and> acceptable_users srv us"
  by (induction us) (auto simp: h_Inr acceptable_users_def)

lemma check_users_Inl:
  "check_users srv us s = (Inl r, s') \<Longrightarrow> s' = s \<and>
     ((\<exists>u e. u \<in> set us \<and> r = BadRequest e \<and> ValidateLabels (user_Labels u) = Some e) \<or>
      (\<exists>u e. u \<in> set us \<and> r = TooManyRequests e \<and> checkUserSize srv u = Some e))"
proof (induction us)
  case (Cons u us)
  from Cons.prems consider e where "ValidateLabels (user_Labels u) = Some e" "r = BadRequest e" "s' = s"
    | e where "checkUserSize srv u = Some e" "r = TooManyRequests e" "s' = s"
    | "check_users srv us s = (Inl r, s')"
    by (auto simp: h_Inl h_Inr)
  then show ?case using Cons.IH by cases auto
qed (simp add: h_Inl)

lemma checkUserCountLimit_Inr:
  "checkUserCountLimit srv is s = (Inr u, s') \<longleftrightarrow> s' = after_count srv s \<and> \<not> over_quota srv (length is) s"
  by (auto simp: checkUserCountLimit_def after_count_def over_quota_def Let_def split: prod.splits sum.splits)

lemma checkUserCountLimit_Inl:
  "checkUserCountLimit srv is s = (Inl r, s') \<longleftrightarrow> s' = after_count srv s \<and> over_quota srv (length is) s \<and>
     r = TooManyRequests (ErrOther ''users count exceeds limit'')"
  by (auto simp: checkUserCountLimit_def after_count_def over_quota_def Let_def split: prod.splits sum.splits)

lemma h_run_cases: "h_run m s = (r, s') \<longleftrightarrow> m s = (Inl r, s') \<or> (\<exists>c. r = Ok c \<and> m s = (Inr c, s'))"
  by (auto simp: h_run_def split: prod.splits sum.splits)

text \<open>(C12) The outcome of an insertion of users.  It is accepted only when every user has valid labels and sizes and the
  quota admits them, and then all users were inserted at once and afterwards their modification times set; a bad
  request has touched nothing, a refused quota has only counted the users, and any other answer is the failure of one of the two stores.\<close>

theorem insertUsers_outcome:
  "case insertUsers E srv (Inr us) s of
     (Ok c, s') \<Rightarrow> c = CSuccess (int (length us)) \<and> acceptable_users srv us \<and> \<not> over_quota srv (length us) s \<and>
       (\<exists>s2. dst_BatchInsertUsers (rs_DataStore srv) (after_count srv s) us = (None, s2) \<and>
         cdb_Set (rs_Cache srv) s2 (map (\<lambda>u. modified E c_LastModifyUserTime (user_UserId u)) us) = (None, s'))
   | (BadRequest e, s') \<Rightarrow> s' = s \<and> (\<exists>u \<in> set us. ValidateLabels (user_Labels u) = Some e)
   | (TooManyRequests e, s') \<Rightarrow> s' = s \<and> (\<exists>u \<in> set us. checkUserSize srv u = Some e) \<or> s' = after_count srv s \<and> over_quota srv (length us) s
   | (InternalServerError e, s') \<Rightarrow> acceptable_users srv us \<and>
       (dst_BatchInsertUsers (rs_DataStore srv) (after_count srv s) us = (Some e, s') \<or>
        (\<exists>s2. dst_BatchInsertUsers (rs_DataStore srv) (after_count srv s) us = (None, s2) \<and>
          cdb_Set (rs_Cache srv) s2 (map (\<lambda>u. modified E c_LastModifyUserTime (user_UserId u)) us) = (Some e, s')))
   | _ \<Rightarrow> False"
proof (cases "insertUsers E srv (Inr us) s")
  case (Pair r s')
  from Pair have "insertUsers E srv (Inr us) s = (r, s')" .
  then consider (rejected) "check_users srv us s = (Inl r, s')"
    | (quota) "checkUserCountLimit srv (map user_UserId us) s = (Inl r, s')"
    | (rest) "acceptable_users srv us" "\<not> over_quota srv (length us) s"
        "h_run (h_bind (h_do InternalServerError (\<lambda>s. dst_BatchInsertUsers (rs_DataStore srv) s us)) (\<lambda>_.
           h_bind (h_do InternalServerError (\<lambda>s. cdb_Set (rs_Cache srv) s (map (\<lambda>u. modified E c_LastModifyUserTime (user_UserId u)) us))) (\<lambda>_.
           h_return (CSuccess (int (length us)))))) (after_count srv s) = (r, s')"
    unfolding insertUsers_def h_run_cases by (auto simp: h_Inl h_Inr check_users_Inr checkUserCountLimit_Inr)
  then show ?thesis
  proof cases
    case rejected
    then show ?thesis unfolding Pair using check_users_Inl [OF rejected] by auto
  next
    case quota
    then show ?thesis unfolding Pair by (auto simp: checkUserCountLimit_Inl)
  next
    case rest
    then show ?thesis unfolding Pair h_run_cases by (auto simp: h_Inl h_Inr)
  qed
qed

text \<open>The score updates that the cache receives for an item of a request, as the state after them.\<close>

definition scores_updated :: "('s, 'w) rest_server \<Rightarrow> rest_item \<Rightarrow> 's \<Rightarrow> 's" where
  "scores_updated srv i s = snd (cst_UpdateScores (rs_CacheStore srv) s c_ItemCache None (ri_ItemId i)
     \<lparr>sp_IsHidden = Some (ri_IsHidden i), sp_Categories = Some (withWildCard (ri_Categories i)), sp_Score = None\<rparr>)"

definition after_item_count :: "('s, 'w) rest_server \<Rightarrow> 's \<Rightarrow> 's" where
  "after_item_count srv s = (if rs_MaxItemsCount srv \<le> 0 then s else snd (dst_CountItems (rs_DataStore srv) s))"

lemma checkItemCountLimit_state:
  "checkItemCountLimit srv is s = (r, s') \<Longrightarrow> s' = after_item_count srv s"
  by (auto simp: checkItemCountLimit_def after_item_count_def Let_def split: prod.splits sum.splits if_splits)

lemma checkItemCountLimit_Inl: "checkItemCountLimit srv is s = (Inl r, s') \<Longrightarrow> r = TooManyRequests (ErrOther ''items count exceeds limit'')"
  by (auto simp: checkItemCountLimit_def Let_def split: prod.splits sum.splits if_splits)

lemma update_scores_Inr: "update_scores srv (ri_ItemId i) \<lparr>sp_IsHidden = Some (ri_IsHidden i), sp_Categories = Some (withWildCard (ri_Categories i)), sp_Score = None\<rparr> s = (Inr u, s') \<Longrightarrow> s' = scores_updated srv i s"
  by (simp add: update_scores_def h_Inr scores_updated_def)

lemma prepare_items_BadRequest:
  "prepare_items E srv acc items s = (Inl (BadRequest e), s') \<Longrightarrow>
     \<exists>before i rest. items = before @ i # rest \<and> parse_time E (ri_Timestamp i) = Inl e \<and> s' = fold (scores_updated srv) before s"
proof (induction items arbitrary: acc s)
  case (Cons i items)
  from Cons.prems consider (bad) "parse_time E (ri_Timestamp i) = Inl e" "s' = s"
    | (later) t s1 where "s1 = scores_updated srv i s" "prepare_items E srv (acc @ [data_item i t]) items s1 = (Inl (BadRequest e), s')"
    by (auto simp: h_Inl h_Inr update_scores_def scores_updated_def)
  then show ?case
  proof cases
    case bad
    then show ?thesis by (intro exI [of _ "[]"]) auto
  next
    case later
    then obtain before j rest where "items = before @ j # rest" "parse_time E (ri_Timestamp j) = Inl e" "s' = fold (scores_updated srv) before s1"
      using Cons.IH by blast
    then show ?thesis using later(1) by (intro exI [of _ "i # before"]) auto
  qed
qed (simp add: h_Inl)

lemma check_item_labels_Some: "check_item_labels items = Some e \<Longrightarrow> \<exists>i \<in> set items. ValidateLabels (ri_Labels i) = Some e"
  by (induction items) (auto split: option.splits)

text \<open>(C25) A bad request to insert items is not without effect: unless its labels were refused, it is an unreadable
  timestamp, and by then the cached scores of all the items before it have been given the new visibility and categories,
  although no item has been stored.\<close>

theorem insertItems_rejected:
  assumes "insertItems E srv (Inr items) s = (BadRequest e, s')"
  shows "s' = s \<and> (\<exists>i \<in> set items. ValidateLabels (ri_Labels i) = Some e) \<or>
    (\<exists>before i rest. items = before @ i # rest \<and> parse_time E (ri_Timestamp i) = Inl e \<and>
       s' = fold (scores_updated srv) before (after_item_count srv (snd (ddb_BatchGetItems (rs_Data srv) s (map ri_ItemId items) no_get_options))))"
proof -
  from assms consider (labels) "check_item_labels items = Some e" "s' = s"
    | (quota) s1 where "checkItemCountLimit srv (map ri_ItemId items) s1 = (Inl (BadRequest e), s')"
    | (items) s1 found s2 u where "ddb_BatchGetItems (rs_Data srv) s (map ri_ItemId items) no_get_options = (Inr found, s1)"
        "checkItemCountLimit srv (map ri_ItemId items) s1 = (Inr u, s2)" "prepare_items E srv [] items s2 = (Inl (BadRequest e), s')"
    unfolding insertItems_def batchInsertItems_def h_run_cases by (auto simp: h_Inl h_Inr)
  then show ?thesis
  proof cases
    case labels
    then show ?thesis using check_item_labels_Some by blast
  next
    case quota
    then show ?thesis using checkItemCountLimit_Inl by fastforce
  next
    case items
    then show ?thesis using checkItemCountLimit_state [OF items(2)] prepare_items_BadRequest [OF items(3)] by auto
  qed
qed

text \<open>A server over stores that record the calls that write.\<close>

datatype write_op = WScores string "int score_patch" | WItems "item list"

definition log_store :: "(item \<times> write_op list, int) data_store" where
  "log_store = quiet_store
     \<lparr>dst_BatchInsertItems := (\<lambda>s xs. (None, (if xs = [] then fst s else last xs, snd s @ [WItems xs]))),
      dst_GetItem := (\<lambda>s i. if i = item_ItemId (fst s) then (Inr (fst s), s) else (Inl ErrNotFound, s))\<rparr>"

definition log_server :: "(item \<times> write_op list, int) rest_server" where
  "log_server =
     \<lparr>rs_Recommend = example_config, rs_DefaultN = 10, rs_APIKey = '''', rs_ClockError = 0, rs_AutoInsertUser = True, rs_AutoInsertItem = True,
      rs_MaxUsersCount = 0, rs_MaxItemsCount = 0, rs_MaxLabelsSize = 0, rs_MaxCommentSize = 0, rs_MaxCategoriesCount = 0,
      rs_MaxCategoriesSize = 0, rs_SearchColumns = [],
      rs_Data = \<lparr>ddb_BatchGetItems = (\<lambda>s is o'. (Inr [], s)), ddb_GetLatestItems = (\<lambda>s n cs t. (Inr [], s)),
        ddb_GetUserFeedback = (\<lambda>s u t es. (Inr [], s))\<rparr>,
      rs_DataStore = log_store,
      rs_Cache = \<lparr>cdb_Set = (\<lambda>s kvs. (None, s)), cdb_Get = (\<lambda>s k. (NewReturnValue '''' True, s)), cdb_AddScores = (\<lambda>s c k xs. (None, s)),
        cdb_SearchScores = (\<lambda>s c k cs a b. (Inr [], s)), cdb_DeleteScores = (\<lambda>s cs c. (None, s))\<rparr>,
      rs_CacheStore = \<lparr>cst_Ping = (\<lambda>s. (None, s)), cst_UpdateScores = (\<lambda>s cs sub i p. (None, (fst s, snd s @ [WScores i p])))\<rparr>,
      rs_Vector = fixed_db [] [], rs_Pull = (\<lambda>c u s. (Inr [], s)), rs_Embed = (\<lambda>q s. (Inr [], s)), rs_JsonSize = (\<lambda>j. 0),
      rs_ParseDuration = (\<lambda>v. Inr 0)\<rparr>"

definition example_rest_item :: "string \<Rightarrow> string \<Rightarrow> rest_item" where
  "example_rest_item i t = \<lparr>ri_ItemId = i, ri_IsHidden = True, ri_Categories = [], ri_Timestamp = t, ri_Labels = JNull, ri_Comment = ''''\<rparr>"

definition strict_env :: "int env" where
  "strict_env = (plain_env 0 (\<lambda>t. t))\<lparr>env_ParseAny := (\<lambda>t. if t = ''?'' then Inl (ErrOther t) else Inr 0)\<rparr>"

theorem insertItems_rejected_witness:
  "\<exists>s'. insertItems strict_env log_server (Inr [example_rest_item ''a'' '''', example_rest_item ''b'' ''?'']) (data_item (example_rest_item ''x'' '''') 0, [])
       = (BadRequest (ErrOther ''?''), s') \<and> length (snd s') = 1"
proof -
  let ?items = "[example_rest_item ''a'' '''', example_rest_item ''b'' ''?'']" and ?s = "(data_item (example_rest_item ''x'' '''') 0, [] :: write_op list)"
  obtain s' where run: "insertItems strict_env log_server (Inr ?items) ?s = (BadRequest (ErrOther ''?''), s')"
    by (simp add: insertItems_def batchInsertItems_def h_run_def h_bind_def h_get_def h_check_def h_call_def h_do_def h_return_def
      checkItemCountLimit_def checkItemSize_def checkLabelsSize_def checkCommentSize_def checkCategoriesSize_def update_scores_def
      parse_time_def data_item_def example_rest_item_def log_server_def strict_env_def)
  have lab: "ValidateLabels (ri_Labels i) = None" if "i \<in> set ?items" for i using that by (auto simp: example_rest_item_def)
  obtain before i rest where b: "?items = before @ i # rest" "parse_time strict_env (ri_Timestamp i) = Inl (ErrOther ''?'')"
    "s' = fold (scores_updated log_server) before (after_item_count log_server (snd (ddb_BatchGetItems (rs_Data log_server) ?s (map ri_ItemId ?items) no_get_options)))"
    using insertItems_rejected [OF run] lab by fastforce
  have "i \<noteq> example_rest_item ''a'' ''''" using b(2) by (auto simp: parse_time_def example_rest_item_def)
  then have "before = [example_rest_item ''a'' '''']" using b(1) by (auto simp: Cons_eq_append_conv)
  then have "length (snd s') = 1" using b(3) by (simp add: scores_updated_def after_item_count_def log_server_def)
  then show ?thesis using run by blast
qed

subsection \<open>Categories\<close>

text \<open>
  What the handlers of categories rely on: reading an item changes nothing and returns the item of that id; an item that has been
  read and is written with other categories is read back with them and with an update time that the storage assigns
  (\<open>UpdateAt\<close> is never the caller's); and the cache does not touch the items.
\<close>

definition item_laws :: "('s, 'w) rest_server \<Rightarrow> bool" where
  "item_laws srv \<longleftrightarrow>
     (\<forall>s k. snd (dst_GetItem (rs_DataStore srv) s k) = s) \<and>
     (\<forall>s k i cs s'. fst (dst_GetItem (rs_DataStore srv) s k) = Inr i \<longrightarrow>
        dst_BatchInsertItems (rs_DataStore srv) s [i\<lparr>item_Categories := cs\<rparr>] = (None, s') \<longrightarrow>
        (\<exists>t. fst (dst_GetItem (rs_DataStore srv) s' k) = Inr (i\<lparr>item_Categories := cs, item_UpdateAt := t\<rparr>))) \<and>
     (\<forall>s cs sub i p k. fst (dst_GetItem (rs_DataStore srv) (snd (cst_UpdateScores (rs_CacheStore srv) s cs sub i p)) k) = fst (dst_GetItem (rs_DataStore srv) s k))"

lemma item_laws_read: "item_laws srv \<Longrightarrow> fst (dst_GetItem (rs_DataStore srv) s k) = Inr i \<longleftrightarrow> dst_GetItem (rs_DataStore srv) s k = (Inr i, s)"
  unfolding item_laws_def by (cases "dst_GetItem (rs_DataStore srv) s k") (metis fst_conv snd_conv)

lemma item_laws_write:
  assumes "item_laws srv" and "fst (dst_GetItem (rs_DataStore srv) s k) = Inr i"
    and "dst_BatchInsertItems (rs_DataStore srv) s [i\<lparr>item_Categories := cs\<rparr>] = (None, s')"
  obtains t where "fst (dst_GetItem (rs_DataStore srv) s' k) = Inr (i\<lparr>item_Categories := cs, item_UpdateAt := t\<rparr>)"
  using assms unfolding item_laws_def by blast

lemma update_scores_read:
  "item_laws srv \<Longrightarrow> update_scores srv i p s = (r, s') \<Longrightarrow> fst (dst_GetItem (rs_DataStore srv) s' k) = fst (dst_GetItem (rs_DataStore srv) s k)"
  unfolding item_laws_def update_scores_def h_do_def by (auto split: prod.splits option.splits) (metis snd_conv)+

lemma insertItemCategory_reads:
  assumes laws: "item_laws srv" and read: "fst (dst_GetItem (rs_DataStore srv) s (PathParameter rq ''item-id'')) = Inr i"
    and new: "PathParameter rq ''category'' \<notin> set (item_Categories i)" and run: "insertItemCategory srv rq s = (Ok c, s')"
  obtains t where "fst (dst_GetItem (rs_DataStore srv) s' (PathParameter rq ''item-id'')) =
    Inr (i\<lparr>item_Categories := item_Categories i @ [PathParameter rq ''category''], item_UpdateAt := t\<rparr>)"
proof -
  let ?i = "i\<lparr>item_Categories := item_Categories i @ [PathParameter rq ''category'']\<rparr>"
  from run obtain s1 p u where s1: "dst_BatchInsertItems (rs_DataStore srv) s [?i] = (None, s1)" and u: "update_scores srv (PathParameter rq ''item-id'') p s1 = (Inr u, s')"
    using read new unfolding insertItemCategory_def Let_def h_run_cases item_laws_read [OF laws]
    by (auto simp: h_Inl h_Inr update_scores_def)
  show ?thesis by (rule item_laws_write [OF laws read s1]) (rule that, simp add: update_scores_read [OF laws u])
qed

lemma deleteItemCategory_reads:
  assumes laws: "item_laws srv" and read: "fst (dst_GetItem (rs_DataStore srv) s (PathParameter rq ''item-id'')) = Inr i"
    and run: "deleteItemCategory srv rq s = (Ok c, s')"
  obtains t where "fst (dst_GetItem (rs_DataStore srv) s' (PathParameter rq ''item-id'')) =
    Inr (i\<lparr>item_Categories := filter (\<lambda>c. c \<noteq> PathParameter rq ''category'') (item_Categories i), item_UpdateAt := t\<rparr>)"
proof -
  let ?i = "i\<lparr>item_Categories := filter (\<lambda>c. c \<noteq> PathParameter rq ''category'') (item_Categories i)\<rparr>"
  from run obtain p u s1 where u: "update_scores srv (PathParameter rq ''item-id'') p s = (Inr u, s1)"
    and s1: "dst_BatchInsertItems (rs_DataStore srv) s1 [?i] = (None, s')"
    using read unfolding deleteItemCategory_def Let_def h_run_cases item_laws_read [OF laws]
    by (auto simp: h_Inl h_Inr update_scores_def)
  from update_scores_read [OF laws u] read have "fst (dst_GetItem (rs_DataStore srv) s1 (PathParameter rq ''item-id'')) = Inr i" by simp
  from item_laws_write [OF laws this s1] show ?thesis using that by blast
qed

text \<open>
  (C33) Adding a category to an item that does not have it and deleting it again gives the item back, with its other categories
  in their order, up to the update time, which the storage assigns at each write; in between the item has the category, after the
  others.
\<close>

theorem category_roundtrip:
  assumes laws: "item_laws srv" and read: "fst (dst_GetItem (rs_DataStore srv) s (PathParameter rq ''item-id'')) = Inr i"
    and new: "PathParameter rq ''category'' \<notin> set (item_Categories i)"
    and add: "insertItemCategory srv rq s = (Ok c, s1)" and del: "deleteItemCategory srv rq s1 = (Ok c', s2)"
  shows "(\<exists>t. fst (dst_GetItem (rs_DataStore srv) s1 (PathParameter rq ''item-id'')) =
      Inr (i\<lparr>item_Categories := item_Categories i @ [PathParameter rq ''category''], item_UpdateAt := t\<rparr>)) \<and>
    (\<exists>t. fst (dst_GetItem (rs_DataStore srv) s2 (PathParameter rq ''item-id'')) = Inr (i\<lparr>item_UpdateAt := t\<rparr>))"
proof -
  obtain t where mid: "fst (dst_GetItem (rs_DataStore srv) s1 (PathParameter rq ''item-id'')) =
      Inr (i\<lparr>item_Categories := item_Categories i @ [PathParameter rq ''category''], item_UpdateAt := t\<rparr>)"
    by (rule insertItemCategory_reads [OF laws read new add])
  obtain t' where "fst (dst_GetItem (rs_DataStore srv) s2 (PathParameter rq ''item-id'')) =
      Inr (i\<lparr>item_UpdateAt := t, item_Categories := filter (\<lambda>c. c \<noteq> PathParameter rq ''category'') (item_Categories i), item_UpdateAt := t'\<rparr>)"
    by (rule deleteItemCategory_reads [OF laws mid del]) (rule that, simp)
  moreover have "filter (\<lambda>c. c \<noteq> PathParameter rq ''category'') (item_Categories i) = item_Categories i"
    using new by (auto simp: filter_id_conv)
  ultimately show ?thesis using mid by (cases i) auto
qed

text \<open>The recording server over a store that stamps what it writes.\<close>

definition stamping_store :: "(item \<times> write_op list, int) data_store" where
  "stamping_store = log_store
     \<lparr>dst_BatchInsertItems := (\<lambda>s xs. (None, (if xs = [] then fst s else (last xs)\<lparr>item_UpdateAt := 1 + int (length (snd s))\<rparr>, snd s @ [WItems xs])))\<rparr>"

definition stamping_server :: "(item \<times> write_op list, int) rest_server" where
  "stamping_server = log_server\<lparr>rs_DataStore := stamping_store\<rparr>"

lemma stamping_laws: "item_laws stamping_server"
  by (auto simp: item_laws_def stamping_server_def stamping_store_def log_server_def log_store_def split: if_splits)

lemma stamping_read: "fst (dst_GetItem (rs_DataStore stamping_server) s k) = (if k = item_ItemId (fst s) then Inr (fst s) else Inl ErrNotFound)"
  by (simp add: stamping_server_def stamping_store_def log_store_def)

definition category_request :: request where
  "category_request = \<lparr>rq_path = (\<lambda>k. if k = ''item-id'' then ''x'' else ''new''), rq_query = (\<lambda>k. []), rq_header = (\<lambda>k. '''')\<rparr>"

theorem category_roundtrip_witness:
  "\<exists>c s1 c' s2. let s = (data_item (example_rest_item ''x'' '''') 0, []) in
     insertItemCategory stamping_server category_request s = (Ok c, s1) \<and> deleteItemCategory stamping_server category_request s1 = (Ok c', s2) \<and>
     item_Categories (fst s1) = [''new''] \<and> (\<exists>t. fst s2 = (fst s)\<lparr>item_UpdateAt := t\<rparr>) \<and> length (snd s2) = 4"
proof -
  let ?i = "data_item (example_rest_item ''x'' '''') 0"
  let ?s = "(?i, [] :: write_op list)"
  note defs = insertItemCategory_def deleteItemCategory_def h_run_def h_bind_def h_check_def h_call_def h_do_def h_return_def Let_def
    checkItemSize_def checkLabelsSize_def checkCommentSize_def checkCategoriesSize_def update_scores_def PathParameter_def
    stamping_server_def stamping_store_def log_server_def log_store_def category_request_def data_item_def example_rest_item_def
  obtain c s1 where add: "insertItemCategory stamping_server category_request ?s = (Ok c, s1)" and l1: "length (snd s1) = 2" "item_ItemId (fst s1) = ''x''"
    by (simp add: defs)
  obtain c' s2 where del: "deleteItemCategory stamping_server category_request s1 = (Ok c', s2)" and l2: "length (snd s2) = 4" "item_ItemId (fst s2) = ''x''"
    using l1 by (simp add: deleteItemCategory_def h_run_def h_bind_def h_call_def h_do_def h_return_def Let_def update_scores_def PathParameter_def
      stamping_server_def stamping_store_def log_server_def log_store_def category_request_def)
  have "fst (dst_GetItem (rs_DataStore stamping_server) ?s (PathParameter category_request ''item-id'')) = Inr ?i" "PathParameter category_request ''category'' \<notin> set (item_Categories ?i)"
    by (simp_all add: defs)
  from category_roundtrip [OF stamping_laws this add del] have "item_Categories (fst s1) = [''new'']" "\<exists>t. fst s2 = ?i\<lparr>item_UpdateAt := t\<rparr>"
    unfolding stamping_read using l1 l2 by (auto simp: category_request_def PathParameter_def data_item_def example_rest_item_def)
  then have "insertItemCategory stamping_server category_request ?s = (Ok c, s1) \<and> deleteItemCategory stamping_server category_request s1 = (Ok c', s2) \<and>
     item_Categories (fst s1) = [''new''] \<and> (\<exists>t. fst s2 = (fst ?s)\<lparr>item_UpdateAt := t\<rparr>) \<and> length (snd s2) = 4" using add del l2 by simp
  then show ?thesis unfolding Let_def by blast
qed

end
