(* ===== verification/Proxy_Call.thy ===== *)
theory Proxy_Call
  imports Prelude
begin

text \<open>
  What the three storage proxies share: fields of messages, conversions around a call, streams, what a stub delivers, and
  the lemmas on a conversion that the other side undoes.  gRPC itself is a parameter: a call runs the handler of the server
  and returns its response, or its error as a status.
\<close>

subsection \<open>Fields of messages\<close>

text \<open>\<open>AsTime\<close> of a missing timestamp is the Unix epoch, in nanoseconds since Go's zero time.\<close>

definition AsTime :: "time option \<Rightarrow> time" where
  "AsTime t = (case t of None \<Rightarrow> 62135596800000000000 | Some t \<Rightarrow> t)"

definition timeFromPB :: "time option \<Rightarrow> time" where
  "timeFromPB t = (case t of None \<Rightarrow> 0 | Some t \<Rightarrow> t)"

definition to_int32 :: "int \<Rightarrow> i32" where
  "to_int32 n = word_of_int n"

subsection \<open>Calls\<close>

text \<open>\<open>if err != nil\<close> around a call: its result converted, or an error; and a conversion before a call that only returns an error.\<close>

definition call_then :: "('a \<Rightarrow> go_error + 'b) \<Rightarrow> ('s \<Rightarrow> (go_error + 'a) \<times> 's) \<Rightarrow> 's \<Rightarrow> (go_error + 'b) \<times> 's" where
  "call_then f m s = (case m s of (r, s') \<Rightarrow> (p_bind r f, s'))"

definition then_do :: "go_error + 'a \<Rightarrow> ('a \<Rightarrow> 's \<Rightarrow> go_error option \<times> 's) \<Rightarrow> 's \<Rightarrow> go_error option \<times> 's" where
  "then_do r f s = (case r of Inl e \<Rightarrow> (Some e, s) | Inr x \<Rightarrow> f x s)"

text \<open>The loop over the batches of a stream: it stops at the first batch that cannot be converted.\<close>

fun relay :: "('a \<Rightarrow> go_error + 'b) \<Rightarrow> 'a list \<Rightarrow> go_error option \<Rightarrow> 'b list \<times> go_error option" where
  "relay f [] e = ([], e)"
| "relay f (x # xs) e = (case f x of Inl e' \<Rightarrow> ([], Some e') | Inr y \<Rightarrow> (case relay f xs e of (ys, e') \<Rightarrow> (y # ys, e')))"

definition relay_stream :: "('a \<Rightarrow> go_error + 'b) \<Rightarrow> ('a list \<times> go_error option) \<times> 's \<Rightarrow> ('b list \<times> go_error option) \<times> 's" where
  "relay_stream f r = (case r of ((xs, e), s') \<Rightarrow> (relay f xs e, s'))"

text \<open>A call through the stub runs the handler of the server and returns its response; an error arrives as a status.\<close>

definition got :: "(go_error \<Rightarrow> go_error) \<Rightarrow> ('a \<Rightarrow> 'b) \<Rightarrow> (go_error + 'a) \<times> 's \<Rightarrow> (go_error + 'b) \<times> 's" where
  "got st f r = map_prod (map_sum st f) id r"

definition did :: "(go_error \<Rightarrow> go_error) \<Rightarrow> go_error option \<times> 's \<Rightarrow> go_error option \<times> 's" where
  "did st r = map_prod (map_option st) id r"

definition streamed :: "(go_error \<Rightarrow> go_error) \<Rightarrow> ('a \<Rightarrow> 'b) \<Rightarrow> ('a list \<times> go_error option) \<times> 's \<Rightarrow> ('b list \<times> go_error option) \<times> 's" where
  "streamed st f r = map_prod (map_prod (map f) (map_option st)) id r"

definition int32 :: "int \<Rightarrow> int" where
  "int32 n = sint (to_int32 n)"

subsection \<open>Conversions that meet\<close>

lemma p_map_both:
  assumes "\<And>x. p_bind (f x) g = Inr (k x)"
  shows "p_bind (p_map f xs) (p_map g) = Inr (map k xs)"
proof (induction xs)
  case (Cons x xs)
  from assms [of x] obtain y where y: "f x = Inr y" "g y = Inr (k x)" by (auto simp: p_bind_Inr)
  from Cons.IH obtain ys where "p_map f xs = Inr ys" "p_map g ys = Inr (map k xs)" by (auto simp: p_bind_Inr)
  then show ?case using y by simp
qed simp

lemma paged_both:
  assumes "\<And>x. p_bind (f x) g = Inr (k x)"
  shows "p_bind (case x of (c, y) \<Rightarrow> p_bind (f y) (\<lambda>ps. Inr (c, ps))) (\<lambda>(c, ps). p_bind (g ps) (\<lambda>ys. Inr (c, ys))) = Inr (map_prod id k x)"
  using assms by (cases x) (auto simp: p_bind_assoc p_bind_Inr)

lemma call_both:
  assumes "\<And>x. p_bind (f x) g = Inr (k x)"
  shows "call_then g (\<lambda>s. got st id (call_then f m s)) s = got st k (m s)"
proof (cases "m s")
  case (Pair r s')
  show ?thesis
  proof (cases r)
    case (Inr x)
    from assms [of x] obtain y where "f x = Inr y" "g y = Inr (k x)" by (auto simp: p_bind_Inr)
    then show ?thesis using Pair Inr by (simp add: call_then_def got_def)
  qed (use Pair in \<open>simp add: call_then_def got_def\<close>)
qed

lemma do_both:
  assumes "p_bind f g = Inr y"
  shows "then_do f (\<lambda>ps s. did st (then_do (g ps) h s)) s = did st (h y s)"
  using assms by (auto simp: then_do_def p_bind_Inr)

lemma relay_both:
  assumes "\<And>x. p_bind (f x) g = Inr (k x)"
  shows "relay_stream g (streamed st id (relay_stream f r)) = streamed st k r"
proof -
  obtain xs e s' where r: "r = ((xs, e), s')" by (cases r) auto
  have "case relay f xs e of (ys, e') \<Rightarrow> relay g ys (map_option st e') = (map k xs, map_option st e)"
  proof (induction xs)
    case (Cons x xs)
    from assms [of x] obtain y where "f x = Inr y" "g y = Inr (k x)" by (auto simp: p_bind_Inr)
    then show ?case using Cons.IH by (auto split: prod.splits)
  qed simp
  then show ?thesis unfolding r relay_stream_def streamed_def by (auto split: prod.splits)
qed

lemma int32_both: "p_bind (Inr (to_int32 n)) (\<lambda>k. Inr (sint k)) = Inr (int32 n)"
  by (simp add: int32_def)

end
