(* ===== verification/Data_Proxy.thy ===== *)
theory Data_Proxy
  imports Storage_Data Proxy_Call
begin

text \<open>
  \<open>storage/data/proxy.go\<close>: a data store over gRPC.  \<open>ProxyServer\<close> turns a database into handlers of requests, \<open>ProxyClient\<close>
  turns a stub, which sends requests, into a database.  A request or response is the tuple of its fields, a nested message
  a record; \<open>int32\<close> fields are 32-bit words.  A field of message type may be missing (\<open>None\<close>); repeated and \<open>bytes\<close> fields have no
  presence, an empty one arrives as nil.  \<open>encoding/json\<close> is the parameter \<open>json_codec\<close> over a type \<open>'b\<close> of byte strings.
  Generated code and gRPC are parameters: the stub is a record of functions.
\<close>

subsection \<open>The whole interface\<close>

text \<open>\<open>data.Database\<close>: the methods of the recommender, those of the server, and the rest.  A stream is the list of its batches
  with the error that ends it.\<close>

record ('s, 'w) database =
  db_Main :: "('s, 'w) data_db"
  db_Store :: "('s, 'w) data_store"
  db_Init :: "'s \<Rightarrow> go_error option \<times> 's"
  db_Reconcile :: "'s \<Rightarrow> string list \<Rightarrow> go_error option \<times> 's"
  db_Close :: "'s \<Rightarrow> go_error option \<times> 's"
  db_Optimize :: "'s \<Rightarrow> go_error option \<times> 's"
  db_Purge :: "'s \<Rightarrow> go_error option \<times> 's"
  db_CountFeedback :: "'s \<Rightarrow> (go_error + int) \<times> 's"
  db_GetUserStream :: "'s \<Rightarrow> int \<Rightarrow> (user list list \<times> go_error option) \<times> 's"
  db_GetItemStream :: "'s \<Rightarrow> int \<Rightarrow> time option \<Rightarrow> (item list list \<times> go_error option) \<times> 's"
  db_GetFeedbackStream :: "'s \<Rightarrow> int \<Rightarrow> 'w scan_option list \<Rightarrow> ('w feedback list list \<times> go_error option) \<times> 's"

subsection \<open>Messages\<close>

record 'b json_codec =
  jc_Marshal :: "json \<Rightarrow> go_error + 'b"
  jc_Unmarshal :: "'b \<Rightarrow> go_error + json"
  jc_nil :: 'b

record 'b pb_item =
  pbi_ItemId :: string
  pbi_IsHidden :: bool
  pbi_Categories :: "string list"
  pbi_Timestamp :: "time option"
  pbi_Labels :: 'b
  pbi_Comment :: string
  pbi_UpdateAt :: "time option"

record 'b pb_user =
  pbu_UserId :: string
  pbu_Labels :: 'b
  pbu_Comment :: string
  pbu_UpdateAt :: "time option"

record ('w, 'b) pb_feedback =
  pbf_FeedbackType :: string
  pbf_UserId :: string
  pbf_ItemId :: string
  pbf_Value :: 'w
  pbf_Timestamp :: "time option"
  pbf_Updated :: "time option"
  pbf_Labels :: 'b
  pbf_Comment :: string

record 'b pb_item_patch =
  pbp_IsHidden :: "bool option"
  pbp_Categories :: "string list"
  pbp_Timestamp :: "time option"
  pbp_Labels :: 'b
  pbp_Comment :: "string option"

record 'b pb_user_patch =
  pbq_Labels :: 'b
  pbq_Comment :: "string option"

record 'w pb_scan_options =
  pbs_BeginUserId :: "string option"
  pbs_EndUserId :: "string option"
  pbs_BeginItemId :: "string option"
  pbs_EndItemId :: "string option"
  pbs_BeginTime :: "time option"
  pbs_EndTime :: "time option"
  pbs_FeedbackTypes :: "'w pb_expr list"
  pbs_OrderByItemId :: bool

subsection \<open>Conversions\<close>

text \<open>Items go to the server without and come back with the time of their last write.\<close>

definition item_to_pb :: "'b json_codec \<Rightarrow> (item \<Rightarrow> time option) \<Rightarrow> item \<Rightarrow> go_error + 'b pb_item" where
  "item_to_pb C updateAt i = p_bind (jc_Marshal C (item_Labels i)) (\<lambda>labels. Inr
     \<lparr>pbi_ItemId = item_ItemId i, pbi_IsHidden = item_IsHidden i, pbi_Categories = item_Categories i, pbi_Timestamp = Some (item_Timestamp i),
      pbi_Labels = labels, pbi_Comment = item_Comment i, pbi_UpdateAt = updateAt i\<rparr>)"

definition item_from_pb :: "'b json_codec \<Rightarrow> ('b pb_item \<Rightarrow> time) \<Rightarrow> 'b pb_item \<Rightarrow> go_error + item" where
  "item_from_pb C updateAt p = p_bind (jc_Unmarshal C (pbi_Labels p)) (\<lambda>labels. Inr
     \<lparr>item_ItemId = pbi_ItemId p, item_IsHidden = pbi_IsHidden p, item_Categories = pbi_Categories p, item_Timestamp = AsTime (pbi_Timestamp p),
      item_UpdateAt = updateAt p, item_Labels = labels, item_Comment = pbi_Comment p\<rparr>)"

definition stored_item_to_pb :: "'b json_codec \<Rightarrow> item \<Rightarrow> go_error + 'b pb_item" where
  "stored_item_to_pb C = item_to_pb C (\<lambda>i. Some (item_UpdateAt i))"

definition stored_item_from_pb :: "'b json_codec \<Rightarrow> 'b pb_item \<Rightarrow> go_error + item" where
  "stored_item_from_pb C = item_from_pb C (\<lambda>p. timeFromPB (pbi_UpdateAt p))"

definition scored_item_to_pb :: "'b json_codec \<Rightarrow> 'w scored_item \<Rightarrow> go_error + 'b pb_item \<times> 'w" where
  "scored_item_to_pb C x = p_bind (stored_item_to_pb C (si_Item x)) (\<lambda>p. Inr (p, si_Score x))"

definition scored_item_from_pb :: "'b json_codec \<Rightarrow> 'b pb_item \<times> 'w \<Rightarrow> go_error + 'w scored_item" where
  "scored_item_from_pb C x = p_bind (stored_item_from_pb C (fst x)) (\<lambda>i. Inr \<lparr>si_Item = i, si_Score = snd x\<rparr>)"

definition user_to_pb :: "'b json_codec \<Rightarrow> (user \<Rightarrow> time option) \<Rightarrow> user \<Rightarrow> go_error + 'b pb_user" where
  "user_to_pb C updateAt u = p_bind (jc_Marshal C (user_Labels u)) (\<lambda>labels. Inr
     \<lparr>pbu_UserId = user_UserId u, pbu_Labels = labels, pbu_Comment = user_Comment u, pbu_UpdateAt = updateAt u\<rparr>)"

definition user_from_pb :: "'b json_codec \<Rightarrow> ('b pb_user \<Rightarrow> time) \<Rightarrow> 'b pb_user \<Rightarrow> go_error + user" where
  "user_from_pb C updateAt p = p_bind (jc_Unmarshal C (pbu_Labels p)) (\<lambda>labels. Inr
     \<lparr>user_UserId = pbu_UserId p, user_Labels = labels, user_Comment = pbu_Comment p, user_UpdateAt = updateAt p\<rparr>)"

definition stored_user_to_pb :: "'b json_codec \<Rightarrow> user \<Rightarrow> go_error + 'b pb_user" where
  "stored_user_to_pb C = user_to_pb C (\<lambda>u. Some (user_UpdateAt u))"

definition stored_user_from_pb :: "'b json_codec \<Rightarrow> 'b pb_user \<Rightarrow> go_error + user" where
  "stored_user_from_pb C = user_from_pb C (\<lambda>p. timeFromPB (pbu_UpdateAt p))"

definition feedback_to_pb :: "'b json_codec \<Rightarrow> 'w feedback \<Rightarrow> go_error + ('w, 'b) pb_feedback" where
  "feedback_to_pb C f = p_bind (jc_Marshal C (fb_Labels f)) (\<lambda>labels. Inr
     \<lparr>pbf_FeedbackType = fb_FeedbackType f, pbf_UserId = fb_UserId f, pbf_ItemId = fb_ItemId f, pbf_Value = fb_Value f,
      pbf_Timestamp = Some (fb_Timestamp f), pbf_Updated = Some (fb_Updated f), pbf_Labels = labels, pbf_Comment = fb_Comment f\<rparr>)"

definition feedback_from_pb :: "'b json_codec \<Rightarrow> ('w, 'b) pb_feedback \<Rightarrow> go_error + 'w feedback" where
  "feedback_from_pb C p = p_bind (if pbf_Labels p = jc_nil C then Inr JNull else jc_Unmarshal C (pbf_Labels p)) (\<lambda>labels. Inr
     \<lparr>fb_FeedbackType = pbf_FeedbackType p, fb_UserId = pbf_UserId p, fb_ItemId = pbf_ItemId p, fb_Value = pbf_Value p,
      fb_Timestamp = AsTime (pbf_Timestamp p), fb_Updated = AsTime (pbf_Updated p), fb_Labels = labels, fb_Comment = pbf_Comment p\<rparr>)"

definition feedbackToPB :: "'b json_codec \<Rightarrow> 'w feedback list \<Rightarrow> go_error + ('w, 'b) pb_feedback list" where
  "feedbackToPB C = p_map (feedback_to_pb C)"

definition feedbackFromPB :: "'b json_codec \<Rightarrow> ('w, 'b) pb_feedback list \<Rightarrow> go_error + 'w feedback list" where
  "feedbackFromPB C = p_map (feedback_from_pb C)"

subsection \<open>The stub\<close>

text \<open>The methods of \<open>DataStoreClient\<close>, which are those of \<open>DataStoreServer\<close>; an empty response with its error is a \<open>go_error option\<close>.\<close>

record ('s, 'w, 'b) data_rpc =
  rpc_Ping :: "'s \<Rightarrow> go_error option \<times> 's"
  rpc_Reconcile :: "'s \<Rightarrow> string list \<Rightarrow> go_error option \<times> 's"
  rpc_BatchInsertItems :: "'s \<Rightarrow> 'b pb_item list \<Rightarrow> go_error option \<times> 's"
  rpc_BatchGetItems :: "'s \<Rightarrow> string list \<Rightarrow> get_options option \<Rightarrow> (go_error + 'b pb_item list) \<times> 's"
  rpc_DeleteItem :: "'s \<Rightarrow> string \<Rightarrow> go_error option \<times> 's"
  rpc_GetItem :: "'s \<Rightarrow> string \<Rightarrow> (go_error + 'b pb_item option) \<times> 's"
  rpc_SearchItems :: "'s \<Rightarrow> string \<Rightarrow> i32 \<Rightarrow> (go_error + ('b pb_item \<times> 'w) list) \<times> 's"
  rpc_ModifyItem :: "'s \<Rightarrow> string \<Rightarrow> 'b pb_item_patch \<Rightarrow> go_error option \<times> 's"
  rpc_GetItems :: "'s \<Rightarrow> string \<Rightarrow> i32 \<Rightarrow> time option \<Rightarrow> (go_error + string \<times> 'b pb_item list) \<times> 's"
  rpc_GetItemFeedback :: "'s \<Rightarrow> string \<Rightarrow> 'w pb_expr list \<Rightarrow> (go_error + ('w, 'b) pb_feedback list) \<times> 's"
  rpc_BatchInsertUsers :: "'s \<Rightarrow> 'b pb_user list \<Rightarrow> go_error option \<times> 's"
  rpc_DeleteUser :: "'s \<Rightarrow> string \<Rightarrow> go_error option \<times> 's"
  rpc_GetUser :: "'s \<Rightarrow> string \<Rightarrow> (go_error + 'b pb_user option) \<times> 's"
  rpc_ModifyUser :: "'s \<Rightarrow> string \<Rightarrow> 'b pb_user_patch \<Rightarrow> go_error option \<times> 's"
  rpc_GetUsers :: "'s \<Rightarrow> string \<Rightarrow> i32 \<Rightarrow> (go_error + string \<times> 'b pb_user list) \<times> 's"
  rpc_GetUserFeedback :: "'s \<Rightarrow> string \<Rightarrow> time option \<Rightarrow> 'w pb_expr list \<Rightarrow> (go_error + ('w, 'b) pb_feedback list) \<times> 's"
  rpc_GetUserItemFeedback :: "'s \<Rightarrow> string \<Rightarrow> string \<Rightarrow> 'w pb_expr list \<Rightarrow> (go_error + ('w, 'b) pb_feedback list) \<times> 's"
  rpc_DeleteUserItemFeedback :: "'s \<Rightarrow> string \<Rightarrow> string \<Rightarrow> string list \<Rightarrow> (go_error + i32) \<times> 's"
  rpc_BatchInsertFeedback :: "'s \<Rightarrow> ('w, 'b) pb_feedback list \<Rightarrow> bool \<Rightarrow> bool \<Rightarrow> bool \<Rightarrow> go_error option \<times> 's"
  rpc_GetFeedback :: "'s \<Rightarrow> string \<Rightarrow> i32 \<Rightarrow> time option \<Rightarrow> time option \<Rightarrow> 'w pb_expr list \<Rightarrow> (go_error + string \<times> ('w, 'b) pb_feedback list) \<times> 's"
  rpc_GetUserStream :: "'s \<Rightarrow> i32 \<Rightarrow> ('b pb_user list list \<times> go_error option) \<times> 's"
  rpc_GetItemStream :: "'s \<Rightarrow> i32 \<Rightarrow> time option \<Rightarrow> ('b pb_item list list \<times> go_error option) \<times> 's"
  rpc_GetFeedbackStream :: "'s \<Rightarrow> i32 \<Rightarrow> 'w pb_scan_options \<Rightarrow> (('w, 'b) pb_feedback list list \<times> go_error option) \<times> 's"
  rpc_CountUsers :: "'s \<Rightarrow> (go_error + i32) \<times> 's"
  rpc_CountItems :: "'s \<Rightarrow> (go_error + i32) \<times> 's"
  rpc_CountFeedback :: "'s \<Rightarrow> (go_error + i32) \<times> 's"
  rpc_GetLatestItems :: "'s \<Rightarrow> i32 \<Rightarrow> string list \<Rightarrow> time option \<Rightarrow> (go_error + 'b pb_item list) \<times> 's"

subsection \<open>The server\<close>

definition srv_Ping :: "('s, 'w) database \<Rightarrow> 's \<Rightarrow> go_error option \<times> 's" where
  "srv_Ping db s = dst_Ping (db_Store db) s"

definition srv_Reconcile :: "('s, 'w) database \<Rightarrow> 's \<Rightarrow> string list \<Rightarrow> go_error option \<times> 's" where
  "srv_Reconcile db s columns = db_Reconcile db s columns"

text \<open>The time of the last write of an inserted item or user is left zero.\<close>

definition srv_BatchInsertItems :: "'b json_codec \<Rightarrow> ('s, 'w) database \<Rightarrow> 's \<Rightarrow> 'b pb_item list \<Rightarrow> go_error option \<times> 's" where
  "srv_BatchInsertItems C db s ps = then_do (p_map (item_from_pb C (\<lambda>p. 0)) ps) (\<lambda>items s. dst_BatchInsertItems (db_Store db) s items) s"

definition srv_BatchGetItems :: "'b json_codec \<Rightarrow> ('s, 'w) database \<Rightarrow> 's \<Rightarrow> string list \<Rightarrow> get_options option \<Rightarrow> (go_error + 'b pb_item list) \<times> 's" where
  "srv_BatchGetItems C db s itemIds getOptions =
     (let opts = (case getOptions of None \<Rightarrow> no_get_options | Some o' \<Rightarrow> o') in
      call_then (p_map (stored_item_to_pb C)) (\<lambda>s. ddb_BatchGetItems (db_Main db) s itemIds opts) s)"

definition srv_DeleteItem :: "('s, 'w) database \<Rightarrow> 's \<Rightarrow> string \<Rightarrow> go_error option \<times> 's" where
  "srv_DeleteItem db s itemId = dst_DeleteItem (db_Store db) s itemId"

text \<open>An item that is not found is an empty response.\<close>

definition srv_GetItem :: "'b json_codec \<Rightarrow> ('s, 'w) database \<Rightarrow> 's \<Rightarrow> string \<Rightarrow> (go_error + 'b pb_item option) \<times> 's" where
  "srv_GetItem C db s itemId =
     (case dst_GetItem (db_Store db) s itemId of
        (Inl e, s') \<Rightarrow> (if errors_Is e ErrNotFound then Inr None else Inl e, s')
      | (Inr i, s') \<Rightarrow> (p_bind (stored_item_to_pb C i) (\<lambda>p. Inr (Some p)), s'))"

definition srv_SearchItems :: "'b json_codec \<Rightarrow> ('s, 'w) database \<Rightarrow> 's \<Rightarrow> string \<Rightarrow> i32 \<Rightarrow> (go_error + ('b pb_item \<times> 'w) list) \<times> 's" where
  "srv_SearchItems C db s query n = call_then (p_map (scored_item_to_pb C)) (\<lambda>s. dst_SearchItems (db_Store db) s query (sint n)) s"

text \<open>A repeated field that arrives empty is nil.\<close>

definition srv_ModifyItem :: "'b json_codec \<Rightarrow> ('s, 'w) database \<Rightarrow> 's \<Rightarrow> string \<Rightarrow> 'b pb_item_patch \<Rightarrow> go_error option \<times> 's" where
  "srv_ModifyItem C db s itemId p =
     then_do (if pbp_Labels p \<noteq> jc_nil C then jc_Unmarshal C (pbp_Labels p) else Inr JNull)
       (\<lambda>labels s. dst_ModifyItem (db_Store db) s itemId
         \<lparr>ip_IsHidden = pbp_IsHidden p, ip_Categories = (if pbp_Categories p = [] then None else Some (pbp_Categories p)),
          ip_Timestamp = pbp_Timestamp p, ip_Labels = labels, ip_Comment = pbp_Comment p\<rparr>) s"

definition srv_GetItems :: "'b json_codec \<Rightarrow> ('s, 'w) database \<Rightarrow> 's \<Rightarrow> string \<Rightarrow> i32 \<Rightarrow> time option \<Rightarrow> (go_error + string \<times> 'b pb_item list) \<times> 's" where
  "srv_GetItems C db s cursor n beginTime =
     call_then (\<lambda>(cursor, items). p_bind (p_map (stored_item_to_pb C) items) (\<lambda>ps. Inr (cursor, ps)))
       (\<lambda>s. dst_GetItems (db_Store db) s cursor (sint n) beginTime) s"

definition srv_GetItemFeedback :: "'b json_codec \<Rightarrow> ('s, 'w) database \<Rightarrow> 's \<Rightarrow> string \<Rightarrow> 'w pb_expr list \<Rightarrow> (go_error + ('w, 'b) pb_feedback list) \<times> 's" where
  "srv_GetItemFeedback C db s itemId types =
     call_then (feedbackToPB C) (\<lambda>s. dst_GetItemFeedback (db_Store db) s itemId (map pb_FeedbackType types)) s"

definition srv_BatchInsertUsers :: "'b json_codec \<Rightarrow> ('s, 'w) database \<Rightarrow> 's \<Rightarrow> 'b pb_user list \<Rightarrow> go_error option \<times> 's" where
  "srv_BatchInsertUsers C db s ps = then_do (p_map (user_from_pb C (\<lambda>p. 0)) ps) (\<lambda>users s. dst_BatchInsertUsers (db_Store db) s users) s"

definition srv_DeleteUser :: "('s, 'w) database \<Rightarrow> 's \<Rightarrow> string \<Rightarrow> go_error option \<times> 's" where
  "srv_DeleteUser db s userId = dst_DeleteUser (db_Store db) s userId"

definition srv_GetUser :: "'b json_codec \<Rightarrow> ('s, 'w) database \<Rightarrow> 's \<Rightarrow> string \<Rightarrow> (go_error + 'b pb_user option) \<times> 's" where
  "srv_GetUser C db s userId =
     (case dst_GetUser (db_Store db) s userId of
        (Inl e, s') \<Rightarrow> (if errors_Is e ErrNotFound then Inr None else Inl e, s')
      | (Inr u, s') \<Rightarrow> (p_bind (stored_user_to_pb C u) (\<lambda>p. Inr (Some p)), s'))"

definition srv_ModifyUser :: "'b json_codec \<Rightarrow> ('s, 'w) database \<Rightarrow> 's \<Rightarrow> string \<Rightarrow> 'b pb_user_patch \<Rightarrow> go_error option \<times> 's" where
  "srv_ModifyUser C db s userId p =
     then_do (if pbq_Labels p \<noteq> jc_nil C then jc_Unmarshal C (pbq_Labels p) else Inr JNull)
       (\<lambda>labels s. dst_ModifyUser (db_Store db) s userId \<lparr>up_Labels = labels, up_Comment = pbq_Comment p\<rparr>) s"

definition srv_GetUsers :: "'b json_codec \<Rightarrow> ('s, 'w) database \<Rightarrow> 's \<Rightarrow> string \<Rightarrow> i32 \<Rightarrow> (go_error + string \<times> 'b pb_user list) \<times> 's" where
  "srv_GetUsers C db s cursor n =
     call_then (\<lambda>(cursor, users). p_bind (p_map (stored_user_to_pb C) users) (\<lambda>ps. Inr (cursor, ps)))
       (\<lambda>s. dst_GetUsers (db_Store db) s cursor (sint n)) s"

definition zero_expr :: "'w::zero fb_expr" where
  "zero_expr = \<lparr>fe_FeedbackType = '''', fe_ExprType = ExprNone, fe_Value = 0\<rparr>"

definition srv_GetUserFeedback :: "'b json_codec \<Rightarrow> ('s, 'w::zero) database \<Rightarrow> 's \<Rightarrow> string \<Rightarrow> time option \<Rightarrow> 'w pb_expr list \<Rightarrow>
    (go_error + ('w, 'b) pb_feedback list) \<times> 's" where
  "srv_GetUserFeedback C db s userId endTime types =
     call_then (feedbackToPB C) (\<lambda>s. ddb_GetUserFeedback (db_Main db) s userId endTime (map (FeedbackExpr_FromPB zero_expr) types)) s"

definition srv_GetUserItemFeedback :: "'b json_codec \<Rightarrow> ('s, 'w) database \<Rightarrow> 's \<Rightarrow> string \<Rightarrow> string \<Rightarrow> 'w pb_expr list \<Rightarrow>
    (go_error + ('w, 'b) pb_feedback list) \<times> 's" where
  "srv_GetUserItemFeedback C db s userId itemId types =
     call_then (feedbackToPB C) (\<lambda>s. dst_GetUserItemFeedback (db_Store db) s userId itemId (map pb_FeedbackType types)) s"

definition srv_DeleteUserItemFeedback :: "('s, 'w) database \<Rightarrow> 's \<Rightarrow> string \<Rightarrow> string \<Rightarrow> string list \<Rightarrow> (go_error + i32) \<times> 's" where
  "srv_DeleteUserItemFeedback db s userId itemId types =
     call_then (\<lambda>n. Inr (to_int32 n)) (\<lambda>s. dst_DeleteUserItemFeedback (db_Store db) s userId itemId types) s"

definition srv_BatchInsertFeedback :: "'b json_codec \<Rightarrow> ('s, 'w) database \<Rightarrow> 's \<Rightarrow> ('w, 'b) pb_feedback list \<Rightarrow> bool \<Rightarrow> bool \<Rightarrow> bool \<Rightarrow>
    go_error option \<times> 's" where
  "srv_BatchInsertFeedback C db s ps insertUser insertItem overwrite =
     then_do (feedbackFromPB C ps) (\<lambda>fs s. dst_BatchInsertFeedback (db_Store db) s fs insertUser insertItem overwrite) s"

definition srv_GetFeedback :: "'b json_codec \<Rightarrow> ('s, 'w) database \<Rightarrow> 's \<Rightarrow> string \<Rightarrow> i32 \<Rightarrow> time option \<Rightarrow> time option \<Rightarrow> 'w pb_expr list \<Rightarrow>
    (go_error + string \<times> ('w, 'b) pb_feedback list) \<times> 's" where
  "srv_GetFeedback C db s cursor n beginTime endTime types =
     call_then (\<lambda>(cursor, fs). p_bind (feedbackToPB C fs) (\<lambda>ps. Inr (cursor, ps)))
       (\<lambda>s. dst_GetFeedback (db_Store db) s cursor (sint n) beginTime endTime (map pb_FeedbackType types)) s"

definition srv_GetUserStream :: "'b json_codec \<Rightarrow> ('s, 'w) database \<Rightarrow> 's \<Rightarrow> i32 \<Rightarrow> ('b pb_user list list \<times> go_error option) \<times> 's" where
  "srv_GetUserStream C db s batchSize = relay_stream (p_map (stored_user_to_pb C)) (db_GetUserStream db s (sint batchSize))"

definition srv_GetItemStream :: "'b json_codec \<Rightarrow> ('s, 'w) database \<Rightarrow> 's \<Rightarrow> i32 \<Rightarrow> time option \<Rightarrow> ('b pb_item list list \<times> go_error option) \<times> 's" where
  "srv_GetItemStream C db s batchSize timeLimit =
     relay_stream (p_map (stored_item_to_pb C)) (db_GetItemStream db s (sint batchSize) timeLimit)"

text \<open>A list of types that arrives empty is nil.\<close>

definition scan_options_from_pb :: "'w::zero pb_scan_options \<Rightarrow> 'w scan_option list" where
  "scan_options_from_pb p =
     (case pbs_BeginTime p of Some t \<Rightarrow> [WithBeginTime t] | None \<Rightarrow> []) @
     (case pbs_EndTime p of Some t \<Rightarrow> [WithEndTime t] | None \<Rightarrow> []) @
     (if pbs_FeedbackTypes p \<noteq> [] then [WithFeedbackTypes (map (FeedbackExpr_FromPB zero_expr) (pbs_FeedbackTypes p))] else []) @
     (case pbs_BeginUserId p of Some u \<Rightarrow> [WithBeginUserId u] | None \<Rightarrow> []) @
     (case pbs_EndUserId p of Some u \<Rightarrow> [WithEndUserId u] | None \<Rightarrow> []) @
     (case pbs_BeginItemId p of Some i \<Rightarrow> [WithBeginItemId i] | None \<Rightarrow> []) @
     (case pbs_EndItemId p of Some i \<Rightarrow> [WithEndItemId i] | None \<Rightarrow> []) @
     (if pbs_OrderByItemId p then [WithOrderByItemId] else [])"

definition srv_GetFeedbackStream :: "'b json_codec \<Rightarrow> ('s, 'w::zero) database \<Rightarrow> 's \<Rightarrow> i32 \<Rightarrow> 'w pb_scan_options \<Rightarrow>
    (('w, 'b) pb_feedback list list \<times> go_error option) \<times> 's" where
  "srv_GetFeedbackStream C db s batchSize p =
     relay_stream (feedbackToPB C) (db_GetFeedbackStream db s (sint batchSize) (scan_options_from_pb p))"

definition srv_CountUsers :: "('s, 'w) database \<Rightarrow> 's \<Rightarrow> (go_error + i32) \<times> 's" where
  "srv_CountUsers db s = call_then (\<lambda>n. Inr (to_int32 n)) (dst_CountUsers (db_Store db)) s"

definition srv_CountItems :: "('s, 'w) database \<Rightarrow> 's \<Rightarrow> (go_error + i32) \<times> 's" where
  "srv_CountItems db s = call_then (\<lambda>n. Inr (to_int32 n)) (dst_CountItems (db_Store db)) s"

definition srv_CountFeedback :: "('s, 'w) database \<Rightarrow> 's \<Rightarrow> (go_error + i32) \<times> 's" where
  "srv_CountFeedback db s = call_then (\<lambda>n. Inr (to_int32 n)) (db_CountFeedback db) s"

definition srv_GetLatestItems :: "'b json_codec \<Rightarrow> ('s, 'w) database \<Rightarrow> 's \<Rightarrow> i32 \<Rightarrow> string list \<Rightarrow> time option \<Rightarrow> (go_error + 'b pb_item list) \<times> 's" where
  "srv_GetLatestItems C db s n categories after =
     call_then (p_map (stored_item_to_pb C)) (\<lambda>s. ddb_GetLatestItems (db_Main db) s (sint n) categories after) s"

definition NewProxyServer :: "'b json_codec \<Rightarrow> ('s, 'w::zero) database \<Rightarrow> ('s, 'w, 'b) data_rpc" where
  "NewProxyServer C db =
     \<lparr>rpc_Ping = srv_Ping db, rpc_Reconcile = srv_Reconcile db, rpc_BatchInsertItems = srv_BatchInsertItems C db,
      rpc_BatchGetItems = srv_BatchGetItems C db, rpc_DeleteItem = srv_DeleteItem db, rpc_GetItem = srv_GetItem C db,
      rpc_SearchItems = srv_SearchItems C db, rpc_ModifyItem = srv_ModifyItem C db, rpc_GetItems = srv_GetItems C db,
      rpc_GetItemFeedback = srv_GetItemFeedback C db, rpc_BatchInsertUsers = srv_BatchInsertUsers C db, rpc_DeleteUser = srv_DeleteUser db,
      rpc_GetUser = srv_GetUser C db, rpc_ModifyUser = srv_ModifyUser C db, rpc_GetUsers = srv_GetUsers C db,
      rpc_GetUserFeedback = srv_GetUserFeedback C db, rpc_GetUserItemFeedback = srv_GetUserItemFeedback C db,
      rpc_DeleteUserItemFeedback = srv_DeleteUserItemFeedback db, rpc_BatchInsertFeedback = srv_BatchInsertFeedback C db,
      rpc_GetFeedback = srv_GetFeedback C db, rpc_GetUserStream = srv_GetUserStream C db, rpc_GetItemStream = srv_GetItemStream C db,
      rpc_GetFeedbackStream = srv_GetFeedbackStream C db, rpc_CountUsers = srv_CountUsers db, rpc_CountItems = srv_CountItems db,
      rpc_CountFeedback = srv_CountFeedback db, rpc_GetLatestItems = srv_GetLatestItems C db\<rparr>"

subsection \<open>The client\<close>

definition cl_BatchInsertItems :: "'b json_codec \<Rightarrow> ('s, 'w, 'b) data_rpc \<Rightarrow> 's \<Rightarrow> item list \<Rightarrow> go_error option \<times> 's" where
  "cl_BatchInsertItems C stub s items = then_do (p_map (item_to_pb C (\<lambda>i. None)) items) (\<lambda>ps s. rpc_BatchInsertItems stub s ps) s"

definition cl_BatchGetItems :: "'b json_codec \<Rightarrow> ('s, 'w, 'b) data_rpc \<Rightarrow> 's \<Rightarrow> string list \<Rightarrow> get_options \<Rightarrow> (go_error + item list) \<times> 's" where
  "cl_BatchGetItems C stub s itemIds opts =
     (let pbOpts = (if go_Categories opts \<noteq> [] \<or> go_SkipHidden opts \<or> go_ReturnId opts \<or> go_After opts \<noteq> None then Some opts else None)
      in call_then (p_map (stored_item_from_pb C)) (\<lambda>s. rpc_BatchGetItems stub s itemIds pbOpts) s)"

definition cl_GetItem :: "'b json_codec \<Rightarrow> ('s, 'w, 'b) data_rpc \<Rightarrow> 's \<Rightarrow> string \<Rightarrow> (go_error + item) \<times> 's" where
  "cl_GetItem C stub s itemId =
     call_then (\<lambda>p. case p of None \<Rightarrow> Inl (ErrWrap (''item '' @ itemId) ErrNotFound) | Some p \<Rightarrow> stored_item_from_pb C p)
       (\<lambda>s. rpc_GetItem stub s itemId) s"

definition cl_SearchItems :: "'b json_codec \<Rightarrow> ('s, 'w, 'b) data_rpc \<Rightarrow> 's \<Rightarrow> string \<Rightarrow> int \<Rightarrow> (go_error + 'w scored_item list) \<times> 's" where
  "cl_SearchItems C stub s query n = call_then (p_map (scored_item_from_pb C)) (\<lambda>s. rpc_SearchItems stub s query (to_int32 n)) s"

definition cl_GetLatestItems :: "'b json_codec \<Rightarrow> ('s, 'w, 'b) data_rpc \<Rightarrow> 's \<Rightarrow> int \<Rightarrow> string list \<Rightarrow> time option \<Rightarrow> (go_error + item list) \<times> 's" where
  "cl_GetLatestItems C stub s n categories after =
     call_then (p_map (stored_item_from_pb C)) (\<lambda>s. rpc_GetLatestItems stub s (to_int32 n) categories after) s"

definition cl_ModifyItem :: "'b json_codec \<Rightarrow> ('s, 'w, 'b) data_rpc \<Rightarrow> 's \<Rightarrow> string \<Rightarrow> item_patch \<Rightarrow> go_error option \<times> 's" where
  "cl_ModifyItem C stub s itemId patch =
     then_do (if ip_Labels patch \<noteq> JNull then jc_Marshal C (ip_Labels patch) else Inr (jc_nil C))
       (\<lambda>labels s. rpc_ModifyItem stub s itemId
         \<lparr>pbp_IsHidden = ip_IsHidden patch, pbp_Categories = (case ip_Categories patch of None \<Rightarrow> [] | Some cs \<Rightarrow> cs),
          pbp_Timestamp = ip_Timestamp patch, pbp_Labels = labels, pbp_Comment = ip_Comment patch\<rparr>) s"

definition cl_GetItems :: "'b json_codec \<Rightarrow> ('s, 'w, 'b) data_rpc \<Rightarrow> 's \<Rightarrow> string \<Rightarrow> int \<Rightarrow> time option \<Rightarrow> (go_error + string \<times> item list) \<times> 's" where
  "cl_GetItems C stub s cursor n beginTime =
     call_then (\<lambda>(cursor, ps). p_bind (p_map (stored_item_from_pb C) ps) (\<lambda>items. Inr (cursor, items)))
       (\<lambda>s. rpc_GetItems stub s cursor (to_int32 n) beginTime) s"

text \<open>A plain feedback type travels as an expression without a condition.\<close>

definition type_to_pb :: "string \<Rightarrow> 'w::zero pb_expr" where
  "type_to_pb t = \<lparr>pb_FeedbackType = t, pb_ExpressionType = PB_None, pb_Value = 0\<rparr>"

definition cl_GetItemFeedback :: "'b json_codec \<Rightarrow> ('s, 'w::zero, 'b) data_rpc \<Rightarrow> 's \<Rightarrow> string \<Rightarrow> string list \<Rightarrow> (go_error + 'w feedback list) \<times> 's" where
  "cl_GetItemFeedback C stub s itemId types =
     call_then (feedbackFromPB C) (\<lambda>s. rpc_GetItemFeedback stub s itemId (map type_to_pb types)) s"

definition cl_BatchInsertUsers :: "'b json_codec \<Rightarrow> ('s, 'w, 'b) data_rpc \<Rightarrow> 's \<Rightarrow> user list \<Rightarrow> go_error option \<times> 's" where
  "cl_BatchInsertUsers C stub s users = then_do (p_map (user_to_pb C (\<lambda>u. None)) users) (\<lambda>ps s. rpc_BatchInsertUsers stub s ps) s"

definition cl_GetUser :: "'b json_codec \<Rightarrow> ('s, 'w, 'b) data_rpc \<Rightarrow> 's \<Rightarrow> string \<Rightarrow> (go_error + user) \<times> 's" where
  "cl_GetUser C stub s userId =
     call_then (\<lambda>p. case p of None \<Rightarrow> Inl (ErrWrap (''user '' @ userId) ErrNotFound) | Some p \<Rightarrow> stored_user_from_pb C p)
       (\<lambda>s. rpc_GetUser stub s userId) s"

definition cl_ModifyUser :: "'b json_codec \<Rightarrow> ('s, 'w, 'b) data_rpc \<Rightarrow> 's \<Rightarrow> string \<Rightarrow> user_patch \<Rightarrow> go_error option \<times> 's" where
  "cl_ModifyUser C stub s userId patch =
     then_do (if up_Labels patch \<noteq> JNull then jc_Marshal C (up_Labels patch) else Inr (jc_nil C))
       (\<lambda>labels s. rpc_ModifyUser stub s userId \<lparr>pbq_Labels = labels, pbq_Comment = up_Comment patch\<rparr>) s"

definition cl_GetUsers :: "'b json_codec \<Rightarrow> ('s, 'w, 'b) data_rpc \<Rightarrow> 's \<Rightarrow> string \<Rightarrow> int \<Rightarrow> (go_error + string \<times> user list) \<times> 's" where
  "cl_GetUsers C stub s cursor n =
     call_then (\<lambda>(cursor, ps). p_bind (p_map (stored_user_from_pb C) ps) (\<lambda>users. Inr (cursor, users)))
       (\<lambda>s. rpc_GetUsers stub s cursor (to_int32 n)) s"

definition cl_GetUserFeedback :: "'b json_codec \<Rightarrow> ('s, 'w, 'b) data_rpc \<Rightarrow> 's \<Rightarrow> string \<Rightarrow> time option \<Rightarrow> 'w fb_expr list \<Rightarrow> (go_error + 'w feedback list) \<times> 's" where
  "cl_GetUserFeedback C stub s userId endTime types =
     call_then (feedbackFromPB C) (\<lambda>s. rpc_GetUserFeedback stub s userId endTime (map FeedbackExpr_ToPB types)) s"

definition cl_GetUserItemFeedback :: "'b json_codec \<Rightarrow> ('s, 'w::zero, 'b) data_rpc \<Rightarrow> 's \<Rightarrow> string \<Rightarrow> string \<Rightarrow> string list \<Rightarrow>
    (go_error + 'w feedback list) \<times> 's" where
  "cl_GetUserItemFeedback C stub s userId itemId types =
     call_then (feedbackFromPB C) (\<lambda>s. rpc_GetUserItemFeedback stub s userId itemId (map type_to_pb types)) s"

definition cl_DeleteUserItemFeedback :: "('s, 'w, 'b) data_rpc \<Rightarrow> 's \<Rightarrow> string \<Rightarrow> string \<Rightarrow> string list \<Rightarrow> (go_error + int) \<times> 's" where
  "cl_DeleteUserItemFeedback stub s userId itemId types =
     call_then (\<lambda>n. Inr (sint n)) (\<lambda>s. rpc_DeleteUserItemFeedback stub s userId itemId types) s"

definition cl_BatchInsertFeedback :: "'b json_codec \<Rightarrow> ('s, 'w, 'b) data_rpc \<Rightarrow> 's \<Rightarrow> 'w feedback list \<Rightarrow> bool \<Rightarrow> bool \<Rightarrow> bool \<Rightarrow> go_error option \<times> 's" where
  "cl_BatchInsertFeedback C stub s fs insertUser insertItem overwrite =
     then_do (feedbackToPB C fs) (\<lambda>ps s. rpc_BatchInsertFeedback stub s ps insertUser insertItem overwrite) s"

definition cl_GetFeedback :: "'b json_codec \<Rightarrow> ('s, 'w::zero, 'b) data_rpc \<Rightarrow> 's \<Rightarrow> string \<Rightarrow> int \<Rightarrow> time option \<Rightarrow> time option \<Rightarrow> string list \<Rightarrow>
    (go_error + string \<times> 'w feedback list) \<times> 's" where
  "cl_GetFeedback C stub s cursor n beginTime endTime types =
     call_then (\<lambda>(cursor, ps). p_bind (feedbackFromPB C ps) (\<lambda>fs. Inr (cursor, fs)))
       (\<lambda>s. rpc_GetFeedback stub s cursor (to_int32 n) beginTime endTime (map type_to_pb types)) s"

definition cl_GetUserStream :: "'b json_codec \<Rightarrow> ('s, 'w, 'b) data_rpc \<Rightarrow> 's \<Rightarrow> int \<Rightarrow> (user list list \<times> go_error option) \<times> 's" where
  "cl_GetUserStream C stub s batchSize = relay_stream (p_map (stored_user_from_pb C)) (rpc_GetUserStream stub s (to_int32 batchSize))"

text \<open>The time limit of the call is not sent.\<close>

definition cl_GetItemStream :: "'b json_codec \<Rightarrow> ('s, 'w, 'b) data_rpc \<Rightarrow> 's \<Rightarrow> int \<Rightarrow> time option \<Rightarrow> (item list list \<times> go_error option) \<times> 's" where
  "cl_GetItemStream C stub s batchSize timeLimit =
     relay_stream (p_map (stored_item_from_pb C)) (rpc_GetItemStream stub s (to_int32 batchSize) None)"

definition scan_options_to_pb :: "'w scan_options \<Rightarrow> 'w pb_scan_options" where
  "scan_options_to_pb o' =
     \<lparr>pbs_BeginUserId = so_BeginUserId o', pbs_EndUserId = so_EndUserId o', pbs_BeginItemId = so_BeginItemId o', pbs_EndItemId = so_EndItemId o',
      pbs_BeginTime = so_BeginTime o', pbs_EndTime = so_EndTime o', pbs_FeedbackTypes = map FeedbackExpr_ToPB (so_FeedbackTypes o'),
      pbs_OrderByItemId = so_OrderByItemId o'\<rparr>"

definition cl_GetFeedbackStream :: "'b json_codec \<Rightarrow> ('s, 'w, 'b) data_rpc \<Rightarrow> 's \<Rightarrow> int \<Rightarrow> 'w scan_option list \<Rightarrow> ('w feedback list list \<times> go_error option) \<times> 's" where
  "cl_GetFeedbackStream C stub s batchSize options =
     relay_stream (feedbackFromPB C) (rpc_GetFeedbackStream stub s (to_int32 batchSize) (scan_options_to_pb (NewScanOptions (map Some options))))"

definition cl_CountUsers :: "('s, 'w, 'b) data_rpc \<Rightarrow> 's \<Rightarrow> (go_error + int) \<times> 's" where
  "cl_CountUsers stub s = call_then (\<lambda>n. Inr (sint n)) (rpc_CountUsers stub) s"

definition cl_CountItems :: "('s, 'w, 'b) data_rpc \<Rightarrow> 's \<Rightarrow> (go_error + int) \<times> 's" where
  "cl_CountItems stub s = call_then (\<lambda>n. Inr (sint n)) (rpc_CountItems stub) s"

definition cl_CountFeedback :: "('s, 'w, 'b) data_rpc \<Rightarrow> 's \<Rightarrow> (go_error + int) \<times> 's" where
  "cl_CountFeedback stub s = call_then (\<lambda>n. Inr (sint n)) (rpc_CountFeedback stub) s"

definition not_allowed :: "string \<Rightarrow> 's \<Rightarrow> go_error option \<times> 's" where
  "not_allowed name s = (Some (ErrOther (''method '' @ name @ '' is not allowed in ProxyClient'')), s)"

definition NewProxyClient :: "'b json_codec \<Rightarrow> ('s, 'w::zero, 'b) data_rpc \<Rightarrow> ('s, 'w) database" where
  "NewProxyClient C stub =
     \<lparr>db_Main = \<lparr>ddb_BatchGetItems = cl_BatchGetItems C stub, ddb_GetLatestItems = cl_GetLatestItems C stub, ddb_GetUserFeedback = cl_GetUserFeedback C stub\<rparr>,
      db_Store = \<lparr>dst_Ping = rpc_Ping stub, dst_CountUsers = cl_CountUsers stub, dst_CountItems = cl_CountItems stub,
        dst_BatchInsertItems = cl_BatchInsertItems C stub, dst_DeleteItem = rpc_DeleteItem stub, dst_GetItem = cl_GetItem C stub,
        dst_ModifyItem = cl_ModifyItem C stub, dst_GetItems = cl_GetItems C stub, dst_SearchItems = cl_SearchItems C stub,
        dst_GetItemFeedback = cl_GetItemFeedback C stub, dst_BatchInsertUsers = cl_BatchInsertUsers C stub, dst_DeleteUser = rpc_DeleteUser stub,
        dst_GetUser = cl_GetUser C stub, dst_ModifyUser = cl_ModifyUser C stub, dst_GetUsers = cl_GetUsers C stub,
        dst_GetUserItemFeedback = cl_GetUserItemFeedback C stub, dst_DeleteUserItemFeedback = cl_DeleteUserItemFeedback stub,
        dst_BatchInsertFeedback = cl_BatchInsertFeedback C stub, dst_GetFeedback = cl_GetFeedback C stub\<rparr>,
      db_Init = not_allowed ''Init'', db_Reconcile = rpc_Reconcile stub, db_Close = (\<lambda>s. (None, s)), db_Optimize = (\<lambda>s. (None, s)),
      db_Purge = not_allowed ''Purge'', db_CountFeedback = cl_CountFeedback stub, db_GetUserStream = cl_GetUserStream C stub,
      db_GetItemStream = cl_GetItemStream C stub, db_GetFeedbackStream = cl_GetFeedbackStream C stub\<rparr>"

subsection \<open>No database\<close>

text \<open>\<open>storage/data/no_database.go\<close>; a stream only carries the error.\<close>

definition NoDatabase :: "('s, 'w) database" where
  "NoDatabase =
     \<lparr>db_Main = \<lparr>ddb_BatchGetItems = (\<lambda>s is o'. (Inl ErrNoDatabase, s)), ddb_GetLatestItems = (\<lambda>s n cs t. (Inl ErrNoDatabase, s)),
        ddb_GetUserFeedback = (\<lambda>s u t es. (Inl ErrNoDatabase, s))\<rparr>,
      db_Store = \<lparr>dst_Ping = (\<lambda>s. (Some ErrNoDatabase, s)), dst_CountUsers = (\<lambda>s. (Inl ErrNoDatabase, s)), dst_CountItems = (\<lambda>s. (Inl ErrNoDatabase, s)),
        dst_BatchInsertItems = (\<lambda>s is. (Some ErrNoDatabase, s)), dst_DeleteItem = (\<lambda>s i. (Some ErrNoDatabase, s)),
        dst_GetItem = (\<lambda>s i. (Inl ErrNoDatabase, s)), dst_ModifyItem = (\<lambda>s i p. (Some ErrNoDatabase, s)),
        dst_GetItems = (\<lambda>s c n t. (Inl ErrNoDatabase, s)), dst_SearchItems = (\<lambda>s q n. (Inl ErrNoDatabase, s)),
        dst_GetItemFeedback = (\<lambda>s i ts. (Inl ErrNoDatabase, s)), dst_BatchInsertUsers = (\<lambda>s us. (Some ErrNoDatabase, s)),
        dst_DeleteUser = (\<lambda>s u. (Some ErrNoDatabase, s)), dst_GetUser = (\<lambda>s u. (Inl ErrNoDatabase, s)),
        dst_ModifyUser = (\<lambda>s u p. (Some ErrNoDatabase, s)), dst_GetUsers = (\<lambda>s c n. (Inl ErrNoDatabase, s)),
        dst_GetUserItemFeedback = (\<lambda>s u i ts. (Inl ErrNoDatabase, s)), dst_DeleteUserItemFeedback = (\<lambda>s u i ts. (Inl ErrNoDatabase, s)),
        dst_BatchInsertFeedback = (\<lambda>s fs a b c. (Some ErrNoDatabase, s)), dst_GetFeedback = (\<lambda>s c n b e ts. (Inl ErrNoDatabase, s))\<rparr>,
      db_Init = (\<lambda>s. (Some ErrNoDatabase, s)), db_Reconcile = (\<lambda>s cs. (Some ErrNoDatabase, s)), db_Close = (\<lambda>s. (Some ErrNoDatabase, s)),
      db_Optimize = (\<lambda>s. (Some ErrNoDatabase, s)), db_Purge = (\<lambda>s. (Some ErrNoDatabase, s)), db_CountFeedback = (\<lambda>s. (Inl ErrNoDatabase, s)),
      db_GetUserStream = (\<lambda>s n. (([], Some ErrNoDatabase), s)), db_GetItemStream = (\<lambda>s n t. (([], Some ErrNoDatabase), s)),
      db_GetFeedbackStream = (\<lambda>s n opts. (([], Some ErrNoDatabase), s))\<rparr>"

end
