(* ===== verification/Data_Proxy_Props.thy ===== *)
theory Data_Proxy_Props
  imports Data_Proxy Rest_Props
begin

text \<open>
  The proxy refines the database behind it: a client whose stub delivers to a server over a database is, method by method,
  that database with labels as JSON decodes them, errors as gRPC reports them, and 32-bit numbers.
\<close>

subsection \<open>What is relied on\<close>

text \<open>Every label has an encoding, which is not empty and is decoded to \<open>D\<close> of the label (numbers become floats).\<close>

definition codec_ok :: "'b json_codec \<Rightarrow> (json \<Rightarrow> json) \<Rightarrow> bool" where
  "codec_ok C D \<longleftrightarrow> (\<forall>j. \<exists>b. jc_Marshal C j = Inr b \<and> b \<noteq> jc_nil C \<and> jc_Unmarshal C b = Inr (D j)) \<and> D JNull = JNull"

definition delivers :: "(go_error \<Rightarrow> go_error) \<Rightarrow> ('s, 'w, 'b) data_rpc \<Rightarrow> ('s, 'w, 'b) data_rpc \<Rightarrow> bool" where
  "delivers st stub srv \<longleftrightarrow>
     (\<forall>s. rpc_Ping stub s = did st (rpc_Ping srv s)) \<and>
     (\<forall>s cs. rpc_Reconcile stub s cs = did st (rpc_Reconcile srv s cs)) \<and>
     (\<forall>s ps. rpc_BatchInsertItems stub s ps = did st (rpc_BatchInsertItems srv s ps)) \<and>
     (\<forall>s is o'. rpc_BatchGetItems stub s is o' = got st id (rpc_BatchGetItems srv s is o')) \<and>
     (\<forall>s i. rpc_DeleteItem stub s i = did st (rpc_DeleteItem srv s i)) \<and>
     (\<forall>s i. rpc_GetItem stub s i = got st id (rpc_GetItem srv s i)) \<and>
     (\<forall>s q n. rpc_SearchItems stub s q n = got st id (rpc_SearchItems srv s q n)) \<and>
     (\<forall>s i p. rpc_ModifyItem stub s i p = did st (rpc_ModifyItem srv s i p)) \<and>
     (\<forall>s c n t. rpc_GetItems stub s c n t = got st id (rpc_GetItems srv s c n t)) \<and>
     (\<forall>s i ts. rpc_GetItemFeedback stub s i ts = got st id (rpc_GetItemFeedback srv s i ts)) \<and>
     (\<forall>s ps. rpc_BatchInsertUsers stub s ps = did st (rpc_BatchInsertUsers srv s ps)) \<and>
     (\<forall>s u. rpc_DeleteUser stub s u = did st (rpc_DeleteUser srv s u)) \<and>
     (\<forall>s u. rpc_GetUser stub s u = got st id (rpc_GetUser srv s u)) \<and>
     (\<forall>s u p. rpc_ModifyUser stub s u p = did st (rpc_ModifyUser srv s u p)) \<and>
     (\<forall>s c n. rpc_GetUsers stub s c n = got st id (rpc_GetUsers srv s c n)) \<and>
     (\<forall>s u t ts. rpc_GetUserFeedback stub s u t ts = got st id (rpc_GetUserFeedback srv s u t ts)) \<and>
     (\<forall>s u i ts. rpc_GetUserItemFeedback stub s u i ts = got st id (rpc_GetUserItemFeedback srv s u i ts)) \<and>
     (\<forall>s u i ts. rpc_DeleteUserItemFeedback stub s u i ts = got st id (rpc_DeleteUserItemFeedback srv s u i ts)) \<and>
     (\<forall>s ps a b c. rpc_BatchInsertFeedback stub s ps a b c = did st (rpc_BatchInsertFeedback srv s ps a b c)) \<and>
     (\<forall>s c n a b ts. rpc_GetFeedback stub s c n a b ts = got st id (rpc_GetFeedback srv s c n a b ts)) \<and>
     (\<forall>s n. rpc_GetUserStream stub s n = streamed st id (rpc_GetUserStream srv s n)) \<and>
     (\<forall>s n t. rpc_GetItemStream stub s n t = streamed st id (rpc_GetItemStream srv s n t)) \<and>
     (\<forall>s n p. rpc_GetFeedbackStream stub s n p = streamed st id (rpc_GetFeedbackStream srv s n p)) \<and>
     (\<forall>s. rpc_CountUsers stub s = got st id (rpc_CountUsers srv s)) \<and>
     (\<forall>s. rpc_CountItems stub s = got st id (rpc_CountItems srv s)) \<and>
     (\<forall>s. rpc_CountFeedback stub s = got st id (rpc_CountFeedback srv s)) \<and>
     (\<forall>s n cs t. rpc_GetLatestItems stub s n cs t = got st id (rpc_GetLatestItems srv s n cs t))"

text \<open>The database reads only the scan options that its options amount to.\<close>

definition scan_law :: "('s, 'w) database \<Rightarrow> bool" where
  "scan_law db \<longleftrightarrow> (\<forall>s n opts opts'. NewScanOptions (map Some opts) = NewScanOptions (map Some opts') \<longrightarrow>
     db_GetFeedbackStream db s n opts = db_GetFeedbackStream db s n opts')"

subsection \<open>The specification\<close>

definition decoded_item :: "(json \<Rightarrow> json) \<Rightarrow> item \<Rightarrow> item" where
  "decoded_item D i = i\<lparr>item_Labels := D (item_Labels i)\<rparr>"

definition decoded_user :: "(json \<Rightarrow> json) \<Rightarrow> user \<Rightarrow> user" where
  "decoded_user D u = u\<lparr>user_Labels := D (user_Labels u)\<rparr>"

definition decoded_feedback :: "(json \<Rightarrow> json) \<Rightarrow> 'w feedback \<Rightarrow> 'w feedback" where
  "decoded_feedback D f = f\<lparr>fb_Labels := D (fb_Labels f)\<rparr>"

text \<open>Inserted items and users lose the time of the last write, which the storage assigns; a patch cannot clear the categories.\<close>

definition sent_item :: "(json \<Rightarrow> json) \<Rightarrow> item \<Rightarrow> item" where
  "sent_item D i = (decoded_item D i)\<lparr>item_UpdateAt := 0\<rparr>"

definition sent_user :: "(json \<Rightarrow> json) \<Rightarrow> user \<Rightarrow> user" where
  "sent_user D u = (decoded_user D u)\<lparr>user_UpdateAt := 0\<rparr>"

definition sent_patch :: "(json \<Rightarrow> json) \<Rightarrow> item_patch \<Rightarrow> item_patch" where
  "sent_patch D p = p\<lparr>ip_Labels := D (ip_Labels p), ip_Categories := (if ip_Categories p = Some [] then None else ip_Categories p)\<rparr>"

definition named_not_found :: "(go_error \<Rightarrow> go_error) \<Rightarrow> string \<Rightarrow> go_error \<Rightarrow> go_error" where
  "named_not_found st name e = (if errors_Is e ErrNotFound then ErrWrap name ErrNotFound else st e)"

definition remote_database :: "(go_error \<Rightarrow> go_error) \<Rightarrow> (json \<Rightarrow> json) \<Rightarrow> ('s, 'w) database \<Rightarrow> ('s, 'w) database" where
  "remote_database st D db =
     (let main = db_Main db; store = db_Store db in
      \<lparr>db_Main =
        \<lparr>ddb_BatchGetItems = (\<lambda>s is o'. got st (map (decoded_item D)) (ddb_BatchGetItems main s is o')),
         ddb_GetLatestItems = (\<lambda>s n cs t. got st (map (decoded_item D)) (ddb_GetLatestItems main s (int32 n) cs t)),
         ddb_GetUserFeedback = (\<lambda>s u t es. got st (map (decoded_feedback D)) (ddb_GetUserFeedback main s u t es))\<rparr>,
       db_Store =
        \<lparr>dst_Ping = (\<lambda>s. did st (dst_Ping store s)),
         dst_CountUsers = (\<lambda>s. got st int32 (dst_CountUsers store s)), dst_CountItems = (\<lambda>s. got st int32 (dst_CountItems store s)),
         dst_BatchInsertItems = (\<lambda>s is. did st (dst_BatchInsertItems store s (map (sent_item D) is))),
         dst_DeleteItem = (\<lambda>s i. did st (dst_DeleteItem store s i)),
         dst_GetItem = (\<lambda>s i. got (named_not_found st (''item '' @ i)) (decoded_item D) (dst_GetItem store s i)),
         dst_ModifyItem = (\<lambda>s i p. did st (dst_ModifyItem store s i (sent_patch D p))),
         dst_GetItems = (\<lambda>s c n t. got st (map_prod id (map (decoded_item D))) (dst_GetItems store s c (int32 n) t)),
         dst_SearchItems = (\<lambda>s q n. got st (map (\<lambda>x. x\<lparr>si_Item := decoded_item D (si_Item x)\<rparr>)) (dst_SearchItems store s q (int32 n))),
         dst_GetItemFeedback = (\<lambda>s i ts. got st (map (decoded_feedback D)) (dst_GetItemFeedback store s i ts)),
         dst_BatchInsertUsers = (\<lambda>s us. did st (dst_BatchInsertUsers store s (map (sent_user D) us))),
         dst_DeleteUser = (\<lambda>s u. did st (dst_DeleteUser store s u)),
         dst_GetUser = (\<lambda>s u. got (named_not_found st (''user '' @ u)) (decoded_user D) (dst_GetUser store s u)),
         dst_ModifyUser = (\<lambda>s u p. did st (dst_ModifyUser store s u (p\<lparr>up_Labels := D (up_Labels p)\<rparr>))),
         dst_GetUsers = (\<lambda>s c n. got st (map_prod id (map (decoded_user D))) (dst_GetUsers store s c (int32 n))),
         dst_GetUserItemFeedback = (\<lambda>s u i ts. got st (map (decoded_feedback D)) (dst_GetUserItemFeedback store s u i ts)),
         dst_DeleteUserItemFeedback = (\<lambda>s u i ts. got st int32 (dst_DeleteUserItemFeedback store s u i ts)),
         dst_BatchInsertFeedback = (\<lambda>s fs a b c. did st (dst_BatchInsertFeedback store s (map (decoded_feedback D) fs) a b c)),
         dst_GetFeedback = (\<lambda>s c n a b ts. got st (map_prod id (map (decoded_feedback D))) (dst_GetFeedback store s c (int32 n) a b ts))\<rparr>,
       db_Init = not_allowed ''Init'', db_Reconcile = (\<lambda>s cs. did st (db_Reconcile db s cs)), db_Close = (\<lambda>s. (None, s)),
       db_Optimize = (\<lambda>s. (None, s)), db_Purge = not_allowed ''Purge'', db_CountFeedback = (\<lambda>s. got st int32 (db_CountFeedback db s)),
       db_GetUserStream = (\<lambda>s n. streamed st (map (decoded_user D)) (db_GetUserStream db s (int32 n))),
       db_GetItemStream = (\<lambda>s n t. streamed st (map (decoded_item D)) (db_GetItemStream db s (int32 n) None)),
       db_GetFeedbackStream = (\<lambda>s n opts. streamed st (map (decoded_feedback D)) (db_GetFeedbackStream db s (int32 n) opts))\<rparr>)"

subsection \<open>Conversions that meet\<close>

lemma codec_ex: "codec_ok C D \<Longrightarrow> \<exists>b. jc_Marshal C j = Inr b \<and> b \<noteq> jc_nil C \<and> jc_Unmarshal C b = Inr (D j)"
  by (simp add: codec_ok_def)

lemma codec_both: "codec_ok C D \<Longrightarrow> p_bind (jc_Marshal C j) (\<lambda>b. p_bind (jc_Unmarshal C b) f) = f (D j)"
  using codec_ex [of C D j] by auto

lemma codec_both_nonempty:
  "codec_ok C D \<Longrightarrow> p_bind (jc_Marshal C j) (\<lambda>b. p_bind (if b = jc_nil C then Inr JNull else jc_Unmarshal C b) f) = f (D j)"
  using codec_ex [of C D j] by auto

lemma stored_item_both: "codec_ok C D \<Longrightarrow> p_bind (stored_item_to_pb C i) (stored_item_from_pb C) = Inr (decoded_item D i)"
  unfolding stored_item_to_pb_def stored_item_from_pb_def item_to_pb_def item_from_pb_def p_bind_assoc
  by (cases i) (simp add: codec_both decoded_item_def AsTime_def timeFromPB_def)

lemma sent_item_both: "codec_ok C D \<Longrightarrow> p_bind (item_to_pb C (\<lambda>i. None) i) (item_from_pb C (\<lambda>p. 0)) = Inr (sent_item D i)"
  unfolding item_to_pb_def item_from_pb_def p_bind_assoc
  by (cases i) (simp add: codec_both sent_item_def decoded_item_def AsTime_def)

lemma scored_item_both:
  "codec_ok C D \<Longrightarrow> p_bind (scored_item_to_pb C x) (scored_item_from_pb C) = Inr (x\<lparr>si_Item := decoded_item D (si_Item x)\<rparr>)"
  using stored_item_both [of C D "si_Item x"] unfolding scored_item_to_pb_def scored_item_from_pb_def p_bind_assoc
  by (cases x, cases "stored_item_to_pb C (si_Item x)") (auto simp: p_bind_def)

lemma stored_user_both: "codec_ok C D \<Longrightarrow> p_bind (stored_user_to_pb C u) (stored_user_from_pb C) = Inr (decoded_user D u)"
  unfolding stored_user_to_pb_def stored_user_from_pb_def user_to_pb_def user_from_pb_def p_bind_assoc
  by (cases u) (simp add: codec_both decoded_user_def timeFromPB_def)

lemma sent_user_both: "codec_ok C D \<Longrightarrow> p_bind (user_to_pb C (\<lambda>i. None) u) (user_from_pb C (\<lambda>p. 0)) = Inr (sent_user D u)"
  unfolding user_to_pb_def user_from_pb_def p_bind_assoc
  by (cases u) (simp add: codec_both sent_user_def decoded_user_def)

lemma feedback_both: "codec_ok C D \<Longrightarrow> p_bind (feedback_to_pb C f) (feedback_from_pb C) = Inr (decoded_feedback D f)"
  unfolding feedback_to_pb_def feedback_from_pb_def p_bind_assoc
  by (cases f) (simp add: codec_both_nonempty decoded_feedback_def AsTime_def cong: if_cong)

lemma feedbacks_both: "codec_ok C D \<Longrightarrow> p_bind (feedbackToPB C fs) (feedbackFromPB C) = Inr (map (decoded_feedback D) fs)"
  unfolding feedbackToPB_def feedbackFromPB_def by (intro p_map_both feedback_both)

lemma scan_options_both:
  "NewScanOptions (map Some (scan_options_from_pb (scan_options_to_pb o'))) = (o' :: 'w::zero scan_options)"
  unfolding scan_options_from_pb_def scan_options_to_pb_def NewScanOptions_def
  by (cases o') (auto simp: WithBeginUserId_def WithEndUserId_def WithBeginItemId_def WithEndItemId_def WithBeginTime_def WithEndTime_def
    WithFeedbackTypes_def WithOrderByItemId_def FeedbackExpr_PB_roundtrip o_def split: option.splits)

lemma type_names [simp]: "map pb_FeedbackType (map type_to_pb ts) = ts"
  by (simp add: type_to_pb_def o_def)

lemma exprs_both [simp]: "map (FeedbackExpr_FromPB e) (map FeedbackExpr_ToPB es) = es"
  by (simp add: FeedbackExpr_PB_roundtrip o_def)

lemma get_options_sent:
  "(case if go_Categories o' \<noteq> [] \<or> go_SkipHidden o' \<or> go_ReturnId o' \<or> go_After o' \<noteq> None then Some o' else None of
     None \<Rightarrow> no_get_options | Some x \<Rightarrow> x) = o'"
  by (cases o') (auto simp: no_get_options_def)

lemma patch_labels_both:
  assumes "codec_ok C D"
  shows "p_bind (if l \<noteq> JNull then jc_Marshal C l else Inr (jc_nil C)) (\<lambda>b. if b \<noteq> jc_nil C then jc_Unmarshal C b else Inr JNull) = Inr (D l)"
  using assms unfolding codec_ok_def by (cases "l = JNull") (auto simp: p_bind_def dest!: spec [of _ l])

lemma not_found_both:
  assumes "\<And>x. p_bind (f x) g = Inr (k x)"
  shows "call_then (\<lambda>p. case p of None \<Rightarrow> Inl (ErrWrap name ErrNotFound) | Some p \<Rightarrow> g p)
      (\<lambda>s. got st id (case m s of (Inl e, s') \<Rightarrow> (if errors_Is e ErrNotFound then Inr None else Inl e, s')
                              | (Inr x, s') \<Rightarrow> (p_bind (f x) (\<lambda>p. Inr (Some p)), s'))) s
    = got (named_not_found st name) k (m s)"
proof (cases "m s")
  case (Pair r s')
  show ?thesis
  proof (cases r)
    case (Inr x)
    from assms [of x] obtain y where "f x = Inr y" "g y = Inr (k x)" by (auto simp: p_bind_Inr)
    then show ?thesis using Pair Inr by (simp add: call_then_def got_def)
  qed (use Pair in \<open>simp add: call_then_def got_def named_not_found_def\<close>)
qed

text \<open>The calls of a stub that delivers to the server.\<close>

lemma stub_calls:
  assumes "delivers st stub (NewProxyServer C db)"
  shows
    "rpc_Ping stub s = did st (srv_Ping db s)"
    "rpc_Reconcile stub s cs = did st (srv_Reconcile db s cs)"
    "rpc_BatchInsertItems stub s ps = did st (srv_BatchInsertItems C db s ps)"
    "rpc_BatchGetItems stub s is o' = got st id (srv_BatchGetItems C db s is o')"
    "rpc_DeleteItem stub s i = did st (srv_DeleteItem db s i)"
    "rpc_GetItem stub s i = got st id (srv_GetItem C db s i)"
    "rpc_SearchItems stub s q n = got st id (srv_SearchItems C db s q n)"
    "rpc_ModifyItem stub s i p = did st (srv_ModifyItem C db s i p)"
    "rpc_GetItems stub s c n t = got st id (srv_GetItems C db s c n t)"
    "rpc_GetItemFeedback stub s i ts = got st id (srv_GetItemFeedback C db s i ts)"
    "rpc_BatchInsertUsers stub s us = did st (srv_BatchInsertUsers C db s us)"
    "rpc_DeleteUser stub s u = did st (srv_DeleteUser db s u)"
    "rpc_GetUser stub s u = got st id (srv_GetUser C db s u)"
    "rpc_ModifyUser stub s u qp = did st (srv_ModifyUser C db s u qp)"
    "rpc_GetUsers stub s c n = got st id (srv_GetUsers C db s c n)"
    "rpc_GetUserFeedback stub s u t es = got st id (srv_GetUserFeedback C db s u t es)"
    "rpc_GetUserItemFeedback stub s u i ts = got st id (srv_GetUserItemFeedback C db s u i ts)"
    "rpc_DeleteUserItemFeedback stub s u i ns = got st id (srv_DeleteUserItemFeedback db s u i ns)"
    "rpc_BatchInsertFeedback stub s fs a b c' = did st (srv_BatchInsertFeedback C db s fs a b c')"
    "rpc_GetFeedback stub s c n t t' ts = got st id (srv_GetFeedback C db s c n t t' ts)"
    "rpc_GetUserStream stub s n = streamed st id (srv_GetUserStream C db s n)"
    "rpc_GetItemStream stub s n t = streamed st id (srv_GetItemStream C db s n t)"
    "rpc_GetFeedbackStream stub s n so = streamed st id (srv_GetFeedbackStream C db s n so)"
    "rpc_CountUsers stub s = got st id (srv_CountUsers db s)"
    "rpc_CountItems stub s = got st id (srv_CountItems db s)"
    "rpc_CountFeedback stub s = got st id (srv_CountFeedback db s)"
    "rpc_GetLatestItems stub s n cs t = got st id (srv_GetLatestItems C db s n cs t)"
  using assms unfolding delivers_def NewProxyServer_def by simp_all

lemma client_BatchInsertItems:
  assumes C: "codec_ok C D" and stub: "delivers st stub (NewProxyServer C db)"
  shows "cl_BatchInsertItems C stub s is = did st (dst_BatchInsertItems (db_Store db) s (map (sent_item D) is))"
  unfolding cl_BatchInsertItems_def srv_BatchInsertItems_def stub_calls [OF stub] by (rule do_both [OF p_map_both [OF sent_item_both [OF C]]])

lemma client_BatchGetItems:
  assumes C: "codec_ok C D" and stub: "delivers st stub (NewProxyServer C db)"
  shows "cl_BatchGetItems C stub s ids o' = got st (map (decoded_item D)) (ddb_BatchGetItems (db_Main db) s ids o')"
  unfolding cl_BatchGetItems_def srv_BatchGetItems_def stub_calls [OF stub] Let_def get_options_sent by (rule call_both [OF p_map_both [OF stored_item_both [OF C]]])

lemma client_GetItem:
  assumes C: "codec_ok C D" and stub: "delivers st stub (NewProxyServer C db)"
  shows "cl_GetItem C stub s i = got (named_not_found st (''item '' @ i)) (decoded_item D) (dst_GetItem (db_Store db) s i)"
  unfolding cl_GetItem_def srv_GetItem_def stub_calls [OF stub] by (rule not_found_both [OF stored_item_both [OF C]])

lemma client_SearchItems:
  assumes C: "codec_ok C D" and stub: "delivers st stub (NewProxyServer C db)"
  shows "cl_SearchItems C stub s q n = got st (map (\<lambda>x. x\<lparr>si_Item := decoded_item D (si_Item x)\<rparr>)) (dst_SearchItems (db_Store db) s q (int32 n))"
  unfolding cl_SearchItems_def srv_SearchItems_def stub_calls [OF stub] int32_def by (rule call_both [OF p_map_both [OF scored_item_both [OF C]]])

lemma client_GetLatestItems:
  assumes C: "codec_ok C D" and stub: "delivers st stub (NewProxyServer C db)"
  shows "cl_GetLatestItems C stub s n cs t = got st (map (decoded_item D)) (ddb_GetLatestItems (db_Main db) s (int32 n) cs t)"
  unfolding cl_GetLatestItems_def srv_GetLatestItems_def stub_calls [OF stub] int32_def by (rule call_both [OF p_map_both [OF stored_item_both [OF C]]])

lemma client_GetItems:
  assumes C: "codec_ok C D" and stub: "delivers st stub (NewProxyServer C db)"
  shows "cl_GetItems C stub s c n t = got st (map_prod id (map (decoded_item D))) (dst_GetItems (db_Store db) s c (int32 n) t)"
  unfolding cl_GetItems_def srv_GetItems_def stub_calls [OF stub] int32_def by (rule call_both [OF paged_both [OF p_map_both [OF stored_item_both [OF C]]]])

lemma client_GetItemStream:
  assumes C: "codec_ok C D" and stub: "delivers st stub (NewProxyServer C db)"
  shows "cl_GetItemStream C stub s n t = streamed st (map (decoded_item D)) (db_GetItemStream db s (int32 n) None)"
  unfolding cl_GetItemStream_def srv_GetItemStream_def stub_calls [OF stub] int32_def by (rule relay_both [OF p_map_both [OF stored_item_both [OF C]]])

lemma client_GetItemFeedback:
  assumes C: "codec_ok C D" and stub: "delivers st stub (NewProxyServer C db)"
  shows "cl_GetItemFeedback C stub s i ts = got st (map (decoded_feedback D)) (dst_GetItemFeedback (db_Store db) s i ts)"
  unfolding cl_GetItemFeedback_def srv_GetItemFeedback_def stub_calls [OF stub] type_names by (rule call_both [OF feedbacks_both [OF C]])

lemma client_BatchInsertUsers:
  assumes C: "codec_ok C D" and stub: "delivers st stub (NewProxyServer C db)"
  shows "cl_BatchInsertUsers C stub s us = did st (dst_BatchInsertUsers (db_Store db) s (map (sent_user D) us))"
  unfolding cl_BatchInsertUsers_def srv_BatchInsertUsers_def stub_calls [OF stub] by (rule do_both [OF p_map_both [OF sent_user_both [OF C]]])

lemma client_GetUser:
  assumes C: "codec_ok C D" and stub: "delivers st stub (NewProxyServer C db)"
  shows "cl_GetUser C stub s u = got (named_not_found st (''user '' @ u)) (decoded_user D) (dst_GetUser (db_Store db) s u)"
  unfolding cl_GetUser_def srv_GetUser_def stub_calls [OF stub] by (rule not_found_both [OF stored_user_both [OF C]])

lemma client_GetUsers:
  assumes C: "codec_ok C D" and stub: "delivers st stub (NewProxyServer C db)"
  shows "cl_GetUsers C stub s c n = got st (map_prod id (map (decoded_user D))) (dst_GetUsers (db_Store db) s c (int32 n))"
  unfolding cl_GetUsers_def srv_GetUsers_def stub_calls [OF stub] int32_def by (rule call_both [OF paged_both [OF p_map_both [OF stored_user_both [OF C]]]])

lemma client_GetUserFeedback:
  assumes C: "codec_ok C D" and stub: "delivers st stub (NewProxyServer C db)"
  shows "cl_GetUserFeedback C stub s u t es = got st (map (decoded_feedback D)) (ddb_GetUserFeedback (db_Main db) s u t es)"
  unfolding cl_GetUserFeedback_def srv_GetUserFeedback_def stub_calls [OF stub] exprs_both by (rule call_both [OF feedbacks_both [OF C]])

lemma client_GetUserItemFeedback:
  assumes C: "codec_ok C D" and stub: "delivers st stub (NewProxyServer C db)"
  shows "cl_GetUserItemFeedback C stub s u i ts = got st (map (decoded_feedback D)) (dst_GetUserItemFeedback (db_Store db) s u i ts)"
  unfolding cl_GetUserItemFeedback_def srv_GetUserItemFeedback_def stub_calls [OF stub] type_names by (rule call_both [OF feedbacks_both [OF C]])

lemma client_BatchInsertFeedback:
  assumes C: "codec_ok C D" and stub: "delivers st stub (NewProxyServer C db)"
  shows "cl_BatchInsertFeedback C stub s fs a b c = did st (dst_BatchInsertFeedback (db_Store db) s (map (decoded_feedback D) fs) a b c)"
  unfolding cl_BatchInsertFeedback_def srv_BatchInsertFeedback_def stub_calls [OF stub] by (rule do_both [OF feedbacks_both [OF C]])

lemma client_GetFeedback:
  assumes C: "codec_ok C D" and stub: "delivers st stub (NewProxyServer C db)"
  shows "cl_GetFeedback C stub s c n a b ts = got st (map_prod id (map (decoded_feedback D))) (dst_GetFeedback (db_Store db) s c (int32 n) a b ts)"
  unfolding cl_GetFeedback_def srv_GetFeedback_def stub_calls [OF stub] int32_def type_names by (rule call_both [OF paged_both [OF feedbacks_both [OF C]]])

lemma client_GetUserStream:
  assumes C: "codec_ok C D" and stub: "delivers st stub (NewProxyServer C db)"
  shows "cl_GetUserStream C stub s n = streamed st (map (decoded_user D)) (db_GetUserStream db s (int32 n))"
  unfolding cl_GetUserStream_def srv_GetUserStream_def stub_calls [OF stub] int32_def by (rule relay_both [OF p_map_both [OF stored_user_both [OF C]]])

lemma client_ModifyItem:
  assumes C: "codec_ok C D" and stub: "delivers st stub (NewProxyServer C db)"
  shows "cl_ModifyItem C stub s i p = did st (dst_ModifyItem (db_Store db) s i (sent_patch D p))"
  unfolding cl_ModifyItem_def srv_ModifyItem_def stub_calls [OF stub] pb_item_patch.simps
  by (subst do_both [OF patch_labels_both [OF C]]) (cases p, simp add: sent_patch_def split: option.splits)

lemma client_ModifyUser:
  assumes C: "codec_ok C D" and stub: "delivers st stub (NewProxyServer C db)"
  shows "cl_ModifyUser C stub s u p = did st (dst_ModifyUser (db_Store db) s u (p\<lparr>up_Labels := D (up_Labels p)\<rparr>))"
  unfolding cl_ModifyUser_def srv_ModifyUser_def stub_calls [OF stub] pb_user_patch.simps
  by (subst do_both [OF patch_labels_both [OF C]]) (cases p, simp)

lemma client_counts:
  assumes stub: "delivers st stub (NewProxyServer C db)"
  shows "cl_DeleteUserItemFeedback stub s u i ts = got st int32 (dst_DeleteUserItemFeedback (db_Store db) s u i ts)"
    "cl_CountUsers stub s = got st int32 (dst_CountUsers (db_Store db) s)"
    "cl_CountItems stub s = got st int32 (dst_CountItems (db_Store db) s)"
    "cl_CountFeedback stub s = got st int32 (db_CountFeedback db s)"
  unfolding cl_DeleteUserItemFeedback_def srv_DeleteUserItemFeedback_def cl_CountUsers_def srv_CountUsers_def cl_CountItems_def srv_CountItems_def
    cl_CountFeedback_def srv_CountFeedback_def stub_calls [OF stub]
  by (rule call_both [OF int32_both])+

lemma client_GetFeedbackStream:
  assumes C: "codec_ok C D" and stub: "delivers st stub (NewProxyServer C db)" and law: "scan_law db"
  shows "cl_GetFeedbackStream C stub s n opts = streamed st (map (decoded_feedback D)) (db_GetFeedbackStream db s (int32 n) opts)"
proof -
  have "db_GetFeedbackStream db s (int32 n) (scan_options_from_pb (scan_options_to_pb (NewScanOptions (map Some opts)))) = db_GetFeedbackStream db s (int32 n) opts"
    by (rule law [unfolded scan_law_def, rule_format]) (rule scan_options_both)
  then show ?thesis
    unfolding cl_GetFeedbackStream_def srv_GetFeedbackStream_def stub_calls [OF stub] relay_both [OF feedbacks_both [OF C]] int32_def by simp
qed

text \<open>(C18) A data store behind the proxy is the data store itself, method by method, but for the following: labels come
  back as JSON decodes them, errors as gRPC statuses (only a missing user or item keeps its identity), counts and page sizes are taken
  modulo \<open>2 ^ 32\<close>, the time of the last write is not inserted, a patch with an empty list of categories is one without
  categories, and the time limit of an item stream is ignored; the store cannot be initialised or purged through the proxy.\<close>

theorem data_proxy_refines:
  assumes C: "codec_ok C D" and stub: "delivers st stub (NewProxyServer C db)" and law: "scan_law db"
  shows "NewProxyClient C stub = remote_database st D db"
proof -
  note fns = client_BatchInsertItems [OF C stub, abs_def] client_BatchGetItems [OF C stub, abs_def]
    client_GetItem [OF C stub, abs_def] client_SearchItems [OF C stub, abs_def] client_GetLatestItems [OF C stub, abs_def]
    client_GetItems [OF C stub, abs_def] client_GetItemStream [OF C stub, abs_def] client_GetItemFeedback [OF C stub, abs_def]
    client_BatchInsertUsers [OF C stub, abs_def] client_GetUser [OF C stub, abs_def] client_GetUsers [OF C stub, abs_def]
    client_GetUserFeedback [OF C stub, abs_def] client_GetUserItemFeedback [OF C stub, abs_def] client_BatchInsertFeedback [OF C stub, abs_def]
    client_GetFeedback [OF C stub, abs_def] client_GetUserStream [OF C stub, abs_def] client_ModifyItem [OF C stub, abs_def]
    client_ModifyUser [OF C stub, abs_def] client_counts [OF stub, abs_def] client_GetFeedbackStream [OF C stub law, abs_def]
  have stubs: "rpc_Ping stub = (\<lambda>s. did st (dst_Ping (db_Store db) s))" "rpc_Reconcile stub = (\<lambda>s cs. did st (db_Reconcile db s cs))"
    "rpc_DeleteItem stub = (\<lambda>s i. did st (dst_DeleteItem (db_Store db) s i))" "rpc_DeleteUser stub = (\<lambda>s u. did st (dst_DeleteUser (db_Store db) s u))"
    by (auto simp: fun_eq_iff stub_calls [OF stub] srv_Ping_def srv_Reconcile_def srv_DeleteItem_def srv_DeleteUser_def)
  show ?thesis unfolding NewProxyClient_def remote_database_def Let_def fns stubs ..
qed

text \<open>A direct connection, a codec that keeps values, and the recording store as a database.\<close>

lemma delivers_direct: "delivers id srv srv"
  by (simp add: delivers_def got_def did_def streamed_def prod.map_id0 sum.map_id0 option.map_id0 list.map_id0)

definition plain_codec :: "json option json_codec" where
  "plain_codec = \<lparr>jc_Marshal = (\<lambda>j. Inr (Some j)), jc_Unmarshal = (\<lambda>b. case b of None \<Rightarrow> Inl (ErrOther ''unexpected end of JSON input'') | Some j \<Rightarrow> Inr j),
     jc_nil = None\<rparr>"

lemma plain_codec_ok: "codec_ok plain_codec id"
  by (simp add: codec_ok_def plain_codec_def)

definition log_database :: "(item \<times> write_op list, int) database" where
  "log_database =
     \<lparr>db_Main = rs_Data log_server, db_Store = log_store, db_Init = (\<lambda>s. (None, s)), db_Reconcile = (\<lambda>s cs. (None, s)), db_Close = (\<lambda>s. (None, s)),
      db_Optimize = (\<lambda>s. (None, s)), db_Purge = (\<lambda>s. (None, s)), db_CountFeedback = (\<lambda>s. (Inr 0, s)),
      db_GetUserStream = (\<lambda>s n. (([], None), s)), db_GetItemStream = (\<lambda>s n t. (([[fst s]], None), s)),
      db_GetFeedbackStream = (\<lambda>s n opts. (([], None), s))\<rparr>"

lemma log_scan_law: "scan_law log_database"
  by (simp add: scan_law_def log_database_def)

theorem data_proxy_refines_witness:
  "NewProxyClient plain_codec (NewProxyServer plain_codec log_database) = remote_database id id log_database \<and>
   (let s = (data_item (example_rest_item ''x'' '''') 7, []) in
    dst_GetItem (db_Store (NewProxyClient plain_codec (NewProxyServer plain_codec log_database))) s ''x'' = (Inr (fst s), s) \<and>
    fst (dst_GetItem (db_Store (NewProxyClient plain_codec (NewProxyServer plain_codec log_database))) s ''y'') = Inl (ErrWrap ''item y'' ErrNotFound))"
proof -
  note eq = data_proxy_refines [OF plain_codec_ok delivers_direct log_scan_law]
  show ?thesis unfolding eq Let_def
    by (simp add: remote_database_def Let_def log_database_def log_store_def got_def named_not_found_def decoded_item_def data_item_def example_rest_item_def)
qed

end
