(* ===== verification/Cache_Proxy.thy ===== *)
theory Cache_Proxy
  imports Storage_Cache Proxy_Call
begin

text \<open>
  \<open>storage/cache/proxy.go\<close>: a cache over gRPC, and \<open>storage/cache/no_database.go\<close>.  As for the data store, the server turns a cache
  into handlers and the client a stub into a cache.  Every conversion between the data of the cache and its messages is a definition
  of its own, field by field; a timestamp of a message may be missing and is then the Unix epoch.
\<close>

subsection \<open>The whole interface\<close>

record 'w time_series_point =
  tp_Name :: string
  tp_Timestamp :: time
  tp_Value :: 'w

text \<open>A scan is the list of what it hands to its callback, which may stop it, and the error that ends it.\<close>

record scanned =
  scd_Collection :: string
  scd_Id :: string
  scd_Subset :: string
  scd_Timestamp :: time

fun scan_with :: "('x \<Rightarrow> 'c \<Rightarrow> go_error option \<times> 'c) \<Rightarrow> 'x list \<Rightarrow> go_error option \<Rightarrow> 'c \<Rightarrow> go_error option \<times> 'c" where
  "scan_with work [] e c = (e, c)"
| "scan_with work (x # xs) e c = (case work x c of (Some e', c') \<Rightarrow> (Some e', c') | (None, c') \<Rightarrow> scan_with work xs e c')"

record ('s, 'w) cache =
  ca_Main :: "('s, 'w) cache_db"
  ca_Store :: "('s, 'w) cache_store"
  ca_Close :: "'s \<Rightarrow> go_error option \<times> 's"
  ca_Init :: "'s \<Rightarrow> go_error option \<times> 's"
  ca_Scan :: "'s \<Rightarrow> (string list \<times> go_error option) \<times> 's"
  ca_Purge :: "'s \<Rightarrow> go_error option \<times> 's"
  ca_Delete :: "'s \<Rightarrow> string \<Rightarrow> go_error option \<times> 's"
  ca_ScanScores :: "'s \<Rightarrow> (scanned list \<times> go_error option) \<times> 's"
  ca_AddTimeSeriesPoints :: "'s \<Rightarrow> 'w time_series_point list \<Rightarrow> go_error option \<times> 's"
  ca_GetTimeSeriesPoints :: "'s \<Rightarrow> string \<Rightarrow> time \<Rightarrow> time \<Rightarrow> duration \<Rightarrow> (go_error + 'w time_series_point list) \<times> 's"

subsection \<open>Messages\<close>

record pb_value =
  pbv_Name :: string
  pbv_Value :: string

record 'w pb_score =
  pbo_Id :: string
  pbo_Score :: 'w
  pbo_IsHidden :: bool
  pbo_Categories :: "string list"
  pbo_Timestamp :: "time option"

record pb_score_condition =
  pbc_Subset :: "string option"
  pbc_Id :: "string option"
  pbc_Before :: "time option"

text \<open>A repeated field has no presence: a patch loses the presence of its categories.\<close>

record 'w pb_score_patch =
  pbx_IsHidden :: "bool option"
  pbx_Categories :: "string list"
  pbx_Score :: "'w option"

record 'w pb_point =
  pbt_Name :: string
  pbt_Timestamp :: "time option"
  pbt_Value :: 'w

record pb_scan_response =
  pbr_Collection :: string
  pbr_Id :: string
  pbr_Subset :: string
  pbr_Timestamp :: "time option"

subsection \<open>Conversions\<close>

definition value_to_pb :: "kv_value \<Rightarrow> pb_value" where
  "value_to_pb v = \<lparr>pbv_Name = kv_name v, pbv_Value = kv_value v\<rparr>"

definition value_from_pb :: "pb_value \<Rightarrow> kv_value" where
  "value_from_pb p = \<lparr>kv_name = pbv_Name p, kv_value = pbv_Value p\<rparr>"

definition score_to_pb :: "'w score \<Rightarrow> 'w pb_score" where
  "score_to_pb x =
     \<lparr>pbo_Id = score_Id x, pbo_Score = score_Score x, pbo_IsHidden = score_IsHidden x, pbo_Categories = score_Categories x,
      pbo_Timestamp = Some (score_Timestamp x)\<rparr>"

definition score_from_pb :: "'w pb_score \<Rightarrow> 'w score" where
  "score_from_pb p =
     \<lparr>score_Id = pbo_Id p, score_Score = pbo_Score p, score_IsHidden = pbo_IsHidden p, score_Categories = pbo_Categories p,
      score_Timestamp = AsTime (pbo_Timestamp p)\<rparr>"

definition condition_to_pb :: "score_condition \<Rightarrow> pb_score_condition" where
  "condition_to_pb c =
     \<lparr>pbc_Subset = sc_Subset c, pbc_Id = sc_Id c, pbc_Before = (case sc_Before c of None \<Rightarrow> None | Some t \<Rightarrow> Some t)\<rparr>"

definition condition_from_pb :: "pb_score_condition \<Rightarrow> score_condition" where
  "condition_from_pb p =
     \<lparr>sc_Subset = pbc_Subset p, sc_Id = pbc_Id p, sc_Before = (case pbc_Before p of None \<Rightarrow> None | Some t \<Rightarrow> Some (AsTime (Some t)))\<rparr>"

definition patch_to_pb :: "'w score_patch \<Rightarrow> 'w pb_score_patch" where
  "patch_to_pb p =
     \<lparr>pbx_IsHidden = sp_IsHidden p, pbx_Categories = (case sp_Categories p of None \<Rightarrow> [] | Some cs \<Rightarrow> cs), pbx_Score = sp_Score p\<rparr>"

text \<open>A repeated field that arrives empty is nil.\<close>

definition patch_from_pb :: "'w pb_score_patch \<Rightarrow> 'w score_patch" where
  "patch_from_pb p =
     \<lparr>sp_IsHidden = pbx_IsHidden p, sp_Categories = (if pbx_Categories p = [] then None else Some (pbx_Categories p)), sp_Score = pbx_Score p\<rparr>"

definition point_to_pb :: "'w time_series_point \<Rightarrow> 'w pb_point" where
  "point_to_pb x = \<lparr>pbt_Name = tp_Name x, pbt_Timestamp = Some (tp_Timestamp x), pbt_Value = tp_Value x\<rparr>"

definition point_from_pb :: "'w pb_point \<Rightarrow> 'w time_series_point" where
  "point_from_pb p = \<lparr>tp_Name = pbt_Name p, tp_Timestamp = AsTime (pbt_Timestamp p), tp_Value = pbt_Value p\<rparr>"

definition scanned_to_pb :: "scanned \<Rightarrow> pb_scan_response" where
  "scanned_to_pb x =
     \<lparr>pbr_Collection = scd_Collection x, pbr_Id = scd_Id x, pbr_Subset = scd_Subset x, pbr_Timestamp = Some (scd_Timestamp x)\<rparr>"

definition scanned_from_pb :: "pb_scan_response \<Rightarrow> scanned" where
  "scanned_from_pb p =
     \<lparr>scd_Collection = pbr_Collection p, scd_Id = pbr_Id p, scd_Subset = pbr_Subset p, scd_Timestamp = AsTime (pbr_Timestamp p)\<rparr>"

lemma cache_conversions [simp]:
  "value_from_pb (value_to_pb v) = v" "score_from_pb (score_to_pb x) = x" "condition_from_pb (condition_to_pb c) = c"
  "patch_from_pb (patch_to_pb p) = p\<lparr>sp_Categories := (if sp_Categories p = Some [] then None else sp_Categories p)\<rparr>"
  "point_from_pb (point_to_pb y) = y" "scanned_from_pb (scanned_to_pb z) = z"
  by (simp_all add: value_to_pb_def value_from_pb_def score_to_pb_def score_from_pb_def condition_to_pb_def condition_from_pb_def
    patch_to_pb_def patch_from_pb_def point_to_pb_def point_from_pb_def scanned_to_pb_def scanned_from_pb_def AsTime_def split: option.splits)

lemma cache_conversion_lists [simp]:
  "map (value_from_pb \<circ> value_to_pb) vs = vs" "map (score_from_pb \<circ> score_to_pb) xs = xs"
  "map (point_from_pb \<circ> point_to_pb) ps = ps" "map (scanned_from_pb \<circ> scanned_to_pb) zs = zs"
  by (simp_all add: o_def)

subsection \<open>The stub\<close>

record ('s, 'w) cache_rpc =
  crpc_Ping :: "'s \<Rightarrow> go_error option \<times> 's"
  crpc_Get :: "'s \<Rightarrow> string \<Rightarrow> (go_error + string option) \<times> 's"
  crpc_Set :: "'s \<Rightarrow> pb_value list \<Rightarrow> go_error option \<times> 's"
  crpc_Delete :: "'s \<Rightarrow> string \<Rightarrow> go_error option \<times> 's"
  crpc_AddScores :: "'s \<Rightarrow> string \<Rightarrow> string \<Rightarrow> 'w pb_score list \<Rightarrow> go_error option \<times> 's"
  crpc_SearchScores :: "'s \<Rightarrow> string \<Rightarrow> string \<Rightarrow> string list \<Rightarrow> i32 \<Rightarrow> i32 \<Rightarrow> (go_error + 'w pb_score list) \<times> 's"
  crpc_DeleteScores :: "'s \<Rightarrow> string list \<Rightarrow> pb_score_condition \<Rightarrow> go_error option \<times> 's"
  crpc_UpdateScores :: "'s \<Rightarrow> string list \<Rightarrow> string option \<Rightarrow> string \<Rightarrow> 'w pb_score_patch \<Rightarrow> go_error option \<times> 's"
  crpc_ScanScores :: "'s \<Rightarrow> (pb_scan_response list \<times> go_error option) \<times> 's"
  crpc_AddTimeSeriesPoints :: "'s \<Rightarrow> 'w pb_point list \<Rightarrow> go_error option \<times> 's"
  crpc_GetTimeSeriesPoints :: "'s \<Rightarrow> string \<Rightarrow> time option \<Rightarrow> time option \<Rightarrow> duration \<Rightarrow> (go_error + 'w pb_point list) \<times> 's"

subsection \<open>The server\<close>

definition csrv_Get :: "('s, 'w) cache \<Rightarrow> 's \<Rightarrow> string \<Rightarrow> (go_error + string option) \<times> 's" where
  "csrv_Get db s name =
     (case cdb_Get (ca_Main db) s name of (v, s') \<Rightarrow>
        (if \<not> rv_exists v then Inr None else case rv_err v of Some e \<Rightarrow> Inl e | None \<Rightarrow> Inr (Some (rv_value v)), s'))"

definition csrv_Set :: "('s, 'w) cache \<Rightarrow> 's \<Rightarrow> pb_value list \<Rightarrow> go_error option \<times> 's" where
  "csrv_Set db s vs = cdb_Set (ca_Main db) s (map value_from_pb vs)"

definition csrv_AddScores :: "('s, 'w) cache \<Rightarrow> 's \<Rightarrow> string \<Rightarrow> string \<Rightarrow> 'w pb_score list \<Rightarrow> go_error option \<times> 's" where
  "csrv_AddScores db s collection ss docs = cdb_AddScores (ca_Main db) s collection ss (map score_from_pb docs)"

definition csrv_SearchScores :: "('s, 'w) cache \<Rightarrow> 's \<Rightarrow> string \<Rightarrow> string \<Rightarrow> string list \<Rightarrow> i32 \<Rightarrow> i32 \<Rightarrow> (go_error + 'w pb_score list) \<times> 's" where
  "csrv_SearchScores db s collection ss query bgn fin =
     (case cdb_SearchScores (ca_Main db) s collection ss query (sint bgn) (sint fin) of
        (Inl e, s') \<Rightarrow> (Inl e, s')
      | (Inr resp, s') \<Rightarrow> (Inr (map score_to_pb resp), s'))"

definition csrv_DeleteScores :: "('s, 'w) cache \<Rightarrow> 's \<Rightarrow> string list \<Rightarrow> pb_score_condition \<Rightarrow> go_error option \<times> 's" where
  "csrv_DeleteScores db s collection c = cdb_DeleteScores (ca_Main db) s collection (condition_from_pb c)"

definition csrv_UpdateScores :: "('s, 'w) cache \<Rightarrow> 's \<Rightarrow> string list \<Rightarrow> string option \<Rightarrow> string \<Rightarrow> 'w pb_score_patch \<Rightarrow> go_error option \<times> 's" where
  "csrv_UpdateScores db s collection ss i p = cst_UpdateScores (ca_Store db) s collection ss i (patch_from_pb p)"

text \<open>Sending does not fail here; an error of the scan becomes a new error.\<close>

definition csrv_ScanScores :: "('s, 'w) cache \<Rightarrow> 's \<Rightarrow> (pb_scan_response list \<times> go_error option) \<times> 's" where
  "csrv_ScanScores db s =
     (case ca_ScanScores db s of ((xs, e), s') \<Rightarrow>
        ((map scanned_to_pb xs, map_option (\<lambda>e. ErrOther ''failed to scan scores'') e), s'))"

definition csrv_AddTimeSeriesPoints :: "('s, 'w) cache \<Rightarrow> 's \<Rightarrow> 'w pb_point list \<Rightarrow> go_error option \<times> 's" where
  "csrv_AddTimeSeriesPoints db s points = ca_AddTimeSeriesPoints db s (map point_from_pb points)"

definition csrv_GetTimeSeriesPoints :: "('s, 'w) cache \<Rightarrow> 's \<Rightarrow> string \<Rightarrow> time option \<Rightarrow> time option \<Rightarrow> duration \<Rightarrow> (go_error + 'w pb_point list) \<times> 's" where
  "csrv_GetTimeSeriesPoints db s name bgn fin dur =
     (case ca_GetTimeSeriesPoints db s name (AsTime bgn) (AsTime fin) dur of
        (Inl e, s') \<Rightarrow> (Inl e, s')
      | (Inr resp, s') \<Rightarrow> (Inr (map point_to_pb resp), s'))"

definition NewCacheProxyServer :: "('s, 'w) cache \<Rightarrow> ('s, 'w) cache_rpc" where
  "NewCacheProxyServer db =
     \<lparr>crpc_Ping = cst_Ping (ca_Store db), crpc_Get = csrv_Get db, crpc_Set = csrv_Set db, crpc_Delete = ca_Delete db,
      crpc_AddScores = csrv_AddScores db, crpc_SearchScores = csrv_SearchScores db, crpc_DeleteScores = csrv_DeleteScores db,
      crpc_UpdateScores = csrv_UpdateScores db, crpc_ScanScores = csrv_ScanScores db,
      crpc_AddTimeSeriesPoints = csrv_AddTimeSeriesPoints db, crpc_GetTimeSeriesPoints = csrv_GetTimeSeriesPoints db\<rparr>"

subsection \<open>The client\<close>

definition ccl_Set :: "('s, 'w) cache_rpc \<Rightarrow> 's \<Rightarrow> kv_value list \<Rightarrow> go_error option \<times> 's" where
  "ccl_Set stub s vs = crpc_Set stub s (map value_to_pb vs)"

definition ccl_Get :: "('s, 'w) cache_rpc \<Rightarrow> 's \<Rightarrow> string \<Rightarrow> return_value \<times> 's" where
  "ccl_Get stub s name =
     (case crpc_Get stub s name of
        (Inl e, s') \<Rightarrow> (\<lparr>rv_value = '''', rv_err = Some e, rv_exists = False\<rparr>, s')
      | (Inr None, s') \<Rightarrow> (\<lparr>rv_value = '''', rv_err = None, rv_exists = False\<rparr>, s')
      | (Inr (Some v), s') \<Rightarrow> (\<lparr>rv_value = v, rv_err = None, rv_exists = True\<rparr>, s'))"

definition ccl_AddScores :: "('s, 'w) cache_rpc \<Rightarrow> 's \<Rightarrow> string \<Rightarrow> string \<Rightarrow> 'w score list \<Rightarrow> go_error option \<times> 's" where
  "ccl_AddScores stub s collection ss docs = crpc_AddScores stub s collection ss (map score_to_pb docs)"

definition ccl_SearchScores :: "('s, 'w) cache_rpc \<Rightarrow> 's \<Rightarrow> string \<Rightarrow> string \<Rightarrow> string list \<Rightarrow> int \<Rightarrow> int \<Rightarrow> (go_error + 'w score list) \<times> 's" where
  "ccl_SearchScores stub s collection ss query bgn fin =
     (case crpc_SearchScores stub s collection ss query (to_int32 bgn) (to_int32 fin) of
        (Inl e, s') \<Rightarrow> (Inl e, s')
      | (Inr resp, s') \<Rightarrow> (Inr (map score_from_pb resp), s'))"

definition ccl_DeleteScores :: "('s, 'w) cache_rpc \<Rightarrow> 's \<Rightarrow> string list \<Rightarrow> score_condition \<Rightarrow> go_error option \<times> 's" where
  "ccl_DeleteScores stub s collection c =
     (case ScoreCondition_Check c of Some e \<Rightarrow> (Some e, s) | None \<Rightarrow> crpc_DeleteScores stub s collection (condition_to_pb c))"

definition ccl_UpdateScores :: "('s, 'w) cache_rpc \<Rightarrow> 's \<Rightarrow> string list \<Rightarrow> string option \<Rightarrow> string \<Rightarrow> 'w score_patch \<Rightarrow> go_error option \<times> 's" where
  "ccl_UpdateScores stub s collection ss i p = crpc_UpdateScores stub s collection ss i (patch_to_pb p)"

definition ccl_ScanScores :: "('s, 'w) cache_rpc \<Rightarrow> 's \<Rightarrow> (scanned list \<times> go_error option) \<times> 's" where
  "ccl_ScanScores stub s = (case crpc_ScanScores stub s of ((xs, e), s') \<Rightarrow> ((map scanned_from_pb xs, e), s'))"

definition ccl_AddTimeSeriesPoints :: "('s, 'w) cache_rpc \<Rightarrow> 's \<Rightarrow> 'w time_series_point list \<Rightarrow> go_error option \<times> 's" where
  "ccl_AddTimeSeriesPoints stub s points = crpc_AddTimeSeriesPoints stub s (map point_to_pb points)"

definition ccl_GetTimeSeriesPoints :: "('s, 'w) cache_rpc \<Rightarrow> 's \<Rightarrow> string \<Rightarrow> time \<Rightarrow> time \<Rightarrow> duration \<Rightarrow> (go_error + 'w time_series_point list) \<times> 's" where
  "ccl_GetTimeSeriesPoints stub s name bgn fin dur =
     (case crpc_GetTimeSeriesPoints stub s name (Some bgn) (Some fin) dur of
        (Inl e, s') \<Rightarrow> (Inl e, s')
      | (Inr resp, s') \<Rightarrow> (Inr (map point_from_pb resp), s'))"

definition cache_not_allowed :: "string \<Rightarrow> 's \<Rightarrow> go_error option \<times> 's" where
  "cache_not_allowed name s = (Some (ErrOther (name @ '' is not allowed in proxy client'')), s)"

definition NewCacheProxyClient :: "('s, 'w) cache_rpc \<Rightarrow> ('s, 'w) cache" where
  "NewCacheProxyClient stub =
     \<lparr>ca_Main = \<lparr>cdb_Set = ccl_Set stub, cdb_Get = ccl_Get stub, cdb_AddScores = ccl_AddScores stub, cdb_SearchScores = ccl_SearchScores stub,
        cdb_DeleteScores = ccl_DeleteScores stub\<rparr>,
      ca_Store = \<lparr>cst_Ping = crpc_Ping stub, cst_UpdateScores = ccl_UpdateScores stub\<rparr>,
      ca_Close = (\<lambda>s. (None, s)), ca_Init = cache_not_allowed ''init'',
      ca_Scan = (\<lambda>s. (([], Some (ErrOther ''scan is not allowed in proxy client'')), s)), ca_Purge = cache_not_allowed ''purge'',
      ca_Delete = crpc_Delete stub, ca_ScanScores = ccl_ScanScores stub, ca_AddTimeSeriesPoints = ccl_AddTimeSeriesPoints stub,
      ca_GetTimeSeriesPoints = ccl_GetTimeSeriesPoints stub\<rparr>"

subsection \<open>No cache\<close>

definition NoCache :: "('s, 'w) cache" where
  "NoCache =
     \<lparr>ca_Main = \<lparr>cdb_Set = (\<lambda>s vs. (Some ErrNoDatabase, s)), cdb_Get = (\<lambda>s k. (\<lparr>rv_value = '''', rv_err = Some ErrNoDatabase, rv_exists = False\<rparr>, s)),
        cdb_AddScores = (\<lambda>s c ss xs. (Some ErrNoDatabase, s)), cdb_SearchScores = (\<lambda>s c ss q b e. (Inl ErrNoDatabase, s)),
        cdb_DeleteScores = (\<lambda>s cs c. (Some ErrNoDatabase, s))\<rparr>,
      ca_Store = \<lparr>cst_Ping = (\<lambda>s. (Some ErrNoDatabase, s)), cst_UpdateScores = (\<lambda>s cs ss i p. (Some ErrNoDatabase, s))\<rparr>,
      ca_Close = (\<lambda>s. (Some ErrNoDatabase, s)), ca_Init = (\<lambda>s. (Some ErrNoDatabase, s)), ca_Scan = (\<lambda>s. (([], Some ErrNoDatabase), s)),
      ca_Purge = (\<lambda>s. (Some ErrNoDatabase, s)), ca_Delete = (\<lambda>s k. (Some ErrNoDatabase, s)), ca_ScanScores = (\<lambda>s. (([], Some ErrNoDatabase), s)),
      ca_AddTimeSeriesPoints = (\<lambda>s ps. (Some ErrNoDatabase, s)), ca_GetTimeSeriesPoints = (\<lambda>s n b e d. (Inl ErrNoDatabase, s))\<rparr>"

subsection \<open>The proxy refines the cache\<close>

definition cache_delivers :: "(go_error \<Rightarrow> go_error) \<Rightarrow> ('s, 'w) cache_rpc \<Rightarrow> ('s, 'w) cache_rpc \<Rightarrow> bool" where
  "cache_delivers st stub srv \<longleftrightarrow>
     (\<forall>s. crpc_Ping stub s = did st (crpc_Ping srv s)) \<and>
     (\<forall>s k. crpc_Get stub s k = got st id (crpc_Get srv s k)) \<and>
     (\<forall>s vs. crpc_Set stub s vs = did st (crpc_Set srv s vs)) \<and>
     (\<forall>s k. crpc_Delete stub s k = did st (crpc_Delete srv s k)) \<and>
     (\<forall>s c ss xs. crpc_AddScores stub s c ss xs = did st (crpc_AddScores srv s c ss xs)) \<and>
     (\<forall>s c ss q b e. crpc_SearchScores stub s c ss q b e = got st id (crpc_SearchScores srv s c ss q b e)) \<and>
     (\<forall>s cs c. crpc_DeleteScores stub s cs c = did st (crpc_DeleteScores srv s cs c)) \<and>
     (\<forall>s cs ss i p. crpc_UpdateScores stub s cs ss i p = did st (crpc_UpdateScores srv s cs ss i p)) \<and>
     (\<forall>s. crpc_ScanScores stub s = streamed st id (crpc_ScanScores srv s)) \<and>
     (\<forall>s ps. crpc_AddTimeSeriesPoints stub s ps = did st (crpc_AddTimeSeriesPoints srv s ps)) \<and>
     (\<forall>s n b e d. crpc_GetTimeSeriesPoints stub s n b e d = got st id (crpc_GetTimeSeriesPoints srv s n b e d))"

text \<open>What a value looks like from afar: an absent one has no error, an error no value.\<close>

definition remote_value :: "(go_error \<Rightarrow> go_error) \<Rightarrow> return_value \<Rightarrow> return_value" where
  "remote_value st v =
     (if \<not> rv_exists v then NewReturnValue '''' False
      else case rv_err v of Some e \<Rightarrow> NewReturnError (st e) | None \<Rightarrow> NewReturnValue (rv_value v) True)"

definition remote_cache :: "(go_error \<Rightarrow> go_error) \<Rightarrow> ('s, 'w) cache \<Rightarrow> ('s, 'w) cache" where
  "remote_cache st db =
     \<lparr>ca_Main =
       \<lparr>cdb_Set = (\<lambda>s vs. did st (cdb_Set (ca_Main db) s vs)), cdb_Get = (\<lambda>s k. map_prod (remote_value st) id (cdb_Get (ca_Main db) s k)),
        cdb_AddScores = (\<lambda>s c ss xs. did st (cdb_AddScores (ca_Main db) s c ss xs)),
        cdb_SearchScores = (\<lambda>s c ss q b e. got st id (cdb_SearchScores (ca_Main db) s c ss q (int32 b) (int32 e))),
        cdb_DeleteScores = (\<lambda>s cs c. case ScoreCondition_Check c of Some e \<Rightarrow> (Some e, s) | None \<Rightarrow> did st (cdb_DeleteScores (ca_Main db) s cs c))\<rparr>,
      ca_Store =
       \<lparr>cst_Ping = (\<lambda>s. did st (cst_Ping (ca_Store db) s)),
        cst_UpdateScores = (\<lambda>s cs ss i p. did st (cst_UpdateScores (ca_Store db) s cs ss i
          (p\<lparr>sp_Categories := (if sp_Categories p = Some [] then None else sp_Categories p)\<rparr>)))\<rparr>,
      ca_Close = (\<lambda>s. (None, s)), ca_Init = cache_not_allowed ''init'', ca_Scan = (\<lambda>s. (([], Some (ErrOther ''scan is not allowed in proxy client'')), s)),
      ca_Purge = cache_not_allowed ''purge'', ca_Delete = (\<lambda>s k. did st (ca_Delete db s k)),
      ca_ScanScores = (\<lambda>s. streamed (\<lambda>e. st (ErrOther ''failed to scan scores'')) id (ca_ScanScores db s)),
      ca_AddTimeSeriesPoints = (\<lambda>s ps. did st (ca_AddTimeSeriesPoints db s ps)),
      ca_GetTimeSeriesPoints = (\<lambda>s n b e d. got st id (ca_GetTimeSeriesPoints db s n b e d))\<rparr>"

lemma cache_stub_calls:
  assumes "cache_delivers st stub (NewCacheProxyServer db)"
  shows "crpc_Ping stub = (\<lambda>s. did st (cst_Ping (ca_Store db) s))" "crpc_Get stub s k = got st id (csrv_Get db s k)"
    "crpc_Set stub s vs = did st (csrv_Set db s vs)" "crpc_Delete stub = (\<lambda>s k. did st (ca_Delete db s k))"
    "crpc_AddScores stub s c ss xs = did st (csrv_AddScores db s c ss xs)"
    "crpc_SearchScores stub s c ss q b e = got st id (csrv_SearchScores db s c ss q b e)"
    "crpc_DeleteScores stub s cs cond = did st (csrv_DeleteScores db s cs cond)"
    "crpc_UpdateScores stub s cs so i p = did st (csrv_UpdateScores db s cs so i p)"
    "crpc_ScanScores stub s = streamed st id (csrv_ScanScores db s)"
    "crpc_AddTimeSeriesPoints stub s ps = did st (csrv_AddTimeSeriesPoints db s ps)"
    "crpc_GetTimeSeriesPoints stub s n bt et d = got st id (csrv_GetTimeSeriesPoints db s n bt et d)"
  using assms unfolding cache_delivers_def NewCacheProxyServer_def by (simp_all add: fun_eq_iff)

lemma cache_client_calls:
  assumes stub: "cache_delivers st stub (NewCacheProxyServer db)"
  shows "ccl_Get stub s k = map_prod (remote_value st) id (cdb_Get (ca_Main db) s k)"
    "ccl_Set stub s vs = did st (cdb_Set (ca_Main db) s vs)"
    "ccl_AddScores stub s c ss xs = did st (cdb_AddScores (ca_Main db) s c ss xs)"
    "ccl_SearchScores stub s c ss q b e = got st id (cdb_SearchScores (ca_Main db) s c ss q (int32 b) (int32 e))"
    "ccl_DeleteScores stub s cs cond = (case ScoreCondition_Check cond of Some e \<Rightarrow> (Some e, s) | None \<Rightarrow> did st (cdb_DeleteScores (ca_Main db) s cs cond))"
    "ccl_UpdateScores stub s cs so i p = did st (cst_UpdateScores (ca_Store db) s cs so i
       (p\<lparr>sp_Categories := (if sp_Categories p = Some [] then None else sp_Categories p)\<rparr>))"
    "ccl_ScanScores stub s = streamed (\<lambda>e. st (ErrOther ''failed to scan scores'')) id (ca_ScanScores db s)"
    "ccl_AddTimeSeriesPoints stub s ps = did st (ca_AddTimeSeriesPoints db s ps)"
    "ccl_GetTimeSeriesPoints stub s n bt et d = got st id (ca_GetTimeSeriesPoints db s n bt et d)"
proof -
  show "ccl_Get stub s k = map_prod (remote_value st) id (cdb_Get (ca_Main db) s k)"
    unfolding ccl_Get_def cache_stub_calls [OF stub] csrv_Get_def
    by (auto simp: got_def remote_value_def NewReturnValue_def NewReturnError_def split: prod.splits option.splits)
  show "ccl_SearchScores stub s c ss q b e = got st id (cdb_SearchScores (ca_Main db) s c ss q (int32 b) (int32 e))"
    unfolding ccl_SearchScores_def cache_stub_calls [OF stub] csrv_SearchScores_def int32_def
    by (auto simp: got_def split: prod.splits sum.splits)
  show "ccl_ScanScores stub s = streamed (\<lambda>e. st (ErrOther ''failed to scan scores'')) id (ca_ScanScores db s)"
    unfolding ccl_ScanScores_def cache_stub_calls [OF stub] csrv_ScanScores_def
    by (simp add: streamed_def option.map_comp o_def split: prod.splits)
  show "ccl_GetTimeSeriesPoints stub s n bt et d = got st id (ca_GetTimeSeriesPoints db s n bt et d)"
    unfolding ccl_GetTimeSeriesPoints_def cache_stub_calls [OF stub] csrv_GetTimeSeriesPoints_def
    by (auto simp: got_def AsTime_def split: prod.splits sum.splits)
qed (simp_all add: ccl_Set_def ccl_AddScores_def ccl_DeleteScores_def ccl_UpdateScores_def ccl_AddTimeSeriesPoints_def
  cache_stub_calls [OF stub] csrv_Set_def csrv_AddScores_def csrv_DeleteScores_def csrv_UpdateScores_def csrv_AddTimeSeriesPoints_def
  split: option.splits)

text \<open>
  (C19) A cache behind the proxy is the cache itself: every value, score, condition, point and scanned entry arrives field by field,
  but for statuses instead of errors, 32-bit ranges of a search, a patch whose categories are empty and arrive as none, the methods
  that the client refuses or answers itself, and what becomes of a value: reading the cache never reports the error of a value that
  does not exist, so a cache that fails looks empty.
\<close>

theorem cache_proxy_refines:
  assumes stub: "cache_delivers st stub (NewCacheProxyServer db)"
  shows "NewCacheProxyClient stub = remote_cache st db \<and>
    (\<forall>s k e s'. cdb_Get (ca_Main db) s k = (NewReturnError e, s') \<longrightarrow>
       cdb_GetString (ca_Main (NewCacheProxyClient stub)) s k = (Inr '''', s'))"
proof -
  note fns = cache_client_calls [OF stub, abs_def]
  have eq: "NewCacheProxyClient stub = remote_cache st db"
    unfolding NewCacheProxyClient_def remote_cache_def fns cache_stub_calls [OF stub] ..
  show ?thesis unfolding eq
    by (simp add: remote_cache_def cdb_GetString_def remote_value_def NewReturnError_def NewReturnValue_def rv_String_def)
qed

lemma cache_delivers_direct: "cache_delivers id srv srv"
  by (simp add: cache_delivers_def got_def did_def streamed_def prod.map_id0 sum.map_id0 option.map_id0 list.map_id0)

theorem cache_proxy_refines_witness:
  "cdb_GetString (ca_Main (NoCache :: (unit, int) cache)) () ''k'' = (Inl ErrNoDatabase, ()) \<and>
   cdb_GetString (ca_Main (NewCacheProxyClient (NewCacheProxyServer (NoCache :: (unit, int) cache)))) () ''k'' = (Inr '''', ())"
proof -
  have "cdb_Get (ca_Main (NoCache :: (unit, int) cache)) () ''k'' = (NewReturnError ErrNoDatabase, ())"
    by (simp add: NoCache_def NewReturnError_def)
  then have "cdb_GetString (ca_Main (NewCacheProxyClient (NewCacheProxyServer (NoCache :: (unit, int) cache)))) () ''k'' = (Inr '''', ())"
    using cache_proxy_refines [OF cache_delivers_direct, of "NoCache :: (unit, int) cache"] by blast
  moreover have "cdb_GetString (ca_Main (NoCache :: (unit, int) cache)) () ''k'' = (Inl ErrNoDatabase, ())"
    by (simp add: NoCache_def cdb_GetString_def rv_String_def)
  ultimately show ?thesis by blast
qed

end
