(* ===== verification/Vector_Proxy.thy ===== *)
theory Vector_Proxy
  imports Vectors Proxy_Call
begin

text \<open>
  \<open>storage/vectors/proxy.go\<close>: a vector database over gRPC, and \<open>storage/vectors/no_database.go\<close>.  Half-precision values travel as the bytes
  of the machine, low byte first here; the query result carries no time.
\<close>

subsection \<open>Half-precision values as bytes\<close>

definition Float16Bytes :: "16 word list \<Rightarrow> 8 word list" where
  "Float16Bytes vs = concat (map (\<lambda>v. [ucast v, ucast (drop_bit 8 v)]) vs)"

text \<open>A trailing odd byte is dropped.\<close>

fun Float16Values :: "8 word list \<Rightarrow> 16 word list" where
  "Float16Values (l # h # bs) = or (ucast l) (push_bit 8 (ucast h)) # Float16Values bs"
| "Float16Values _ = []"

lemma half_bytes: "or (ucast (ucast v :: 8 word)) (push_bit 8 (ucast (ucast (drop_bit 8 v) :: 8 word))) = (v :: 16 word)"
  by (rule bit_word_eqI) (auto simp: bit_or_iff bit_push_bit_iff bit_ucast_iff bit_drop_bit_eq)

lemma Float16_roundtrip [simp]: "Float16Values (Float16Bytes vs) = vs"
  by (induction vs) (simp_all add: Float16Bytes_def half_bytes)

subsection \<open>The whole interface and the messages\<close>

record ('s, 'w) vectors =
  vs_Db :: "('s, 'w) vector_db"
  vs_Init :: "'s \<Rightarrow> go_error option \<times> 's"
  vs_Close :: "'s \<Rightarrow> go_error option \<times> 's"
  vs_CountVectors :: "'s \<Rightarrow> string \<Rightarrow> (go_error + int) \<times> 's"

datatype pb_distance = PBD_Unknown | PBD_Cosine | PBD_Euclidean | PBD_Dot

record 'w pb_vector =
  pbv_Id :: string
  pbv_Values :: "'w list"
  pbv_HValues :: "8 word list"
  pbv_Indices :: "32 word list"
  pbv_IsHidden :: bool
  pbv_Categories :: "string list"
  pbv_Timestamp :: "time option"

record pb_vector_config =
  pbc_QuantizationType :: string
  pbc_QuantizationBits :: i32

record pb_collection =
  pbk_Name :: string
  pbk_Dimensions :: i32
  pbk_Distance :: pb_distance
  pbk_Config :: "pb_vector_config option"

definition distanceToProtoDistance :: "distance \<Rightarrow> pb_distance" where
  "distanceToProtoDistance d = (case d of Cosine \<Rightarrow> PBD_Cosine | Euclidean \<Rightarrow> PBD_Euclidean | Dot \<Rightarrow> PBD_Dot)"

definition protoDistanceToDistance :: "pb_distance \<Rightarrow> go_error + distance" where
  "protoDistanceToDistance d =
     (case d of PBD_Cosine \<Rightarrow> Inr Cosine | PBD_Euclidean \<Rightarrow> Inr Euclidean | PBD_Dot \<Rightarrow> Inr Dot
      | PBD_Unknown \<Rightarrow> Inl (ErrWrap ''distance method'' ErrNotSupported))"

definition vectorConfigToProtoVectorConfig :: "vector_config \<Rightarrow> pb_vector_config" where
  "vectorConfigToProtoVectorConfig c = \<lparr>pbc_QuantizationType = vc_Type c, pbc_QuantizationBits = to_int32 (vc_Bits c)\<rparr>"

definition protoVectorConfigToVectorConfig :: "pb_vector_config option \<Rightarrow> vector_config" where
  "protoVectorConfigToVectorConfig c =
     (case c of None \<Rightarrow> \<lparr>vc_Type = '''', vc_Bits = 0\<rparr> | Some c \<Rightarrow> \<lparr>vc_Type = pbc_QuantizationType c, vc_Bits = sint (pbc_QuantizationBits c)\<rparr>)"

definition vector_to_pb :: "'w vector \<Rightarrow> 'w pb_vector" where
  "vector_to_pb v = \<lparr>pbv_Id = vec_Id v, pbv_Values = vec_Values v, pbv_HValues = Float16Bytes (vec_HValues v), pbv_Indices = vec_Indices v,
     pbv_IsHidden = vec_IsHidden v, pbv_Categories = vec_Categories v, pbv_Timestamp = Some (vec_Timestamp v)\<rparr>"

definition vector_from_pb :: "'w pb_vector \<Rightarrow> 'w vector" where
  "vector_from_pb p = \<lparr>vec_Id = pbv_Id p, vec_Values = pbv_Values p, vec_HValues = Float16Values (pbv_HValues p), vec_Indices = pbv_Indices p,
     vec_IsHidden = pbv_IsHidden p, vec_Categories = pbv_Categories p, vec_Timestamp = timeFromPB (pbv_Timestamp p)\<rparr>"

text \<open>The parts of a query that are sent, and of a result that are sent back.\<close>

definition query_to_pb :: "'w vector \<Rightarrow> 'w pb_vector" where
  "query_to_pb q = \<lparr>pbv_Id = '''', pbv_Values = vec_Values q, pbv_HValues = Float16Bytes (vec_HValues q), pbv_Indices = vec_Indices q,
     pbv_IsHidden = False, pbv_Categories = [], pbv_Timestamp = None\<rparr>"

definition query_from_pb :: "'w pb_vector \<Rightarrow> 'w vector" where
  "query_from_pb p = zero_vector\<lparr>vec_Values := pbv_Values p, vec_HValues := Float16Values (pbv_HValues p), vec_Indices := pbv_Indices p\<rparr>"

definition scored_to_pb :: "'w scored_vector \<Rightarrow> 'w pb_vector \<times> 'w" where
  "scored_to_pb v = (\<lparr>pbv_Id = vec_Id v, pbv_Values = vec_Values v, pbv_HValues = Float16Bytes (vec_HValues v), pbv_Indices = vec_Indices v,
     pbv_IsHidden = vec_IsHidden v, pbv_Categories = vec_Categories v, pbv_Timestamp = None\<rparr>, sv_Score v)"

definition scored_from_pb :: "'w pb_vector \<times> 'w \<Rightarrow> 'w scored_vector" where
  "scored_from_pb p = \<lparr>vec_Id = pbv_Id (fst p), vec_Values = pbv_Values (fst p), vec_HValues = Float16Values (pbv_HValues (fst p)),
     vec_Indices = pbv_Indices (fst p), vec_IsHidden = pbv_IsHidden (fst p), vec_Categories = pbv_Categories (fst p), vec_Timestamp = 0,
     sv_Score = snd p\<rparr>"

subsection \<open>The server\<close>

text \<open>The description of a collection fails with a status of its own, and panics when the database returns a nil description.\<close>

datatype rpc_failure = NotFoundStatus | OtherError go_error | ServerPanic go_panic

record ('s, 'w) vector_rpc =
  vrpc_ListCollections :: "'s \<Rightarrow> (go_error + string list) \<times> 's"
  vrpc_DescribeCollection :: "'s \<Rightarrow> string \<Rightarrow> (rpc_failure + pb_collection) \<times> 's"
  vrpc_AddCollection :: "'s \<Rightarrow> string \<Rightarrow> i32 \<Rightarrow> pb_distance \<Rightarrow> pb_vector_config \<Rightarrow> go_error option \<times> 's"
  vrpc_DeleteCollection :: "'s \<Rightarrow> string \<Rightarrow> go_error option \<times> 's"
  vrpc_CountVectors :: "'s \<Rightarrow> string \<Rightarrow> (go_error + int) \<times> 's"
  vrpc_AddVectors :: "'s \<Rightarrow> string \<Rightarrow> 'w pb_vector list \<Rightarrow> go_error option \<times> 's"
  vrpc_GetVectors :: "'s \<Rightarrow> string \<Rightarrow> string list \<Rightarrow> (go_error + 'w pb_vector list) \<times> 's"
  vrpc_DeleteVectors :: "'s \<Rightarrow> string \<Rightarrow> time option \<Rightarrow> go_error option \<times> 's"
  vrpc_QueryVectors :: "'s \<Rightarrow> string \<Rightarrow> 'w pb_vector \<Rightarrow> string list \<Rightarrow> i32 \<Rightarrow> (go_error + ('w pb_vector \<times> 'w) list) \<times> 's"

definition vsrv_DescribeCollection :: "('s, 'w) vectors \<Rightarrow> 's \<Rightarrow> string \<Rightarrow> (rpc_failure + pb_collection) \<times> 's" where
  "vsrv_DescribeCollection db s name =
     (case vdb_DescribeCollection (vs_Db db) s name of
        (Inl e, s') \<Rightarrow> (Inl (if errors_Is e ErrNotFound then NotFoundStatus else OtherError e), s')
      | (Inr None, s') \<Rightarrow> (Inl (ServerPanic NilDereference), s')
      | (Inr (Some info), s') \<Rightarrow>
          (Inr \<lparr>pbk_Name = ci_Name info, pbk_Dimensions = to_int32 (int (ci_Dimension info)), pbk_Distance = distanceToProtoDistance (ci_Distance info),
             pbk_Config = Some \<lparr>pbc_QuantizationType = vc_Type (ci_Config info), pbc_QuantizationBits = to_int32 (vc_Bits (ci_Config info))\<rparr>\<rparr>, s'))"

text \<open>The interface takes dimensions that are not negative.\<close>

definition vsrv_AddCollection :: "('s, 'w) vectors \<Rightarrow> 's \<Rightarrow> string \<Rightarrow> i32 \<Rightarrow> pb_distance \<Rightarrow> pb_vector_config \<Rightarrow> go_error option \<times> 's" where
  "vsrv_AddCollection db s name dimensions dist config =
     then_do (protoDistanceToDistance dist)
       (\<lambda>d s. vdb_AddCollection (vs_Db db) s name (nat (sint dimensions)) d (protoVectorConfigToVectorConfig (Some config))) s"

definition vsrv_AddVectors :: "('s, 'w) vectors \<Rightarrow> 's \<Rightarrow> string \<Rightarrow> 'w pb_vector list \<Rightarrow> go_error option \<times> 's" where
  "vsrv_AddVectors db s collection ps = vdb_AddVectors (vs_Db db) s collection (map vector_from_pb ps)"

definition vsrv_GetVectors :: "('s, 'w) vectors \<Rightarrow> 's \<Rightarrow> string \<Rightarrow> string list \<Rightarrow> (go_error + 'w pb_vector list) \<times> 's" where
  "vsrv_GetVectors db s collection ids = call_then (\<lambda>vs. Inr (map vector_to_pb vs)) (\<lambda>s. vdb_GetVectors (vs_Db db) s collection ids) s"

definition vsrv_DeleteVectors :: "('s, 'w) vectors \<Rightarrow> 's \<Rightarrow> string \<Rightarrow> time option \<Rightarrow> go_error option \<times> 's" where
  "vsrv_DeleteVectors db s collection timestamp = vdb_DeleteVectors (vs_Db db) s collection (timeFromPB timestamp)"

definition vsrv_QueryVectors :: "('s, 'w) vectors \<Rightarrow> 's \<Rightarrow> string \<Rightarrow> 'w pb_vector \<Rightarrow> string list \<Rightarrow> i32 \<Rightarrow> (go_error + ('w pb_vector \<times> 'w) list) \<times> 's" where
  "vsrv_QueryVectors db s collection query categories topK =
     call_then (\<lambda>vs. Inr (map scored_to_pb vs)) (\<lambda>s. vdb_QueryVectors (vs_Db db) s collection (query_from_pb query) categories (sint topK)) s"

definition NewVectorProxyServer :: "('s, 'w) vectors \<Rightarrow> ('s, 'w) vector_rpc" where
  "NewVectorProxyServer db =
     \<lparr>vrpc_ListCollections = vdb_ListCollections (vs_Db db), vrpc_DescribeCollection = vsrv_DescribeCollection db,
      vrpc_AddCollection = vsrv_AddCollection db, vrpc_DeleteCollection = vdb_DeleteCollection (vs_Db db), vrpc_CountVectors = vs_CountVectors db,
      vrpc_AddVectors = vsrv_AddVectors db, vrpc_GetVectors = vsrv_GetVectors db, vrpc_DeleteVectors = vsrv_DeleteVectors db,
      vrpc_QueryVectors = vsrv_QueryVectors db\<rparr>"

subsection \<open>The client\<close>

definition vcl_DescribeCollection :: "('s, 'w) vector_rpc \<Rightarrow> 's \<Rightarrow> string \<Rightarrow> (go_error + collection_info option) \<times> 's" where
  "vcl_DescribeCollection stub s name =
     (case vrpc_DescribeCollection stub s name of
        (Inl NotFoundStatus, s') \<Rightarrow> (Inl (ErrWrap (''collection '' @ name) ErrNotFound), s')
      | (Inl (OtherError e), s') \<Rightarrow> (Inl e, s')
      | (Inl (ServerPanic p), s') \<Rightarrow> (Inl (ErrOther ''unavailable''), s')
      | (Inr c, s') \<Rightarrow>
          (p_bind (protoDistanceToDistance (pbk_Distance c)) (\<lambda>d. Inr (Some
             \<lparr>ci_Name = pbk_Name c, ci_Dimension = nat (sint (pbk_Dimensions c)), ci_Distance = d, ci_Config = protoVectorConfigToVectorConfig (pbk_Config c)\<rparr>)), s'))"

definition vcl_AddCollection :: "('s, 'w) vector_rpc \<Rightarrow> 's \<Rightarrow> string \<Rightarrow> nat \<Rightarrow> distance \<Rightarrow> vector_config \<Rightarrow> go_error option \<times> 's" where
  "vcl_AddCollection stub s name dimensions d config =
     vrpc_AddCollection stub s name (to_int32 (int dimensions)) (distanceToProtoDistance d) (vectorConfigToProtoVectorConfig config)"

definition vcl_AddVectors :: "('s, 'w) vector_rpc \<Rightarrow> 's \<Rightarrow> string \<Rightarrow> 'w vector list \<Rightarrow> go_error option \<times> 's" where
  "vcl_AddVectors stub s collection vs = vrpc_AddVectors stub s collection (map vector_to_pb vs)"

definition vcl_GetVectors :: "('s, 'w) vector_rpc \<Rightarrow> 's \<Rightarrow> string \<Rightarrow> string list \<Rightarrow> (go_error + 'w vector list) \<times> 's" where
  "vcl_GetVectors stub s collection ids = call_then (\<lambda>ps. Inr (map vector_from_pb ps)) (\<lambda>s. vrpc_GetVectors stub s collection ids) s"

definition vcl_DeleteVectors :: "('s, 'w) vector_rpc \<Rightarrow> 's \<Rightarrow> string \<Rightarrow> time \<Rightarrow> go_error option \<times> 's" where
  "vcl_DeleteVectors stub s collection t = vrpc_DeleteVectors stub s collection (Some t)"

definition vcl_QueryVectors :: "('s, 'w) vector_rpc \<Rightarrow> 's \<Rightarrow> string \<Rightarrow> 'w vector \<Rightarrow> string list \<Rightarrow> int \<Rightarrow> (go_error + 'w scored_vector list) \<times> 's" where
  "vcl_QueryVectors stub s collection q categories topK =
     call_then (\<lambda>ps. Inr (map scored_from_pb ps)) (\<lambda>s. vrpc_QueryVectors stub s collection (query_to_pb q) categories (to_int32 topK)) s"

definition NewVectorProxyClient :: "('s, 'w) vector_rpc \<Rightarrow> ('s, 'w) vectors" where
  "NewVectorProxyClient stub =
     \<lparr>vs_Db = \<lparr>vdb_Optimize = (\<lambda>s c. (None, s)), vdb_ListCollections = vrpc_ListCollections stub, vdb_DescribeCollection = vcl_DescribeCollection stub,
        vdb_AddCollection = vcl_AddCollection stub, vdb_DeleteCollection = vrpc_DeleteCollection stub, vdb_AddVectors = vcl_AddVectors stub,
        vdb_GetVectors = vcl_GetVectors stub, vdb_DeleteVectors = vcl_DeleteVectors stub, vdb_QueryVectors = vcl_QueryVectors stub\<rparr>,
      vs_Init = (\<lambda>s. (None, s)), vs_Close = (\<lambda>s. (None, s)), vs_CountVectors = vrpc_CountVectors stub\<rparr>"

subsection \<open>No vector database\<close>

definition NoVectors :: "('s, 'w) vectors" where
  "NoVectors =
     \<lparr>vs_Db = \<lparr>vdb_Optimize = (\<lambda>s c. (None, s)), vdb_ListCollections = (\<lambda>s. (Inl ErrNoDatabase, s)),
        vdb_DescribeCollection = (\<lambda>s c. (Inl ErrNoDatabase, s)), vdb_AddCollection = (\<lambda>s c n d cfg. (Some ErrNoDatabase, s)),
        vdb_DeleteCollection = (\<lambda>s c. (Some ErrNoDatabase, s)), vdb_AddVectors = (\<lambda>s c vs. (Some ErrNoDatabase, s)),
        vdb_GetVectors = (\<lambda>s c ids. (Inl ErrNoDatabase, s)), vdb_DeleteVectors = (\<lambda>s c t. (Some ErrNoDatabase, s)),
        vdb_QueryVectors = (\<lambda>s c q cs n. (Inl ErrNoDatabase, s))\<rparr>,
      vs_Init = (\<lambda>s. (Some ErrNoDatabase, s)), vs_Close = (\<lambda>s. (Some ErrNoDatabase, s)), vs_CountVectors = (\<lambda>s c. (Inl ErrNoDatabase, s))\<rparr>"

subsection \<open>The proxy refines the vector database\<close>

definition described :: "(go_error \<Rightarrow> go_error) \<Rightarrow> (rpc_failure + pb_collection) \<times> 's \<Rightarrow> (rpc_failure + pb_collection) \<times> 's \<Rightarrow> bool" where
  "described st r r' =
     (case r' of
        (Inl NotFoundStatus, s') \<Rightarrow> r = (Inl NotFoundStatus, s')
      | (Inl (OtherError e), s') \<Rightarrow> r = (Inl (OtherError (st e)), s')
      | (Inl (ServerPanic p), s') \<Rightarrow> True
      | (Inr c, s') \<Rightarrow> r = (Inr c, s'))"

definition vectors_delivers :: "(go_error \<Rightarrow> go_error) \<Rightarrow> ('s, 'w) vector_rpc \<Rightarrow> ('s, 'w) vector_rpc \<Rightarrow> bool" where
  "vectors_delivers st stub srv \<longleftrightarrow>
     (\<forall>s. vrpc_ListCollections stub s = got st id (vrpc_ListCollections srv s)) \<and>
     (\<forall>s c. described st (vrpc_DescribeCollection stub s c) (vrpc_DescribeCollection srv s c)) \<and>
     (\<forall>s c n d cfg. vrpc_AddCollection stub s c n d cfg = did st (vrpc_AddCollection srv s c n d cfg)) \<and>
     (\<forall>s c. vrpc_DeleteCollection stub s c = did st (vrpc_DeleteCollection srv s c)) \<and>
     (\<forall>s c. vrpc_CountVectors stub s c = got st id (vrpc_CountVectors srv s c)) \<and>
     (\<forall>s c ps. vrpc_AddVectors stub s c ps = did st (vrpc_AddVectors srv s c ps)) \<and>
     (\<forall>s c ids. vrpc_GetVectors stub s c ids = got st id (vrpc_GetVectors srv s c ids)) \<and>
     (\<forall>s c t. vrpc_DeleteVectors stub s c t = did st (vrpc_DeleteVectors srv s c t)) \<and>
     (\<forall>s c q cs n. vrpc_QueryVectors stub s c q cs n = got st id (vrpc_QueryVectors srv s c q cs n))"

text \<open>The database never describes a collection as nil, and its numbers fit 32 bits.\<close>

definition small_config :: "nat \<Rightarrow> vector_config \<Rightarrow> bool" where
  "small_config n c \<longleftrightarrow> n < 2147483648 \<and> - 2147483648 \<le> vc_Bits c \<and> vc_Bits c < 2147483648"

definition describes :: "('s, 'w) vectors \<Rightarrow> bool" where
  "describes db \<longleftrightarrow> (\<forall>s c s'. vdb_DescribeCollection (vs_Db db) s c \<noteq> (Inr None, s')) \<and>
     (\<forall>s c i s'. vdb_DescribeCollection (vs_Db db) s c = (Inr (Some i), s') \<longrightarrow> small_config (ci_Dimension i) (ci_Config i))"

definition collection_error :: "(go_error \<Rightarrow> go_error) \<Rightarrow> string \<Rightarrow> go_error \<Rightarrow> go_error" where
  "collection_error st name e = (if errors_Is e ErrNotFound then ErrWrap (''collection '' @ name) ErrNotFound else st e)"

definition sent_query :: "'w vector \<Rightarrow> 'w vector" where
  "sent_query q = zero_vector\<lparr>vec_Values := vec_Values q, vec_HValues := vec_HValues q, vec_Indices := vec_Indices q\<rparr>"

text \<open>Equality of the methods that the rest of the program calls; a new collection must have small numbers too.\<close>

definition remote_vectors :: "(go_error \<Rightarrow> go_error) \<Rightarrow> ('s, 'w) vectors \<Rightarrow> ('s, 'w) vectors \<Rightarrow> bool" where
  "remote_vectors st db r \<longleftrightarrow>
     (\<forall>s. vdb_ListCollections (vs_Db r) s = got st id (vdb_ListCollections (vs_Db db) s)) \<and>
     (\<forall>s c. vdb_DescribeCollection (vs_Db r) s c = got (collection_error st c) id (vdb_DescribeCollection (vs_Db db) s c)) \<and>
     (\<forall>s c n d cfg. small_config n cfg \<longrightarrow> vdb_AddCollection (vs_Db r) s c n d cfg = did st (vdb_AddCollection (vs_Db db) s c n d cfg)) \<and>
     (\<forall>s c. vdb_DeleteCollection (vs_Db r) s c = did st (vdb_DeleteCollection (vs_Db db) s c)) \<and>
     (\<forall>s c vs. vdb_AddVectors (vs_Db r) s c vs = did st (vdb_AddVectors (vs_Db db) s c vs)) \<and>
     (\<forall>s c ids. vdb_GetVectors (vs_Db r) s c ids = got st id (vdb_GetVectors (vs_Db db) s c ids)) \<and>
     (\<forall>s c t. vdb_DeleteVectors (vs_Db r) s c t = did st (vdb_DeleteVectors (vs_Db db) s c t)) \<and>
     (\<forall>s c q cs n. vdb_QueryVectors (vs_Db r) s c q cs n =
        got st (map (vec_Timestamp_update (\<lambda>_. 0))) (vdb_QueryVectors (vs_Db db) s c (sent_query q) cs (int32 n))) \<and>
     (\<forall>s c. vs_CountVectors r s c = got st id (vs_CountVectors db s c)) \<and>
     (\<forall>s c. vdb_Optimize (vs_Db r) s c = (None, s)) \<and> (\<forall>s. vs_Init r s = (None, s)) \<and> (\<forall>s. vs_Close r s = (None, s))"

lemma vector_both: "vector_from_pb (vector_to_pb v) = v"
  by (cases v) (simp add: vector_from_pb_def vector_to_pb_def timeFromPB_def)

lemma vectors_both: "map vector_from_pb (map vector_to_pb vs) = vs"
  by (simp add: vector_both o_def)

lemma scored_both: "scored_from_pb (scored_to_pb v) = v\<lparr>vec_Timestamp := 0\<rparr>"
  by (cases v) (simp add: scored_from_pb_def scored_to_pb_def)

lemma query_both: "query_from_pb (query_to_pb q) = sent_query q"
  by (simp add: query_from_pb_def query_to_pb_def sent_query_def)

lemma distance_both: "protoDistanceToDistance (distanceToProtoDistance d) = Inr d"
  by (cases d) (simp_all add: protoDistanceToDistance_def distanceToProtoDistance_def)

lemma sint_to_int32: "- 2147483648 \<le> n \<Longrightarrow> n < 2147483648 \<Longrightarrow> sint (to_int32 n) = n"
  by (simp add: to_int32_def sint_of_int_i32)

lemma config_both: "small_config n c \<Longrightarrow> protoVectorConfigToVectorConfig (Some (vectorConfigToProtoVectorConfig c)) = c"
  by (cases c) (simp add: protoVectorConfigToVectorConfig_def vectorConfigToProtoVectorConfig_def small_config_def sint_to_int32)

lemma described_both:
  assumes "describes db" "described st (vrpc_DescribeCollection stub s c) (vsrv_DescribeCollection db s c)"
  shows "vcl_DescribeCollection stub s c = got (collection_error st c) id (vdb_DescribeCollection (vs_Db db) s c)"
proof (cases "vdb_DescribeCollection (vs_Db db) s c")
  case (Pair r s')
  show ?thesis
  proof (cases r)
    case (Inl e)
    then show ?thesis using assms(2) Pair
      by (cases "errors_Is e ErrNotFound") (simp_all add: vsrv_DescribeCollection_def described_def vcl_DescribeCollection_def got_def collection_error_def)
  next
    case (Inr i)
    then obtain info where info: "i = Some info" using assms(1) Pair unfolding describes_def by (cases i) auto
    then have small: "small_config (ci_Dimension info) (ci_Config info)" using assms(1) Pair Inr unfolding describes_def by blast
    have "vrpc_DescribeCollection stub s c = (Inr \<lparr>pbk_Name = ci_Name info, pbk_Dimensions = to_int32 (int (ci_Dimension info)),
        pbk_Distance = distanceToProtoDistance (ci_Distance info), pbk_Config = Some (vectorConfigToProtoVectorConfig (ci_Config info))\<rparr>, s')"
      using assms(2) Pair Inr info by (simp add: vsrv_DescribeCollection_def described_def vectorConfigToProtoVectorConfig_def)
    then show ?thesis using Pair Inr info small config_both [OF small]
      by (cases info) (simp add: vcl_DescribeCollection_def got_def distance_both small_config_def sint_to_int32)
  qed
qed

lemma vectors_stub_calls:
  assumes "vectors_delivers st stub (NewVectorProxyServer db)"
  shows "vrpc_ListCollections stub s = got st id (vdb_ListCollections (vs_Db db) s)"
    "described st (vrpc_DescribeCollection stub s c) (vsrv_DescribeCollection db s c)"
    "vrpc_AddCollection stub s c k d cfg = did st (vsrv_AddCollection db s c k d cfg)"
    "vrpc_DeleteCollection stub s c = did st (vdb_DeleteCollection (vs_Db db) s c)"
    "vrpc_CountVectors stub s c = got st id (vs_CountVectors db s c)"
    "vrpc_AddVectors stub s c ps = did st (vsrv_AddVectors db s c ps)"
    "vrpc_GetVectors stub s c ids = got st id (vsrv_GetVectors db s c ids)"
    "vrpc_DeleteVectors stub s c t = did st (vsrv_DeleteVectors db s c t)"
    "vrpc_QueryVectors stub s c q cs k = got st id (vsrv_QueryVectors db s c q cs k)"
  using assms unfolding vectors_delivers_def NewVectorProxyServer_def by simp_all

lemma vectors_client_calls:
  assumes stub: "vectors_delivers st stub (NewVectorProxyServer db)"
  shows "small_config n cfg \<Longrightarrow> vcl_AddCollection stub s c n d cfg = did st (vdb_AddCollection (vs_Db db) s c n d cfg)"
    "vcl_AddVectors stub s c vs = did st (vdb_AddVectors (vs_Db db) s c vs)"
    "vcl_GetVectors stub s c ids = got st id (vdb_GetVectors (vs_Db db) s c ids)"
    "vcl_DeleteVectors stub s c t = did st (vdb_DeleteVectors (vs_Db db) s c t)"
    "vcl_QueryVectors stub s c q cs k = got st (map (vec_Timestamp_update (\<lambda>_. 0))) (vdb_QueryVectors (vs_Db db) s c (sent_query q) cs (int32 k))"
proof -
  show "vcl_AddCollection stub s c n d cfg = did st (vdb_AddCollection (vs_Db db) s c n d cfg)" if small: "small_config n cfg"
    using small unfolding vcl_AddCollection_def vectors_stub_calls [OF stub] vsrv_AddCollection_def config_both [OF small] distance_both
    by (simp add: then_do_def small_config_def sint_to_int32)
  have "call_then (\<lambda>ps. Inr (map vector_from_pb ps)) (\<lambda>s. got st id (call_then (\<lambda>vs. Inr (map vector_to_pb vs)) (\<lambda>s. vdb_GetVectors (vs_Db db) s c ids) s)) s
      = got st id (vdb_GetVectors (vs_Db db) s c ids)"
    by (rule call_both) (simp add: vector_both o_def)
  then show "vcl_GetVectors stub s c ids = got st id (vdb_GetVectors (vs_Db db) s c ids)"
    unfolding vcl_GetVectors_def vectors_stub_calls [OF stub] vsrv_GetVectors_def .
  have "call_then (\<lambda>ps. Inr (map scored_from_pb ps)) (\<lambda>s. got st id (call_then (\<lambda>vs. Inr (map scored_to_pb vs))
        (\<lambda>s. vdb_QueryVectors (vs_Db db) s c (sent_query q) cs (int32 k)) s)) s
      = got st (map (vec_Timestamp_update (\<lambda>_. 0))) (vdb_QueryVectors (vs_Db db) s c (sent_query q) cs (int32 k))"
    by (rule call_both) (simp add: scored_both o_def)
  then show "vcl_QueryVectors stub s c q cs k = got st (map (vec_Timestamp_update (\<lambda>_. 0))) (vdb_QueryVectors (vs_Db db) s c (sent_query q) cs (int32 k))"
    unfolding vcl_QueryVectors_def vectors_stub_calls [OF stub] vsrv_QueryVectors_def query_both int32_def .
qed (simp_all add: vcl_AddVectors_def vcl_DeleteVectors_def vectors_stub_calls [OF stub] vsrv_AddVectors_def vsrv_DeleteVectors_def vectors_both
  vector_both o_def timeFromPB_def)

text \<open>(C30) A vector database behind the proxy is the vector database itself, method by method and with every bit of its
  vectors, but for statuses instead of errors (a missing collection keeps its identity), result sizes modulo \<open>2 ^ 32\<close>, queries reduced to
  their values, and results without a time; optimising, initialising and closing do nothing.\<close>

theorem vector_proxy_refines:
  assumes stub: "vectors_delivers st stub (NewVectorProxyServer db)" and db: "describes db"
  shows "remote_vectors st db (NewVectorProxyClient stub)"
  unfolding remote_vectors_def NewVectorProxyClient_def
  by (simp add: vectors_stub_calls(1,4,5) [OF stub] described_both [OF db vectors_stub_calls(2) [OF stub]] vectors_client_calls [OF stub])

lemma remote_vectors_reads:
  assumes "remote_vectors st db r"
  shows "vdb_DescribeCollection (vs_Db r) s c = got (collection_error st c) id (vdb_DescribeCollection (vs_Db db) s c)"
    "vdb_QueryVectors (vs_Db r) s c q cs n = got st (map (vec_Timestamp_update (\<lambda>_. 0))) (vdb_QueryVectors (vs_Db db) s c (sent_query q) cs (int32 n))"
  using assms by (simp_all add: remote_vectors_def)

text \<open>A stub that calls the server directly, for a server that does not panic.\<close>

lemma vectors_delivers_direct: "vectors_delivers id srv srv"
  by (simp add: vectors_delivers_def got_def did_def described_def prod.map_id0 sum.map_id0 option.map_id0 split: prod.splits sum.splits rpc_failure.splits)

definition one_collection :: "(unit, int) vectors" where
  "one_collection = NoVectors\<lparr>vs_Db := (vs_Db NoVectors)
     \<lparr>vdb_DescribeCollection := (\<lambda>s c. if c = ''c'' then (Inr (Some \<lparr>ci_Name = c, ci_Dimension = 2, ci_Distance = Dot, ci_Config = \<lparr>vc_Type = ''sq'', vc_Bits = 8\<rparr>\<rparr>), s)
        else (Inl ErrNotFound, s)),
      vdb_QueryVectors := (\<lambda>s c q cs n. (Inr [\<lparr>vec_Id = ''v'', vec_Values = vec_Values q, vec_HValues = [513], vec_Indices = [], vec_IsHidden = False,
        vec_Categories = [], vec_Timestamp = 5, sv_Score = 1\<rparr>], s))\<rparr>\<rparr>"

theorem vector_proxy_refines_witness:
  "let r = vs_Db (NewVectorProxyClient (NewVectorProxyServer one_collection)) in
   vdb_DescribeCollection r () ''c'' = vdb_DescribeCollection (vs_Db one_collection) () ''c'' \<and>
   vdb_DescribeCollection r () ''d'' = (Inl (ErrWrap ''collection d'' ErrNotFound), ()) \<and>
   map_sum id (map vec_HValues) (fst (vdb_QueryVectors r () ''c'' zero_vector [] 1)) = Inr [[513]]"
proof -
  have "describes one_collection" by (auto simp: describes_def one_collection_def small_config_def)
  note r = remote_vectors_reads [OF vector_proxy_refines [OF vectors_delivers_direct this]]
  show ?thesis unfolding Let_def r by (simp add: one_collection_def got_def collection_error_def)
qed

end
