(* ===== verification/Byte_Codec.thy ===== *)
theory Byte_Codec
  imports Id_Index "HOL-Library.AList"
begin

text \<open>
  \<open>common/encoding/encoding.go\<close> and what it is used for: the marshalling of indices (\<open>dataset/index.go\<close>,
  \<open>dataset/unified_index.go\<close>) and of the user factors that the master hands to the workers (\<open>logics/cf.go\<close>).
  A writer and a reader are functions of a state; the laws of \<open>io.Writer\<close> and \<open>io.Reader\<close> are the locales
  \<open>io_writer\<close> and \<open>io_reader\<close>. A \<open>float32\<close> is its 32 bits and a string the list of its bytes.
\<close>

type_synonym byte = "8 word"
type_synonym 's writer = "'s \<Rightarrow> byte list \<Rightarrow> (nat \<times> go_error option) \<times> 's"
type_synonym 's reader = "'s \<Rightarrow> nat \<Rightarrow> (byte list \<times> go_error option) \<times> 's"

definition io_EOF :: go_error where
  "io_EOF = ErrOther ''EOF''"

definition io_ErrUnexpectedEOF :: go_error where
  "io_ErrUnexpectedEOF = ErrOther ''unexpected EOF''"

subsection \<open>Bytes of integers and strings\<close>

definition le32 :: "i32 \<Rightarrow> byte list" where
  "le32 w = [ucast w, ucast (drop_bit 8 w), ucast (drop_bit 16 w), ucast (drop_bit 24 w)]"

definition of_le32 :: "byte list \<Rightarrow> i32" where
  "of_le32 bs = foldr (\<lambda>b acc. or (ucast b) (push_bit 8 acc)) bs 0"

lemma of_le32_le32 [simp]: "of_le32 (le32 w) = w"
  unfolding of_le32_def le32_def
proof (rule bit_word_eqI)
  fix n assume "n < LENGTH(32)"
  then consider "n < 8" | "8 \<le> n" "n < 16" | "16 \<le> n" "n < 24" | "24 \<le> n" "n < 32" by fastforce
  then show "bit (foldr (\<lambda>b acc. or (ucast b) (push_bit 8 acc)) [ucast w :: byte, ucast (drop_bit 8 w), ucast (drop_bit 16 w), ucast (drop_bit 24 w)] 0 :: i32) n = bit w n"
    by cases (auto simp: bit_simps)
qed

lemma length_le32 [simp]: "length (le32 w) = 4"
  by (simp add: le32_def)

definition bytes_of :: "string \<Rightarrow> byte list" where
  "bytes_of s = map (\<lambda>c. of_nat (of_char c)) s"

definition string_of :: "byte list \<Rightarrow> string" where
  "string_of bs = map (\<lambda>b. char_of (unat b)) bs"

lemma string_of_bytes_of [simp]: "string_of (bytes_of s) = s"
proof -
  have "char_of (unat (of_nat (of_char c) :: byte)) = c" for c :: char
    by (simp add: unat_of_nat)
  then show ?thesis by (simp add: string_of_def bytes_of_def o_def)
qed

lemma length_bytes_of [simp]: "length (bytes_of s) = length s"
  by (simp add: bytes_of_def)

subsection \<open>Gob\<close>

text \<open>
  The part of \<open>encoding/gob\<close> that is used: a stream of one message that holds one \<open>int64\<close>. An unsigned number below 128
  is a byte, any other the negated count of its big-endian bytes and these bytes; a signed one has its sign in the lowest
  bit. A message is its length, the number of the type (2, signed), a zero and the value.
\<close>

fun be_bytes :: "nat \<Rightarrow> byte list" where
  "be_bytes n = (if n = 0 then [] else be_bytes (n div 256) @ [of_nat (n mod 256)])"

declare be_bytes.simps [simp del]

definition of_be_bytes :: "byte list \<Rightarrow> nat" where
  "of_be_bytes bs = foldl (\<lambda>n b. n * 256 + unat b) 0 bs"

definition gob_uint :: "nat \<Rightarrow> byte list" where
  "gob_uint n = (if n \<le> 127 then [of_nat n] else - of_nat (length (be_bytes n)) # be_bytes n)"

definition gob_int :: "int \<Rightarrow> byte list" where
  "gob_int i = gob_uint (nat (if i < 0 then 2 * (- i - 1) + 1 else 2 * i))"

definition gob_message :: "int \<Rightarrow> byte list" where
  "gob_message i = (let payload = gob_int 2 @ [0] @ gob_int i in gob_uint (length payload) @ payload)"

definition gob_error :: "go_error" where
  "gob_error = ErrOther ''gob''"

definition gob_read_uint :: "byte list \<Rightarrow> go_error + nat \<times> byte list" where
  "gob_read_uint bs =
     (case bs of
        [] \<Rightarrow> Inl gob_error
      | b # bs' \<Rightarrow>
          if unat b \<le> 127 then Inr (unat b, bs')
          else let n = unat (- b) in
            if n > 8 \<or> length bs' < n then Inl gob_error else Inr (of_be_bytes (take n bs'), drop n bs'))"

definition gob_read_int :: "byte list \<Rightarrow> go_error + int \<times> byte list" where
  "gob_read_int bs = p_bind (gob_read_uint bs) (\<lambda>(n, bs').
     Inr (if odd n then - int (n div 2) - 1 else int (n div 2), bs'))"

definition gob_read_message :: "byte list \<Rightarrow> go_error + int" where
  "gob_read_message bs =
     p_bind (gob_read_uint bs) (\<lambda>(len, bs1).
     if length bs1 < len then Inl gob_error else
     p_bind (gob_read_int (take len bs1)) (\<lambda>(ty, bs2).
     if ty \<noteq> 2 then Inl gob_error else
     p_bind (gob_read_uint bs2) (\<lambda>(delta, bs3).
     if delta \<noteq> 0 then Inl gob_error else
     p_bind (gob_read_int bs3) (\<lambda>(i, bs4). Inr i))))"

lemma of_be_bytes_be_bytes [simp]: "of_be_bytes (be_bytes n) = n"
proof (induction n rule: be_bytes.induct)
  case (1 n)
  show ?case
  proof (cases "n = 0")
    case False
    have "unat (of_nat (n mod 256) :: byte) = n mod 256" by (simp add: unat_of_nat)
    then have "of_be_bytes (be_bytes n) = of_be_bytes (be_bytes (n div 256)) * 256 + n mod 256"
      using False by (simp add: be_bytes.simps [of n] of_be_bytes_def)
    then show ?thesis using 1 [OF False] by simp
  qed (simp add: be_bytes.simps of_be_bytes_def)
qed

lemma length_be_bytes: "n < 256 ^ k \<Longrightarrow> length (be_bytes n) \<le> k"
proof (induction k arbitrary: n)
  case 0
  then show ?case by (simp add: be_bytes.simps)
next
  case (Suc k)
  have "n div 256 < 256 ^ k" using Suc.prems by (simp add: less_mult_imp_div_less mult.commute)
  then show ?case using Suc.IH [of "n div 256"] by (simp add: be_bytes.simps [of n])
qed

lemma gob_read_uint_uint: "n < 256 ^ 8 \<Longrightarrow> gob_read_uint (gob_uint n @ bs) = Inr (n, bs)"
proof (cases "n \<le> 127")
  case True
  then have "unat (of_nat n :: byte) = n" by (simp add: unat_of_nat)
  then show ?thesis using True by (simp add: gob_uint_def gob_read_uint_def)
next
  case False
  assume n: "n < 256 ^ 8"
  let ?k = "length (be_bytes n)"
  have k: "?k \<le> 8" using length_be_bytes [OF n] .
  have "?k \<noteq> 0" using False by (simp add: be_bytes.simps [of n])
  have "unat (of_nat ?k :: byte) = ?k" using k by (simp add: unat_of_nat)
  moreover have "unat (- of_nat ?k :: byte) = 256 - ?k"
  proof -
    have "(- of_nat ?k :: byte) = of_nat (256 - ?k)" using k by (simp add: of_nat_diff)
    then show ?thesis using k \<open>?k \<noteq> 0\<close> by (simp add: unat_of_nat del: of_nat_diff)
  qed
  ultimately show ?thesis using False k by (simp add: gob_uint_def gob_read_uint_def)
qed

lemma gob_read_int_int:
  assumes "- 9223372036854775808 \<le> i" and "i < 9223372036854775808"
  shows "gob_read_int (gob_int i @ bs) = Inr (i, bs)"
proof -
  let ?n = "nat (if i < 0 then 2 * (- i - 1) + 1 else 2 * i)"
  have "?n < 256 ^ 8" using assms by (auto simp: nat_less_iff)
  moreover have "(if odd ?n then - int (?n div 2) - 1 else int (?n div 2)) = i" by (auto simp: even_nat_iff)
  ultimately show ?thesis using gob_read_uint_uint [of ?n bs] by (simp add: gob_read_int_def gob_int_def)
qed

lemma length_gob_int: "- 9223372036854775808 \<le> i \<Longrightarrow> i < 9223372036854775808 \<Longrightarrow> length (gob_int i) \<le> 9"
proof -
  assume "- 9223372036854775808 \<le> i" "i < 9223372036854775808"
  then have "nat (if i < 0 then 2 * (- i - 1) + 1 else 2 * i) < 256 ^ 8" by (auto simp: nat_less_iff)
  from length_be_bytes [OF this] show ?thesis by (simp add: gob_int_def gob_uint_def)
qed

lemma gob_read_message_message:
  assumes i: "- 9223372036854775808 \<le> i" "i < 9223372036854775808"
  shows "gob_read_message (gob_message i) = Inr i" and "length (gob_message i) \<le> 20"
proof -
  let ?p = "gob_int 2 @ [0] @ gob_int i"
  have len: "length ?p \<le> 12" using length_gob_int [OF i] by (simp add: gob_int_def gob_uint_def)
  then have 1: "gob_read_uint (gob_uint (length ?p) @ ?p) = Inr (length ?p, ?p)" by (intro gob_read_uint_uint) simp
  have 2: "gob_read_int ?p = Inr (2, [0] @ gob_int i)" by (rule gob_read_int_int) simp_all
  have 3: "gob_read_uint ([0] @ gob_int i) = Inr (0, gob_int i)" by (simp add: gob_read_uint_def)
  have 4: "gob_read_int (gob_int i) = Inr (i, [])" using gob_read_int_int [OF i, of "[]"] by simp
  show "gob_read_message (gob_message i) = Inr i"
    unfolding gob_read_message_def gob_message_def Let_def 1 by (simp add: 2 [simplified] 3 [simplified] 4)
  show "length (gob_message i) \<le> 20" using len by (simp add: gob_message_def gob_uint_def)
qed

subsection \<open>Writing\<close>

definition binary_Write :: "'s writer \<Rightarrow> byte list \<Rightarrow> ('s, unit) io" where
  "binary_Write W bs s = (case W s bs of ((n, Some e), s') \<Rightarrow> (Inl (Failed e), s') | ((n, None), s') \<Rightarrow> (Inr (), s'))"

definition WriteSlice :: "'s writer \<Rightarrow> i32 list \<Rightarrow> ('s, unit) io" where
  "WriteSlice W xs = io_bind (binary_Write W (le32 (of_nat (length xs)))) (\<lambda>_. binary_Write W (concat (map le32 xs)))"

definition WriteBytes :: "'s writer \<Rightarrow> byte list \<Rightarrow> ('s, unit) io" where
  "WriteBytes W bs = io_bind (binary_Write W (le32 (of_nat (length bs)))) (\<lambda>_ s.
     case W s bs of
       ((n, Some e), s') \<Rightarrow> (Inl (Failed e), s')
     | ((n, None), s') \<Rightarrow> (if n \<noteq> length bs then Inl (Failed (ErrOther ''fail to write string'')) else Inr (), s'))"

definition WriteString :: "'s writer \<Rightarrow> string \<Rightarrow> ('s, unit) io" where
  "WriteString W s = WriteBytes W (bytes_of s)"

definition WriteGob :: "'s writer \<Rightarrow> int \<Rightarrow> ('s, unit) io" where
  "WriteGob W i = WriteBytes W (gob_message i)"

fun io_each :: "('a \<Rightarrow> ('s, unit) io) \<Rightarrow> 'a list \<Rightarrow> ('s, unit) io" where
  "io_each f [] = io_return ()"
| "io_each f (x # xs) = io_bind (f x) (\<lambda>_. io_each f xs)"

text \<open>\<open>wrote_all content m bs\<close>: whenever \<open>m\<close> succeeds, it has appended \<open>bs\<close> to what the writer holds.\<close>

definition wrote_all :: "('s \<Rightarrow> byte list) \<Rightarrow> ('s, unit) io \<Rightarrow> byte list \<Rightarrow> bool" where
  "wrote_all content m bs \<longleftrightarrow> (\<forall>s s' x. m s = (Inr x, s') \<longrightarrow> content s' = content s @ bs)"

lemma wrote_all_bind: "wrote_all content m bs \<Longrightarrow> wrote_all content m' bs' \<Longrightarrow> wrote_all content (io_bind m (\<lambda>_. m')) (bs @ bs')"
  by (fastforce simp: wrote_all_def io_bind_Inr)

lemma wrote_all_each: "(\<And>x. wrote_all content (f x) (g x)) \<Longrightarrow> wrote_all content (io_each f xs) (concat (map g xs))"
proof (induction xs)
  case Nil
  show ?case by (simp add: wrote_all_def)
next
  case (Cons x xs)
  then show ?case by (simp add: wrote_all_bind)
qed

definition bytes_encoding :: "byte list \<Rightarrow> byte list" where
  "bytes_encoding bs = le32 (of_nat (length bs)) @ bs"

definition slice_encoding :: "i32 list \<Rightarrow> byte list" where
  "slice_encoding xs = le32 (of_nat (length xs)) @ concat (map le32 xs)"

text \<open>What \<open>io.Writer\<close> documents: a call that returns no error has written all of its bytes.\<close>

locale io_writer =
  fixes Write :: "'s writer" and content :: "'s \<Rightarrow> byte list"
  assumes write_law: "Write s p = ((n, None), s') \<Longrightarrow> n = length p \<and> content s' = content s @ p"
begin

lemma binary_Write_all: "wrote_all content (binary_Write Write bs) bs"
  by (auto simp: wrote_all_def binary_Write_def dest: write_law split: prod.splits option.splits)

lemma WriteSlice_all: "wrote_all content (WriteSlice Write xs) (slice_encoding xs)"
  unfolding WriteSlice_def slice_encoding_def by (intro wrote_all_bind binary_Write_all)

lemma WriteBytes_all: "wrote_all content (WriteBytes Write bs) (bytes_encoding bs)"
  unfolding WriteBytes_def bytes_encoding_def
  by (intro wrote_all_bind binary_Write_all) (auto simp: wrote_all_def dest: write_law split: prod.splits option.splits if_splits)

lemma WriteString_all: "wrote_all content (WriteString Write s) (bytes_encoding (bytes_of s))"
  unfolding WriteString_def by (rule WriteBytes_all)

lemma WriteGob_all: "wrote_all content (WriteGob Write i) (bytes_encoding (gob_message i))"
  unfolding WriteGob_def by (rule WriteBytes_all)

lemmas write_all = wrote_all_bind wrote_all_each binary_Write_all WriteSlice_all WriteBytes_all WriteString_all WriteGob_all

end

text \<open>\<open>bytes.Buffer\<close> is such a writer and never fails; blob stores are parameters.\<close>

definition buffer_Write :: "byte list writer" where
  "buffer_Write s p = ((length p, None), s @ p)"

interpretation bufw: io_writer buffer_Write "\<lambda>s. s"
  by unfold_locales (simp add: buffer_Write_def)

definition never_fails :: "('s, 'a) io \<Rightarrow> bool" where
  "never_fails m \<longleftrightarrow> (\<forall>s. \<exists>x s'. m s = (Inr x, s'))"

lemma never_fails_bind: "never_fails m \<Longrightarrow> (\<And>x. never_fails (f x)) \<Longrightarrow> never_fails (io_bind m f)"
  unfolding never_fails_def io_bind_Inr by blast

lemma never_fails_each: "(\<And>x. never_fails (f x)) \<Longrightarrow> never_fails (io_each f xs)"
  by (induction xs) (simp_all add: never_fails_bind, simp add: never_fails_def)

lemma buffer_binary_Write: "never_fails (binary_Write buffer_Write bs)"
  by (simp add: never_fails_def binary_Write_def buffer_Write_def)

lemma buffer_never_fails:
  "never_fails (WriteSlice buffer_Write xs)" "never_fails (WriteBytes buffer_Write bs)"
  "never_fails (WriteString buffer_Write s)" "never_fails (WriteGob buffer_Write i)"
  unfolding WriteSlice_def WriteString_def WriteGob_def WriteBytes_def
  by (intro never_fails_bind buffer_binary_Write; simp add: never_fails_def buffer_Write_def)+

lemma buffer_writes: "wrote_all (\<lambda>s. s) m bs \<Longrightarrow> never_fails m \<Longrightarrow> m s = (Inr (), s @ bs)"
  unfolding wrote_all_def never_fails_def by (metis old.unit.exhaust)

subsection \<open>Reading\<close>

text \<open>
  \<open>io.ReadFull\<close> calls \<open>Read\<close> until it has \<open>n\<close> bytes. A reader that keeps returning nothing keeps it
  going for ever; then the value is \<open>None\<close>.
\<close>

type_synonym ('s, 'a) oio = "'s \<Rightarrow> ((failure + 'a) \<times> 's) option"

definition oio_return :: "'a \<Rightarrow> ('s, 'a) oio" where
  "oio_return x s = Some (Inr x, s)"

definition oio_fail :: "failure \<Rightarrow> ('s, 'a) oio" where
  "oio_fail e s = Some (Inl e, s)"

definition oio_bind :: "('s, 'a) oio \<Rightarrow> ('a \<Rightarrow> ('s, 'b) oio) \<Rightarrow> ('s, 'b) oio" where
  "oio_bind m f s = (case m s of None \<Rightarrow> None | Some (Inl e, s') \<Rightarrow> Some (Inl e, s') | Some (Inr x, s') \<Rightarrow> f x s')"

partial_function (option) ReadFull :: "'s reader \<Rightarrow> nat \<Rightarrow> byte list \<Rightarrow> 's \<Rightarrow> ((failure + byte list) \<times> 's) option" where
  "ReadFull R n got s =
     (if n \<le> length got then Some (Inr got, s)
      else case R s (n - length got) of ((p, e), s') \<Rightarrow>
        (case e of
           None \<Rightarrow> ReadFull R n (got @ p) s'
         | Some err \<Rightarrow> Some
             (if n \<le> length (got @ p) then Inr (got @ p)
              else if got @ p \<noteq> [] \<and> err = io_EOF then Inl (Failed io_ErrUnexpectedEOF) else Inl (Failed err), s')))"

definition read_int32 :: "'s reader \<Rightarrow> ('s, i32) oio" where
  "read_int32 R = oio_bind (ReadFull R 4 []) (\<lambda>bs. oio_return (of_le32 bs))"

text \<open>A slice of \<open>n\<close> elements of four bytes.\<close>

definition split_le32 :: "nat \<Rightarrow> byte list \<Rightarrow> i32 list" where
  "split_le32 n bs = map (\<lambda>k. of_le32 (take 4 (drop (4 * k) bs))) [0..<n]"

definition ReadSlice :: "'s reader \<Rightarrow> ('s, i32 list) oio" where
  "ReadSlice R = oio_bind (read_int32 R) (\<lambda>n.
     if sint n < 0 then oio_fail (Panicked NegativeLength)
     else oio_bind (ReadFull R (4 * nat (sint n)) []) (\<lambda>bs. oio_return (split_le32 (nat (sint n)) bs)))"

text \<open>The loop of \<open>ReadBytes\<close>, with \<open>n\<close> bytes still to be read. \<open>Read\<close> returns at most the bytes it is asked for.\<close>

function read_bytes_loop :: "'s reader \<Rightarrow> byte list \<Rightarrow> nat \<Rightarrow> 's \<Rightarrow> (failure + byte list) \<times> 's" where
  "read_bytes_loop R got n s =
     (case R s n of
        ((p, Some e), s') \<Rightarrow> (Inl (Failed e), s')
      | ((p, None), s') \<Rightarrow>
          if n \<le> length p then (Inr (got @ p), s')
          else if p = [] then (Inl (Failed (ErrOther ''fail to read string'')), s')
          else read_bytes_loop R (got @ p) (n - length p) s')"
  by pat_completeness auto
termination
  by (relation "measure (\<lambda>(R, got, n, s). n)") auto

definition ReadBytes :: "'s reader \<Rightarrow> ('s, byte list) oio" where
  "ReadBytes R = oio_bind (read_int32 R) (\<lambda>n.
     if sint n < 0 then oio_fail (Panicked NegativeLength)
     else (\<lambda>s. Some (read_bytes_loop R [] (nat (sint n)) s)))"

definition ReadString :: "'s reader \<Rightarrow> ('s, string) oio" where
  "ReadString R = oio_bind (ReadBytes R) (\<lambda>bs. oio_return (string_of bs))"

definition ReadGob :: "'s reader \<Rightarrow> ('s, int) oio" where
  "ReadGob R = oio_bind (ReadBytes R) (\<lambda>bs.
     case gob_read_message bs of Inl e \<Rightarrow> oio_fail (Failed e) | Inr i \<Rightarrow> oio_return i)"

declare read_bytes_loop.simps [simp del]

text \<open>
  \<open>delivers ok rest m bs x\<close>: from a reader whose unread bytes begin with \<open>bs\<close>, \<open>m\<close> takes just these and returns \<open>x\<close>.
\<close>

definition delivers :: "('s \<Rightarrow> bool) \<Rightarrow> ('s \<Rightarrow> byte list) \<Rightarrow> ('s, 'a) oio \<Rightarrow> byte list \<Rightarrow> 'a \<Rightarrow> bool" where
  "delivers ok rest m bs x \<longleftrightarrow>
     (\<forall>s t. ok s \<longrightarrow> rest s = bs @ t \<longrightarrow> (\<exists>s'. m s = Some (Inr x, s') \<and> ok s' \<and> rest s' = t))"

lemma delivers_return: "delivers ok rest (oio_return x) [] x"
  by (simp add: delivers_def oio_return_def)

lemma delivers_bind:
  assumes "delivers ok rest m bs x" and "delivers ok rest (f x) bs' y"
  shows "delivers ok rest (oio_bind m f) (bs @ bs') y"
  unfolding delivers_def
proof (intro allI impI)
  fix s t assume s: "ok s" "rest s = (bs @ bs') @ t"
  then obtain s1 where "m s = Some (Inr x, s1)" "ok s1" "rest s1 = bs' @ t"
    using assms(1) unfolding delivers_def by (metis append.assoc)
  moreover then obtain s2 where "f x s1 = Some (Inr y, s2)" "ok s2" "rest s2 = t"
    using assms(2) unfolding delivers_def by metis
  ultimately show "\<exists>s'. oio_bind m f s = Some (Inr y, s') \<and> ok s' \<and> rest s' = t"
    by (simp add: oio_bind_def)
qed

lemma delivers_bind_return: "delivers ok rest m bs x \<Longrightarrow> delivers ok rest (oio_bind m (\<lambda>x. oio_return (f x))) bs (f x)"
  using delivers_bind [of ok rest m bs x "\<lambda>x. oio_return (f x)" "[]" "f x"] by (simp add: delivers_return)

lemma split_le32_concat: "length xs = n \<Longrightarrow> split_le32 n (concat (map le32 xs)) = xs"
proof (induction xs arbitrary: n)
  case Nil
  then show ?case by (simp add: split_le32_def)
next
  case (Cons x xs)
  obtain m where n: "n = Suc m" "length xs = m" using Cons.prems by auto
  have "split_le32 n (le32 x @ bs) = x # split_le32 m bs" for bs
    unfolding split_le32_def n(1) upt_conv_Cons [OF zero_less_Suc] map_Suc_upt [symmetric] by (simp add: o_def)
  then show ?case using Cons.IH [OF n(2)] by simp
qed

lemma length_concat_le32 [simp]: "length (concat (map le32 xs)) = 4 * length xs"
  by (induction xs) simp_all

text \<open>
  What is needed of \<open>io.Reader\<close>: a call returns some of the bytes that come next, at least one when there are any and it is
  asked for any, and an error only when nothing is left.
\<close>

locale io_reader =
  fixes Read :: "'s reader" and rest :: "'s \<Rightarrow> byte list" and ok :: "'s \<Rightarrow> bool"
  assumes read_split: "ok s \<Longrightarrow> Read s n = ((p, e), s') \<Longrightarrow> ok s' \<and> length p \<le> n \<and> rest s = p @ rest s'"
    and read_progress: "ok s \<Longrightarrow> Read s n = ((p, e), s') \<Longrightarrow> 0 < n \<Longrightarrow> rest s \<noteq> [] \<Longrightarrow> p \<noteq> []"
    and read_clean: "ok s \<Longrightarrow> Read s n = ((p, e), s') \<Longrightarrow> n = 0 \<or> rest s \<noteq> [] \<Longrightarrow> e = None"
begin

lemma read_next:
  assumes "ok s" and "rest s = bs @ t"
  obtains p bs' s' where "Read s (length bs) = ((p, None), s')" "bs = p @ bs'" "rest s' = bs' @ t" "ok s'" "bs \<noteq> [] \<Longrightarrow> p \<noteq> []"
proof -
  obtain p e s' where r: "Read s (length bs) = ((p, e), s')" by (metis surj_pair)
  have e: "e = None" using read_clean [OF assms(1) r] assms(2) by (cases bs) auto
  have 1: "ok s'" "length p \<le> length bs" "bs @ t = p @ rest s'" using read_split [OF assms(1) r] assms(2) by simp_all
  then have "bs = p @ drop (length p) bs" "rest s' = drop (length p) bs @ t"
    by (auto simp: append_eq_append_conv_if split: if_splits) (metis append_take_drop_id)
  moreover have "p \<noteq> []" if "bs \<noteq> []" using read_progress [OF assms(1) r] assms(2) that by simp
  ultimately show thesis using that r e 1(1) by metis
qed

lemma ReadFull_gets:
  "ok s \<Longrightarrow> rest s = bs @ t \<Longrightarrow> \<exists>s'. ReadFull Read (length got + length bs) got s = Some (Inr (got @ bs), s') \<and> ok s' \<and> rest s' = t"
proof (induction "length bs" arbitrary: bs got s rule: less_induct)
  case less
  show ?case
  proof (cases "bs = []")
    case True
    then show ?thesis using less.prems by (subst ReadFull.simps) simp
  next
    case False
    obtain p bs' s' where r: "Read s (length bs) = ((p, None), s')" "bs = p @ bs'" "rest s' = bs' @ t" "ok s'" "p \<noteq> []"
      using read_next [OF less.prems] False by metis
    have "length bs' < length bs" using r(2,5) by simp
    from less.hyps [OF this r(4,3), of "got @ p"] show ?thesis
      using False r by (subst ReadFull.simps) (simp add: add.assoc)
  qed
qed

lemma ReadFull_delivers: "n = length bs \<Longrightarrow> delivers ok rest (ReadFull Read n []) bs bs"
  unfolding delivers_def using ReadFull_gets [of _ bs _ "[]"] by auto

lemma read_int32_delivers: "delivers ok rest (read_int32 Read) (le32 w) w"
  unfolding read_int32_def
  using delivers_bind_return [OF ReadFull_delivers, of 4 "le32 w" of_le32] by simp

lemma ReadSlice_delivers: "length xs < 2147483648 \<Longrightarrow> delivers ok rest (ReadSlice Read) (slice_encoding xs) xs"
  unfolding ReadSlice_def slice_encoding_def
  using delivers_bind_return [OF ReadFull_delivers, of "4 * length xs" "concat (map le32 xs)" "split_le32 (length xs)"]
  by (intro delivers_bind [OF read_int32_delivers]) (simp add: split_le32_concat)

lemma read_bytes_gets:
  "ok s \<Longrightarrow> rest s = bs @ t \<Longrightarrow> \<exists>s'. read_bytes_loop Read got (length bs) s = (Inr (got @ bs), s') \<and> ok s' \<and> rest s' = t"
proof (induction "length bs" arbitrary: bs got s rule: less_induct)
  case less
  obtain p bs' s' where r: "Read s (length bs) = ((p, None), s')" "bs = p @ bs'" "rest s' = bs' @ t" "ok s'" "bs \<noteq> [] \<Longrightarrow> p \<noteq> []"
    using read_next [OF less.prems] by metis
  show ?case
  proof (cases "bs' = []")
    case True
    then show ?thesis using r by (subst read_bytes_loop.simps) simp
  next
    case False
    then have "p \<noteq> []" using r(2,5) by simp
    then have "length bs' < length bs" using r(2) by simp
    from less.hyps [OF this r(4,3), of "got @ p"] show ?thesis
      using False r \<open>p \<noteq> []\<close> by (subst read_bytes_loop.simps) simp
  qed
qed

lemma ReadBytes_delivers: "length bs < 2147483648 \<Longrightarrow> delivers ok rest (ReadBytes Read) (bytes_encoding bs) bs"
  unfolding ReadBytes_def bytes_encoding_def using read_bytes_gets [of _ bs _ "[]"]
  by (intro delivers_bind [OF read_int32_delivers]) (auto simp: delivers_def)

lemma ReadString_delivers: "length s < 2147483648 \<Longrightarrow> delivers ok rest (ReadString Read) (bytes_encoding (bytes_of s)) s"
  unfolding ReadString_def using delivers_bind_return [OF ReadBytes_delivers, of "bytes_of s" string_of] by simp

lemma ReadGob_delivers:
  assumes "- 9223372036854775808 \<le> i" and "i < 9223372036854775808"
  shows "delivers ok rest (ReadGob Read) (bytes_encoding (gob_message i)) i"
proof -
  have "length (gob_message i) < 2147483648" using gob_read_message_message(2) [OF assms] by linarith
  from delivers_bind [OF ReadBytes_delivers [OF this]] show ?thesis
    unfolding ReadGob_def using gob_read_message_message(1) [OF assms] delivers_return
    by (metis (no_types, lifting) append_Nil2 old.sum.simps(6))
qed

end

text \<open>
  A stream that hands out its bytes in chunks, as a file or a connection does. \<open>st_eager\<close> is the other way that
  \<open>io.Reader\<close> allows to end: the error \<open>io.EOF\<close> comes with the last bytes and not after them.
\<close>

record stream =
  st_chunks :: "byte list list"
  st_eager :: bool

definition stream_Read :: "stream reader" where
  "stream_Read s n =
     (case st_chunks s of
        [] \<Rightarrow> (([], if n = 0 then None else Some io_EOF), s)
      | c # cs \<Rightarrow>
          let cs' = (if length c \<le> n then cs else drop n c # cs) in
          ((take n c, if st_eager s \<and> cs' = [] then Some io_EOF else None), s\<lparr>st_chunks := cs'\<rparr>))"

definition stream_ok :: "stream \<Rightarrow> bool" where
  "stream_ok s \<longleftrightarrow> \<not> st_eager s \<and> [] \<notin> set (st_chunks s)"

definition stream_rest :: "stream \<Rightarrow> byte list" where
  "stream_rest s = concat (st_chunks s)"

interpretation streamr: io_reader stream_Read stream_rest stream_ok
proof unfold_locales
  fix s n p e s' assume s: "stream_ok s" and r: "stream_Read s n = ((p, e), s')"
  show "stream_ok s' \<and> length p \<le> n \<and> stream_rest s = p @ stream_rest s'"
    using s r by (auto simp: stream_Read_def stream_ok_def stream_rest_def Let_def split: list.splits if_splits)
  show "p \<noteq> []" if "0 < n" "stream_rest s \<noteq> []"
    using s r that by (auto simp: stream_Read_def stream_ok_def stream_rest_def Let_def split: list.splits if_splits)
  show "e = None" if "n = 0 \<or> stream_rest s \<noteq> []"
    using s r that by (auto simp: stream_Read_def stream_ok_def stream_rest_def Let_def split: list.splits if_splits)
qed

text \<open>\<open>ReadBytes\<close> drops bytes that come together with \<open>io.EOF\<close>: what was written cannot be read from an eager stream.\<close>

lemma eager_stream_fails:
  "ReadBytes stream_Read \<lparr>st_chunks = [le32 1, [7]], st_eager = True\<rparr> = Some (Inl (Failed io_EOF), \<lparr>st_chunks = [], st_eager = True\<rparr>)"
proof -
  have 1: "of_le32 [1, 0, 0, 0] = 1" using of_le32_le32 [of 1] by (simp add: le32_def)
  have 2: "ReadFull stream_Read 4 [] \<lparr>st_chunks = [[1, 0, 0, 0], [7]], st_eager = True\<rparr>
      = Some (Inr [1, 0, 0, 0], \<lparr>st_chunks = [[7]], st_eager = True\<rparr>)"
    by (subst ReadFull.simps, simp add: stream_Read_def, subst ReadFull.simps, simp)
  show ?thesis
    by (simp add: ReadBytes_def oio_bind_def read_int32_def oio_return_def le32_def 1 2 read_bytes_loop.simps stream_Read_def)
qed

lemma ordinary_stream_reads:
  "\<exists>s'. ReadBytes stream_Read \<lparr>st_chunks = [le32 1, [7]], st_eager = False\<rparr> = Some (Inr [7], s')"
proof -
  have "stream_ok \<lparr>st_chunks = [le32 1, [7]], st_eager = False\<rparr>" by (simp add: stream_ok_def le32_def)
  moreover have "stream_rest \<lparr>st_chunks = [le32 1, [7]], st_eager = False\<rparr> = bytes_encoding [7] @ []"
    by (simp add: stream_rest_def bytes_encoding_def)
  ultimately show ?thesis using streamr.ReadBytes_delivers [of "[7]"] unfolding delivers_def by fastforce
qed

subsection \<open>Indices\<close>

definition idx_Marshal :: "'s writer \<Rightarrow> index \<Rightarrow> ('s, unit) io" where
  "idx_Marshal W ix = io_bind (binary_Write W (le32 (of_nat (length (Names ix))))) (\<lambda>_. io_each (WriteString W) (Names ix))"

fun read_names :: "'s reader \<Rightarrow> nat \<Rightarrow> index \<Rightarrow> ('s, index) oio" where
  "read_names R 0 ix = oio_return ix"
| "read_names R (Suc n) ix = oio_bind (ReadString R) (\<lambda>name. read_names R n (idx_Add ix name))"

text \<open>\<open>make([]string, 0, n)\<close> panics when \<open>n\<close> is negative.\<close>

definition idx_Unmarshal :: "'s reader \<Rightarrow> ('s, index) oio" where
  "idx_Unmarshal R = oio_bind (read_int32 R) (\<lambda>n.
     if sint n < 0 then oio_fail (Panicked NegativeLength) else read_names R (nat (sint n)) NewMapIndex)"

text \<open>A unified index is nil, five indices, or a number; a byte tells which.\<close>

datatype unified_index = NilIndex | MapIndex unified_map_index | DirectIndex i32

definition um_Marshal :: "'s writer \<Rightarrow> unified_map_index \<Rightarrow> ('s, unit) io" where
  "um_Marshal W u = io_each (idx_Marshal W) [um_UserIndex u, um_ItemIndex u, um_UserLabelIndex u, um_ItemLabelIndex u, um_CtxLabelIndex u]"

definition um_Unmarshal :: "'s reader \<Rightarrow> ('s, unified_map_index) oio" where
  "um_Unmarshal R =
     oio_bind (idx_Unmarshal R) (\<lambda>u. oio_bind (idx_Unmarshal R) (\<lambda>i. oio_bind (idx_Unmarshal R) (\<lambda>ul.
     oio_bind (idx_Unmarshal R) (\<lambda>il. oio_bind (idx_Unmarshal R) (\<lambda>c. oio_return
       \<lparr>um_UserIndex = u, um_ItemIndex = i, um_UserLabelIndex = ul, um_ItemLabelIndex = il, um_CtxLabelIndex = c\<rparr>)))))"

definition MarshalUnifiedIndex :: "'s writer \<Rightarrow> unified_index \<Rightarrow> ('s, unit) io" where
  "MarshalUnifiedIndex W index =
     (case index of
        NilIndex \<Rightarrow> binary_Write W [2]
      | MapIndex u \<Rightarrow> io_bind (binary_Write W [0]) (\<lambda>_. um_Marshal W u)
      | DirectIndex n \<Rightarrow> io_bind (binary_Write W [1]) (\<lambda>_. binary_Write W (le32 n)))"

definition UnmarshalUnifiedIndex :: "'s reader \<Rightarrow> ('s, unified_index) oio" where
  "UnmarshalUnifiedIndex R = oio_bind (ReadFull R 1 []) (\<lambda>t.
     if t = [0] then oio_bind (um_Unmarshal R) (\<lambda>u. oio_return (MapIndex u))
     else if t = [1] then oio_bind (read_int32 R) (\<lambda>n. oio_return (DirectIndex n))
     else if t = [2] then oio_return NilIndex
     else oio_fail (Failed (ErrOther ''unknown index type'')))"

definition index_fits :: "index \<Rightarrow> bool" where
  "index_fits ix \<longleftrightarrow> index_ok ix \<and> length (Names ix) < 2147483648 \<and> (\<forall>s \<in> set (Names ix). length s < 2147483648)"

definition index_encoding :: "index \<Rightarrow> byte list" where
  "index_encoding ix = le32 (of_nat (length (Names ix))) @ concat (map (\<lambda>s. bytes_encoding (bytes_of s)) (Names ix))"

lemma numbering_unique: "numbering num ns \<Longrightarrow> numbering num' ns \<Longrightarrow> num = num'"
proof
  fix s assume n: "numbering num ns" "numbering num' ns"
  show "num s = num' s"
  proof (cases "s \<in> set ns")
    case True
    then show ?thesis using n unfolding numbering_def by (metis in_set_conv_nth)
  next
    case False
    then show ?thesis using n numbering_None by metis
  qed
qed

lemma add_names:
  "index_ok ix \<Longrightarrow> distinct (Names ix @ ns) \<Longrightarrow> index_ok (foldl idx_Add ix ns) \<and> Names (foldl idx_Add ix ns) = Names ix @ ns"
proof (induction ns arbitrary: ix)
  case (Cons s ns)
  have "Numbers ix s = None" using Cons.prems numbering_None by fastforce
  then have a: "index_ok (idx_Add ix s)" "Names (idx_Add ix s) = Names ix @ [s]"
    using numbering_extend [OF Cons.prems(1)] by (simp_all add: idx_Add_def)
  have "distinct (Names (idx_Add ix s) @ ns)" using Cons.prems(2) a(2) by simp
  moreover have e: "foldl idx_Add ix (s # ns) = foldl idx_Add (idx_Add ix s) ns" "(Names ix @ [s]) @ ns = Names ix @ s # ns" by simp_all
  ultimately show ?case using Cons.IH [OF a(1)] unfolding e a(2) by blast
qed simp

lemma add_names_again: "index_ok ix \<Longrightarrow> foldl idx_Add NewMapIndex (Names ix) = ix"
proof -
  assume ix: "index_ok ix"
  have n: "index_ok NewMapIndex" "Names NewMapIndex = []" by (simp_all add: NewMapIndex_def)
  have "distinct (Names ix)" using ix by (simp add: numbering_def)
  with add_names [OF n(1), of "Names ix", unfolded n(2)]
  have "index_ok (foldl idx_Add NewMapIndex (Names ix))" "Names (foldl idx_Add NewMapIndex (Names ix)) = Names ix"
    unfolding append_Nil by blast+
  moreover then have "Numbers (foldl idx_Add NewMapIndex (Names ix)) = Numbers ix" using ix numbering_unique by metis
  ultimately show ?thesis by simp
qed

context io_writer
begin

lemma idx_Marshal_all: "wrote_all content (idx_Marshal Write ix) (index_encoding ix)"
  unfolding idx_Marshal_def index_encoding_def by (intro write_all)

lemma um_Marshal_all:
  "wrote_all content (um_Marshal Write u)
     (concat (map index_encoding [um_UserIndex u, um_ItemIndex u, um_UserLabelIndex u, um_ItemLabelIndex u, um_CtxLabelIndex u]))"
  unfolding um_Marshal_def by (intro wrote_all_each idx_Marshal_all)

end

context io_reader
begin

lemma read_names_delivers:
  "\<forall>s \<in> set ns. length s < 2147483648 \<Longrightarrow>
   delivers ok rest (read_names Read (length ns) ix) (concat (map (\<lambda>s. bytes_encoding (bytes_of s)) ns)) (foldl idx_Add ix ns)"
proof (induction ns arbitrary: ix)
  case Nil
  show ?case by (simp add: delivers_return)
next
  case (Cons s ns)
  then show ?case by (auto intro!: delivers_bind [OF ReadString_delivers])
qed

lemma idx_Unmarshal_delivers: "index_fits ix \<Longrightarrow> delivers ok rest (idx_Unmarshal Read) (index_encoding ix) ix"
proof -
  assume ix: "index_fits ix"
  have "delivers ok rest (read_names Read (length (Names ix)) NewMapIndex) (concat (map (\<lambda>s. bytes_encoding (bytes_of s)) (Names ix))) ix"
    using read_names_delivers [of "Names ix" NewMapIndex] add_names_again [of ix] ix by (simp add: index_fits_def)
  then show ?thesis using ix unfolding idx_Unmarshal_def index_encoding_def
    by (intro delivers_bind [OF read_int32_delivers]) (simp add: index_fits_def)
qed

end

definition unified_fits :: "unified_index \<Rightarrow> bool" where
  "unified_fits index =
     (case index of
        MapIndex u \<Rightarrow> index_fits (um_UserIndex u) \<and> index_fits (um_ItemIndex u) \<and> index_fits (um_UserLabelIndex u) \<and>
          index_fits (um_ItemLabelIndex u) \<and> index_fits (um_CtxLabelIndex u)
      | _ \<Rightarrow> True)"

definition unified_encoding :: "unified_index \<Rightarrow> byte list" where
  "unified_encoding index =
     (case index of
        NilIndex \<Rightarrow> [2]
      | MapIndex u \<Rightarrow> [0] @ concat (map index_encoding [um_UserIndex u, um_ItemIndex u, um_UserLabelIndex u, um_ItemLabelIndex u, um_CtxLabelIndex u])
      | DirectIndex n \<Rightarrow> [1] @ le32 n)"

context io_writer
begin

lemma MarshalUnifiedIndex_all: "wrote_all content (MarshalUnifiedIndex Write index) (unified_encoding index)"
proof (cases index)
  case NilIndex
  then show ?thesis using binary_Write_all by (simp add: MarshalUnifiedIndex_def unified_encoding_def)
next
  case (MapIndex u)
  show ?thesis unfolding MapIndex MarshalUnifiedIndex_def unified_encoding_def unified_index.case
    by (intro wrote_all_bind binary_Write_all um_Marshal_all)
next
  case (DirectIndex n)
  show ?thesis unfolding DirectIndex MarshalUnifiedIndex_def unified_encoding_def unified_index.case
    by (intro wrote_all_bind binary_Write_all)
qed

end

context io_reader
begin

lemma um_Unmarshal_delivers:
  assumes "unified_fits (MapIndex u)"
  shows "delivers ok rest (um_Unmarshal Read)
    (concat (map index_encoding [um_UserIndex u, um_ItemIndex u, um_UserLabelIndex u, um_ItemLabelIndex u, um_CtxLabelIndex u])) u"
proof -
  have f: "index_fits (um_UserIndex u)" "index_fits (um_ItemIndex u)" "index_fits (um_UserLabelIndex u)"
    "index_fits (um_ItemLabelIndex u)" "index_fits (um_CtxLabelIndex u)"
    using assms by (simp_all add: unified_fits_def)
  note d = idx_Unmarshal_delivers
  have "delivers ok rest (um_Unmarshal Read)
    (index_encoding (um_UserIndex u) @ index_encoding (um_ItemIndex u) @ index_encoding (um_UserLabelIndex u) @
     index_encoding (um_ItemLabelIndex u) @ index_encoding (um_CtxLabelIndex u)) u"
    unfolding um_Unmarshal_def
    by (rule delivers_bind [OF d [OF f(1)]], rule delivers_bind [OF d [OF f(2)]], rule delivers_bind [OF d [OF f(3)]],
      rule delivers_bind [OF d [OF f(4)]])
     (use delivers_bind_return [OF d [OF f(5)], of "\<lambda>c. u\<lparr>um_CtxLabelIndex := c\<rparr>"] in \<open>cases u; simp\<close>)
  then show ?thesis by simp
qed

lemma UnmarshalUnifiedIndex_delivers:
  assumes "unified_fits index"
  shows "delivers ok rest (UnmarshalUnifiedIndex Read) (unified_encoding index) index"
proof (cases index)
  case NilIndex
  have "delivers ok rest (UnmarshalUnifiedIndex Read) ([2] @ []) NilIndex"
    unfolding UnmarshalUnifiedIndex_def by (rule delivers_bind [OF ReadFull_delivers]) (simp_all add: delivers_return)
  then show ?thesis by (simp add: NilIndex unified_encoding_def)
next
  case (MapIndex u)
  have "delivers ok rest (oio_bind (um_Unmarshal Read) (\<lambda>u. oio_return (MapIndex u)))
    (concat (map index_encoding [um_UserIndex u, um_ItemIndex u, um_UserLabelIndex u, um_ItemLabelIndex u, um_CtxLabelIndex u])) (MapIndex u)"
    by (rule delivers_bind_return [OF um_Unmarshal_delivers]) (use assms MapIndex in simp)
  then show ?thesis unfolding MapIndex UnmarshalUnifiedIndex_def unified_encoding_def unified_index.case
    by (intro delivers_bind [OF ReadFull_delivers]) simp_all
next
  case (DirectIndex n)
  have "delivers ok rest (oio_bind (read_int32 Read) (\<lambda>n. oio_return (DirectIndex n))) (le32 n) (DirectIndex n)"
    by (rule delivers_bind_return [OF read_int32_delivers])
  then show ?thesis unfolding DirectIndex UnmarshalUnifiedIndex_def unified_encoding_def unified_index.case
    by (intro delivers_bind [OF ReadFull_delivers]) simp_all
qed

end

subsection \<open>The factors of the users (\<open>logics/cf.go\<close>)\<close>

text \<open>The map of embeddings is listed in the order in which it grew; \<open>Iter\<close> gives the order in which a loop visits it.\<close>

type_synonym mf_users = "(string \<times> i32 list) list"

definition NewMatrixFactorizationUsers :: mf_users where
  "NewMatrixFactorizationUsers = []"

definition mf_Add :: "mf_users \<Rightarrow> string \<Rightarrow> i32 list \<Rightarrow> mf_users" where
  "mf_Add users userId v = AList.update userId v users"

definition mf_Get :: "mf_users \<Rightarrow> string \<Rightarrow> i32 list option" where
  "mf_Get users userId = map_of users userId"

definition mf_Marshal :: "(mf_users \<Rightarrow> mf_users) \<Rightarrow> 's writer \<Rightarrow> mf_users \<Rightarrow> ('s, unit) io" where
  "mf_Marshal Iter W users =
     io_bind (WriteGob W (int (length users))) (\<lambda>_.
     io_each (\<lambda>(userId, embedding). io_bind (WriteString W userId) (\<lambda>_. WriteSlice W embedding)) (Iter users))"

fun read_users :: "'s reader \<Rightarrow> nat \<Rightarrow> mf_users \<Rightarrow> ('s, mf_users) oio" where
  "read_users R 0 users = oio_return users"
| "read_users R (Suc n) users =
     oio_bind (ReadString R) (\<lambda>userId. oio_bind (ReadSlice R) (\<lambda>embedding. read_users R n (mf_Add users userId embedding)))"

definition mf_Unmarshal :: "'s reader \<Rightarrow> ('s, mf_users) oio" where
  "mf_Unmarshal R = oio_bind (ReadGob R) (\<lambda>numUsers. read_users R (nat numUsers) NewMatrixFactorizationUsers)"

definition users_fit :: "mf_users \<Rightarrow> bool" where
  "users_fit users \<longleftrightarrow> length users < 9223372036854775808 \<and>
     (\<forall>(userId, embedding) \<in> set users. length userId < 2147483648 \<and> length embedding < 2147483648)"

definition user_encoding :: "string \<times> i32 list \<Rightarrow> byte list" where
  "user_encoding = (\<lambda>(userId, embedding). bytes_encoding (bytes_of userId) @ slice_encoding embedding)"

context io_writer
begin

lemma mf_Marshal_all:
  "wrote_all content (mf_Marshal Iter Write users)
     (bytes_encoding (gob_message (int (length users))) @ concat (map user_encoding (Iter users)))"
  unfolding mf_Marshal_def user_encoding_def
  by (intro wrote_all_bind WriteGob_all wrote_all_each)
     (auto intro!: wrote_all_bind WriteString_all WriteSlice_all)

end

context io_reader
begin

lemma read_users_delivers:
  "\<forall>(userId, embedding) \<in> set us. length userId < 2147483648 \<and> length embedding < 2147483648 \<Longrightarrow>
   delivers ok rest (read_users Read (length us) users) (concat (map user_encoding us)) (foldl (\<lambda>m (u, v). mf_Add m u v) users us)"
proof (induction us arbitrary: users)
  case Nil
  show ?case by (simp add: delivers_return)
next
  case (Cons uv us)
  obtain u v where uv: "uv = (u, v)" by fastforce
  have fit: "length u < 2147483648" "length v < 2147483648" using Cons.prems uv by simp_all
  have d: "delivers ok rest (read_users Read (length us) (mf_Add users u v)) (concat (map user_encoding us))
    (foldl (\<lambda>m (u, v). mf_Add m u v) (mf_Add users u v) us)"
    using Cons by simp
  show ?case unfolding uv user_encoding_def
    by simp (rule delivers_bind [OF ReadString_delivers [OF fit(1)]], rule delivers_bind [OF ReadSlice_delivers [OF fit(2)]],
      rule d [unfolded user_encoding_def])
qed

lemma mf_Unmarshal_delivers:
  assumes "users_fit users" and "mset us = mset users"
  shows "delivers ok rest (mf_Unmarshal Read) (bytes_encoding (gob_message (int (length users))) @ concat (map user_encoding us))
    (foldl (\<lambda>m (u, v). mf_Add m u v) [] us)"
proof -
  have "set us = set users" "length us = length users" using assms(2) mset_eq_setD mset_eq_length by blast+
  then have "delivers ok rest (read_users Read (length users) []) (concat (map user_encoding us)) (foldl (\<lambda>m (u, v). mf_Add m u v) [] us)"
    using read_users_delivers [of us "[]"] assms(1) by (simp add: users_fit_def)
  then show ?thesis using assms(1) unfolding mf_Unmarshal_def
    by (intro delivers_bind [OF ReadGob_delivers]) (simp_all add: users_fit_def NewMatrixFactorizationUsers_def)
qed

end

lemma mf_adds: "distinct (map fst us) \<Longrightarrow> map_of (foldl (\<lambda>m (u, v). mf_Add m u v) users us) = map_of users ++ map_of us"
proof (induction us arbitrary: users)
  case (Cons uv us)
  obtain u v where uv: "uv = (u, v)" by fastforce
  have u: "map_of us u = None" using Cons.prems uv by (simp add: map_of_eq_None_iff)
  have "map_of (foldl (\<lambda>m (u, v). mf_Add m u v) (mf_Add users u v) us) = map_of (mf_Add users u v) ++ map_of us"
    using Cons by simp
  also have "\<dots> = map_of users ++ map_of (uv # us)"
    using u by (auto simp: uv mf_Add_def update_conv' map_add_def fun_eq_iff split: option.splits)
  finally show ?case by (simp only: uv foldl.simps case_prod_conv)
qed simp

lemma mf_map_of_permuted:
  assumes "distinct (map fst users)" and "mset us = mset users"
  shows "distinct (map fst us)" "map_of us = map_of users"
proof -
  have "mset (map fst us) = mset (map fst users)" using assms(2) by (metis mset_map)
  then show d: "distinct (map fst us)" using assms(1) mset_eq_imp_distinct_iff by metis
  have "set us = set users" using assms(2) mset_eq_setD by metis
  then show "map_of us = map_of users" using d assms(1) map_of_inject_set by blast
qed

text \<open>
  (C14) The user factors that the master writes to a blob are the ones that a worker reads from it: whatever the writer, when
  \<open>Marshal\<close> reports success on an empty file, \<open>Unmarshal\<close> from any stream of that file's bytes, cut into chunks in any way,
  succeeds and every user has the embedding it had, bit for bit, and nobody else has any; and both maps may be visited in
  any order.
\<close>

theorem mf_users_roundtrip:
  assumes "distinct (map fst users)" and "users_fit users" and "mset (Iter users) = mset users"
  shows "\<exists>file. mf_Marshal Iter buffer_Write users [] = (Inr (), file) \<and>
    (\<forall>s t. stream_ok s \<longrightarrow> stream_rest s = file @ t \<longrightarrow>
      (\<exists>users' s'. mf_Unmarshal stream_Read s = Some (Inr users', s') \<and> mf_Get users' = mf_Get users \<and> stream_rest s' = t))"
proof -
  let ?file = "bytes_encoding (gob_message (int (length users))) @ concat (map user_encoding (Iter users))"
  have "never_fails (mf_Marshal Iter buffer_Write users)"
    unfolding mf_Marshal_def by (intro never_fails_bind never_fails_each buffer_never_fails) (auto intro!: never_fails_bind buffer_never_fails)
  then have "mf_Marshal Iter buffer_Write users [] = (Inr (), ?file)"
    using buffer_writes [OF bufw.mf_Marshal_all, of Iter users "[]"] by simp
  moreover have "mf_Get (foldl (\<lambda>m (u, v). mf_Add m u v) [] (Iter users)) = mf_Get users"
    using mf_adds [OF mf_map_of_permuted(1) [OF assms(1,3)], of "[]"] mf_map_of_permuted(2) [OF assms(1,3)]
    by (simp add: mf_Get_def fun_eq_iff)
  ultimately show ?thesis using streamr.mf_Unmarshal_delivers [OF assms(2,3)] unfolding delivers_def by metis
qed

theorem mf_users_roundtrip_witness:
  "\<exists>file. mf_Marshal rev buffer_Write [(''ann'', [1065353216, 0]), (''bob'', [])] [] = (Inr (), file) \<and>
    (\<forall>s t. stream_ok s \<longrightarrow> stream_rest s = file @ t \<longrightarrow>
      (\<exists>users' s'. mf_Unmarshal stream_Read s = Some (Inr users', s') \<and>
        mf_Get users' = mf_Get [(''ann'', [1065353216, 0]), (''bob'', [])] \<and> stream_rest s' = t))"
  by (rule mf_users_roundtrip) (simp_all add: users_fit_def)

text \<open>An index that is written is read back as it was: the same names and the same numbers.\<close>

theorem unified_index_roundtrip:
  assumes "unified_fits index"
  shows "\<exists>file. MarshalUnifiedIndex buffer_Write index [] = (Inr (), file) \<and>
    (\<forall>s t. stream_ok s \<longrightarrow> stream_rest s = file @ t \<longrightarrow>
      (\<exists>s'. UnmarshalUnifiedIndex stream_Read s = Some (Inr index, s') \<and> stream_rest s' = t))"
proof -
  have i: "never_fails (idx_Marshal buffer_Write ix)" for ix
    unfolding idx_Marshal_def by (intro never_fails_bind never_fails_each buffer_binary_Write buffer_never_fails)
  have "never_fails (MarshalUnifiedIndex buffer_Write index)"
    unfolding MarshalUnifiedIndex_def um_Marshal_def
    by (cases index) (simp_all add: never_fails_bind buffer_binary_Write i never_fails_each del: io_each.simps)
  then have "MarshalUnifiedIndex buffer_Write index [] = (Inr (), unified_encoding index)"
    using buffer_writes [OF bufw.MarshalUnifiedIndex_all, of index "[]"] by simp
  then show ?thesis using streamr.UnmarshalUnifiedIndex_delivers [OF assms] unfolding delivers_def by metis
qed

end
