(* ===== verification/Ctr_Data.thy ===== *)
theory Ctr_Data
  imports Random_Sampling Id_Index Storage_Data
begin

text \<open>
  \<open>model/ctr/data.go\<close>: the features and the embeddings that are read from labels, the data set of samples for
  click-through rate models, its lookup and its two splits. A \<open>float32\<close> is a value of \<open>'w\<close>, the parsing of
  numbers and their conversion to half precision are parameters; so is the order that the unstable \<open>sort.Slice\<close> gives.
\<close>

subsection \<open>Features\<close>

text \<open>
  A nil result and an empty one are both \<open>[]\<close>: what is appended to either is the same. The panic's message also
  holds the labels as JSON.
\<close>

fun name_strings :: "string \<Rightarrow> json list \<Rightarrow> (string \<times> 'w::one) list \<Rightarrow> go_panic + (string \<times> 'w) list" where
  "name_strings prefix [] result = Inr result"
| "name_strings prefix (x # xs) result =
     (case x of
        JString s \<Rightarrow> name_strings prefix xs (result @ [(prefix @ s, 1)])
      | _ \<Rightarrow> Inl (ExplicitPanic ''unsupported labels''))"

fun convertLabels :: "(string \<Rightarrow> 'w::one) \<Rightarrow> string \<Rightarrow> json \<Rightarrow> (string \<times> 'w) list \<Rightarrow> go_panic + (string \<times> 'w) list"
  and convertLabels_fields :: "(string \<Rightarrow> 'w) \<Rightarrow> string \<Rightarrow> (string \<times> json) list \<Rightarrow> (string \<times> 'w) list \<Rightarrow> go_panic + (string \<times> 'w) list" where
  "convertLabels Float prefix JNull result = Inr []"
| "convertLabels Float prefix (JArray xs) result =
     (case xs of
        [] \<Rightarrow> Inr []
      | JString s # ys \<Rightarrow> name_strings prefix xs result
      | _ \<Rightarrow> Inr result)"
| "convertLabels Float prefix (JObject kvs) result = convertLabels_fields Float prefix kvs result"
| "convertLabels Float prefix (JString s) result = Inr (result @ [(prefix @ s, 1)])"
| "convertLabels Float prefix (JNumber n) result = Inr (result @ [(prefix, Float n)])"
| "convertLabels Float prefix (JFloat n) result = Inr result"
| "convertLabels Float prefix (JHalfs hs) result = Inr result"
| "convertLabels Float prefix (JBool b) result = Inr result"
| "convertLabels_fields Float prefix [] result = Inr result"
| "convertLabels_fields Float prefix ((key, val) # kvs) result =
     p_bind (convertLabels Float (prefix @ key @ ''.'') val result) (convertLabels_fields Float prefix kvs)"

definition ConvertLabels :: "(string \<Rightarrow> 'w::one) \<Rightarrow> json \<Rightarrow> go_panic + (string \<times> 'w) list" where
  "ConvertLabels Float labels = convertLabels Float '''' labels []"

subsection \<open>Embeddings\<close>

text \<open>The numbers of an array, in half precision; \<open>json.Number\<close>s are skipped, anything else ends the conversion.\<close>

fun half_values :: "(string \<Rightarrow> 16 word) \<Rightarrow> json list \<Rightarrow> 16 word list option" where
  "half_values to16 [] = Some []"
| "half_values to16 (x # xs) =
     (case x of
        JFloat n \<Rightarrow> map_option ((#) (to16 n)) (half_values to16 xs)
      | JNumber n \<Rightarrow> half_values to16 xs
      | _ \<Rightarrow> None)"

fun convertEmbeddings :: "(string \<Rightarrow> 16 word) \<Rightarrow> string \<Rightarrow> json \<Rightarrow> (string \<times> 16 word list) list \<Rightarrow> (string \<times> 16 word list) list"
  and convertEmbeddings_fields :: "(string \<Rightarrow> 16 word) \<Rightarrow> string \<Rightarrow> (string \<times> json) list \<Rightarrow> (string \<times> 16 word list) list \<Rightarrow>
    (string \<times> 16 word list) list" where
  "convertEmbeddings to16 prefix JNull result = []"
| "convertEmbeddings to16 prefix (JArray xs) result =
     (if xs = [] then [] else
      case half_values to16 xs of None \<Rightarrow> result | Some value \<Rightarrow> result @ [(prefix, value)])"
| "convertEmbeddings to16 prefix (JHalfs hs) result = result @ [(prefix, hs)]"
| "convertEmbeddings to16 prefix (JObject kvs) result = convertEmbeddings_fields to16 prefix kvs result"
| "convertEmbeddings to16 prefix (JString s) result = result"
| "convertEmbeddings to16 prefix (JNumber n) result = result"
| "convertEmbeddings to16 prefix (JFloat n) result = result"
| "convertEmbeddings to16 prefix (JBool b) result = result"
| "convertEmbeddings_fields to16 prefix [] result = result"
| "convertEmbeddings_fields to16 prefix ((key, val) # kvs) result =
     convertEmbeddings_fields to16 prefix kvs
       (convertEmbeddings to16 (if prefix = '''' then key else prefix @ ''.'' @ key) val result)"

definition ConvertEmbeddings :: "(string \<Rightarrow> 16 word) \<Rightarrow> json \<Rightarrow> (string \<times> 16 word list) list" where
  "ConvertEmbeddings to16 labels = convertEmbeddings to16 '''' labels []"

fun ConvertEmbeddingLabels :: "(string \<Rightarrow> 16 word) \<Rightarrow> json \<Rightarrow> json" where
  "ConvertEmbeddingLabels to16 (JObject kvs) = JObject (map (\<lambda>(key, val). (key, ConvertEmbeddingLabels to16 val)) kvs)"
| "ConvertEmbeddingLabels to16 (JArray xs) =
     (case ConvertEmbeddings to16 (JArray xs) of [(name, value)] \<Rightarrow> JHalfs value | _ \<Rightarrow> JArray xs)"
| "ConvertEmbeddingLabels to16 labels = labels"

text \<open>
  A field that is null or an empty array drops the features of the fields that were visited before it, so that what an
  item has depends on the order in which the run time visits a map.
\<close>

lemma null_field_drops_features:
  "ConvertLabels Float (JObject [(''a'', JString ''x''), (''b'', JNull)]) = Inr []"
  "ConvertLabels Float (JObject [(''b'', JNull), (''a'', JString ''x'')]) = Inr [(''a.x'', 1)]"
  by (simp_all add: ConvertLabels_def)

text \<open>A label that is a list of numbers kept as text loses its numbers when embeddings are converted.\<close>

lemma text_numbers_lost: "ConvertEmbeddingLabels to16 (JArray [JNumber ''1'', JNumber ''2'']) = JHalfs []"
  by (simp add: ConvertEmbeddings_def)

subsection \<open>The data set\<close>

text \<open>Context labels may be nil. A missing embedding is an empty one.\<close>

record 'w ctr_dataset =
  cd_Index :: unified_map_index
  cd_UserLabels :: "(i32 \<times> 'w) list list"
  cd_ItemLabels :: "(i32 \<times> 'w) list list"
  cd_ContextLabels :: "(i32 \<times> 'w) list list option"
  cd_Users :: "i32 list"
  cd_Items :: "i32 list"
  cd_Target :: "'w list"
  cd_Timestamps :: "time list"
  cd_ItemEmbeddings :: "16 word list list list"
  cd_ItemEmbeddingDimension :: "nat list"
  cd_ItemEmbeddingIndex :: index
  cd_PositiveCount :: int
  cd_NegativeCount :: int

definition ctr_CountUsers :: "'w ctr_dataset \<Rightarrow> int" where
  "ctr_CountUsers d = sint (um_CountUsers (cd_Index d))"

definition ctr_CountItems :: "'w ctr_dataset \<Rightarrow> int" where
  "ctr_CountItems d = sint (um_CountItems (cd_Index d))"

definition ctr_CountUserLabels :: "'w ctr_dataset \<Rightarrow> int" where
  "ctr_CountUserLabels d = sint (um_CountUserLabels (cd_Index d))"

definition ctr_CountItemLabels :: "'w ctr_dataset \<Rightarrow> int" where
  "ctr_CountItemLabels d = sint (um_CountItemLabels (cd_Index d))"

definition ctr_Count :: "'w ctr_dataset \<Rightarrow> go_panic + nat" where
  "ctr_Count d =
     (if length (cd_Users d) \<noteq> length (cd_Items d) then Inl (ExplicitPanic ''len(dataset.Users) != len(dataset.Items)'')
      else if length (cd_Users d) > 0 \<and> length (cd_Users d) \<noteq> length (cd_Target d) then
        Inl (ExplicitPanic ''len(dataset.Users) != len(dataset.Target)'')
      else case cd_ContextLabels d of
          Some ctx \<Rightarrow> if length ctx \<noteq> length (cd_Target d) then Inl (ExplicitPanic ''len(dataset.ContextLabels) != len(dataset.Target)'')
            else Inr (length (cd_Target d))
        | None \<Rightarrow> Inr (length (cd_Target d)))"

text \<open>\<open>Get\<close>: one-hot indices of the user and the item, then their labels, each block after the one before.\<close>

definition shifted :: "i32 \<Rightarrow> (i32 \<times> 'w) list \<Rightarrow> (i32 \<times> 'w) list" where
  "shifted position features = map (\<lambda>(a, b). (position + a, b)) features"

definition ctr_Get :: "'w::one ctr_dataset \<Rightarrow> nat \<Rightarrow> go_panic + (i32 \<times> 'w) list \<times> 16 word list list \<times> 'w" where
  "ctr_Get d i =
     p_bind (if cd_Users d \<noteq> [] then p_bind (slice_get (cd_Users d) i) (\<lambda>u. Inr ([(u, 1)], um_CountUsers (cd_Index d))) else Inr ([], 0)) (\<lambda>(user, p1).
     p_bind (if cd_Items d \<noteq> [] then
         p_bind (slice_get (cd_Items d) i) (\<lambda>it.
         p_bind (if cd_ItemEmbeddings d \<noteq> [] then index_i32 (cd_ItemEmbeddings d) it else Inr []) (\<lambda>emb.
         Inr ([(p1 + it, 1)], p1 + um_CountItems (cd_Index d), emb)))
       else Inr ([], p1, [])) (\<lambda>(item, p2, embedding).
     p_bind (if cd_Users d \<noteq> [] then
         p_bind (slice_get (cd_Users d) i) (\<lambda>u. p_bind (index_i32 (cd_UserLabels d) u) (\<lambda>features.
         Inr (shifted p2 features, p2 + um_CountUserLabels (cd_Index d))))
       else Inr ([], p2)) (\<lambda>(userFeatures, p3).
     p_bind (if cd_Items d \<noteq> [] then
         p_bind (slice_get (cd_Items d) i) (\<lambda>it. p_bind (index_i32 (cd_ItemLabels d) it) (\<lambda>features. Inr (shifted p3 features)))
       else Inr []) (\<lambda>itemFeatures.
     p_bind (case cd_ContextLabels d of None \<Rightarrow> Inr [] | Some ctx \<Rightarrow> slice_get ctx i) (\<lambda>context.
     p_bind (slice_get (cd_Target d) i) (\<lambda>target.
     Inr (user @ item @ userFeatures @ itemFeatures @ context, embedding, target)))))))"

subsection \<open>Splits\<close>

definition ctr_split_start :: "'w ctr_dataset \<Rightarrow> 'w ctr_dataset" where
  "ctr_split_start d = d\<lparr>cd_ContextLabels := None, cd_Users := [], cd_Items := [], cd_Target := [], cd_Timestamps := [],
     cd_PositiveCount := 0, cd_NegativeCount := 0\<rparr>"

definition appendSample :: "'w::{linorder, zero} ctr_dataset \<Rightarrow> nat \<Rightarrow> 'w ctr_dataset \<Rightarrow> go_panic + 'w ctr_dataset" where
  "appendSample d i dst =
     p_bind (slice_get (cd_Users d) i) (\<lambda>u.
     p_bind (slice_get (cd_Items d) i) (\<lambda>it.
     p_bind (case cd_ContextLabels d of None \<Rightarrow> Inr (cd_ContextLabels dst)
       | Some ctx \<Rightarrow> p_bind (slice_get ctx i) (\<lambda>c. Inr (Some (case cd_ContextLabels dst of None \<Rightarrow> [c] | Some cs \<Rightarrow> cs @ [c])))) (\<lambda>ctx.
     p_bind (slice_get (cd_Target d) i) (\<lambda>y.
     p_bind (slice_get (cd_Timestamps d) i) (\<lambda>t.
     Inr (dst\<lparr>cd_Users := cd_Users dst @ [u], cd_Items := cd_Items dst @ [it], cd_ContextLabels := ctx,
       cd_Target := cd_Target dst @ [y], cd_Timestamps := cd_Timestamps dst @ [t],
       cd_PositiveCount := (if y > 0 then cd_PositiveCount dst + 1 else cd_PositiveCount dst),
       cd_NegativeCount := (if y > 0 then cd_NegativeCount dst else cd_NegativeCount dst + 1)\<rparr>))))))"

text \<open>\<open>part n\<close> is \<open>int(float32(n) * ratio)\<close>.\<close>

definition add_to_side :: "'w::{linorder, zero} ctr_dataset \<Rightarrow> (nat \<Rightarrow> bool) \<Rightarrow> nat \<Rightarrow> 'w ctr_dataset \<times> 'w ctr_dataset \<Rightarrow> go_panic + 'w ctr_dataset \<times> 'w ctr_dataset" where
  "add_to_side d in_test i = (\<lambda>(train, test).
     if in_test i then p_bind (appendSample d i test) (\<lambda>test'. Inr (train, test'))
     else p_bind (appendSample d i train) (\<lambda>train'. Inr (train', test)))"

definition ctr_Split :: "(int \<Rightarrow> 'g \<Rightarrow> int \<times> 'g) \<Rightarrow> (nat \<Rightarrow> int) \<Rightarrow> 'g \<Rightarrow> 'w::{linorder, zero} ctr_dataset \<Rightarrow>
    (go_panic + 'w ctr_dataset \<times> 'w ctr_dataset) option" where
  "ctr_Split Intn part rng d =
     (case ctr_Count d of
        Inl p \<Rightarrow> Some (Inl p)
      | Inr n \<Rightarrow> (case Sample Intn 0 (int n) (part n) {} rng of
          None \<Rightarrow> None
        | Some (Inl p) \<Rightarrow> Some (Inl p)
        | Some (Inr (sampled, g)) \<Rightarrow>
            Some (p_fold (add_to_side d (\<lambda>i. int i \<in> set sampled)) [0..<length (cd_Target d)] (ctr_split_start d, ctr_split_start d))))"

fun group_samples :: "i32 list \<Rightarrow> nat \<Rightarrow> nat list list \<Rightarrow> go_panic + nat list list" where
  "group_samples [] i rows = Inr rows"
| "group_samples (u # us) i rows =
     (if 0 \<le> sint u \<and> sint u < int (length rows)
      then group_samples us (Suc i) (rows[nat (sint u) := rows ! nat (sint u) @ [i]])
      else Inl IndexOutOfRange)"

definition num_test :: "(nat \<Rightarrow> int) \<Rightarrow> nat \<Rightarrow> int" where
  "num_test part n =
     (let k = part n; k' = (if k = 0 \<and> n > 1 then 1 else k) in if k' \<ge> int n then int n - 1 else k')"

definition split_user :: "((nat \<Rightarrow> time) \<Rightarrow> nat list \<Rightarrow> nat list) \<Rightarrow> (nat \<Rightarrow> int) \<Rightarrow> 'w::{linorder, zero} ctr_dataset \<Rightarrow>
    nat list \<Rightarrow> 'w ctr_dataset \<times> 'w ctr_dataset \<Rightarrow> go_panic + 'w ctr_dataset \<times> 'w ctr_dataset" where
  "split_user Sort part d samples = (\<lambda>(train, test).
     if samples = [] then Inr (train, test)
     else if length samples > 1 \<and> (\<exists>i \<in> set samples. length (cd_Timestamps d) \<le> i) then Inl IndexOutOfRange
     else let sorted = Sort (\<lambda>i. cd_Timestamps d ! i) samples;
       splitIndex = int (length samples) - num_test part (length samples) in
     p_fold (\<lambda>(i, sample). add_to_side d (\<lambda>_. int i \<ge> splitIndex) sample) (enumerate 0 sorted) (train, test))"

definition SplitByUserTime :: "((nat \<Rightarrow> time) \<Rightarrow> nat list \<Rightarrow> nat list) \<Rightarrow> (nat \<Rightarrow> int) \<Rightarrow> 'w::{linorder, zero} ctr_dataset \<Rightarrow>
    go_panic + 'w ctr_dataset \<times> 'w ctr_dataset" where
  "SplitByUserTime Sort part d =
     (if ctr_CountUsers d < 0 then Inl NegativeLength else
     p_bind (group_samples (cd_Users d) 0 (replicate (nat (ctr_CountUsers d)) [])) (\<lambda>userSamples.
     p_fold (split_user Sort part d) userSamples (ctr_split_start d, ctr_split_start d)))"

subsection \<open>What the splits do\<close>

text \<open>The columns are parallel and every user has a row.\<close>

definition columns_ok :: "'w ctr_dataset \<Rightarrow> bool" where
  "columns_ok d \<longleftrightarrow> length (cd_Users d) = length (cd_Target d) \<and> length (cd_Items d) = length (cd_Target d) \<and>
     length (cd_Timestamps d) = length (cd_Target d) \<and>
     (\<forall>ctx. cd_ContextLabels d = Some ctx \<longrightarrow> length ctx = length (cd_Target d)) \<and>
     (\<forall>u \<in> set (cd_Users d). 0 \<le> sint u \<and> sint u < ctr_CountUsers d)"

text \<open>The samples with the numbers \<open>is\<close>, in this order, with their counters.\<close>

definition pick :: "'w::{linorder, zero} ctr_dataset \<Rightarrow> nat list \<Rightarrow> 'w ctr_dataset" where
  "pick d is = d\<lparr>cd_ContextLabels := (if is = [] then None else map_option (\<lambda>ctx. map ((!) ctx) is) (cd_ContextLabels d)),
     cd_Users := map ((!) (cd_Users d)) is, cd_Items := map ((!) (cd_Items d)) is, cd_Target := map ((!) (cd_Target d)) is,
     cd_Timestamps := map ((!) (cd_Timestamps d)) is,
     cd_PositiveCount := int (length (filter (\<lambda>i. cd_Target d ! i > 0) is)),
     cd_NegativeCount := int (length (filter (\<lambda>i. \<not> cd_Target d ! i > 0) is))\<rparr>"

lemma pick_Nil: "ctr_split_start d = pick d []"
  by (simp add: ctr_split_start_def pick_def)

lemma appendSample_pick:
  assumes "columns_ok d" and "i < length (cd_Target d)"
  shows "appendSample d i (pick d is) = Inr (pick d (is @ [i]))"
proof (cases "cd_ContextLabels d")
  case None
  then show ?thesis using assms by (simp add: appendSample_def columns_ok_def pick_def)
next
  case (Some ctx)
  then have "i < length ctx" using assms by (simp add: columns_ok_def)
  then show ?thesis using assms Some by (cases "is = []") (simp_all add: appendSample_def columns_ok_def pick_def)
qed

lemma add_to_side_pick:
  assumes "columns_ok d" and "i < length (cd_Target d)"
  shows "add_to_side d P i (pick d trs, pick d tes) =
    Inr (pick d (if P i then trs else trs @ [i]), pick d (if P i then tes @ [i] else tes))"
  using appendSample_pick [OF assms] by (simp add: add_to_side_def)

lemma sides_pick:
  assumes "columns_ok d" and "\<forall>i \<in> set is. i < length (cd_Target d)"
  shows "p_fold (add_to_side d P) is (pick d trs, pick d tes) =
    Inr (pick d (trs @ filter (\<lambda>i. \<not> P i) is), pick d (tes @ filter P is))"
  using assms(2)
proof (induction "is" arbitrary: trs tes)
  case (Cons i js)
  then show ?case using add_to_side_pick [OF assms(1), of i P trs tes] by simp
qed simp

lemma ctr_Count_ok: "columns_ok d \<Longrightarrow> ctr_Count d = Inr (length (cd_Target d))"
  by (auto simp: ctr_Count_def columns_ok_def split: option.splits)

lemma Sample_result:
  assumes "0 \<le> n" and fair: "fair_draw (Intn (int len)) {0..<int len}"
  shows "\<exists>xs g'. Sample Intn 0 (int len) n {} g = Some (Inr (xs, g')) \<and> distinct xs \<and> set xs \<subseteq> {0..<int len} \<and>
    length xs = min (nat n) len"
proof (cases "n \<ge> int len")
  case True
  have "sample_rest {} [] [0..int len - 1] = [0..int len - 1]" by (simp add: sample_rest_facts)
  then show ?thesis using True assms(1) by (auto simp: Sample_def)
next
  case False
  have "n \<le> int (length ([] :: int list)) + int (card ({0..<int len} - {}))" using False by simp
  from sample_loop_ends [OF fair _ _ _ this, of g] obtain xs g' where
    "sample_loop (Intn (int len)) n {} [] g = Some (xs, g')" "distinct xs"
    "set xs \<subseteq> {0..<int len}" "int (length xs) = max n 0" by auto
  then show ?thesis using False assms(1) by (auto simp: Sample_def)
qed

text \<open>
  (C23) A split of the samples leaves nothing out and puts nothing into both sides: some of the numbers of the samples are
  drawn, as many as the ratio asks for but no more than there are; the test set has the samples with these numbers, the training set
  the others, both in the old order, with the columns still parallel and the counts of positive and negative samples right.
\<close>

theorem ctr_Split_partitions:
  fixes d :: "'w::{linorder, zero} ctr_dataset"
  assumes ok: "columns_ok d" and part: "0 \<le> part (length (cd_Target d))"
    and fair: "fair_draw (Intn (int (length (cd_Target d)))) {0..<int (length (cd_Target d))}"
  shows "\<exists>S. S \<subseteq> {0..<length (cd_Target d)} \<and> card S = min (nat (part (length (cd_Target d)))) (length (cd_Target d)) \<and>
    ctr_Split Intn part rng d =
      Some (Inr (pick d (filter (\<lambda>i. i \<notin> S) [0..<length (cd_Target d)]), pick d (filter (\<lambda>i. i \<in> S) [0..<length (cd_Target d)])))"
proof -
  let ?n = "length (cd_Target d)"
  from Sample_result [where Intn = Intn and len = ?n and g = rng, OF part fair] obtain xs g where xs: "Sample Intn 0 (int ?n) (part ?n) {} rng = Some (Inr (xs, g))"
    "distinct xs" "set xs \<subseteq> {0..<int ?n}" "length xs = min (nat (part ?n)) ?n" by blast
  let ?S = "nat ` set xs"
  have S: "int i \<in> set xs \<longleftrightarrow> i \<in> ?S" for i using xs(3) by (force simp: image_iff)
  have "inj_on nat (set xs)" using xs(3) by (intro inj_onI) (metis atLeastLessThan_iff eq_nat_nat_iff subsetD)
  then have "card ?S = length xs" using xs(2) by (simp add: card_image distinct_card)
  moreover have "?S \<subseteq> {0..<?n}" using xs(3) by force
  moreover have "ctr_Split Intn part rng d = Some (Inr (pick d (filter (\<lambda>i. i \<notin> ?S) [0..<?n]), pick d (filter (\<lambda>i. i \<in> ?S) [0..<?n])))"
    using sides_pick [OF ok, of "[0..<?n]" "\<lambda>i. int i \<in> set xs" "[]" "[]"]
    by (simp add: ctr_Split_def ctr_Count_ok [OF ok] xs(1) pick_Nil S)
  ultimately show ?thesis using xs(4) by (intro exI [of _ ?S]) simp
qed

text \<open>A fair generator: it counts.\<close>

definition counting_Intn :: "int \<Rightarrow> int \<Rightarrow> int \<times> int" where
  "counting_Intn n g = (g mod n, g + 1)"

lemma counting_Intn_fair: "0 < n \<Longrightarrow> fair_draw (counting_Intn n) {0..<n}"
proof -
  assume n: "0 < n"
  have d: "drawn (counting_Intn n) k g = g + int k" for k g
    by (induction k) (simp_all add: drawn_def counting_Intn_def)
  have "\<exists>k. fst (counting_Intn n (drawn (counting_Intn n) k g)) = v" if "v \<in> {0..<n}" for g v
  proof
    show "fst (counting_Intn n (drawn (counting_Intn n) (nat ((v - g) mod n)) g)) = v"
      using n that by (simp add: d counting_Intn_def mod_add_right_eq)
  qed
  then show ?thesis using n by (simp add: fair_draw_def counting_Intn_def)
qed

definition example_samples :: "int ctr_dataset" where
  "example_samples =
     \<lparr>cd_Index = ub_Build (ub_AddUser (ub_AddUser NewUnifiedMapIndexBuilder ''u'') ''v''),
      cd_UserLabels = [], cd_ItemLabels = [], cd_ContextLabels = None, cd_Users = [0, 1, 0, 0], cd_Items = [0, 0, 1, 2],
      cd_Target = [1, -1, -1, 1], cd_Timestamps = [30, 5, 10, 20], cd_ItemEmbeddings = [], cd_ItemEmbeddingDimension = [],
      cd_ItemEmbeddingIndex = NewMapIndex, cd_PositiveCount = 2, cd_NegativeCount = 2\<rparr>"

lemma example_samples_ok: "columns_ok example_samples"
  by (simp add: columns_ok_def example_samples_def ctr_CountUsers_def um_CountUsers_def idx_Len_def ub_Build_def ub_AddUser_def
      NewUnifiedMapIndexBuilder_def NewMapIndex_def idx_Add_def)

theorem ctr_Split_partitions_witness:
  "\<exists>S. S \<subseteq> {0..<4} \<and> card S = 2 \<and>
    ctr_Split counting_Intn (\<lambda>n. int n div 2) 0 example_samples =
      Some (Inr (pick example_samples (filter (\<lambda>i. i \<notin> S) [0..<4]), pick example_samples (filter (\<lambda>i. i \<in> S) [0..<4])))"
proof -
  have n: "length (cd_Target example_samples) = 4" by (simp add: example_samples_def)
  have "fair_draw (counting_Intn (int (length (cd_Target example_samples)))) {0..<int (length (cd_Target example_samples))}"
    by (rule counting_Intn_fair) (simp add: n)
  from ctr_Split_partitions [where Intn = counting_Intn and d = example_samples and part = "\<lambda>n. int n div 2" and rng = 0,
      OF example_samples_ok _ this]
  show ?thesis by (simp add: n)
qed

subsection \<open>The split by time\<close>

definition sorts_by :: "((nat \<Rightarrow> time) \<Rightarrow> nat list \<Rightarrow> nat list) \<Rightarrow> bool" where
  "sorts_by Sort \<longleftrightarrow> (\<forall>f xs. mset (Sort f xs) = mset xs \<and> sorted (map f (Sort f xs)))"

lemma group_samples_ok:
  assumes "\<forall>u \<in> set us. 0 \<le> sint u \<and> sint u < int (length rows)"
  shows "\<exists>rows'. group_samples us i rows = Inr rows' \<and> length rows' = length rows \<and>
    (\<forall>a < length rows. rows' ! a = rows ! a @ map fst (filter (\<lambda>(k, u). nat (sint u) = a) (enumerate i us)))"
  using assms
proof (induction us arbitrary: i rows)
  case (Cons u us)
  let ?rows = "rows[nat (sint u) := rows ! nat (sint u) @ [i]]"
  have "\<forall>u \<in> set us. 0 \<le> sint u \<and> sint u < int (length ?rows)" using Cons.prems by simp
  from Cons.IH [OF this, of "Suc i"] obtain rows' where r: "group_samples us (Suc i) ?rows = Inr rows'" "length rows' = length rows"
    "\<forall>a < length rows. rows' ! a = ?rows ! a @ map fst (filter (\<lambda>(k, u). nat (sint u) = a) (enumerate (Suc i) us))" by auto
  have "0 \<le> sint u \<and> sint u < int (length rows)" using Cons.prems by simp
  then show ?case using r by (auto simp: nth_list_update)
qed simp

definition user_samples :: "'w ctr_dataset \<Rightarrow> nat \<Rightarrow> nat list" where
  "user_samples d a = map fst (filter (\<lambda>(k, u). nat (sint u) = a) (enumerate 0 (cd_Users d)))"

lemma in_user_samples: "i \<in> set (user_samples d a) \<longleftrightarrow> i < length (cd_Users d) \<and> nat (sint (cd_Users d ! i)) = a"
  by (force simp: user_samples_def in_set_enumerate_eq image_iff)

lemma distinct_user_samples: "distinct (user_samples d a)"
proof -
  have "distinct (map fst (enumerate 0 (cd_Users d)))" by simp
  then show ?thesis unfolding user_samples_def by (rule distinct_map_filter)
qed

text \<open>The numbers of a user's samples that go to either side.\<close>

definition early :: "((nat \<Rightarrow> time) \<Rightarrow> nat list \<Rightarrow> nat list) \<Rightarrow> (nat \<Rightarrow> int) \<Rightarrow> 'w ctr_dataset \<Rightarrow> nat list \<Rightarrow> nat list" where
  "early Sort part d samples =
     take (length samples - nat (num_test part (length samples))) (Sort (\<lambda>i. cd_Timestamps d ! i) samples)"

definition late :: "((nat \<Rightarrow> time) \<Rightarrow> nat list \<Rightarrow> nat list) \<Rightarrow> (nat \<Rightarrow> int) \<Rightarrow> 'w ctr_dataset \<Rightarrow> nat list \<Rightarrow> nat list" where
  "late Sort part d samples =
     drop (length samples - nat (num_test part (length samples))) (Sort (\<lambda>i. cd_Timestamps d ! i) samples)"

lemma num_test_bounds: "0 < n \<Longrightarrow> 0 \<le> part n \<Longrightarrow> 0 \<le> num_test part n \<and> num_test part n < int n \<and> (1 < n \<longrightarrow> 0 < num_test part n)"
  by (simp add: num_test_def Let_def)

lemma enumerate_split:
  assumes "columns_ok d" and "\<forall>i \<in> set xs. i < length (cd_Target d)"
  shows "p_fold (\<lambda>(i, sample). add_to_side d (\<lambda>_. int i \<ge> int k) sample) (enumerate m xs) (pick d trs, pick d tes) =
    Inr (pick d (trs @ take (k - m) xs), pick d (tes @ drop (k - m) xs))"
  using assms(2)
proof (induction xs arbitrary: m trs tes)
  case (Cons x xs)
  have x: "x < length (cd_Target d)" and xs: "\<forall>i \<in> set xs. i < length (cd_Target d)" using Cons.prems by simp_all
  show ?case
  proof (cases "k \<le> m")
    case True
    then show ?thesis using Cons.IH [OF xs, of "Suc m" trs "tes @ [x]"] add_to_side_pick [OF assms(1) x, of "\<lambda>_. int m \<ge> int k" trs tes] by simp
  next
    case False
    then have "k - m = Suc (k - Suc m)" by simp
    then show ?thesis using False Cons.IH [OF xs, of "Suc m" "trs @ [x]" tes] add_to_side_pick [OF assms(1) x, of "\<lambda>_. int m \<ge> int k" trs tes] by simp
  qed
qed simp

lemma split_user_pick:
  assumes ok: "columns_ok d" and Sort: "sorts_by Sort" and part: "\<forall>n. 0 \<le> part n"
    and xs: "\<forall>i \<in> set samples. i < length (cd_Target d)"
  shows "split_user Sort part d samples (pick d trs, pick d tes) =
    Inr (pick d (trs @ early Sort part d samples), pick d (tes @ late Sort part d samples))"
proof (cases "samples = []")
  case True
  then have "Sort (\<lambda>i. cd_Timestamps d ! i) samples = []" using Sort unfolding sorts_by_def by (metis mset_zero_iff)
  then show ?thesis using True by (simp add: split_user_def early_def late_def)
next
  case False
  let ?s = "Sort (\<lambda>i. cd_Timestamps d ! i) samples"
  have s: "set ?s = set samples" using Sort unfolding sorts_by_def by (metis mset_eq_setD)
  have n: "0 \<le> num_test part (length samples)" "num_test part (length samples) < int (length samples)"
    using num_test_bounds [of "length samples" part] False part by simp_all
  then have k: "int (length samples) - num_test part (length samples) = int (length samples - nat (num_test part (length samples)))"
    by linarith
  have "\<not> (length samples > 1 \<and> (\<exists>i \<in> set samples. length (cd_Timestamps d) \<le> i))" using xs ok by (auto simp: columns_ok_def)
  then show ?thesis using False enumerate_split [OF ok, of ?s "length samples - nat (num_test part (length samples))" 0 trs tes] s xs
    unfolding split_user_def early_def late_def Let_def k by simp
qed

lemma split_users_pick:
  assumes "columns_ok d" and "sorts_by Sort" and "\<forall>n. 0 \<le> part n"
    and "\<forall>samples \<in> set rows. \<forall>i \<in> set samples. i < length (cd_Target d)"
  shows "p_fold (split_user Sort part d) rows (pick d trs, pick d tes) =
    Inr (pick d (trs @ concat (map (early Sort part d) rows)), pick d (tes @ concat (map (late Sort part d) rows)))"
  using assms(4)
proof (induction rows arbitrary: trs tes)
  case (Cons r rows)
  then show ?case using split_user_pick [OF assms(1-3), of r trs tes] by simp
qed simp

lemma early_late:
  assumes "sorts_by Sort"
  shows "mset (early Sort part d samples @ late Sort part d samples) = mset samples"
    and "a \<in> set (early Sort part d samples) \<Longrightarrow> b \<in> set (late Sort part d samples) \<Longrightarrow> cd_Timestamps d ! a \<le> cd_Timestamps d ! b"
proof -
  let ?s = "Sort (\<lambda>i. cd_Timestamps d ! i) samples"
  have s: "mset ?s = mset samples" "sorted (map (\<lambda>i. cd_Timestamps d ! i) ?s)" using assms unfolding sorts_by_def by blast+
  have split: "early Sort part d samples @ late Sort part d samples = ?s" by (simp add: early_def late_def)
  show "mset (early Sort part d samples @ late Sort part d samples) = mset samples" using split s(1) by simp
  have "sorted (map (\<lambda>i. cd_Timestamps d ! i) (early Sort part d samples) @ map (\<lambda>i. cd_Timestamps d ! i) (late Sort part d samples))"
    using s(2) split by (metis map_append)
  then show "a \<in> set (early Sort part d samples) \<Longrightarrow> b \<in> set (late Sort part d samples) \<Longrightarrow> cd_Timestamps d ! a \<le> cd_Timestamps d ! b"
    by (auto simp: sorted_append)
qed

lemma early_late_sizes:
  assumes "sorts_by Sort" and "\<forall>n. 0 \<le> part n" and "samples \<noteq> []"
  shows "early Sort part d samples \<noteq> []" and "length samples > 1 \<Longrightarrow> late Sort part d samples \<noteq> []"
proof -
  have l: "length (Sort (\<lambda>i. cd_Timestamps d ! i) samples) = length samples" using assms(1) unfolding sorts_by_def by (metis size_mset)
  have n: "0 \<le> num_test part (length samples)" "num_test part (length samples) < int (length samples)"
    "length samples > 1 \<Longrightarrow> 0 < num_test part (length samples)"
    using num_test_bounds [of "length samples" part] assms(2,3) by simp_all
  have "length (early Sort part d samples) > 0" using l n assms(3) by (simp add: early_def)
  then show "early Sort part d samples \<noteq> []" by simp
  assume "length samples > 1"
  then have "length (late Sort part d samples) > 0" using l n by (simp add: late_def)
  then show "late Sort part d samples \<noteq> []" by auto
qed

text \<open>The numbers of the samples on either side, user by user.\<close>

definition all_early :: "((nat \<Rightarrow> time) \<Rightarrow> nat list \<Rightarrow> nat list) \<Rightarrow> (nat \<Rightarrow> int) \<Rightarrow> 'w ctr_dataset \<Rightarrow> nat list" where
  "all_early Sort part d = concat (map (\<lambda>a. early Sort part d (user_samples d a)) [0..<nat (ctr_CountUsers d)])"

definition all_late :: "((nat \<Rightarrow> time) \<Rightarrow> nat list \<Rightarrow> nat list) \<Rightarrow> (nat \<Rightarrow> int) \<Rightarrow> 'w ctr_dataset \<Rightarrow> nat list" where
  "all_late Sort part d = concat (map (\<lambda>a. late Sort part d (user_samples d a)) [0..<nat (ctr_CountUsers d)])"

lemma SplitByUserTime_pick:
  assumes ok: "columns_ok d" and Sort: "sorts_by Sort" and part: "\<forall>n. 0 \<le> part n" and n: "0 \<le> ctr_CountUsers d"
  shows "SplitByUserTime Sort part d = Inr (pick d (all_early Sort part d), pick d (all_late Sort part d))"
proof -
  let ?n = "nat (ctr_CountUsers d)"
  have "\<forall>u \<in> set (cd_Users d). 0 \<le> sint u \<and> sint u < int (length (replicate ?n ([] :: nat list)))"
    using ok n by (simp add: columns_ok_def)
  from group_samples_ok [OF this, of 0] obtain rows where r: "group_samples (cd_Users d) 0 (replicate ?n []) = Inr rows"
    "length rows = ?n" "\<forall>a < ?n. rows ! a = user_samples d a" by (auto simp: user_samples_def)
  have rows: "rows = map (user_samples d) [0..<?n]" using r(2,3) by (simp add: list_eq_iff_nth_eq)
  have "\<forall>samples \<in> set rows. \<forall>i \<in> set samples. i < length (cd_Target d)"
    using ok by (auto simp: rows in_user_samples columns_ok_def)
  from split_users_pick [OF ok Sort _ this, of part "[]" "[]"] part n show ?thesis
    by (simp add: SplitByUserTime_def r(1) pick_Nil rows all_early_def all_late_def o_def)
qed

lemma mset_concat_two: "mset (concat (map f xs) @ concat (map g xs)) = mset (concat (map (\<lambda>x. f x @ g x) xs))"
  by (induction xs) simp_all

lemma mset_concat_cong: "(\<And>x. x \<in> set xs \<Longrightarrow> mset (f x) = mset (g x)) \<Longrightarrow> mset (concat (map f xs)) = mset (concat (map g xs))"
  by (induction xs) simp_all

lemma two_in_list: "x \<in> set xs \<Longrightarrow> y \<in> set xs \<Longrightarrow> x \<noteq> y \<Longrightarrow> 1 < length xs"
  by (cases xs; cases "tl xs") auto

lemma all_user_samples:
  assumes "columns_ok d"
  shows "mset (concat (map (user_samples d) [0..<nat (ctr_CountUsers d)])) = mset [0..<length (cd_Target d)]"
proof -
  have "distinct (concat (map (user_samples d) [0..<n]))" for n
    by (induction n) (auto simp: distinct_user_samples in_user_samples)
  moreover have "set (concat (map (user_samples d) [0..<nat (ctr_CountUsers d)])) = {0..<length (cd_Target d)}"
    using assms by (force simp: in_user_samples columns_ok_def)
  ultimately show ?thesis by (subst set_eq_iff_mset_eq_distinct [symmetric]) simp_all
qed

text \<open>
  (C13) A split by time trains on the past: every sample is on one side, once, whatever the ratio; no sample of a user in the training
  set is later than one in the test set; every user with a sample has one to train on and every user with two has one to test.
\<close>

theorem SplitByUserTime_past:
  assumes "columns_ok d" and "sorts_by Sort" and "\<forall>n. 0 \<le> part n" and "0 \<le> ctr_CountUsers d"
  shows "\<exists>trs tes. SplitByUserTime Sort part d = Inr (pick d trs, pick d tes) \<and>
    mset (trs @ tes) = mset [0..<length (cd_Target d)] \<and>
    (\<forall>i \<in> set trs. \<forall>j \<in> set tes. cd_Users d ! i = cd_Users d ! j \<longrightarrow> cd_Timestamps d ! i \<le> cd_Timestamps d ! j) \<and>
    (\<forall>u \<in> set (cd_Users d). u \<in> set (map ((!) (cd_Users d)) trs)) \<and>
    (\<forall>i j. i < j \<longrightarrow> j < length (cd_Target d) \<longrightarrow> cd_Users d ! i = cd_Users d ! j \<longrightarrow> cd_Users d ! i \<in> set (map ((!) (cd_Users d)) tes))"
proof (intro exI conjI)
  let ?n = "nat (ctr_CountUsers d)" and ?S = "user_samples d"
  show "SplitByUserTime Sort part d = Inr (pick d (all_early Sort part d), pick d (all_late Sort part d))"
    using SplitByUserTime_pick [OF assms] .
  show "mset (all_early Sort part d @ all_late Sort part d) = mset [0..<length (cd_Target d)]"
    unfolding all_early_def all_late_def mset_concat_two all_user_samples [OF assms(1), symmetric]
    by (rule mset_concat_cong) (rule early_late(1) [OF assms(2)])
  have sub: "set (early Sort part d xs) \<subseteq> set xs" "set (late Sort part d xs) \<subseteq> set xs" for xs
    using early_late(1) [OF assms(2), of part d xs] by (metis Un_upper1 mset_eq_setD set_append)
      (metis Un_upper2 mset_eq_setD set_append early_late(1) [OF assms(2)])
  have row: "i \<in> set (?S (nat (sint (cd_Users d ! i))))" "nat (sint (cd_Users d ! i)) < ?n" if "i < length (cd_Target d)" for i
    using assms(1) that nth_mem [of i "cd_Users d"] by (auto simp: in_user_samples columns_ok_def simp del: nth_mem)
  have same_user: "cd_Users d ! k = cd_Users d ! i" if "k \<in> set (?S (nat (sint (cd_Users d ! i))))" "i < length (cd_Target d)" for k i
  proof -
    have "cd_Users d ! k \<in> set (cd_Users d)" "cd_Users d ! i \<in> set (cd_Users d)" "nat (sint (cd_Users d ! k)) = nat (sint (cd_Users d ! i))"
      using that assms(1) by (auto simp: in_user_samples columns_ok_def)
    then have "sint (cd_Users d ! k) = sint (cd_Users d ! i)" using assms(1) unfolding columns_ok_def by (metis eq_nat_nat_iff)
    then show ?thesis by (rule signed_word_eqI)
  qed
  show "\<forall>i \<in> set (all_early Sort part d). \<forall>j \<in> set (all_late Sort part d). cd_Users d ! i = cd_Users d ! j \<longrightarrow>
      cd_Timestamps d ! i \<le> cd_Timestamps d ! j"
  proof (intro ballI impI)
    fix i j assume i: "i \<in> set (all_early Sort part d)" and j: "j \<in> set (all_late Sort part d)" and u: "cd_Users d ! i = cd_Users d ! j"
    obtain a b where ab: "i \<in> set (early Sort part d (?S a))" "j \<in> set (late Sort part d (?S b))"
      using i j by (auto simp: all_early_def all_late_def)
    then have "i \<in> set (?S a)" "j \<in> set (?S b)" using sub by blast+
    then have "a = b" using u by (simp add: in_user_samples)
    then show "cd_Timestamps d ! i \<le> cd_Timestamps d ! j" using early_late(2) [OF assms(2)] ab by blast
  qed
  show "\<forall>u \<in> set (cd_Users d). u \<in> set (map ((!) (cd_Users d)) (all_early Sort part d))"
  proof
    fix u assume "u \<in> set (cd_Users d)"
    then obtain i where i: "i < length (cd_Target d)" "cd_Users d ! i = u" using assms(1) by (metis columns_ok_def in_set_conv_nth)
    let ?a = "nat (sint u)"
    have "?S ?a \<noteq> []" using row(1) [OF i(1)] i(2) by auto
    from early_late_sizes(1) [OF assms(2,3) this] obtain k where k: "k \<in> set (early Sort part d (?S ?a))" by fastforce
    then have "k \<in> set (all_early Sort part d)" using row(2) [OF i(1)] i(2) by (auto simp: all_early_def)
    moreover have "cd_Users d ! k = u" using same_user [of k i] sub(1) k i by auto
    ultimately show "u \<in> set (map ((!) (cd_Users d)) (all_early Sort part d))" by force
  qed
  show "\<forall>i j. i < j \<longrightarrow> j < length (cd_Target d) \<longrightarrow> cd_Users d ! i = cd_Users d ! j \<longrightarrow>
      cd_Users d ! i \<in> set (map ((!) (cd_Users d)) (all_late Sort part d))"
  proof (intro allI impI)
    fix i j assume "i < j" and j: "j < length (cd_Target d)" and u: "cd_Users d ! i = cd_Users d ! j"
    let ?a = "nat (sint (cd_Users d ! i))"
    have ij: "i \<in> set (?S ?a)" "j \<in> set (?S ?a)" using row(1) [of i] row(1) [of j] \<open>i < j\<close> j u by simp_all
    have "i \<noteq> j" using \<open>i < j\<close> by simp
    then have "1 < length (?S ?a)" by (rule two_in_list [OF ij])
    moreover have "?S ?a \<noteq> []" using ij by auto
    ultimately obtain k where k: "k \<in> set (late Sort part d (?S ?a))" using early_late_sizes(2) [OF assms(2,3)] by fastforce
    then have "k \<in> set (all_late Sort part d)" using row(2) [of i] \<open>i < j\<close> j by (auto simp: all_late_def)
    moreover have "cd_Users d ! k = cd_Users d ! i"
      by (rule same_user [OF subsetD [OF sub(2) k]]) (use \<open>i < j\<close> j in simp)
    ultimately show "cd_Users d ! i \<in> set (map ((!) (cd_Users d)) (all_late Sort part d))" by (metis image_eqI set_map)
  qed
qed

theorem SplitByUserTime_past_witness:
  "\<exists>trs tes. SplitByUserTime sort_key (\<lambda>n. int n div 5) example_samples = Inr (pick example_samples trs, pick example_samples tes) \<and>
    mset (trs @ tes) = mset [0..<4] \<and>
    (\<forall>i \<in> set trs. \<forall>j \<in> set tes. cd_Users example_samples ! i = cd_Users example_samples ! j \<longrightarrow>
      cd_Timestamps example_samples ! i \<le> cd_Timestamps example_samples ! j)"
proof -
  have s: "sorts_by sort_key" by (simp add: sorts_by_def)
  have n: "0 \<le> ctr_CountUsers example_samples" "length (cd_Target example_samples) = 4"
    by (simp_all add: example_samples_def ctr_CountUsers_def um_CountUsers_def idx_Len_def ub_Build_def ub_AddUser_def
      NewUnifiedMapIndexBuilder_def NewMapIndex_def idx_Add_def)
  from SplitByUserTime_past [OF example_samples_ok s _ n(1), of "\<lambda>n. int n div 5", unfolded n(2)] show ?thesis by fastforce
qed

end
