(* ===== verification/Label_Index.thy ===== *)
theory Label_Index
  imports Dataset Ctr_Data
begin

text \<open>
  The numbering of labels in \<open>LoadDataFromDatabase\<close> (\<open>master/tasks.go\<close>): a label gets a number when it occurs for the
  second time; then its first occurrence is entered belatedly. The code is there twice, for users and for items. Also the
  dimensions of embeddings: of the vectors with one name, those of the commonest length are kept.
\<close>

subsection \<open>Labels that occur at least twice\<close>

record 'w label_state =
  ls_count :: "string \<Rightarrow> nat"
  ls_first :: "string \<rightharpoonup> i32"
  ls_index :: index
  ls_rows :: "(i32 \<times> 'w) list list"

definition no_labels :: "'w label_state" where
  "no_labels = \<lparr>ls_count = (\<lambda>name. 0), ls_first = Map.empty, ls_index = NewMapIndex, ls_rows = []\<rparr>"

definition add_feature :: "i32 \<Rightarrow> string \<times> 'w \<Rightarrow> 'w label_state \<Rightarrow> go_panic + 'w label_state" where
  "add_feature u f s =
     (let name = fst f; n = ls_count s name + 1;
        s1 = s\<lparr>ls_count := (ls_count s)(name := n), ls_first := (if n = 1 then (ls_first s)(name \<mapsto> u) else ls_first s),
          ls_index := (if n = 2 then idx_Add (ls_index s) name else ls_index s)\<rparr>;
        entry = (idx_ToNumber (ls_index s1) name, snd f) in
      p_bind (if n = 2 then append_at (case ls_first s1 name of None \<Rightarrow> 0 | Some k \<Rightarrow> k) entry (ls_rows s1) else Inr (ls_rows s1)) (\<lambda>rows.
      p_bind (if n > 1 then append_at u entry rows else Inr rows) (\<lambda>rows'. Inr (s1\<lparr>ls_rows := rows'\<rparr>))))"

text \<open>The features of row \<open>u\<close>; the row is appended when it is the next one, and starts empty.\<close>

definition add_features :: "i32 \<Rightarrow> (string \<times> 'w) list \<Rightarrow> 'w label_state \<Rightarrow> go_panic + 'w label_state" where
  "add_features u fs s =
     (let rows = (if int (length (ls_rows s)) = sint u then ls_rows s @ [[]] else ls_rows s) in
      if 0 \<le> sint u \<and> sint u < int (length rows)
      then p_fold (add_feature u) fs (s\<lparr>ls_rows := rows[nat (sint u) := []]\<rparr>)
      else Inl IndexOutOfRange)"

text \<open>The first occurrence gets the value of the second, not its own.\<close>

lemma first_value_overwritten:
  "map_sum id ls_rows (p_bind (add_features 0 [(''age'', 20)] no_labels) (add_features 1 [(''age'', 30)])) =
     Inr [[(0, 30 :: int)], [(0, 30)]]"
  by (simp add: add_features_def add_feature_def no_labels_def append_at_def idx_Add_def NewMapIndex_def idx_ToNumber_def Let_def)

text \<open>
  The occurrences that have been processed, as triples of row, name and value, and what the rows hold of them.  Each is entered with
  its own value, but for the first one of a label that occurs again, which is entered with the value of the second.
\<close>

definition occurs :: "(nat \<times> string \<times> 'w) list \<Rightarrow> string \<Rightarrow> nat" where
  "occurs os name = length (filter (\<lambda>p. fst (snd p) = name) os)"

definition kept :: "index \<Rightarrow> (nat \<times> string \<times> 'w) list \<Rightarrow> nat \<Rightarrow> (i32 \<times> 'w) multiset" where
  "kept ix os k = image_mset (\<lambda>p. (idx_ToNumber ix (fst (snd p)), snd (snd p))) (mset (filter (\<lambda>p. fst p = k \<and> 2 \<le> occurs os (fst (snd p))) os))"

fun entered :: "string set \<Rightarrow> (nat \<times> string \<times> 'w) list \<Rightarrow> (nat \<times> string \<times> 'w) list" where
  "entered seen [] = []"
| "entered seen ((k, name, v) # os) =
     (k, name, if name \<in> seen then v else case find (\<lambda>p. fst (snd p) = name) os of None \<Rightarrow> v | Some p \<Rightarrow> snd (snd p))
       # entered (insert name seen) os"

definition revalue :: "string \<Rightarrow> 'w \<Rightarrow> nat \<times> string \<times> 'w \<Rightarrow> nat \<times> string \<times> 'w" where
  "revalue name v p = (if fst (snd p) = name then (fst p, name, v) else p)"

definition enter :: "(nat \<times> string \<times> 'w) list \<Rightarrow> nat \<Rightarrow> string \<Rightarrow> 'w \<Rightarrow> (nat \<times> string \<times> 'w) list" where
  "enter os k name v = (if occurs os name = 1 then map (revalue name v) os else os) @ [(k, name, v)]"

definition labels_inv :: "(nat \<times> string \<times> 'w) list \<Rightarrow> 'w label_state \<Rightarrow> bool" where
  "labels_inv os s \<longleftrightarrow> ls_count s = occurs os \<and> index_ok (ls_index s) \<and> set (Names (ls_index s)) = {name. 2 \<le> occurs os name} \<and>
     length (ls_rows s) < 2147483648 \<and> (\<forall>p \<in> set os. fst p < length (ls_rows s)) \<and>
     (\<forall>name. occurs os name = 1 \<longrightarrow> (\<exists>k v. ls_first s name = Some (of_nat k) \<and> k < length (ls_rows s) \<and>
        filter (\<lambda>p. fst (snd p) = name) os = [(k, name, v)])) \<and>
     (\<forall>k < length (ls_rows s). mset (ls_rows s ! k) = kept (ls_index s) os k)"

lemma occurs_snoc: "occurs (os @ [(k, name, v)]) = (occurs os)(name := occurs os name + 1)"
  by (auto simp: occurs_def fun_eq_iff)

lemma append_at_nat: "k < length xs \<Longrightarrow> length xs < 2147483648 \<Longrightarrow> append_at (of_nat k) x xs = Inr (xs[k := xs ! k @ [x]])"
  by (simp add: append_at_def)

lemma idx_Add_keeps: "index_ok ix \<Longrightarrow> name' \<in> set (Names ix) \<Longrightarrow> idx_ToNumber (idx_Add ix name) name' = idx_ToNumber ix name'"
  by (auto simp: idx_Add_def idx_ToNumber_def numbering_def split: option.splits)

lemma idx_Add_ok: "index_ok ix \<Longrightarrow> index_ok (idx_Add ix name) \<and> set (Names (idx_Add ix name)) = insert name (set (Names ix))"
  using numbering_extend [of "Numbers ix" "Names ix" name] numbering_None [of "Numbers ix" "Names ix" name]
  by (auto simp: idx_Add_def split: option.splits)

lemma kept_cong:
  assumes "\<And>p. p \<in> set os \<Longrightarrow> fst p = k \<Longrightarrow> (2 \<le> occurs os' (fst (snd p))) = (2 \<le> occurs os (fst (snd p)))"
    and "\<And>name. 2 \<le> occurs os name \<Longrightarrow> idx_ToNumber ix' name = idx_ToNumber ix name"
  shows "image_mset (\<lambda>p. (idx_ToNumber ix' (fst (snd p)), snd (snd p))) (mset (filter (\<lambda>p. fst p = k \<and> 2 \<le> occurs os' (fst (snd p))) os)) = kept ix os k"
proof -
  have "filter (\<lambda>p. fst p = k \<and> 2 \<le> occurs os' (fst (snd p))) os = filter (\<lambda>p. fst p = k \<and> 2 \<le> occurs os (fst (snd p))) os"
    using assms(1) by (intro filter_cong) auto
  then show ?thesis unfolding kept_def using assms(2) by (auto intro!: image_mset_cong)
qed

text \<open>A label that occurs for the first time, for the second time, and once more.\<close>

lemma kept_first: "occurs os name = 0 \<Longrightarrow> kept ix (os @ [(k, name, v)]) j = kept ix os j"
proof -
  assume 0: "occurs os name = 0"
  have "\<forall>p \<in> set os. fst (snd p) \<noteq> name" using 0 by (auto simp: occurs_def filter_empty_conv)
  then have "image_mset (\<lambda>p. (idx_ToNumber ix (fst (snd p)), snd (snd p)))
      (mset (filter (\<lambda>p. fst p = j \<and> 2 \<le> occurs (os @ [(k, name, v)]) (fst (snd p))) os)) = kept ix os j"
    by (intro kept_cong) (auto simp: occurs_snoc)
  then show ?thesis using 0 by (simp add: kept_def occurs_snoc)
qed

lemma kept_again:
  "2 \<le> occurs os name \<Longrightarrow> kept ix (os @ [(k, name, v)]) j = kept ix os j + (if k = j then {#(idx_ToNumber ix name, v)#} else {#})"
proof -
  assume n: "2 \<le> occurs os name"
  have "image_mset (\<lambda>p. (idx_ToNumber ix (fst (snd p)), snd (snd p)))
      (mset (filter (\<lambda>p. fst p = j \<and> 2 \<le> occurs (os @ [(k, name, v)]) (fst (snd p))) os)) = kept ix os j"
    using n by (intro kept_cong) (auto simp: occurs_snoc)
  then show ?thesis using n by (simp add: kept_def occurs_snoc)
qed

lemma mset_filter_split: "mset (filter P xs) = mset (filter P (filter Q xs)) + mset (filter P (filter (\<lambda>x. \<not> Q x) xs))"
  unfolding mset_filter filter_union_mset [symmetric] multiset_partition [of "mset xs" Q, symmetric] by (rule refl)

lemma kept_second:
  assumes "filter (\<lambda>p. fst (snd p) = name) os = [(f, name, v)]" and ix: "index_ok ix" "set (Names ix) = {name. 2 \<le> occurs os name}"
  shows "kept (idx_Add ix name) (os @ [(k, name, v)]) j = kept ix os j +
    (if f = j then {#(idx_ToNumber (idx_Add ix name) name, v)#} else {#}) + (if k = j then {#(idx_ToNumber (idx_Add ix name) name, v)#} else {#})"
proof -
  let ?ix = "idx_Add ix name" and ?os = "os @ [(k, name, v)]"
  have 1: "occurs os name = 1" using assms(1) by (simp add: occurs_def)
  let ?old = "\<lambda>p. fst p = j \<and> 2 \<le> occurs ?os (fst (snd p))"
  have "mset (filter ?old os) = mset (filter ?old (filter (\<lambda>p. fst (snd p) = name) os)) + mset (filter ?old (filter (\<lambda>p. fst (snd p) \<noteq> name) os))"
    by (rule mset_filter_split)
  also have "filter ?old (filter (\<lambda>p. fst (snd p) = name) os) = (if f = j then [(f, name, v)] else [])"
    unfolding assms(1) using 1 by (simp add: occurs_snoc)
  also have "filter ?old (filter (\<lambda>p. fst (snd p) \<noteq> name) os) = filter (\<lambda>p. fst p = j \<and> 2 \<le> occurs os (fst (snd p))) os"
    using 1 unfolding filter_filter by (intro filter_cong) (auto simp: occurs_snoc)
  finally have m: "mset (filter ?old os) = mset (if f = j then [(f, name, v)] else []) + mset (filter (\<lambda>p. fst p = j \<and> 2 \<le> occurs os (fst (snd p))) os)" .
  have "image_mset (\<lambda>p. (idx_ToNumber ?ix (fst (snd p)), snd (snd p))) (mset (filter (\<lambda>p. fst p = j \<and> 2 \<le> occurs os (fst (snd p))) os)) = kept ix os j"
    unfolding kept_def using idx_Add_keeps [OF ix(1)] ix(2) by (auto intro!: image_mset_cong)
  moreover have "kept ?ix ?os j = image_mset (\<lambda>p. (idx_ToNumber ?ix (fst (snd p)), snd (snd p))) (mset (filter ?old os)) +
      (if k = j then {#(idx_ToNumber ?ix name, v)#} else {#})"
    using 1 by (simp add: kept_def occurs_snoc)
  ultimately show ?thesis unfolding m by simp
qed

lemma occurs_revalue: "occurs (map (revalue name v) os) = occurs os"
proof -
  have "length (filter (\<lambda>p. fst (snd p) = n) (map (revalue name v) os)) = length (filter (\<lambda>p. fst (snd p) = n) os)" for n
    by (induction os) (auto simp: revalue_def)
  then show ?thesis by (simp add: occurs_def fun_eq_iff)
qed

lemma filter_revalue_other: "n \<noteq> name \<Longrightarrow> filter (\<lambda>p. fst (snd p) = n) (map (revalue name v) os) = filter (\<lambda>p. fst (snd p) = n) os"
  by (induction os) (auto simp: revalue_def)

lemma filter_revalue_same:
  assumes "filter (\<lambda>p. fst (snd p) = name) os = [(f, name, v0)]"
  shows "filter (\<lambda>p. fst (snd p) = name) (map (revalue name v) os) = [(f, name, v)]"
proof -
  have "filter (\<lambda>p. fst (snd p) = name) (map (revalue name v) os) = map (revalue name v) (filter (\<lambda>p. fst (snd p) = name) os)"
    by (induction os) (auto simp: revalue_def)
  then show ?thesis unfolding assms by (simp add: revalue_def)
qed

lemma kept_revalue:
  assumes "occurs os name = 1"
  shows "kept ix (map (revalue name v) os) j = kept ix os j"
proof -
  have "filter (\<lambda>p. fst p = j \<and> 2 \<le> occurs os (fst (snd p))) (map (revalue name v) xs) =
      filter (\<lambda>p. fst p = j \<and> 2 \<le> occurs os (fst (snd p))) xs" for xs
    using assms by (induction xs) (auto simp: revalue_def)
  then show ?thesis unfolding kept_def occurs_revalue by simp
qed

lemma entered_names: "map (\<lambda>p. (fst p, fst (snd p))) (entered seen os) = map (\<lambda>p. (fst p, fst (snd p))) os"
  by (induction seen os rule: entered.induct) simp_all

lemma occurs_names: "occurs os name = count_list (map snd (map (\<lambda>p. (fst p, fst (snd p))) os)) name"
  by (induction os) (auto simp: occurs_def)

lemma occurs_entered: "occurs (entered seen os) = occurs os"
  unfolding fun_eq_iff occurs_names entered_names by simp

text \<open>Entering one more occurrence revalues the first one of its label, when it is the second.\<close>

lemma entered_snoc:
  "entered seen (os @ [(k, name, v)]) =
     (if name \<notin> seen \<and> occurs os name = 1 then map (revalue name v) (entered seen os) else entered seen os) @ [(k, name, v)]"
proof (induction seen os rule: entered.induct)
  case (2 seen j n w os)
  have absent: "map (revalue name v) (entered s os) = entered s os" if "occurs os name = 0" for s
  proof -
    have "occurs (entered s os) name = 0" using that by (simp add: occurs_entered)
    then show ?thesis by (intro map_idI) (auto simp: occurs_def filter_empty_conv revalue_def)
  qed
  have find: "find (\<lambda>p. fst (snd p) = name) os = None \<longleftrightarrow> occurs os name = 0"
    by (auto simp: find_None_iff occurs_def filter_empty_conv)
  have append: "find P (os @ [x]) = (case find P os of None \<Rightarrow> if P x then Some x else None | Some y \<Rightarrow> Some y)" for P :: "nat \<times> string \<times> 'a \<Rightarrow> bool" and x
    by (induction os) simp_all
  show ?case
  proof (cases "n = name")
    case True
    then show ?thesis using 2 find absent
      by (auto simp: append occurs_def revalue_def split: option.splits)
  next
    case False
    then show ?thesis using 2 by (auto simp: append occurs_def revalue_def split: option.splits)
  qed
qed simp

lemma entered_enter: "entered {} (os @ [(k, name, v)]) = enter (entered {} os) k name v"
  by (simp add: entered_snoc enter_def occurs_entered)

lemma labels_inv_step:
  assumes inv: "labels_inv os s" and k: "k < length (ls_rows s)"
  shows "\<exists>s'. add_feature (of_nat k) (name, v) s = Inr s' \<and> labels_inv (enter os k name v) s' \<and>
    length (ls_rows s') = length (ls_rows s)"
proof -
  let ?os = "os @ [(k, name, v)]" and ?ix = "idx_Add (ls_index s) name" and ?rows = "ls_rows s"
  have i: "ls_count s = occurs os" "index_ok (ls_index s)" "set (Names (ls_index s)) = {name. 2 \<le> occurs os name}"
    "length ?rows < 2147483648" "\<forall>p \<in> set os. fst p < length ?rows"
    "\<And>name. occurs os name = 1 \<Longrightarrow> \<exists>k v. ls_first s name = Some (of_nat k) \<and> k < length ?rows \<and> filter (\<lambda>p. fst (snd p) = name) os = [(k, name, v)]"
    "\<And>k. k < length ?rows \<Longrightarrow> mset (?rows ! k) = kept (ls_index s) os k"
    using inv unfolding labels_inv_def by blast+
  have new_in: "\<forall>p \<in> set ?os. fst p < length ?rows" using i(5) k by auto
  have others: "filter (\<lambda>p. fst (snd p) = n) ?os = filter (\<lambda>p. fst (snd p) = n) os" if "n \<noteq> name" for n using that by simp
  consider "occurs os name = 0" | "occurs os name = 1" | "2 \<le> occurs os name" by linarith
  then show ?thesis
  proof cases
    case 1
    let ?s = "s\<lparr>ls_count := (ls_count s)(name := 1), ls_first := (ls_first s)(name \<mapsto> of_nat k)\<rparr>"
    have none: "filter (\<lambda>p. fst (snd p) = name) os = []" using 1 by (simp add: occurs_def)
    have "labels_inv ?os ?s"
      unfolding labels_inv_def
    proof (intro conjI allI impI)
      fix n assume "occurs ?os n = 1"
      then show "\<exists>j v. ls_first ?s n = Some (of_nat j) \<and> j < length (ls_rows ?s) \<and> filter (\<lambda>p. fst (snd p) = n) ?os = [(j, n, v)]"
        using i(6) [of n] k none by (cases "n = name") (simp_all add: occurs_snoc)
    qed (use 1 i new_in in \<open>auto simp: occurs_snoc kept_first\<close>)
    moreover have "enter os k name v = ?os" using 1 by (simp add: enter_def)
    moreover have "add_feature (of_nat k) (name, v) s = Inr ?s" using 1 i(1) by (simp add: add_feature_def)
    ultimately show ?thesis by auto
  next
    case 2
    let ?old = "map (revalue name v) os"
    let ?os = "?old @ [(k, name, v)]"
    from i(6) [OF 2] obtain f v0 where f: "ls_first s name = Some (of_nat f)" "f < length ?rows"
      "filter (\<lambda>p. fst (snd p) = name) os = [(f, name, v0)]" by blast
    have oc: "occurs ?old = occurs os" by (rule occurs_revalue)
    have f': "filter (\<lambda>p. fst (snd p) = name) ?old = [(f, name, v)]" by (rule filter_revalue_same [OF f(3)])
    have in_old: "\<forall>p \<in> set ?old. fst p < length ?rows" using i(5) by (auto simp: revalue_def)
    have others: "filter (\<lambda>p. fst (snd p) = n) ?os = filter (\<lambda>p. fst (snd p) = n) os" if "n \<noteq> name" for n
      using that filter_revalue_other [of n name v os] by simp
    have names: "set (Names (ls_index s)) = {name. 2 \<le> occurs ?old name}" using i(3) oc by simp
    let ?e = "(idx_ToNumber ?ix name, v)"
    let ?rows1 = "?rows[f := ?rows ! f @ [?e]]"
    let ?rows2 = "?rows1[k := ?rows1 ! k @ [?e]]"
    let ?s = "s\<lparr>ls_count := (ls_count s)(name := 2), ls_index := ?ix, ls_rows := ?rows2\<rparr>"
    have "labels_inv ?os ?s"
      unfolding labels_inv_def
    proof (intro conjI allI impI)
      fix n assume "occurs ?os n = 1"
      then have "n \<noteq> name" "occurs os n = 1" using 2 oc by (auto simp: occurs_snoc split: if_splits)
      then show "\<exists>j v. ls_first ?s n = Some (of_nat j) \<and> j < length (ls_rows ?s) \<and> filter (\<lambda>p. fst (snd p) = n) ?os = [(j, n, v)]"
        using i(6) [of n] others by simp
    next
      fix j assume "j < length (ls_rows ?s)"
      then show "mset (ls_rows ?s ! j) = kept (ls_index ?s) ?os j"
        using kept_second [OF f' i(2) names, of k j] kept_revalue [OF 2] i(7) [of j] f(2) k by (auto simp: nth_list_update)
    next
      show "set (Names (ls_index ?s)) = {n. 2 \<le> occurs ?os n}"
        using idx_Add_ok [OF i(2)] i(3) 2 oc by (auto simp: occurs_snoc)
    qed (use 2 i in_old k oc idx_Add_ok [OF i(2)] in \<open>auto simp: occurs_snoc\<close>)
    moreover have "enter os k name v = ?os" using 2 by (simp add: enter_def)
    moreover have "add_feature (of_nat k) (name, v) s = Inr ?s"
      using 2 i(1,4) f(1,2) k by (simp add: add_feature_def append_at_nat Let_def numeral_2_eq_2)
    ultimately show ?thesis by auto
  next
    case 3
    let ?e = "(idx_ToNumber (ls_index s) name, v)"
    let ?rows1 = "?rows[k := ?rows ! k @ [?e]]"
    let ?s = "s\<lparr>ls_count := (ls_count s)(name := occurs os name + 1), ls_rows := ?rows1\<rparr>"
    have "labels_inv ?os ?s"
      unfolding labels_inv_def
    proof (intro conjI allI impI)
      fix n assume "occurs ?os n = 1"
      then have "n \<noteq> name" "occurs os n = 1" using 3 by (auto simp: occurs_snoc split: if_splits)
      then show "\<exists>j v. ls_first ?s n = Some (of_nat j) \<and> j < length (ls_rows ?s) \<and> filter (\<lambda>p. fst (snd p) = n) ?os = [(j, n, v)]"
        using i(6) [of n] others by simp
    next
      fix j assume "j < length (ls_rows ?s)"
      then show "mset (ls_rows ?s ! j) = kept (ls_index ?s) ?os j"
        using kept_again [OF 3, of "ls_index s" k "v" j] i(7) [of j] k by (auto simp: nth_list_update)
    qed (use 3 i new_in in \<open>auto simp: occurs_snoc\<close>)
    moreover have "enter os k name v = ?os" using 3 by (simp add: enter_def)
    moreover have "add_feature (of_nat k) (name, v) s = Inr ?s"
      using 3 i(1,4) k by (simp add: add_feature_def append_at_nat Let_def)
    ultimately show ?thesis by auto
  qed
qed

definition row_occurrences :: "nat \<Rightarrow> (string \<times> 'w) list \<Rightarrow> (nat \<times> string \<times> 'w) list" where
  "row_occurrences k fs = map (\<lambda>f. (k, f)) fs"

lemma labels_inv_features:
  assumes "labels_inv (entered {} os) s" and "k < length (ls_rows s)"
  shows "\<exists>s'. p_fold (add_feature (of_nat k)) fs s = Inr s' \<and> labels_inv (entered {} (os @ row_occurrences k fs)) s' \<and>
    length (ls_rows s') = length (ls_rows s)"
  using assms
proof (induction fs arbitrary: os s)
  case Nil
  then show ?case by (simp add: row_occurrences_def)
next
  case (Cons f fs)
  obtain s1 where s1: "add_feature (of_nat k) f s = Inr s1" "labels_inv (entered {} (os @ [(k, f)])) s1" "length (ls_rows s1) = length (ls_rows s)"
    using labels_inv_step [OF Cons.prems, of "fst f" "snd f"] entered_enter [of os k "fst f" "snd f"] by auto
  from Cons.IH [OF s1(2)] s1 Cons.prems show ?case by (simp add: row_occurrences_def)
qed

text \<open>A new row changes nothing of the others, since it has no occurrences yet.\<close>

lemma labels_inv_row:
  assumes inv: "labels_inv os s" and room: "Suc (length (ls_rows s)) < 2147483648"
  shows "labels_inv os (s\<lparr>ls_rows := ls_rows s @ [[]]\<rparr>)"
proof -
  let ?n = "length (ls_rows s)"
  have "filter (\<lambda>p. fst p = ?n \<and> Q p) os = []" for Q
    using inv unfolding labels_inv_def filter_empty_conv by (metis less_irrefl)
  then have "kept (ls_index s) os ?n = {#}" unfolding kept_def by simp
  then show ?thesis using inv room unfolding labels_inv_def by (auto simp: nth_append less_Suc_eq)
qed

lemma labels_inv_rows:
  assumes "labels_inv (entered {} os) s" and "Suc (length (ls_rows s)) < 2147483648"
  shows "\<exists>s'. add_features (of_nat (length (ls_rows s))) fs s = Inr s' \<and> labels_inv (entered {} (os @ row_occurrences (length (ls_rows s)) fs)) s' \<and>
    length (ls_rows s') = Suc (length (ls_rows s))"
proof -
  let ?s = "s\<lparr>ls_rows := ls_rows s @ [[]]\<rparr>"
  have n: "length (ls_rows s) < length (ls_rows ?s)" by simp
  have "(ls_rows s @ [[]])[length (ls_rows s) := []] = ls_rows s @ [[]]" by (metis list_update_length)
  then have "add_features (of_nat (length (ls_rows s))) fs s = p_fold (add_feature (of_nat (length (ls_rows s)))) fs ?s"
    using assms(2) by (simp add: add_features_def)
  then show ?thesis using labels_inv_features [OF labels_inv_row [OF assms] n] by simp
qed

text \<open>The features of rows \<open>k\<close>, \<open>k + 1\<close> and so on, as the stream of users or items brings them.\<close>

fun add_all_features :: "nat \<Rightarrow> (string \<times> 'w) list list \<Rightarrow> 'w label_state \<Rightarrow> go_panic + 'w label_state" where
  "add_all_features k [] s = Inr s"
| "add_all_features k (fs # fss) s = p_bind (add_features (of_nat k) fs s) (add_all_features (Suc k) fss)"

fun all_occurrences :: "nat \<Rightarrow> (string \<times> 'w) list list \<Rightarrow> (nat \<times> string \<times> 'w) list" where
  "all_occurrences k [] = []"
| "all_occurrences k (fs # fss) = row_occurrences k fs @ all_occurrences (Suc k) fss"

lemma labels_inv_all:
  assumes "labels_inv (entered {} os) s" and "length (ls_rows s) + length fss < 2147483648"
  shows "\<exists>s'. add_all_features (length (ls_rows s)) fss s = Inr s' \<and>
    labels_inv (entered {} (os @ all_occurrences (length (ls_rows s)) fss)) s' \<and> length (ls_rows s') = length (ls_rows s) + length fss"
  using assms
proof (induction fss arbitrary: os s)
  case (Cons fs fss)
  have small: "Suc (length (ls_rows s)) < 2147483648" using Cons.prems by simp
  from labels_inv_rows [OF Cons.prems(1) small] obtain s1 where s1: "add_features (of_nat (length (ls_rows s))) fs s = Inr s1"
    "labels_inv (entered {} (os @ row_occurrences (length (ls_rows s)) fs)) s1" "length (ls_rows s1) = Suc (length (ls_rows s))" by blast
  have "length (ls_rows s1) + length fss < 2147483648" using Cons.prems s1(3) by simp
  from Cons.IH [OF s1(2) this] show ?case using s1 by simp
qed simp

lemma occurs_all: "occurs (all_occurrences k fss) name = count_list (map fst (concat fss)) name"
proof (induction fss arbitrary: k)
  case (Cons fs fss)
  have "occurs (row_occurrences k fs) name = count_list (map fst fs) name"
    by (induction fs) (auto simp: occurs_def row_occurrences_def)
  then show ?case using Cons by (simp add: occurs_def)
qed (simp add: occurs_def)

lemma occurrences_of_row:
  assumes "k \<le> j" and "j < k + length fss"
  shows "filter (\<lambda>p. fst p = j \<and> Q (snd p)) (all_occurrences k fss) = map (\<lambda>f. (j, f)) (filter Q (fss ! (j - k)))"
  using assms
proof (induction fss arbitrary: k)
  case (Cons fs fss)
  have row: "filter (\<lambda>p. fst p = j \<and> Q (snd p)) (row_occurrences k fs) = (if k = j then map (\<lambda>f. (j, f)) (filter Q fs) else [])"
    by (induction fs) (auto simp: row_occurrences_def)
  show ?case
  proof (cases "k = j")
    case True
    have "filter (\<lambda>p. fst p = j \<and> Q (snd p)) (all_occurrences m fss) = []" if "j < m" for m
      using that by (induction fss arbitrary: m) (auto simp: row_occurrences_def)
    then show ?thesis using True row by simp
  next
    case False
    then have "Suc k \<le> j" "j < Suc k + length fss" "j - k = Suc (j - Suc k)" using Cons.prems by simp_all
    then show ?thesis using Cons.IH [of "Suc k"] row False by simp
  qed
qed simp

text \<open>
  (C20) The labels of users and of items: the single pass over the stream ends without a panic, and a label gets a number exactly when it
  occurs at least twice.  Each row keeps exactly its labels that do, as often as it has them, and drops the others; each is kept
  with its own value, except that the first occurrence of a label, in the order of the stream, is kept with the value of the
  second.
\<close>

theorem labels_kept:
  assumes "length fss < 2147483648"
  shows "\<exists>s. add_all_features 0 fss no_labels = Inr s \<and> distinct (Names (ls_index s)) \<and>
    set (Names (ls_index s)) = {name. 2 \<le> count_list (map fst (concat fss)) name} \<and> length (ls_rows s) = length fss \<and>
    (\<forall>k < length fss.
      mset (map fst (ls_rows s ! k)) =
        mset (map (\<lambda>f. idx_ToNumber (ls_index s) (fst f)) (filter (\<lambda>f. 2 \<le> count_list (map fst (concat fss)) (fst f)) (fss ! k))) \<and>
      mset (ls_rows s ! k) =
        mset (map (\<lambda>(j, name, v). (idx_ToNumber (ls_index s) name, v))
          (filter (\<lambda>(j, name, v). j = k \<and> 2 \<le> count_list (map fst (concat fss)) name) (entered {} (all_occurrences 0 fss)))))"
proof -
  let ?os = "all_occurrences 0 fss" and ?often = "\<lambda>name. 2 \<le> count_list (map fst (concat fss)) name"
  have "labels_inv (entered {} []) no_labels" by (simp add: labels_inv_def no_labels_def occurs_def [abs_def] NewMapIndex_def)
  from labels_inv_all [OF this, of fss] assms obtain s where s: "add_all_features 0 fss no_labels = Inr s"
    "labels_inv (entered {} ?os) s" "length (ls_rows s) = length fss" by (auto simp: no_labels_def)
  have row: "mset (ls_rows s ! k) = mset (map (\<lambda>(j, name, v). (idx_ToNumber (ls_index s) name, v))
      (filter (\<lambda>(j, name, v). j = k \<and> ?often name) (entered {} ?os)))" if k: "k < length fss" for k
    using s(2,3) k unfolding labels_inv_def kept_def occurs_entered occurs_all by (simp add: case_prod_unfold)
  have "mset (map fst (ls_rows s ! k)) = mset (map (\<lambda>f. idx_ToNumber (ls_index s) (fst f)) (filter (\<lambda>f. ?often (fst f)) (fss ! k)))"
    if k: "k < length fss" for k
  proof -
    have "mset (map fst (ls_rows s ! k)) = image_mset fst (mset (ls_rows s ! k))" by simp
    also have "\<dots> = mset (map (\<lambda>q. idx_ToNumber (ls_index s) (snd q))
        (filter (\<lambda>q. fst q = k \<and> ?often (snd q)) (map (\<lambda>p. (fst p, fst (snd p))) (entered {} ?os))))"
      unfolding row [OF k] by (simp add: filter_map o_def case_prod_unfold multiset.map_comp flip: mset_map)
    also have "\<dots> = mset (map (\<lambda>p. idx_ToNumber (ls_index s) (fst (snd p))) (filter (\<lambda>p. fst p = k \<and> ?often (fst (snd p))) ?os))"
      unfolding entered_names by (simp add: filter_map o_def)
    also have "\<dots> = mset (map (\<lambda>f. idx_ToNumber (ls_index s) (fst f)) (filter (\<lambda>f. ?often (fst f)) (fss ! k)))"
      using occurrences_of_row [of 0 k fss "\<lambda>f. ?often (fst f)"] k by (simp add: o_def)
    finally show ?thesis .
  qed
  moreover have "distinct (Names (ls_index s))" "set (Names (ls_index s)) = {name. ?often name}"
    using s(2) unfolding labels_inv_def numbering_def by (simp_all add: occurs_entered occurs_all)
  ultimately show ?thesis using s row by blast
qed

theorem labels_kept_witness:
  "\<exists>s. add_all_features 0 [[(''a'', 1), (''b'', 20)], [(''b'', 30), (''c'', 1)], [(''b'', 40)]] no_labels = Inr s \<and>
    set (Names (ls_index s)) = {''b''} \<and> mset (ls_rows s ! 0) = {#(idx_ToNumber (ls_index s) ''b'', 30 :: int)#} \<and>
    mset (ls_rows s ! 1) = {#(idx_ToNumber (ls_index s) ''b'', 30)#} \<and> mset (ls_rows s ! 2) = {#(idx_ToNumber (ls_index s) ''b'', 40)#}"
proof -
  let ?fss = "[[(''a'', 1), (''b'', 20)], [(''b'', 30), (''c'', 1)], [(''b'', 40 :: int)]]"
  from labels_kept [of ?fss] obtain s where s: "add_all_features 0 ?fss no_labels = Inr s"
    "set (Names (ls_index s)) = {name. 2 \<le> count_list (map fst (concat ?fss)) name}"
    "\<forall>k < length ?fss. mset (ls_rows s ! k) = mset (map (\<lambda>(j, name, v). (idx_ToNumber (ls_index s) name, v))
      (filter (\<lambda>(j, name, v). j = k \<and> 2 \<le> count_list (map fst (concat ?fss)) name) (entered {} (all_occurrences 0 ?fss))))"
    by auto
  have "{name. 2 \<le> count_list (map fst (concat ?fss)) name} = {''b''}" by auto
  moreover have "mset (ls_rows s ! 0) = {#(idx_ToNumber (ls_index s) ''b'', 30)#}" "mset (ls_rows s ! 1) = {#(idx_ToNumber (ls_index s) ''b'', 30)#}"
    "mset (ls_rows s ! 2) = {#(idx_ToNumber (ls_index s) ''b'', 40)#}"
    using s(3) [rule_format, of 0] s(3) [rule_format, of 1] s(3) [rule_format, of 2] by (simp_all add: row_occurrences_def)
  ultimately show ?thesis using s(1,2) by blast
qed

subsection \<open>The dimensions of embeddings\<close>

text \<open>
  For every embedding name the lengths of its vectors are counted, as a map from length to count for each number.
  \<open>put_at\<close> is \<open>xs[k] = x\<close> after the list has been grown with \<open>z\<close> until it has the index \<open>k\<close>.
\<close>

definition put_at :: "'a \<Rightarrow> nat \<Rightarrow> 'a \<Rightarrow> 'a list \<Rightarrow> 'a list" where
  "put_at z k x xs = (xs @ replicate (Suc k - length xs) z)[k := x]"

record embedding_state =
  es_index :: index
  es_dims :: "(nat \<Rightarrow> nat) list"
  es_rows :: "16 word list list list"

definition no_embeddings :: embedding_state where
  "no_embeddings = \<lparr>es_index = NewMapIndex, es_dims = [], es_rows = []\<rparr>"

definition add_embedding :: "nat \<Rightarrow> string \<times> 16 word list \<Rightarrow> embedding_state \<Rightarrow> embedding_state" where
  "add_embedding r e s =
     (let ix = idx_Add (es_index s) (fst e); k = nat (sint (idx_ToNumber ix (fst e)));
        vec = put_at [] k (snd e) (es_rows s ! r); n = length (snd e);
        dims = (if k < length (es_dims s) then es_dims s else put_at (\<lambda>n. 0) k (\<lambda>n. 0) (es_dims s)) in
      s\<lparr>es_index := ix, es_rows := (es_rows s)[r := vec], es_dims := dims[k := (dims ! k)(n := (dims ! k) n + 1)]\<rparr>)"

definition add_embeddings :: "i32 \<Rightarrow> (string \<times> 16 word list) list \<Rightarrow> embedding_state \<Rightarrow> go_panic + embedding_state" where
  "add_embeddings i es s =
     (let rows = (if int (length (es_rows s)) = sint i then es_rows s @ [[]] else es_rows s) in
      if 0 \<le> sint i \<and> sint i < int (length rows)
      then Inr (foldl (\<lambda>s e. add_embedding (nat (sint i)) e s) (s\<lparr>es_rows := rows[nat (sint i) := []]\<rparr>) es)
      else Inl IndexOutOfRange)"

text \<open>The loop over a map of counts visits the lengths that were counted in some order \<open>ds\<close>; it starts from length 0.\<close>

definition commonest :: "nat list \<Rightarrow> (nat \<Rightarrow> nat) \<Rightarrow> nat" where
  "commonest ds c = foldl (\<lambda>best d. if c d > c best then d else best) 0 ds"

definition clear_others :: "nat list \<Rightarrow> 16 word list list \<Rightarrow> go_panic + 16 word list list" where
  "clear_others dims vs =
     p_map (\<lambda>(j, e). p_bind (slice_get dims j) (\<lambda>dim. Inr (if length e \<noteq> dim then [] else e))) (enumerate 0 vs)"

text \<open>Whatever the order, no length is commoner than the chosen one, and every vector that is kept has it.\<close>

lemma commonest_best:
  assumes "\<forall>d. 0 < c d \<longrightarrow> d \<in> set ds"
  shows "c d \<le> c (commonest ds c)"
proof -
  have "\<forall>d \<in> insert b (set ds). c d \<le> c (foldl (\<lambda>best d. if c d > c best then d else best) b ds)" for b
  proof (induction ds arbitrary: b)
    case (Cons e ds)
    let ?b = "if c e > c b then e else b"
    have "\<forall>d \<in> insert ?b (set ds). c d \<le> c (foldl (\<lambda>best d. if c d > c best then d else best) ?b ds)" by (rule Cons.IH)
    then show ?case by (fastforce split: if_splits)
  qed simp
  then have le: "\<forall>d \<in> insert 0 (set ds). c d \<le> c (commonest ds c)" unfolding commonest_def .
  show ?thesis
  proof (cases "0 < c d")
    case True
    then have "d \<in> insert 0 (set ds)" using assms by blast
    then show ?thesis by (rule bspec [OF le])
  qed simp
qed

lemma clear_others_dims:
  assumes "clear_others dims vs = Inr vs'"
  shows "length vs' = length vs \<and> (\<forall>j < length vs. vs' ! j = (if length (vs ! j) = dims ! j then vs ! j else []))"
proof -
  have "\<exists>vs'. clear_others dims vs = Inr vs'" using assms by blast
  have "p_map (\<lambda>(j, e). p_bind (slice_get dims j) (\<lambda>dim. Inr (if length e \<noteq> dim then [] else e))) (enumerate m xs) = Inr ys \<Longrightarrow>
    length ys = length xs \<and> (\<forall>j < length xs. ys ! j = (if length (xs ! j) = dims ! (m + j) then xs ! j else []))" for m xs ys
  proof (induction xs arbitrary: m ys)
    case (Cons x xs)
    from Cons.prems obtain zs where z: "m < length dims" "ys = (if length x \<noteq> dims ! m then [] else x) # zs"
      "p_map (\<lambda>(j, e). p_bind (slice_get dims j) (\<lambda>dim. Inr (if length e \<noteq> dim then [] else e))) (enumerate (Suc m) xs) = Inr zs"
      by (auto simp: p_bind_Inr slice_get_def split: if_splits)
    from Cons.IH [OF z(3)] show ?case using z(2) by (auto simp: nth_Cons split: nat.splits)
  qed simp
  from this [of 0 vs vs'] show ?thesis using assms by (simp add: clear_others_def)
qed

end
