(* ===== verification/Online_Evaluator.thy ===== *)
theory Online_Evaluator
  imports Complex_Main Cache_Proxy Feedback_Expr "HOL-Library.AList" "HOL-Library.Signed_Division"
begin

text \<open>
  The online evaluator of \<open>master/metrics.go\<close>: how many of the items that a user read in one day, over a window of
  thirty days, got positive feedback. A map is an association list that a loop visits in the order of a parameter; \<open>float64\<close> is an
  ordered field \<open>'w\<close>, rounding is not modelled.
\<close>

definition hours24 :: duration where
  "hours24 = 86400000000000"

definition Truncate :: "time \<Rightarrow> duration \<Rightarrow> time" where
  "Truncate t d = t - t mod d"

type_synonym item_sets = "(i32 \<times> i32 set) list"

record 'w online_evaluator =
  oe_ReadTypes :: "'w fb_expr list"
  oe_ReadFeedback :: "item_sets list"
  oe_PositiveTypes :: "'w fb_expr list"
  oe_PositiveFeedback :: "(string \<times> item_sets) list"
  oe_WindowSize :: nat
  oe_WindowEnd :: time

definition NewOnlineEvaluator :: "time \<Rightarrow> 'w fb_expr list \<Rightarrow> 'w fb_expr list \<Rightarrow> 'w online_evaluator" where
  "NewOnlineEvaluator now positiveTypes readTypes =
     \<lparr>oe_ReadTypes = readTypes, oe_ReadFeedback = replicate 30 [], oe_PositiveTypes = positiveTypes,
      oe_PositiveFeedback = [('''', [])], oe_WindowSize = 30, oe_WindowEnd = Truncate now hours24\<rparr>"

text \<open>The set of a user, made when it is nil.\<close>

definition items_of :: "item_sets \<Rightarrow> i32 \<Rightarrow> i32 set" where
  "items_of m u = (case map_of m u of None \<Rightarrow> {} | Some S \<Rightarrow> S)"

definition add_item :: "i32 \<Rightarrow> i32 \<Rightarrow> item_sets \<Rightarrow> item_sets" where
  "add_item u i m = AList.update u (insert i (items_of m u)) m"

definition sets_of :: "(string \<times> item_sets) list \<Rightarrow> string \<Rightarrow> item_sets" where
  "sets_of P name = (case map_of P name of None \<Rightarrow> [] | Some m \<Rightarrow> m)"

definition add_positive :: "string \<Rightarrow> i32 \<Rightarrow> i32 \<Rightarrow> (string \<times> item_sets) list \<Rightarrow> (string \<times> item_sets) list" where
  "add_positive name u i P = AList.update name (add_item u i (sets_of P name)) P"

text \<open>\<open>sdiv\<close> is Go's division, which cuts off towards zero.\<close>

definition window_index :: "time \<Rightarrow> time \<Rightarrow> int" where
  "window_index windowEnd t = (windowEnd - Truncate t hours24) sdiv 3600000000000 sdiv 24"

definition oe_Add :: "('w::linorder \<Rightarrow> string) \<Rightarrow> string \<Rightarrow> 'w \<Rightarrow> i32 \<Rightarrow> i32 \<Rightarrow> time \<Rightarrow> 'w online_evaluator \<Rightarrow> 'w online_evaluator" where
  "oe_Add show feedbackType v u i t e =
     (let windowIndex = window_index (oe_WindowEnd e) t;
        is_read = MatchFeedbackTypeExpressions (oe_ReadTypes e) feedbackType v in
      if is_read \<and> (windowIndex < 0 \<or> windowIndex \<ge> int (oe_WindowSize e)) then e
      else
        let e1 = (if is_read then e\<lparr>oe_ReadFeedback := (oe_ReadFeedback e)[nat windowIndex := add_item u i (oe_ReadFeedback e ! nat windowIndex)]\<rparr> else e);
          matching = filter (\<lambda>x. FeedbackExpr_Match x feedbackType v) (oe_PositiveTypes e);
          P = foldl (\<lambda>P x. add_positive (FeedbackExpr_String show x) u i P) (oe_PositiveFeedback e) matching in
        e1\<lparr>oe_PositiveFeedback := (if matching \<noteq> [] then add_positive '''' u i P else P)\<rparr>)"

text \<open>One day of one type: the sum of the ratios and the number of users.\<close>

fun day_ratios :: "item_sets \<Rightarrow> item_sets \<Rightarrow> 'w::linordered_field \<times> nat \<Rightarrow> 'w \<times> nat" where
  "day_ratios positives [] r = r"
| "day_ratios positives ((u, readItems) # reads) (ratioSum, userCount) =
     (case map_of positives u of
        None \<Rightarrow> day_ratios positives reads (ratioSum, userCount)
      | Some positiveItems \<Rightarrow>
          if card readItems > 0
          then day_ratios positives reads (ratioSum + of_nat (card (readItems \<inter> positiveItems)) / of_nat (card readItems), userCount + 1)
          else day_ratios positives reads (ratioSum, userCount))"

definition PositiveFeedbackRatio :: string where
  "PositiveFeedbackRatio = ''positive_feedback_ratio''"

definition day_point :: "(time \<Rightarrow> int \<Rightarrow> time) \<Rightarrow> (item_sets \<Rightarrow> item_sets) \<Rightarrow> 'w::linordered_field online_evaluator \<Rightarrow> string \<times> item_sets \<Rightarrow> nat \<Rightarrow>
    'w time_series_point list" where
  "day_point AddDays Iter e f i =
     (case day_ratios (snd f) (Iter (oe_ReadFeedback e ! i)) (0, 0) of (ratioSum, userCount) \<Rightarrow>
        if userCount > 0
        then [\<lparr>tp_Name = (if fst f \<noteq> '''' then PositiveFeedbackRatio @ ''_'' @ fst f else PositiveFeedbackRatio),
          tp_Timestamp = AddDays (oe_WindowEnd e) (- int i), tp_Value = ratioSum / of_nat userCount\<rparr>]
        else [])"

definition oe_Evaluate :: "(time \<Rightarrow> int \<Rightarrow> time) \<Rightarrow> (item_sets \<Rightarrow> item_sets) \<Rightarrow> ((string \<times> item_sets) list \<Rightarrow> (string \<times> item_sets) list) \<Rightarrow>
    'w::linordered_field online_evaluator \<Rightarrow> 'w time_series_point list" where
  "oe_Evaluate AddDays Iter IterTypes e =
     concat (map (\<lambda>f. concat (map (day_point AddDays Iter e f) [0..<oe_WindowSize e])) (IterTypes (oe_PositiveFeedback e)))"

subsection \<open>What has been added\<close>

record 'w oe_event =
  ev_Type :: string
  ev_Value :: 'w
  ev_User :: i32
  ev_Item :: i32
  ev_Timestamp :: time

definition oe_run :: "('w::linorder \<Rightarrow> string) \<Rightarrow> 'w oe_event list \<Rightarrow> 'w online_evaluator \<Rightarrow> 'w online_evaluator" where
  "oe_run show es e = foldl (\<lambda>e x. oe_Add show (ev_Type x) (ev_Value x) (ev_User x) (ev_Item x) (ev_Timestamp x) e) e es"

definition ev_read :: "'w::linorder fb_expr list \<Rightarrow> 'w oe_event \<Rightarrow> bool" where
  "ev_read readTypes x = MatchFeedbackTypeExpressions readTypes (ev_Type x) (ev_Value x)"

definition in_window :: "time \<Rightarrow> 'w oe_event \<Rightarrow> bool" where
  "in_window windowEnd x \<longleftrightarrow> 0 \<le> window_index windowEnd (ev_Timestamp x) \<and> window_index windowEnd (ev_Timestamp x) < 30"

text \<open>What user \<open>u\<close> read on day \<open>k\<close>, and what it liked: by one type, or by any for the empty name. A feedback that is both
  and falls out of the window counts as neither.\<close>

definition reads_of :: "'w::linorder fb_expr list \<Rightarrow> time \<Rightarrow> 'w oe_event list \<Rightarrow> nat \<Rightarrow> i32 \<Rightarrow> i32 set" where
  "reads_of readTypes windowEnd es k u =
     {ev_Item x |x. x \<in> set es \<and> ev_read readTypes x \<and> window_index windowEnd (ev_Timestamp x) = int k \<and> ev_User x = u}"

definition likes_of :: "('w::linorder \<Rightarrow> string) \<Rightarrow> 'w fb_expr list \<Rightarrow> 'w fb_expr list \<Rightarrow> time \<Rightarrow> 'w oe_event list \<Rightarrow> string \<Rightarrow> i32 \<Rightarrow> i32 set" where
  "likes_of show positiveTypes readTypes windowEnd es name u =
     {ev_Item x |x. x \<in> set es \<and> (ev_read readTypes x \<longrightarrow> in_window windowEnd x) \<and> ev_User x = u \<and>
       (\<exists>y \<in> set positiveTypes. FeedbackExpr_Match y (ev_Type x) (ev_Value x) \<and> (name = '''' \<or> FeedbackExpr_String show y = name))}"

definition sets_ok :: "item_sets \<Rightarrow> bool" where
  "sets_ok m \<longleftrightarrow> distinct (map fst m) \<and> (\<forall>p \<in> set m. snd p \<noteq> {} \<and> finite (snd p))"

definition oe_inv :: "('w::linorder \<Rightarrow> string) \<Rightarrow> 'w fb_expr list \<Rightarrow> 'w fb_expr list \<Rightarrow> time \<Rightarrow> 'w oe_event list \<Rightarrow> 'w online_evaluator \<Rightarrow> bool" where
  "oe_inv show positiveTypes readTypes windowEnd es e \<longleftrightarrow>
     oe_ReadTypes e = readTypes \<and> oe_PositiveTypes e = positiveTypes \<and> oe_WindowSize e = 30 \<and> oe_WindowEnd e = windowEnd \<and>
     length (oe_ReadFeedback e) = 30 \<and> distinct (map fst (oe_PositiveFeedback e)) \<and>
     (\<forall>k < 30. sets_ok (oe_ReadFeedback e ! k) \<and> items_of (oe_ReadFeedback e ! k) = reads_of readTypes windowEnd es k) \<and>
     (\<forall>name. sets_ok (sets_of (oe_PositiveFeedback e) name) \<and>
        items_of (sets_of (oe_PositiveFeedback e) name) = likes_of show positiveTypes readTypes windowEnd es name)"

lemma items_of_add: "items_of (add_item u i m) = (items_of m)(u := insert i (items_of m u))"
  by (auto simp: items_of_def add_item_def update_conv' fun_eq_iff)

lemma sets_ok_items: "sets_ok m \<Longrightarrow> finite (items_of m u) \<and> (map_of m u = (if items_of m u = {} then None else Some (items_of m u)))"
  by (fastforce simp: sets_ok_def items_of_def dest: map_of_SomeD split: option.splits)

lemma in_update: "p \<in> set (AList.update k v m) \<Longrightarrow> p = (k, v) \<or> p \<in> set m"
  by (induction m) (auto split: if_splits)

lemma sets_ok_add: "sets_ok m \<Longrightarrow> sets_ok (add_item u i m)"
proof -
  assume m: "sets_ok m"
  have "finite (insert i (items_of m u))" using sets_ok_items [OF m, of u] by simp
  then show ?thesis using m unfolding sets_ok_def add_item_def
    by (auto simp: AList.distinct_update dest!: in_update)
qed

lemma sets_of_add: "sets_of (add_positive name u i P) = (sets_of P)(name := add_item u i (sets_of P name))"
  by (auto simp: sets_of_def add_positive_def update_conv' fun_eq_iff)

definition item_in :: "(string \<times> item_sets) list \<Rightarrow> string \<Rightarrow> i32 \<Rightarrow> i32 set" where
  "item_in P name u = items_of (sets_of P name) u"

definition types_ok :: "(string \<times> item_sets) list \<Rightarrow> bool" where
  "types_ok P \<longleftrightarrow> distinct (map fst P) \<and> (\<forall>name. sets_ok (sets_of P name))"

lemma types_ok_add: "types_ok P \<Longrightarrow> types_ok (add_positive name u i P)"
proof -
  assume P: "types_ok P"
  have "distinct (map fst (add_positive name u i P))" using P by (simp add: types_ok_def add_positive_def AList.distinct_update)
  moreover have "sets_ok (sets_of (add_positive name u i P) n)" for n
    using P sets_ok_add [of "sets_of P name" u i] by (simp add: types_ok_def sets_of_add)
  ultimately show ?thesis by (simp add: types_ok_def)
qed

lemma item_in_add: "item_in (add_positive name u i P) n v = (if n = name \<and> v = u then insert i (item_in P n v) else item_in P n v)"
  by (simp add: item_in_def sets_of_add items_of_add)

lemma adds_ok:
  assumes "types_ok P"
  shows "types_ok (foldl (\<lambda>P x. add_positive (f x) u i P) P xs) \<and>
    (\<forall>n v. item_in (foldl (\<lambda>P x. add_positive (f x) u i P) P xs) n v =
      (if v = u \<and> n \<in> f ` set xs then insert i (item_in P n v) else item_in P n v))"
  using assms
proof (induction xs arbitrary: P)
  case (Cons x xs)
  from Cons.IH [OF types_ok_add [OF Cons.prems], of "f x" u i] show ?case by (auto simp: item_in_add)
qed simp

lemma reads_of_snoc:
  "reads_of rt w (es @ [x]) k u =
     (if ev_read rt x \<and> window_index w (ev_Timestamp x) = int k \<and> ev_User x = u then insert (ev_Item x) (reads_of rt w es k u) else reads_of rt w es k u)"
  by (auto simp: reads_of_def)

lemma likes_of_snoc:
  "likes_of show pt rt w (es @ [x]) name u =
     (if (ev_read rt x \<longrightarrow> in_window w x) \<and> ev_User x = u \<and> (\<exists>y \<in> set pt. FeedbackExpr_Match y (ev_Type x) (ev_Value x) \<and> (name = '''' \<or> FeedbackExpr_String show y = name))
      then insert (ev_Item x) (likes_of show pt rt w es name u) else likes_of show pt rt w es name u)"
  by (auto simp: likes_of_def)

lemma oe_inv_alt:
  "oe_inv show pt rt w es e \<longleftrightarrow>
     oe_ReadTypes e = rt \<and> oe_PositiveTypes e = pt \<and> oe_WindowSize e = 30 \<and> oe_WindowEnd e = w \<and> length (oe_ReadFeedback e) = 30 \<and>
     types_ok (oe_PositiveFeedback e) \<and>
     (\<forall>k < 30. sets_ok (oe_ReadFeedback e ! k) \<and> (\<forall>u. items_of (oe_ReadFeedback e ! k) u = reads_of rt w es k u)) \<and>
     (\<forall>name u. item_in (oe_PositiveFeedback e) name u = likes_of show pt rt w es name u)"
  unfolding oe_inv_def types_ok_def item_in_def by (auto simp: fun_eq_iff)

lemma oe_inv_Add:
  assumes "oe_inv show pt rt w es e"
  shows "oe_inv show pt rt w (es @ [x]) (oe_Add show (ev_Type x) (ev_Value x) (ev_User x) (ev_Item x) (ev_Timestamp x) e)"
proof -
  let ?k = "window_index w (ev_Timestamp x)" and ?u = "ev_User x" and ?i = "ev_Item x"
  let ?read = "ev_read rt x" and ?match = "filter (\<lambda>y. FeedbackExpr_Match y (ev_Type x) (ev_Value x)) pt"
  have e: "oe_ReadTypes e = rt" "oe_PositiveTypes e = pt" "oe_WindowSize e = 30" "oe_WindowEnd e = w" "length (oe_ReadFeedback e) = 30"
    "types_ok (oe_PositiveFeedback e)"
    "\<And>k. k < 30 \<Longrightarrow> sets_ok (oe_ReadFeedback e ! k) \<and> (\<forall>u. items_of (oe_ReadFeedback e ! k) u = reads_of rt w es k u)"
    "\<And>name u. item_in (oe_PositiveFeedback e) name u = likes_of show pt rt w es name u"
    using assms unfolding oe_inv_alt by blast+
  show ?thesis
  proof (cases "?read \<and> \<not> in_window w x")
    case True
    then have "oe_Add show (ev_Type x) (ev_Value x) ?u ?i (ev_Timestamp x) e = e"
      by (auto simp: oe_Add_def Let_def e ev_read_def in_window_def)
    moreover have "reads_of rt w (es @ [x]) k u = reads_of rt w es k u" if "k < 30" for k u
      using True that by (auto simp: reads_of_snoc in_window_def)
    moreover have "likes_of show pt rt w (es @ [x]) = likes_of show pt rt w es" using True by (auto simp: likes_of_snoc fun_eq_iff)
    ultimately show ?thesis using assms unfolding oe_inv_alt by simp
  next
    case False
    let ?P = "foldl (\<lambda>P y. add_positive (FeedbackExpr_String show y) ?u ?i P) (oe_PositiveFeedback e) ?match"
    let ?P' = "if ?match \<noteq> [] then add_positive '''' ?u ?i ?P else ?P"
    let ?R = "if ?read then (oe_ReadFeedback e)[nat ?k := add_item ?u ?i (oe_ReadFeedback e ! nat ?k)] else oe_ReadFeedback e"
    have run: "oe_Add show (ev_Type x) (ev_Value x) ?u ?i (ev_Timestamp x) e = e\<lparr>oe_ReadFeedback := ?R, oe_PositiveFeedback := ?P'\<rparr>"
      using False by (auto simp: oe_Add_def Let_def e ev_read_def in_window_def)
    note P = adds_ok [OF e(6), of "FeedbackExpr_String show" ?u ?i ?match]
    have "types_ok ?P'" using P types_ok_add by auto
    moreover have "item_in ?P' name u = likes_of show pt rt w (es @ [x]) name u" for name u
      using P False e(8) [of name u] by (auto simp: likes_of_snoc item_in_add filter_empty_conv)
    moreover have "sets_ok (?R ! k) \<and> (\<forall>u. items_of (?R ! k) u = reads_of rt w (es @ [x]) k u)" if k: "k < 30" for k
    proof (cases "?read \<and> nat ?k = k")
      case True
      then have "?k = int k" using False by (auto simp: in_window_def)
      then show ?thesis using e(5) e(7) [OF k] True k by (simp add: reads_of_snoc items_of_add sets_ok_add)
    next
      case F: False
      then have "\<not> (?read \<and> ?k = int k)" by auto
      then show ?thesis using e(7) [OF k] F by (auto simp: reads_of_snoc nth_list_update)
    qed
    ultimately show ?thesis using e(1-5) unfolding run oe_inv_alt by simp
  qed
qed

lemma oe_inv_New: "oe_inv show pt rt (Truncate now hours24) [] (NewOnlineEvaluator now pt rt)"
  by (auto simp: oe_inv_def NewOnlineEvaluator_def sets_ok_def items_of_def sets_of_def reads_of_def likes_of_def fun_eq_iff)

lemma oe_inv_run: "oe_inv show pt rt w es e \<Longrightarrow> oe_inv show pt rt w (es @ xs) (oe_run show xs e)"
proof (induction xs arbitrary: es e)
  case (Cons x xs)
  from Cons.IH [OF oe_inv_Add [OF Cons.prems]] show ?case by (simp add: oe_run_def)
qed (simp add: oe_run_def)

subsection \<open>The points\<close>

definition ratio_of :: "i32 set \<Rightarrow> i32 set \<Rightarrow> 'w::linordered_field" where
  "ratio_of R L = of_nat (card (R \<inter> L)) / of_nat (card R)"

lemma day_ratios_sum:
  "day_ratios P rs (s, c) =
     (s + sum_list (map (\<lambda>(u, R). ratio_of R (items_of P u)) (filter (\<lambda>(u, R). map_of P u \<noteq> None \<and> card R > 0) rs)),
      c + length (filter (\<lambda>(u, R). map_of P u \<noteq> None \<and> card R > 0) rs))"
proof (induction rs arbitrary: s c)
  case (Cons r rs)
  obtain u R where r: "r = (u, R)" by fastforce
  show ?case by (cases "map_of P u") (simp_all add: r Cons.IH ratio_of_def items_of_def algebra_simps)
qed simp

lemma day_ratios_users:
  assumes P: "sets_ok P" and m: "sets_ok m" and perm: "mset rs = mset m"
  defines "U \<equiv> {u. items_of m u \<noteq> {} \<and> items_of P u \<noteq> {}}"
  shows "finite U" and "day_ratios P rs (0, 0) = (\<Sum>u \<in> U. ratio_of (items_of m u) (items_of P u) :: 'x::linordered_field, card U)"
proof -
  let ?ok = "\<lambda>(u, R). map_of P u \<noteq> None \<and> card R > 0"
  let ?ks = "map fst (filter ?ok rs)"
  have set: "set rs = set m" using perm mset_eq_setD by blast
  have "mset (map fst rs) = mset (map fst m)" using perm by (metis mset_map)
  then have drs: "distinct (map fst rs)" using m mset_eq_imp_distinct_iff unfolding sets_ok_def by blast
  then have d: "distinct ?ks" by (rule distinct_map_filter)
  have R: "R = items_of m u \<and> R \<noteq> {} \<and> finite R" if "(u, R) \<in> set m" for u R
    using m that by (auto simp: sets_ok_def items_of_def)
  have inm: "(u, items_of m u) \<in> set m" if "items_of m u \<noteq> {}" for u
    using sets_ok_items [OF m, of u] that by (auto dest: map_of_SomeD)
  have "u \<in> U" if "u \<in> set ?ks" for u
  proof -
    obtain S where "(u, S) \<in> set m" "map_of P u \<noteq> None" using \<open>u \<in> set ?ks\<close> by (auto simp: set)
    then show ?thesis using R [of u S] sets_ok_items [OF P, of u] by (auto simp: U_def)
  qed
  moreover have "u \<in> set ?ks" if "u \<in> U" for u
  proof -
    have u: "items_of m u \<noteq> {}" "items_of P u \<noteq> {}" using \<open>u \<in> U\<close> by (simp_all add: U_def)
    have "map_of P u \<noteq> None" using sets_ok_items [OF P, of u] u(2) by simp
    moreover have "card (items_of m u) > 0" using sets_ok_items [OF m, of u] u(1) by (simp add: card_gt_0_iff)
    moreover have "(u, items_of m u) \<in> set rs" unfolding set by (rule inm [OF u(1)])
    ultimately have "(u, items_of m u) \<in> set (filter ?ok rs)" unfolding set_filter by blast
    then have "fst (u, items_of m u) \<in> fst ` set (filter ?ok rs)" by (rule imageI)
    then show ?thesis unfolding set_map fst_conv .
  qed
  ultimately have U: "set ?ks = U" by blast
  then show "finite U" by (metis List.finite_set)
  have e1: "map (\<lambda>(u, R). ratio_of R (items_of P u) :: 'x::linordered_field) (filter ?ok rs) =
      map (\<lambda>u. ratio_of (items_of m u) (items_of P u)) ?ks"
    unfolding map_map by (rule map_cong [OF refl]) (use R in \<open>fastforce simp: set\<close>)
  have e2: "sum_list (map (\<lambda>u. ratio_of (items_of m u) (items_of P u) :: 'x) ?ks) = (\<Sum>u \<in> U. ratio_of (items_of m u) (items_of P u))"
    unfolding U [symmetric] by (rule sum_list_distinct_conv_sum_set [OF d])
  have e3: "length (filter ?ok rs) = card U" unfolding U [symmetric] using distinct_card [OF d] by simp
  show "day_ratios P rs (0, 0) = (\<Sum>u \<in> U. ratio_of (items_of m u) (items_of P u) :: 'x, card U)"
    unfolding day_ratios_sum e1 e2 e3 by simp
qed

lemma ratio_of_bounds: "finite R \<Longrightarrow> 0 \<le> (ratio_of R L :: 'w::linordered_field) \<and> ratio_of R L \<le> (1 :: 'w)"
  by (cases "card R = 0") (auto simp: ratio_of_def divide_le_eq card_mono)

lemma mean_bounds:
  assumes "finite U" and "U \<noteq> {}" and "\<And>u. u \<in> U \<Longrightarrow> 0 \<le> f u \<and> f u \<le> (1 :: 'w::linordered_field)"
  shows "0 \<le> sum f U / of_nat (card U) \<and> sum f U / of_nat (card U) \<le> 1"
proof -
  have "sum f U \<le> of_nat (card U) * 1" by (rule sum_bounded_above) (use assms(3) in simp)
  moreover have "0 \<le> sum f U" by (rule sum_nonneg) (use assms(3) in simp)
  moreover have "0 < card U" using assms(1,2) by (simp add: card_gt_0_iff)
  ultimately show ?thesis by (simp add: divide_le_eq)
qed

text \<open>
  (C21) Every point that the evaluator reports is the mean, over the users who read something on its day and ever liked something
  of its type, of the share of the items read that were liked; so it lies between 0 and 1. This holds for all feedback in any order and
  for any order in which the maps are visited.
\<close>

theorem evaluate_means:
  fixes show_value :: "'w::linordered_field \<Rightarrow> string"
  assumes "\<forall>m. mset (Iter m) = mset m" and "\<forall>m. mset (IterTypes m) = mset m"
    and "p \<in> set (oe_Evaluate AddDays Iter IterTypes (oe_run show_value es (NewOnlineEvaluator now pt rt)))"
  shows "\<exists>name k. k < 30 \<and> tp_Timestamp p = AddDays (Truncate now hours24) (- int k) \<and>
    tp_Name p = (if name \<noteq> '''' then PositiveFeedbackRatio @ ''_'' @ name else PositiveFeedbackRatio) \<and>
    (let R = reads_of rt (Truncate now hours24) es k; L = likes_of show_value pt rt (Truncate now hours24) es name;
       U = {u. R u \<noteq> {} \<and> L u \<noteq> {}} in
     finite U \<and> U \<noteq> {} \<and> tp_Value p = (\<Sum>u \<in> U. ratio_of (R u) (L u)) / of_nat (card U) \<and> 0 \<le> tp_Value p \<and> tp_Value p \<le> 1)"
proof -
  let ?e = "oe_run show_value es (NewOnlineEvaluator now pt rt)" and ?w = "Truncate now hours24"
  have inv: "oe_inv show_value pt rt ?w es ?e" using oe_inv_run [OF oe_inv_New, of show_value pt rt now es] by simp
  then have size: "oe_WindowSize ?e = 30" "oe_WindowEnd ?e = ?w" unfolding oe_inv_def by blast+
  obtain f k where fk: "f \<in> set (IterTypes (oe_PositiveFeedback ?e))" "k < 30" "p \<in> set (day_point AddDays Iter ?e f k)"
    using assms(3) by (auto simp: oe_Evaluate_def size)
  have "f \<in> set (oe_PositiveFeedback ?e)" using fk(1) assms(2) mset_eq_setD by blast
  moreover have "distinct (map fst (oe_PositiveFeedback ?e))" using inv unfolding oe_inv_def by blast
  ultimately have sf: "snd f = sets_of (oe_PositiveFeedback ?e) (fst f)"
    by (simp add: sets_of_def map_of_is_SomeI [of _ "fst f" "snd f"])
  let ?m = "oe_ReadFeedback ?e ! k"
  have P: "sets_ok (snd f)" "items_of (snd f) = likes_of show_value pt rt ?w es (fst f)"
    using inv unfolding oe_inv_def sf by blast+
  have m: "sets_ok ?m" "items_of ?m = reads_of rt ?w es k" using inv fk(2) unfolding oe_inv_def by blast+
  let ?U = "{u. reads_of rt ?w es k u \<noteq> {} \<and> likes_of show_value pt rt ?w es (fst f) u \<noteq> {}}"
  note U = day_ratios_users [OF P(1) m(1), of "Iter ?m", unfolded P(2) m(2)]
  have perm: "mset (Iter ?m) = mset ?m" using assms(1) by blast
  have pt: "card ?U > 0" "tp_Timestamp p = AddDays ?w (- int k)"
    "tp_Name p = (if fst f \<noteq> '''' then PositiveFeedbackRatio @ ''_'' @ fst f else PositiveFeedbackRatio)"
    "tp_Value p = (\<Sum>u \<in> ?U. ratio_of (reads_of rt ?w es k u) (likes_of show_value pt rt ?w es (fst f) u)) / of_nat (card ?U)"
    using fk(3) by (auto simp: day_point_def U(2) [OF perm] size split: if_splits)
  have ne: "?U \<noteq> {}" using pt(1) by (metis card.empty less_irrefl)
  have "finite (reads_of rt ?w es k u)" for u using sets_ok_items [OF m(1), of u] m(2) by simp
  then have "0 \<le> tp_Value p \<and> tp_Value p \<le> 1"
    unfolding pt(4) by (intro mean_bounds U(1) perm ne ratio_of_bounds)
  then show ?thesis using fk(2) pt(2-4) U(1) [OF perm] ne unfolding Let_def by blast
qed

text \<open>A user reads two items and likes one of them, on the last day of the window.\<close>

definition example_types :: "string \<Rightarrow> rat fb_expr list" where
  "example_types name = [\<lparr>fe_FeedbackType = name, fe_ExprType = ExprNone, fe_Value = 0\<rparr>]"

definition example_events :: "rat oe_event list" where
  "example_events =
     [\<lparr>ev_Type = ''read'', ev_Value = 0, ev_User = 0, ev_Item = 1, ev_Timestamp = 0\<rparr>,
      \<lparr>ev_Type = ''read'', ev_Value = 0, ev_User = 0, ev_Item = 2, ev_Timestamp = 0\<rparr>,
      \<lparr>ev_Type = ''star'', ev_Value = 0, ev_User = 0, ev_Item = 1, ev_Timestamp = 0\<rparr>]"

lemma example_evaluator:
  "oe_run (\<lambda>w. '''') example_events (NewOnlineEvaluator 0 (example_types ''star'') (example_types ''read'')) =
     \<lparr>oe_ReadTypes = example_types ''read'', oe_ReadFeedback = (replicate 30 [])[0 := [(0, {2, 1})]],
      oe_PositiveTypes = example_types ''star'', oe_PositiveFeedback = [('''', [(0, {1})]), (''star'', [(0, {1})])],
      oe_WindowSize = 30, oe_WindowEnd = 0\<rparr>"
  by (simp add: oe_run_def example_events_def NewOnlineEvaluator_def oe_Add_def example_types_def Let_def FeedbackExpr_Match_def
      FeedbackExpr_String_def window_index_def Truncate_def hours24_def add_positive_def add_item_def items_of_def sets_of_def)

theorem evaluate_means_witness:
  "\<exists>p \<in> set (oe_Evaluate (\<lambda>t d. t) (\<lambda>m. m) (\<lambda>m. m)
      (oe_run (\<lambda>w. '''') example_events (NewOnlineEvaluator 0 (example_types ''star'') (example_types ''read'')))).
    tp_Value p = 1 / 2 \<and> 0 \<le> tp_Value p \<and> tp_Value p \<le> 1"
proof -
  let ?e = "oe_run (\<lambda>w. '''') example_events (NewOnlineEvaluator 0 (example_types ''star'') (example_types ''read''))"
  let ?p = "\<lparr>tp_Name = PositiveFeedbackRatio, tp_Timestamp = 0, tp_Value = 1 / 2 :: rat\<rparr>"
  have "card {2, 1 :: i32} = 2" by simp
  then have "?p \<in> set (day_point (\<lambda>t d. t) (\<lambda>m. m) ?e ('''', [(0, {1})]) 0)"
    by (simp add: day_point_def example_evaluator)
  then have p: "?p \<in> set (oe_Evaluate (\<lambda>t d. t) (\<lambda>m. m) (\<lambda>m. m) ?e)"
    by (force simp: oe_Evaluate_def example_evaluator)
  from evaluate_means [OF _ _ p] have "0 \<le> tp_Value ?p \<and> tp_Value ?p \<le> 1" unfolding Let_def by blast
  then show ?thesis using p by (intro bexI [OF _ p]) simp
qed

end
