(* ===== verification/Feedback_Load.thy ===== *)
theory Feedback_Load
  imports Dataset_Build Label_Index Online_Evaluator
begin

text \<open>
  The feedback in \<open>LoadDataFromDatabase\<close> (\<open>master/tasks.go\<close>, steps 3 to 6): what counts as negative, positive and read,
  and the samples that are made of it. The jobs of the item groups run in parallel and take a mutex for what they share; each feedback is
  one step here, and what the steps leave does not depend on their order.
\<close>

subsection \<open>Tables\<close>

text \<open>
  Rows are users. \<open>lt_negativeSet\<close> is nil unless there are negative feedback types. A set is the list of its elements
  in the order of insertion; \<open>lt_positive\<close> are the \<open>sync.Map\<close>s.
\<close>

record load_tables =
  lt_negativeSet :: "i32 list list option"
  lt_negativeTimestamps :: "(i32 \<rightharpoonup> time) list"
  lt_positive :: "(i32 \<times> time) list list"
  lt_readSet :: "i32 list list"
  lt_readTimestamps :: "(i32 \<rightharpoonup> time) list"

definition new_tables :: "bool \<Rightarrow> nat \<Rightarrow> load_tables" where
  "new_tables has_negative n =
     \<lparr>lt_negativeSet = (if has_negative then Some (replicate n []) else None),
      lt_negativeTimestamps = (if has_negative then replicate n Map.empty else []),
      lt_positive = replicate n [], lt_readSet = replicate n [], lt_readTimestamps = replicate n Map.empty\<rparr>"

definition update_at :: "i32 \<Rightarrow> ('a \<Rightarrow> 'a) \<Rightarrow> 'a list \<Rightarrow> go_panic + 'a list" where
  "update_at k f xs = p_bind (index_i32 xs k) (\<lambda>x. Inr (xs[nat (sint k) := f x]))"

text \<open>The dense indices of a feedback's user and item, when both are known.\<close>

definition known_pair :: "dataset \<Rightarrow> 'w feedback \<Rightarrow> (i32 \<times> i32) option" where
  "known_pair d f =
     (let userIndex = fd_Id (dt_userDict d) (fb_UserId f) in
      if userIndex = NotId then None
      else let itemIndex = fd_Id (dt_itemDict d) (fb_ItemId f) in
        if itemIndex = NotId then None else Some (userIndex, itemIndex))"

text \<open>The later of two timestamps is kept; the map of a user is made when it is nil.\<close>

definition keep_latest :: "i32 \<Rightarrow> time \<Rightarrow> (i32 \<rightharpoonup> time) \<Rightarrow> (i32 \<rightharpoonup> time)" where
  "keep_latest i t m = (case m i of None \<Rightarrow> m(i \<mapsto> t) | Some t' \<Rightarrow> if t > t' then m(i \<mapsto> t) else m)"

definition negative_contains :: "load_tables \<Rightarrow> i32 \<Rightarrow> i32 \<Rightarrow> go_panic + bool" where
  "negative_contains tb u i = (case lt_negativeSet tb of None \<Rightarrow> Inr False | Some ns \<Rightarrow> p_bind (index_i32 ns u) (\<lambda>s. Inr (i \<in> set s)))"

definition record_negative :: "i32 \<Rightarrow> i32 \<Rightarrow> time \<Rightarrow> load_tables \<Rightarrow> go_panic + load_tables" where
  "record_negative u i t tb =
     (case lt_negativeSet tb of
        None \<Rightarrow> Inl IndexOutOfRange
      | Some ns \<Rightarrow> p_bind (update_at u (List.insert i) ns) (\<lambda>ns'.
          p_bind (update_at u (keep_latest i t) (lt_negativeTimestamps tb)) (\<lambda>ts.
          Inr (tb\<lparr>lt_negativeSet := Some ns', lt_negativeTimestamps := ts\<rparr>))))"

text \<open>\<open>LoadOrStore\<close> and the loop of \<open>CompareAndSwap\<close>: the result tells whether the feedback was accepted.\<close>

definition store_latest :: "i32 \<Rightarrow> time \<Rightarrow> (i32 \<times> time) list \<Rightarrow> (i32 \<times> time) list" where
  "store_latest i t m =
     (case map_of m i of None \<Rightarrow> AList.update i t m | Some t' \<Rightarrow> if \<not> t > t' then m else AList.update i t m)"

definition record_positive :: "i32 \<Rightarrow> i32 \<Rightarrow> time \<Rightarrow> load_tables \<Rightarrow> go_panic + load_tables \<times> bool" where
  "record_positive u i t tb =
     p_bind (negative_contains tb u i) (\<lambda>neg.
     if neg then Inr (tb, False)
     else p_bind (update_at u (store_latest i t) (lt_positive tb)) (\<lambda>ps. Inr (tb\<lparr>lt_positive := ps\<rparr>, True)))"

definition record_read :: "i32 \<Rightarrow> i32 \<Rightarrow> time \<Rightarrow> load_tables \<Rightarrow> go_panic + load_tables \<times> bool" where
  "record_read u i t tb =
     p_bind (index_i32 (lt_positive tb) u) (\<lambda>ps.
     p_bind (negative_contains tb u i) (\<lambda>neg.
     if neg \<or> map_of ps i \<noteq> None then Inr (tb, False)
     else p_bind (update_at u (List.insert i) (lt_readSet tb)) (\<lambda>rs.
       p_bind (update_at u (keep_latest i t) (lt_readTimestamps tb)) (\<lambda>ts.
       Inr (tb\<lparr>lt_readSet := rs, lt_readTimestamps := ts\<rparr>, True)))))"

subsection \<open>Samples\<close>

type_synonym 'w sample = "i32 \<times> i32 \<times> 'w \<times> time"

text \<open>The samples of user \<open>a\<close>; \<open>Iter\<close> and \<open>IterMap\<close> are the orders in which sets and maps are visited.\<close>

definition timestamp_of :: "(i32 \<rightharpoonup> time) \<Rightarrow> i32 \<Rightarrow> time" where
  "timestamp_of m i = (case m i of None \<Rightarrow> 0 | Some t \<Rightarrow> t)"

definition negative_samples :: "(i32 list \<Rightarrow> i32 list) \<Rightarrow> load_tables \<Rightarrow> nat \<Rightarrow> 'w::{one, uminus} sample list" where
  "negative_samples Iter tb a =
     (case lt_negativeSet tb of
        None \<Rightarrow> []
      | Some ns \<Rightarrow> map (\<lambda>i. (of_nat a, i, -1, timestamp_of (lt_negativeTimestamps tb ! a) i)) (Iter (ns ! a)))"

definition positive_samples :: "((i32 \<times> time) list \<Rightarrow> (i32 \<times> time) list) \<Rightarrow> load_tables \<Rightarrow> nat \<Rightarrow> 'w::{one, uminus} sample list" where
  "positive_samples IterMap tb a = map (\<lambda>(i, t). (of_nat a, i, 1, t)) (IterMap (lt_positive tb ! a))"

definition read_samples :: "(i32 list \<Rightarrow> i32 list) \<Rightarrow> load_tables \<Rightarrow> nat \<Rightarrow> 'w::{one, uminus} sample list" where
  "read_samples Iter tb a = map (\<lambda>i. (of_nat a, i, -1, timestamp_of (lt_readTimestamps tb ! a) i)) (Iter (lt_readSet tb ! a))"

definition create_samples :: "(i32 list \<Rightarrow> i32 list) \<Rightarrow> ((i32 \<times> time) list \<Rightarrow> (i32 \<times> time) list) \<Rightarrow> load_tables \<Rightarrow> 'w::{one, uminus} sample list" where
  "create_samples Iter IterMap tb =
     concat (map (\<lambda>a. negative_samples Iter tb a @ positive_samples IterMap tb a @ read_samples Iter tb a) [0..<length (lt_positive tb)])"

definition count_samples :: "(i32 list \<Rightarrow> i32 list) \<Rightarrow> ((i32 \<times> time) list \<Rightarrow> (i32 \<times> time) list) \<Rightarrow> load_tables \<Rightarrow> int \<times> int" where
  "count_samples Iter IterMap tb =
     (sum_list (map (\<lambda>a. int (length (IterMap (lt_positive tb ! a)))) [0..<length (lt_positive tb)]),
      sum_list (map (\<lambda>a. int (case lt_negativeSet tb of None \<Rightarrow> 0 | Some ns \<Rightarrow> length (Iter (ns ! a))) + int (length (Iter (lt_readSet tb ! a))))
        [0..<length (lt_positive tb)]))"

subsection \<open>The latest feedback on a pair\<close>

type_synonym obs = "i32 \<times> i32 \<times> time"

definition max_time :: "time list \<Rightarrow> time option" where
  "max_time ts = (if ts = [] then None else Some (Max (set ts)))"

definition times_of :: "obs list \<Rightarrow> nat \<Rightarrow> i32 \<Rightarrow> time list" where
  "times_of ps a i = map (\<lambda>p. snd (snd p)) (filter (\<lambda>p. row (fst p) = a \<and> fst (snd p) = i) ps)"

definition latest :: "obs list \<Rightarrow> nat \<Rightarrow> i32 \<Rightarrow> time option" where
  "latest ps a i = max_time (times_of ps a i)"

lemma latest_Nil [simp]: "latest [] a i = None"
  by (simp add: latest_def times_of_def max_time_def)

lemma max_time_snoc: "max_time (ts @ [t]) = Some (case max_time ts of None \<Rightarrow> t | Some t' \<Rightarrow> max t t')"
  by (cases ts) (simp_all add: max_time_def insert_commute [of _ t])

lemma latest_snoc:
  "latest (ps @ [(u, j, t)]) a i =
     (if row u = a \<and> j = i then Some (case latest ps a i of None \<Rightarrow> t | Some t' \<Rightarrow> max t t') else latest ps a i)"
  by (simp add: latest_def times_of_def max_time_snoc)

lemma latest_filter:
  assumes "\<And>p. Q p = (K (row (fst p)) (fst (snd p)) = None)"
  shows "latest (filter Q ps) a i = (if K a i = None then latest ps a i else None)"
proof -
  have "times_of (filter Q ps) a i = (if K a i = None then times_of ps a i else [])"
    using assms by (induction ps) (auto simp: times_of_def)
  then show ?thesis by (cases "K a i") (simp_all add: latest_def max_time_def)
qed

lemma latest_mset: "mset ps = mset qs \<Longrightarrow> latest ps = latest qs"
proof (intro ext)
  fix a i assume "mset ps = mset qs"
  then have "mset (times_of ps a i) = mset (times_of qs a i)" by (simp add: times_of_def)
  then have "set (times_of ps a i) = set (times_of qs a i)" "times_of ps a i = [] \<longleftrightarrow> times_of qs a i = []"
    by (rule mset_eq_setD) (metis \<open>mset (times_of ps a i) = mset (times_of qs a i)\<close> mset_zero_iff)
  then show "latest ps a i = latest qs a i" by (simp add: latest_def max_time_def)
qed

subsection \<open>What the tables hold\<close>

text \<open>
  The rows \<open>xs\<close> hold, for every user, the latest time of each item in \<open>ps\<close>; \<open>sets\<close> are the keys.
\<close>

definition holds_latest :: "nat \<Rightarrow> obs list \<Rightarrow> (i32 \<rightharpoonup> time) list \<Rightarrow> bool" where
  "holds_latest n ps xs \<longleftrightarrow> length xs = n \<and> (\<forall>a < n. xs ! a = latest ps a)"

definition holds_keys :: "nat \<Rightarrow> obs list \<Rightarrow> i32 list list \<Rightarrow> bool" where
  "holds_keys n ps xs \<longleftrightarrow> length xs = n \<and> (\<forall>a < n. distinct (xs ! a) \<and> set (xs ! a) = dom (latest ps a))"

definition holds_map :: "nat \<Rightarrow> obs list \<Rightarrow> (i32 \<times> time) list list \<Rightarrow> bool" where
  "holds_map n ps xs \<longleftrightarrow> length xs = n \<and> (\<forall>a < n. distinct (map fst (xs ! a)) \<and> map_of (xs ! a) = latest ps a)"

lemma update_at_in: "in_rows k (length xs) \<Longrightarrow> update_at k f xs = Inr (xs[row k := f (xs ! row k)])"
  by (simp add: update_at_def index_i32_in row_def)

lemma keep_latest_max: "keep_latest i t m = m(i \<mapsto> (case m i of None \<Rightarrow> t | Some t' \<Rightarrow> max t t'))"
  by (auto simp: keep_latest_def fun_eq_iff split: option.split)

lemma map_of_store: "map_of (store_latest i t m) = (map_of m)(i \<mapsto> (case map_of m i of None \<Rightarrow> t | Some t' \<Rightarrow> max t t'))"
  by (auto simp: store_latest_def update_conv' fun_eq_iff split: option.split)

lemma distinct_store: "distinct (map fst m) \<Longrightarrow> distinct (map fst (store_latest i t m))"
  by (simp add: store_latest_def AList.distinct_update split: option.split)

lemma latest_row: "latest (ps @ [(u, j, t)]) a = (if a = row u then (latest ps a)(j \<mapsto> (case latest ps a j of None \<Rightarrow> t | Some t' \<Rightarrow> max t t')) else latest ps a)"
  by (auto simp: latest_snoc fun_eq_iff)

lemma holds_latest_step:
  "holds_latest n ps xs \<Longrightarrow> in_rows u n \<Longrightarrow> holds_latest n (ps @ [(u, i, t)]) (xs[row u := keep_latest i t (xs ! row u)])"
  by (auto simp: holds_latest_def latest_row keep_latest_max nth_list_update row_less)

lemma holds_keys_step:
  "holds_keys n ps xs \<Longrightarrow> in_rows u n \<Longrightarrow> holds_keys n (ps @ [(u, i, t)]) (xs[row u := List.insert i (xs ! row u)])"
  by (auto simp: holds_keys_def latest_row nth_list_update row_less)

lemma holds_map_step:
  "holds_map n ps xs \<Longrightarrow> in_rows u n \<Longrightarrow> holds_map n (ps @ [(u, i, t)]) (xs[row u := store_latest i t (xs ! row u)])"
  by (auto simp: holds_map_def latest_row nth_list_update row_less map_of_store distinct_store)

text \<open>The tables after the negative feedback \<open>N\<close>, the accepted positive feedback \<open>P\<close> and the accepted reads \<open>R\<close>.\<close>

definition negatives_inv :: "nat \<Rightarrow> obs list \<Rightarrow> load_tables \<Rightarrow> bool" where
  "negatives_inv n N tb \<longleftrightarrow>
     (case lt_negativeSet tb of None \<Rightarrow> N = [] | Some ns \<Rightarrow> holds_keys n N ns \<and> holds_latest n N (lt_negativeTimestamps tb))"

definition tables_inv :: "nat \<Rightarrow> obs list \<Rightarrow> obs list \<Rightarrow> obs list \<Rightarrow> load_tables \<Rightarrow> bool" where
  "tables_inv n N P R tb \<longleftrightarrow> negatives_inv n N tb \<and> holds_map n P (lt_positive tb) \<and>
     holds_keys n R (lt_readSet tb) \<and> holds_latest n R (lt_readTimestamps tb)"

lemma negatives_inv_others [simp]:
  "negatives_inv n N (tb\<lparr>lt_positive := x\<rparr>) = negatives_inv n N tb"
  "negatives_inv n N (tb\<lparr>lt_readSet := y, lt_readTimestamps := z\<rparr>) = negatives_inv n N tb"
  by (simp_all add: negatives_inv_def split: option.split)

lemma tables_inv_new: "tables_inv n [] [] [] (new_tables b n)"
  by (auto simp: tables_inv_def negatives_inv_def new_tables_def holds_map_def holds_keys_def holds_latest_def fun_eq_iff)

lemma negative_contains_inv:
  assumes "negatives_inv n N tb" and "in_rows u n"
  shows "negative_contains tb u i = Inr (latest N (row u) i \<noteq> None)"
proof (cases "lt_negativeSet tb")
  case None
  then show ?thesis using assms by (simp add: negatives_inv_def negative_contains_def)
next
  case (Some ns)
  then have "length ns = n" "set (ns ! row u) = dom (latest N (row u))"
    using assms row_less [OF assms(2)] by (auto simp: negatives_inv_def holds_keys_def)
  then show ?thesis using assms(2) Some by (auto simp: negative_contains_def index_i32_in)
qed

lemma record_negative_inv:
  assumes "tables_inv n N P R tb" and "in_rows u n" and "lt_negativeSet tb \<noteq> None"
  shows "\<exists>tb'. record_negative u i t tb = Inr tb' \<and> tables_inv n (N @ [(u, i, t)]) P R tb' \<and> lt_negativeSet tb' \<noteq> None"
proof -
  obtain ns where ns: "lt_negativeSet tb = Some ns" using assms(3) by blast
  have h: "holds_keys n N ns" "holds_latest n N (lt_negativeTimestamps tb)" using assms(1) ns by (auto simp: tables_inv_def negatives_inv_def)
  then have len: "length ns = n" "length (lt_negativeTimestamps tb) = n" by (simp_all add: holds_keys_def holds_latest_def)
  show ?thesis using assms(1,2) ns len holds_keys_step [OF h(1) assms(2)] holds_latest_step [OF h(2) assms(2)]
    by (simp add: record_negative_def update_at_in tables_inv_def negatives_inv_def)
qed

lemma record_positive_inv:
  assumes "tables_inv n N P R tb" and "in_rows u n"
  shows "\<exists>tb'. record_positive u i t tb = Inr (tb', latest N (row u) i = None) \<and>
    tables_inv n N (if latest N (row u) i = None then P @ [(u, i, t)] else P) R tb' \<and> lt_negativeSet tb' = lt_negativeSet tb"
proof -
  have h: "negatives_inv n N tb" "holds_map n P (lt_positive tb)" using assms(1) by (simp_all add: tables_inv_def)
  then have len: "length (lt_positive tb) = n" by (simp add: holds_map_def)
  show ?thesis using assms len holds_map_step [OF h(2) assms(2)] negative_contains_inv [OF h(1) assms(2), of i]
    by (auto simp: record_positive_def update_at_in tables_inv_def)
qed

lemma record_read_inv:
  assumes "tables_inv n N P R tb" and "in_rows u n"
  shows "\<exists>tb'. record_read u i t tb = Inr (tb', latest N (row u) i = None \<and> latest P (row u) i = None) \<and>
    tables_inv n N P (if latest N (row u) i = None \<and> latest P (row u) i = None then R @ [(u, i, t)] else R) tb'"
proof -
  have h: "negatives_inv n N tb" "holds_map n P (lt_positive tb)" "holds_keys n R (lt_readSet tb)" "holds_latest n R (lt_readTimestamps tb)"
    using assms(1) by (simp_all add: tables_inv_def)
  then have len: "length (lt_positive tb) = n" "length (lt_readSet tb) = n" "length (lt_readTimestamps tb) = n"
    and m: "map_of (lt_positive tb ! row u) = latest P (row u)"
    using row_less [OF assms(2)] by (simp_all add: holds_map_def holds_keys_def holds_latest_def)
  show ?thesis using assms len m holds_keys_step [OF h(3) assms(2)] holds_latest_step [OF h(4) assms(2)] negative_contains_inv [OF h(1) assms(2), of i]
    by (auto simp: record_read_def update_at_in index_i32_in tables_inv_def)
qed

subsection \<open>The samples classify the pairs\<close>

text \<open>What a pair with negative, positive and read feedback becomes.\<close>

definition class_of :: "obs list \<Rightarrow> obs list \<Rightarrow> obs list \<Rightarrow> nat \<Rightarrow> i32 \<Rightarrow> ('w::{one, uminus} \<times> time) option" where
  "class_of N P R a i =
     (case latest N a i of
        Some t \<Rightarrow> Some (-1, t)
      | None \<Rightarrow> (case latest P a i of
          Some t \<Rightarrow> Some (1, t)
        | None \<Rightarrow> map_option (\<lambda>t. (-1, t)) (latest R a i)))"

definition sample_of :: "nat \<Rightarrow> i32 \<Rightarrow> ('w \<times> time) option \<Rightarrow> 'w sample list" where
  "sample_of a i c = (case c of None \<Rightarrow> [] | Some (y, t) \<Rightarrow> [(of_nat a, i, y, t)])"

definition on_pair :: "nat \<Rightarrow> i32 \<Rightarrow> 'w sample \<Rightarrow> bool" where
  "on_pair a i = (\<lambda>(u, j, y, t). u = of_nat a \<and> j = i)"

lemma filter_distinct_eq: "distinct xs \<Longrightarrow> filter (\<lambda>x. x = i) xs = (if i \<in> set xs then [i] else [])"
  by (induction xs) auto

lemma filter_on_pair_keys:
  assumes "mset ks = mset ks0" and "distinct ks0" and "set ks0 = dom m"
  shows "filter (on_pair a i) (map (\<lambda>j. (of_nat a, j, y, timestamp_of m j)) ks) = sample_of a i (map_option (Pair y) (m i))"
proof -
  have d: "distinct ks" "set ks = dom m" using assms mset_eq_imp_distinct_iff mset_eq_setD by blast+
  have "filter (on_pair a i) (map (\<lambda>j. (of_nat a, j, y, timestamp_of m j)) ks) =
    map (\<lambda>j. (of_nat a, j, y, timestamp_of m j)) (filter (\<lambda>j. j = i) ks)"
    by (simp add: filter_map o_def on_pair_def)
  then show ?thesis by (cases "m i") (auto simp: filter_distinct_eq [OF d(1)] d(2) sample_of_def timestamp_of_def)
qed

lemma filter_on_pair_map:
  assumes "mset ps = mset ps0" and "distinct (map fst ps0)" and "map_of ps0 = m"
  shows "filter (on_pair a i) (map (\<lambda>(j, t). (of_nat a, j, y, t)) ps) = sample_of a i (map_option (Pair y) (m i))"
proof -
  have "mset (map fst ps) = mset (map fst ps0)" using assms(1) by (metis mset_map)
  then have d: "distinct (map fst ps)" using assms(2) mset_eq_imp_distinct_iff by blast
  have "set ps = set ps0" using assms(1) mset_eq_setD by blast
  then have m: "m = map_of ps" using d assms(2,3) map_of_inject_set by metis
  show ?thesis unfolding m using d
  proof (induction ps)
    case (Cons q ps)
    obtain j t where q: "q = (j, t)" by fastforce
    show ?case
    proof (cases "j = i")
      case True
      then have "map_of ps i = None" using Cons.prems q by (simp add: map_of_eq_None_iff)
      then show ?thesis using Cons True q by (simp add: sample_of_def on_pair_def)
    qed (use Cons q in \<open>simp add: sample_of_def on_pair_def\<close>)
  qed (simp add: sample_of_def)
qed

lemma of_nat_i32_eq: "a < 2147483648 \<Longrightarrow> b < 2147483648 \<Longrightarrow> (of_nat a :: i32) = of_nat b \<longleftrightarrow> a = b"
  by (metis sint_of_nat_i32 of_nat_eq_iff)

lemma other_user:
  assumes "a < 2147483648" "b < 2147483648" "a \<noteq> b"
  shows "filter (on_pair a i) (negative_samples Iter tb b @ positive_samples IterMap tb b @ read_samples Iter tb b) = []"
  using assms by (auto simp: filter_empty_conv on_pair_def negative_samples_def positive_samples_def read_samples_def of_nat_i32_eq split: option.splits)

lemma filter_concat_one:
  assumes "a < n" and "\<And>b. b < n \<Longrightarrow> b \<noteq> a \<Longrightarrow> filter Q (f b) = []"
  shows "filter Q (concat (map f [0..<n])) = filter Q (f a)"
proof -
  have none: "filter Q (concat (map f xs)) = []" if "\<forall>b \<in> set xs. b < n \<and> b \<noteq> a" for xs
    using that assms(2) by (induction xs) auto
  have "[0..<n] = [0..<a] @ a # [Suc a..<n]"
    using upt_add_eq_append [of 0 a "n - a"] upt_conv_Cons [OF assms(1)] assms(1) by simp
  then show ?thesis using none [of "[0..<a]"] none [of "[Suc a..<n]"] assms(1) by simp
qed

lemma samples_of_pair:
  assumes inv: "tables_inv n N P R tb" and n: "n \<le> 2147483648" and a: "a < n"
    and PN: "\<And>i. latest P a i \<noteq> None \<Longrightarrow> latest N a i = None"
    and R: "\<And>i. latest R a i \<noteq> None \<Longrightarrow> latest N a i = None \<and> latest P a i = None"
    and iter: "\<forall>xs. mset (Iter xs) = mset xs" "\<forall>xs. mset (IterMap xs) = mset xs"
  shows "filter (on_pair a i) (create_samples Iter IterMap tb :: 'w::{one, uminus} sample list) = sample_of a i (class_of N P R a i)"
proof -
  have len: "length (lt_positive tb) = n" using inv by (simp add: tables_inv_def holds_map_def)
  have neg: "filter (on_pair a i) (negative_samples Iter tb a :: 'w sample list) = sample_of a i (map_option (Pair (-1)) (latest N a i))"
  proof (cases "lt_negativeSet tb")
    case None
    then have "N = []" using inv by (simp add: tables_inv_def negatives_inv_def)
    then show ?thesis using None by (simp add: negative_samples_def sample_of_def)
  next
    case (Some ns)
    then have h: "distinct (ns ! a)" "set (ns ! a) = dom (latest N a)" "lt_negativeTimestamps tb ! a = latest N a"
      using inv a by (auto simp: tables_inv_def negatives_inv_def holds_keys_def holds_latest_def)
    then show ?thesis using filter_on_pair_keys [OF _ h(1,2), of "Iter (ns ! a)"] iter Some by (simp add: negative_samples_def)
  qed
  have p: "distinct (map fst (lt_positive tb ! a))" "map_of (lt_positive tb ! a) = latest P a"
    using inv a by (auto simp: tables_inv_def holds_map_def)
  have pos: "filter (on_pair a i) (positive_samples IterMap tb a :: 'w sample list) = sample_of a i (map_option (Pair 1) (latest P a i))"
    using filter_on_pair_map [OF _ p, of "IterMap (lt_positive tb ! a)"] iter by (simp add: positive_samples_def)
  have r: "distinct (lt_readSet tb ! a)" "set (lt_readSet tb ! a) = dom (latest R a)" "lt_readTimestamps tb ! a = latest R a"
    using inv a by (auto simp: tables_inv_def holds_keys_def holds_latest_def)
  have red: "filter (on_pair a i) (read_samples Iter tb a :: 'w sample list) = sample_of a i (map_option (Pair (-1)) (latest R a i))"
    using filter_on_pair_keys [OF _ r(1,2), of "Iter (lt_readSet tb ! a)"] r(3) iter by (simp add: read_samples_def)
  have "filter (on_pair a i) (create_samples Iter IterMap tb :: 'w sample list) =
    filter (on_pair a i) (negative_samples Iter tb a @ positive_samples IterMap tb a @ read_samples Iter tb a)"
    unfolding create_samples_def len using n a by (intro filter_concat_one other_user) auto
  then show ?thesis using neg pos red PN [of i] R [of i]
    by (auto simp: class_of_def sample_of_def split: option.splits)
qed

end
