(* ===== verification/Master_Load.thy ===== *)
theory Master_Load
  imports Feedback_Load Non_Personalized Data_Proxy Parallel
begin

text \<open>
  \<open>LoadDataFromDatabase\<close> and \<open>loadDataset\<close> of \<open>master/tasks.go\<close>: users, items and feedback are streamed from the data store
  into the data set, the click-through rate data set, the online evaluator and the leaderboards. The jobs of \<open>parallel.Parallel\<close>
  run one after the other here, in the order of the item groups. Logs, spans and metrics are left out.
\<close>

subsection \<open>The feedback of one item at a time\<close>

text \<open>
  The local state of the job that pulls the positive feedback of one group of items: the group, which of its items have had
  feedback, the feedback of the current item and its position. \<open>Push\<close> hands an item and its feedback to all leaderboards.
\<close>

record 'w group_job =
  gj_items :: "item list"
  gj_has :: "bool list"
  gj_feedback :: "'w feedback list"
  gj_index :: nat

type_synonym ('w, 'r) pusher = "item \<Rightarrow> 'w feedback list \<Rightarrow> 'r \<Rightarrow> go_panic + 'r"

definition push_leaderboards :: "('p, 'w::linorder) expr_lib \<Rightarrow> ('w, ('p, 'w) leaderboard list) pusher" where
  "push_leaderboards L i fs ls = p_map (\<lambda>l. lb_Push L l i fs) ls"

text \<open>What is left of an item when its memory has been released.\<close>

definition bare_item :: "item \<Rightarrow> item" where
  "bare_item i = \<lparr>item_ItemId = item_ItemId i, item_IsHidden = False, item_Categories = [], item_Timestamp = 0,
     item_UpdateAt = 0, item_Labels = JNull, item_Comment = ''''\<rparr>"

definition flush_item :: "('w, 'r) pusher \<Rightarrow> 'w group_job \<times> 'r \<Rightarrow> go_panic + 'w group_job \<times> 'r" where
  "flush_item Push = (\<lambda>(j, r).
     if gj_index j < length (gj_has j) \<and> gj_index j < length (gj_items j)
     then p_bind (Push (gj_items j ! gj_index j) (gj_feedback j) r) (\<lambda>r'.
       Inr (j\<lparr>gj_has := (gj_has j)[gj_index j := True],
         gj_items := (gj_items j)[gj_index j := bare_item (gj_items j ! gj_index j)]\<rparr>, r'))
     else Inl IndexOutOfRange)"

definition add_to_item :: "('w, 'r) pusher \<Rightarrow> nat \<Rightarrow> 'w feedback \<Rightarrow> 'w group_job \<times> 'r \<Rightarrow> go_panic + 'w group_job \<times> 'r" where
  "add_to_item Push position f = (\<lambda>(j, r).
     p_bind (if gj_feedback j = [] \<or> fb_ItemId (last (gj_feedback j)) = fb_ItemId f
             then Inr (j\<lparr>gj_feedback := gj_feedback j @ [f]\<rparr>, r)
             else p_bind (flush_item Push (j, r)) (\<lambda>(j', r'). Inr (j'\<lparr>gj_feedback := [f]\<rparr>, r')))
       (\<lambda>(j', r'). Inr (j'\<lparr>gj_index := position\<rparr>, r')))"

definition push_rest :: "('w, 'r) pusher \<Rightarrow> nat \<Rightarrow> 'w group_job \<times> 'r \<Rightarrow> go_panic + 'w group_job \<times> 'r" where
  "push_rest Push k = (\<lambda>(j, r).
     if \<not> gj_has j ! k
     then p_bind (slice_get (gj_items j) k) (\<lambda>i. p_bind (Push i [] r) (\<lambda>r'.
       Inr (j\<lparr>gj_items := (gj_items j)[k := bare_item i]\<rparr>, r')))
     else Inr (j, r))"

definition finish_group :: "('w, 'r) pusher \<Rightarrow> 'w group_job \<times> 'r \<Rightarrow> go_panic + 'w group_job \<times> 'r" where
  "finish_group Push jr =
     p_bind (if gj_feedback (fst jr) \<noteq> [] then flush_item Push jr else Inr jr) (\<lambda>(j, r).
     p_fold (push_rest Push) [0..<length (gj_has j)] (j, r))"

definition start_group :: "item list \<Rightarrow> 'w group_job" where
  "start_group items = \<lparr>gj_items = items, gj_has = replicate (length items) False, gj_feedback = [], gj_index = 0\<rparr>"

subsection \<open>Every item is pushed once, with its own feedback\<close>

text \<open>Equal elements stand together, as the ids do in a stream that is ordered by item.\<close>

fun grouped :: "'a list \<Rightarrow> bool" where
  "grouped [] = True"
| "grouped (x # xs) = (x \<notin> set (dropWhile ((=) x) xs) \<and> grouped xs)"

lemma dropWhile_filter_subset: "set (dropWhile P (filter Q xs)) \<subseteq> set (dropWhile P xs)"
proof (induction xs)
  case (Cons x xs)
  have "set (dropWhile P (filter Q xs)) \<subseteq> set xs" using set_dropWhileD by fastforce
  then show ?case using Cons by auto
qed simp

lemma in_dropWhile_eq: "y \<in> set xs \<Longrightarrow> y \<noteq> x \<Longrightarrow> y \<in> set (dropWhile ((=) x) xs)"
  by (induction xs) auto

lemma dropWhile_after: "y \<in> set xs \<Longrightarrow> y \<noteq> x \<Longrightarrow> z \<in> set ys \<Longrightarrow> z \<in> set (dropWhile ((=) x) (xs @ ys))"
  by (induction xs) auto

lemma grouped_filter: "grouped (map g xs) \<Longrightarrow> grouped (map g (filter Q xs))"
proof (induction xs)
  case (Cons x xs)
  have "set (dropWhile ((=) (g x)) (map g (filter Q xs))) \<subseteq> set (dropWhile ((=) (g x)) (map g xs))"
    using dropWhile_filter_subset [of "\<lambda>y. g x = g y" Q xs] by (auto simp: dropWhile_map o_def)
  then show ?case using Cons by auto
qed simp

lemma grouped_new: "grouped (xs @ y # ys) \<Longrightarrow> xs \<noteq> [] \<Longrightarrow> last xs \<noteq> y \<Longrightarrow> y \<notin> set xs"
proof (induction xs)
  case (Cons x xs)
  show ?case
  proof (cases "xs = []")
    case False
    then have y: "y \<notin> set xs" using Cons by simp
    have "last xs \<in> set xs" "last xs \<noteq> y" using False Cons.prems(3) by simp_all
    have "x \<noteq> y"
    proof
      assume "x = y"
      then have "y \<in> set (dropWhile ((=) x) (xs @ y # ys))"
        using dropWhile_after [OF \<open>last xs \<in> set xs\<close>, of x y "y # ys"] \<open>last xs \<noteq> y\<close> by simp
      then show False using Cons.prems(1) \<open>x = y\<close> by simp
    qed
    then show ?thesis using y by simp
  qed (use Cons.prems in simp)
qed simp

lemma grouped_prefix: "grouped (xs @ ys) \<Longrightarrow> grouped xs"
proof (induction xs)
  case (Cons x xs)
  have "set (dropWhile ((=) x) xs) \<subseteq> set (dropWhile ((=) x) (xs @ ys))" by (induction xs) auto
  then show ?case using Cons by auto
qed simp

text \<open>The item at a position of the group, with its own feedback; and all of them pushed one after the other.\<close>

definition push_of :: "item list \<Rightarrow> 'w feedback list \<Rightarrow> nat \<Rightarrow> item \<times> 'w feedback list" where
  "push_of items fs k = (items ! k, filter (\<lambda>f. fb_ItemId f = item_ItemId (items ! k)) fs)"

definition push_list :: "('w, 'r) pusher \<Rightarrow> (item \<times> 'w feedback list) list \<Rightarrow> 'r \<Rightarrow> go_panic + 'r" where
  "push_list Push evs = p_fold (\<lambda>(i, fs) r. Push i fs r) evs"

lemma push_list_snoc: "push_list Push (evs @ [(i, fs)]) r = p_bind (push_list Push evs r) (Push i fs)"
  by (simp add: push_list_def p_fold_append) (simp add: p_bind_def split: sum.split)

text \<open>The state of the job after the accepted feedback \<open>acc\<close>; \<open>ks\<close> are the positions that have been pushed.\<close>

definition group_inv :: "item list \<Rightarrow> ('w feedback \<Rightarrow> nat) \<Rightarrow> 'w feedback list \<Rightarrow> nat list \<Rightarrow> 'w group_job \<Rightarrow> bool" where
  "group_inv items pos acc ks j \<longleftrightarrow>
     length (gj_items j) = length items \<and> length (gj_has j) = length items \<and>
     distinct ks \<and> set ks \<subseteq> {..<length items} \<and>
     (\<forall>k < length items. (gj_has j ! k \<longleftrightarrow> k \<in> set ks) \<and> (k \<notin> set ks \<longrightarrow> gj_items j ! k = items ! k)) \<and>
     (if acc = [] then gj_feedback j = [] \<and> ks = []
      else gj_index j = pos (last acc) \<and> pos (last acc) \<notin> set ks \<and>
        gj_feedback j = snd (push_of items acc (pos (last acc))) \<and> pos ` set acc = insert (pos (last acc)) (set ks))"

lemma group_inv_start: "group_inv items pos [] [] (start_group items)"
  by (simp add: group_inv_def start_group_def)

definition in_group :: "item list \<Rightarrow> ('w feedback \<Rightarrow> nat) \<Rightarrow> 'w feedback \<Rightarrow> bool" where
  "in_group items pos f \<longleftrightarrow> pos f < length items \<and> item_ItemId (items ! pos f) = fb_ItemId f"

lemma push_of_other:
  "k < length items \<Longrightarrow> item_ItemId (items ! k) \<noteq> fb_ItemId f \<Longrightarrow> push_of items (fs @ [f]) k = push_of items fs k"
  by (simp add: push_of_def)

lemma pos_eq_iff:
  assumes "distinct (map item_ItemId items)" and "k < length items" and "in_group items pos f"
  shows "item_ItemId (items ! k) = fb_ItemId f \<longleftrightarrow> k = pos f"
  using assms nth_eq_iff_index_eq [of "map item_ItemId items" k "pos f"] by (auto simp: in_group_def)

lemma flush_item_eq:
  assumes inv: "group_inv items pos acc ks j" and "acc \<noteq> []" and ok: "\<forall>f \<in> set acc. in_group items pos f"
  shows "\<exists>j'. (\<forall>r. flush_item Push (j, r) =
      p_bind (Push (items ! pos (last acc)) (snd (push_of items acc (pos (last acc)))) r) (\<lambda>r'. Inr (j', r'))) \<and>
    gj_feedback j' = gj_feedback j \<and> length (gj_items j') = length items \<and> length (gj_has j') = length items \<and>
    (\<forall>k < length items. (gj_has j' ! k \<longleftrightarrow> k \<in> insert (pos (last acc)) (set ks)) \<and>
       (k \<notin> insert (pos (last acc)) (set ks) \<longrightarrow> gj_items j' ! k = items ! k))"
proof -
  have k: "pos (last acc) < length items" using assms by (simp add: in_group_def)
  let ?j = "j\<lparr>gj_has := (gj_has j)[gj_index j := True], gj_items := (gj_items j)[gj_index j := bare_item (gj_items j ! gj_index j)]\<rparr>"
  have i: "gj_index j = pos (last acc)" "gj_feedback j = snd (push_of items acc (pos (last acc)))" "gj_items j ! pos (last acc) = items ! pos (last acc)"
    "length (gj_items j) = length items" "length (gj_has j) = length items"
    "\<forall>k < length items. (gj_has j ! k \<longleftrightarrow> k \<in> set ks) \<and> (k \<notin> set ks \<longrightarrow> gj_items j ! k = items ! k)"
    using inv assms(2) k by (auto simp: group_inv_def)
  then have "\<forall>r. flush_item Push (j, r) =
      p_bind (Push (items ! pos (last acc)) (snd (push_of items acc (pos (last acc)))) r) (\<lambda>r'. Inr (?j, r'))"
    using k by (simp add: flush_item_def)
  moreover have "gj_feedback ?j = gj_feedback j \<and> length (gj_items ?j) = length items \<and> length (gj_has ?j) = length items \<and>
    (\<forall>k < length items. (gj_has ?j ! k \<longleftrightarrow> k \<in> insert (pos (last acc)) (set ks)) \<and>
       (k \<notin> insert (pos (last acc)) (set ks) \<longrightarrow> gj_items ?j ! k = items ! k))"
    using i k by (auto simp: nth_list_update)
  ultimately show ?thesis by (intro exI [of _ ?j]) simp
qed

lemma add_to_item_eq:
  assumes inv: "group_inv items pos acc ks j" and ok: "\<forall>f \<in> set (acc @ [f]). in_group items pos f"
    and ids: "distinct (map item_ItemId items)" and g: "grouped (map fb_ItemId (acc @ [f]))"
  shows "\<exists>ks' j'. group_inv items pos (acc @ [f]) (ks @ ks') j' \<and>
    (\<forall>r. add_to_item Push (pos f) f (j, r) = p_bind (push_list Push (map (push_of items acc) ks') r) (\<lambda>r'. Inr (j', r')))"
proof (cases "acc = [] \<or> fb_ItemId (last acc) = fb_ItemId f")
  case True
  have f: "pos f < length items" "item_ItemId (items ! pos f) = fb_ItemId f" using ok by (simp_all add: in_group_def)
  have same: "acc \<noteq> [] \<Longrightarrow> pos (last acc) = pos f"
    using True pos_eq_iff [OF ids, of "pos f" pos "last acc"] ok f by auto
  let ?j = "j\<lparr>gj_feedback := gj_feedback j @ [f], gj_index := pos f\<rparr>"
  have fb: "gj_feedback j = filter (\<lambda>g. fb_ItemId g = fb_ItemId f) acc"
    using inv same f by (cases "acc = []") (auto simp: group_inv_def push_of_def)
  have last: "gj_feedback j = [] \<or> fb_ItemId (last (gj_feedback j)) = fb_ItemId f"
    using last_in_set [of "gj_feedback j"] unfolding fb by auto
  have "group_inv items pos (acc @ [f]) (ks @ []) ?j"
    using inv same f fb by (cases "acc = []") (auto simp: group_inv_def push_of_def)
  moreover have "\<forall>r. add_to_item Push (pos f) f (j, r) = Inr (?j, r)" using last by (simp add: add_to_item_def)
  ultimately show ?thesis by (intro exI [of _ "[]"] exI [of _ ?j]) (simp add: push_list_def)
next
  case False
  then have ne: "acc \<noteq> []" and other: "fb_ItemId (last acc) \<noteq> fb_ItemId f" by simp_all
  have f: "pos f < length items" "item_ItemId (items ! pos f) = fb_ItemId f" using ok by (simp_all add: in_group_def)
  have l: "pos (last acc) < length items" "item_ItemId (items ! pos (last acc)) = fb_ItemId (last acc)"
    using ok ne by (simp_all add: in_group_def)
  obtain j' where j': "\<forall>r. flush_item Push (j, r) =
      p_bind (Push (items ! pos (last acc)) (snd (push_of items acc (pos (last acc)))) r) (\<lambda>r'. Inr (j', r'))"
    "gj_feedback j' = gj_feedback j" "length (gj_items j') = length items" "length (gj_has j') = length items"
    "\<forall>k < length items. (gj_has j' ! k \<longleftrightarrow> k \<in> insert (pos (last acc)) (set ks)) \<and>
       (k \<notin> insert (pos (last acc)) (set ks) \<longrightarrow> gj_items j' ! k = items ! k)"
    using flush_item_eq [OF inv ne, of Push] ok by auto
  let ?j = "j'\<lparr>gj_feedback := [f], gj_index := pos f\<rparr>" and ?k = "pos (last acc)"
  have fb: "gj_feedback j = filter (\<lambda>g. fb_ItemId g = fb_ItemId (last acc)) acc" using inv ne l by (simp add: group_inv_def push_of_def)
  have "last acc \<in> set (gj_feedback j)" unfolding fb using ne by simp
  then have nonempty: "gj_feedback j \<noteq> []" by auto
  have "last (gj_feedback j) \<in> set (gj_feedback j)" using nonempty by (rule last_in_set)
  then have lf: "fb_ItemId (last (gj_feedback j)) = fb_ItemId (last acc)" unfolding fb by simp
  have new: "fb_ItemId f \<notin> set (map fb_ItemId acc)"
    by (rule grouped_new [of _ _ "[]"]) (use g ne other in \<open>simp_all add: last_map\<close>)
  have old: "\<forall>g \<in> set acc. fb_ItemId g \<noteq> fb_ItemId f" using new by (metis imageI set_map)
  then have none: "filter (\<lambda>g. fb_ItemId g = fb_ItemId f) acc = []" by (simp add: filter_empty_conv)
  have ks: "distinct ks" "set ks \<subseteq> {..<length items}" "?k \<notin> set ks" "pos ` set acc = insert ?k (set ks)"
    using inv ne by (simp_all add: group_inv_def)
  have "pos f \<notin> pos ` set acc"
  proof
    assume "pos f \<in> pos ` set acc"
    then obtain g where "g \<in> set acc" "pos g = pos f" by auto
    then have "fb_ItemId g = fb_ItemId f" using ok f by (auto simp: in_group_def)
    then show False using old \<open>g \<in> set acc\<close> by blast
  qed
  then have "group_inv items pos (acc @ [f]) (ks @ [?k]) ?j"
    using j'(3-5) ks f l none by (auto simp: group_inv_def push_of_def)
  moreover have "\<forall>r. add_to_item Push (pos f) f (j, r) = p_bind (push_list Push (map (push_of items acc) [?k]) r) (\<lambda>r'. Inr (?j, r'))"
    using nonempty lf other by (simp add: add_to_item_def j'(1) p_bind_assoc push_list_def push_of_def)
  ultimately show ?thesis by blast
qed

text \<open>The whole stream of a group.\<close>

definition run_group :: "('w, 'r) pusher \<Rightarrow> ('w feedback \<Rightarrow> nat) \<Rightarrow> 'w feedback list \<Rightarrow> 'w group_job \<times> 'r \<Rightarrow> go_panic + 'w group_job \<times> 'r" where
  "run_group Push pos fs = p_fold (\<lambda>f. add_to_item Push (pos f) f) fs"

lemma push_list_append: "push_list Push (xs @ ys) r = p_bind (push_list Push xs r) (push_list Push ys)"
  unfolding push_list_def by (rule p_fold_append)

lemma push_of_unrelated:
  assumes "distinct (map item_ItemId items)" and "set ks \<subseteq> {..<length items}" and "pos f \<notin> set ks" and "in_group items pos f"
  shows "map (push_of items (acc @ [f])) ks = map (push_of items acc) ks"
proof (rule map_cong [OF refl])
  fix k assume k: "k \<in> set ks"
  then have "k < length items" "k \<noteq> pos f" using assms by auto
  then show "push_of items (acc @ [f]) k = push_of items acc k"
    by (intro push_of_other) (use pos_eq_iff [OF assms(1) \<open>k < length items\<close> assms(4)] in simp_all)
qed

lemma run_group_eq:
  assumes "\<forall>f \<in> set acc. in_group items pos f" and ids: "distinct (map item_ItemId items)" and "grouped (map fb_ItemId acc)"
  shows "\<exists>ks j. group_inv items pos acc ks j \<and>
    (\<forall>r. run_group Push pos acc (start_group items, r) = p_bind (push_list Push (map (push_of items acc) ks) r) (\<lambda>r'. Inr (j, r')))"
  using assms(1,3)
proof (induction acc rule: rev_induct)
  case Nil
  have "run_group Push pos [] (start_group items, r) = p_bind (push_list Push (map (push_of items []) []) r) (\<lambda>r'. Inr (start_group items, r'))" for r
    by (simp add: run_group_def push_list_def)
  then show ?case using group_inv_start by blast
next
  case (snoc f acc)
  have "grouped (map fb_ItemId acc)" using grouped_prefix [of "map fb_ItemId acc"] snoc.prems(2) by simp
  then obtain ks j where kj: "group_inv items pos acc ks j"
    "\<forall>r. run_group Push pos acc (start_group items, r) = p_bind (push_list Push (map (push_of items acc) ks) r) (\<lambda>r'. Inr (j, r'))"
    using snoc.IH snoc.prems(1) by auto
  obtain ks' j' where n: "group_inv items pos (acc @ [f]) (ks @ ks') j'"
    "\<forall>r. add_to_item Push (pos f) f (j, r) = p_bind (push_list Push (map (push_of items acc) ks') r) (\<lambda>r'. Inr (j', r'))"
    using add_to_item_eq [OF kj(1) snoc.prems(1) ids snoc.prems(2)] by blast
  have "map (push_of items (acc @ [f])) (ks @ ks') = map (push_of items acc) (ks @ ks')"
    using n(1) snoc.prems(1) by (intro push_of_unrelated [where pos = pos] ids) (simp_all add: group_inv_def)
  then have eq: "map (push_of items (acc @ [f])) (ks @ ks') = map (push_of items acc) ks @ map (push_of items acc) ks'" by simp
  have "run_group Push pos (acc @ [f]) (start_group items, r) =
      p_bind (push_list Push (map (push_of items (acc @ [f])) (ks @ ks')) r) (\<lambda>r'. Inr (j', r'))" for r
  proof -
    have "run_group Push pos (acc @ [f]) (start_group items, r) =
      p_bind (run_group Push pos acc (start_group items, r)) (add_to_item Push (pos f) f)"
      by (simp add: run_group_def p_fold_append) (simp add: p_bind_def split: sum.split)
    then show ?thesis unfolding eq push_list_append p_bind_assoc using kj(2) n(2) by (simp add: p_bind_assoc)
  qed
  then show ?case using n(1) by blast
qed

text \<open>The items without feedback come last.\<close>

lemma push_rest_eq:
  assumes "length (gj_items j) = length items" and "length (gj_has j) = length items" and "distinct qs" and "set qs \<subseteq> {..<length items}"
    and "\<forall>k \<in> set qs. \<not> gj_has j ! k \<longrightarrow> gj_items j ! k = items ! k"
  shows "\<exists>j'. \<forall>r. p_fold (push_rest Push) qs (j, r) =
    p_bind (push_list Push (map (\<lambda>k. (items ! k, [])) (filter (\<lambda>k. \<not> gj_has j ! k) qs)) r) (\<lambda>r'. Inr (j', r'))"
  using assms
proof (induction qs arbitrary: j)
  case Nil
  then show ?case by (intro exI [of _ j]) (simp add: push_list_def)
next
  case (Cons k qs)
  show ?case
  proof (cases "gj_has j ! k")
    case True
    obtain j' where "\<forall>r. p_fold (push_rest Push) qs (j, r) =
      p_bind (push_list Push (map (\<lambda>k. (items ! k, [])) (filter (\<lambda>k. \<not> gj_has j ! k) qs)) r) (\<lambda>r'. Inr (j', r'))"
      using Cons.IH [of j] Cons.prems by auto
    moreover have "push_rest Push k (j, r) = Inr (j, r)" for r using True by (simp add: push_rest_def)
    ultimately show ?thesis using True by (intro exI [of _ j']) simp
  next
    case False
    let ?j = "j\<lparr>gj_items := (gj_items j)[k := bare_item (items ! k)]\<rparr>"
    have "\<forall>m \<in> set qs. \<not> gj_has ?j ! m \<longrightarrow> gj_items ?j ! m = items ! m"
    proof (intro ballI impI)
      fix m assume m: "m \<in> set qs" "\<not> gj_has ?j ! m"
      then have "m \<noteq> k" using Cons.prems(3) by auto
      then show "gj_items ?j ! m = items ! m" using m Cons.prems(5) by simp
    qed
    then obtain j' where j': "\<forall>r. p_fold (push_rest Push) qs (?j, r) =
      p_bind (push_list Push (map (\<lambda>k. (items ! k, [])) (filter (\<lambda>k. \<not> gj_has ?j ! k) qs)) r) (\<lambda>r'. Inr (j', r'))"
      using Cons.IH [of ?j] Cons.prems by auto
    have "k < length items" "gj_items j ! k = items ! k" using Cons.prems False by auto
    then have "push_rest Push k (j, r) = p_bind (Push (items ! k) [] r) (\<lambda>r'. Inr (?j, r'))" for r
      using False Cons.prems(1) by (simp add: push_rest_def slice_get_def)
    then show ?thesis using j' False by (intro exI [of _ j']) (simp add: push_list_def p_bind_assoc)
  qed
qed

text \<open>What has been pushed when the stream is over and the last item is done.\<close>

definition all_heard :: "item list \<Rightarrow> ('w feedback \<Rightarrow> nat) \<Rightarrow> 'w feedback list \<Rightarrow> nat list \<Rightarrow> 'w group_job \<Rightarrow> bool" where
  "all_heard items pos acc ks j \<longleftrightarrow> distinct ks \<and> set ks \<subseteq> {..<length items} \<and> pos ` set acc = set ks \<and>
     length (gj_items j) = length items \<and> length (gj_has j) = length items \<and>
     (\<forall>k < length items. (gj_has j ! k \<longleftrightarrow> k \<in> set ks) \<and> (k \<notin> set ks \<longrightarrow> gj_items j ! k = items ! k))"

lemma finish_flush:
  assumes inv: "group_inv items pos acc ks j" and ok: "\<forall>f \<in> set acc. in_group items pos f"
  shows "\<exists>ls j1. all_heard items pos acc (ks @ ls) j1 \<and> (\<forall>r. (if gj_feedback j \<noteq> [] then flush_item Push (j, r) else Inr (j, r)) =
      p_bind (push_list Push (map (push_of items acc) ls) r) (\<lambda>r'. Inr (j1, r')))"
proof (cases "acc = []")
  case True
  then show ?thesis using inv by (intro exI [of _ "[]"] exI [of _ j]) (auto simp: group_inv_def all_heard_def push_list_def)
next
  case False
  let ?k = "pos (last acc)"
  have k: "?k < length items" "item_ItemId (items ! ?k) = fb_ItemId (last acc)" using ok False by (simp_all add: in_group_def)
  have i: "gj_feedback j = snd (push_of items acc ?k)" "?k \<notin> set ks" "pos ` set acc = insert ?k (set ks)" "distinct ks" "set ks \<subseteq> {..<length items}"
    using inv False by (simp_all add: group_inv_def)
  have "last acc \<in> set (gj_feedback j)" using i(1) k False by (simp add: push_of_def)
  then have ne: "gj_feedback j \<noteq> []" by auto
  obtain j' where j': "\<forall>r. flush_item Push (j, r) =
      p_bind (Push (items ! ?k) (snd (push_of items acc ?k)) r) (\<lambda>r'. Inr (j', r'))"
    "length (gj_items j') = length items" "length (gj_has j') = length items"
    "\<forall>k < length items. (gj_has j' ! k \<longleftrightarrow> k \<in> insert ?k (set ks)) \<and> (k \<notin> insert ?k (set ks) \<longrightarrow> gj_items j' ! k = items ! k)"
    using flush_item_eq [OF inv False ok, of Push] by blast
  have "all_heard items pos acc (ks @ [?k]) j'" using j'(2-4) i k(1) by (simp add: all_heard_def)
  moreover have "(if gj_feedback j \<noteq> [] then flush_item Push (j, r) else Inr (j, r)) =
      p_bind (push_list Push (map (push_of items acc) [?k]) r) (\<lambda>r'. Inr (j', r'))" for r
    using ne j'(1) by (simp add: push_list_def push_of_def p_bind_assoc)
  ultimately show ?thesis by blast
qed

lemma unheard:
  assumes "all_heard items pos acc ks j" and ids: "distinct (map item_ItemId items)" and ok: "\<forall>f \<in> set acc. in_group items pos f"
  shows "filter (\<lambda>k. \<not> gj_has j ! k) [0..<length items] = filter (\<lambda>k. k \<notin> set ks) [0..<length items]"
    and "map (\<lambda>k. (items ! k, [])) (filter (\<lambda>k. k \<notin> set ks) [0..<length items]) =
      map (push_of items acc) (filter (\<lambda>k. k \<notin> set ks) [0..<length items])"
proof -
  show "filter (\<lambda>k. \<not> gj_has j ! k) [0..<length items] = filter (\<lambda>k. k \<notin> set ks) [0..<length items]"
    using assms(1) by (intro filter_cong) (auto simp: all_heard_def)
  have "(items ! k, []) = push_of items acc k" if k: "k < length items" "k \<notin> set ks" for k
  proof -
    have "\<forall>f \<in> set acc. fb_ItemId f \<noteq> item_ItemId (items ! k)"
    proof
      fix f assume f: "f \<in> set acc"
      then have "k \<noteq> pos f" using k(2) assms(1) by (auto simp: all_heard_def)
      then show "fb_ItemId f \<noteq> item_ItemId (items ! k)" using pos_eq_iff [OF ids k(1), of pos f] ok f by simp
    qed
    then show ?thesis by (simp add: push_of_def filter_empty_conv)
  qed
  then show "map (\<lambda>k. (items ! k, [])) (filter (\<lambda>k. k \<notin> set ks) [0..<length items]) =
      map (push_of items acc) (filter (\<lambda>k. k \<notin> set ks) [0..<length items])" by (intro map_cong) auto
qed

text \<open>Every item of the group is pushed exactly once, with its accepted feedback in the order of the stream.\<close>

lemma group_pushes:
  assumes ok: "\<forall>f \<in> set acc. in_group items pos f" and ids: "distinct (map item_ItemId items)" and g: "grouped (map fb_ItemId acc)"
  shows "\<exists>ks j. mset ks = mset [0..<length items] \<and> (\<forall>r. p_bind (run_group Push pos acc (start_group items, r)) (finish_group Push) =
    p_bind (push_list Push (map (push_of items acc) ks) r) (\<lambda>r'. Inr (j, r')))"
proof -
  obtain ks j where kj: "group_inv items pos acc ks j"
    "\<forall>r. run_group Push pos acc (start_group items, r) = p_bind (push_list Push (map (push_of items acc) ks) r) (\<lambda>r'. Inr (j, r'))"
    using run_group_eq [OF ok ids g] by blast
  obtain ls j1 where l: "all_heard items pos acc (ks @ ls) j1"
    "\<forall>r. (if gj_feedback j \<noteq> [] then flush_item Push (j, r) else Inr (j, r)) =
      p_bind (push_list Push (map (push_of items acc) ls) r) (\<lambda>r'. Inr (j1, r'))"
    using finish_flush [OF kj(1) ok, of Push] by blast
  let ?rest = "filter (\<lambda>k. k \<notin> set (ks @ ls)) [0..<length items]"
  have h: "length (gj_items j1) = length items" "length (gj_has j1) = length items" "distinct (ks @ ls)" "set (ks @ ls) \<subseteq> {..<length items}"
    "\<forall>k \<in> set [0..<length items]. \<not> gj_has j1 ! k \<longrightarrow> gj_items j1 ! k = items ! k"
    using l(1) by (auto simp: all_heard_def)
  have sub: "set [0..<length items] \<subseteq> {..<length items}" by auto
  obtain j2 where j2: "\<forall>r. p_fold (push_rest Push) [0..<length items] (j1, r) =
    p_bind (push_list Push (map (push_of items acc) ?rest) r) (\<lambda>r'. Inr (j2, r'))"
    using push_rest_eq [OF h(1,2) distinct_upt sub h(5), of Push] unfolding unheard [OF l(1) ids ok] by blast
  have fin: "finish_group Push (j, r) = p_bind (push_list Push (map (push_of items acc) (ls @ ?rest)) r) (\<lambda>r'. Inr (j2, r'))" for r
    unfolding finish_group_def fst_conv l(2) [rule_format] p_bind_assoc map_append push_list_append
    using j2 h(2) by (simp add: p_bind_assoc)
  have "p_bind (run_group Push pos acc (start_group items, r)) (finish_group Push) =
    p_bind (push_list Push (map (push_of items acc) (ks @ ls @ ?rest)) r) (\<lambda>r'. Inr (j2, r'))" for r
    unfolding kj(2) [rule_format] p_bind_assoc p_bind_simps fin map_append [of _ ks] push_list_append [of _ "map _ ks"] by (rule refl)
  moreover have "mset (ks @ ls @ ?rest) = mset [0..<length items]"
  proof (rule set_eq_iff_mset_eq_distinct [THEN iffD1])
    show "distinct (ks @ ls @ ?rest)" using h(3) by auto
    show "set (ks @ ls @ ?rest) = set [0..<length items]" using h(4) by auto
  qed simp
  ultimately show ?thesis by blast
qed

end
