(* ===== verification/Load_Data.thy ===== *)
theory Load_Data
  imports Master_Load
begin

text \<open>
  \<open>LoadDataFromDatabase\<close> (\<open>master/tasks.go\<close>) as a whole. The clock stands still during a load. The jobs of the
  item groups run one after the other, in the order of the groups, and an error or a panic of one ends the load; the code lets
  the others finish and then drops what they did. Estimated sizes are only used for allocation, but for the rows of the data set.
\<close>

subsection \<open>Environment and effects\<close>

text \<open>
  What a load takes from the run time and from libraries: the time of the clock and of the configuration's clock, the calendar, the
  conversions of numbers, the order that sorting by item id gives, the orders in which sets and maps are visited.
\<close>

record 'w load_env =
  le_Now :: time
  le_ConfigNow :: time
  le_AddDays :: "time \<Rightarrow> int \<Rightarrow> time"
  le_FromAny :: "json list \<Rightarrow> 16 word list option"
  le_Float :: "string \<Rightarrow> 'w"
  le_to16 :: "string \<Rightarrow> 16 word"
  le_Show :: "'w \<Rightarrow> string"
  le_SortItems :: "item list \<Rightarrow> item list"
  le_Iter :: "i32 list \<Rightarrow> i32 list"
  le_IterMap :: "(i32 \<times> time) list \<Rightarrow> (i32 \<times> time) list"
  le_IterDims :: "(nat \<Rightarrow> nat) \<Rightarrow> nat list"
  le_NumJobs :: int

text \<open>A step of the load: it may panic or end with an error, and uses the store.\<close>

type_synonym ('s, 'a) load = "'s \<Rightarrow> go_panic + (go_error + 'a) \<times> 's"

definition load_ok :: "'a \<Rightarrow> ('s, 'a) load" where
  "load_ok x = (\<lambda>s. Inr (Inr x, s))"

definition load_bind :: "('s, 'a) load \<Rightarrow> ('a \<Rightarrow> ('s, 'b) load) \<Rightarrow> ('s, 'b) load" where
  "load_bind m f = (\<lambda>s. p_bind (m s) (\<lambda>(r, s'). case r of Inl e \<Rightarrow> Inr (Inl e, s') | Inr x \<Rightarrow> f x s'))"

definition load_call :: "('s \<Rightarrow> (go_error + 'a) \<times> 's) \<Rightarrow> ('s, 'a) load" where
  "load_call f = (\<lambda>s. Inr (f s))"

definition load_run :: "go_panic + 'a \<Rightarrow> ('s, 'a) load" where
  "load_run p = (\<lambda>s. p_bind p (\<lambda>x. Inr (Inr x, s)))"

fun load_fold :: "('a \<Rightarrow> 'x \<Rightarrow> ('s, 'x) load) \<Rightarrow> 'a list \<Rightarrow> 'x \<Rightarrow> ('s, 'x) load" where
  "load_fold f [] x = load_ok x"
| "load_fold f (y # ys) x = load_bind (f y x) (load_fold f ys)"

text \<open>A stream is consumed batch by batch; its error is looked at afterwards, when \<open>finish\<close> has been done.\<close>

definition load_stream :: "('s \<Rightarrow> ('a list list \<times> go_error option) \<times> 's) \<Rightarrow> ('a \<Rightarrow> 'x \<Rightarrow> go_panic + 'x) \<Rightarrow> ('x \<Rightarrow> go_panic + 'x) \<Rightarrow> 'x \<Rightarrow> ('s, 'x) load" where
  "load_stream stream step finish x = (\<lambda>s.
     case stream s of ((batches, e), s') \<Rightarrow>
       p_bind (p_bind (p_fold step (concat batches) x) finish) (\<lambda>x'. Inr (case e of None \<Rightarrow> Inr x' | Some e' \<Rightarrow> Inl e', s')))"

subsection \<open>Users and items\<close>

definition batchSize :: int where
  "batchSize = 10000"

definition load_user :: "'w::one load_env \<Rightarrow> user \<Rightarrow> dataset \<times> 'w label_state \<Rightarrow> go_panic + dataset \<times> 'w label_state" where
  "load_user E user = (\<lambda>(d, ls).
     p_bind (AddUser (le_FromAny E) user d) (\<lambda>d'.
     p_bind (ConvertLabels (le_Float E) (user_Labels user)) (\<lambda>features.
     p_bind (add_features (fd_Id (dt_userDict d') (user_UserId user)) features ls) (\<lambda>ls'. Inr (d', ls')))))"

definition load_item :: "'w::one load_env \<Rightarrow> item \<Rightarrow> dataset \<times> 'w label_state \<times> embedding_state \<times> item list \<Rightarrow>
    go_panic + dataset \<times> 'w label_state \<times> embedding_state \<times> item list" where
  "load_item E item = (\<lambda>(d, ls, es, items).
     p_bind (ConvertLabels (le_Float E) (item_Labels item)) (\<lambda>labels.
     let item' = item\<lparr>item_Labels := ConvertEmbeddingLabels (le_to16 E) (item_Labels item)\<rparr> in
     p_bind (AddItem (le_FromAny E) item' d) (\<lambda>d'.
     let itemIndex = fd_Id (dt_itemDict d') (item_ItemId item') in
     p_bind (add_features itemIndex labels ls) (\<lambda>ls'.
     p_bind (add_embeddings itemIndex (ConvertEmbeddings (le_to16 E) (item_Labels item')) es) (\<lambda>es'.
     Inr (d', ls', es', items @ [item']))))))"

text \<open>The place of every item in its group.\<close>

definition place_items :: "dataset \<Rightarrow> nat \<Rightarrow> item list \<Rightarrow> nat list \<Rightarrow> go_panic + nat list" where
  "place_items d n g = p_fold (\<lambda>(k, item). update_at (fd_Id (dt_itemDict d) (item_ItemId item)) (\<lambda>_. k)) (enumerate n g)"

definition item_positions :: "dataset \<Rightarrow> item list list \<Rightarrow> go_panic + nat list" where
  "item_positions d groups = p_fold (place_items d 0) groups (replicate (CountItems d) 0)"

subsection \<open>Feedback\<close>

definition group_options :: "'w load_env \<Rightarrow> time option \<Rightarrow> 'w fb_expr list \<Rightarrow> bool \<Rightarrow> item list \<Rightarrow> go_panic + 'w scan_option list" where
  "group_options E limit types ordered g =
     (if g = [] then Inl IndexOutOfRange
      else Inr ([WithBeginItemId (item_ItemId (hd g)), WithEndItemId (item_ItemId (last g))] @
        (case limit of None \<Rightarrow> [] | Some t \<Rightarrow> [WithBeginTime t]) @
        [WithEndTime (le_ConfigNow E), WithFeedbackTypes types] @ (if ordered then [WithOrderByItemId] else [])))"

definition negative_step :: "'w::linorder load_env \<Rightarrow> dataset \<Rightarrow> 'w feedback \<Rightarrow> load_tables \<times> 'w online_evaluator \<Rightarrow>
    go_panic + load_tables \<times> 'w online_evaluator" where
  "negative_step E d f = (\<lambda>(tb, ev).
     case known_pair d f of
       None \<Rightarrow> Inr (tb, ev)
     | Some (u, i) \<Rightarrow> p_bind (record_negative u i (fb_Timestamp f) tb) (\<lambda>tb'.
         Inr (tb', oe_Add (le_Show E) (fb_FeedbackType f) (fb_Value f) u i (fb_Timestamp f) ev)))"

type_synonym ('w, 'r) positive_state = "dataset \<times> load_tables \<times> 'w online_evaluator \<times> 'w group_job \<times> 'r"

definition positive_step :: "'w::linorder load_env \<Rightarrow> ('w, 'r) pusher \<Rightarrow> nat list \<Rightarrow> 'w feedback \<Rightarrow> ('w, 'r) positive_state \<Rightarrow> go_panic + ('w, 'r) positive_state" where
  "positive_step E Push positions f = (\<lambda>(d, tb, ev, jr).
     case known_pair d f of
       None \<Rightarrow> Inr (d, tb, ev, jr)
     | Some (u, i) \<Rightarrow> p_bind (record_positive u i (fb_Timestamp f) tb) (\<lambda>(tb', accepted).
         if \<not> accepted then Inr (d, tb', ev, jr)
         else p_bind (index_i32 positions i) (\<lambda>position.
           p_bind (add_to_item Push position f jr) (\<lambda>jr'.
           p_bind (AddFeedback (fb_UserId f) (fb_ItemId f) (fb_Timestamp f) d) (\<lambda>d'.
           Inr (d', tb', oe_Add (le_Show E) (fb_FeedbackType f) (fb_Value f) u i (fb_Timestamp f) ev, jr'))))))"

definition positive_finish :: "('w, 'r) pusher \<Rightarrow> ('w, 'r) positive_state \<Rightarrow> go_panic + ('w, 'r) positive_state" where
  "positive_finish Push = (\<lambda>(d, tb, ev, jr). p_bind (finish_group Push jr) (\<lambda>jr'. Inr (d, tb, ev, jr')))"

definition read_step :: "'w::linorder load_env \<Rightarrow> dataset \<Rightarrow> 'w feedback \<Rightarrow> load_tables \<times> 'w online_evaluator \<Rightarrow>
    go_panic + load_tables \<times> 'w online_evaluator" where
  "read_step E d f = (\<lambda>(tb, ev).
     case known_pair d f of
       None \<Rightarrow> Inr (tb, ev)
     | Some (u, i) \<Rightarrow> p_bind (record_read u i (fb_Timestamp f) tb) (\<lambda>(tb', accepted).
         Inr (tb', if accepted then oe_Add (le_Show E) (fb_FeedbackType f) (fb_Value f) u i (fb_Timestamp f) ev else ev)))"

text \<open>The three jobs of a group.\<close>

definition negative_job :: "'w::linorder load_env \<Rightarrow> ('s, 'w) database \<Rightarrow> time option \<Rightarrow> 'w fb_expr list \<Rightarrow> dataset \<Rightarrow> item list \<Rightarrow>
    load_tables \<times> 'w online_evaluator \<Rightarrow> ('s, load_tables \<times> 'w online_evaluator) load" where
  "negative_job E db limit types d g x =
     load_bind (load_run (group_options E limit types True g)) (\<lambda>opts.
     load_stream (\<lambda>s. db_GetFeedbackStream db s batchSize opts) (negative_step E d) Inr x)"

definition positive_job :: "'w::linorder load_env \<Rightarrow> ('s, 'w) database \<Rightarrow> ('w, 'r) pusher \<Rightarrow> time option \<Rightarrow> 'w fb_expr list \<Rightarrow> nat list \<Rightarrow> item list \<Rightarrow>
    dataset \<times> load_tables \<times> 'w online_evaluator \<times> 'r \<Rightarrow> ('s, dataset \<times> load_tables \<times> 'w online_evaluator \<times> 'r) load" where
  "positive_job E db Push limit types positions g = (\<lambda>(d, tb, ev, r).
     load_bind (load_run (group_options E limit types True g)) (\<lambda>opts.
     load_bind (load_stream (\<lambda>s. db_GetFeedbackStream db s batchSize opts) (positive_step E Push positions) (positive_finish Push)
       (d, tb, ev, start_group g, r)) (\<lambda>(d', tb', ev', j, r'). load_ok (d', tb', ev', r'))))"

definition read_job :: "'w::linorder load_env \<Rightarrow> ('s, 'w) database \<Rightarrow> time option \<Rightarrow> 'w fb_expr list \<Rightarrow> dataset \<Rightarrow> item list \<Rightarrow>
    load_tables \<times> 'w online_evaluator \<Rightarrow> ('s, load_tables \<times> 'w online_evaluator) load" where
  "read_job E db limit types d g x =
     load_bind (load_run (group_options E limit types False g)) (\<lambda>opts.
     load_stream (\<lambda>s. db_GetFeedbackStream db s batchSize opts) (read_step E d) Inr x)"

subsection \<open>The whole load\<close>

text \<open>Step 6: the samples and the features become the click-through rate data set.\<close>

definition embedding_dims :: "'w load_env \<Rightarrow> embedding_state \<Rightarrow> nat list" where
  "embedding_dims E es = map (\<lambda>c. commonest (le_IterDims E c) c) (es_dims es)"

definition ctr_of :: "'w::{one, uminus} load_env \<Rightarrow> dataset \<Rightarrow> 'w label_state \<Rightarrow> 'w label_state \<Rightarrow> embedding_state \<Rightarrow> load_tables \<Rightarrow> go_panic + 'w ctr_dataset" where
  "ctr_of E d userLabels itemLabels es tb =
     p_bind (p_map (clear_others (embedding_dims E es)) (es_rows es)) (\<lambda>embeddings.
     let samples = create_samples (le_Iter E) (le_IterMap E) tb; counts = count_samples (le_Iter E) (le_IterMap E) tb in
     Inr \<lparr>cd_Index = ub_Build (NewUnifiedMapIndexBuilder\<lparr>ub_ItemIndex := fd_ToIndex (dt_itemDict d), ub_UserIndex := fd_ToIndex (dt_userDict d),
            ub_ItemLabelIndex := ls_index itemLabels, ub_UserLabelIndex := ls_index userLabels\<rparr>),
          cd_UserLabels = ls_rows userLabels, cd_ItemLabels = ls_rows itemLabels, cd_ContextLabels = None,
          cd_Users = map (\<lambda>(u, i, y, t). u) samples, cd_Items = map (\<lambda>(u, i, y, t). i) samples, cd_Target = map (\<lambda>(u, i, y, t). y) samples,
          cd_Timestamps = map (\<lambda>(u, i, y, t). t) samples,
          cd_ItemEmbeddings = embeddings, cd_ItemEmbeddingDimension = embedding_dims E es, cd_ItemEmbeddingIndex = es_index es,
          cd_PositiveCount = fst counts, cd_NegativeCount = snd counts\<rparr>)"

definition days_ago :: "'w load_env \<Rightarrow> nat \<Rightarrow> time option" where
  "days_ago E ttl = (if ttl > 0 then Some (le_AddDays E (le_Now E) (- int ttl)) else None)"

definition LoadDataFromDatabase :: "'w::{linorder, one, uminus} load_env \<Rightarrow> ('s, 'w) database \<Rightarrow> ('w, 'r) pusher \<Rightarrow>
    'w fb_expr list \<Rightarrow> 'w fb_expr list \<Rightarrow> 'w fb_expr list \<Rightarrow> nat \<Rightarrow> nat \<Rightarrow> 'w online_evaluator \<Rightarrow> 'r \<Rightarrow>
    ('s, 'w ctr_dataset \<times> dataset \<times> 'w online_evaluator \<times> 'r) load" where
  "LoadDataFromDatabase E db Push posTypes negTypes readTypes itemTTL feedbackTTL ev r =
     load_bind (load_call (dst_CountUsers (db_Store db))) (\<lambda>numUsers.
     load_bind (load_call (dst_CountItems (db_Store db))) (\<lambda>numItems.
     load_bind (load_call (db_CountFeedback db)) (\<lambda>numFeedback.
     load_bind (load_run (NewDataset (le_Now E) numUsers numItems)) (\<lambda>d0.
     load_bind (load_stream (\<lambda>s. db_GetUserStream db s batchSize) (load_user E) Inr (d0, no_labels)) (\<lambda>(d1, userLabels).
     load_bind (load_stream (\<lambda>s. db_GetItemStream db s batchSize (days_ago E itemTTL)) (load_item E) Inr (d1, no_labels, no_embeddings, []))
       (\<lambda>(d2, itemLabels, es, items).
     load_bind (load_run (Split (le_SortItems E items) (le_NumJobs E))) (\<lambda>groups.
     load_bind (load_run (item_positions d2 groups)) (\<lambda>positions.
     load_bind (if negTypes \<noteq> []
         then load_fold (negative_job E db (days_ago E feedbackTTL) negTypes d2) groups (new_tables True (CountUsers d2), ev)
         else load_ok (new_tables False (CountUsers d2), ev)) (\<lambda>(tb1, ev1).
     load_bind (load_fold (positive_job E db Push (days_ago E feedbackTTL) posTypes positions) groups (d2, tb1, ev1, r)) (\<lambda>(d3, tb2, ev2, r').
     load_bind (load_fold (read_job E db (days_ago E feedbackTTL) readTypes d3) groups (tb2, ev2)) (\<lambda>(tb3, ev3).
     load_bind (load_run (ctr_of E d3 userLabels itemLabels es tb3)) (\<lambda>ctr.
     load_ok (ctr, d3, ev3, r')))))))))))))"

end
