(* ===== verification/Load_Steps.thy ===== *)
theory Load_Steps
  imports Load_Data "HOL-Library.Char_ord" "HOL-Library.List_Lexorder"
begin

text \<open>
  The steps of \<open>LoadDataFromDatabase\<close> one by one, over a store that answers its queries: labels and embeddings find their rows,
  users and items get their numbers, the streams of feedback fill the tables, the groups of items cover the ids.
\<close>

subsection \<open>Labels and embeddings find their rows\<close>

definition label_rows :: "nat \<Rightarrow> 'w label_state \<Rightarrow> bool" where
  "label_rows m ls \<longleftrightarrow> length (ls_rows ls) = m \<and> (\<forall>name k. ls_first ls name = Some k \<longrightarrow> in_rows k m)"

lemma in_rows_0: "in_rows k m \<Longrightarrow> in_rows 0 m"
  by (simp add: in_rows_def)

lemma add_feature_rows:
  assumes "label_rows m ls" and "in_rows u m"
  shows "\<exists>ls'. add_feature u f ls = Inr ls' \<and> label_rows m ls'"
proof -
  let ?first = "if ls_count ls (fst f) = 0 then (ls_first ls)(fst f \<mapsto> u) else ls_first ls"
  have first: "?first name = Some k \<Longrightarrow> in_rows k m" for name k
    using assms by (auto simp: label_rows_def split: if_splits)
  then have k: "in_rows (case ?first (fst f) of None \<Rightarrow> 0 | Some k \<Rightarrow> k) m"
    using in_rows_0 [OF assms(2)] by (cases "?first (fst f)") simp_all
  have len: "length (ls_rows ls) = m" using assms by (simp add: label_rows_def)
  show ?thesis using first k assms(2) len by (auto simp: add_feature_def Let_def append_at_in label_rows_def)
qed

lemma add_features_rows:
  assumes "label_rows m ls" and "Suc m < 2147483648"
  shows "\<exists>ls'. add_features (of_nat m) fs ls = Inr ls' \<and> label_rows (Suc m) ls'"
proof -
  let ?ls = "ls\<lparr>ls_rows := (ls_rows ls @ [[]])[m := []]\<rparr>"
  have u: "in_rows (of_nat m) (Suc m)" using assms(2) by (simp add: in_rows_def)
  have more: "in_rows k m \<Longrightarrow> in_rows k (Suc m)" for k by (simp add: in_rows_def)
  have "length (ls_rows ?ls) = Suc m" using assms(1) by (simp add: label_rows_def)
  moreover have "\<forall>name k. ls_first ?ls name = Some k \<longrightarrow> in_rows k (Suc m)" using assms(1) more by (simp add: label_rows_def)
  ultimately have "label_rows (Suc m) ?ls" unfolding label_rows_def by blast
  moreover have "\<exists>ls'. p_fold (add_feature (of_nat m)) fs s = Inr ls' \<and> label_rows (Suc m) ls'" if "label_rows (Suc m) s" for s
    using that
  proof (induction fs arbitrary: s)
    case (Cons f fs)
    obtain s1 where s1: "add_feature (of_nat m) f s = Inr s1" "label_rows (Suc m) s1" using add_feature_rows [OF Cons.prems u] by blast
    from Cons.IH [OF s1(2)] show ?case by (simp add: s1(1))
  qed simp
  moreover have "add_features (of_nat m) fs ls = p_fold (add_feature (of_nat m)) fs ?ls"
    using assms by (simp add: add_features_def label_rows_def Let_def)
  ultimately show ?thesis by simp
qed

definition embedding_rows :: "nat \<Rightarrow> embedding_state \<Rightarrow> bool" where
  "embedding_rows m es \<longleftrightarrow> length (es_rows es) = m \<and> (\<forall>r \<in> set (es_rows es). length r \<le> length (es_dims es))"

lemma add_embedding_rows: "embedding_rows m es \<Longrightarrow> r < m \<Longrightarrow> embedding_rows m (add_embedding r e es)"
proof -
  assume m: "embedding_rows m es" "r < m"
  let ?ix = "idx_Add (es_index es) (fst e)"
  let ?k = "nat (sint (idx_ToNumber ?ix (fst e)))"
  let ?dims = "if ?k < length (es_dims es) then es_dims es else put_at (\<lambda>n. 0) ?k (\<lambda>n. 0) (es_dims es)"
  have dims: "length (es_dims (add_embedding r e es)) = length ?dims" "es_rows (add_embedding r e es) = (es_rows es)[r := put_at [] ?k (snd e) (es_rows es ! r)]"
    by (simp_all add: add_embedding_def Let_def)
  have old: "length (es_dims es) \<le> length ?dims" and k: "?k < length ?dims" by (simp_all add: put_at_def)
  have "\<forall>v \<in> set (es_rows es). length v \<le> length ?dims" using m(1) old by (meson embedding_rows_def order_trans)
  moreover have "length (es_rows es ! r) \<le> length ?dims" using calculation m by (simp add: embedding_rows_def)
  then have "length (put_at [] ?k (snd e) (es_rows es ! r)) \<le> length ?dims" using k by (auto simp: put_at_def)
  ultimately have "\<forall>v \<in> set ((es_rows es)[r := put_at [] ?k (snd e) (es_rows es ! r)]). length v \<le> length ?dims"
    using set_update_subset_insert [of "es_rows es" r "put_at [] ?k (snd e) (es_rows es ! r)"] by blast
  then show ?thesis using m(1) by (simp add: embedding_rows_def dims del: if_split)
qed

lemma add_embeddings_rows:
  assumes "embedding_rows m es" and "Suc m < 2147483648"
  shows "\<exists>es'. add_embeddings (of_nat m) xs es = Inr es' \<and> embedding_rows (Suc m) es'"
proof -
  let ?es = "es\<lparr>es_rows := (es_rows es @ [[]])[m := []]\<rparr>"
  have "embedding_rows (Suc m) (foldl (\<lambda>s e. add_embedding m e s) s xs)" if "embedding_rows (Suc m) s" for s
    using that by (induction xs arbitrary: s) (simp_all add: add_embedding_rows)
  moreover have "embedding_rows (Suc m) ?es" using assms(1) by (auto simp: embedding_rows_def)
  ultimately show ?thesis using assms by (simp add: add_embeddings_def embedding_rows_def Let_def)
qed

subsection \<open>Users and items are loaded\<close>

definition labels_load :: "'w::one load_env \<Rightarrow> json \<Rightarrow> bool" where
  "labels_load E labels \<longleftrightarrow> (\<exists>fs. ConvertLabels (le_Float E) labels = Inr fs)"

lemma fd_Id_last: "freq_dict_ok fd \<Longrightarrow> fd_is fd = xs @ [x] \<Longrightarrow> fd_Id fd x = of_nat (length xs)"
  using freq_dict.number_in [of fd "length xs"] by simp

lemma load_users_ok:
  assumes "dataset_inv us [] n [] d" and "label_rows (length us) ls"
    and "\<forall>user \<in> set users. labels_load E (user_Labels user)" and "distinct (us @ map user_UserId users)"
    and "n + sum_list (map (\<lambda>user. label_size (user_Labels user)) users) \<le> 2147483648" and "length us + length users < 2147483648"
  shows "\<exists>d' ls' n'. p_fold (load_user E) users (d, ls) = Inr (d', ls') \<and> dataset_inv (us @ map user_UserId users) [] n' [] d' \<and>
    n' = n + sum_list (map (\<lambda>user. label_size (user_Labels user)) users)"
  using assms
proof (induction users arbitrary: us n d ls)
  case (Cons user users)
  obtain d1 where d1: "AddUser (le_FromAny E) user d = Inr d1" "dataset_inv (us @ [user_UserId user]) [] (n + label_size (user_Labels user)) [] d1"
    using dataset_inv_user [OF Cons.prems(1), of user "le_FromAny E"] Cons.prems(4,5) by auto
  have id: "fd_Id (dt_userDict d1) (user_UserId user) = of_nat (length us)"
    by (rule fd_Id_last) (use d1(2) in \<open>simp_all add: dataset_inv_def\<close>)
  obtain fs where fs: "ConvertLabels (le_Float E) (user_Labels user) = Inr fs" using Cons.prems(3) by (auto simp: labels_load_def)
  obtain ls1 where ls1: "add_features (of_nat (length us)) fs ls = Inr ls1" "label_rows (length (us @ [user_UserId user])) ls1"
    using add_features_rows [OF Cons.prems(2), of fs] Cons.prems(6) by auto
  have step: "load_user E user (d, ls) = Inr (d1, ls1)" using d1(1) fs ls1(1) id by (simp add: load_user_def)
  from Cons.IH [OF d1(2) ls1(2)] Cons.prems(3-6) show ?case by (simp add: step add.assoc)
qed simp

definition loaded_item :: "'w load_env \<Rightarrow> item \<Rightarrow> item" where
  "loaded_item E item = item\<lparr>item_Labels := ConvertEmbeddingLabels (le_to16 E) (item_Labels item)\<rparr>"

lemma loaded_item_id [simp]: "item_ItemId (loaded_item E item) = item_ItemId item"
  by (simp add: loaded_item_def)

lemma load_items_ok:
  assumes "dataset_inv us is n [] d" and "label_rows (length is) ls" and "embedding_rows (length is) es"
    and "\<forall>item \<in> set items. labels_load E (item_Labels item)" and "distinct (is @ map item_ItemId items)"
    and "n + sum_list (map (\<lambda>item. label_size (item_Labels (loaded_item E item))) items) \<le> 2147483648" and "length is + length items < 2147483648"
  shows "\<exists>d' ls' es' n'. p_fold (load_item E) items (d, ls, es, out) = Inr (d', ls', es', out @ map (loaded_item E) items) \<and>
    dataset_inv us (is @ map item_ItemId items) n' [] d' \<and> embedding_rows (length is + length items) es'"
  using assms
proof (induction items arbitrary: "is" n d ls es out)
  case (Cons item items)
  let ?item = "loaded_item E item"
  obtain d1 where d1: "AddItem (le_FromAny E) ?item d = Inr d1" "dataset_inv us (is @ [item_ItemId ?item]) (n + label_size (item_Labels ?item)) [] d1"
    using dataset_inv_item [OF Cons.prems(1), of ?item "le_FromAny E"] Cons.prems(5-7) by auto
  have id: "fd_Id (dt_itemDict d1) (item_ItemId ?item) = of_nat (length is)"
    by (rule fd_Id_last) (use d1(2) in \<open>simp_all add: dataset_inv_def\<close>)
  obtain fs where fs: "ConvertLabels (le_Float E) (item_Labels item) = Inr fs" using Cons.prems(4) by (auto simp: labels_load_def)
  have room: "Suc (length is) < 2147483648" using Cons.prems(7) by simp
  obtain ls1 where ls1: "add_features (of_nat (length is)) fs ls = Inr ls1" "label_rows (length (is @ [item_ItemId ?item])) ls1"
    using add_features_rows [OF Cons.prems(2) room, of fs] by auto
  obtain es1 where es1: "add_embeddings (of_nat (length is)) (ConvertEmbeddings (le_to16 E) (item_Labels ?item)) es = Inr es1"
    "embedding_rows (length (is @ [item_ItemId ?item])) es1"
    using add_embeddings_rows [OF Cons.prems(3) room] by fastforce
  have step: "load_item E item (d, ls, es, out) = Inr (d1, ls1, es1, out @ [?item])"
    using d1(1) fs ls1(1) es1(1) id by (simp add: load_item_def Let_def loaded_item_def [symmetric])
  from Cons.IH [OF d1(2) ls1(2) es1(2), of "out @ [?item]"] Cons.prems(4-7) show ?case by (simp add: step add.assoc)
qed auto

subsection \<open>Known users and items\<close>

definition index_of :: "string list \<Rightarrow> string \<Rightarrow> i32" where
  "index_of xs x = of_nat (length (takeWhile (\<lambda>y. y \<noteq> x) xs))"

definition pair_in :: "string list \<Rightarrow> string list \<Rightarrow> 'w feedback \<Rightarrow> (i32 \<times> i32) option" where
  "pair_in us is f = (if fb_UserId f \<in> set us \<and> fb_ItemId f \<in> set is then Some (index_of us (fb_UserId f), index_of is (fb_ItemId f)) else None)"

lemma takeWhile_nth: "x \<in> set xs \<Longrightarrow> length (takeWhile (\<lambda>y. y \<noteq> x) xs) < length xs \<and> xs ! length (takeWhile (\<lambda>y. y \<noteq> x) xs) = x"
  by (induction xs) auto

lemma takeWhile_index: "distinct xs \<Longrightarrow> k < length xs \<Longrightarrow> length (takeWhile (\<lambda>y. y \<noteq> xs ! k) xs) = k"
  using takeWhile_nth [of "xs ! k" xs] nth_eq_iff_index_eq by fastforce

lemma fd_Id_index: "freq_dict_ok fd \<Longrightarrow> x \<in> set (fd_is fd) \<Longrightarrow> fd_Id fd x = index_of (fd_is fd) x"
  using freq_dict.number_in [of fd] takeWhile_nth unfolding index_of_def by metis

lemma index_of_in: "x \<in> set xs \<Longrightarrow> length xs < 2147483648 \<Longrightarrow> in_rows (index_of xs x) (length xs) \<and> xs ! row (index_of xs x) = x"
  using takeWhile_nth [of x xs] by (simp add: index_of_def in_rows_def row_def)

lemma index_of_nth: "distinct xs \<Longrightarrow> k < length xs \<Longrightarrow> index_of xs (xs ! k) = of_nat k"
  by (simp add: index_of_def takeWhile_index)

lemma index_of_known: "x \<in> set xs \<Longrightarrow> length xs < 2147483648 \<Longrightarrow> index_of xs x \<noteq> NotId"
proof
  assume "x \<in> set xs" "length xs < 2147483648" "index_of xs x = NotId"
  then have "in_rows NotId (length xs)" using index_of_in [of x xs] by simp
  then show False by (simp add: NotId_def in_rows_def)
qed

lemma fd_Id_not: "freq_dict_ok fd \<Longrightarrow> x \<notin> set (fd_is fd) \<Longrightarrow> fd_Id fd x = NotId"
  using freq_dict.number_out [of fd x] by (simp add: NotId_def)

lemma known_pair_in:
  assumes "dataset_inv us is n ps d" and "length us < 2147483648" and "length is < 2147483648"
  shows "known_pair d f = pair_in us is f"
proof -
  have d: "freq_dict_ok (dt_userDict d)" "freq_dict_ok (dt_itemDict d)" "fd_is (dt_userDict d) = us" "fd_is (dt_itemDict d) = is"
    using assms(1) by (simp_all add: dataset_inv_def)
  show ?thesis using fd_Id_not [OF d(1)] fd_Id_not [OF d(2)] fd_Id_index [OF d(1)] fd_Id_index [OF d(2)]
      index_of_known [of _ us] index_of_known [of _ "is"] assms(2,3)
    by (auto simp: known_pair_def pair_in_def d(3,4) Let_def)
qed

definition obs_of :: "string list \<Rightarrow> string list \<Rightarrow> 'w feedback list \<Rightarrow> obs list" where
  "obs_of us is fs = concat (map (\<lambda>f. case pair_in us is f of None \<Rightarrow> [] | Some (u, i) \<Rightarrow> [(u, i, fb_Timestamp f)]) fs)"

lemma obs_of_simps [simp]:
  "obs_of us is [] = []"
  "obs_of us is (f # fs) = (case pair_in us is f of None \<Rightarrow> [] | Some (u, i) \<Rightarrow> [(u, i, fb_Timestamp f)]) @ obs_of us is fs"
  by (simp_all add: obs_of_def)

lemma set_obs_of: "set (obs_of us is fs) = {(u, i, t). \<exists>f \<in> set fs. pair_in us is f = Some (u, i) \<and> fb_Timestamp f = t}"
  by (induction fs) (auto split: option.splits)

lemma latest_set:
  assumes "set ps = set qs"
  shows "latest ps = latest qs"
proof (intro ext)
  fix a i
  have "set (times_of ps a i) = set (times_of qs a i)" using assms unfolding times_of_def set_map set_filter by simp
  moreover from this have "times_of ps a i = [] \<longleftrightarrow> times_of qs a i = []" by (metis set_empty)
  ultimately show "latest ps a i = latest qs a i" by (simp add: latest_def max_time_def)
qed

lemma pair_in_rows:
  "pair_in us is f = Some (u, i) \<Longrightarrow> length us < 2147483648 \<Longrightarrow> length is < 2147483648 \<Longrightarrow>
   in_rows u (length us) \<and> in_rows i (length is) \<and> us ! row u = fb_UserId f \<and> is ! row i = fb_ItemId f"
  using index_of_in [of "fb_UserId f" us] index_of_in [of "fb_ItemId f" "is"] by (auto simp: pair_in_def split: if_splits)

subsection \<open>Streams of feedback\<close>

text \<open>The tables after the negative feedback of a stream, and after its reads.\<close>

lemma negative_steps:
  assumes d: "dataset_inv us is m ps d" and small: "length us < 2147483648" "length is < 2147483648"
    and inv: "tables_inv (length us) N P R tb" "lt_negativeSet tb \<noteq> None"
  shows "\<exists>tb' ev'. p_fold (negative_step E d) fs (tb, ev) = Inr (tb', ev') \<and> tables_inv (length us) (N @ obs_of us is fs) P R tb' \<and> lt_negativeSet tb' \<noteq> None"
  using inv
proof (induction fs arbitrary: N tb ev)
  case (Cons f fs)
  show ?case
  proof (cases "pair_in us is f")
    case None
    then show ?thesis using Cons by (simp add: negative_step_def known_pair_in [OF d small])
  next
    case (Some p)
    obtain u i where p: "pair_in us is f = Some (u, i)" using Some by (cases p) simp
    have rows: "in_rows u (length us)" using pair_in_rows [OF p small] by blast
    obtain tb1 where tb1: "record_negative u i (fb_Timestamp f) tb = Inr tb1"
      "tables_inv (length us) (N @ [(u, i, fb_Timestamp f)]) P R tb1" "lt_negativeSet tb1 \<noteq> None"
      using record_negative_inv [OF Cons.prems(1) rows Cons.prems(2)] by blast
    from Cons.IH [OF tb1(2,3)] show ?thesis by (simp add: negative_step_def known_pair_in [OF d small] p tb1(1))
  qed
qed simp

definition unread :: "obs list \<Rightarrow> obs list \<Rightarrow> obs \<Rightarrow> bool" where
  "unread N P p \<longleftrightarrow> latest N (row (fst p)) (fst (snd p)) = None \<and> latest P (row (fst p)) (fst (snd p)) = None"

lemma read_steps:
  assumes d: "dataset_inv us is m ps d" and small: "length us < 2147483648" "length is < 2147483648"
    and inv: "tables_inv (length us) N P R tb"
  shows "\<exists>tb' ev'. p_fold (read_step E d) fs (tb, ev) = Inr (tb', ev') \<and> tables_inv (length us) N P (R @ filter (unread N P) (obs_of us is fs)) tb'"
  using inv
proof (induction fs arbitrary: R tb ev)
  case (Cons f fs)
  show ?case
  proof (cases "pair_in us is f")
    case None
    then show ?thesis using Cons by (simp add: read_step_def known_pair_in [OF d small])
  next
    case (Some p)
    obtain u i where p: "pair_in us is f = Some (u, i)" using Some by (cases p) simp
    let ?ok = "latest N (row u) i = None \<and> latest P (row u) i = None"
    have rows: "in_rows u (length us)" using pair_in_rows [OF p small] by blast
    obtain tb1 where tb1: "record_read u i (fb_Timestamp f) tb = Inr (tb1, ?ok)"
      "tables_inv (length us) N P (if ?ok then R @ [(u, i, fb_Timestamp f)] else R) tb1"
      using record_read_inv [OF Cons.prems rows] by blast
    from Cons.IH [OF tb1(2)] show ?thesis
      by (cases ?ok) (auto simp: read_step_def known_pair_in [OF d small] p tb1(1) unread_def)
  qed
qed simp

text \<open>The positive feedback that is accepted: on a known pair without negative feedback.\<close>

definition accepted :: "string list \<Rightarrow> string list \<Rightarrow> obs list \<Rightarrow> 'w feedback \<Rightarrow> bool" where
  "accepted us is N f \<longleftrightarrow> (case pair_in us is f of None \<Rightarrow> False | Some (u, i) \<Rightarrow> latest N (row u) i = None)"

definition pos_of :: "nat list \<Rightarrow> string list \<Rightarrow> 'w feedback \<Rightarrow> nat" where
  "pos_of positions is f = positions ! row (index_of is (fb_ItemId f))"

lemma obs_of_accepted: "obs_of us is (filter (accepted us is N) fs) = filter (\<lambda>p. latest N (row (fst p)) (fst (snd p)) = None) (obs_of us is fs)"
  by (induction fs) (auto simp: accepted_def split: option.splits)

lemma positive_steps:
  assumes d: "dataset_inv us is m ps d" and small: "length us < 2147483648" "length is < 2147483648" and len: "length positions = length is"
    and inv: "tables_inv (length us) N P R tb"
  shows "\<exists>d' ps' tb' ev'. dataset_inv us is m ps' d' \<and> tables_inv (length us) N (P @ obs_of us is (filter (accepted us is N) fs)) R tb' \<and>
    lt_negativeSet tb' = lt_negativeSet tb \<and>
    (\<forall>jr. p_fold (positive_step E Push positions) fs (d, tb, ev, jr) =
      p_bind (run_group Push (pos_of positions is) (filter (accepted us is N) fs) jr) (\<lambda>jr'. Inr (d', tb', ev', jr')))"
  using d inv
proof (induction fs arbitrary: ps d P tb ev)
  case Nil
  then show ?case by (auto simp: run_group_def)
next
  case (Cons f fs)
  note known = known_pair_in [OF Cons.prems(1) small]
  show ?case
  proof (cases "pair_in us is f")
    case None
    then have "positive_step E Push positions f (d, tb, ev, jr) = Inr (d, tb, ev, jr)" for jr by (simp add: positive_step_def known)
    then show ?thesis using Cons.IH [OF Cons.prems, of ev] None by (simp add: accepted_def)
  next
    case (Some p)
    obtain u i where p: "pair_in us is f = Some (u, i)" using Some by (cases p) simp
    have rows: "in_rows u (length us)" "in_rows i (length is)" "us ! row u = fb_UserId f" "is ! row i = fb_ItemId f"
      using pair_in_rows [OF p small] by blast+
    have i: "i = index_of is (fb_ItemId f)" "fb_UserId f \<in> set us" "fb_ItemId f \<in> set is" using p by (auto simp: pair_in_def split: if_splits)
    let ?ok = "latest N (row u) i = None"
    obtain tb1 where tb1: "record_positive u i (fb_Timestamp f) tb = Inr (tb1, ?ok)"
      "tables_inv (length us) N (if ?ok then P @ [(u, i, fb_Timestamp f)] else P) R tb1" "lt_negativeSet tb1 = lt_negativeSet tb"
      using record_positive_inv [OF Cons.prems(2) rows(1)] by blast
    show ?thesis
    proof (cases ?ok)
      case False
      have "tables_inv (length us) N P R tb1" using tb1(2) False by presburger
      have step: "positive_step E Push positions f (d, tb, ev, jr) = Inr (d, tb1, ev, jr)" for jr
        using p tb1(1) False by (simp add: positive_step_def known)
      have rej: "filter (accepted us is N) (f # fs) = filter (accepted us is N) fs" using p False by (simp add: accepted_def)
      from Cons.IH [OF Cons.prems(1) \<open>tables_inv (length us) N P R tb1\<close>, of ev] show ?thesis
        unfolding rej p_fold.simps step p_bind_simps tb1(3) .
    next
      case True
      have inv1: "tables_inv (length us) N (P @ [(u, i, fb_Timestamp f)]) R tb1" using tb1(2) True by presburger
      obtain d1 where d1: "AddFeedback (fb_UserId f) (fb_ItemId f) (fb_Timestamp f) d = Inr d1"
        "dataset_inv us is m (ps @ [(fb_UserId f, fb_ItemId f)]) d1"
        using dataset_inv_feedback [OF Cons.prems(1) i(2,3) small] by blast
      let ?ev = "oe_Add (le_Show E) (fb_FeedbackType f) (fb_Value f) u i (fb_Timestamp f) ev"
      from Cons.IH [OF d1(2) inv1, of ?ev] obtain d' ps' tb' ev' where
        r: "dataset_inv us is m ps' d'" "tables_inv (length us) N ((P @ [(u, i, fb_Timestamp f)]) @ obs_of us is (filter (accepted us is N) fs)) R tb'"
        "lt_negativeSet tb' = lt_negativeSet tb1"
        "\<forall>jr. p_fold (positive_step E Push positions) fs (d1, tb1, ?ev, jr) =
          p_bind (run_group Push (pos_of positions is) (filter (accepted us is N) fs) jr) (\<lambda>jr'. Inr (d', tb', ev', jr'))" by blast
      have acc: "accepted us is N f" using p True by (simp add: accepted_def)
      have pos: "index_i32 positions i = Inr (pos_of positions is f)" using rows(2) len i(1) by (simp add: index_i32_in pos_of_def)
      have step: "positive_step E Push positions f (d, tb, ev, jr) = p_bind (add_to_item Push (pos_of positions is f) f jr) (\<lambda>jr'. Inr (d1, tb1, ?ev, jr'))" for jr
        using p tb1(1) True pos d1(1) by (simp add: positive_step_def known)
      have "p_fold (positive_step E Push positions) (f # fs) (d, tb, ev, jr) =
          p_bind (run_group Push (pos_of positions is) (filter (accepted us is N) (f # fs)) jr) (\<lambda>jr'. Inr (d', tb', ev', jr'))" for jr
        using acc by (simp add: step p_bind_assoc run_group_def r(4) [rule_format])
      then show ?thesis using r(1,2,3) acc p tb1(3) by fastforce
    qed
  qed
qed

subsection \<open>Groups of items\<close>

text \<open>The dense numbers of the items of a group lead to their places in it.\<close>

definition places :: "string list \<Rightarrow> nat list \<Rightarrow> item list \<Rightarrow> bool" where
  "places is positions g \<longleftrightarrow> (\<forall>k < length g. positions ! row (index_of is (item_ItemId (g ! k))) = k)"

lemma place_items_ok:
  assumes d: "dataset_inv us is m ps d" and small: "length is < 2147483648"
    and "distinct (map item_ItemId g)" and "item_ItemId ` set g \<subseteq> set is" and "length xs = length is"
  shows "\<exists>ys. place_items d n g xs = Inr ys \<and> length ys = length is \<and>
    (\<forall>k < length g. ys ! row (index_of is (item_ItemId (g ! k))) = n + k) \<and>
    (\<forall>x \<in> set is. x \<notin> item_ItemId ` set g \<longrightarrow> ys ! row (index_of is x) = xs ! row (index_of is x))"
  using assms(3-)
proof (induction g arbitrary: n xs)
  case (Cons item g)
  have fd: "freq_dict_ok (dt_itemDict d)" "fd_is (dt_itemDict d) = is" using d by (simp_all add: dataset_inv_def)
  let ?id = "item_ItemId item"
  have id: "?id \<in> set is" using Cons.prems(2) by simp
  have rows: "in_rows (index_of is ?id) (length is)" using index_of_in [OF id small] by simp
  let ?xs = "xs[row (index_of is ?id) := n]"
  have first: "update_at (fd_Id (dt_itemDict d) ?id) (\<lambda>_. n) xs = Inr ?xs"
    using fd_Id_index [OF fd(1), of ?id] id rows Cons.prems(3) by (simp add: fd(2) update_at_in)
  from Cons.IH [of ?xs "Suc n"] Cons.prems obtain ys where ys:
    "place_items d (Suc n) g ?xs = Inr ys" "length ys = length is"
    "\<forall>k < length g. ys ! row (index_of is (item_ItemId (g ! k))) = Suc n + k"
    "\<forall>x \<in> set is. x \<notin> item_ItemId ` set g \<longrightarrow> ys ! row (index_of is x) = ?xs ! row (index_of is x)" by auto
  have other: "row (index_of is x) \<noteq> row (index_of is ?id)" if "x \<in> set is" "x \<noteq> ?id" for x
    using index_of_in [OF that(1) small] index_of_in [OF id small] that(2) by metis
  have "ys ! row (index_of is ?id) = n" using ys(4) id Cons.prems(1,3) row_less [OF rows] by auto
  then have "\<forall>k < length (item # g). ys ! row (index_of is (item_ItemId ((item # g) ! k))) = n + k"
    using ys(3) by (auto simp: nth_Cons split: nat.split)
  moreover have "\<forall>x \<in> set is. x \<notin> item_ItemId ` set (item # g) \<longrightarrow> ys ! row (index_of is x) = xs ! row (index_of is x)"
  proof (intro ballI impI)
    fix x assume x: "x \<in> set is" "x \<notin> item_ItemId ` set (item # g)"
    then have "row (index_of is ?id) \<noteq> row (index_of is x)" using other [of x] by auto
    then show "ys ! row (index_of is x) = xs ! row (index_of is x)" using ys(4) x by simp
  qed
  ultimately show ?case using ys(1,2) first by (simp add: place_items_def)
qed (simp add: place_items_def)

lemma item_positions_ok:
  assumes d: "dataset_inv us is m ps d" and small: "length is < 2147483648"
    and "distinct (map item_ItemId (concat gs))" and "item_ItemId ` set (concat gs) \<subseteq> set is"
  shows "\<exists>positions. item_positions d gs = Inr positions \<and> length positions = length is \<and> (\<forall>g \<in> set gs. places is positions g)"
proof -
  have "\<exists>ys. p_fold (place_items d 0) gs xs = Inr ys \<and>
      length ys = length is \<and> (\<forall>g \<in> set gs. places is ys g) \<and>
      (\<forall>x \<in> set is. x \<notin> item_ItemId ` set (concat gs) \<longrightarrow> ys ! row (index_of is x) = xs ! row (index_of is x))" if "length xs = length is" for xs
    using assms(3,4) that
  proof (induction gs arbitrary: xs)
    case (Cons g gs)
    obtain zs where zs: "place_items d 0 g xs = Inr zs" "length zs = length is"
      "\<forall>k < length g. zs ! row (index_of is (item_ItemId (g ! k))) = 0 + k"
      "\<forall>x \<in> set is. x \<notin> item_ItemId ` set g \<longrightarrow> zs ! row (index_of is x) = xs ! row (index_of is x)"
      using place_items_ok [OF d small, of g xs 0] Cons.prems by auto
    obtain ys where ys: "p_fold (place_items d 0) gs zs = Inr ys"
      "length ys = length is" "\<forall>g \<in> set gs. places is ys g"
      "\<forall>x \<in> set is. x \<notin> item_ItemId ` set (concat gs) \<longrightarrow> ys ! row (index_of is x) = zs ! row (index_of is x)"
      using Cons.IH [of zs] Cons.prems zs(2) by auto
    have "item_ItemId (g ! k) \<in> set is \<and> item_ItemId (g ! k) \<notin> item_ItemId ` set (concat gs)" if "k < length g" for k
    proof -
      have "item_ItemId (g ! k) \<in> item_ItemId ` set g" using nth_mem [OF that] by blast
      moreover have "item_ItemId ` set g \<inter> item_ItemId ` set (concat gs) = {}" "item_ItemId ` set g \<subseteq> set is"
        using Cons.prems(1,2) by (simp_all add: image_Un)
      ultimately show ?thesis by blast
    qed
    then have "places is ys g" using ys(4) zs(3) by (simp add: places_def)
    moreover have "\<forall>x \<in> set is. x \<notin> item_ItemId ` set (concat (g # gs)) \<longrightarrow> ys ! row (index_of is x) = xs ! row (index_of is x)"
      using ys(4) zs(4) by (simp add: image_Un)
    ultimately show ?case using ys(1-3) zs(1) by simp
  qed (simp add: places_def)
  moreover have "CountItems d = length is" using d unfolding dataset_inv_def CountItems_def by (metis length_map)
  ultimately show ?thesis unfolding item_positions_def by (metis length_replicate)
qed

text \<open>Groups are slices of the sorted items: an item between the ends of a group is in the group.\<close>

definition in_range :: "item list \<Rightarrow> string \<Rightarrow> bool" where
  "in_range g x \<longleftrightarrow> item_ItemId (hd g) \<le> x \<and> x \<le> item_ItemId (last g)"

lemma in_range_group:
  assumes "sorted (map item_ItemId (concat gs))" and "g \<in> set gs" and "g \<noteq> []" and "x \<in> item_ItemId ` set (concat gs)"
  shows "in_range g x \<longleftrightarrow> x \<in> item_ItemId ` set g"
proof -
  obtain as bs where gs: "gs = as @ g # bs" using assms(2) by (auto simp: in_set_conv_decomp)
  have ends: "item_ItemId (hd g) \<in> item_ItemId ` set g" "item_ItemId (last g) \<in> item_ItemId ` set g" using assms(3) by simp_all
  have sg: "sorted (map item_ItemId g)"
    and le: "\<And>y z. y \<in> item_ItemId ` set (concat as) \<Longrightarrow> z \<in> item_ItemId ` set g \<Longrightarrow> y \<le> z"
      "\<And>y z. y \<in> item_ItemId ` set g \<Longrightarrow> z \<in> item_ItemId ` set (concat bs) \<Longrightarrow> y \<le> z"
    using assms(1) unfolding gs by (auto simp: sorted_append)
  have "item_ItemId (hd g) \<le> y \<and> y \<le> item_ItemId (last g)" if y: "y \<in> item_ItemId ` set g" for y
  proof -
    obtain z where z: "z \<in> set g" "y = item_ItemId z" using y by blast
    obtain k where k: "k < length g" "y = item_ItemId (g ! k)" using z in_set_conv_nth [of z g] by blast
    have "item_ItemId (g ! 0) \<le> item_ItemId (g ! k)" "item_ItemId (g ! k) \<le> item_ItemId (g ! (length g - 1))"
      using sorted_nth_mono [OF sg, of 0 k] sorted_nth_mono [OF sg, of k "length g - 1"] k(1) assms(3) by (simp_all del: sorted_map)
    then show ?thesis using k(2) assms(3) by (simp add: hd_conv_nth last_conv_nth)
  qed
  moreover have "x \<in> item_ItemId ` set g" if r: "in_range g x"
  proof -
    have "x \<in> item_ItemId ` set (concat as) \<or> x \<in> item_ItemId ` set g \<or> x \<in> item_ItemId ` set (concat bs)"
      using assms(4) unfolding gs by (simp add: image_Un)
    then show ?thesis
    proof (elim disjE)
      assume "x \<in> item_ItemId ` set (concat as)"
      then have "x \<le> item_ItemId (hd g)" using le(1) ends(1) by blast
      then show ?thesis using r ends(1) by (simp add: in_range_def)
    next
      assume "x \<in> item_ItemId ` set (concat bs)"
      then have "item_ItemId (last g) \<le> x" using le(2) ends(2) by blast
      then show ?thesis using r ends(2) by (simp add: in_range_def)
    qed
  qed
  ultimately show ?thesis unfolding in_range_def by blast
qed

subsection \<open>A store that answers\<close>

text \<open>The condition of the query in \<open>storage/data/sql.go\<close>: no feedback types are no condition.\<close>

definition scan_matches :: "'w::linorder scan_options \<Rightarrow> 'w feedback \<Rightarrow> bool" where
  "scan_matches o' f \<longleftrightarrow>
     (so_FeedbackTypes o' \<noteq> [] \<longrightarrow> MatchFeedbackTypeExpressions (so_FeedbackTypes o') (fb_FeedbackType f) (fb_Value f)) \<and>
     (case so_BeginTime o' of None \<Rightarrow> True | Some t \<Rightarrow> fb_Timestamp f \<ge> t) \<and>
     (case so_EndTime o' of None \<Rightarrow> True | Some t \<Rightarrow> fb_Timestamp f \<le> t) \<and>
     (case so_BeginUserId o' of None \<Rightarrow> True | Some u \<Rightarrow> fb_UserId f \<ge> u) \<and>
     (case so_EndUserId o' of None \<Rightarrow> True | Some u \<Rightarrow> fb_UserId f \<le> u) \<and>
     (case so_BeginItemId o' of None \<Rightarrow> True | Some i \<Rightarrow> fb_ItemId f \<ge> i) \<and>
     (case so_EndItemId o' of None \<Rightarrow> True | Some i \<Rightarrow> fb_ItemId f \<le> i)"

text \<open>
  In the state \<open>s\<close> the store holds these users, items (younger than the limit) and feedback; queries do not fail and leave it unchanged;
  a query ordered by item keeps the feedback of an item together. Ids compare by their characters.
\<close>

definition store_holds :: "('s, 'w::linorder) database \<Rightarrow> 's \<Rightarrow> time option \<Rightarrow> user list \<Rightarrow> item list \<Rightarrow> 'w feedback list \<Rightarrow> bool" where
  "store_holds db s limit users items F \<longleftrightarrow>
     (\<exists>n \<ge> 0. dst_CountUsers (db_Store db) s = (Inr n, s)) \<and> (\<exists>n \<ge> 0. dst_CountItems (db_Store db) s = (Inr n, s)) \<and>
     (\<exists>n. db_CountFeedback db s = (Inr n, s)) \<and>
     (\<exists>bs. db_GetUserStream db s batchSize = ((bs, None), s) \<and> concat bs = users) \<and>
     (\<exists>bs. db_GetItemStream db s batchSize limit = ((bs, None), s) \<and> concat bs = items) \<and>
     (\<forall>opts. \<exists>bs. db_GetFeedbackStream db s batchSize opts = ((bs, None), s) \<and>
        mset (concat bs) = filter_mset (scan_matches (NewScanOptions (map Some opts))) (mset F) \<and>
        (so_OrderByItemId (NewScanOptions (map Some opts)) \<longrightarrow> grouped (map fb_ItemId (concat bs))))"

text \<open>What the load asks for: feedback of some types (or of all, when there are none), not older than the limit and not in the future.\<close>

definition wanted :: "'w::linorder load_env \<Rightarrow> time option \<Rightarrow> 'w fb_expr list \<Rightarrow> 'w feedback \<Rightarrow> bool" where
  "wanted E limit types f \<longleftrightarrow> (types \<noteq> [] \<longrightarrow> MatchFeedbackTypeExpressions types (fb_FeedbackType f) (fb_Value f)) \<and>
     (case limit of None \<Rightarrow> True | Some t \<Rightarrow> fb_Timestamp f \<ge> t) \<and> fb_Timestamp f \<le> le_ConfigNow E"

lemma group_options_matches:
  assumes "g \<noteq> []"
  shows "\<exists>opts. group_options E limit types ordered g = Inr opts \<and> so_OrderByItemId (NewScanOptions (map Some opts)) = ordered \<and>
    scan_matches (NewScanOptions (map Some opts)) = (\<lambda>f. wanted E limit types f \<and> in_range g (fb_ItemId f))"
  using assms
  by (cases limit; cases ordered) (auto simp: group_options_def NewScanOptions_def WithBeginItemId_def WithEndItemId_def WithBeginTime_def
    WithEndTime_def WithFeedbackTypes_def WithOrderByItemId_def scan_matches_def wanted_def in_range_def fun_eq_iff)

lemma group_stream:
  assumes "store_holds db s ilimit users items F" and "g \<noteq> []"
  shows "\<exists>opts bs. group_options E limit types ordered g = Inr opts \<and> db_GetFeedbackStream db s batchSize opts = ((bs, None), s) \<and>
    mset (concat bs) = filter_mset (\<lambda>f. wanted E limit types f \<and> in_range g (fb_ItemId f)) (mset F) \<and> (ordered \<longrightarrow> grouped (map fb_ItemId (concat bs)))"
proof -
  obtain opts where opts: "group_options E limit types ordered g = Inr opts" "so_OrderByItemId (NewScanOptions (map Some opts)) = ordered"
    "scan_matches (NewScanOptions (map Some opts)) = (\<lambda>f. wanted E limit types f \<and> in_range g (fb_ItemId f))"
    using group_options_matches [OF assms(2)] by blast
  have "\<exists>bs. db_GetFeedbackStream db s batchSize opts = ((bs, None), s) \<and>
        mset (concat bs) = filter_mset (scan_matches (NewScanOptions (map Some opts))) (mset F) \<and>
        (so_OrderByItemId (NewScanOptions (map Some opts)) \<longrightarrow> grouped (map fb_ItemId (concat bs)))"
    using assms(1) unfolding store_holds_def by blast
  then show ?thesis using opts by metis
qed

subsection \<open>The jobs\<close>

definition obs_set :: "string list \<Rightarrow> string list \<Rightarrow> 'w feedback set \<Rightarrow> obs set" where
  "obs_set us is S = {(u, i, t). \<exists>f \<in> S. pair_in us is f = Some (u, i) \<and> fb_Timestamp f = t}"

lemma set_obs: "set (obs_of us is fs) = obs_set us is (set fs)"
  by (simp add: set_obs_of obs_set_def)

lemma obs_set_Un: "obs_set us is (A \<union> B) = obs_set us is A \<union> obs_set us is B"
  by (auto simp: obs_set_def)

definition in_ranges :: "item list list \<Rightarrow> 'w feedback \<Rightarrow> bool" where
  "in_ranges gs f \<longleftrightarrow> (\<exists>g \<in> set gs. in_range g (fb_ItemId f))"

lemma in_ranges_simps [simp]: "\<not> in_ranges [] f" "in_ranges (g # gs) f \<longleftrightarrow> in_range g (fb_ItemId f) \<or> in_ranges gs f"
  by (simp_all add: in_ranges_def)

lemma set_of_mset: "mset xs = filter_mset P (mset ys) \<Longrightarrow> set xs = {y \<in> set ys. P y}"
  by (metis mset_filter set_filter set_mset_mset)

lemma Collect_Un: "{p \<in> A \<union> B. Q p} = {p \<in> A. Q p} \<union> {p \<in> B. Q p}"
  by blast

lemma load_stream_run:
  assumes "stream s = ((bs, None), s)" and "p_fold step (concat bs) x = Inr x'" and "finish x' = Inr x''"
  shows "load_stream stream step finish x s = Inr (Inr x'', s)"
  using assms by (simp add: load_stream_def)

lemma negative_jobs:
  assumes db: "store_holds db s ilimit users items F" and d: "dataset_inv us is m ps d" and small: "length us < 2147483648" "length is < 2147483648"
    and "\<forall>g \<in> set gs. g \<noteq> []" and "tables_inv (length us) N P R tb" "lt_negativeSet tb \<noteq> None"
  shows "\<exists>N' tb' ev'. load_fold (negative_job E db limit types d) gs (tb, ev) s = Inr (Inr (tb', ev'), s) \<and>
    tables_inv (length us) N' P R tb' \<and> lt_negativeSet tb' \<noteq> None \<and>
    set N' = set N \<union> obs_set us is {f \<in> set F. wanted E limit types f \<and> in_ranges gs f}"
  using assms(5-)
proof (induction gs arbitrary: N tb ev)
  case Nil
  then show ?case by (auto simp: load_ok_def obs_set_def)
next
  case (Cons g gs)
  have ne: "g \<noteq> []" using Cons.prems(1) by simp
  obtain opts bs where g: "group_options E limit types True g = Inr opts" "db_GetFeedbackStream db s batchSize opts = ((bs, None), s)"
    "mset (concat bs) = filter_mset (\<lambda>f. wanted E limit types f \<and> in_range g (fb_ItemId f)) (mset F)"
    using group_stream [OF db ne, of E limit types True] by blast
  obtain tb1 ev1 where s1: "p_fold (negative_step E d) (concat bs) (tb, ev) = Inr (tb1, ev1)"
    "tables_inv (length us) (N @ obs_of us is (concat bs)) P R tb1" "lt_negativeSet tb1 \<noteq> None"
    using negative_steps [OF d small Cons.prems(2,3)] by blast
  have job: "negative_job E db limit types d g (tb, ev) s = Inr (Inr (tb1, ev1), s)"
    using load_stream_run [of "\<lambda>s. db_GetFeedbackStream db s batchSize opts", OF g(2) s1(1)]
    by (simp add: negative_job_def load_bind_def load_run_def g(1))
  have "\<forall>g \<in> set gs. g \<noteq> []" using Cons.prems(1) by simp
  from Cons.IH [OF this s1(2,3), of ev1] obtain N' tb' ev' where r:
    "load_fold (negative_job E db limit types d) gs (tb1, ev1) s = Inr (Inr (tb', ev'), s)" "tables_inv (length us) N' P R tb'" "lt_negativeSet tb' \<noteq> None"
    "set N' = set (N @ obs_of us is (concat bs)) \<union> obs_set us is {f \<in> set F. wanted E limit types f \<and> in_ranges gs f}" by blast
  have "set N' = set N \<union> obs_set us is ({f \<in> set F. wanted E limit types f \<and> in_range g (fb_ItemId f)} \<union> {f \<in> set F. wanted E limit types f \<and> in_ranges gs f})"
    by (simp only: r(4) set_append set_obs set_of_mset [OF g(3)] obs_set_Un Un_assoc)
  also have "{f \<in> set F. wanted E limit types f \<and> in_range g (fb_ItemId f)} \<union> {f \<in> set F. wanted E limit types f \<and> in_ranges gs f} =
      {f \<in> set F. wanted E limit types f \<and> in_ranges (g # gs) f}" by auto
  finally show ?case using r(1-3) by (simp add: load_bind_def job) blast
qed

lemma read_jobs:
  assumes db: "store_holds db s ilimit users items F" and d: "dataset_inv us is m ps d" and small: "length us < 2147483648" "length is < 2147483648"
    and "\<forall>g \<in> set gs. g \<noteq> []" and "tables_inv (length us) N P R tb"
  shows "\<exists>R' tb' ev'. load_fold (read_job E db limit types d) gs (tb, ev) s = Inr (Inr (tb', ev'), s) \<and>
    tables_inv (length us) N P R' tb' \<and>
    set R' = set R \<union> {p \<in> obs_set us is {f \<in> set F. wanted E limit types f \<and> in_ranges gs f}. unread N P p}"
  using assms(5-)
proof (induction gs arbitrary: R tb ev)
  case Nil
  then show ?case by (auto simp: load_ok_def obs_set_def)
next
  case (Cons g gs)
  have ne: "g \<noteq> []" using Cons.prems(1) by simp
  obtain opts bs where g: "group_options E limit types False g = Inr opts" "db_GetFeedbackStream db s batchSize opts = ((bs, None), s)"
    "mset (concat bs) = filter_mset (\<lambda>f. wanted E limit types f \<and> in_range g (fb_ItemId f)) (mset F)"
    using group_stream [OF db ne, of E limit types False] by blast
  obtain tb1 ev1 where s1: "p_fold (read_step E d) (concat bs) (tb, ev) = Inr (tb1, ev1)"
    "tables_inv (length us) N P (R @ filter (unread N P) (obs_of us is (concat bs))) tb1"
    using read_steps [OF d small Cons.prems(2)] by blast
  have job: "read_job E db limit types d g (tb, ev) s = Inr (Inr (tb1, ev1), s)"
    using load_stream_run [of "\<lambda>s. db_GetFeedbackStream db s batchSize opts", OF g(2) s1(1)]
    by (simp add: read_job_def load_bind_def load_run_def g(1))
  have "\<forall>g \<in> set gs. g \<noteq> []" using Cons.prems(1) by simp
  from Cons.IH [OF this s1(2), of ev1] obtain R' tb' ev' where r:
    "load_fold (read_job E db limit types d) gs (tb1, ev1) s = Inr (Inr (tb', ev'), s)" "tables_inv (length us) N P R' tb'"
    "set R' = set (R @ filter (unread N P) (obs_of us is (concat bs))) \<union> {p \<in> obs_set us is {f \<in> set F. wanted E limit types f \<and> in_ranges gs f}. unread N P p}" by blast
  have "set R' = set R \<union> {p \<in> obs_set us is ({f \<in> set F. wanted E limit types f \<and> in_range g (fb_ItemId f)} \<union> {f \<in> set F. wanted E limit types f \<and> in_ranges gs f}). unread N P p}"
    by (simp only: r(3) set_append set_filter set_obs set_of_mset [OF g(3)] obs_set_Un Collect_Un Un_assoc)
  also have "{f \<in> set F. wanted E limit types f \<and> in_range g (fb_ItemId f)} \<union> {f \<in> set F. wanted E limit types f \<and> in_ranges gs f} =
      {f \<in> set F. wanted E limit types f \<and> in_ranges (g # gs) f}" by auto
  finally show ?case using r(1-2) by (simp add: load_bind_def job) blast
qed

text \<open>Leaderboards that satisfy \<open>I\<close> take every item that satisfies \<open>Q\<close>, and still satisfy \<open>I\<close>.\<close>

definition pusher_ok :: "('w, 'r) pusher \<Rightarrow> (item \<Rightarrow> bool) \<Rightarrow> ('r \<Rightarrow> bool) \<Rightarrow> bool" where
  "pusher_ok Push Q I \<longleftrightarrow> (\<forall>i fs r. Q i \<longrightarrow> I r \<longrightarrow> (\<exists>r'. Push i fs r = Inr r' \<and> I r'))"

lemma push_list_ok:
  "pusher_ok Push Q I \<Longrightarrow> \<forall>i \<in> fst ` set evs. Q i \<Longrightarrow> I r \<Longrightarrow> \<exists>r'. push_list Push evs r = Inr r' \<and> I r'"
proof (induction evs arbitrary: r)
  case (Cons e evs)
  obtain r1 where "Push (fst e) (snd e) r = Inr r1" "I r1" using Cons.prems unfolding pusher_ok_def by (meson image_eqI list.set_intros(1))
  then show ?case using Cons.IH [OF Cons.prems(1), of r1] Cons.prems(2) by (simp add: push_list_def case_prod_unfold)
qed (simp add: push_list_def)

text \<open>What is pushed for the items of a group.\<close>

definition pushes_of :: "'w::linorder load_env \<Rightarrow> time option \<Rightarrow> 'w fb_expr list \<Rightarrow> string list \<Rightarrow> string list \<Rightarrow> obs list \<Rightarrow> 'w feedback list \<Rightarrow>
    item list \<Rightarrow> (item \<times> 'w feedback list) list \<Rightarrow> bool" where
  "pushes_of E limit types us is N F g evs \<longleftrightarrow> mset (map fst evs) = mset g \<and>
     (\<forall>e \<in> set evs. mset (snd e) = filter_mset (\<lambda>f. wanted E limit types f \<and> accepted us is N f \<and> fb_ItemId f = item_ItemId (fst e)) (mset F))"

lemma pushes_of_items: "pushes_of E limit types us is N F g evs \<Longrightarrow> fst ` set evs = set g"
  unfolding pushes_of_def by (metis mset_eq_setD set_map)

lemma pushes_of_append:
  "pushes_of E limit types us is N F g evs \<Longrightarrow> pushes_of E limit types us is N F g' evs' \<Longrightarrow> pushes_of E limit types us is N F (g @ g') (evs @ evs')"
  by (auto simp: pushes_of_def)

end
