(* ===== verification/Load_Props.thy ===== *)
theory Load_Props
  imports Load_Steps
begin

text \<open>
  What \<open>LoadDataFromDatabase\<close> does over a store that answers its queries: it ends without panic or error, every pair of a
  user and an item becomes at most one sample, and every item reaches the leaderboards once, with its own positive feedback.
\<close>

subsection \<open>The positive feedback of a group\<close>

lemma mset_filter_filter: "mset xs = filter_mset P (mset ys) \<Longrightarrow> mset (filter Q xs) = filter_mset (\<lambda>y. P y \<and> Q y) (mset ys)"
  by (simp add: filter_filter_mset conj_commute)

lemma accepted_in_group:
  assumes sorted: "sorted (map item_ItemId (concat groups))" and g: "g \<in> set groups" "g \<noteq> []" and cover: "set is = item_ItemId ` set (concat groups)"
    and pl: "places is positions g" and f: "accepted us is N f" "in_range g (fb_ItemId f)"
  shows "in_group g (pos_of positions is) f"
proof -
  have "fb_ItemId f \<in> set is" using f(1) by (auto simp: accepted_def pair_in_def split: if_splits)
  then have "fb_ItemId f \<in> item_ItemId ` set g" using in_range_group [OF sorted g] f(2) cover by blast
  then obtain x where x: "x \<in> set g" "item_ItemId x = fb_ItemId f" by force
  obtain k where "k < length g" "g ! k = x" using x(1) by (auto simp: in_set_conv_nth)
  then show ?thesis using pl x(2) by (auto simp: in_group_def pos_of_def places_def)
qed

lemma group_evs:
  assumes "mset ks = mset [0..<length g]" and fs: "mset fs = filter_mset (\<lambda>f. wanted E limit types f \<and> in_range g (fb_ItemId f)) (mset F)"
    and range: "\<forall>x \<in> set g. in_range g (item_ItemId x)"
  shows "pushes_of E limit types us is N F g (map (push_of g (filter (accepted us is N) fs)) ks)"
proof -
  have "mset (map fst (map (push_of g (filter (accepted us is N) fs)) ks)) = image_mset ((!) g) (mset ks)"
    by (simp add: push_of_def multiset.map_comp o_def)
  also have "\<dots> = mset (map ((!) g) [0..<length g])" unfolding assms(1) by simp
  finally have "mset (map fst (map (push_of g (filter (accepted us is N) fs)) ks)) = mset g" by (simp add: map_nth)
  moreover have "mset (filter (\<lambda>f. fb_ItemId f = item_ItemId (g ! k)) (filter (accepted us is N) fs)) =
      filter_mset (\<lambda>f. wanted E limit types f \<and> accepted us is N f \<and> fb_ItemId f = item_ItemId (g ! k)) (mset F)" if k: "k \<in> set ks" for k
  proof -
    have "set ks = set [0..<length g]" using assms(1) by (rule mset_eq_setD)
    then have "in_range g (item_ItemId (g ! k))" using range k by simp
    then show ?thesis unfolding mset_filter_filter [OF mset_filter_filter [OF fs]] by (intro filter_mset_cong) auto
  qed
  ultimately show ?thesis by (auto simp: pushes_of_def push_of_def)
qed

lemma positive_group:
  assumes db: "store_holds db s ilimit users items F" and small: "length us < 2147483648" "length is < 2147483648"
    and sorted: "sorted (map item_ItemId (concat groups))" and ids: "distinct (map item_ItemId g)" and g: "g \<in> set groups" "g \<noteq> []"
    and cover: "set is = item_ItemId ` set (concat groups)" and pl: "places is positions g" and len: "length positions = length is"
    and ok: "pusher_ok Push Q I" "\<forall>i \<in> set g. Q i" and d: "dataset_inv us is m ps d" and inv: "tables_inv (length us) N P R tb"
  shows "\<exists>d' ps' tb' ev' P' evs. dataset_inv us is m ps' d' \<and> tables_inv (length us) N P' R tb' \<and>
    set P' = set P \<union> obs_set us is {f \<in> set F. (wanted E limit types f \<and> in_range g (fb_ItemId f)) \<and> accepted us is N f} \<and>
    pushes_of E limit types us is N F g evs \<and>
    (\<forall>r. I r \<longrightarrow> (\<exists>r'. push_list Push evs r = Inr r' \<and> positive_job E db Push limit types positions g (d, tb, ev, r) s = Inr (Inr (d', tb', ev', r'), s)))"
proof -
  obtain opts bs where st: "group_options E limit types True g = Inr opts" "db_GetFeedbackStream db s batchSize opts = ((bs, None), s)"
    "mset (concat bs) = filter_mset (\<lambda>f. wanted E limit types f \<and> in_range g (fb_ItemId f)) (mset F)" "grouped (map fb_ItemId (concat bs))"
    using group_stream [OF db g(2), of E limit types True] by blast
  let ?acc = "filter (accepted us is N) (concat bs)"
  obtain d' ps' tb' ev' where run: "dataset_inv us is m ps' d'" "tables_inv (length us) N (P @ obs_of us is ?acc) R tb'"
    "\<forall>jr. p_fold (positive_step E Push positions) (concat bs) (d, tb, ev, jr) =
      p_bind (run_group Push (pos_of positions is) ?acc jr) (\<lambda>jr'. Inr (d', tb', ev', jr'))"
    using positive_steps [OF d small len inv, where E = E and Push = Push and fs = "concat bs" and ev = ev] by blast
  have acc: "set ?acc = {f \<in> set F. (wanted E limit types f \<and> in_range g (fb_ItemId f)) \<and> accepted us is N f}"
    using set_of_mset [OF st(3)] by auto
  have ingr: "\<forall>f \<in> set ?acc. in_group g (pos_of positions is) f"
    unfolding acc using accepted_in_group [OF sorted g cover pl] by blast
  have gr: "grouped (map fb_ItemId ?acc)" using st(4) by (rule grouped_filter)
  obtain ks j where ks: "mset ks = mset [0..<length g]"
    "\<forall>r. p_bind (run_group Push (pos_of positions is) ?acc (start_group g, r)) (finish_group Push) =
      p_bind (push_list Push (map (push_of g ?acc) ks) r) (\<lambda>r'. Inr (j, r'))"
    using group_pushes [OF ingr ids gr, of Push] by blast
  let ?evs = "map (push_of g ?acc) ks"
  have range: "\<forall>x \<in> set g. in_range g (item_ItemId x)" using in_range_group [OF sorted g] g(1) by auto
  have evs: "pushes_of E limit types us is N F g ?evs" by (rule group_evs [OF ks(1) st(3) range])
  have Q: "\<forall>i \<in> fst ` set ?evs. Q i" using ok(2) pushes_of_items [OF evs] by simp
  have "\<exists>r'. push_list Push ?evs r = Inr r' \<and> positive_job E db Push limit types positions g (d, tb, ev, r) s = Inr (Inr (d', tb', ev', r'), s)" if "I r" for r
  proof -
    obtain r' where r': "push_list Push ?evs r = Inr r'" using push_list_ok [OF ok(1) Q \<open>I r\<close>] by blast
    have "p_bind (p_fold (positive_step E Push positions) (concat bs) (d, tb, ev, start_group g, r)) (positive_finish Push) =
        p_bind (p_bind (run_group Push (pos_of positions is) ?acc (start_group g, r)) (finish_group Push)) (\<lambda>jr'. Inr (d', tb', ev', jr'))"
      by (simp only: run(3) [rule_format] p_bind_assoc p_bind_simps positive_finish_def prod.case)
    also have "\<dots> = Inr (d', tb', ev', j, r')" by (simp only: ks(2) [rule_format] p_bind_assoc p_bind_simps r')
    finally have "positive_job E db Push limit types positions g (d, tb, ev, r) s = Inr (Inr (d', tb', ev', r'), s)"
      by (simp add: positive_job_def load_bind_def load_run_def st(1) load_stream_def st(2) load_ok_def)
    then show ?thesis using r' by blast
  qed
  moreover have "set (P @ obs_of us is ?acc) = set P \<union> obs_set us is {f \<in> set F. (wanted E limit types f \<and> in_range g (fb_ItemId f)) \<and> accepted us is N f}"
    by (simp only: set_append set_obs acc)
  ultimately show ?thesis using run(1,2) evs by blast
qed

lemma positive_groups:
  assumes db: "store_holds db s ilimit users items F" and small: "length us < 2147483648" "length is < 2147483648"
    and sorted: "sorted (map item_ItemId (concat groups))" and ids: "distinct (map item_ItemId (concat groups))"
    and cover: "set is = item_ItemId ` set (concat groups)" and len: "length positions = length is" and ok: "pusher_ok Push Q I" "\<forall>i \<in> set (concat groups). Q i"
    and gs: "set gs \<subseteq> set groups" "\<forall>g \<in> set gs. g \<noteq> [] \<and> places is positions g \<and> distinct (map item_ItemId g)"
    and start: "dataset_inv us is m ps d" "tables_inv (length us) N P R tb" "I r"
  shows "\<exists>d' ps' tb' ev' P' evs r'. load_fold (positive_job E db Push limit types positions) gs (d, tb, ev, r) s = Inr (Inr (d', tb', ev', r'), s) \<and>
    dataset_inv us is m ps' d' \<and> tables_inv (length us) N P' R tb' \<and>
    set P' = set P \<union> obs_set us is {f \<in> set F. (wanted E limit types f \<and> in_ranges gs f) \<and> accepted us is N f} \<and>
    pushes_of E limit types us is N F (concat gs) evs \<and> push_list Push evs r = Inr r' \<and> I r'"
  using gs start
proof (induction gs arbitrary: d ps tb ev P r)
  case Nil
  then show ?case by (auto simp: load_ok_def obs_set_def pushes_of_def push_list_def)
next
  case (Cons g gs)
  have g: "g \<in> set groups" "g \<noteq> []" "places is positions g" "distinct (map item_ItemId g)" using Cons.prems(1,2) by simp_all
  have Qg: "\<forall>i \<in> set g. Q i" using ok(2) g(1) by auto
  obtain d1 ps1 tb1 ev1 P1 evs1 where s1: "dataset_inv us is m ps1 d1" "tables_inv (length us) N P1 R tb1"
    "set P1 = set P \<union> obs_set us is {f \<in> set F. (wanted E limit types f \<and> in_range g (fb_ItemId f)) \<and> accepted us is N f}"
    "pushes_of E limit types us is N F g evs1"
    "\<forall>r. I r \<longrightarrow> (\<exists>r'. push_list Push evs1 r = Inr r' \<and> positive_job E db Push limit types positions g (d, tb, ev, r) s = Inr (Inr (d1, tb1, ev1, r'), s))"
    using positive_group [OF db small sorted g(4,1,2) cover g(3) len ok(1) Qg Cons.prems(3,4)] by blast
  obtain r1 where r1: "push_list Push evs1 r = Inr r1" "positive_job E db Push limit types positions g (d, tb, ev, r) s = Inr (Inr (d1, tb1, ev1, r1), s)"
    using s1(5) Cons.prems(5) by blast
  have "\<forall>i \<in> fst ` set evs1. Q i" using Qg unfolding pushes_of_items [OF s1(4)] .
  then have "I r1" using push_list_ok [OF ok(1) _ Cons.prems(5), of evs1] r1(1) by simp
  have "set gs \<subseteq> set groups" "\<forall>g \<in> set gs. g \<noteq> [] \<and> places is positions g \<and> distinct (map item_ItemId g)" using Cons.prems(1,2) by simp_all
  from Cons.IH [OF this s1(1,2) \<open>I r1\<close>] obtain d' ps' tb' ev' P' evs r' where r:
    "load_fold (positive_job E db Push limit types positions) gs (d1, tb1, ev1, r1) s = Inr (Inr (d', tb', ev', r'), s)"
    "dataset_inv us is m ps' d'" "tables_inv (length us) N P' R tb'"
    "set P' = set P1 \<union> obs_set us is {f \<in> set F. (wanted E limit types f \<and> in_ranges gs f) \<and> accepted us is N f}"
    "pushes_of E limit types us is N F (concat gs) evs" "push_list Push evs r1 = Inr r'" "I r'" by blast
  have "{f \<in> set F. (wanted E limit types f \<and> in_range g (fb_ItemId f)) \<and> accepted us is N f} \<union> {f \<in> set F. (wanted E limit types f \<and> in_ranges gs f) \<and> accepted us is N f} =
      {f \<in> set F. (wanted E limit types f \<and> in_ranges (g # gs) f) \<and> accepted us is N f}" by auto
  then have "set P' = set P \<union> obs_set us is {f \<in> set F. (wanted E limit types f \<and> in_ranges (g # gs) f) \<and> accepted us is N f}"
    unfolding r(4) s1(3) Un_assoc obs_set_Un [symmetric] by simp
  moreover have "load_fold (positive_job E db Push limit types positions) (g # gs) (d, tb, ev, r) s = Inr (Inr (d', tb', ev', r'), s)"
    using r1(2) r(1) by (simp add: load_bind_def)
  moreover have "pushes_of E limit types us is N F (concat (g # gs)) (evs1 @ evs)" using pushes_of_append [OF s1(4) r(5)] by simp
  moreover have "push_list Push (evs1 @ evs) r = Inr r'" by (simp add: push_list_append r1(1) r(6))
  ultimately show ?case using r(2,3,7) by blast
qed

subsection \<open>The whole load\<close>

definition load_ready :: "'w::{linorder, one} load_env \<Rightarrow> ('s, 'w) database \<Rightarrow> 's \<Rightarrow> time option \<Rightarrow> user list \<Rightarrow> item list \<Rightarrow> 'w feedback list \<Rightarrow> bool" where
  "load_ready E db s limit users items F \<longleftrightarrow> store_holds db s limit users items F \<and>
     distinct (map user_UserId users) \<and> distinct (map item_ItemId items) \<and>
     (\<forall>user \<in> set users. labels_load E (user_Labels user)) \<and> (\<forall>item \<in> set items. labels_load E (item_Labels item)) \<and>
     sum_list (map (\<lambda>user. label_size (user_Labels user)) users) + sum_list (map (\<lambda>item. label_size (item_Labels (loaded_item E item))) items) \<le> 2147483648 \<and>
     length users < 2147483648 \<and> length items < 2147483648 \<and> 0 < le_NumJobs E \<and>
     mset (le_SortItems E (map (loaded_item E) items)) = mset (map (loaded_item E) items) \<and>
     sorted (map item_ItemId (le_SortItems E (map (loaded_item E) items))) \<and>
     (\<forall>xs. mset (le_Iter E xs) = mset xs) \<and> (\<forall>xs. mset (le_IterMap E xs) = mset xs)"

lemma clear_rows:
  assumes "embedding_rows m es" and "length dims = length (es_dims es)"
  shows "\<exists>vs. p_map (clear_others dims) (es_rows es) = Inr vs"
proof -
  have "\<exists>v. clear_others dims r = Inr v" if r: "r \<in> set (es_rows es)" for r
  proof -
    have "j < length dims" if "(j, e) \<in> set (enumerate 0 r)" for j e
      using that r assms by (fastforce simp: embedding_rows_def in_set_enumerate_eq)
    then have "clear_others dims r = Inr (map (\<lambda>(j, e). if length e \<noteq> dims ! j then [] else e) (enumerate 0 r))"
      unfolding clear_others_def by (intro p_map_all) (auto simp: slice_get_def)
    then show ?thesis by blast
  qed
  then obtain h where "\<And>r. r \<in> set (es_rows es) \<Longrightarrow> clear_others dims r = Inr (h r)" by metis
  then show ?thesis using p_map_all by blast
qed

lemma covered:
  assumes "sorted (map item_ItemId (concat groups))" and "\<forall>g \<in> set groups. g \<noteq> []" and "set is = item_ItemId ` set (concat groups)" and "pair_in us is f = Some (u, i)"
  shows "in_ranges groups f"
proof -
  have "fb_ItemId f \<in> item_ItemId ` set (concat groups)" using assms(3,4) by (auto simp: pair_in_def split: if_splits)
  then obtain g where g: "g \<in> set groups" "fb_ItemId f \<in> item_ItemId ` set g" by auto
  then have "in_range g (fb_ItemId f)" using in_range_group [OF assms(1) g(1)] assms(2) \<open>fb_ItemId f \<in> item_ItemId ` set (concat groups)\<close> by blast
  then show ?thesis using g(1) by (auto simp: in_ranges_def)
qed

lemma obs_set_covered:
  fixes F :: "'w feedback list"
  assumes "\<And>(f :: 'w feedback) u i. pair_in us is f = Some (u, i) \<Longrightarrow> in_ranges groups f"
  shows "obs_set us is {f \<in> set F. Q f \<and> in_ranges groups f} = set (obs_of us is (filter Q F))"
  unfolding set_obs set_filter obs_set_def using assms by blast

lemma obs_set_accepted:
  fixes F :: "'w feedback list"
  assumes "\<And>(f :: 'w feedback) u i. pair_in us is f = Some (u, i) \<Longrightarrow> in_ranges groups f"
  shows "obs_set us is {f \<in> set F. (Q f \<and> in_ranges groups f) \<and> accepted us is N f} =
    set (filter (\<lambda>p. latest N (row (fst p)) (fst (snd p)) = None) (obs_of us is (filter Q F)))"
proof -
  have "{f \<in> set F. (Q f \<and> in_ranges groups f) \<and> accepted us is N f} = set (filter (accepted us is N) (filter Q F))"
    using assms by (auto simp: accepted_def split: option.splits)
  then show ?thesis using set_obs [of us "is" "filter (accepted us is N) (filter Q F)"] by (simp only: obs_of_accepted)
qed

text \<open>The tables classify as the feedback that is wanted does, before anything is left out.\<close>

lemma class_of_raw:
  assumes N: "latest N' = latest N" and P: "set P' = set (filter (\<lambda>p. latest N' (row (fst p)) (fst (snd p)) = None) P)"
    and R: "set R' = set (filter (unread N' P') R)"
  shows "class_of N' P' R' a i = class_of N P R a i"
    and "latest P' a i \<noteq> None \<Longrightarrow> latest N' a i = None" and "latest R' a i \<noteq> None \<Longrightarrow> latest N' a i = None \<and> latest P' a i = None"
proof -
  have p: "latest P' a i = (if latest N' a i = None then latest P a i else None)"
    using latest_set [OF P] latest_filter [of "\<lambda>p. latest N' (row (fst p)) (fst (snd p)) = None" "latest N'" P a i] by simp
  let ?K = "\<lambda>a i. if latest N' a i = None then latest P' a i else Some 0"
  have "unread N' P' q = (?K (row (fst q)) (fst (snd q)) = None)" for q by (simp add: unread_def)
  from latest_filter [of "unread N' P'" ?K, OF this] have r: "latest R' a i = (if ?K a i = None then latest R a i else None)"
    using latest_set [OF R] by simp
  show "class_of N' P' R' a i = class_of N P R a i" using p r by (auto simp: class_of_def N split: option.split if_splits)
  show "latest P' a i \<noteq> None \<Longrightarrow> latest N' a i = None" using p by (auto split: if_splits)
  show "latest R' a i \<noteq> None \<Longrightarrow> latest N' a i = None \<and> latest P' a i = None" using r by (auto split: if_splits)
qed

definition ctr_samples :: "'w ctr_dataset \<Rightarrow> 'w sample list" where
  "ctr_samples c = zip (cd_Users c) (zip (cd_Items c) (zip (cd_Target c) (cd_Timestamps c)))"

lemma ctr_of_ok:
  assumes "embedding_rows m es"
  shows "\<exists>c. ctr_of E d ul il es tb = Inr c \<and> ctr_samples c = create_samples (le_Iter E) (le_IterMap E) tb"
proof -
  obtain vs where vs: "p_map (clear_others (embedding_dims E es)) (es_rows es) = Inr vs" using clear_rows [OF assms, of "embedding_dims E es"] by (auto simp: embedding_dims_def)
  have z: "zip (map (\<lambda>(u, i, y, t). u) xs) (zip (map (\<lambda>(u, i, y, t). i) xs) (zip (map (\<lambda>(u, i, y, t). y) xs) (map (\<lambda>(u, i, y, t). t) xs))) = xs"
    for xs :: "'a sample list" by (induction xs) auto
  show ?thesis using vs by (simp add: ctr_of_def Let_def ctr_samples_def z)
qed

text \<open>What the negative feedback is: nothing, when no type is negative.\<close>

definition negative_obs :: "'w::linorder load_env \<Rightarrow> time option \<Rightarrow> 'w fb_expr list \<Rightarrow> string list \<Rightarrow> string list \<Rightarrow> 'w feedback list \<Rightarrow> obs list" where
  "negative_obs E limit types us is F = (if types = [] then [] else obs_of us is (filter (wanted E limit types) F))"

lemma Split_groups:
  assumes "0 < n"
  shows "\<exists>groups. Split xs n = Inr groups \<and> concat groups = xs \<and> (\<forall>g \<in> set groups. g \<noteq> [])"
proof (cases "xs = []")
  case True
  then show ?thesis by (simp add: Split_def)
next
  case False
  obtain cs k where "Split xs n = Inr cs" "concat cs = xs" "k > 0" "\<forall>c \<in> set cs. length c = k \<or> length c = k + 1"
    using Split_chunks [of xs n] False assms by blast
  then show ?thesis by (intro exI [of _ cs]) auto
qed

lemma distinct_group: "distinct (map h (concat gs)) \<Longrightarrow> g \<in> set gs \<Longrightarrow> distinct (map h g)"
  by (induction gs) auto

text \<open>Users, items and their groups.\<close>

definition groups_ok :: "'w load_env \<Rightarrow> item list \<Rightarrow> item list list \<Rightarrow> bool" where
  "groups_ok E items groups \<longleftrightarrow> mset (concat groups) = mset (map (loaded_item E) items) \<and> sorted (map item_ItemId (concat groups)) \<and>
     (\<forall>g \<in> set groups. g \<noteq> [])"

lemma groups_ok_facts:
  assumes "groups_ok E items groups" and "distinct (map item_ItemId items)"
  shows "item_ItemId ` set (concat groups) = item_ItemId ` set items" and "distinct (map item_ItemId (concat groups))"
proof -
  have m: "mset (map item_ItemId (concat groups)) = mset (map item_ItemId items)"
    using assms(1) by (simp add: groups_ok_def multiset.map_comp o_def)
  show "item_ItemId ` set (concat groups) = item_ItemId ` set items" using mset_eq_setD [OF m] by (simp only: set_map)
  show "distinct (map item_ItemId (concat groups))" using mset_eq_imp_distinct_iff [OF m] assms(2) by blast
qed

lemma load_ids:
  fixes E :: "'w::{linorder, one} load_env"
  assumes "load_ready E db s limit users items F" and "0 \<le> nu" "0 \<le> ni"
  shows "\<exists>d0 d1 ul d2 il es groups positions m. NewDataset (le_Now E) nu ni = Inr d0 \<and> p_fold (load_user E) users (d0, no_labels) = Inr (d1, ul) \<and>
    p_fold (load_item E) items (d1, no_labels, no_embeddings, []) = Inr (d2, il, es, map (loaded_item E) items) \<and>
    dataset_inv (map user_UserId users) (map item_ItemId items) m [] d2 \<and> embedding_rows (length items) es \<and>
    Split (le_SortItems E (map (loaded_item E) items)) (le_NumJobs E) = Inr groups \<and> groups_ok E items groups \<and>
    item_positions d2 groups = Inr positions \<and> length positions = length items \<and> (\<forall>g \<in> set groups. places (map item_ItemId items) positions g)"
proof -
  have h: "distinct (map user_UserId users)" "distinct (map item_ItemId items)"
    "\<forall>user \<in> set users. labels_load E (user_Labels user)" "\<forall>item \<in> set items. labels_load E (item_Labels item)"
    "sum_list (map (\<lambda>user. label_size (user_Labels user)) users) + sum_list (map (\<lambda>item. label_size (item_Labels (loaded_item E item))) items) \<le> 2147483648"
    "length users < 2147483648" "length items < 2147483648" "0 < le_NumJobs E"
    "mset (le_SortItems E (map (loaded_item E) items)) = mset (map (loaded_item E) items)"
    "sorted (map item_ItemId (le_SortItems E (map (loaded_item E) items)))"
    using assms(1) unfolding load_ready_def by blast+
  obtain d0 where d0: "NewDataset (le_Now E) nu ni = Inr d0" "dataset_inv [] [] 0 [] d0" using dataset_inv_New [OF assms(2,3)] by blast
  have lab: "label_rows (length []) (no_labels :: 'w label_state)" and emb: "embedding_rows (length []) no_embeddings"
    by (simp_all add: label_rows_def no_labels_def embedding_rows_def no_embeddings_def)
  from load_users_ok [OF d0(2) lab, of users E] h(1,3,5,6) obtain d1 ul n where d1: "p_fold (load_user E) users (d0, no_labels) = Inr (d1, ul)"
    "dataset_inv (map user_UserId users) [] n [] d1" "n = sum_list (map (\<lambda>user. label_size (user_Labels user)) users)" by auto
  from load_items_ok [OF d1(2) lab emb h(4), of "[]"] h(2,5,7) d1(3) obtain d2 il es m where d2:
    "p_fold (load_item E) items (d1, no_labels, no_embeddings, []) = Inr (d2, il, es, map (loaded_item E) items)"
    "dataset_inv (map user_UserId users) (map item_ItemId items) m [] d2" "embedding_rows (length items) es" by auto
  obtain groups where g: "Split (le_SortItems E (map (loaded_item E) items)) (le_NumJobs E) = Inr groups"
    "concat groups = le_SortItems E (map (loaded_item E) items)" "\<forall>g \<in> set groups. g \<noteq> []" using Split_groups [OF h(8)] by blast
  have gok: "groups_ok E items groups" using g(2,3) h(9,10) by (simp add: groups_ok_def)
  have small: "length (map item_ItemId items) < 2147483648" using h(7) by simp
  obtain positions where "item_positions d2 groups = Inr positions" "length positions = length items"
    "\<forall>g \<in> set groups. places (map item_ItemId items) positions g"
    using item_positions_ok [OF d2(2) small groups_ok_facts(2) [OF gok h(2)]] groups_ok_facts(1) [OF gok h(2)] by auto
  then show ?thesis using d0(1) d1(1) d2 g(1) gok by blast
qed

lemma load_negatives:
  fixes F :: "'w::linorder feedback list"
  assumes db: "store_holds db s ilimit users items F" and d: "dataset_inv us is m ps d" and small: "length us < 2147483648" "length is < 2147483648"
    and gs: "sorted (map item_ItemId (concat groups))" "\<forall>g \<in> set groups. g \<noteq> []" "set is = item_ItemId ` set (concat groups)"
  shows "\<exists>N' tb' ev'. (if types \<noteq> [] then load_fold (negative_job E db limit types d) groups (new_tables True (CountUsers d), ev)
      else load_ok (new_tables False (CountUsers d), ev)) s = Inr (Inr (tb', ev'), s) \<and>
    tables_inv (length us) N' [] [] tb' \<and> latest N' = latest (negative_obs E limit types us is F)"
proof -
  have cov: "in_ranges groups f" if "pair_in us is f = Some (u, i)" for f :: "'w feedback" and u i using covered [OF gs that] .
  have n: "CountUsers d = length us" using d unfolding dataset_inv_def CountUsers_def by (metis length_map)
  show ?thesis
  proof (cases "types = []")
    case True
    then show ?thesis using tables_inv_new [of "length us" False] n by (auto simp: load_ok_def negative_obs_def)
  next
    case False
    have new: "lt_negativeSet (new_tables True (length us)) \<noteq> None" by (simp add: new_tables_def)
    obtain N' tb' ev' where r: "load_fold (negative_job E db limit types d) groups (new_tables True (length us), ev) s = Inr (Inr (tb', ev'), s)"
      "tables_inv (length us) N' [] [] tb'" "set N' = set [] \<union> obs_set us is {f \<in> set F. wanted E limit types f \<and> in_ranges groups f}"
      using negative_jobs [OF db d small gs(2) tables_inv_new new] by blast
    have st: "set N' = set (obs_of us is (filter (wanted E limit types) F))"
      by (simp only: r(3) obs_set_covered [OF cov] list.set Un_empty_left)
    have "latest N' = latest (negative_obs E limit types us is F)" using latest_set [OF st] False by (simp add: negative_obs_def)
    then show ?thesis using r(1,2) False n by auto
  qed
qed

text \<open>The steps from the groups on.\<close>

lemma load_feedback:
  fixes F :: "'w::linorder feedback list"
  assumes db: "store_holds db s ilimit users items F" and d: "dataset_inv us is m ps d" and small: "length us < 2147483648" "length is < 2147483648"
    and gs: "sorted (map item_ItemId (concat groups))" "\<forall>g \<in> set groups. g \<noteq> []" "set is = item_ItemId ` set (concat groups)"
    and ids: "distinct (map item_ItemId (concat groups))" and pl: "\<forall>g \<in> set groups. places is positions g" "length positions = length is"
    and ok: "pusher_ok Push Q I" "\<forall>i \<in> set (concat groups). Q i" "I r"
  shows "\<exists>tb1 ev1 d3 tb2 ev2 r' tb3 ev3 N' P' R' evs.
    (if negTypes \<noteq> [] then load_fold (negative_job E db limit negTypes d) groups (new_tables True (CountUsers d), ev)
      else load_ok (new_tables False (CountUsers d), ev)) s = Inr (Inr (tb1, ev1), s) \<and>
    load_fold (positive_job E db Push limit posTypes positions) groups (d, tb1, ev1, r) s = Inr (Inr (d3, tb2, ev2, r'), s) \<and>
    load_fold (read_job E db limit readTypes d3) groups (tb2, ev2) s = Inr (Inr (tb3, ev3), s) \<and>
    tables_inv (length us) N' P' R' tb3 \<and> latest N' = latest (negative_obs E limit negTypes us is F) \<and>
    set P' = set (filter (\<lambda>p. latest N' (row (fst p)) (fst (snd p)) = None) (obs_of us is (filter (wanted E limit posTypes) F))) \<and>
    set R' = set (filter (unread N' P') (obs_of us is (filter (wanted E limit readTypes) F))) \<and>
    pushes_of E limit posTypes us is N' F (concat groups) evs \<and> push_list Push evs r = Inr r' \<and> I r' \<and>
    (\<exists>ps'. dataset_inv us is m ps' d3)"
proof -
  have cov: "in_ranges groups f" if "pair_in us is f = Some (u, i)" for f :: "'w feedback" and u i using covered [OF gs that] .
  obtain N' tb1 ev1 where s1: "(if negTypes \<noteq> [] then load_fold (negative_job E db limit negTypes d) groups (new_tables True (CountUsers d), ev)
      else load_ok (new_tables False (CountUsers d), ev)) s = Inr (Inr (tb1, ev1), s)"
    "tables_inv (length us) N' [] [] tb1" "latest N' = latest (negative_obs E limit negTypes us is F)"
    using load_negatives [OF db d small gs] by blast
  have gok: "\<forall>g \<in> set groups. g \<noteq> [] \<and> places is positions g \<and> distinct (map item_ItemId g)"
    using gs(2) pl(1) distinct_group [OF ids] by blast
  obtain d3 ps3 tb2 ev2 P' evs r' where s2: "load_fold (positive_job E db Push limit posTypes positions) groups (d, tb1, ev1, r) s = Inr (Inr (d3, tb2, ev2, r'), s)"
    "dataset_inv us is m ps3 d3" "tables_inv (length us) N' P' [] tb2"
    "set P' = set [] \<union> obs_set us is {f \<in> set F. (wanted E limit posTypes f \<and> in_ranges groups f) \<and> accepted us is N' f}"
    "pushes_of E limit posTypes us is N' F (concat groups) evs" "push_list Push evs r = Inr r'" "I r'"
    using positive_groups [OF db small gs(1) ids gs(3) pl(2) ok(1,2) order_refl gok d s1(2) ok(3)] by blast
  obtain R' tb3 ev3 where s3: "load_fold (read_job E db limit readTypes d3) groups (tb2, ev2) s = Inr (Inr (tb3, ev3), s)"
    "tables_inv (length us) N' P' R' tb3"
    "set R' = set [] \<union> {p \<in> obs_set us is {f \<in> set F. wanted E limit readTypes f \<and> in_ranges groups f}. unread N' P' p}"
    using read_jobs [OF db s2(2) small gs(2) s2(3)] by blast
  have "set P' = set (filter (\<lambda>p. latest N' (row (fst p)) (fst (snd p)) = None) (obs_of us is (filter (wanted E limit posTypes) F)))"
    by (simp only: s2(4) obs_set_accepted [OF cov] list.set Un_empty_left)
  moreover have "set R' = set (filter (unread N' P') (obs_of us is (filter (wanted E limit readTypes) F)))"
    by (simp only: s3(3) obs_set_covered [OF cov] list.set set_filter Un_empty_left)
  ultimately show ?thesis using s1 s2(1,2,5-7) s3(1,2) by blast
qed

lemma load_ok_all:
  fixes E :: "'w::{linorder, one, uminus} load_env"
  assumes ready: "load_ready E db s (days_ago E itemTTL) users items F" and ok: "pusher_ok Push Q I" "\<forall>item \<in> set items. Q (loaded_item E item)" "I r"
    and names: "us = map user_UserId users" "is = map item_ItemId items" "limit = days_ago E feedbackTTL"
  shows "\<exists>ctr d ev' r' N' P' R' tb groups evs m ps. LoadDataFromDatabase E db Push posTypes negTypes readTypes itemTTL feedbackTTL ev r s = Inr (Inr (ctr, d, ev', r'), s) \<and>
    ctr_samples ctr = create_samples (le_Iter E) (le_IterMap E) tb \<and> tables_inv (length us) N' P' R' tb \<and>
    latest N' = latest (negative_obs E limit negTypes us is F) \<and>
    set P' = set (filter (\<lambda>p. latest N' (row (fst p)) (fst (snd p)) = None) (obs_of us is (filter (wanted E limit posTypes) F))) \<and>
    set R' = set (filter (unread N' P') (obs_of us is (filter (wanted E limit readTypes) F))) \<and>
    groups_ok E items groups \<and> pushes_of E limit posTypes us is N' F (concat groups) evs \<and> push_list Push evs r = Inr r' \<and> I r' \<and>
    dataset_inv us is m ps d"
proof -
  have h: "store_holds db s (days_ago E itemTTL) users items F" "length us < 2147483648" "length is < 2147483648" "distinct (map item_ItemId items)"
    using ready names by (simp_all add: load_ready_def)
  obtain nu ni nf bs cs where st: "0 \<le> nu" "dst_CountUsers (db_Store db) s = (Inr nu, s)" "0 \<le> ni" "dst_CountItems (db_Store db) s = (Inr ni, s)"
    "db_CountFeedback db s = (Inr nf, s)" "db_GetUserStream db s batchSize = ((bs, None), s)" "concat bs = users"
    "db_GetItemStream db s batchSize (days_ago E itemTTL) = ((cs, None), s)" "concat cs = items"
    using h(1) unfolding store_holds_def by blast
  obtain d0 d1 ul d2 il es groups positions m where l: "NewDataset (le_Now E) nu ni = Inr d0" "p_fold (load_user E) users (d0, no_labels) = Inr (d1, ul)"
    "p_fold (load_item E) items (d1, no_labels, no_embeddings, []) = Inr (d2, il, es, map (loaded_item E) items)"
    "dataset_inv us is m [] d2" "embedding_rows (length items) es"
    "Split (le_SortItems E (map (loaded_item E) items)) (le_NumJobs E) = Inr groups" "groups_ok E items groups"
    "item_positions d2 groups = Inr positions" "length positions = length is" "\<forall>g \<in> set groups. places is positions g"
    using load_ids [OF ready st(1,3)] unfolding names length_map by blast
  have gs: "sorted (map item_ItemId (concat groups))" "\<forall>g \<in> set groups. g \<noteq> []" using l(7) by (simp_all add: groups_ok_def)
  have cover: "set is = item_ItemId ` set (concat groups)" using groups_ok_facts(1) [OF l(7) h(4)] names(2) by simp
  have "set (concat groups) = loaded_item E ` set items" using l(7) unfolding groups_ok_def by (metis list.set_map mset_eq_setD)
  then have Q: "\<forall>i \<in> set (concat groups). Q i" using ok(2) by (simp only: ball_simps)
  obtain tb1 ev1 d3 tb2 ev2 r' tb3 ev3 N' P' R' evs ps where f:
    "(if negTypes \<noteq> [] then load_fold (negative_job E db limit negTypes d2) groups (new_tables True (CountUsers d2), ev)
      else load_ok (new_tables False (CountUsers d2), ev)) s = Inr (Inr (tb1, ev1), s)"
    "load_fold (positive_job E db Push limit posTypes positions) groups (d2, tb1, ev1, r) s = Inr (Inr (d3, tb2, ev2, r'), s)"
    "load_fold (read_job E db limit readTypes d3) groups (tb2, ev2) s = Inr (Inr (tb3, ev3), s)"
    "tables_inv (length us) N' P' R' tb3" "latest N' = latest (negative_obs E limit negTypes us is F)"
    "set P' = set (filter (\<lambda>p. latest N' (row (fst p)) (fst (snd p)) = None) (obs_of us is (filter (wanted E limit posTypes) F)))"
    "set R' = set (filter (unread N' P') (obs_of us is (filter (wanted E limit readTypes) F)))"
    "pushes_of E limit posTypes us is N' F (concat groups) evs" "push_list Push evs r = Inr r'" "I r'" "dataset_inv us is m ps d3"
    using load_feedback [OF h(1) l(4) h(2,3) gs cover groups_ok_facts(2) [OF l(7) h(4)] l(10,9) ok(1) Q ok(3),
      where E = E and limit = limit and negTypes = negTypes and posTypes = posTypes and readTypes = readTypes and ev = ev] by blast
  obtain c where c: "ctr_of E d3 ul il es tb3 = Inr c" "ctr_samples c = create_samples (le_Iter E) (le_IterMap E) tb3"
    using ctr_of_ok [OF l(5)] by blast
  have us: "load_stream (\<lambda>s. db_GetUserStream db s batchSize) (load_user E) Inr (d0, no_labels) s = Inr (Inr (d1, ul), s)"
    by (rule load_stream_run [where stream = "\<lambda>s. db_GetUserStream db s batchSize", OF st(6)]) (use l(2) st(7) in simp_all)
  have "is": "load_stream (\<lambda>s. db_GetItemStream db s batchSize (days_ago E itemTTL)) (load_item E) Inr (d1, no_labels, no_embeddings, []) s =
      Inr (Inr (d2, il, es, map (loaded_item E) items), s)"
    by (rule load_stream_run [where stream = "\<lambda>s. db_GetItemStream db s batchSize (days_ago E itemTTL)", OF st(8)]) (use l(3) st(9) in simp_all)
  have "LoadDataFromDatabase E db Push posTypes negTypes readTypes itemTTL feedbackTTL ev r s = Inr (Inr (c, d3, ev3, r'), s)"
    unfolding LoadDataFromDatabase_def using f(1-3) unfolding names(3)
    by (simp add: us "is" load_bind_def load_call_def load_run_def st(2,4,5) l(1,6,8) c(1) load_ok_def
      del: if_split)
  then show ?thesis using c(2) f(4-11) l(7) by blast
qed

subsection \<open>The results\<close>

definition wanted_obs :: "'w::linorder load_env \<Rightarrow> time option \<Rightarrow> 'w fb_expr list \<Rightarrow> user list \<Rightarrow> item list \<Rightarrow> 'w feedback list \<Rightarrow> obs list" where
  "wanted_obs E limit types users items F = obs_of (map user_UserId users) (map item_ItemId items) (filter (wanted E limit types) F)"

definition wanted_negatives :: "'w::linorder load_env \<Rightarrow> time option \<Rightarrow> 'w fb_expr list \<Rightarrow> user list \<Rightarrow> item list \<Rightarrow> 'w feedback list \<Rightarrow> obs list" where
  "wanted_negatives E limit types users items F = (if types = [] then [] else wanted_obs E limit types users items F)"

lemma wanted_negatives_obs:
  "wanted_negatives E limit types users items F = negative_obs E limit types (map user_UserId users) (map item_ItemId items) F"
  by (simp add: wanted_negatives_def wanted_obs_def negative_obs_def)

text \<open>
  (C4) Loading the data set: over a store that answers its queries, with distinct ids and labels that convert, the load ends without
  panic and without error. A pair of a user and an item has at most one sample: a negative one with the time of its latest negative
  feedback, if there is any; else a positive one with the time of its latest positive feedback; else a negative one with the
  time of its latest read. Only feedback within the time limits counts; where no types are given for positive or read feedback, all
  types do. The order in which the store returns feedback and the grouping of the items do not matter.
\<close>

theorem load_classifies:
  fixes E :: "'w::{linorder, one, uminus} load_env"
  assumes ready: "load_ready E db s (days_ago E itemTTL) users items F"
    and push: "pusher_ok Push Q I" "\<forall>item \<in> set items. Q (loaded_item E item)" "I r"
  shows "\<exists>ctr d ev' r'. LoadDataFromDatabase E db Push posTypes negTypes readTypes itemTTL feedbackTTL ev r s = Inr (Inr (ctr, d, ev', r'), s) \<and>
    (\<forall>a < length users. \<forall>i. filter (on_pair a i) (ctr_samples ctr) =
      sample_of a i (class_of (wanted_negatives E (days_ago E feedbackTTL) negTypes users items F)
        (wanted_obs E (days_ago E feedbackTTL) posTypes users items F) (wanted_obs E (days_ago E feedbackTTL) readTypes users items F) a i))"
proof -
  obtain ctr d ev' r' N' P' R' tb where l:
    "LoadDataFromDatabase E db Push posTypes negTypes readTypes itemTTL feedbackTTL ev r s = Inr (Inr (ctr, d, ev', r'), s)"
    "ctr_samples ctr = create_samples (le_Iter E) (le_IterMap E) tb" "tables_inv (length users) N' P' R' tb"
    "latest N' = latest (wanted_negatives E (days_ago E feedbackTTL) negTypes users items F)"
    "set P' = set (filter (\<lambda>p. latest N' (row (fst p)) (fst (snd p)) = None) (wanted_obs E (days_ago E feedbackTTL) posTypes users items F))"
    "set R' = set (filter (unread N' P') (wanted_obs E (days_ago E feedbackTTL) readTypes users items F))"
    using load_ok_all [OF ready push refl refl refl, where posTypes = posTypes and negTypes = negTypes and readTypes = readTypes and ev = ev]
    unfolding wanted_negatives_obs wanted_obs_def length_map by blast
  note raw = class_of_raw [OF l(4-6)]
  have n: "length users \<le> 2147483648" and iter: "\<forall>xs. mset (le_Iter E xs) = mset xs" "\<forall>xs. mset (le_IterMap E xs) = mset xs"
    using ready by (simp_all add: load_ready_def)
  have "filter (on_pair a i) (ctr_samples ctr) = sample_of a i (class_of N' P' R' a i)" if "a < length users" for a i
    unfolding l(2) by (rule samples_of_pair [OF l(3) n that raw(2,3) iter])
  then show ?thesis using l(1) unfolding raw(1) by blast
qed

text \<open>The leaderboards take the same items in the same order.\<close>

lemma p_map_nth: "p_map f xs = Inr ys \<Longrightarrow> length ys = length xs \<and> (\<forall>k < length xs. f (xs ! k) = Inr (ys ! k))"
proof (induction xs arbitrary: ys)
  case (Cons x xs)
  obtain y zs where y: "f x = Inr y" "p_map f xs = Inr zs" "ys = y # zs" using Cons.prems by (auto simp: p_bind_Inr)
  then show ?case using Cons.IH [OF y(2)] by (auto simp: nth_Cons split: nat.split)
qed simp

lemma push_list_leaderboards:
  "push_list (push_leaderboards L) evs ls = Inr ls' \<Longrightarrow> length ls' = length ls \<and> (\<forall>k < length ls. lb_push_all L (ls ! k) evs = Inr (ls' ! k))"
proof (induction evs arbitrary: ls)
  case (Cons e evs)
  obtain i fs where e: "e = (i, fs)" by fastforce
  obtain ls1 where ls1: "p_map (\<lambda>l. lb_Push L l i fs) ls = Inr ls1" "push_list (push_leaderboards L) evs ls1 = Inr ls'"
    using Cons.prems e by (auto simp: push_list_def push_leaderboards_def p_bind_Inr)
  show ?case using Cons.IH [OF ls1(2)] p_map_nth [OF ls1(1)] e by simp
qed (simp add: push_list_def)

lemma lb_push_all_fields: "lb_push_all L l evs = Inr l' \<Longrightarrow> lb_name l' = lb_name l \<and> lb_timestamp l' = lb_timestamp l"
proof (induction evs arbitrary: l)
  case (Cons e evs)
  obtain i fs where e: "e = (i, fs)" by fastforce
  have one: "lb_name l1 = lb_name l \<and> lb_timestamp l1 = lb_timestamp l" if "lb_Push L l i fs = Inr l1" for l1
    using that unfolding lb_Push_def by (auto split: if_split_asm sum.split_asm bool.split_asm option.split_asm)
  obtain l1 where l1: "lb_Push L l i fs = Inr l1" "lb_push_all L l1 evs = Inr l'" using Cons.prems e by (auto split: sum.splits)
  then show ?case using Cons.IH [OF l1(2)] one [OF l1(1)] by simp
qed simp

definition leaderboard_inv :: "('p, 'w::linorder) expr_lib \<Rightarrow> ('p, 'w) leaderboard \<Rightarrow> bool" where
  "leaderboard_inv L l \<longleftrightarrow> filter_ok L l \<and> '''' \<in> fst ` set (lb_heaps l) \<and> (\<exists>P. heaps_hold (lb_heapSize l) P (lb_heaps l))"

lemma push_leaderboards_ok: "pusher_ok (push_leaderboards L) item_ok (\<lambda>ls. \<forall>l \<in> set ls. leaderboard_inv L l)"
proof -
  have step: "\<exists>l'. lb_Push L l i fs = Inr l' \<and> leaderboard_inv L l'" if l: "leaderboard_inv L l" and i: "item_ok i" for l i fs
  proof -
    obtain P where h: "filter_ok L l" "'''' \<in> fst ` set (lb_heaps l)" "heaps_hold (lb_heapSize l) P (lb_heaps l)"
      using l unfolding leaderboard_inv_def by blast
    obtain heaps where "lb_Push L l i fs = Inr (l\<lparr>lb_heaps := heaps\<rparr>)" "'''' \<in> fst ` set heaps"
      "heaps_hold (lb_heapSize l) (\<lambda>c. P c @ lb_entries L l c [(i, fs)]) heaps"
      using lb_Push_hold [OF h(1) i h(3,2), of fs] by blast
    then show ?thesis using h(1) by (intro exI [of _ "l\<lparr>lb_heaps := heaps\<rparr>"]) (auto simp: leaderboard_inv_def)
  qed
  have "\<exists>ls'. p_map (\<lambda>l. lb_Push L l i fs) ls = Inr ls' \<and> (\<forall>l \<in> set ls'. leaderboard_inv L l)" if i: "item_ok i" and ls: "\<forall>l \<in> set ls. leaderboard_inv L l" for i fs ls
    using ls
  proof (induction ls)
    case (Cons l ls)
    obtain l' where "lb_Push L l i fs = Inr l'" "leaderboard_inv L l'" using step [OF _ i] Cons.prems by fastforce
    then show ?case using Cons by auto
  qed simp
  then show ?thesis by (auto simp: pusher_ok_def push_leaderboards_def)
qed

text \<open>
  From the store to the leaderboards: after a load over a store that answers its queries, every leaderboard has been offered
  each loaded item exactly once, with exactly the positive feedback on this item that counts (of known users, within
  the time limits, without negative feedback on the pair). What \<open>PopAll\<close> then lists are, for every category and for all items, the
  greatest of the scores computed from this feedback, as many as the leaderboard has places, each with its own item.
\<close>

lemma load_fills_leaderboards:
  fixes E :: "'w::{linorder, one, uminus, zero} load_env"
  assumes ready: "load_ready E db s (days_ago E itemTTL) users items F" and cats: "\<forall>item \<in> set items. item_ok item"
    and ls: "\<forall>l \<in> set ls. filter_ok L l \<and> (\<exists>cfg. NewNonPersonalized L cfg n t = Inr l)" and env: "env_ok W"
  shows "\<exists>ctr d ev' ls' evs. LoadDataFromDatabase E db (push_leaderboards L) posTypes negTypes readTypes itemTTL feedbackTTL ev ls s =
      Inr (Inr (ctr, d, ev', ls'), s) \<and>
    mset (map fst evs) = mset (map (loaded_item E) items) \<and>
    (\<forall>e \<in> set evs. mset (snd e) = filter_mset (\<lambda>f. wanted E (days_ago E feedbackTTL) posTypes f \<and> fb_ItemId f = item_ItemId (fst e) \<and>
      accepted (map user_UserId users) (map item_ItemId items) (wanted_negatives E (days_ago E feedbackTTL) negTypes users items F) f) (mset F)) \<and>
    length ls' = length ls \<and> (\<forall>k < length ls. lb_name (ls' ! k) = lb_name (ls ! k) \<and> lb_timestamp (ls' ! k) = lb_timestamp (ls ! k)) \<and>
    (\<forall>k < length ls. \<exists>out l2. lb_PopAll W (ls' ! k) = Inr (out, l2) \<and> distinct (map score_Id out) \<and>
      (\<forall>c. map score_Score (filter (\<lambda>x. c \<in> set (score_Categories x)) out) = take (nat n) (rev (sort (map snd (lb_entries L (ls ! k) c evs))))) \<and>
      (\<forall>x \<in> set out. \<forall>c \<in> set (score_Categories x). (score_Id x, score_Score x) \<in> set (lb_entries L (ls ! k) c evs)))"
proof -
  have inv: "\<forall>l \<in> set ls. leaderboard_inv L l"
  proof
    fix l assume "l \<in> set ls"
    then obtain cfg where l: "filter_ok L l" "NewNonPersonalized L cfg n t = Inr l" using ls by blast
    note fresh = New_hold [OF l(2)]
    have "heaps_hold (lb_heapSize l) (\<lambda>c. []) (lb_heaps l)" by (simp add: fresh heaps_hold_def)
    then show "leaderboard_inv L l" using l(1) fresh by (auto simp: leaderboard_inv_def)
  qed
  have ok: "\<forall>item \<in> set items. item_ok (loaded_item E item)" using cats by (simp add: item_ok_def loaded_item_def)
  obtain ctr d ev' ls' N' groups evs where l:
    "LoadDataFromDatabase E db (push_leaderboards L) posTypes negTypes readTypes itemTTL feedbackTTL ev ls s = Inr (Inr (ctr, d, ev', ls'), s)"
    "latest N' = latest (wanted_negatives E (days_ago E feedbackTTL) negTypes users items F)" "groups_ok E items groups"
    "pushes_of E (days_ago E feedbackTTL) posTypes (map user_UserId users) (map item_ItemId items) N' F (concat groups) evs"
    "push_list (push_leaderboards L) evs ls = Inr ls'"
    using load_ok_all [OF ready push_leaderboards_ok ok inv refl refl refl, where posTypes = posTypes and negTypes = negTypes and readTypes = readTypes and ev = ev] unfolding wanted_negatives_obs by blast
  have items: "mset (map fst evs) = mset (map (loaded_item E) items)" using l(3,4) by (simp add: groups_ok_def pushes_of_def)
  have acc: "accepted us is N' f = accepted us is (wanted_negatives E (days_ago E feedbackTTL) negTypes users items F) f" for us "is" f
    unfolding accepted_def l(2) by (rule refl)
  have own: "\<forall>e \<in> set evs. mset (snd e) = filter_mset (\<lambda>f. wanted E (days_ago E feedbackTTL) posTypes f \<and> fb_ItemId f = item_ItemId (fst e) \<and>
      accepted (map user_UserId users) (map item_ItemId items) (wanted_negatives E (days_ago E feedbackTTL) negTypes users items F) f) (mset F)"
    using l(4) unfolding pushes_of_def acc by (simp add: conj_commute conj_left_commute)
  have fsts: "fst ` set evs = loaded_item E ` set items" using mset_eq_setD [OF items] by simp
  have "\<forall>i \<in> fst ` set evs. item_ok i" unfolding fsts using ok by blast
  then have evok: "\<forall>e \<in> set evs. item_ok (fst e)" by blast
  have "mset (map (\<lambda>e. item_ItemId (fst e)) evs) = mset (map item_ItemId items)"
    using arg_cong [OF items, of "image_mset item_ItemId"] by (simp add: multiset.map_comp o_def)
  then have ids: "distinct (map (\<lambda>e. item_ItemId (fst e)) evs)"
    using ready mset_eq_imp_distinct_iff unfolding load_ready_def by blast
  have fields: "lb_name (ls' ! k) = lb_name (ls ! k) \<and> lb_timestamp (ls' ! k) = lb_timestamp (ls ! k)" if k: "k < length ls" for k
    using lb_push_all_fields push_list_leaderboards [OF l(5)] k by blast
  have "\<exists>out l2. lb_PopAll W (ls' ! k) = Inr (out, l2) \<and> distinct (map score_Id out) \<and>
      (\<forall>c. map score_Score (filter (\<lambda>x. c \<in> set (score_Categories x)) out) = take (nat n) (rev (sort (map snd (lb_entries L (ls ! k) c evs))))) \<and>
      (\<forall>x \<in> set out. \<forall>c \<in> set (score_Categories x). (score_Id x, score_Score x) \<in> set (lb_entries L (ls ! k) c evs))" if k: "k < length ls" for k
  proof -
    obtain cfg where c: "filter_ok L (ls ! k)" "NewNonPersonalized L cfg n t = Inr (ls ! k)" using ls nth_mem [OF k] by blast
    have "lb_push_all L (ls ! k) evs = Inr (ls' ! k)" using push_list_leaderboards [OF l(5)] k by blast
    then show ?thesis using leaderboard_lists [OF env c(2,1) evok ids] by auto
  qed
  then show ?thesis using l(1) items own fields push_list_leaderboards [OF l(5)] by blast
qed

subsection \<open>An example\<close>

text \<open>A store over lists: it answers a query with the feedback that matches, in the order of the list.\<close>

definition list_store :: "user list \<Rightarrow> item list \<Rightarrow> 'w::linorder feedback list \<Rightarrow> ('s, 'w) database" where
  "list_store users items F = NoDatabase\<lparr>
     db_Store := db_Store NoDatabase\<lparr>dst_CountUsers := \<lambda>s. (Inr (int (length users)), s), dst_CountItems := \<lambda>s. (Inr (int (length items)), s)\<rparr>,
     db_CountFeedback := \<lambda>s. (Inr (int (length F)), s), db_GetUserStream := \<lambda>s n. (([users], None), s),
     db_GetItemStream := \<lambda>s n limit. (([items], None), s),
     db_GetFeedbackStream := \<lambda>s n opts. (([filter (scan_matches (NewScanOptions (map Some opts))) F], None), s)\<rparr>"

lemma sorted_drop: "sorted (x # xs) \<Longrightarrow> x \<notin> set (dropWhile ((=) x) xs)"
proof (induction xs)
  case (Cons y ys)
  then show ?case by (cases "x = y") (auto dest: order_antisym)
qed simp

lemma sorted_grouped: "sorted xs \<Longrightarrow> grouped xs"
proof (induction xs)
  case (Cons x xs)
  then show ?case using sorted_drop [OF Cons.prems] by simp
qed simp

lemma list_store_holds: "sorted (map fb_ItemId F) \<Longrightarrow> store_holds (list_store users items F) s limit users items F"
  by (auto simp: store_holds_def list_store_def sorted_grouped sorted_filter)

definition example_load_env :: "'w::zero load_env" where
  "example_load_env = \<lparr>le_Now = 10, le_ConfigNow = 10, le_AddDays = (\<lambda>t d. t + d), le_FromAny = (\<lambda>xs. None), le_Float = (\<lambda>n. 0), le_to16 = (\<lambda>n. 0),
     le_Show = (\<lambda>w. ''''), le_SortItems = sort_key item_ItemId, le_Iter = (\<lambda>xs. xs), le_IterMap = (\<lambda>xs. xs), le_IterDims = (\<lambda>c. []), le_NumJobs = 2\<rparr>"

definition example_users :: "user list" where
  "example_users = [\<lparr>user_UserId = ''u'', user_Labels = JNull, user_Comment = '''', user_UpdateAt = 0\<rparr>]"

definition example_items :: "item list" where
  "example_items = [\<lparr>item_ItemId = ''a'', item_IsHidden = False, item_Categories = [''x''], item_Timestamp = 3, item_UpdateAt = 0, item_Labels = JNull, item_Comment = ''''\<rparr>]"

definition example_feedback :: "string \<Rightarrow> time \<Rightarrow> 'w::zero feedback" where
  "example_feedback ty t = \<lparr>fb_FeedbackType = ty, fb_UserId = ''u'', fb_ItemId = ''a'', fb_Value = 0, fb_Timestamp = t, fb_Updated = 0, fb_Labels = JNull, fb_Comment = ''''\<rparr>"

lemma example_ready: "load_ready example_load_env (list_store example_users example_items F) s limit example_users example_items F"
  if "sorted (map fb_ItemId F)"
  using list_store_holds [OF that]
  by (simp add: load_ready_def example_load_env_def example_users_def example_items_def labels_load_def ConvertLabels_def loaded_item_def)

definition typed :: "string \<Rightarrow> 'w::zero fb_expr" where
  "typed ty = \<lparr>fe_FeedbackType = ty, fe_ExprType = ExprNone, fe_Value = 0\<rparr>"

lemmas example_load_simps = wanted_negatives_def wanted_obs_def wanted_def typed_def example_feedback_def example_users_def example_items_def
  example_load_env_def days_ago_def pair_in_def index_of_def FeedbackExpr_Match_def

lemma example_obs: "wanted_obs example_load_env None types example_users example_items [example_feedback ty t] =
    (if (types \<noteq> [] \<longrightarrow> MatchFeedbackTypeExpressions types ty 0) \<and> t \<le> 10 then [(0, 0, t)] else [])"
  by (simp add: example_load_simps)

text \<open>Where no read types are configured, feedback of a type that is configured nowhere makes a negative sample.\<close>

lemma no_read_types_read_everything:
  "class_of (wanted_negatives example_load_env None [] example_users example_items [example_feedback ''note'' 7])
     (wanted_obs example_load_env None [typed ''like''] example_users example_items [example_feedback ''note'' 7])
     (wanted_obs example_load_env None [] example_users example_items [example_feedback ''note'' 7]) 0 0 = Some (-1 :: int, 7)"
  by (simp add: example_obs wanted_negatives_def class_of_def latest_def times_of_def max_time_def typed_def FeedbackExpr_Match_def row_def)

lemma example_days: "days_ago example_load_env 0 = None"
  by (simp add: days_ago_def)

lemma example_feedback_sorted: "sorted (map fb_ItemId [example_feedback ty t, example_feedback ty' t'])" "sorted (map fb_ItemId [example_feedback ty t])"
  by (simp_all add: example_feedback_def)

lemma count_pusher_ok: "pusher_ok (\<lambda>i fs n. Inr (Suc n)) (\<lambda>i. True) (\<lambda>n. True)"
  by (simp add: pusher_ok_def)

theorem load_classifies_witness:
  "\<exists>ctr d ev r. LoadDataFromDatabase example_load_env (list_store example_users example_items [example_feedback ''read'' 7, example_feedback ''like'' 5 :: int feedback])
      (\<lambda>i fs n. Inr (Suc n)) [typed ''like''] [typed ''dislike''] [typed ''read''] 0 0 (NewOnlineEvaluator 10 [] []) 0 () = Inr (Inr (ctr :: int ctr_dataset, d, ev, r), ()) \<and>
    filter (on_pair 0 0) (ctr_samples ctr) = [(0, 0, 1, 5)]"
proof -
  let ?F = "[example_feedback ''read'' 7, example_feedback ''like'' 5] :: int feedback list"
  have ready: "load_ready example_load_env (list_store example_users example_items ?F) () (days_ago example_load_env 0) example_users example_items ?F"
    by (rule example_ready [OF example_feedback_sorted(1)])
  have cls: "class_of (wanted_negatives example_load_env None [typed ''dislike''] example_users example_items ?F)
     (wanted_obs example_load_env None [typed ''like''] example_users example_items ?F)
     (wanted_obs example_load_env None [typed ''read''] example_users example_items ?F) 0 0 = Some (1 :: int, 5)"
    by (simp add: example_load_simps class_of_def latest_def times_of_def max_time_def row_def)
  have user: "0 < length example_users" by (simp add: example_users_def)
  from load_classifies [OF ready count_pusher_ok, where r = 0 and feedbackTTL = 0 and posTypes = "[typed ''like'']" and negTypes = "[typed ''dislike'']"
      and readTypes = "[typed ''read'']" and ev = "NewOnlineEvaluator 10 [] []"]
  obtain ctr d ev r where l: "LoadDataFromDatabase example_load_env (list_store example_users example_items ?F)
      (\<lambda>i fs n. Inr (Suc n)) [typed ''like''] [typed ''dislike''] [typed ''read''] 0 0 (NewOnlineEvaluator 10 [] []) 0 () = Inr (Inr (ctr, d, ev, r), ())"
    "filter (on_pair 0 0) (ctr_samples ctr) = sample_of 0 0 (Some (1, 5))"
    using user unfolding example_days cls [symmetric] by blast
  have "sample_of 0 0 (Some (1 :: int, 5)) = [(0, 0, 1, 5)]" by (simp add: sample_of_def)
  then show ?thesis using l by metis
qed

end
