(* ===== verification/Master_Models.thy ===== *)
theory Master_Models
  imports Decimal Byte_Codec Dataset Vectors Cache_Proxy Ctr_Data
begin

text \<open>
  Training and publishing models (\<open>master/tasks.go\<close>): \<open>trainCollaborativeFiltering\<close>, \<open>trainClickThroughRatePrediction\<close>, and the removal of
  models that are out of date. Fitting a model is numerical and a parameter, and so
  are the blob store, the vector database, the meta store and the cache, all functions of one state of the outside world. A
  \<open>float32\<close> of a factor is its 32 bits. Mutexes make the accesses to the fields of the master atomic; one training runs at a time,
  and the clock stands still from the end of its fit.
\<close>

subsection \<open>Fields of the master\<close>

text \<open>\<open>meta.Model\<close>\<close>

record ('p, 'c) model_meta =
  md_ID :: int
  md_Type :: string
  md_Params :: 'p
  md_Score :: 'c

definition md_Equal :: "('p, 'c) model_meta \<Rightarrow> ('p, 'c) model_meta \<Rightarrow> bool" where
  "md_Equal a b = (md_Type a = md_Type b \<and> md_Params a = md_Params b)"

record 'f cf_score =
  cfs_NDCG :: 'f
  cfs_Precision :: 'f
  cfs_Recall :: 'f

record 'f ctr_model_score =
  cts_RMSE :: 'f
  cts_Precision :: 'f
  cts_Recall :: 'f
  cts_Accuracy :: 'f
  cts_AUC :: 'f

record ('p, 'f) models =
  ms_cfMeta :: "('p, 'f cf_score) model_meta"
  ms_cfTarget :: "('p, 'f cf_score) model_meta"
  ms_cfTrainSetSize :: int
  ms_ctrMeta :: "('p, 'f ctr_model_score) model_meta"
  ms_ctrTarget :: "('p, 'f ctr_model_score) model_meta"
  ms_ctrTrainSetSize :: int

subsection \<open>Services\<close>

text \<open>
  A blob store (\<open>storage/blob\<close>). \<open>Create\<close> returns a writer and a channel that is closed when the upload has ended; the writer is
  addressed by the name of its blob, as no two are open for one name. \<open>bs_Wait\<close> receives from the channel.
\<close>

record 's blob_store =
  bs_Create :: "'s \<Rightarrow> string \<Rightarrow> go_error option \<times> 's"
  bs_Write :: "string \<Rightarrow> 's writer"
  bs_Close :: "'s \<Rightarrow> string \<Rightarrow> go_error option \<times> 's"
  bs_Wait :: "'s \<Rightarrow> string \<Rightarrow> 's"
  bs_List :: "'s \<Rightarrow> (go_error + string list) \<times> 's"
  bs_Remove :: "'s \<Rightarrow> string \<Rightarrow> go_error option \<times> 's"

record ('s, 'w) services =
  sv_Blob :: "'s blob_store"
  sv_Vector :: "('s, i32) vector_db"
  sv_Put :: "'s \<Rightarrow> string \<Rightarrow> string \<Rightarrow> go_error option \<times> 's"
  sv_Cache :: "('s, 'w) cache"

text \<open>A model of matrix factorization as \<open>Fit\<close> leaves it (\<open>BaseMatrixFactorization\<close>); a bit set is a function.\<close>

record factorization =
  mf_UserIndex :: freq_dict
  mf_ItemIndex :: freq_dict
  mf_UserPredictable :: "nat \<Rightarrow> bool"
  mf_ItemPredictable :: "nat \<Rightarrow> bool"
  mf_UserFactor :: "i32 list list"
  mf_ItemFactor :: "i32 list list"

definition IsUserPredictable :: "factorization \<Rightarrow> i32 \<Rightarrow> bool" where
  "IsUserPredictable mf k = (if sint k \<ge> sint (fd_Count (mf_UserIndex mf)) \<or> sint k < 0 then False else mf_UserPredictable mf (nat (sint k)))"

definition IsItemPredictable :: "factorization \<Rightarrow> i32 \<Rightarrow> bool" where
  "IsItemPredictable mf k = (if sint k \<ge> sint (fd_Count (mf_ItemIndex mf)) \<or> sint k < 0 then False else mf_ItemPredictable mf (nat (sint k)))"

definition GetUserFactor :: "factorization \<Rightarrow> i32 \<Rightarrow> go_panic + i32 list" where
  "GetUserFactor mf k = index_i32 (mf_UserFactor mf) k"

definition GetItemFactor :: "factorization \<Rightarrow> i32 \<Rightarrow> go_panic + i32 list" where
  "GetItemFactor mf k = index_i32 (mf_ItemFactor mf) k"

datatype cf_kind = BPR | ALS

definition newCollaborativeFilteringModel :: "string \<Rightarrow> cf_kind" where
  "newCollaborativeFilteringModel modelType = (if modelType = ''BPR'' then BPR else if modelType = ''ALS'' then ALS else BPR)"

text \<open>
  What comes from the run time and from code that is not modelled: the time, the orders in which maps are visited, printing, the
  two fits with the marshalling of the second model, and the configuration of quantization.
\<close>

record ('p, 'f, 'w, 'm) train_env =
  te_Now :: time
  te_Iter :: "(int \<times> string) list \<Rightarrow> (int \<times> string) list"
  te_IterUsers :: "mf_users \<Rightarrow> mf_users"
  te_ShowTime :: "time \<Rightarrow> string"
  te_Float64 :: "'f \<Rightarrow> 'w"
  te_ShowCF :: "('p, 'f cf_score) model_meta \<Rightarrow> go_panic + string"
  te_ShowCTR :: "('p, 'f ctr_model_score) model_meta \<Rightarrow> go_panic + string"
  te_FitCF :: "cf_kind \<Rightarrow> 'p \<Rightarrow> dataset \<Rightarrow> dataset \<Rightarrow> factorization \<times> 'f cf_score"
  te_FitCTR :: "'p \<Rightarrow> 'w ctr_dataset \<Rightarrow> 'w ctr_dataset \<Rightarrow> 'm \<times> 'f ctr_model_score"
  te_Quantization :: vector_config

text \<open>\<open>Time.UnixMilli\<close> and \<open>time.UnixMilli\<close>; the Unix epoch is 62135596800 seconds after the zero time.\<close>

definition epoch :: time where
  "epoch = 62135596800000000000"

definition to_milli :: "time \<Rightarrow> int" where
  "to_milli t = (t - epoch) div 1000000"

definition of_milli :: "int \<Rightarrow> time" where
  "of_milli k = k * 1000000 + epoch"

definition cf_prefix :: string where
  "cf_prefix = ''collaborative_filtering'' @ ''_''"

definition cf_collection :: "int \<Rightarrow> string" where
  "cf_collection k = ''collaborative_filtering'' @ ''_'' @ FormatInt k"

subsection \<open>Models that are out of date\<close>

text \<open>The blobs whose names are numbers; of two that stand for one number the later is kept.\<close>

fun model_files :: "(int \<times> string) list \<Rightarrow> string list \<Rightarrow> (int \<times> string) list" where
  "model_files models [] = models"
| "model_files models (file # files) =
     (case Atoi file of Inl e \<Rightarrow> model_files models files | Inr k \<Rightarrow> model_files (AList.update k file models) files)"

definition cf_collection_id :: "string \<Rightarrow> int option" where
  "cf_collection_id collection =
     (if take (length cf_prefix) collection \<noteq> cf_prefix then None
      else case Atoi (drop (length cf_prefix) collection) of
          Inl e \<Rightarrow> None
        | Inr k \<Rightarrow> if cf_collection k \<noteq> collection then None else Some k)"

fun cf_collections :: "(int \<times> string) list \<Rightarrow> (int \<times> string) list \<times> int list \<Rightarrow> string list \<Rightarrow> (int \<times> string) list \<times> int list" where
  "cf_collections models acc [] = acc"
| "cf_collections models (found, complete) (collection # collections) =
     (case cf_collection_id collection of
        None \<Rightarrow> cf_collections models (found, complete) collections
      | Some k \<Rightarrow> cf_collections models
          (AList.update k collection found, if map_of models k \<noteq> None then complete @ [k] else complete) collections)"

definition keep_models :: "int \<Rightarrow> int list \<Rightarrow> int set" where
  "keep_models current complete = insert current (set (take 2 (rev (sort complete))))"

text \<open>
  The first loop goes over the collections. The blob of a model is removed before its collection, and when that fails the
  collection stays; an error of \<open>DeleteCollection\<close> is only logged.
\<close>

fun remove_collections :: "('s, 'w) services \<Rightarrow> int set \<Rightarrow> int \<Rightarrow> (int \<times> string) list \<Rightarrow> (int \<times> string) list \<Rightarrow> 's \<Rightarrow> (int \<times> string) list \<times> 's" where
  "remove_collections S keep ctr [] models s = (models, s)"
| "remove_collections S keep ctr ((k, collection) # rest) models s =
     (if k \<in> keep then remove_collections S keep ctr rest models s
      else case map_of models k of
          Some file \<Rightarrow>
            if k \<noteq> ctr then
              (case bs_Remove (sv_Blob S) s file of
                 (Some e, s') \<Rightarrow> remove_collections S keep ctr rest models s'
               | (None, s') \<Rightarrow> remove_collections S keep ctr rest (AList.delete k models) (snd (vdb_DeleteCollection (sv_Vector S) s' collection)))
            else remove_collections S keep ctr rest models (snd (vdb_DeleteCollection (sv_Vector S) s collection))
        | None \<Rightarrow> remove_collections S keep ctr rest models (snd (vdb_DeleteCollection (sv_Vector S) s collection)))"

fun remove_files :: "('s, 'w) services \<Rightarrow> int set \<Rightarrow> int \<Rightarrow> (int \<times> string) list \<Rightarrow> 's \<Rightarrow> 's" where
  "remove_files S keep timestamp [] s = s"
| "remove_files S keep timestamp ((k, file) # rest) s =
     remove_files S keep timestamp rest (if k < timestamp \<and> k \<notin> keep then snd (bs_Remove (sv_Blob S) s file) else s)"

definition removeOutOfDateModels :: "('p, 'f, 'w, 'm) train_env \<Rightarrow> ('s, 'w) services \<Rightarrow> ('p, 'f) models \<Rightarrow> 's \<Rightarrow> 's" where
  "removeOutOfDateModels E S m s =
     (let cf = md_ID (ms_cfMeta m); ctr = md_ID (ms_ctrMeta m); timestamp = min cf ctr in
      case bs_List (sv_Blob S) s of
        (Inl e, s1) \<Rightarrow> s1
      | (Inr files, s1) \<Rightarrow>
         (case vdb_ListCollections (sv_Vector S) s1 of
            (Inl e, s2) \<Rightarrow> s2
          | (Inr collections, s2) \<Rightarrow>
             (let models = model_files [] files; (found, complete) = cf_collections models ([], []) collections; keep = keep_models cf complete;
                  (models', s3) = remove_collections S keep ctr (te_Iter E found) models s2
              in remove_files S keep timestamp (te_Iter E models') s3)))"

subsection \<open>Collaborative filtering\<close>

text \<open>The model that the search has found replaces the current one when it is another one with a better score.\<close>

definition choose_cf :: "('p, 'f::{zero, linorder}) models \<Rightarrow> string \<times> 'p" where
  "choose_cf m =
     (if cfs_NDCG (md_Score (ms_cfTarget m)) > 0 \<and> \<not> md_Equal (ms_cfTarget m) (ms_cfMeta m) \<and>
         cfs_NDCG (md_Score (ms_cfTarget m)) > cfs_NDCG (md_Score (ms_cfMeta m))
      then (md_Type (ms_cfTarget m), md_Params (ms_cfTarget m))
      else (md_Type (ms_cfMeta m), md_Params (ms_cfMeta m)))"

definition batch_size :: nat where
  "batch_size = 10000"

function batches :: "nat \<Rightarrow> nat \<Rightarrow> nat list list" where
  "batches start n = (if start < n then [start ..< min (start + batch_size) n] # batches (start + batch_size) n else [])"
  by pat_completeness auto
termination by (relation "measure (\<lambda>(start, n). n - start)") (auto simp: batch_size_def)

declare batches.simps [simp del]

definition item_vector :: "dataset \<Rightarrow> factorization \<Rightarrow> int \<Rightarrow> nat \<Rightarrow> go_panic + i32 vector" where
  "item_vector d mf k i =
     p_bind (slice_get (dt_items d) i) (\<lambda>item.
     p_bind (GetItemFactor mf (of_nat i)) (\<lambda>values.
     Inr (zero_vector\<lparr>vec_Id := di_ItemId item, vec_Values := values, vec_IsHidden := di_IsHidden item,
       vec_Categories := di_Categories item, vec_Timestamp := of_milli k\<rparr>)))"

definition item_vectors :: "dataset \<Rightarrow> factorization \<Rightarrow> int \<Rightarrow> nat list \<Rightarrow> go_panic + i32 vector list" where
  "item_vectors d mf k is = p_map (item_vector d mf k) (filter (\<lambda>i. IsItemPredictable mf (of_nat i)) is)"

definition index_batch :: "('s, 'w) services \<Rightarrow> dataset \<Rightarrow> factorization \<Rightarrow> int \<Rightarrow> nat list \<Rightarrow> ('s, unit) io" where
  "index_batch S d mf k is =
     io_bind (io_lift (item_vectors d mf k is)) (\<lambda>vs.
     if vs = [] then io_return () else io_do (\<lambda>s. vdb_AddVectors (sv_Vector S) s (cf_collection k) vs))"

fun user_factors :: "dataset \<Rightarrow> factorization \<Rightarrow> nat list \<Rightarrow> mf_users \<Rightarrow> go_panic + mf_users" where
  "user_factors d mf [] users = Inr users"
| "user_factors d mf (i # is) users =
     p_bind (fd_String (dt_userDict d) (of_nat i)) (\<lambda>name.
     case name of
       None \<Rightarrow> user_factors d mf is users
     | Some userId \<Rightarrow>
         if \<not> IsUserPredictable mf (of_nat i) then user_factors d mf is users
         else p_bind (GetUserFactor mf (of_nat i)) (\<lambda>v. user_factors d mf is (mf_Add users userId v)))"

text \<open>A blob is created, written, closed, and waited for.\<close>

definition upload :: "'s blob_store \<Rightarrow> string \<Rightarrow> ('s writer \<Rightarrow> ('s, unit) io) \<Rightarrow> ('s, unit) io" where
  "upload B name marshal =
     io_bind (io_do (\<lambda>s. bs_Create B s name)) (\<lambda>_.
     io_bind (marshal (bs_Write B name)) (\<lambda>_.
     io_bind (io_do (\<lambda>s. bs_Close B s name)) (\<lambda>_ s. (Inr (), bs_Wait B s name))))"

text \<open>An error of recording the time of the fit is only logged.\<close>

definition record_fit :: "('p, 'f, 'w, 'm) train_env \<Rightarrow> ('s, 'w) services \<Rightarrow> string \<Rightarrow> ('s, unit) io" where
  "record_fit E S name = (\<lambda>s. (Inr (), snd (cdb_Set (ca_Main (sv_Cache S)) s [kv_Time (te_ShowTime E) (Key [''global_meta'', name]) (te_Now E)])))"

definition build_cf :: "('p, 'f, 'w, 'm) train_env \<Rightarrow> ('s, 'w) services \<Rightarrow> dataset \<Rightarrow> factorization \<Rightarrow> ('p, 'f cf_score) model_meta \<Rightarrow> ('s, string) io" where
  "build_cf E S d mf new =
     (let k = md_ID new; collection = cf_collection k; V = sv_Vector S in
     io_bind (io_lift (GetItemFactor mf 0)) (\<lambda>first.
     io_bind (io_do (\<lambda>s. vdb_AddCollection V s collection (length first) Dot (te_Quantization E))) (\<lambda>_.
     io_bind (io_each (index_batch S d mf k) (batches 0 (CountItems d))) (\<lambda>_.
     io_bind (io_do (\<lambda>s. vdb_Optimize V s collection)) (\<lambda>_.
     io_bind (io_lift (user_factors d mf [0 ..< CountUsers d] NewMatrixFactorizationUsers)) (\<lambda>users.
     io_bind (record_fit E S ''last_fit_matching_model_time'') (\<lambda>_.
     io_bind (upload (sv_Blob S) (FormatInt k) (\<lambda>W. mf_Marshal (te_IterUsers E) W users)) (\<lambda>_.
     io_lift (te_ShowCF E new)))))))))"

definition cf_key :: string where
  "cf_key = ''COLLABORATIVE_FILTERING_MODEL''"

definition publish_cf :: "('p, 'f, 'w, 'm) train_env \<Rightarrow> ('s, 'w) services \<Rightarrow> dataset \<Rightarrow> factorization \<Rightarrow> ('p, 'f cf_score) model_meta \<Rightarrow> ('s, unit) io" where
  "publish_cf E S d mf new = io_bind (build_cf E S d mf new) (\<lambda>json. io_do (\<lambda>s. sv_Put S s cf_key json))"

definition cf_points :: "('p, 'f, 'w, 'm) train_env \<Rightarrow> 'f cf_score \<Rightarrow> 'w time_series_point list" where
  "cf_points E score =
     [\<lparr>tp_Name = ''cf_ndcg'', tp_Timestamp = te_Now E, tp_Value = te_Float64 E (cfs_NDCG score)\<rparr>,
      \<lparr>tp_Name = ''cf_precision'', tp_Timestamp = te_Now E, tp_Value = te_Float64 E (cfs_Precision score)\<rparr>,
      \<lparr>tp_Name = ''cf_recall'', tp_Timestamp = te_Now E, tp_Value = te_Float64 E (cfs_Recall score)\<rparr>]"

text \<open>The fields of the master change after the meta store has accepted the new model.\<close>

definition new_cf :: "('p, 'f::{zero, linorder}, 'w, 'm) train_env \<Rightarrow> ('p, 'f) models \<Rightarrow> dataset \<Rightarrow> dataset \<Rightarrow> factorization \<times> ('p, 'f cf_score) model_meta" where
  "new_cf E m train test =
     (case choose_cf m of (modelType, params) \<Rightarrow>
        case te_FitCF E (newCollaborativeFilteringModel modelType) params train test of (mf, score) \<Rightarrow>
          (mf, \<lparr>md_ID = to_milli (te_Now E), md_Type = modelType, md_Params = params, md_Score = score\<rparr>))"

definition trainCollaborativeFiltering :: "('p, 'f::{zero, linorder}, 'w, 'm) train_env \<Rightarrow> ('s, 'w) services \<Rightarrow> dataset \<Rightarrow> dataset \<Rightarrow>
    (('p, 'f) models \<times> 's, unit) io" where
  "trainCollaborativeFiltering E S train test = (\<lambda>(m, s).
     if CountUsers train = 0 then (Inr (), (m, s))
     else if CountItems train = 0 then (Inr (), (m, s))
     else if CountFeedback train = 0 then (Inr (), (m, s))
     else if CountFeedback train = ms_cfTrainSetSize m then (Inr (), (m, s))
     else case new_cf E m train test of (mf, new) \<Rightarrow>
       (case publish_cf E S train mf new s of
          (Inl e, s1) \<Rightarrow> (Inl e, (m, s1))
        | (Inr _, s1) \<Rightarrow>
            (let m' = m\<lparr>ms_cfMeta := new, ms_cfTrainSetSize := CountFeedback train\<rparr> in
             case ca_AddTimeSeriesPoints (sv_Cache S) s1 (cf_points E (md_Score new)) of
               (Some e, s2) \<Rightarrow> (Inr (), (m', s2))
             | (None, s2) \<Rightarrow> (Inr (), (m', removeOutOfDateModels E S m' s2)))))"

subsection \<open>Click-through rate prediction\<close>

definition choose_ctr :: "('p, 'f::{zero, linorder}) models \<Rightarrow> string \<times> 'p" where
  "choose_ctr m =
     (if cts_AUC (md_Score (ms_ctrTarget m)) > 0 \<and> \<not> md_Equal (ms_ctrTarget m) (ms_ctrMeta m) \<and>
         cts_AUC (md_Score (ms_ctrTarget m)) > cts_AUC (md_Score (ms_ctrMeta m))
      then (md_Type (ms_ctrTarget m), md_Params (ms_ctrTarget m))
      else (md_Type (ms_ctrMeta m), md_Params (ms_ctrMeta m)))"

definition ctr_points :: "('p, 'f, 'w, 'm) train_env \<Rightarrow> 'f ctr_model_score \<Rightarrow> 'w time_series_point list" where
  "ctr_points E score =
     [\<lparr>tp_Name = ''ctr_precision'', tp_Timestamp = te_Now E, tp_Value = te_Float64 E (cts_Precision score)\<rparr>,
      \<lparr>tp_Name = ''ctr_recall'', tp_Timestamp = te_Now E, tp_Value = te_Float64 E (cts_Recall score)\<rparr>,
      \<lparr>tp_Name = ''ctr_auc'', tp_Timestamp = te_Now E, tp_Value = te_Float64 E (cts_AUC score)\<rparr>]"

text \<open>
  Here the size of the training set is recorded before the upload, and the fields of the model are changed one by one before the meta
  store has been asked. \<open>MarshalModel\<close> writes the fitted model.
\<close>

definition trainClickThroughRatePrediction :: "('p, 'f::{zero, linorder}, 'w, 'm) train_env \<Rightarrow> ('s, 'w) services \<Rightarrow> ('s writer \<Rightarrow> 'm \<Rightarrow> ('s, unit) io) \<Rightarrow>
    'w ctr_dataset \<Rightarrow> 'w ctr_dataset \<Rightarrow> (('p, 'f) models \<times> 's, unit) io" where
  "trainClickThroughRatePrediction E S MarshalModel train test = (\<lambda>(m, s).
     if ctr_CountUsers train = 0 then (Inr (), (m, s))
     else if ctr_CountItems train = 0 then (Inr (), (m, s))
     else case ctr_Count train of
       Inl p \<Rightarrow> (Inl (Panicked p), (m, s))
     | Inr samples \<Rightarrow>
         if samples = 0 then (Inr (), (m, s))
         else if int samples = ms_ctrTrainSetSize m then (Inr (), (m, s))
         else case choose_ctr m of (modelType, params) \<Rightarrow>
           case te_FitCTR E params train test of (model, score) \<Rightarrow>
           (let k = to_milli (te_Now E); m1 = m\<lparr>ms_ctrTrainSetSize := int samples\<rparr>; s1 = snd (record_fit E S ''last_fit_ranking_model_time'' s) in
            case upload (sv_Blob S) (FormatInt k) (\<lambda>W. MarshalModel W model) s1 of
              (Inl e, s2) \<Rightarrow> (Inl e, (m1, s2))
            | (Inr _, s2) \<Rightarrow>
                (let new = \<lparr>md_ID = k, md_Type = modelType, md_Params = params, md_Score = score\<rparr>; m2 = m1\<lparr>ms_ctrMeta := new\<rparr> in
                 case io_bind (io_lift (te_ShowCTR E new)) (\<lambda>json. io_do (\<lambda>s. sv_Put S s ''CLICK_THROUGH_RATE_MODEL'' json)) s2 of
                   (Inl e, s3) \<Rightarrow> (Inl e, (m2, s3))
                 | (Inr _, s3) \<Rightarrow>
                    (case ca_AddTimeSeriesPoints (sv_Cache S) s3 (ctr_points E score) of
                       (Some e, s4) \<Rightarrow> (Inl (Failed e), (m2, s4))
                     | (None, s4) \<Rightarrow> (Inr (), (m2, removeOutOfDateModels E S m2 s4))))))"

end
