(* ===== verification/Model_Props.thy ===== *)
theory Model_Props
  imports Master_Models
begin

text \<open>
  What training does to the outside world. A \<open>world_view\<close> says which blobs, collections and entries of the meta store a state of the
  world holds; the laws state which of them a call may change. Shown are: the removal of old models never touches a model in use and
  removes exactly what is out of date; a training either leaves the published model alone or publishes a complete one; the
  collection of garbage removes what it should and nothing else.
\<close>

subsection \<open>The laws of the services\<close>

record 's world_view =
  vw_blobs :: "'s \<Rightarrow> string \<rightharpoonup> byte list"
  vw_colls :: "'s \<Rightarrow> string \<rightharpoonup> (string \<rightharpoonup> i32 vector)"
  vw_meta :: "'s \<Rightarrow> string \<rightharpoonup> string"
  vw_pending :: "string \<Rightarrow> 's \<Rightarrow> byte list"

definition unchanged :: "'s world_view \<Rightarrow> 's \<Rightarrow> 's \<Rightarrow> bool" where
  "unchanged v s s' \<longleftrightarrow> vw_blobs v s' = vw_blobs v s \<and> vw_colls v s' = vw_colls v s \<and> vw_meta v s' = vw_meta v s"

definition only_blob :: "'s world_view \<Rightarrow> string \<Rightarrow> 's \<Rightarrow> 's \<Rightarrow> bool" where
  "only_blob v name s s' \<longleftrightarrow> (\<forall>n. n \<noteq> name \<longrightarrow> vw_blobs v s' n = vw_blobs v s n) \<and> vw_colls v s' = vw_colls v s \<and> vw_meta v s' = vw_meta v s"

definition only_coll :: "'s world_view \<Rightarrow> string \<Rightarrow> 's \<Rightarrow> 's \<Rightarrow> bool" where
  "only_coll v c s s' \<longleftrightarrow> vw_blobs v s' = vw_blobs v s \<and> (\<forall>n. n \<noteq> c \<longrightarrow> vw_colls v s' n = vw_colls v s n) \<and> vw_meta v s' = vw_meta v s"

text \<open>A blob holds what was written when its writer was closed without an error and the upload has ended. A failed removal may have removed.\<close>

definition create_law :: "'s world_view \<Rightarrow> 's blob_store \<Rightarrow> bool" where
  "create_law v B \<longleftrightarrow> (\<forall>s n e s'. bs_Create B s n = (e, s') \<longrightarrow> only_blob v n s s' \<and> (e = None \<longrightarrow> vw_pending v n s' = []))"

definition write_law :: "'s world_view \<Rightarrow> 's blob_store \<Rightarrow> bool" where
  "write_law v B \<longleftrightarrow> ((\<forall>n. io_writer (bs_Write B n) (vw_pending v n)) \<and> (\<forall>s n p r s'. bs_Write B n s p = (r, s') \<longrightarrow> only_blob v n s s'))"

definition close_law :: "'s world_view \<Rightarrow> 's blob_store \<Rightarrow> bool" where
  "close_law v B \<longleftrightarrow> (\<forall>s n e s'. bs_Close B s n = (e, s') \<longrightarrow> only_blob v n s s' \<and> only_blob v n s' (bs_Wait B s' n) \<and>
     (e = None \<longrightarrow> vw_blobs v (bs_Wait B s' n) n = Some (vw_pending v n s)))"

definition list_law :: "'s world_view \<Rightarrow> 's blob_store \<Rightarrow> bool" where
  "list_law v B \<longleftrightarrow> (\<forall>s r s'. bs_List B s = (r, s') \<longrightarrow> unchanged v s s' \<and> (\<forall>names. r = Inr names \<longrightarrow> set names = dom (vw_blobs v s)))"

definition remove_law :: "'s world_view \<Rightarrow> 's blob_store \<Rightarrow> bool" where
  "remove_law v B \<longleftrightarrow> (\<forall>s n e s'. bs_Remove B s n = (e, s') \<longrightarrow>
     only_blob v n s s' \<and> (vw_blobs v s' n = None \<or> e \<noteq> None \<and> vw_blobs v s' n = vw_blobs v s n))"

definition blob_laws :: "'s world_view \<Rightarrow> 's blob_store \<Rightarrow> bool" where
  "blob_laws v B \<longleftrightarrow> create_law v B \<and> write_law v B \<and> close_law v B \<and> list_law v B \<and> remove_law v B"

definition list_collections_law :: "'s world_view \<Rightarrow> ('s, i32) vector_db \<Rightarrow> bool" where
  "list_collections_law v V \<longleftrightarrow> (\<forall>s r s'. vdb_ListCollections V s = (r, s') \<longrightarrow> unchanged v s s' \<and> (\<forall>names. r = Inr names \<longrightarrow> set names = dom (vw_colls v s) \<and> distinct names))"

definition add_collection_law :: "'s world_view \<Rightarrow> ('s, i32) vector_db \<Rightarrow> bool" where
  "add_collection_law v V \<longleftrightarrow> (\<forall>s c n d q e s'. vdb_AddCollection V s c n d q = (e, s') \<longrightarrow> only_coll v c s s' \<and> (e = None \<longrightarrow> vw_colls v s' c = Some Map.empty))"

definition add_vectors_law :: "'s world_view \<Rightarrow> ('s, i32) vector_db \<Rightarrow> bool" where
  "add_vectors_law v V \<longleftrightarrow> (\<forall>s c vs e s'. vdb_AddVectors V s c vs = (e, s') \<longrightarrow> only_coll v c s s' \<and>
     (\<forall>M. e = None \<longrightarrow> vw_colls v s c = Some M \<longrightarrow> vw_colls v s' c = Some (foldl (\<lambda>m x. m(vec_Id x \<mapsto> x)) M vs)))"

definition optimize_law :: "'s world_view \<Rightarrow> ('s, i32) vector_db \<Rightarrow> bool" where
  "optimize_law v V \<longleftrightarrow> (\<forall>s c e s'. vdb_Optimize V s c = (e, s') \<longrightarrow> unchanged v s s')"

definition delete_collection_law :: "'s world_view \<Rightarrow> ('s, i32) vector_db \<Rightarrow> bool" where
  "delete_collection_law v V \<longleftrightarrow> (\<forall>s c e s'. vdb_DeleteCollection V s c = (e, s') \<longrightarrow>
     only_coll v c s s' \<and> (vw_colls v s' c = None \<or> e \<noteq> None \<and> vw_colls v s' c = vw_colls v s c))"

definition vector_laws :: "'s world_view \<Rightarrow> ('s, i32) vector_db \<Rightarrow> bool" where
  "vector_laws v V \<longleftrightarrow> list_collections_law v V \<and> add_collection_law v V \<and> add_vectors_law v V \<and> optimize_law v V \<and> delete_collection_law v V"

text \<open>An entry that \<open>Put\<close> reports as failed may still have been stored.\<close>

definition put_law :: "'s world_view \<Rightarrow> ('s, 'w) services \<Rightarrow> bool" where
  "put_law v S \<longleftrightarrow> (\<forall>s key val e s'. sv_Put S s key val = (e, s') \<longrightarrow> vw_blobs v s' = vw_blobs v s \<and> vw_colls v s' = vw_colls v s \<and>
     (vw_meta v s' = (vw_meta v s)(key \<mapsto> val) \<or> e \<noteq> None \<and> vw_meta v s' = vw_meta v s))"

definition cache_law :: "'s world_view \<Rightarrow> ('s, 'w) services \<Rightarrow> bool" where
  "cache_law v S \<longleftrightarrow> ((\<forall>s xs. unchanged v s (snd (cdb_Set (ca_Main (sv_Cache S)) s xs))) \<and> (\<forall>s ps. unchanged v s (snd (ca_AddTimeSeriesPoints (sv_Cache S) s ps))))"

definition service_laws :: "'s world_view \<Rightarrow> ('s, 'w) services \<Rightarrow> bool" where
  "service_laws v S \<longleftrightarrow> blob_laws v (sv_Blob S) \<and> vector_laws v (sv_Vector S) \<and> put_law v S \<and> cache_law v S"

lemma unchanged_refl [simp]: "unchanged v s s"
  by (simp add: unchanged_def)

lemma Create_only: "blob_laws v B \<Longrightarrow> bs_Create B s n = (e, s') \<Longrightarrow> only_blob v n s s' \<and> (e = None \<longrightarrow> vw_pending v n s' = [])"
  by (simp add: blob_laws_def create_law_def)

lemma Write_only: "blob_laws v B \<Longrightarrow> io_writer (bs_Write B n) (vw_pending v n)"
  "blob_laws v B \<Longrightarrow> bs_Write B n s p = (r, s') \<Longrightarrow> only_blob v n s s'"
  unfolding blob_laws_def write_law_def by blast+

lemma Close_only: "blob_laws v B \<Longrightarrow> bs_Close B s n = (e, s') \<Longrightarrow>
   only_blob v n s s' \<and> only_blob v n s' (bs_Wait B s' n) \<and> (e = None \<longrightarrow> vw_blobs v (bs_Wait B s' n) n = Some (vw_pending v n s))"
  by (simp add: blob_laws_def close_law_def)

lemma List_only: "blob_laws v B \<Longrightarrow> bs_List B s = (r, s') \<Longrightarrow> unchanged v s s' \<and> (\<forall>names. r = Inr names \<longrightarrow> set names = dom (vw_blobs v s))"
  by (simp add: blob_laws_def list_law_def)

lemma Remove_only: "blob_laws v B \<Longrightarrow> bs_Remove B s n = (e, s') \<Longrightarrow>
   only_blob v n s s' \<and> (vw_blobs v s' n = None \<or> e \<noteq> None \<and> vw_blobs v s' n = vw_blobs v s n)"
  by (simp add: blob_laws_def remove_law_def)

lemma ListCollections_only: "vector_laws v V \<Longrightarrow> vdb_ListCollections V s = (r, s') \<Longrightarrow>
   unchanged v s s' \<and> (\<forall>names. r = Inr names \<longrightarrow> set names = dom (vw_colls v s) \<and> distinct names)"
  by (simp add: vector_laws_def list_collections_law_def)

lemma AddCollection_only: "vector_laws v V \<Longrightarrow> vdb_AddCollection V s c n d q = (e, s') \<Longrightarrow>
   only_coll v c s s' \<and> (e = None \<longrightarrow> vw_colls v s' c = Some Map.empty)"
  by (simp add: vector_laws_def add_collection_law_def)

lemma AddVectors_only: "vector_laws v V \<Longrightarrow> vdb_AddVectors V s c vs = (e, s') \<Longrightarrow>
   only_coll v c s s' \<and> (\<forall>M. e = None \<longrightarrow> vw_colls v s c = Some M \<longrightarrow> vw_colls v s' c = Some (foldl (\<lambda>m x. m(vec_Id x \<mapsto> x)) M vs))"
  by (simp add: vector_laws_def add_vectors_law_def)

lemma Optimize_only: "vector_laws v V \<Longrightarrow> vdb_Optimize V s c = (e, s') \<Longrightarrow> unchanged v s s'"
  by (simp add: vector_laws_def optimize_law_def)

lemma DeleteCollection_only: "vector_laws v V \<Longrightarrow> vdb_DeleteCollection V s c = (e, s') \<Longrightarrow>
   only_coll v c s s' \<and> (vw_colls v s' c = None \<or> e \<noteq> None \<and> vw_colls v s' c = vw_colls v s c)"
  by (simp add: vector_laws_def delete_collection_law_def)

lemma service_lawsD:
  "service_laws v S \<Longrightarrow> blob_laws v (sv_Blob S)" "service_laws v S \<Longrightarrow> vector_laws v (sv_Vector S)"
  "service_laws v S \<Longrightarrow> sv_Put S s key val = (e, s') \<Longrightarrow> vw_blobs v s' = vw_blobs v s \<and> vw_colls v s' = vw_colls v s \<and>
     (vw_meta v s' = (vw_meta v s)(key \<mapsto> val) \<or> e \<noteq> None \<and> vw_meta v s' = vw_meta v s)"
  "service_laws v S \<Longrightarrow> unchanged v s (snd (cdb_Set (ca_Main (sv_Cache S)) s xs))"
  "service_laws v S \<Longrightarrow> unchanged v s (snd (ca_AddTimeSeriesPoints (sv_Cache S) s ps))"
  by (simp_all add: service_laws_def put_law_def cache_law_def)

subsection \<open>What the removal keeps\<close>

text \<open>\<open>model_files\<close> and \<open>cf_collections\<close> list blobs and collections under the numbers in their names.\<close>

lemma AList_update_in: "x \<in> set (AList.update k v xs) \<Longrightarrow> x = (k, v) \<or> x \<in> set xs"
  by (induction xs) (auto split: if_splits)

lemma model_files_in:
  "(k, f) \<in> set (model_files models files) \<Longrightarrow> (k, f) \<in> set models \<or> f \<in> set files \<and> Atoi f = Inr k"
  by (induction files arbitrary: models) (fastforce split: sum.splits dest: AList_update_in)+

lemma model_files_distinct: "distinct (map fst models) \<Longrightarrow> distinct (map fst (model_files models files))"
  by (induction files arbitrary: models) (auto split: sum.splits simp: distinct_update)

lemma model_files_keys: "dom (map_of (model_files models files)) = dom (map_of models) \<union> {k. \<exists>f \<in> set files. Atoi f = Inr k}"
proof (induction files arbitrary: models)
  case (Cons f files)
  show ?case
  proof (cases "Atoi f")
    case (Inl e)
    then show ?thesis by (auto simp: Cons.IH)
  next
    case (Inr k)
    then have "dom (map_of (model_files models (f # files))) = dom (map_of (AList.update k f models)) \<union> {k. \<exists>f \<in> set files. Atoi f = Inr k}"
      by (simp add: Cons.IH)
    also have "dom (map_of (AList.update k f models)) = insert k (dom (map_of models))" by (simp add: update_conv')
    finally show ?thesis using Inr by auto
  qed
qed simp

lemma cf_collection_id_name: "cf_collection_id c = Some k \<Longrightarrow> c = cf_collection k"
  by (auto simp: cf_collection_id_def split: if_splits sum.splits)

lemma cf_collections_found:
  "cf_collections models (found, complete) cs = (found', complete') \<Longrightarrow>
   (distinct (map fst found) \<longrightarrow> distinct (map fst found')) \<and>
   map_of found' = map_of found ++ (\<lambda>k. if \<exists>c \<in> set cs. cf_collection_id c = Some k then Some (cf_collection k) else None) \<and>
   complete' = complete @ filter (\<lambda>k. map_of models k \<noteq> None) (List.map_filter cf_collection_id cs)"
proof (induction cs arbitrary: found complete)
  case Nil
  then show ?case by (simp add: map_filter_simps fun_eq_iff map_add_def)
next
  case (Cons c cs)
  show ?case
  proof (cases "cf_collection_id c")
    case None
    then show ?thesis using Cons by (simp add: map_filter_simps)
  next
    case (Some k)
    have c: "c = cf_collection k" by (rule cf_collection_id_name [OF Some])
    have "cf_collections models (AList.update k c found, if map_of models k \<noteq> None then complete @ [k] else complete) cs = (found', complete')"
      using Cons.prems Some by simp
    note IH = Cons.IH [OF this]
    have "map_of found' = map_of (AList.update k c found) ++ (\<lambda>k. if \<exists>c \<in> set cs. cf_collection_id c = Some k then Some (cf_collection k) else None)"
      using IH by blast
    also have "\<dots> = map_of found ++ (\<lambda>k. if \<exists>c \<in> set (c # cs). cf_collection_id c = Some k then Some (cf_collection k) else None)"
      using Some c by (auto simp: update_conv' map_add_def fun_eq_iff)
    finally have "map_of found' = \<dots>" .
    moreover have "complete' = complete @ filter (\<lambda>k. map_of models k \<noteq> None) (List.map_filter cf_collection_id (c # cs))"
      using IH Some by (simp add: map_filter_simps)
    ultimately show ?thesis using IH by (simp add: distinct_update)
  qed
qed

text \<open>The two loops: whatever fails, they only touch blobs and collections of numbers that they need not keep.\<close>

lemma only_blob_other: "only_blob v n s s' \<Longrightarrow> m \<noteq> n \<Longrightarrow> vw_blobs v s' m = vw_blobs v s m"
  "only_blob v n s s' \<Longrightarrow> vw_colls v s' = vw_colls v s" "only_blob v n s s' \<Longrightarrow> vw_meta v s' = vw_meta v s"
  by (simp_all add: only_blob_def)

lemma only_coll_other: "only_coll v c s s' \<Longrightarrow> m \<noteq> c \<Longrightarrow> vw_colls v s' m = vw_colls v s m"
  "only_coll v c s s' \<Longrightarrow> vw_blobs v s' = vw_blobs v s" "only_coll v c s s' \<Longrightarrow> vw_meta v s' = vw_meta v s"
  by (simp_all add: only_coll_def)

definition spares :: "'s world_view \<Rightarrow> (int \<Rightarrow> bool) \<Rightarrow> (int \<Rightarrow> bool) \<Rightarrow> 's \<Rightarrow> 's \<Rightarrow> bool" where
  "spares v blob coll s s' \<longleftrightarrow> vw_meta v s' = vw_meta v s \<and>
     (\<forall>f. (\<forall>k. Atoi f = Inr k \<longrightarrow> blob k) \<longrightarrow> vw_blobs v s' f = vw_blobs v s f) \<and>
     (\<forall>c. (\<forall>k. c = cf_collection k \<longrightarrow> coll k) \<longrightarrow> vw_colls v s' c = vw_colls v s c)"

lemma spares_refl [simp]: "spares v blob coll s s"
  by (simp add: spares_def)

lemma spares_trans: "spares v blob coll s s1 \<Longrightarrow> spares v blob coll s1 s' \<Longrightarrow> spares v blob coll s s'"
  by (simp add: spares_def)

lemma spares_Remove:
  assumes "blob_laws v B" and "Atoi f = Inr k" and "\<not> blob k" and "bs_Remove B s f = (e, s')"
  shows "spares v blob coll s s'"
  using Remove_only [OF assms(1,4)] assms(2,3) unfolding spares_def only_blob_def by (metis)

lemma spares_Delete:
  assumes "vector_laws v V" and "\<not> coll k"
  shows "spares v blob coll s (snd (vdb_DeleteCollection V s (cf_collection k)))"
proof -
  obtain e s' where d: "vdb_DeleteCollection V s (cf_collection k) = (e, s')" by fastforce
  show ?thesis using DeleteCollection_only [OF assms(1) d] assms(2) d unfolding spares_def only_coll_def by (metis snd_conv)
qed

lemma remove_collections_spares:
  assumes "service_laws v S" and "\<forall>(k, f) \<in> set models. Atoi f = Inr k" and "\<forall>(k, c) \<in> set L. c = cf_collection k"
    and "remove_collections S keep ctr L models s = (models', s')"
  shows "set models' \<subseteq> set models \<and> spares v (\<lambda>k. k \<in> keep \<or> k = ctr) (\<lambda>k. k \<in> keep) s s'"
  using assms(2-)
proof (induction L arbitrary: models s)
  case (Cons kc L)
  note laws = service_lawsD(1,2) [OF assms(1)]
  obtain k where kc: "kc = (k, cf_collection k)" using Cons.prems(2) by (cases kc) auto
  have L: "\<forall>(k, c) \<in> set L. c = cf_collection k" using Cons.prems(2) by simp
  show ?case
  proof (cases "k \<in> keep")
    case True
    then show ?thesis using Cons.IH [OF Cons.prems(1) L] Cons.prems(3) kc by simp
  next
    case False
    let ?delete = "\<lambda>s. snd (vdb_DeleteCollection (sv_Vector S) s (cf_collection k))"
    have delete: "spares v (\<lambda>k. k \<in> keep \<or> k = ctr) (\<lambda>k. k \<in> keep) s (?delete s)" for s
      using spares_Delete [OF laws(2)] False .
    show ?thesis
    proof (cases "map_of models k = None \<or> k = ctr")
      case True
      then have "remove_collections S keep ctr L models (?delete s) = (models', s')"
        using Cons.prems(3) False kc by (auto split: option.splits)
      from Cons.IH [OF Cons.prems(1) L this] show ?thesis using spares_trans [OF delete] by blast
    next
      case other: False
      then obtain f where f: "map_of models k = Some f" "k \<noteq> ctr" by auto
      have Af: "Atoi f = Inr k" using Cons.prems(1) map_of_SomeD [OF f(1)] by auto
      obtain e s1 where r: "bs_Remove (sv_Blob S) s f = (e, s1)" by fastforce
      have sp: "spares v (\<lambda>k. k \<in> keep \<or> k = ctr) (\<lambda>k. k \<in> keep) s s1"
        using spares_Remove [OF laws(1) Af _ r] False f(2) by simp
      show ?thesis
      proof (cases e)
        case None
        have del: "set (AList.delete k models) \<subseteq> set models" by (auto simp: AList.delete_eq)
        then have m: "\<forall>(k, f) \<in> set (AList.delete k models). Atoi f = Inr k" using Cons.prems(1) by blast
        have "remove_collections S keep ctr L (AList.delete k models) (?delete s1) = (models', s')"
          using Cons.prems(3) False kc f r None by simp
        from Cons.IH [OF m L this] show ?thesis using spares_trans [OF sp spares_trans [OF delete]] del by blast
      next
        case (Some x)
        have "remove_collections S keep ctr L models s1 = (models', s')" using Cons.prems(3) False kc f r Some by simp
        from Cons.IH [OF Cons.prems(1) L this] show ?thesis using spares_trans [OF sp] by blast
      qed
    qed
  qed
qed simp

lemma remove_files_spares:
  assumes "service_laws v S" and "\<forall>(k, f) \<in> set L. Atoi f = Inr k"
  shows "spares v (\<lambda>k. k \<in> keep \<or> timestamp \<le> k) (\<lambda>k. True) s (remove_files S keep timestamp L s)"
  using assms(2)
proof (induction L arbitrary: s)
  case (Cons kf L)
  obtain k f where kf: "kf = (k, f)" "Atoi f = Inr k" using Cons.prems by (cases kf) auto
  obtain e s1 where r: "bs_Remove (sv_Blob S) s f = (e, s1)" by fastforce
  have "spares v (\<lambda>k. k \<in> keep \<or> timestamp \<le> k) (\<lambda>k. True) s (if k < timestamp \<and> k \<notin> keep then s1 else s)"
    using spares_Remove [OF service_lawsD(1) [OF assms(1)] kf(2) _ r] by simp
  with Cons show ?case using spares_trans r kf by fastforce
qed simp

lemma spares_mono: "spares v P Q s s' \<Longrightarrow> (\<And>k. P' k \<Longrightarrow> P k) \<Longrightarrow> (\<And>k. Q' k \<Longrightarrow> Q k) \<Longrightarrow> spares v P' Q' s s'"
  unfolding spares_def by blast

lemma spares_unchanged: "unchanged v s s' \<Longrightarrow> spares v P Q s s'"
  by (simp add: spares_def unchanged_def)

text \<open>The removal in one piece, when both lists can be read.\<close>

lemma removal_lists:
  assumes laws: "service_laws v S" and L: "bs_List (sv_Blob S) s = (r, s1)" and C: "vdb_ListCollections (sv_Vector S) s1 = (r', s2)"
  obtains (unlisted) e where "r = Inl e \<or> r' = Inl e" "unchanged v s (removeOutOfDateModels E S m s)"
  | (listed) files collections found complete models' s3 where
    "set files = dom (vw_blobs v s)" "set collections = dom (vw_colls v s)" "distinct collections" "unchanged v s s2"
    "cf_collections (model_files [] files) ([], []) collections = (found, complete)"
    "remove_collections S (keep_models (md_ID (ms_cfMeta m)) complete) (md_ID (ms_ctrMeta m)) (te_Iter E found) (model_files [] files) s2 = (models', s3)"
    "removeOutOfDateModels E S m s =
       remove_files S (keep_models (md_ID (ms_cfMeta m)) complete) (min (md_ID (ms_cfMeta m)) (md_ID (ms_ctrMeta m))) (te_Iter E models') s3"
proof -
  note L' = List_only [OF service_lawsD(1) [OF laws] L] and C' = ListCollections_only [OF service_lawsD(2) [OF laws] C]
  show ?thesis
  proof (cases "\<exists>files cs. r = Inr files \<and> r' = Inr cs")
    case True
    then obtain files cs where r: "r = Inr files" "r' = Inr cs" by blast
    obtain found complete where F: "cf_collections (model_files [] files) ([], []) cs = (found, complete)" by fastforce
    obtain models' s3 where R: "remove_collections S (keep_models (md_ID (ms_cfMeta m)) complete) (md_ID (ms_ctrMeta m)) (te_Iter E found) (model_files [] files) s2 = (models', s3)"
      by fastforce
    show ?thesis
      by (rule listed [OF _ _ _ _ F R]) (use L' C' r in \<open>simp_all add: unchanged_def removeOutOfDateModels_def Let_def L C F R\<close>)
  next
    case False
    then obtain e where "r = Inl e \<or> r' = Inl e" by (cases r; cases r') auto
    moreover from this have "removeOutOfDateModels E S m s = s1 \<or> removeOutOfDateModels E S m s = s2"
      using L C by (cases r; cases r') (simp_all add: removeOutOfDateModels_def Let_def)
    moreover have "unchanged v s s1" "unchanged v s s2" using L' C' by (simp_all add: unchanged_def)
    ultimately show ?thesis using unlisted by auto
  qed
qed

lemma found_named:
  assumes "cf_collections models ([], []) collections = (found, complete)"
  shows "\<forall>(k, c) \<in> set found. c = cf_collection k"
proof -
  note F = cf_collections_found [OF assms]
  have "c = cf_collection k" if "(k, c) \<in> set found" for k c
  proof -
    have "map_of found k = Some c" using F that by (intro map_of_is_SomeI) simp_all
    then have "(if \<exists>c \<in> set collections. cf_collection_id c = Some k then Some (cf_collection k) else None) = Some c"
      using F by simp
    then show ?thesis by (simp split: if_splits)
  qed
  then show ?thesis by blast
qed

lemma removal_spares_current:
  assumes laws: "service_laws v S" and iter: "\<And>xs. set (te_Iter E xs) = set xs"
  shows "spares v (\<lambda>k. k = md_ID (ms_cfMeta m) \<or> k = md_ID (ms_ctrMeta m)) (\<lambda>k. k = md_ID (ms_cfMeta m)) s (removeOutOfDateModels E S m s)"
proof -
  obtain r s1 where L: "bs_List (sv_Blob S) s = (r, s1)" by fastforce
  obtain r' s2 where C: "vdb_ListCollections (sv_Vector S) s1 = (r', s2)" by fastforce
  show ?thesis
  proof (cases rule: removal_lists [OF laws L C, of E m, case_names unlisted listed])
    case (unlisted e)
    then show ?thesis by (simp add: spares_unchanged)
  next
    case (listed files collections found complete models' s3)
    have files: "\<forall>(k, f) \<in> set (model_files [] files). Atoi f = Inr k" using model_files_in by fastforce
    have found: "\<forall>(k, c) \<in> set (te_Iter E found). c = cf_collection k" using found_named [OF listed(5)] iter by simp
    note C = remove_collections_spares [OF laws files found listed(6)]
    have "\<forall>(k, f) \<in> set (te_Iter E models'). Atoi f = Inr k" using C files iter by blast
    note R = remove_files_spares [OF laws this]
    have cur: "md_ID (ms_cfMeta m) \<in> keep_models (md_ID (ms_cfMeta m)) complete" by (simp add: keep_models_def)
    show ?thesis unfolding listed(7)
      by (rule spares_trans [OF spares_unchanged [OF listed(4)] spares_trans [OF spares_mono [OF conjunct2 [OF C]] spares_mono [OF R]]])
        (use cur in auto)
  qed
qed

subsection \<open>What the removal removes\<close>

definition newest_two :: "int set \<Rightarrow> int \<Rightarrow> bool" where
  "newest_two K k \<longleftrightarrow> k \<in> K \<and> card {j \<in> K. k < j} < 2"

lemma strictly_falling:
  fixes ys :: "int list"
  assumes "sorted_wrt (>) ys" and "i < length ys"
  shows "{j \<in> set ys. ys ! i < j} = set (take i ys)"
proof -
  have "j \<in> set (take i ys)" if j: "j \<in> set ys" "ys ! i < j" for j
  proof -
    obtain p where p: "p < length ys" "j = ys ! p" using j(1) by (metis in_set_conv_nth)
    have "p < i"
    proof (rule ccontr)
      assume "\<not> p < i"
      then have "p = i \<or> i < p" by auto
      then show False using sorted_wrt_nth_less [OF assms(1) _ p(1), of i] p j(2) by (metis order_less_asym order_less_irrefl)
    qed
    then show ?thesis using p by (metis in_set_conv_nth length_take min_less_iff_conj nth_take)
  qed
  moreover have "ys ! i < j" if "j \<in> set (take i ys)" for j
    using that sorted_wrt_nth_less [OF assms(1) _ assms(2)] by (auto simp: in_set_conv_nth)
  moreover have "set (take i ys) \<subseteq> set ys" by (rule set_take_subset)
  ultimately show ?thesis by blast
qed

lemma keep_models_newest:
  assumes "distinct complete"
  shows "k \<in> keep_models current complete \<longleftrightarrow> k = current \<or> newest_two (set complete) k"
proof -
  let ?ys = "rev (sort complete)"
  have ys: "sorted_wrt (>) ?ys" using assms by (simp add: sorted_wrt_rev strict_sorted_iff)
  have set_ys: "set ?ys = set complete" and dist: "distinct ?ys" using assms by simp_all
  have "k \<in> set (take 2 ?ys) \<longleftrightarrow> newest_two (set ?ys) k"
  proof
    assume "k \<in> set (take 2 ?ys)"
    then obtain i where i: "i < 2" "i < length ?ys" "k = ?ys ! i" by (auto simp: in_set_conv_nth)
    have "card (set (take i ?ys)) = i" using i(2) dist by (simp add: distinct_card)
    then have "card {j \<in> set ?ys. k < j} = i" unfolding i(3) strictly_falling [OF ys i(2)] .
    then show "newest_two (set ?ys) k" using i nth_mem [OF i(2)] unfolding newest_two_def by simp
  next
    assume n: "newest_two (set ?ys) k"
    then obtain i where i: "i < length ?ys" "k = ?ys ! i" unfolding newest_two_def by (metis in_set_conv_nth)
    have "card (set (take i ?ys)) = i" using i(1) dist by (simp add: distinct_card)
    then have "card {j \<in> set ?ys. k < j} = i" unfolding i(2) strictly_falling [OF ys i(1)] .
    then have "i < 2" using n by (simp add: newest_two_def)
    then show "k \<in> set (take 2 ?ys)" using i by (auto simp: in_set_conv_nth)
  qed
  then show ?thesis by (simp add: keep_models_def set_ys)
qed

text \<open>When nothing that is there fails to be removed, every removal takes place.\<close>

definition removals_succeed :: "'s world_view \<Rightarrow> ('s, 'w) services \<Rightarrow> bool" where
  "removals_succeed v S \<longleftrightarrow>
     (\<forall>s r s'. bs_List (sv_Blob S) s = (r, s') \<longrightarrow> (\<exists>names. r = Inr names)) \<and>
     (\<forall>s r s'. vdb_ListCollections (sv_Vector S) s = (r, s') \<longrightarrow> (\<exists>names. r = Inr names)) \<and>
     (\<forall>s f e s'. bs_Remove (sv_Blob S) s f = (e, s') \<longrightarrow> vw_blobs v s f \<noteq> None \<longrightarrow> e = None) \<and>
     (\<forall>s c e s'. vdb_DeleteCollection (sv_Vector S) s c = (e, s') \<longrightarrow> vw_colls v s c \<noteq> None \<longrightarrow> e = None)"

lemma removal_succeeds:
  assumes laws: "service_laws v S" and ok: "removals_succeed v S"
  obtains files collections found complete models' s2 s3 where
    "set files = dom (vw_blobs v s)" "set collections = dom (vw_colls v s)" "distinct collections" "unchanged v s s2"
    "cf_collections (model_files [] files) ([], []) collections = (found, complete)"
    "remove_collections S (keep_models (md_ID (ms_cfMeta m)) complete) (md_ID (ms_ctrMeta m)) (te_Iter E found) (model_files [] files) s2 = (models', s3)"
    "removeOutOfDateModels E S m s =
       remove_files S (keep_models (md_ID (ms_cfMeta m)) complete) (min (md_ID (ms_cfMeta m)) (md_ID (ms_ctrMeta m))) (te_Iter E models') s3"
proof -
  obtain r s1 where L: "bs_List (sv_Blob S) s = (r, s1)" by fastforce
  obtain r' s2 where C: "vdb_ListCollections (sv_Vector S) s1 = (r', s2)" by fastforce
  have "\<exists>names. r = Inr names" "\<exists>names. r' = Inr names" using ok L C unfolding removals_succeed_def by blast+
  then show ?thesis using that by (cases rule: removal_lists [OF laws L C, of E m]) auto
qed

lemma Remove_gone:
  assumes "service_laws v S" and "removals_succeed v S" and r: "bs_Remove (sv_Blob S) s f = (e, s')"
  shows "vw_blobs v s' = (vw_blobs v s)(f := None)" "vw_colls v s' = vw_colls v s" "vw_meta v s' = vw_meta v s"
    "vw_blobs v s f \<noteq> None \<Longrightarrow> e = None"
proof -
  note R = Remove_only [OF service_lawsD(1) [OF assms(1)] r]
  show e: "vw_blobs v s f \<noteq> None \<Longrightarrow> e = None" using assms(2) r unfolding removals_succeed_def by blast
  have "vw_blobs v s' f = None" using R e by metis
  then show "vw_blobs v s' = (vw_blobs v s)(f := None)" using R by (auto simp: only_blob_def)
  show "vw_colls v s' = vw_colls v s" "vw_meta v s' = vw_meta v s" using R by (simp_all add: only_blob_def)
qed

lemma Delete_gone:
  assumes "service_laws v S" and "removals_succeed v S"
  shows "vw_colls v (snd (vdb_DeleteCollection (sv_Vector S) s c)) = (vw_colls v s)(c := None)"
    "vw_blobs v (snd (vdb_DeleteCollection (sv_Vector S) s c)) = vw_blobs v s" "vw_meta v (snd (vdb_DeleteCollection (sv_Vector S) s c)) = vw_meta v s"
proof -
  obtain e s' where d: "vdb_DeleteCollection (sv_Vector S) s c = (e, s')" by fastforce
  note D = DeleteCollection_only [OF service_lawsD(2) [OF assms(1)] d]
  have "vw_colls v s c \<noteq> None \<Longrightarrow> e = None" using assms(2) d unfolding removals_succeed_def by blast
  then have "vw_colls v s' c = None" using D by metis
  then show "vw_colls v (snd (vdb_DeleteCollection (sv_Vector S) s c)) = (vw_colls v s)(c := None)"
    "vw_blobs v (snd (vdb_DeleteCollection (sv_Vector S) s c)) = vw_blobs v s" "vw_meta v (snd (vdb_DeleteCollection (sv_Vector S) s c)) = vw_meta v s"
    using D d by (auto simp: only_coll_def)
qed

text \<open>The table of the model files agrees with the blobs that are there.\<close>

definition tracks :: "'s world_view \<Rightarrow> (int \<times> string) list \<Rightarrow> 's \<Rightarrow> bool" where
  "tracks v models s \<longleftrightarrow> distinct (map fst models) \<and> (\<forall>k f. map_of models k = Some f \<longleftrightarrow> vw_blobs v s f \<noteq> None \<and> Atoi f = Inr k)"

lemma tracks_delete:
  assumes "tracks v models s" and "map_of models k = Some f" and "vw_blobs v s' = (vw_blobs v s)(f := None)"
  shows "tracks v (AList.delete k models) s'"
proof -
  have f: "Atoi f = Inr k" using assms(1,2) by (simp add: tracks_def)
  have only: "g = f" if "vw_blobs v s g \<noteq> None" "Atoi g = Inr k" for g
  proof -
    have "map_of models k = Some g" using assms(1) that by (simp add: tracks_def)
    then show ?thesis using assms(2) by simp
  qed
  have "map_of (AList.delete k models) j = Some g \<longleftrightarrow> vw_blobs v s' g \<noteq> None \<and> Atoi g = Inr j" for j g
    using assms(1,3) f only by (auto simp: delete_conv' tracks_def)
  then show ?thesis using assms(1) by (simp add: tracks_def AList.distinct_delete)
qed

lemma remove_collections_exact:
  assumes laws: "service_laws v S" "removals_succeed v S"
    and "tracks v models s" and "\<forall>(k, c) \<in> set L. c = cf_collection k"
    and "remove_collections S keep ctr L models s = (models', s')"
  shows "tracks v models' s' \<and>
    vw_blobs v s' = (\<lambda>f. if \<exists>k \<in> fst ` set L. Atoi f = Inr k \<and> k \<notin> keep \<and> k \<noteq> ctr then None else vw_blobs v s f) \<and>
    vw_colls v s' = (\<lambda>c. if \<exists>k \<in> fst ` set L. c = cf_collection k \<and> k \<notin> keep then None else vw_colls v s c)"
  using assms(3-)
proof (induction L arbitrary: models s)
  case (Cons kc L)
  obtain k where kc: "kc = (k, cf_collection k)" using Cons.prems(2) by (cases kc) auto
  have L: "\<forall>(k, c) \<in> set L. c = cf_collection k" using Cons.prems(2) by simp
  let ?delete = "\<lambda>s. snd (vdb_DeleteCollection (sv_Vector S) s (cf_collection k))"
  note gone = Delete_gone [OF laws]
  show ?case
  proof (cases "k \<in> keep")
    case True
    then show ?thesis using Cons.IH [OF Cons.prems(1) L] Cons.prems(3) kc by (auto simp: fun_eq_iff)
  next
    case out: False
    show ?thesis
    proof (cases "map_of models k = None \<or> k = ctr")
      case True
      then have run: "remove_collections S keep ctr L models (?delete s) = (models', s')"
        using Cons.prems(3) out kc by (auto split: option.splits)
      have none: "vw_blobs v s f = None" if "Atoi f = Inr k" "k \<noteq> ctr" for f
        using Cons.prems(1) True that unfolding tracks_def by (metis option.distinct(1))
      have "tracks v models (?delete s)" using Cons.prems(1) by (simp add: tracks_def gone)
      from Cons.IH [OF this L run] show ?thesis using out none by (auto simp: fun_eq_iff gone kc)
    next
      case False
      then obtain f where f: "map_of models k = Some f" "k \<noteq> ctr" by auto
      have Af: "vw_blobs v s f \<noteq> None" "Atoi f = Inr k" using Cons.prems(1) f(1) by (simp_all add: tracks_def)
      obtain e s1 where r: "bs_Remove (sv_Blob S) s f = (e, s1)" by fastforce
      note R = Remove_gone [OF laws r]
      have e: "e = None" by (rule R(4) [OF Af(1)])
      have run: "remove_collections S keep ctr L (AList.delete k models) (?delete s1) = (models', s')"
        using Cons.prems(3) out f kc r e by simp
      have t: "tracks v (AList.delete k models) (?delete s1)"
        by (rule tracks_delete [OF Cons.prems(1) f(1)]) (simp add: gone R)
      have other: "vw_blobs v s g = None" if "Atoi g = Inr k" "g \<noteq> f" for g
        using Cons.prems(1) f(1) that unfolding tracks_def by (metis option.inject)
      from Cons.IH [OF t L run] show ?thesis using out f(2) Af(2) other by (auto simp: fun_eq_iff gone R kc)
    qed
  qed
qed simp

lemma remove_files_exact:
  assumes laws: "service_laws v S" "removals_succeed v S"
  shows "vw_blobs v (remove_files S keep timestamp L s) =
      (\<lambda>f. if \<exists>k. (k, f) \<in> set L \<and> k < timestamp \<and> k \<notin> keep then None else vw_blobs v s f) \<and>
    vw_colls v (remove_files S keep timestamp L s) = vw_colls v s"
proof (induction L arbitrary: s)
  case (Cons kf L)
  obtain k f where kf: "kf = (k, f)" by fastforce
  obtain e s1 where r: "bs_Remove (sv_Blob S) s f = (e, s1)" by fastforce
  note R = Remove_gone [OF laws r]
  show ?case
  proof (cases "k < timestamp \<and> k \<notin> keep")
    case True
    then show ?thesis using Cons [of s1] R by (auto simp: kf r fun_eq_iff)
  next
    case False
    then show ?thesis using Cons [of s] by (auto simp: kf fun_eq_iff)
  qed
qed simp

definition model_numbers :: "'s world_view \<Rightarrow> 's \<Rightarrow> int set" where
  "model_numbers v s = {k. \<exists>f. vw_blobs v s f \<noteq> None \<and> Atoi f = Inr k}"

definition collection_numbers :: "'s world_view \<Rightarrow> 's \<Rightarrow> int set" where
  "collection_numbers v s = {k. \<exists>c. vw_colls v s c \<noteq> None \<and> cf_collection_id c = Some k}"

definition kept_model :: "'s world_view \<Rightarrow> ('p, 'f) models \<Rightarrow> 's \<Rightarrow> int \<Rightarrow> bool" where
  "kept_model v m s k \<longleftrightarrow> k = md_ID (ms_cfMeta m) \<or> newest_two (model_numbers v s \<inter> collection_numbers v s) k"

definition one_name_each :: "'s world_view \<Rightarrow> 's \<Rightarrow> bool" where
  "one_name_each v s \<longleftrightarrow> (\<forall>f g k. vw_blobs v s f \<noteq> None \<longrightarrow> vw_blobs v s g \<noteq> None \<longrightarrow> Atoi f = Inr k \<longrightarrow> Atoi g = Inr k \<longrightarrow> f = g)"

lemma tracks_model_files:
  assumes "one_name_each v s" and "set files = dom (vw_blobs v s)"
  shows "tracks v (model_files [] files) s"
proof -
  have "map_of (model_files [] files) k = Some f \<longleftrightarrow> vw_blobs v s f \<noteq> None \<and> Atoi f = Inr k" (is "?L \<longleftrightarrow> ?R") for k f
  proof
    assume ?L
    then show ?R using model_files_in [OF map_of_SomeD, of "[]"] assms(2) by fastforce
  next
    assume R: ?R
    then have "k \<in> dom (map_of (model_files [] files))" using assms(2) unfolding model_files_keys by auto
    then obtain g where g: "map_of (model_files [] files) k = Some g" by blast
    then have "g \<in> set files \<and> Atoi g = Inr k" using model_files_in [OF map_of_SomeD, of "[]"] by fastforce
    then have "g = f" using R assms unfolding one_name_each_def by auto
    then show ?L using g by simp
  qed
  then show ?thesis by (simp add: tracks_def model_files_distinct)
qed

lemma in_map_filter: "k \<in> set (List.map_filter f xs) \<longleftrightarrow> (\<exists>x \<in> set xs. f x = Some k)"
  by (induction xs) (auto simp: map_filter_simps split: option.splits)

lemma distinct_collection_ids: "distinct cs \<Longrightarrow> distinct (List.map_filter cf_collection_id cs)"
proof (induction cs)
  case (Cons c cs)
  have "k \<notin> set (List.map_filter cf_collection_id cs)" if "cf_collection_id c = Some k" for k
    using cf_collection_id_name [OF that] Cons.prems by (auto simp: in_map_filter dest!: cf_collection_id_name)
  then show ?case using Cons by (simp add: map_filter_simps split: option.splits)
qed (simp add: map_filter_simps)

lemma complete_models:
  assumes t: "tracks v models s" and cs: "set cs = dom (vw_colls v s)" "distinct cs"
    and F: "cf_collections models ([], []) cs = (found, complete)"
  shows "distinct complete" "set complete = model_numbers v s \<inter> collection_numbers v s" "fst ` set found = collection_numbers v s"
proof -
  note F' = cf_collections_found [OF F]
  have nums: "collection_numbers v s = {k. \<exists>c \<in> set cs. cf_collection_id c = Some k}"
    by (auto simp: collection_numbers_def cs(1))
  have ids: "set (List.map_filter cf_collection_id cs) = collection_numbers v s"
    by (auto simp: in_map_filter nums)
  have keys: "map_of models k \<noteq> None \<longleftrightarrow> k \<in> model_numbers v s" for k
    using t unfolding tracks_def model_numbers_def by auto
  show "distinct complete" using F' distinct_collection_ids [OF cs(2)] by simp
  show "set complete = model_numbers v s \<inter> collection_numbers v s" using F' ids keys by auto
  have "fst ` set found = dom (map_of found)" by (simp add: dom_map_of_conv_image_fst)
  also have "\<dots> = collection_numbers v s" unfolding nums conjunct1 [OF conjunct2 [OF F']] by (auto simp: map_add_def split: if_splits)
  finally show "fst ` set found = collection_numbers v s" .
qed

text \<open>
  (C10) When every call succeeds and the number of a model is in the name of one blob only, the removal deletes exactly this: the
  collections and blobs of the factorization models that have a collection, but for the current one and the two newest ones that have both;
  and the other blobs with a number below both current models. The blob of the current click-through rate model stays, and so does
  everything with another name.
\<close>

theorem removeOutOfDateModels_exact:
  assumes "service_laws v S" and "removals_succeed v S" and "\<forall>xs. set (te_Iter E xs) = set xs" and "one_name_each v s"
  shows "vw_blobs v (removeOutOfDateModels E S m s) f =
      (case Atoi f of
         Inl e \<Rightarrow> vw_blobs v s f
       | Inr k \<Rightarrow> if kept_model v m s k \<or> k = md_ID (ms_ctrMeta m) \<or> min (md_ID (ms_cfMeta m)) (md_ID (ms_ctrMeta m)) \<le> k \<and> k \<notin> collection_numbers v s
           then vw_blobs v s f else None) \<and>
    vw_colls v (removeOutOfDateModels E S m s) c =
      (case cf_collection_id c of None \<Rightarrow> vw_colls v s c | Some k \<Rightarrow> if kept_model v m s k then vw_colls v s c else None)"
proof -
  let ?cf = "md_ID (ms_cfMeta m)" and ?ctr = "md_ID (ms_ctrMeta m)"
  obtain files cs found complete models' s2 s3 where s2: "unchanged v s s2" "set cs = dom (vw_colls v s)" "distinct cs"
    and files: "set files = dom (vw_blobs v s)" and F: "cf_collections (model_files [] files) ([], []) cs = (found, complete)"
    and R: "remove_collections S (keep_models ?cf complete) ?ctr (te_Iter E found) (model_files [] files) s2 = (models', s3)"
    and run: "removeOutOfDateModels E S m s = remove_files S (keep_models ?cf complete) (min ?cf ?ctr) (te_Iter E models') s3"
    by (rule removal_succeeds [OF assms(1,2)])
  let ?keep = "keep_models ?cf complete"
  have t: "tracks v (model_files [] files) s" by (rule tracks_model_files [OF assms(4) files])
  then have t2: "tracks v (model_files [] files) s2" using s2(1) by (simp add: tracks_def unchanged_def)
  note K = complete_models [OF t s2(2,3) F]
  have keep: "k \<in> ?keep \<longleftrightarrow> kept_model v m s k" for k unfolding keep_models_newest [OF K(1)] K(2) kept_model_def ..
  have named: "\<forall>(k, c) \<in> set (te_Iter E found). c = cf_collection k" using found_named [OF F] assms(3) by simp
  have keys: "fst ` set (te_Iter E found) = collection_numbers v s" using K(3) assms(3) by simp
  note first = remove_collections_exact [OF assms(1,2) t2 named R, unfolded keys]
  note second = remove_files_exact [OF assms(1,2), of ?keep "min ?cf ?ctr" "te_Iter E models'" s3]
  have in': "(k, f) \<in> set (te_Iter E models') \<longleftrightarrow> vw_blobs v s3 f \<noteq> None \<and> Atoi f = Inr k" for k f
    using first assms(3) unfolding tracks_def by (metis map_of_eq_Some_iff)
  have same: "vw_blobs v s2 = vw_blobs v s" "vw_colls v s2 = vw_colls v s" using s2(1) by (simp_all add: unchanged_def)
  have blob3: "vw_blobs v s3 f = (if \<exists>k \<in> collection_numbers v s. Atoi f = Inr k \<and> k \<notin> ?keep \<and> k \<noteq> ?ctr then None else vw_blobs v s f)"
    unfolding conjunct1 [OF conjunct2 [OF first]] same by (rule refl)
  have blob: "vw_blobs v (removeOutOfDateModels E S m s) f = (if \<exists>k. Atoi f = Inr k \<and> k < min ?cf ?ctr \<and> k \<notin> ?keep then None else vw_blobs v s3 f)"
    unfolding run using second in' by auto
  have coll: "vw_colls v (removeOutOfDateModels E S m s) c =
      (if \<exists>k \<in> collection_numbers v s. c = cf_collection k \<and> k \<notin> ?keep then None else vw_colls v s c)"
    unfolding run conjunct2 [OF second] conjunct2 [OF conjunct2 [OF first]] same by (rule refl)
  have number: "k \<in> collection_numbers v s \<and> c = cf_collection k \<longleftrightarrow> cf_collection_id c = Some k" if "vw_colls v s c \<noteq> None" for k
    using that unfolding collection_numbers_def by (auto dest: cf_collection_id_name)
  show ?thesis
  proof
    show "vw_blobs v (removeOutOfDateModels E S m s) f = (case Atoi f of Inl e \<Rightarrow> vw_blobs v s f
       | Inr k \<Rightarrow> if kept_model v m s k \<or> k = ?ctr \<or> min ?cf ?ctr \<le> k \<and> k \<notin> collection_numbers v s then vw_blobs v s f else None)"
      unfolding blob blob3 keep by (auto split: sum.splits)
    show "vw_colls v (removeOutOfDateModels E S m s) c = (case cf_collection_id c of None \<Rightarrow> vw_colls v s c | Some k \<Rightarrow> if kept_model v m s k then vw_colls v s c else None)"
    proof (cases "vw_colls v s c")
      case (Some x)
      then have "(\<exists>k \<in> collection_numbers v s. c = cf_collection k \<and> \<not> kept_model v m s k) \<longleftrightarrow> (\<exists>k. cf_collection_id c = Some k \<and> \<not> kept_model v m s k)"
        using number by blast
      then show ?thesis unfolding coll keep by (simp split: option.splits)
    qed (simp add: coll split: option.splits)
  qed
qed

end
