(* ===== verification/Train_Props.thy ===== *)
theory Train_Props
  imports Model_Props
begin

text \<open>
  What training publishes (\<open>master/tasks.go\<close>). A computation is framed by a relation that all its steps keep; with that the
  effects of building a model on the blobs, collections and entries of other models are ruled out, and what the new blob and the new
  collection hold is computed step by step.
\<close>

subsection \<open>Frames\<close>

definition framed :: "('s \<Rightarrow> 's \<Rightarrow> bool) \<Rightarrow> ('s, 'a) io \<Rightarrow> bool" where
  "framed R m \<longleftrightarrow> (\<forall>s r s'. m s = (r, s') \<longrightarrow> R s s')"

lemma framedD: "framed R m \<Longrightarrow> m s = (r, s') \<Longrightarrow> R s s'"
  by (simp add: framed_def)

lemma framed_bind: "transp R \<Longrightarrow> framed R m \<Longrightarrow> (\<And>x. framed R (f x)) \<Longrightarrow> framed R (io_bind m f)"
  unfolding framed_def io_bind_def by (fastforce split: prod.splits sum.splits dest: transpD)

lemma framed_return: "reflp R \<Longrightarrow> framed R (io_return x)"
  by (simp add: framed_def io_return_def reflpD)

lemma framed_lift: "reflp R \<Longrightarrow> framed R (io_lift p)"
  by (auto simp: framed_def io_lift_def reflpD split: sum.splits)

lemma framed_do: "(\<And>s e s'. f s = (e, s') \<Longrightarrow> R s s') \<Longrightarrow> framed R (io_do f)"
  by (auto simp: framed_def io_do_def split: prod.splits option.splits)

lemma framed_if: "framed R a \<Longrightarrow> framed R b \<Longrightarrow> framed R (if c then a else b)"
  by simp

lemma framed_each: "reflp R \<Longrightarrow> transp R \<Longrightarrow> (\<And>x. framed R (f x)) \<Longrightarrow> framed R (io_each f xs)"
  by (induction xs) (simp_all add: framed_return framed_bind)

lemma framed_mono: "framed R m \<Longrightarrow> (\<And>s s'. R s s' \<Longrightarrow> R' s s') \<Longrightarrow> framed R' m"
  unfolding framed_def by blast

text \<open>Whatever is written goes through the writer.\<close>

lemma framed_writes:
  assumes "transp R" and "\<And>s p r s'. W s p = (r, s') \<Longrightarrow> R s s'"
  shows "framed R (binary_Write W bs)" "framed R (WriteSlice W xs)" "framed R (WriteBytes W bs)" "framed R (WriteString W str)" "framed R (WriteGob W i)"
proof -
  show b: "framed R (binary_Write W bs)" for bs
    using assms(2) by (fastforce simp: framed_def binary_Write_def split: prod.splits option.splits)
  have w: "framed R (\<lambda>s. case W s bs of ((n, Some e), s') \<Rightarrow> (Inl (Failed e), s')
      | ((n, None), s') \<Rightarrow> (if n \<noteq> length bs then Inl (Failed (ErrOther ''fail to write string'')) else Inr (), s'))" for bs
    using assms(2) by (fastforce simp: framed_def split: prod.splits option.splits)
  show WB: "framed R (WriteBytes W bs)" for bs unfolding WriteBytes_def by (intro framed_bind assms(1) b w)
  show "framed R (WriteSlice W xs)" unfolding WriteSlice_def by (intro framed_bind assms(1) b)
  show "framed R (WriteString W str)" "framed R (WriteGob W i)" unfolding WriteString_def WriteGob_def by (rule WB)+
qed

lemma framed_mf_Marshal:
  assumes "reflp R" and "transp R" and "\<And>s p r s'. W s p = (r, s') \<Longrightarrow> R s s'"
  shows "framed R (mf_Marshal Iter W users)"
proof -
  note w = framed_writes [of R W, OF assms(2) assms(3)]
  have "framed R (case x of (userId, embedding) \<Rightarrow> io_bind (WriteString W userId) (\<lambda>_. WriteSlice W embedding))" for x
    by (cases x) (simp add: framed_bind assms(2) w)
  then show ?thesis unfolding mf_Marshal_def by (intro framed_bind framed_each assms(1,2) w)
qed

lemma only_blob_refl_trans: "reflp (only_blob v n)" "transp (only_blob v n)"
  by (auto simp: reflp_def transp_def only_blob_def)

lemma framed_upload:
  assumes laws: "blob_laws v B" and "framed (only_blob v n) (marshal (bs_Write B n))"
  shows "framed (only_blob v n) (upload B n marshal)"
proof -
  note rt = only_blob_refl_trans
  have wait: "only_blob v n s (bs_Wait B s n)" if "bs_Close B s0 n = (e, s)" for s0 e s using Close_only [OF laws that] by blast
  have close: "framed (only_blob v n) (io_bind (io_do (\<lambda>s. bs_Close B s n)) (\<lambda>_ s. (Inr (), bs_Wait B s n)))"
    unfolding framed_def io_bind_def io_do_def
    using Close_only [OF laws] wait transpD [OF rt(2)] by (fastforce split: prod.splits option.splits)
  show ?thesis unfolding upload_def
    by (rule framed_bind [OF rt(2) framed_do framed_bind [OF rt(2) assms(2) close]]) (use Create_only [OF laws] in blast)
qed

text \<open>An upload that succeeds leaves the blob with what was marshalled.\<close>

lemma upload_blob:
  assumes laws: "blob_laws v B" and m: "wrote_all (vw_pending v n) (marshal (bs_Write B n)) bs" and run: "upload B n marshal s = (Inr u, s')"
  shows "vw_blobs v s' n = Some bs"
proof -
  obtain s1 s2 s3 where c: "bs_Create B s n = (None, s1)" and w: "marshal (bs_Write B n) s1 = (Inr (), s2)"
    and cl: "bs_Close B s2 n = (None, s3)" and s': "s' = bs_Wait B s3 n"
    using run unfolding upload_def by (auto simp: io_Inr)
  have "vw_pending v n s2 = bs" using Create_only [OF laws c] m w unfolding wrote_all_def by fastforce
  then show ?thesis using Close_only [OF laws cl] s' by simp
qed

lemma upload_users:
  assumes laws: "blob_laws v B"
  shows "framed (only_blob v n) (upload B n (\<lambda>W. mf_Marshal Iter W users))"
    "upload B n (\<lambda>W. mf_Marshal Iter W users) s = (Inr u, s') \<Longrightarrow> vw_blobs v s' n =
       Some (bytes_encoding (gob_message (int (length users))) @ concat (map user_encoding (Iter users)))"
proof -
  show "framed (only_blob v n) (upload B n (\<lambda>W. mf_Marshal Iter W users))"
    by (intro framed_upload laws framed_mf_Marshal only_blob_refl_trans) (rule Write_only(2) [OF laws])
  have all: "wrote_all (vw_pending v n) (mf_Marshal Iter (bs_Write B n) users)
       (bytes_encoding (gob_message (int (length users))) @ concat (map user_encoding (Iter users)))"
    by (rule io_writer.mf_Marshal_all [OF Write_only(1) [OF laws]])
  show "upload B n (\<lambda>W. mf_Marshal Iter W users) s = (Inr u, s') \<Longrightarrow> vw_blobs v s' n =
       Some (bytes_encoding (gob_message (int (length users))) @ concat (map user_encoding (Iter users)))"
    by (rule upload_blob [where marshal = "\<lambda>W. mf_Marshal Iter W users", OF laws all])
qed

subsection \<open>Building a model\<close>

definition touches :: "'s world_view \<Rightarrow> int \<Rightarrow> 's \<Rightarrow> 's \<Rightarrow> bool" where
  "touches v k s s' \<longleftrightarrow> vw_meta v s' = vw_meta v s \<and> (\<forall>n. n \<noteq> FormatInt k \<longrightarrow> vw_blobs v s' n = vw_blobs v s n) \<and>
     (\<forall>c. c \<noteq> cf_collection k \<longrightarrow> vw_colls v s' c = vw_colls v s c)"

lemma touches_refl_trans: "reflp (touches v k)" "transp (touches v k)"
  by (auto simp: reflp_def transp_def touches_def)

lemma touches_intros:
  "unchanged v s s' \<Longrightarrow> touches v k s s'" "only_blob v (FormatInt k) s s' \<Longrightarrow> touches v k s s'"
  "only_coll v (cf_collection k) s s' \<Longrightarrow> touches v k s s'"
  by (simp_all add: touches_def unchanged_def only_blob_def only_coll_def)

lemma framed_record_fit: "service_laws v S \<Longrightarrow> framed (unchanged v) (record_fit E S name)"
  by (auto simp: framed_def record_fit_def service_lawsD)

lemma framed_index_batch:
  assumes "service_laws v S"
  shows "framed (touches v k) (index_batch S d mf k is)"
  unfolding index_batch_def
  by (intro framed_bind framed_lift framed_if framed_return framed_do touches_refl_trans touches_intros(3))
     (use AddVectors_only [OF service_lawsD(2) [OF assms]] in blast)

lemma framed_build_cf:
  assumes laws: "service_laws v S"
  shows "framed (touches v (md_ID new)) (build_cf E S d mf new)"
  unfolding build_cf_def Let_def
proof (intro framed_bind framed_lift framed_each framed_index_batch laws touches_refl_trans)
  note rt = touches_refl_trans
  let ?k = "md_ID new" and ?c = "cf_collection (md_ID new)"
  show "framed (touches v ?k) (io_do (\<lambda>s. vdb_AddCollection (sv_Vector S) s ?c n Dot q))" for n q
    by (intro framed_do touches_intros(3)) (use AddCollection_only [OF service_lawsD(2) [OF laws]] in blast)
  show "framed (touches v ?k) (io_do (\<lambda>s. vdb_Optimize (sv_Vector S) s ?c))"
    by (intro framed_do touches_intros(1)) (rule Optimize_only [OF service_lawsD(2) [OF laws]])
  show "framed (touches v ?k) (record_fit E S name)" for name
    by (rule framed_mono [OF framed_record_fit [OF laws] touches_intros(1)])
  show "framed (touches v ?k) (upload (sv_Blob S) (FormatInt ?k) (\<lambda>W. mf_Marshal Iter W users))" for Iter users
    by (rule framed_mono [OF upload_users(1) [OF service_lawsD(1) [OF laws]] touches_intros(2)])
qed

lemma concat_batches: "concat (batches start n) = [start..<n]"
proof (induction start n rule: batches.induct)
  case (1 start n)
  show ?case
  proof (cases "start < n")
    case True
    have "[start..<n] = [start..<start + batch_size] @ [start + batch_size..<n]" if "start + batch_size \<le> n"
      using that upt_add_eq_append [of start "start + batch_size" "n - (start + batch_size)"] by simp
    then have "[start..<min (start + batch_size) n] @ [start + batch_size..<n] = [start..<n]"
      by (cases "start + batch_size \<le> n") (simp_all add: min_def)
    then show ?thesis using 1 True by (simp add: batches.simps [of start n])
  qed (simp add: batches.simps [of start n])
qed

lemma p_bind_return: "p_bind m Inr = m"
  by (cases m) simp_all

lemma p_map_append: "p_map f (xs @ ys) = p_bind (p_map f xs) (\<lambda>a. p_bind (p_map f ys) (\<lambda>b. Inr (a @ b)))"
  by (induction xs) (simp_all add: p_bind_assoc p_bind_return)

abbreviation upserts :: "(string \<rightharpoonup> i32 vector) \<Rightarrow> i32 vector list \<Rightarrow> (string \<rightharpoonup> i32 vector)" where
  "upserts M vs \<equiv> foldl (\<lambda>m x. m(vec_Id x \<mapsto> x)) M vs"

lemma index_batches:
  assumes laws: "service_laws v S" and "io_each (index_batch S d mf k) bs s = (Inr u, s')"
    and "vw_colls v s (cf_collection k) = Some M"
  shows "\<exists>vs. item_vectors d mf k (concat bs) = Inr vs \<and> vw_colls v s' (cf_collection k) = Some (upserts M vs)"
  using assms(2,3)
proof (induction bs arbitrary: s M)
  case Nil
  then show ?case by (simp add: item_vectors_def)
next
  case (Cons b bs)
  let ?c = "cf_collection k"
  obtain s1 where one: "index_batch S d mf k b s = (Inr (), s1)" and rest: "io_each (index_batch S d mf k) bs s1 = (Inr u, s')"
    using Cons.prems(1) by (auto simp: io_bind_Inr)
  obtain vs where vs: "item_vectors d mf k b = Inr vs" and add: "vs = [] \<and> s1 = s \<or> vs \<noteq> [] \<and> vdb_AddVectors (sv_Vector S) s ?c vs = (None, s1)"
    using one unfolding index_batch_def by (auto simp: io_bind_Inr io_lift_Inr io_do_Inr split: if_splits)
  have "vw_colls v s1 ?c = Some (upserts M vs)"
    using add AddVectors_only [OF service_lawsD(2) [OF laws]] Cons.prems(2) by fastforce
  from Cons.IH [OF rest this] obtain ws where ws: "item_vectors d mf k (concat bs) = Inr ws" "vw_colls v s' ?c = Some (upserts (upserts M vs) ws)" by blast
  have "item_vectors d mf k (concat (b # bs)) = Inr (vs @ ws)" using vs ws(1) by (simp add: item_vectors_def p_map_append)
  then show ?case using ws(2) by (simp del: fun_upd_apply)
qed

definition factor_blob :: "(mf_users \<Rightarrow> mf_users) \<Rightarrow> mf_users \<Rightarrow> byte list" where
  "factor_blob Iter users = bytes_encoding (gob_message (int (length users))) @ concat (map user_encoding (Iter users))"

text \<open>What a successful build leaves behind.\<close>

lemma build_cf_complete:
  assumes laws: "service_laws v S" and run: "build_cf E S d mf new s = (Inr json, s')"
  obtains vs users where "te_ShowCF E new = Inr json" "item_vectors d mf (md_ID new) [0..<CountItems d] = Inr vs"
    "user_factors d mf [0..<CountUsers d] [] = Inr users"
    "vw_colls v s' (cf_collection (md_ID new)) = Some (vectors_byID vs)"
    "vw_blobs v s' (FormatInt (md_ID new)) = Some (factor_blob (te_IterUsers E) users)"
proof -
  let ?k = "md_ID new" and ?c = "cf_collection (md_ID new)"
  obtain first :: "i32 list" and users s1 s2 s3 s4 and u1 u2 u3 :: unit where
    a: "vdb_AddCollection (sv_Vector S) s ?c (length first) Dot (te_Quantization E) = (None, s1)"
    and i: "io_each (index_batch S d mf ?k) (batches 0 (CountItems d)) s1 = (Inr u1, s2)"
    and o': "vdb_Optimize (sv_Vector S) s2 ?c = (None, s3)"
    and u: "user_factors d mf [0..<CountUsers d] [] = Inr users"
    and r: "record_fit E S ''last_fit_matching_model_time'' s3 = (Inr u2, s4)"
    and up: "upload (sv_Blob S) (FormatInt ?k) (\<lambda>W. mf_Marshal (te_IterUsers E) W users) s4 = (Inr u3, s')"
    and j: "te_ShowCF E new = Inr json"
    using run unfolding build_cf_def Let_def io_Inr NewMatrixFactorizationUsers_def by (elim exE conjE) (clarify, rule that, assumption+)
  have "vw_colls v s1 ?c = Some Map.empty" using AddCollection_only [OF service_lawsD(2) [OF laws] a] by simp
  from index_batches [OF laws i this] obtain vs where
    vs: "item_vectors d mf ?k [0..<CountItems d] = Inr vs" "vw_colls v s2 ?c = Some (vectors_byID vs)"
    unfolding concat_batches vectors_byID_def by blast
  have "vw_colls v s3 = vw_colls v s2" using Optimize_only [OF service_lawsD(2) [OF laws] o'] by (simp add: unchanged_def)
  moreover have "vw_colls v s4 = vw_colls v s3" using framedD [OF framed_record_fit [OF laws] r] by (simp add: unchanged_def)
  moreover have "vw_colls v s' = vw_colls v s4"
    using framedD [OF upload_users(1) [OF service_lawsD(1) [OF laws]] up] by (simp add: only_blob_def)
  ultimately have "vw_colls v s' ?c = Some (vectors_byID vs)" using vs(2) by simp
  moreover have "vw_blobs v s' (FormatInt ?k) = Some (factor_blob (te_IterUsers E) users)"
    unfolding factor_blob_def by (rule upload_users(2) [OF service_lawsD(1) [OF laws] up])
  ultimately show ?thesis using that j vs(1) u by blast
qed

subsection \<open>What a training publishes\<close>

lemma user_factors_distinct: "user_factors d mf is users = Inr users' \<Longrightarrow> distinct (map fst users) \<Longrightarrow> distinct (map fst users')"
proof (induction "is" arbitrary: users)
  case (Cons i "is")
  obtain name where name: "fd_String (dt_userDict d) (of_nat i) = Inr name" using Cons.prems(1) by (auto simp: p_bind_Inr)
  show ?case
  proof (cases "\<exists>userId v. name = Some userId \<and> IsUserPredictable mf (of_nat i) \<and> GetUserFactor mf (of_nat i) = Inr v")
    case True
    then obtain userId v where "user_factors d mf is (mf_Add users userId v) = Inr users'" using Cons.prems(1) name by auto
    then show ?thesis using Cons.IH Cons.prems(2) by (simp add: mf_Add_def distinct_update)
  next
    case False
    then have "user_factors d mf is users = Inr users'" using Cons.prems(1) name by (auto simp: p_bind_Inr split: option.splits if_splits)
    then show ?thesis using Cons.IH Cons.prems(2) by blast
  qed
qed simp

text \<open>A model is served when its collection holds the vectors of its items and a worker that reads its blob gets the factors of its users.\<close>

definition serves :: "'s world_view \<Rightarrow> 's \<Rightarrow> int \<Rightarrow> mf_users \<Rightarrow> i32 vector list \<Rightarrow> bool" where
  "serves v s k users vs \<longleftrightarrow> vw_colls v s (cf_collection k) = Some (vectors_byID vs) \<and>
     (\<exists>file. vw_blobs v s (FormatInt k) = Some file \<and>
       (\<forall>r t. stream_ok r \<longrightarrow> stream_rest r = file @ t \<longrightarrow>
         (\<exists>users' r'. mf_Unmarshal stream_Read r = Some (Inr users', r') \<and> mf_Get users' = mf_Get users \<and> stream_rest r' = t)))"

lemma factor_blob_read:
  assumes "distinct (map fst users)" and "users_fit users" and "mset (Iter users) = mset users" and "stream_ok r" and "stream_rest r = factor_blob Iter users @ t"
  shows "\<exists>users' r'. mf_Unmarshal stream_Read r = Some (Inr users', r') \<and> mf_Get users' = mf_Get users \<and> stream_rest r' = t"
proof -
  have "mf_Get (foldl (\<lambda>m (u, v). mf_Add m u v) [] (Iter users)) = mf_Get users"
    using mf_adds [OF mf_map_of_permuted(1) [OF assms(1,3)], of "[]"] mf_map_of_permuted(2) [OF assms(1,3)]
    by (simp add: mf_Get_def fun_eq_iff)
  then show ?thesis
    using streamr.mf_Unmarshal_delivers [OF assms(2,3)] assms(4,5) unfolding delivers_def factor_blob_def by metis
qed

definition serves_new :: "'s world_view \<Rightarrow> 's \<Rightarrow> dataset \<Rightarrow> factorization \<Rightarrow> int \<Rightarrow> bool" where
  "serves_new v s d mf k \<longleftrightarrow>
     (\<exists>users vs. user_factors d mf [0..<CountUsers d] [] = Inr users \<and> item_vectors d mf k [0..<CountItems d] = Inr vs \<and> serves v s k users vs)"

definition factors_fit :: "dataset \<Rightarrow> factorization \<Rightarrow> bool" where
  "factors_fit d mf \<longleftrightarrow> (\<forall>users. user_factors d mf [0..<CountUsers d] [] = Inr users \<longrightarrow> users_fit users)"

lemma build_cf_serves:
  assumes laws: "service_laws v S" and perm: "\<And>us. mset (te_IterUsers E us) = mset us" and fits: "factors_fit d mf"
    and run: "build_cf E S d mf new s = (Inr json, s')"
  shows "serves_new v s' d mf (md_ID new)" "te_ShowCF E new = Inr json"
proof -
  obtain vs users where B: "te_ShowCF E new = Inr json" "item_vectors d mf (md_ID new) [0..<CountItems d] = Inr vs"
    "user_factors d mf [0..<CountUsers d] [] = Inr users"
    "vw_colls v s' (cf_collection (md_ID new)) = Some (vectors_byID vs)"
    "vw_blobs v s' (FormatInt (md_ID new)) = Some (factor_blob (te_IterUsers E) users)"
    by (rule build_cf_complete [OF laws run])
  have "users_fit users" "distinct (map fst users)"
    using fits B(3) user_factors_distinct [OF B(3)] by (simp_all add: factors_fit_def)
  then have "serves v s' (md_ID new) users vs" unfolding serves_def using B(4,5) factor_blob_read [where Iter = "te_IterUsers E", OF _ _ perm] by blast
  then show "serves_new v s' d mf (md_ID new)" "te_ShowCF E new = Inr json" using B unfolding serves_new_def by blast+
qed

lemma serves_new_cong:
  "vw_blobs v s' (FormatInt k) = vw_blobs v s (FormatInt k) \<Longrightarrow>
   vw_colls v s' (cf_collection k) = vw_colls v s (cf_collection k) \<Longrightarrow> serves_new v s' d mf k = serves_new v s d mf k"
  by (simp add: serves_new_def serves_def)

text \<open>Publishing: other models are left alone, and the entry of the meta store changes only when the new model is served.\<close>

lemma publish_cf_effect:
  assumes laws: "service_laws v S" and perm: "\<And>us. mset (te_IterUsers E us) = mset us" and fits: "factors_fit d mf"
    and run: "publish_cf E S d mf new s = (r, s')"
  shows "(\<forall>n. n \<noteq> FormatInt (md_ID new) \<longrightarrow> vw_blobs v s' n = vw_blobs v s n) \<and>
    (\<forall>c. c \<noteq> cf_collection (md_ID new) \<longrightarrow> vw_colls v s' c = vw_colls v s c) \<and>
    (r \<noteq> Inr () \<and> vw_meta v s' = vw_meta v s \<or>
     (\<exists>json. te_ShowCF E new = Inr json \<and> vw_meta v s' = (vw_meta v s)(cf_key \<mapsto> json) \<and> serves_new v s' d mf (md_ID new)))"
proof -
  obtain r1 s1 where b: "build_cf E S d mf new s = (r1, s1)" by fastforce
  note t = framedD [OF framed_build_cf [OF laws] b, unfolded touches_def]
  show ?thesis
  proof (cases r1)
    case (Inl e)
    then have "r = Inl e" "s' = s1" using run b by (auto simp: publish_cf_def io_bind_def)
    then show ?thesis using t by simp
  next
    case (Inr json)
    obtain e s2 where p: "sv_Put S s1 cf_key json = (e, s2)" by fastforce
    have r: "s' = s2" "r = (case e of None \<Rightarrow> Inr () | Some x \<Rightarrow> Inl (Failed x))"
      using run b p by (auto simp: publish_cf_def io_bind_def io_do_def Inr split: option.splits)
    note P = service_lawsD(3) [OF laws p]
    have "serves_new v s2 d mf (md_ID new)" using build_cf_serves(1) [OF laws perm fits b [unfolded Inr]] P serves_new_cong by metis
    then show ?thesis using t P build_cf_serves(2) [OF laws perm fits b [unfolded Inr]] r by (auto split: option.splits)
  qed
qed

lemma cf_collection_name_inject: "cf_collection j = cf_collection k \<Longrightarrow> j = k"
  by (simp add: cf_collection_def FormatInt_inject)

text \<open>The removal at the end of a training spares the new model and the click-through rate model.\<close>

lemma removal_serves:
  assumes laws: "service_laws v S" and iter: "\<And>xs. set (te_Iter E xs) = set xs"
    and range: "Atoi (FormatInt (md_ID (ms_cfMeta m))) = Inr (md_ID (ms_cfMeta m))" "Atoi (FormatInt (md_ID (ms_ctrMeta m))) = Inr (md_ID (ms_ctrMeta m))"
  shows "vw_blobs v (removeOutOfDateModels E S m s) (FormatInt (md_ID (ms_ctrMeta m))) = vw_blobs v s (FormatInt (md_ID (ms_ctrMeta m)))"
    "vw_meta v (removeOutOfDateModels E S m s) = vw_meta v s"
    "serves_new v (removeOutOfDateModels E S m s) d mf (md_ID (ms_cfMeta m)) = serves_new v s d mf (md_ID (ms_cfMeta m))"
proof -
  note sp = removal_spares_current [OF laws, of E m s, OF iter, unfolded spares_def]
  show "vw_blobs v (removeOutOfDateModels E S m s) (FormatInt (md_ID (ms_ctrMeta m))) = vw_blobs v s (FormatInt (md_ID (ms_ctrMeta m)))"
    "vw_meta v (removeOutOfDateModels E S m s) = vw_meta v s"
    using sp range(2) by simp_all
  have "vw_colls v (removeOutOfDateModels E S m s) (cf_collection (md_ID (ms_cfMeta m))) =
      vw_colls v s (cf_collection (md_ID (ms_cfMeta m)))"
    using sp cf_collection_name_inject by blast
  then show "serves_new v (removeOutOfDateModels E S m s) d mf (md_ID (ms_cfMeta m)) = serves_new v s d mf (md_ID (ms_cfMeta m))"
    using sp range(1) by (intro serves_new_cong) simp_all
qed

text \<open>The meta store has got the entry of a model that is served.\<close>

definition entered :: "'s world_view \<Rightarrow> ('p, 'f, 'w, 'm) train_env \<Rightarrow> dataset \<Rightarrow> factorization \<Rightarrow> ('p, 'f cf_score) model_meta \<Rightarrow> 's \<Rightarrow> 's \<Rightarrow> bool" where
  "entered v E d mf new s s' \<longleftrightarrow>
     (\<exists>json. te_ShowCF E new = Inr json \<and> vw_meta v s' = (vw_meta v s)(cf_key \<mapsto> json) \<and> serves_new v s' d mf (md_ID new))"

definition int64 :: "int \<Rightarrow> bool" where
  "int64 k \<longleftrightarrow> - (2 ^ 63) \<le> k \<and> k < 2 ^ 63"

definition train_env_ok :: "('p, 'f, 'w, 'm) train_env \<Rightarrow> bool" where
  "train_env_ok E \<longleftrightarrow> (\<forall>xs. set (te_Iter E xs) = set xs) \<and> (\<forall>us. mset (te_IterUsers E us) = mset us)"

text \<open>How a training ends.\<close>

lemma training_cases:
  assumes laws: "service_laws v S" and fit: "new_cf E m train test = (mf, new)" and run: "trainCollaborativeFiltering E S train test (m, s) = (r, (m', s'))"
  obtains (idle) "m' = m" "s' = s"
  | (failed) e where "publish_cf E S train mf new s = (Inl e, s')" "m' = m"
  | (trained) s1 s2 where "publish_cf E S train mf new s = (Inr (), s1)" "unchanged v s1 s2" "r = Inr ()"
      "m' = m\<lparr>ms_cfMeta := new, ms_cfTrainSetSize := CountFeedback train\<rparr>" "s' = s2 \<or> s' = removeOutOfDateModels E S m' s2"
proof (cases "CountUsers train = 0 \<or> CountItems train = 0 \<or> CountFeedback train = 0 \<or> CountFeedback train = ms_cfTrainSetSize m")
  case True
  then have "m' = m" "s' = s" using run by (auto simp: trainCollaborativeFiltering_def split: if_splits)
  then show ?thesis by (rule idle)
next
  case False
  obtain r1 s1 where p: "publish_cf E S train mf new s = (r1, s1)" by fastforce
  show ?thesis
  proof (cases r1)
    case (Inl e)
    then have "m' = m" "s' = s1" using run False p by (simp_all add: trainCollaborativeFiltering_def fit)
    then show ?thesis using failed p Inl by blast
  next
    case (Inr u)
    obtain e s2 where a: "ca_AddTimeSeriesPoints (sv_Cache S) s1 (cf_points E (md_Score new)) = (e, s2)" by fastforce
    have "unchanged v s1 s2" using service_lawsD(5) [OF laws, of s1 "cf_points E (md_Score new)"] a by simp
    moreover have "r = Inr ()" "m' = m\<lparr>ms_cfMeta := new, ms_cfTrainSetSize := CountFeedback train\<rparr>" "s' = s2 \<or> s' = removeOutOfDateModels E S m' s2"
      using run False p a Inr by (auto simp: trainCollaborativeFiltering_def fit Let_def split: option.splits)
    ultimately show ?thesis using trained p Inr by simp
  qed
qed

text \<open>
  (C6) Training a factorization, whichever calls fail: the blob of the click-through rate model is never touched, and one of two things
  happens. Either the master keeps its fields and the blob and the collection of the current model are as before; then the entry of the
  meta store is the old one too, unless \<open>Put\<close> stored the new one and reported an error. Or it succeeds, and the master has the new
  model and the size of its training set. Whenever the meta store has the new entry, the new model is served: its
  collection holds the vectors of exactly the predictable items, and reading its blob gives every user the factors of the fit.
\<close>

theorem training_publishes:
  assumes laws: "service_laws v S" and env: "train_env_ok E" and fit: "new_cf E m train test = (mf, new)" and fits: "factors_fit train mf"
    and fresh: "md_ID new \<noteq> md_ID (ms_cfMeta m)" "md_ID new \<noteq> md_ID (ms_ctrMeta m)" and range: "int64 (md_ID new)" "int64 (md_ID (ms_ctrMeta m))"
    and run: "trainCollaborativeFiltering E S train test (m, s) = (r, (m', s'))"
  shows "vw_blobs v s' (FormatInt (md_ID (ms_ctrMeta m))) = vw_blobs v s (FormatInt (md_ID (ms_ctrMeta m))) \<and>
    (m' = m \<and> vw_blobs v s' (FormatInt (md_ID (ms_cfMeta m))) = vw_blobs v s (FormatInt (md_ID (ms_cfMeta m))) \<and>
       vw_colls v s' (cf_collection (md_ID (ms_cfMeta m))) = vw_colls v s (cf_collection (md_ID (ms_cfMeta m))) \<and>
       (vw_meta v s' = vw_meta v s \<or> entered v E train mf new s s') \<or>
     r = Inr () \<and> m' = m\<lparr>ms_cfMeta := new, ms_cfTrainSetSize := CountFeedback train\<rparr> \<and> entered v E train mf new s s')"
proof -
  have env': "\<And>xs. set (te_Iter E xs) = set xs" "\<And>us. mset (te_IterUsers E us) = mset us" using env by (simp_all add: train_env_ok_def)
  note P = publish_cf_effect [OF laws env'(2) fits]
  have names: "FormatInt (md_ID (ms_ctrMeta m)) \<noteq> FormatInt (md_ID new)" "FormatInt (md_ID (ms_cfMeta m)) \<noteq> FormatInt (md_ID new)"
    "cf_collection (md_ID (ms_cfMeta m)) \<noteq> cf_collection (md_ID new)"
    using fresh FormatInt_inject cf_collection_name_inject by metis+
  show ?thesis
  proof (cases rule: training_cases [OF laws fit run, case_names idle failed trained])
    case idle
    then show ?thesis by simp
  next
    case (failed e)
    then show ?thesis using P [OF failed(1)] names unfolding entered_def by auto
  next
    case (trained s1 s2)
    obtain json where json: "te_ShowCF E new = Inr json" "vw_meta v s1 = (vw_meta v s)(cf_key \<mapsto> json)" "serves_new v s1 train mf (md_ID new)"
      using P [OF trained(1)] by auto
    have ids: "md_ID (ms_cfMeta m') = md_ID new" "md_ID (ms_ctrMeta m') = md_ID (ms_ctrMeta m)" using trained(4) by simp_all
    have "Atoi (FormatInt (md_ID new)) = Inr (md_ID new)" "Atoi (FormatInt (md_ID (ms_ctrMeta m))) = Inr (md_ID (ms_ctrMeta m))"
      using range by (simp_all add: int64_def Atoi_FormatInt)
    note K = removal_serves [OF laws env'(1), of m', unfolded ids, OF this]
    have "serves_new v s2 train mf (md_ID new)" using json(3) trained(2) serves_new_cong unfolding unchanged_def by metis
    then have "serves_new v s' train mf (md_ID new)" using trained(5) K by auto
    moreover have "vw_meta v s' = (vw_meta v s)(cf_key \<mapsto> json)" using trained(2,5) K json(2) by (auto simp: unchanged_def)
    moreover have "vw_blobs v s' (FormatInt (md_ID (ms_ctrMeta m))) = vw_blobs v s (FormatInt (md_ID (ms_ctrMeta m)))"
      using trained(2,5) K P [OF trained(1)] names(1) by (auto simp: unchanged_def)
    ultimately show ?thesis using trained(3,4) json(1) unfolding entered_def by auto
  qed
qed

subsection \<open>A failed upload of a click-through rate model\<close>

text \<open>
  The size of the training set is recorded before the upload. When the upload fails, the master keeps the old model, and the next
  training on a data set of this size does nothing and reports success: the model is not trained again until the number of samples changes.
\<close>

lemma failed_ctr_upload_is_not_repeated:
  assumes "ctr_CountUsers train \<noteq> 0" "ctr_CountItems train \<noteq> 0" "ctr_Count train = Inr n" "n \<noteq> 0" "int n \<noteq> ms_ctrTrainSetSize m"
    and "choose_ctr m = (modelType, params)" "te_FitCTR E params train test = (model, score)"
    and fail: "upload (sv_Blob S) (FormatInt (to_milli (te_Now E))) (\<lambda>W. MarshalModel W model) (snd (record_fit E S ''last_fit_ranking_model_time'' s)) = (Inl e, s')"
  shows "trainClickThroughRatePrediction E S MarshalModel train test (m, s) = (Inl e, (m\<lparr>ms_ctrTrainSetSize := int n\<rparr>, s'))"
    "trainClickThroughRatePrediction E' S MarshalModel train test' (m\<lparr>ms_ctrTrainSetSize := int n\<rparr>, s') = (Inr (), (m\<lparr>ms_ctrTrainSetSize := int n\<rparr>, s'))"
  using assms by (simp_all add: trainClickThroughRatePrediction_def Let_def)

text \<open>A failed upload of a factorization model leaves the fields of the master as they were, so that the next training tries again.\<close>

lemma failed_cf_training_is_repeated:
  assumes "service_laws v S" and "new_cf E m train test = (mf, new)" and "trainCollaborativeFiltering E S train test (m, s) = (Inl e, (m', s'))"
  shows "m' = m"
  using assms(1,2,3) by (cases rule: training_cases) auto

end
