(* ===== verification/Cache_Garbage.thy ===== *)
theory Cache_Garbage
  imports Dataset Cache_Proxy
begin

text \<open>
  The collection of garbage in the cache (\<open>collectGarbage\<close> of \<open>master/tasks.go\<close>): leaderboards that are not configured any more,
  and old recommendations of users that the data set does not have.
\<close>

definition garbage_of :: "string list \<Rightarrow> dataset \<Rightarrow> scanned \<Rightarrow> (string list \<times> score_condition) option" where
  "garbage_of names d x =
     (if scd_Collection x = c_NonPersonalized then
        (if scd_Subset x \<notin> set names
         then Some ([c_NonPersonalized], \<lparr>sc_Subset = Some (scd_Subset x), sc_Id = None, sc_Before = None\<rparr>) else None)
      else if scd_Collection x = c_CollaborativeFiltering then
        (if fd_Id (dt_userDict d) (scd_Subset x) = NotId
         then Some ([c_CollaborativeFiltering], \<lparr>sc_Subset = Some (scd_Subset x), sc_Id = None, sc_Before = Some (dt_timestamp d)\<rparr>) else None)
      else None)"

text \<open>The scan is the list of the documents at its start; the callback deletes while it goes on.\<close>

definition collectGarbage :: "string list \<Rightarrow> ('s, 'w) cache \<Rightarrow> dataset \<Rightarrow> 's \<Rightarrow> go_error option \<times> 's" where
  "collectGarbage names C d s =
     (case ca_ScanScores C s of ((xs, e), s') \<Rightarrow>
        scan_with (\<lambda>x c. case garbage_of names d x of
            None \<Rightarrow> (None, c)
          | Some (collections, condition) \<Rightarrow> cdb_DeleteScores (ca_Main C) c collections condition) xs e s')"

subsection \<open>What is deleted\<close>

text \<open>The documents of a cache state; what its two methods promise, errors included.\<close>

definition matches :: "string list \<Rightarrow> score_condition \<Rightarrow> scanned \<Rightarrow> bool" where
  "matches collections c x \<longleftrightarrow> scd_Collection x \<in> set collections \<and>
     (\<forall>v. sc_Subset c = Some v \<longrightarrow> scd_Subset x = v) \<and> (\<forall>v. sc_Id c = Some v \<longrightarrow> scd_Id x = v) \<and>
     (\<forall>t. sc_Before c = Some t \<longrightarrow> scd_Timestamp x < t)"

definition scan_scores_law :: "('s \<Rightarrow> scanned set) \<Rightarrow> ('s, 'w) cache \<Rightarrow> bool" where
  "scan_scores_law docs C \<longleftrightarrow> (\<forall>s xs e s'. ca_ScanScores C s = ((xs, e), s') \<longrightarrow>
     docs s' = docs s \<and> set xs \<subseteq> docs s \<and> (e = None \<longrightarrow> set xs = docs s))"

definition delete_law :: "('s \<Rightarrow> scanned set) \<Rightarrow> ('s, 'w) cache \<Rightarrow> bool" where
  "delete_law docs C \<longleftrightarrow> (\<forall>s collections c e s'. cdb_DeleteScores (ca_Main C) s collections c = (e, s') \<longrightarrow>
     docs s' \<subseteq> docs s \<and> docs s - Collect (matches collections c) \<subseteq> docs s' \<and>
     (e = None \<longrightarrow> docs s' = docs s - Collect (matches collections c)))"

definition garbage :: "string list \<Rightarrow> dataset \<Rightarrow> scanned \<Rightarrow> bool" where
  "garbage names d x \<longleftrightarrow>
     scd_Collection x = c_NonPersonalized \<and> scd_Subset x \<notin> set names \<or>
     scd_Collection x = c_CollaborativeFiltering \<and> fd_Id (dt_userDict d) (scd_Subset x) = NotId \<and> scd_Timestamp x < dt_timestamp d"

lemma garbage_of_Some:
  "garbage_of names d x = Some (collections, c) \<Longrightarrow> matches collections c y \<Longrightarrow> garbage names d y"
  "garbage_of names d x = Some (collections, c) \<Longrightarrow> garbage names d x \<Longrightarrow> matches collections c x"
  by (auto simp: garbage_of_def garbage_def matches_def cache_names split: if_splits)

lemma garbage_of_None: "garbage_of names d x = None \<Longrightarrow> \<not> garbage names d x"
  by (auto simp: garbage_of_def garbage_def cache_names split: if_splits)

definition collect_step :: "string list \<Rightarrow> ('s, 'w) cache \<Rightarrow> dataset \<Rightarrow> scanned \<Rightarrow> 's \<Rightarrow> go_error option \<times> 's" where
  "collect_step names C d x c =
     (case garbage_of names d x of
        None \<Rightarrow> (None, c)
      | Some (collections, condition) \<Rightarrow> cdb_DeleteScores (ca_Main C) c collections condition)"

lemma collect_step_docs:
  assumes "delete_law docs C" and "collect_step names C d x s = (e, s')"
  shows "docs s' \<subseteq> docs s" "docs s - Collect (garbage names d) \<subseteq> docs s'" "e = None \<Longrightarrow> garbage names d x \<Longrightarrow> x \<notin> docs s'"
proof -
  have "docs s' \<subseteq> docs s \<and> docs s - Collect (garbage names d) \<subseteq> docs s' \<and> (e = None \<longrightarrow> garbage names d x \<longrightarrow> x \<notin> docs s')"
  proof (cases "garbage_of names d x")
    case None
    then show ?thesis using assms(2) garbage_of_None [OF None] by (simp add: collect_step_def)
  next
    case (Some cc)
    obtain collections c where cc: "cc = (collections, c)" by fastforce
    have "cdb_DeleteScores (ca_Main C) s collections c = (e, s')" using assms(2) Some cc by (simp add: collect_step_def)
    then have "docs s' \<subseteq> docs s \<and> docs s - Collect (matches collections c) \<subseteq> docs s' \<and> (e = None \<longrightarrow> docs s' = docs s - Collect (matches collections c))"
      using assms(1) unfolding delete_law_def by blast
    then show ?thesis using garbage_of_Some [OF Some [unfolded cc]] by blast
  qed
  then show "docs s' \<subseteq> docs s" "docs s - Collect (garbage names d) \<subseteq> docs s'" "e = None \<Longrightarrow> garbage names d x \<Longrightarrow> x \<notin> docs s'" by blast+
qed

lemma collect_steps_docs:
  assumes "delete_law docs C"
  shows "scan_with (collect_step names C d) xs e s = (e', s') \<Longrightarrow>
    docs s' \<subseteq> docs s \<and> docs s - Collect (garbage names d) \<subseteq> docs s' \<and>
    (e' = None \<longrightarrow> e = None \<and> (\<forall>x \<in> set xs. garbage names d x \<longrightarrow> x \<notin> docs s'))"
proof (induction xs arbitrary: s)
  case (Cons x xs)
  obtain e1 s1 where x: "collect_step names C d x s = (e1, s1)" by fastforce
  note X = collect_step_docs [OF assms x]
  show ?case
  proof (cases e1)
    case None
    then have "scan_with (collect_step names C d) xs e s1 = (e', s')" using Cons.prems x by simp
    from Cons.IH [OF this] show ?thesis using X None by auto
  next
    case (Some y)
    then have "e' = Some y" "s' = s1" using Cons.prems x by simp_all
    then show ?thesis using X by simp
  qed
qed simp

text \<open>
  (C22) Collecting garbage deletes leaderboards of names that are not configured, and the recommendations of users that the data set does
  not know which are older than it, and nothing else, whatever calls fail; and when it reports success they are all gone.
\<close>

theorem collectGarbage_exact:
  assumes "scan_scores_law docs C" and "delete_law docs C" and "collectGarbage names C d s = (e, s')"
  shows "docs s - {x. garbage names d x} \<subseteq> docs s' \<and> docs s' \<subseteq> docs s \<and> (e = None \<longrightarrow> docs s' = docs s - {x. garbage names d x})"
proof -
  obtain xs e1 s1 where scan: "ca_ScanScores C s = ((xs, e1), s1)" by (metis surj_pair)
  have s1: "docs s1 = docs s" "e1 = None \<longrightarrow> set xs = docs s" using assms(1) scan unfolding scan_scores_law_def by blast+
  have "scan_with (collect_step names C d) xs e1 s1 = (e, s')"
    using assms(3) scan by (simp add: collectGarbage_def collect_step_def [abs_def])
  from collect_steps_docs [OF assms(2) this] show ?thesis unfolding s1(1) using s1(2) by blast
qed

text \<open>A cache that is a list of documents.\<close>

definition list_cache :: "(scanned list, int) cache" where
  "list_cache = NoCache\<lparr>ca_ScanScores := (\<lambda>s. ((s, None), s)),
     ca_Main := (ca_Main NoCache)\<lparr>cdb_DeleteScores := (\<lambda>s collections c. (None, filter (\<lambda>x. \<not> matches collections c x) s))\<rparr>\<rparr>"

definition scanned_of :: "string \<Rightarrow> string \<Rightarrow> time \<Rightarrow> scanned" where
  "scanned_of collection subset' t = \<lparr>scd_Collection = collection, scd_Id = ''i'', scd_Subset = subset', scd_Timestamp = t\<rparr>"

definition empty_dataset :: "time \<Rightarrow> dataset" where
  "empty_dataset t = (case NewDataset t 0 0 of Inr d \<Rightarrow> d)"

theorem collectGarbage_exact_witness:
  "set [scanned_of c_NonPersonalized ''old'' 5, scanned_of c_NonPersonalized ''popular'' 5,
      scanned_of c_CollaborativeFiltering ''u'' 5, scanned_of c_CollaborativeFiltering ''u'' 10] - {x. garbage [''popular''] (empty_dataset 10) x}
   = set (snd (collectGarbage [''popular''] list_cache (empty_dataset 10) [scanned_of c_NonPersonalized ''old'' 5, scanned_of c_NonPersonalized ''popular'' 5,
      scanned_of c_CollaborativeFiltering ''u'' 5, scanned_of c_CollaborativeFiltering ''u'' 10])) \<and>
   snd (collectGarbage [''popular''] list_cache (empty_dataset 10) [scanned_of c_NonPersonalized ''old'' 5, scanned_of c_NonPersonalized ''popular'' 5,
      scanned_of c_CollaborativeFiltering ''u'' 5, scanned_of c_CollaborativeFiltering ''u'' 10]) =
     [scanned_of c_NonPersonalized ''popular'' 5, scanned_of c_CollaborativeFiltering ''u'' 10]"
proof -
  let ?s = "[scanned_of c_NonPersonalized ''old'' 5, scanned_of c_NonPersonalized ''popular'' 5,
      scanned_of c_CollaborativeFiltering ''u'' 5, scanned_of c_CollaborativeFiltering ''u'' 10]"
  have laws: "scan_scores_law set list_cache" "delete_law set list_cache"
    by (auto simp: scan_scores_law_def delete_law_def list_cache_def)
  have d: "dt_timestamp (empty_dataset 10) = 10" "fd_Id (dt_userDict (empty_dataset 10)) u = NotId" for u
    by (simp_all add: empty_dataset_def NewDataset_def NewFreqDict_def fd_Id_def NotId_def)
  have run: "collectGarbage [''popular''] list_cache (empty_dataset 10) ?s =
      (None, [scanned_of c_NonPersonalized ''popular'' 5, scanned_of c_CollaborativeFiltering ''u'' 10])"
    by (simp add: collectGarbage_def list_cache_def garbage_of_def d scanned_of_def matches_def cache_names)
  show ?thesis using collectGarbage_exact [OF laws run] by (simp add: run)
qed

end
