(* ===== verification/Memory_World.thy ===== *)
theory Memory_World
  imports Train_Props Cache_Garbage
begin

text \<open>Services that live in memory: the laws of the services hold of them, and the properties of training are run on them.\<close>

record mem_world =
  wd_blobs :: "(string \<times> byte list) list"
  wd_colls :: "(string \<times> (string \<rightharpoonup> i32 vector)) list"
  wd_meta :: "string \<rightharpoonup> string"
  wd_pending :: "string \<Rightarrow> byte list"

definition mem_view :: "mem_world world_view" where
  "mem_view = \<lparr>vw_blobs = (\<lambda>s. map_of (wd_blobs s)), vw_colls = (\<lambda>s. map_of (wd_colls s)), vw_meta = wd_meta, vw_pending = (\<lambda>n s. wd_pending s n)\<rparr>"

definition mem_blobs :: "mem_world blob_store" where
  "mem_blobs =
     \<lparr>bs_Create = (\<lambda>s n. (None, s\<lparr>wd_blobs := AList.update n [] (wd_blobs s), wd_pending := (wd_pending s)(n := [])\<rparr>)),
      bs_Write = (\<lambda>n s p. ((length p, None), s\<lparr>wd_pending := (wd_pending s)(n := wd_pending s n @ p)\<rparr>)),
      bs_Close = (\<lambda>s n. (None, s)),
      bs_Wait = (\<lambda>s n. s\<lparr>wd_blobs := AList.update n (wd_pending s n) (wd_blobs s)\<rparr>),
      bs_List = (\<lambda>s. (Inr (map fst (wd_blobs s)), s)),
      bs_Remove = (\<lambda>s n. (None, s\<lparr>wd_blobs := AList.delete n (wd_blobs s)\<rparr>))\<rparr>"

definition mem_vectors :: "(mem_world, i32) vector_db" where
  "mem_vectors =
     \<lparr>vdb_Optimize = (\<lambda>s c. (None, s)), vdb_ListCollections = (\<lambda>s. (Inr (remdups (map fst (wd_colls s))), s)),
      vdb_DescribeCollection = (\<lambda>s c. (Inr None, s)),
      vdb_AddCollection = (\<lambda>s c n d q. (None, s\<lparr>wd_colls := AList.update c Map.empty (wd_colls s)\<rparr>)),
      vdb_DeleteCollection = (\<lambda>s c. (None, s\<lparr>wd_colls := AList.delete c (wd_colls s)\<rparr>)),
      vdb_AddVectors = (\<lambda>s c vs. case map_of (wd_colls s) c of
          None \<Rightarrow> (Some ErrNotFound, s)
        | Some M \<Rightarrow> (None, s\<lparr>wd_colls := AList.update c (foldl (\<lambda>m x. m(vec_Id x \<mapsto> x)) M vs) (wd_colls s)\<rparr>)),
      vdb_GetVectors = (\<lambda>s c ids. (Inr [], s)), vdb_DeleteVectors = (\<lambda>s c t. (None, s)), vdb_QueryVectors = (\<lambda>s c q cs n. (Inr [], s))\<rparr>"

definition mem_services :: "(mem_world, int) services" where
  "mem_services = \<lparr>sv_Blob = mem_blobs, sv_Vector = mem_vectors, sv_Put = (\<lambda>s key val. (None, s\<lparr>wd_meta := (wd_meta s)(key \<mapsto> val)\<rparr>)),
     sv_Cache = NoCache\<lparr>ca_AddTimeSeriesPoints := (\<lambda>s ps. (None, s))\<rparr>\<rparr>"

lemma mem_blob_laws: "blob_laws mem_view mem_blobs"
  by (auto simp: blob_laws_def create_law_def write_law_def close_law_def list_law_def remove_law_def io_writer_def mem_view_def mem_blobs_def
      only_blob_def unchanged_def update_conv' delete_conv' dom_map_of_conv_image_fst)

lemma mem_vector_laws: "vector_laws mem_view mem_vectors"
  by (auto simp: vector_laws_def list_collections_law_def add_collection_law_def add_vectors_law_def optimize_law_def delete_collection_law_def
      mem_view_def mem_vectors_def only_coll_def unchanged_def update_conv' delete_conv' dom_map_of_conv_image_fst split: option.splits)

lemma mem_laws: "service_laws mem_view mem_services" "removals_succeed mem_view mem_services"
proof -
  show "service_laws mem_view mem_services"
    using mem_blob_laws mem_vector_laws
    by (auto simp: service_laws_def put_law_def cache_law_def mem_services_def unchanged_def mem_view_def NoCache_def)
  show "removals_succeed mem_view mem_services"
    by (auto simp: removals_succeed_def mem_services_def mem_blobs_def mem_vectors_def)
qed

subsection \<open>Removing\<close>

definition model_of :: "int \<Rightarrow> 'c \<Rightarrow> (int, 'c) model_meta" where
  "model_of k score = \<lparr>md_ID = k, md_Type = ''BPR'', md_Params = 0, md_Score = score\<rparr>"

definition cf_score0 :: "int cf_score" where
  "cf_score0 = \<lparr>cfs_NDCG = 0, cfs_Precision = 0, cfs_Recall = 0\<rparr>"

definition ctr_score0 :: "int ctr_model_score" where
  "ctr_score0 = \<lparr>cts_RMSE = 0, cts_Precision = 0, cts_Recall = 0, cts_Accuracy = 0, cts_AUC = 0\<rparr>"

definition example_models :: "(int, int) models" where
  "example_models = \<lparr>ms_cfMeta = model_of 3 cf_score0, ms_cfTarget = model_of 0 cf_score0, ms_cfTrainSetSize = 0,
     ms_ctrMeta = model_of 5 ctr_score0, ms_ctrTarget = model_of 0 ctr_score0, ms_ctrTrainSetSize = 0\<rparr>"

definition example_factorization :: factorization where
  "example_factorization = \<lparr>mf_UserIndex = fst (fd_AddNoCount NewFreqDict ''ann''), mf_ItemIndex = fst (fd_AddNoCount NewFreqDict ''tea''),
     mf_UserPredictable = (\<lambda>k. True), mf_ItemPredictable = (\<lambda>k. True), mf_UserFactor = [[1, 2]], mf_ItemFactor = [[3, 4]]\<rparr>"

definition example_env :: "(int, int, int, unit) train_env" where
  "example_env = \<lparr>te_Now = of_milli 7, te_Iter = rev, te_IterUsers = rev, te_ShowTime = (\<lambda>t. ''now''), te_Float64 = (\<lambda>x. x),
     te_ShowCF = (\<lambda>m. Inr ''new model''), te_ShowCTR = (\<lambda>m. Inr ''new model''),
     te_FitCF = (\<lambda>kind params train test. (example_factorization, cf_score0)), te_FitCTR = (\<lambda>params train test. ((), ctr_score0)),
     te_Quantization = \<lparr>vc_Type = '''', vc_Bits = 0\<rparr>\<rparr>"

lemma example_train_env_ok: "train_env_ok example_env"
  by (simp add: train_env_ok_def example_env_def)

text \<open>Four models and a file that is none; the first model is out of date, and so is a blob whose collection is gone.\<close>

definition example_world :: mem_world where
  "example_world = \<lparr>wd_blobs = [(''0'', []), (''1'', []), (''2'', []), (''3'', []), (''5'', []), (''notes'', [])],
     wd_colls = map (\<lambda>c. (c, Map.empty)) [''collaborative_filtering_1'', ''collaborative_filtering_2'', ''collaborative_filtering_3'', ''item_to_item_x''],
     wd_meta = Map.empty, wd_pending = (\<lambda>n. [])\<rparr>"

lemma example_numbers:
  "Atoi ''0'' = Inr 0" "Atoi ''1'' = Inr 1" "Atoi ''2'' = Inr 2" "Atoi ''3'' = Inr 3" "Atoi ''5'' = Inr 5" "Atoi ''notes'' = Inl (ErrOther ''invalid syntax'')"
  "cf_collection_id ''collaborative_filtering_1'' = Some 1" "cf_collection_id ''collaborative_filtering_2'' = Some 2"
  "cf_collection_id ''collaborative_filtering_3'' = Some 3" "cf_collection_id ''item_to_item_x'' = None"
  by code_simp+

lemma example_views:
  "vw_blobs mem_view example_world f \<noteq> None \<longleftrightarrow> f \<in> {''0'', ''1'', ''2'', ''3'', ''5'', ''notes''}"
  "vw_colls mem_view example_world c \<noteq> None \<longleftrightarrow> c \<in> {''collaborative_filtering_1'', ''collaborative_filtering_2'', ''collaborative_filtering_3'', ''item_to_item_x''}"
  by (auto simp: mem_view_def example_world_def)

lemma example_model_numbers: "model_numbers mem_view example_world = {0, 1, 2, 3, 5}"
  unfolding model_numbers_def example_views using example_numbers by auto

lemma example_collection_numbers: "collection_numbers mem_view example_world = {1, 2, 3}"
  unfolding collection_numbers_def example_views using example_numbers by auto

lemma example_kept: "kept_model mem_view example_models example_world k \<longleftrightarrow> k = 2 \<or> k = 3"
proof -
  have K: "{0, 1, 2, 3, 5} \<inter> {1, 2, 3} = {1, 2, 3 :: int}" by auto
  have gr: "{j \<in> {1, 2, 3}. 1 < j} = {2, 3 :: int}" "{j \<in> {1, 2, 3}. 2 < j} = {3 :: int}" "{j \<in> {1, 2, 3}. 3 < j} = ({} :: int set)" by auto
  have "newest_two {1, 2, 3} k \<longleftrightarrow> k = 2 \<or> k = 3"
  proof (cases "k \<in> {1, 2, 3}")
    case True
    then consider "k = 1" | "k = 2" | "k = 3" by blast
    then show ?thesis unfolding newest_two_def by cases (simp_all only: gr, simp_all)
  qed (auto simp: newest_two_def)
  then show ?thesis
    unfolding kept_model_def example_model_numbers example_collection_numbers K by (simp add: example_models_def model_of_def disj_comms)
qed

theorem removeOutOfDateModels_exact_witness:
  "map (\<lambda>f. vw_blobs mem_view (removeOutOfDateModels example_env mem_services example_models example_world) f)
     [''0'', ''1'', ''2'', ''3'', ''5'', ''notes''] = [None, None, Some [], Some [], Some [], Some []] \<and>
   map (\<lambda>c. vw_colls mem_view (removeOutOfDateModels example_env mem_services example_models example_world) c)
     [''collaborative_filtering_1'', ''collaborative_filtering_2'', ''item_to_item_x''] = [None, Some Map.empty, Some Map.empty]"
proof -
  have one: "one_name_each mem_view example_world"
    unfolding one_name_each_def example_views using example_numbers by auto
  have iter: "\<forall>xs. set (te_Iter example_env xs) = set xs" by (simp add: example_env_def)
  note E = removeOutOfDateModels_exact [OF mem_laws iter one, of example_models]
  have ids: "md_ID (ms_cfMeta example_models) = 3" "md_ID (ms_ctrMeta example_models) = 5" by (simp_all add: example_models_def model_of_def)
  show ?thesis
    by (simp add: E example_numbers example_kept ids example_collection_numbers) (simp add: mem_view_def example_world_def)
qed

subsection \<open>Training\<close>

definition example_train :: dataset where
  "example_train = (empty_dataset 0)\<lparr>dt_users := [\<lparr>du_UserId = ''ann'', du_Labels = LObject [], du_Comment = ''''\<rparr>],
     dt_items := [\<lparr>di_ItemId = ''tea'', di_IsHidden = False, di_Categories = [], di_Timestamp = 0, di_Labels = LObject [], di_Comment = ''''\<rparr>],
     dt_userDict := fst (fd_AddNoCount NewFreqDict ''ann''), dt_itemDict := fst (fd_AddNoCount NewFreqDict ''tea''), dt_numFeedback := 1\<rparr>"

lemma example_counts:
  "CountUsers example_train = 1" "CountItems example_train = 1" "CountFeedback example_train = 1"
  by (simp_all add: example_train_def CountUsers_def CountItems_def CountFeedback_def)

lemma example_fit: "new_cf example_env example_models example_train example_train = (example_factorization, model_of 7 cf_score0)"
  by (simp add: new_cf_def choose_cf_def example_env_def example_models_def model_of_def cf_score0_def to_milli_def of_milli_def)

lemma example_users: "user_factors example_train example_factorization [0] [] = Inr [(''ann'', [1, 2])]"
  by (simp add: example_train_def example_factorization_def fd_String_def fd_AddNoCount_def fd_append_def NewFreqDict_def index_i32_def
      IsUserPredictable_def GetUserFactor_def fd_Count_def mf_Add_def)

lemma example_items: "item_vectors example_train example_factorization 7 [0] =
    Inr [zero_vector\<lparr>vec_Id := ''tea'', vec_Values := [3, 4], vec_Timestamp := of_milli 7\<rparr>]"
  by (simp add: item_vectors_def item_vector_def example_train_def example_factorization_def fd_AddNoCount_def fd_append_def NewFreqDict_def
      IsItemPredictable_def GetItemFactor_def fd_Count_def index_i32_def zero_vector_def)

lemma mem_never_fails:
  "never_fails (binary_Write (bs_Write mem_blobs n) bs)" "never_fails (WriteBytes (bs_Write mem_blobs n) bs)"
  "never_fails (WriteSlice (bs_Write mem_blobs n) xs)" "never_fails (WriteString (bs_Write mem_blobs n) str)" "never_fails (WriteGob (bs_Write mem_blobs n) i)"
proof -
  show b: "never_fails (binary_Write (bs_Write mem_blobs n) bs)" for bs
    by (simp add: never_fails_def binary_Write_def mem_blobs_def)
  show WB: "never_fails (WriteBytes (bs_Write mem_blobs n) bs)" for bs
    unfolding WriteBytes_def by (intro never_fails_bind b) (simp add: never_fails_def mem_blobs_def)
  show "never_fails (WriteSlice (bs_Write mem_blobs n) xs)" unfolding WriteSlice_def by (intro never_fails_bind b)
  show "never_fails (WriteString (bs_Write mem_blobs n) str)" "never_fails (WriteGob (bs_Write mem_blobs n) i)"
    unfolding WriteString_def WriteGob_def by (rule WB)+
qed

lemma mem_upload: "\<exists>s'. upload mem_blobs n (\<lambda>W. mf_Marshal Iter W users) s = (Inr (), s')"
proof -
  have "never_fails (mf_Marshal Iter (bs_Write mem_blobs n) users)"
    unfolding mf_Marshal_def
    by (intro never_fails_bind never_fails_each mem_never_fails) (auto intro!: never_fails_bind mem_never_fails)
  then obtain u s2 where "mf_Marshal Iter (bs_Write mem_blobs n) users (snd (bs_Create mem_blobs s n)) = (Inr u, s2)"
    unfolding never_fails_def by blast
  then show ?thesis by (simp add: upload_def io_bind_def io_do_def mem_blobs_def)
qed

lemma example_publish: "\<exists>s1. publish_cf example_env mem_services example_train example_factorization (model_of 7 cf_score0) s = (Inr (), s1)"
proof -
  have b: "batches 0 (Suc 0) = [[0]]" by (simp add: batches.simps [of 0] batches.simps [of 10000] batch_size_def)
  have first: "GetItemFactor example_factorization 0 = Inr [3, 4]"
    by (simp add: GetItemFactor_def example_factorization_def index_i32_def)
  have "\<exists>s1. build_cf example_env mem_services example_train example_factorization (model_of 7 cf_score0) s = (Inr ''new model'', s1)"
  proof -
    let ?s = "snd (cdb_Set (ca_Main (NoCache :: (mem_world, int) cache)) (s\<lparr>wd_colls := AList.update (cf_collection 7)
        [''tea'' \<mapsto> zero_vector\<lparr>vec_Id := ''tea'', vec_Values := [3, 4], vec_Timestamp := of_milli 7\<rparr>] (wd_colls s)\<rparr>)
      [kv_Time (\<lambda>t. ''now'') (Key [''global_meta'', ''last_fit_matching_model_time'']) (of_milli 7)])"
    obtain s' where "upload mem_blobs (FormatInt 7) (\<lambda>W. mf_Marshal rev W [(''ann'', [1, 2])]) ?s = (Inr (), s')"
      using mem_upload by blast
    then show ?thesis
      by (simp del: user_factors.simps add: io_return_def build_cf_def Let_def io_bind_def io_do_def io_lift_def first b example_counts example_items
          example_users index_batch_def record_fit_def model_of_def example_env_def mem_services_def mem_vectors_def NewMatrixFactorizationUsers_def update_conv')
  qed
  then show ?thesis by (auto simp: publish_cf_def io_bind_def io_do_def mem_services_def)
qed

theorem training_publishes_witness:
  "\<exists>s'. trainCollaborativeFiltering example_env mem_services example_train example_train (example_models, example_world) =
      (Inr (), (example_models\<lparr>ms_cfMeta := model_of 7 cf_score0, ms_cfTrainSetSize := 1\<rparr>, s')) \<and>
    entered mem_view example_env example_train example_factorization (model_of 7 cf_score0) example_world s'"
proof -
  obtain s1 where p: "publish_cf example_env mem_services example_train example_factorization (model_of 7 cf_score0) example_world = (Inr (), s1)"
    using example_publish by blast
  have size: "ms_cfTrainSetSize example_models = 0" by (simp add: example_models_def)
  have score: "md_Score (model_of 7 cf_score0) = cf_score0" by (simp add: model_of_def)
  have cache: "ca_AddTimeSeriesPoints (sv_Cache mem_services) s1 ps = (None, s1)" for ps by (simp add: mem_services_def)
  let ?m = "example_models\<lparr>ms_cfMeta := model_of 7 cf_score0, ms_cfTrainSetSize := 1\<rparr>"
  have run: "trainCollaborativeFiltering example_env mem_services example_train example_train (example_models, example_world) =
      (Inr (), (?m, removeOutOfDateModels example_env mem_services ?m s1))"
    by (simp add: trainCollaborativeFiltering_def example_counts size example_fit p cache score Let_def)
  have ids: "md_ID (model_of 7 cf_score0) \<noteq> md_ID (ms_cfMeta example_models)" "md_ID (model_of 7 cf_score0) \<noteq> md_ID (ms_ctrMeta example_models)"
    "int64 (md_ID (model_of 7 cf_score0))" "int64 (md_ID (ms_ctrMeta example_models))"
    by (simp_all add: model_of_def example_models_def int64_def)
  have fits: "factors_fit example_train example_factorization"
    by (simp del: user_factors.simps add: factors_fit_def example_counts example_users users_fit_def)
  have changed: "example_models\<lparr>ms_cfMeta := model_of 7 cf_score0, ms_cfTrainSetSize := 1\<rparr> \<noteq> example_models"
    by (simp add: example_models_def)
  show ?thesis
    using training_publishes [OF mem_laws(1) example_train_env_ok example_fit fits ids run] changed run by blast
qed

end
