(* ===== verification/Neighbour_Index.thy ===== *)
theory Neighbour_Index
  imports Sparse_Vector Vector_Writer Dataset Recommend_Config
begin

text \<open>
  The vectors from which neighbours are found: \<open>logics/item_to_item.go\<close> and \<open>logics/user_to_user.go\<close> but for their queries
  (\<open>Similarity\<close>), and the tasks \<open>updateItemToItem\<close> and \<open>updateUserToUser\<close> of \<open>master/tasks.go\<close>. Expressions are compiled and
  run by a library, square roots and logarithms are library functions: parameters. The items are added one after the other, in an order that
  is a parameter, as jobs that run in parallel take the mutex of a writer in some order.
\<close>

subsection \<open>Parameters\<close>

record ('prog, 'w) neighbour_env =
  ne_CompileItem :: "string \<Rightarrow> go_error + 'prog"
  ne_CompileUser :: "string \<Rightarrow> go_error + 'prog"
  ne_RunItem :: "'prog \<Rightarrow> dataset_item \<Rightarrow> go_error + label"
  ne_RunUser :: "'prog \<Rightarrow> dataset_user \<Rightarrow> go_error + label"
  ne_FromAny :: "label \<Rightarrow> 16 word list option"
  ne_sqrt32 :: "'w \<Rightarrow> 'w"
  ne_log32 :: "'w \<Rightarrow> 'w"
  ne_float :: "int \<Rightarrow> 'w"

text \<open>Inverse document frequencies (\<open>dataset/dataset.go\<close>).\<close>

definition column_idf :: "('prog, 'w::{one, plus, divide}) neighbour_env \<Rightarrow> nat \<Rightarrow> freq_dict \<Rightarrow> go_panic + 'w list" where
  "column_idf E n dict =
     p_map (\<lambda>i. p_bind (fd_Freq dict i) (\<lambda>freq. Inr (ne_log32 E (1 + ne_float E (int n) div ne_float E (sint freq))))) (i32_range 0 (fd_Count dict))"

definition GetUserIDF :: "('prog, 'w::{one, plus, divide}) neighbour_env \<Rightarrow> dataset \<Rightarrow> go_panic + 'w list" where
  "GetUserIDF E d = column_idf E (length (dt_items d)) (dt_userDict d)"

definition GetItemIDF :: "('prog, 'w::{one, plus, divide}) neighbour_env \<Rightarrow> dataset \<Rightarrow> go_panic + 'w list" where
  "GetItemIDF E d = column_idf E (length (dt_users d)) (dt_itemDict d)"

definition GetUserColumnValuesIDF :: "('prog, 'w::{one, plus, divide}) neighbour_env \<Rightarrow> dataset \<Rightarrow> go_panic + 'w list" where
  "GetUserColumnValuesIDF E d = column_idf E (length (dt_users d)) (dt_userLabels d)"

definition GetItemColumnValuesIDF :: "('prog, 'w::{one, plus, divide}) neighbour_env \<Rightarrow> dataset \<Rightarrow> go_panic + 'w list" where
  "GetItemColumnValuesIDF E d = column_idf E (length (dt_items d)) (dt_itemLabels d)"

subsection \<open>Construction\<close>

text \<open>The four types of both: an embedding column, a column of tags, feedback, and tags with feedback.\<close>

datatype ('prog, 'w) feature = Embedding 'prog | Tags 'prog "'w list" | Linked "'w list" | Auto "'w list" "'w list"

record ('prog, 'w) neighbours =
  nb_Writer :: "'w writer"
  nb_Feature :: "('prog, 'w) feature"

record ('s, 'w) neighbour_options =
  no_VectorClient :: "('s, 'w) vector_db option"
  no_VectorConfig :: vector_config
  no_BatchSize :: int
  no_TagsIDF :: "'w list option"
  no_LinkedIDF :: "'w list option"

definition newItemToItemVectorWriter :: "similarity_config \<Rightarrow> time \<Rightarrow> ('s, 'w) neighbour_options \<Rightarrow> bool \<Rightarrow> 'w writer" where
  "newItemToItemVectorWriter cfg t opts sparse =
     newSimilarityVectorWriter (ItemToItemCollection (sim_Name cfg)) (if sparse then Dot else Euclidean) (no_VectorConfig opts) t (no_BatchSize opts) sparse"

definition newUserToUserVectorWriter :: "similarity_config \<Rightarrow> time \<Rightarrow> ('s, 'w) neighbour_options \<Rightarrow> bool \<Rightarrow> 'w writer" where
  "newUserToUserVectorWriter cfg t opts sparse =
     newSimilarityVectorWriter (UserToUserCollection (sim_Name cfg)) (if sparse then Dot else Euclidean) (no_VectorConfig opts) t (no_BatchSize opts) sparse"

definition newEmbeddingItemToItem :: "('prog, 'w) neighbour_env \<Rightarrow> similarity_config \<Rightarrow> time \<Rightarrow> ('s, 'w) neighbour_options \<Rightarrow> go_error + ('prog, 'w) neighbours" where
  "newEmbeddingItemToItem E cfg t opts =
     p_bind (ne_CompileItem E (sim_Column cfg)) (\<lambda>p. Inr \<lparr>nb_Writer = newItemToItemVectorWriter cfg t opts False, nb_Feature = Embedding p\<rparr>)"

definition newTagsItemToItem :: "('prog, 'w) neighbour_env \<Rightarrow> similarity_config \<Rightarrow> time \<Rightarrow> ('s, 'w) neighbour_options \<Rightarrow> 'w list \<Rightarrow> go_error + ('prog, 'w) neighbours" where
  "newTagsItemToItem E cfg t opts idf =
     p_bind (ne_CompileItem E (sim_Column cfg)) (\<lambda>p. Inr \<lparr>nb_Writer = newItemToItemVectorWriter cfg t opts True, nb_Feature = Tags p idf\<rparr>)"

definition newUsersItemToItem :: "similarity_config \<Rightarrow> time \<Rightarrow> ('s, 'w) neighbour_options \<Rightarrow> 'w list \<Rightarrow> go_error + ('prog, 'w) neighbours" where
  "newUsersItemToItem cfg t opts idf =
     (if sim_Column cfg \<noteq> '''' then Inl (ErrOther ''column is not supported in users item-to-item'')
      else Inr \<lparr>nb_Writer = newItemToItemVectorWriter cfg t opts True, nb_Feature = Linked idf\<rparr>)"

definition newAutoItemToItem :: "similarity_config \<Rightarrow> time \<Rightarrow> ('s, 'w) neighbour_options \<Rightarrow> 'w list \<Rightarrow> 'w list \<Rightarrow> go_error + ('prog, 'w) neighbours" where
  "newAutoItemToItem cfg t opts tags linked = Inr \<lparr>nb_Writer = newItemToItemVectorWriter cfg t opts True, nb_Feature = Auto tags linked\<rparr>"

definition NewItemToItem :: "('prog, 'w) neighbour_env \<Rightarrow> similarity_config \<Rightarrow> time \<Rightarrow> ('s, 'w) neighbour_options option \<Rightarrow> go_error + ('prog, 'w) neighbours" where
  "NewItemToItem E cfg t opts =
     (case opts of
        None \<Rightarrow> Inl (ErrOther ''vector database is required for item-to-item'')
      | Some o' \<Rightarrow>
          (case no_VectorClient o' of
             None \<Rightarrow> Inl (ErrOther ''vector database is required for item-to-item'')
           | Some _ \<Rightarrow>
               if sim_Type cfg = ''embedding'' then newEmbeddingItemToItem E cfg t o'
               else if sim_Type cfg = ''tags'' then
                 (case no_TagsIDF o' of None \<Rightarrow> Inl (ErrOther ''tags IDF is required for tags item-to-item'') | Some idf \<Rightarrow> newTagsItemToItem E cfg t o' idf)
               else if sim_Type cfg = ''users'' then
                 (case no_LinkedIDF o' of None \<Rightarrow> Inl (ErrOther ''users IDF is required for users item-to-item'') | Some idf \<Rightarrow> newUsersItemToItem cfg t o' idf)
               else if sim_Type cfg = ''auto'' then
                 (case (no_TagsIDF o', no_LinkedIDF o') of
                    (Some tags, Some linked) \<Rightarrow> newAutoItemToItem cfg t o' tags linked
                  | _ \<Rightarrow> Inl (ErrOther ''tags and users IDF are required for auto item-to-item''))
               else Inl (ErrOther ''invalid item-to-item type'')))"

definition newEmbeddingUserToUser :: "('prog, 'w) neighbour_env \<Rightarrow> similarity_config \<Rightarrow> time \<Rightarrow> ('s, 'w) neighbour_options \<Rightarrow> go_error + ('prog, 'w) neighbours" where
  "newEmbeddingUserToUser E cfg t opts =
     p_bind (ne_CompileUser E (sim_Column cfg)) (\<lambda>p. Inr \<lparr>nb_Writer = newUserToUserVectorWriter cfg t opts False, nb_Feature = Embedding p\<rparr>)"

definition newTagsUserToUser :: "('prog, 'w) neighbour_env \<Rightarrow> similarity_config \<Rightarrow> time \<Rightarrow> ('s, 'w) neighbour_options \<Rightarrow> 'w list \<Rightarrow> go_error + ('prog, 'w) neighbours" where
  "newTagsUserToUser E cfg t opts idf =
     p_bind (ne_CompileUser E (sim_Column cfg)) (\<lambda>p. Inr \<lparr>nb_Writer = newUserToUserVectorWriter cfg t opts True, nb_Feature = Tags p idf\<rparr>)"

definition newItemsUserToUser :: "similarity_config \<Rightarrow> time \<Rightarrow> ('s, 'w) neighbour_options \<Rightarrow> 'w list \<Rightarrow> go_error + ('prog, 'w) neighbours" where
  "newItemsUserToUser cfg t opts idf =
     (if sim_Column cfg \<noteq> '''' then Inl (ErrOther ''column is not supported in items user-to-user'')
      else Inr \<lparr>nb_Writer = newUserToUserVectorWriter cfg t opts True, nb_Feature = Linked idf\<rparr>)"

definition newAutoUserToUser :: "similarity_config \<Rightarrow> time \<Rightarrow> ('s, 'w) neighbour_options \<Rightarrow> 'w list \<Rightarrow> 'w list \<Rightarrow> go_error + ('prog, 'w) neighbours" where
  "newAutoUserToUser cfg t opts tags linked = Inr \<lparr>nb_Writer = newUserToUserVectorWriter cfg t opts True, nb_Feature = Auto tags linked\<rparr>"

definition NewUserToUser :: "('prog, 'w) neighbour_env \<Rightarrow> similarity_config \<Rightarrow> time \<Rightarrow> ('s, 'w) neighbour_options option \<Rightarrow> go_error + ('prog, 'w) neighbours" where
  "NewUserToUser E cfg t opts =
     (case opts of
        None \<Rightarrow> Inl (ErrOther ''vector database is required for user-to-user'')
      | Some o' \<Rightarrow>
          (case no_VectorClient o' of
             None \<Rightarrow> Inl (ErrOther ''vector database is required for user-to-user'')
           | Some _ \<Rightarrow>
               if sim_Type cfg = ''embedding'' then newEmbeddingUserToUser E cfg t o'
               else if sim_Type cfg = ''tags'' then
                 (case no_TagsIDF o' of None \<Rightarrow> Inl (ErrOther ''tags IDF is required for tags user-to-user'') | Some idf \<Rightarrow> newTagsUserToUser E cfg t o' idf)
               else if sim_Type cfg = ''items'' then
                 (case no_LinkedIDF o' of None \<Rightarrow> Inl (ErrOther ''items IDF is required for items user-to-user'') | Some idf \<Rightarrow> newItemsUserToUser cfg t o' idf)
               else if sim_Type cfg = ''auto'' then
                 (case (no_TagsIDF o', no_LinkedIDF o') of
                    (Some tags, Some linked) \<Rightarrow> newAutoUserToUser cfg t o' tags linked
                  | _ \<Rightarrow> Inl (ErrOther ''tags IDF and items IDF are required for auto user-to-user''))
               else Inl (ErrOther ''unknown user-to-user method'')))"

subsection \<open>Adding an item or a user\<close>

text \<open>\<open>flatten\<close> collects the ids of a value into a set; sorted, its order does not depend on the order in which the set is read.\<close>

fun flatten :: "label \<Rightarrow> i32 list" and flatten_fields :: "(string \<times> label) list \<Rightarrow> i32 list" where
  "flatten (LID k) = [k]"
| "flatten (LIDs ks) = ks"
| "flatten (LObject fs) = flatten_fields fs"
| "flatten (LRaw j) = []"
| "flatten (LFloats xs) = []"
| "flatten_fields [] = []"
| "flatten_fields ((name, child) # fs) = flatten child @ flatten_fields fs"

definition sorted_ids :: "i32 list \<Rightarrow> i32 list" where
  "sorted_ids ks = sort_key sint ks"

definition tag_ids :: "label \<Rightarrow> i32 list" where
  "tag_ids l = sorted_ids (remdups (flatten l))"

text \<open>
  The vector that each type adds for an item, none when its column gives no embedding or no value. \<open>w\<close> is the writer of the recommender.
\<close>

definition ExtractItemEmbedding :: "('prog, 'w) neighbour_env \<Rightarrow> dataset_item \<Rightarrow> 'prog \<Rightarrow> 16 word list option" where
  "ExtractItemEmbedding E item p = (case ne_RunItem E p item of Inl e \<Rightarrow> None | Inr result \<Rightarrow> ne_FromAny E result)"

definition of_item :: "'w writer \<Rightarrow> dataset_item \<Rightarrow> 'w vector \<Rightarrow> 'w vector" where
  "of_item w item x = x\<lparr>vec_Id := di_ItemId item, vec_IsHidden := di_IsHidden item, vec_Categories := di_Categories item, vec_Timestamp := w_timestamp w\<rparr>"

definition embedding_item :: "('prog, 'w) neighbour_env \<Rightarrow> 'w writer \<Rightarrow> 'prog \<Rightarrow> dataset_item \<Rightarrow> 'w vector option" where
  "embedding_item E w p item =
     (case ExtractItemEmbedding E item p of
        None \<Rightarrow> None
      | Some embedding \<Rightarrow> if embedding = [] then None else Some (of_item w item (zero_vector\<lparr>vec_HValues := embedding\<rparr>)))"

definition tags_item :: "('prog, 'w::{linorder, zero}) neighbour_env \<Rightarrow> 'w writer \<Rightarrow> 'prog \<Rightarrow> 'w list \<Rightarrow> dataset_item \<Rightarrow> go_panic + 'w vector option" where
  "tags_item E w p idf item =
     (case ne_RunItem E p item of
        Inl e \<Rightarrow> Inr None
      | Inr result \<Rightarrow> p_bind (newSparseVector (ne_sqrt32 E) (tag_ids result) idf 0) (\<lambda>x. Inr (Some (of_item w item x))))"

definition users_item :: "('prog, 'w::{linorder, zero}) neighbour_env \<Rightarrow> 'w writer \<Rightarrow> 'w list \<Rightarrow> dataset_item \<Rightarrow> i32 list \<Rightarrow> go_panic + 'w vector option" where
  "users_item E w idf item feedback =
     p_bind (newSparseVector (ne_sqrt32 E) (sorted_ids feedback) idf 0) (\<lambda>x. Inr (Some (of_item w item x)))"

definition auto_item :: "('prog, 'w::{linorder, zero}) neighbour_env \<Rightarrow> 'w writer \<Rightarrow> 'w list \<Rightarrow> 'w list \<Rightarrow> dataset_item \<Rightarrow> i32 list \<Rightarrow> go_panic + 'w vector option" where
  "auto_item E w tagsIDF usersIDF item feedback =
     p_bind (newSparseVector (ne_sqrt32 E) (tag_ids (di_Labels item)) tagsIDF 0) (\<lambda>x.
     p_bind (appendSparseVector (ne_sqrt32 E) x (sorted_ids feedback) usersIDF (of_nat (length tagsIDF))) (\<lambda>x. Inr (Some (of_item w item x))))"

definition item_feature :: "('prog, 'w::{linorder, zero}) neighbour_env \<Rightarrow> ('prog, 'w) neighbours \<Rightarrow> dataset_item \<Rightarrow> i32 list \<Rightarrow> go_panic + 'w vector option" where
  "item_feature E r item feedback =
     (case nb_Feature r of
        Embedding p \<Rightarrow> Inr (embedding_item E (nb_Writer r) p item)
      | Tags p idf \<Rightarrow> tags_item E (nb_Writer r) p idf item
      | Linked idf \<Rightarrow> users_item E (nb_Writer r) idf item feedback
      | Auto tags users \<Rightarrow> auto_item E (nb_Writer r) tags users item feedback)"

text \<open>And for a user.\<close>

definition of_user :: "'w writer \<Rightarrow> dataset_user \<Rightarrow> 'w vector \<Rightarrow> 'w vector" where
  "of_user w user x = x\<lparr>vec_Id := du_UserId user, vec_Timestamp := w_timestamp w\<rparr>"

definition embedding_user :: "('prog, 'w) neighbour_env \<Rightarrow> 'w writer \<Rightarrow> 'prog \<Rightarrow> dataset_user \<Rightarrow> 'w vector option" where
  "embedding_user E w p user =
     (case (case ne_RunUser E p user of Inl e \<Rightarrow> None | Inr result \<Rightarrow> ne_FromAny E result) of
        None \<Rightarrow> None
      | Some embedding \<Rightarrow> if embedding = [] then None else Some (of_user w user (zero_vector\<lparr>vec_HValues := embedding\<rparr>)))"

definition tags_user :: "('prog, 'w::{linorder, zero}) neighbour_env \<Rightarrow> 'w writer \<Rightarrow> 'prog \<Rightarrow> 'w list \<Rightarrow> dataset_user \<Rightarrow> go_panic + 'w vector option" where
  "tags_user E w p idf user =
     (case ne_RunUser E p user of
        Inl e \<Rightarrow> Inr None
      | Inr result \<Rightarrow> p_bind (newSparseVector (ne_sqrt32 E) (tag_ids result) idf 0) (\<lambda>x. Inr (Some (of_user w user x))))"

definition items_user :: "('prog, 'w::{linorder, zero}) neighbour_env \<Rightarrow> 'w writer \<Rightarrow> 'w list \<Rightarrow> dataset_user \<Rightarrow> i32 list \<Rightarrow> go_panic + 'w vector option" where
  "items_user E w idf user feedback =
     p_bind (newSparseVector (ne_sqrt32 E) (sorted_ids feedback) idf 0) (\<lambda>x. Inr (Some (of_user w user x)))"

definition auto_user :: "('prog, 'w::{linorder, zero}) neighbour_env \<Rightarrow> 'w writer \<Rightarrow> 'w list \<Rightarrow> 'w list \<Rightarrow> dataset_user \<Rightarrow> i32 list \<Rightarrow> go_panic + 'w vector option" where
  "auto_user E w tagsIDF itemsIDF user feedback =
     p_bind (newSparseVector (ne_sqrt32 E) (tag_ids (du_Labels user)) tagsIDF 0) (\<lambda>x.
     p_bind (appendSparseVector (ne_sqrt32 E) x (sorted_ids feedback) itemsIDF (of_nat (length tagsIDF))) (\<lambda>x. Inr (Some (of_user w user x))))"

definition user_feature :: "('prog, 'w::{linorder, zero}) neighbour_env \<Rightarrow> ('prog, 'w) neighbours \<Rightarrow> dataset_user \<Rightarrow> i32 list \<Rightarrow> go_panic + 'w vector option" where
  "user_feature E r user feedback =
     (case nb_Feature r of
        Embedding p \<Rightarrow> Inr (embedding_user E (nb_Writer r) p user)
      | Tags p idf \<Rightarrow> tags_user E (nb_Writer r) p idf user
      | Linked idf \<Rightarrow> items_user E (nb_Writer r) idf user feedback
      | Auto tags items \<Rightarrow> auto_user E (nb_Writer r) tags items user feedback)"

text \<open>\<open>slices.Sort(feedback)\<close> sorts the row of the caller.\<close>

definition sorts_feedback :: "('prog, 'w) feature \<Rightarrow> bool" where
  "sorts_feedback feature = (case feature of Embedding p \<Rightarrow> False | Tags p idf \<Rightarrow> False | Linked idf \<Rightarrow> True | Auto tags linked \<Rightarrow> True)"

definition neighbours_Add :: "('s, 'w) vector_db option \<Rightarrow> ('prog, 'w) neighbours \<Rightarrow> i32 list \<Rightarrow> go_panic + 'w vector option \<Rightarrow> 's \<Rightarrow>
    go_panic + go_error option \<times> ('prog, 'w) neighbours \<times> i32 list \<times> 's" where
  "neighbours_Add client r feedback vector s =
     (let ids = (if sorts_feedback (nb_Feature r) then sorted_ids feedback else feedback) in
      p_bind vector (\<lambda>v.
      case v of
        None \<Rightarrow> Inr (None, r, ids, s)
      | Some x \<Rightarrow> p_bind (writer_Add client (nb_Writer r) s x) (\<lambda>(e, w, s'). Inr (e, r\<lparr>nb_Writer := w\<rparr>, ids, s'))))"

subsection \<open>The tasks\<close>

text \<open>One entity is added to all recommenders; their errors are only logged. The row of its feedback may be sorted on the way.\<close>

fun add_to_each :: "('s, 'w) vector_db option \<Rightarrow> (('prog, 'w) neighbours \<Rightarrow> i32 list \<Rightarrow> go_panic + 'w vector option) \<Rightarrow> ('prog, 'w) neighbours list \<Rightarrow>
    i32 list \<Rightarrow> 's \<Rightarrow> go_panic + ('prog, 'w) neighbours list \<times> i32 list \<times> 's" where
  "add_to_each client vector [] ids s = Inr ([], ids, s)"
| "add_to_each client vector (r # rs) ids s =
     p_bind (neighbours_Add client r ids (vector r ids) s) (\<lambda>(e, r', ids', s').
     p_bind (add_to_each client vector rs ids' s') (\<lambda>(rs', ids'', s''). Inr (r' # rs', ids'', s'')))"

fun add_entities :: "('s, 'w) vector_db option \<Rightarrow> (nat \<Rightarrow> ('prog, 'w) neighbours \<Rightarrow> i32 list \<Rightarrow> go_panic + 'w vector option) \<Rightarrow> nat list \<Rightarrow>
    ('prog, 'w) neighbours list \<Rightarrow> i32 list list \<Rightarrow> 's \<Rightarrow> go_panic + ('prog, 'w) neighbours list \<times> i32 list list \<times> 's" where
  "add_entities client vector [] rs rows s = Inr (rs, rows, s)"
| "add_entities client vector (i # order) rs rows s =
     p_bind (slice_get rows i) (\<lambda>ids.
     p_bind (add_to_each client (vector i) rs ids s) (\<lambda>(rs', ids', s').
     add_entities client vector order rs' (rows[i := ids']) s'))"

fun clean_all :: "('s, 'w) vector_db option \<Rightarrow> ('prog, 'w) neighbours list \<Rightarrow> 's \<Rightarrow> go_panic + go_error option \<times> 's" where
  "clean_all client [] s = Inr (None, s)"
| "clean_all client (r # rs) s =
     p_bind (writer_Clean client (nb_Writer r) s) (\<lambda>(e, w, s'). case e of Some _ \<Rightarrow> Inr (e, s') | None \<Rightarrow> clean_all client rs s')"

definition neighbour_batch :: int where
  "neighbour_batch = 10000"

definition updateItemToItem :: "('prog, 'w::{linorder, zero, one, plus, divide}) neighbour_env \<Rightarrow> ('s, 'w) vector_db option \<Rightarrow> vector_config \<Rightarrow> similarity_config list \<Rightarrow>
    nat list \<Rightarrow> dataset \<Rightarrow> 's \<Rightarrow> go_panic + go_error option \<times> dataset \<times> 's" where
  "updateItemToItem E client vectorConfig cfgs order d s =
     (if cfgs = [] then Inr (None, d, s)
      else p_bind (GetItemColumnValuesIDF E d) (\<lambda>tags. p_bind (GetUserIDF E d) (\<lambda>users.
        let opts = \<lparr>no_VectorClient = client, no_VectorConfig = vectorConfig, no_BatchSize = neighbour_batch, no_TagsIDF = Some tags, no_LinkedIDF = Some users\<rparr> in
        case p_map (\<lambda>cfg. NewItemToItem E cfg (dt_timestamp d) (Some opts)) cfgs of
          Inl e \<Rightarrow> Inr (Some e, d, s)
        | Inr rs \<Rightarrow>
            p_bind (add_entities client (\<lambda>i r ids. p_bind (slice_get (dt_items d) i) (\<lambda>item. item_feature E r item ids)) order rs (dt_itemFeedback d) s)
              (\<lambda>(rs', rows, s'). p_bind (clean_all client rs' s') (\<lambda>(e, s''). Inr (e, d\<lparr>dt_itemFeedback := rows\<rparr>, s''))))))"

definition updateUserToUser :: "('prog, 'w::{linorder, zero, one, plus, divide}) neighbour_env \<Rightarrow> ('s, 'w) vector_db option \<Rightarrow> vector_config \<Rightarrow> similarity_config list \<Rightarrow>
    nat list \<Rightarrow> dataset \<Rightarrow> 's \<Rightarrow> go_panic + go_error option \<times> dataset \<times> 's" where
  "updateUserToUser E client vectorConfig cfgs order d s =
     (if cfgs = [] then Inr (None, d, s)
      else p_bind (GetUserColumnValuesIDF E d) (\<lambda>tags. p_bind (GetItemIDF E d) (\<lambda>items.
        let opts = \<lparr>no_VectorClient = client, no_VectorConfig = vectorConfig, no_BatchSize = neighbour_batch, no_TagsIDF = Some tags, no_LinkedIDF = Some items\<rparr> in
        case p_map (\<lambda>cfg. NewUserToUser E cfg (dt_timestamp d) (Some opts)) cfgs of
          Inl e \<Rightarrow> Inr (Some e, d, s)
        | Inr rs \<Rightarrow>
            p_bind (add_entities client (\<lambda>i r ids. p_bind (slice_get (dt_users d) i) (\<lambda>user. user_feature E r user ids)) order rs (dt_userFeedback d) s)
              (\<lambda>(rs', rows, s'). p_bind (clean_all client rs' s') (\<lambda>(e, s''). Inr (e, d\<lparr>dt_userFeedback := rows\<rparr>, s''))))))"

end
