(* ===== verification/Neighbour_Props.thy ===== *)
theory Neighbour_Props
  imports Neighbour_Index
begin

text \<open>
  What \<open>updateItemToItem\<close> and \<open>updateUserToUser\<close> leave in the vector database, when its calls succeed: buffers, batches and the late
  check of the collection cannot be seen; the collections are those that adding the vectors one by one would give, with
  everything older than the update removed.
\<close>

subsection \<open>A reliable vector database\<close>

type_synonym ('s, 'w) coll_view = "'s \<Rightarrow> string \<rightharpoonup> collection_info \<times> (string \<rightharpoonup> 'w vector)"

definition describes :: "('s, 'w) coll_view \<Rightarrow> ('s, 'w) vector_db \<Rightarrow> bool" where
  "describes view db \<longleftrightarrow> (\<forall>s c r s'. vdb_DescribeCollection db s c = (r, s') \<longrightarrow> view s' = view s \<and>
     (case view s c of None \<Rightarrow> r = Inr None \<or> (\<exists>e. r = Inl e \<and> errors_Is e ErrNotFound) | Some (info, M) \<Rightarrow> r = Inr (Some info)))"

definition creates :: "('s, 'w) coll_view \<Rightarrow> ('s, 'w) vector_db \<Rightarrow> bool" where
  "creates view db \<longleftrightarrow> (\<forall>s c n d q r s'. vdb_AddCollection db s c n d q = (r, s') \<longrightarrow> view s c = None \<longrightarrow>
     r = None \<and> view s' = (view s)(c \<mapsto> (\<lparr>ci_Name = c, ci_Dimension = n, ci_Distance = d, ci_Config = q\<rparr>, Map.empty)))"

definition deletes :: "('s, 'w) coll_view \<Rightarrow> ('s, 'w) vector_db \<Rightarrow> bool" where
  "deletes view db \<longleftrightarrow> (\<forall>s c r s'. vdb_DeleteCollection db s c = (r, s') \<longrightarrow> view s c \<noteq> None \<longrightarrow> r = None \<and> view s' = (view s)(c := None))"

definition upserts :: "(string \<rightharpoonup> 'w vector) \<Rightarrow> 'w vector list \<Rightarrow> (string \<rightharpoonup> 'w vector)" where
  "upserts M vs = foldl (\<lambda>m x. m(vec_Id x \<mapsto> x)) M vs"

definition inserts :: "('s, 'w) coll_view \<Rightarrow> ('s, 'w) vector_db \<Rightarrow> bool" where
  "inserts view db \<longleftrightarrow> (\<forall>s c vs info M r s'. vdb_AddVectors db s c vs = (r, s') \<longrightarrow> view s c = Some (info, M) \<longrightarrow>
     r = None \<and> view s' = (view s)(c \<mapsto> (info, upserts M vs)))"

definition fresh :: "time \<Rightarrow> (string \<rightharpoonup> 'w vector) \<Rightarrow> (string \<rightharpoonup> 'w vector)" where
  "fresh t M = (\<lambda>i. case M i of None \<Rightarrow> None | Some x \<Rightarrow> if vec_Timestamp x < t then None else Some x)"

definition expires :: "('s, 'w) coll_view \<Rightarrow> ('s, 'w) vector_db \<Rightarrow> bool" where
  "expires view db \<longleftrightarrow> (\<forall>s c t r s'. vdb_DeleteVectors db s c t = (r, s') \<longrightarrow>
     (case view s c of
        None \<Rightarrow> view s' = view s \<and> (\<exists>e. r = Some e \<and> errors_Is e ErrNotFound)
      | Some (info, M) \<Rightarrow> r = None \<and> view s' = (view s)(c \<mapsto> (info, fresh t M))))"

definition optimizes :: "('s, 'w) coll_view \<Rightarrow> ('s, 'w) vector_db \<Rightarrow> bool" where
  "optimizes view db \<longleftrightarrow> (\<forall>s c r s'. vdb_Optimize db s c = (r, s') \<longrightarrow> r = None \<and> view s' = view s)"

definition reliable :: "('s, 'w) coll_view \<Rightarrow> ('s, 'w) vector_db \<Rightarrow> bool" where
  "reliable view db \<longleftrightarrow> describes view db \<and> creates view db \<and> deletes view db \<and> inserts view db \<and> expires view db \<and> optimizes view db"

lemma reliableD:
  assumes "reliable view db"
  shows "vdb_DescribeCollection db s c = (r, s') \<Longrightarrow> view s' = view s \<and>
     (case view s c of None \<Rightarrow> r = Inr None \<or> (\<exists>e. r = Inl e \<and> errors_Is e ErrNotFound) | Some (info, M) \<Rightarrow> r = Inr (Some info))"
    "vdb_AddCollection db s c n d q = (e, s') \<Longrightarrow> view s c = None \<Longrightarrow>
     e = None \<and> view s' = (view s)(c \<mapsto> (\<lparr>ci_Name = c, ci_Dimension = n, ci_Distance = d, ci_Config = q\<rparr>, Map.empty))"
    "vdb_DeleteCollection db s c = (e, s') \<Longrightarrow> view s c \<noteq> None \<Longrightarrow> e = None \<and> view s' = (view s)(c := None)"
    "vdb_AddVectors db s c vs = (e, s') \<Longrightarrow> view s c = Some (info, M) \<Longrightarrow> e = None \<and> view s' = (view s)(c \<mapsto> (info, upserts M vs))"
    "vdb_DeleteVectors db s c t = (e, s') \<Longrightarrow>
     (case view s c of
        None \<Rightarrow> view s' = view s \<and> (\<exists>x. e = Some x \<and> errors_Is x ErrNotFound)
      | Some (info, M) \<Rightarrow> e = None \<and> view s' = (view s)(c \<mapsto> (info, fresh t M)))"
    "vdb_Optimize db s c = (e, s') \<Longrightarrow> e = None \<and> view s' = view s"
proof -
  have laws: "describes view db" "creates view db" "deletes view db" "inserts view db" "expires view db" "optimizes view db"
    using assms by (simp_all add: reliable_def)
  show "vdb_DescribeCollection db s c = (r, s') \<Longrightarrow> view s' = view s \<and>
     (case view s c of None \<Rightarrow> r = Inr None \<or> (\<exists>e. r = Inl e \<and> errors_Is e ErrNotFound) | Some (info, M) \<Rightarrow> r = Inr (Some info))"
    using laws(1) unfolding describes_def by blast
  show "vdb_AddCollection db s c n d q = (e, s') \<Longrightarrow> view s c = None \<Longrightarrow>
     e = None \<and> view s' = (view s)(c \<mapsto> (\<lparr>ci_Name = c, ci_Dimension = n, ci_Distance = d, ci_Config = q\<rparr>, Map.empty))"
    using laws(2) unfolding creates_def by blast
  show "vdb_DeleteCollection db s c = (e, s') \<Longrightarrow> view s c \<noteq> None \<Longrightarrow> e = None \<and> view s' = (view s)(c := None)"
    using laws(3) unfolding deletes_def by blast
  show "vdb_AddVectors db s c vs = (e, s') \<Longrightarrow> view s c = Some (info, M) \<Longrightarrow> e = None \<and> view s' = (view s)(c \<mapsto> (info, upserts M vs))"
    using laws(4) unfolding inserts_def by blast
  show "vdb_DeleteVectors db s c t = (e, s') \<Longrightarrow>
     (case view s c of
        None \<Rightarrow> view s' = view s \<and> (\<exists>x. e = Some x \<and> errors_Is x ErrNotFound)
      | Some (info, M) \<Rightarrow> e = None \<and> view s' = (view s)(c \<mapsto> (info, fresh t M)))"
    using laws(5) unfolding expires_def by blast
  show "vdb_Optimize db s c = (e, s') \<Longrightarrow> e = None \<and> view s' = view s"
    using laws(6) unfolding optimizes_def by blast
qed

subsection \<open>A writer as vectors that are pushed one by one\<close>

text \<open>
  \<open>push\<close> adds one vector to a collection as if it were flushed alone. What the collection of a writer is going to be after a
  flush is \<open>pending\<close>.
\<close>

definition new_info :: "'w writer \<Rightarrow> collection_info" where
  "new_info w = \<lparr>ci_Name = w_collection w, ci_Dimension = 0, ci_Distance = w_distance w, ci_Config = w_config w\<rparr>"

definition push :: "'w writer \<Rightarrow> (collection_info \<times> (string \<rightharpoonup> 'w vector)) option \<Rightarrow> 'w vector \<Rightarrow> (collection_info \<times> (string \<rightharpoonup> 'w vector)) option" where
  "push w cell x =
     (case cell of
        None \<Rightarrow> Some (new_info w, [vec_Id x \<mapsto> x])
      | Some (info, M) \<Rightarrow> if same_collection w 0 info then Some (info, M(vec_Id x \<mapsto> x)) else Some (new_info w, [vec_Id x \<mapsto> x]))"

definition pushes :: "'w writer \<Rightarrow> (collection_info \<times> (string \<rightharpoonup> 'w vector)) option \<Rightarrow> 'w vector list \<Rightarrow> (collection_info \<times> (string \<rightharpoonup> 'w vector)) option" where
  "pushes w cell vs = foldl (push w) cell vs"

lemma pushes_simps [simp]: "pushes w cell [] = cell" "pushes w cell (x # vs) = pushes w (push w cell x) vs"
  "pushes w cell (vs @ [x]) = push w (pushes w cell vs) x"
  by (simp_all add: pushes_def)

lemma pushes_same: "same_collection w 0 info \<Longrightarrow> pushes w (Some (info, M)) vs = Some (info, upserts M vs)"
  by (induction vs arbitrary: M) (simp_all add: upserts_def push_def)

lemma same_new_info [simp]: "same_collection w 0 (new_info w)"
  by (simp add: same_collection_def new_info_def)

lemma pushes_new: "vs \<noteq> [] \<Longrightarrow> cell = None \<or> (\<exists>info M. cell = Some (info, M) \<and> \<not> same_collection w 0 info) \<Longrightarrow>
  pushes w cell vs = Some (new_info w, upserts Map.empty vs)"
proof (cases vs)
  case (Cons x xs)
  assume "cell = None \<or> (\<exists>info M. cell = Some (info, M) \<and> \<not> same_collection w 0 info)"
  then have "push w cell x = Some (new_info w, [vec_Id x \<mapsto> x])" by (auto simp: push_def)
  then show ?thesis using Cons pushes_same [OF same_new_info, of w "[vec_Id x \<mapsto> x]" xs] by (simp add: upserts_def)
qed simp

text \<open>Two writers with the same target push alike.\<close>

definition target :: "'w writer \<Rightarrow> string \<times> distance \<times> vector_config \<times> time \<times> bool" where
  "target w = (w_collection w, w_distance w, w_config w, w_timestamp w, w_sparse w)"

lemma push_target: "target w = target w' \<Longrightarrow> push w = push w'" "target w = target w' \<Longrightarrow> pushes w = pushes w'"
proof -
  have p: "push w = push w'" if t: "target w = target w'"
  proof -
    have "new_info w = new_info w'" "same_collection w 0 = same_collection w' 0"
      using t by (auto simp: target_def new_info_def same_collection_def [abs_def])
    then show ?thesis by (auto simp: push_def fun_eq_iff split: option.split)
  qed
  show "target w = target w' \<Longrightarrow> push w = push w'" "target w = target w' \<Longrightarrow> pushes w = pushes w'"
    using p by (simp_all add: pushes_def [abs_def])
qed

definition ready :: "('s, 'w) coll_view \<Rightarrow> 'w writer \<Rightarrow> 's \<Rightarrow> bool" where
  "ready view w s \<longleftrightarrow> writer_inv w \<and> w_sparse w \<and> w_dimension w = Some 0 \<and>
     (w_collectionExists w \<longrightarrow> (\<exists>info M. view s (w_collection w) = Some (info, M) \<and> same_collection w 0 info))"

definition pending :: "('s, 'w) coll_view \<Rightarrow> 'w writer \<Rightarrow> 's \<Rightarrow> (collection_info \<times> (string \<rightharpoonup> 'w vector)) option" where
  "pending view w s = pushes w (view s (w_collection w)) (w_buffer w)"

lemma flush_dimension_sparse: "w_sparse w \<Longrightarrow> flush_dimension w = w"
  by (simp add: flush_dimension_def)

lemma create_collection_view:
  assumes "reliable view db" and "w_dimension w = Some 0" and "view s (w_collection w) = None"
  obtains s' where "create_collection db w 0 s = Inr (None, w\<lparr>w_collectionExists := True\<rparr>, s')" "view s' = (view s)(w_collection w \<mapsto> (new_info w, Map.empty))"
proof -
  obtain e s' where a: "vdb_AddCollection db s (w_collection w) 0 (w_distance w) (w_config w) = (e, s')" by fastforce
  have "e = None \<and> view s' = (view s)(w_collection w \<mapsto> (new_info w, Map.empty))"
    using reliableD(2) [OF assms(1) a assms(3)] by (simp add: new_info_def)
  then show ?thesis using that a by (simp add: create_collection_def)
qed

text \<open>After the check the collection is there: as it was if it fits, empty otherwise.\<close>

lemma ensureCollectionLocked_view:
  assumes rel: "reliable view db" and dim: "w_dimension w = Some 0"
    and ex: "w_collectionExists w \<Longrightarrow> \<exists>info M. view s (w_collection w) = Some (info, M) \<and> same_collection w 0 info"
  obtains s' info M where "ensureCollectionLocked (Some db) w s = Inr (None, w\<lparr>w_collectionExists := True\<rparr>, s')"
    "view s' = (view s)(w_collection w \<mapsto> (info, M))" "same_collection w 0 info"
    "\<And>vs. vs \<noteq> [] \<Longrightarrow> pushes w (view s (w_collection w)) vs = Some (info, upserts M vs)"
proof (cases "w_collectionExists w")
  case True
  then obtain info M where v: "view s (w_collection w) = Some (info, M)" "same_collection w 0 info" using ex by blast
  have "w\<lparr>w_collectionExists := True\<rparr> = w" using True by simp
  then show ?thesis
    using True v pushes_same [OF v(2)] by (intro that [of s info M]) (auto simp: ensureCollectionLocked_def fun_upd_idem)
next
  case False
  obtain r s1 where d: "vdb_DescribeCollection db s (w_collection w) = (r, s1)" by fastforce
  note D = reliableD(1) [OF rel d]
  show ?thesis
  proof (cases "\<exists>info M. view s (w_collection w) = Some (info, M) \<and> same_collection w 0 info")
    case True
    then obtain info M where v: "view s (w_collection w) = Some (info, M)" "same_collection w 0 info" by blast
    then show ?thesis using False d D dim pushes_same [OF v(2)]
      by (intro that [of s1 info M]) (auto simp: ensureCollectionLocked_def Let_def fun_upd_idem)
  next
    case other: False
    obtain s2 where s2: "ensureCollectionLocked (Some db) w s = create_collection db w 0 s2" "view s2 = (view s)(w_collection w := None)"
    proof (cases "view s (w_collection w)")
      case None
      then show ?thesis using False d D dim that [of s1] by (auto simp: ensureCollectionLocked_def Let_def fun_upd_idem)
    next
      case (Some cell)
      obtain info M where cell: "cell = (info, M)" by fastforce
      have r: "r = Inr (Some info)" "\<not> same_collection w 0 info" using D Some cell other by auto
      obtain e s2 where x: "vdb_DeleteCollection db s1 (w_collection w) = (e, s2)" by fastforce
      have "e = None \<and> view s2 = (view s)(w_collection w := None)" using reliableD(3) [OF rel x] D Some by simp
      then show ?thesis using False d r x dim that [of s2] by (simp add: ensureCollectionLocked_def Let_def)
    qed
    have gone: "view s2 (w_collection w) = None" using s2(2) by simp
    obtain s' where s': "create_collection db w 0 s2 = Inr (None, w\<lparr>w_collectionExists := True\<rparr>, s')"
        "view s' = (view s2)(w_collection w \<mapsto> (new_info w, Map.empty))"
      by (rule create_collection_view [OF rel dim gone])
    have "pushes w (view s (w_collection w)) vs = Some (new_info w, upserts Map.empty vs)" if "vs \<noteq> []" for vs
      using pushes_new [OF that, of "view s (w_collection w)" w] other by (cases "view s (w_collection w)") auto
    then show ?thesis using s2 s' by (intro that [of s' "new_info w" Map.empty]) simp_all
  qed
qed

lemma flushLocked_view:
  assumes rel: "reliable view db" and ready: "ready view w s"
  obtains w' s' where "flushLocked (Some db) w s = Inr (None, w', s')" "target w' = target w" "w_buffer w' = []" "ready view w' s'"
    "view s' = (view s)(w_collection w := pending view w s)"
proof (cases "w_buffer w = []")
  case True
  then show ?thesis using that [of w s] ready by (simp add: flushLocked_def pending_def)
next
  case False
  have w: "w_sparse w" "w_dimension w = Some 0" "writer_inv w" using ready by (simp_all add: ready_def)
  have ex: "w_collectionExists w \<Longrightarrow> \<exists>info M. view s (w_collection w) = Some (info, M) \<and> same_collection w 0 info"
    using ready by (simp add: ready_def)
  obtain s1 info M where e: "ensureCollectionLocked (Some db) w s = Inr (None, w\<lparr>w_collectionExists := True\<rparr>, s1)"
    "view s1 = (view s)(w_collection w \<mapsto> (info, M))" "same_collection w 0 info"
    "\<And>vs. vs \<noteq> [] \<Longrightarrow> pushes w (view s (w_collection w)) vs = Some (info, upserts M vs)"
    using ensureCollectionLocked_view [OF rel w(2) ex] by metis
  obtain r s2 where a: "vdb_AddVectors db s1 (w_collection w) (w_buffer w) = (r, s2)" by fastforce
  have r: "r = None" "view s2 = (view s1)(w_collection w \<mapsto> (info, upserts M (w_buffer w)))"
    using reliableD(4) [OF rel a, of info M] e(2) by simp_all
  let ?w = "w\<lparr>w_collectionExists := True, w_buffer := []\<rparr>"
  have "flushLocked (Some db) w s = Inr (None, ?w, s2)"
    using False e(1) a r(1) w(1) by (simp add: flushLocked_def flush_dimension_sparse)
  moreover have "ready view ?w s2" using w e(3) r(2) by (simp add: ready_def writer_inv_def same_collection_def)
  moreover have "view s2 = (view s)(w_collection w := pending view w s)"
    using r(2) e(2) e(4) [OF False] by (simp add: pending_def)
  ultimately show ?thesis using that [of ?w s2] by (simp add: target_def)
qed

lemma writer_Add_view:
  assumes rel: "reliable view db" and ready: "ready view w s"
  obtains w' s' where "writer_Add (Some db) w s x = Inr (None, w', s')" "target w' = target w" "ready view w' s'"
    "pending view w' s' = (if writer_rejects w x then pending view w s else push w (pending view w s) x)"
    "\<And>c. c \<noteq> w_collection w \<Longrightarrow> view s' c = view s c"
proof (cases "writer_rejects w x")
  case True
  then show ?thesis using that [of w s] ready by (simp add: writer_Add_def)
next
  case False
  let ?w = "w\<lparr>w_buffer := w_buffer w @ [x]\<rparr>"
  have t: "target ?w = target w" by (simp add: target_def)
  have ready': "ready view ?w s" using ready False by (auto simp: ready_def writer_inv_def same_collection_def)
  have pend: "pending view ?w s = push w (pending view w s) x"
    using push_target [OF t] by (simp add: pending_def)
  show ?thesis
  proof (cases "w_batchSize ?w \<le> int (length (w_buffer ?w))")
    case full: True
    obtain w' s' where f: "flushLocked (Some db) ?w s = Inr (None, w', s')" "target w' = target ?w" "w_buffer w' = []" "ready view w' s'"
      "view s' = (view s)(w_collection ?w := pending view ?w s)"
      by (rule flushLocked_view [OF rel ready'])
    have "w_collection w' = w_collection w" using f(2) by (simp add: target_def)
    then have "pending view w' s' = push w (pending view w s) x" using f(3,5) pend by (simp add: pending_def)
    then show ?thesis using that [of w' s'] f full False t by (simp add: writer_Add_def)
  next
    case room: False
    then have "writer_Add (Some db) w s x = Inr (None, ?w, s)" using False by (simp add: writer_Add_def)
    then show ?thesis using that [of ?w s] t ready' pend False by simp
  qed
qed

lemma writer_Clean_view:
  assumes rel: "reliable view db" and ready: "ready view w s"
  obtains w' s' where "writer_Clean (Some db) w s = Inr (None, w', s')"
    "view s' = (view s)(w_collection w := map_option (\<lambda>(info, M). (info, fresh (w_timestamp w) M)) (pending view w s))"
proof -
  obtain w1 s1 where f: "flushLocked (Some db) w s = Inr (None, w1, s1)" "target w1 = target w" "w_buffer w1 = []" "ready view w1 s1"
    "view s1 = (view s)(w_collection w := pending view w s)"
    by (rule flushLocked_view [OF rel ready])
  have w1: "w_collection w1 = w_collection w" "w_timestamp w1 = w_timestamp w" using f(2) by (simp_all add: target_def)
  obtain e s2 where d: "vdb_DeleteVectors db s1 (w_collection w) (w_timestamp w) = (e, s2)" by fastforce
  note D = reliableD(5) [OF rel d]
  obtain r s3 where o': "vdb_Optimize db s2 (w_collection w) = (r, s3)" by fastforce
  note O = reliableD(6) [OF rel o']
  show ?thesis
  proof (cases "pending view w s")
    case None
    then have "writer_Clean (Some db) w s = Inr (None, w1, s2)" "view s2 = view s1"
      using f w1 d D by (auto simp: writer_Clean_def)
    then show ?thesis using that [of w1 s2] f(5) None by simp
  next
    case (Some cell)
    then have "writer_Clean (Some db) w s = Inr (None, w1, s3)"
      using f w1 d D o' O by (cases cell) (simp add: writer_Clean_def)
    then show ?thesis using that [of w1 s3] f(5) Some D O by (cases cell) simp
  qed
qed

subsection \<open>Several recommenders\<close>

abbreviation coll_of :: "('prog, 'w) neighbours \<Rightarrow> string" where
  "coll_of r \<equiv> w_collection (nb_Writer r)"

definition push_opt :: "'w writer \<Rightarrow> 'w vector option \<Rightarrow> (collection_info \<times> (string \<rightharpoonup> 'w vector)) option \<Rightarrow> (collection_info \<times> (string \<rightharpoonup> 'w vector)) option" where
  "push_opt w v cell = (case v of None \<Rightarrow> cell | Some x \<Rightarrow> if writer_rejects w x then cell else push w cell x)"

lemma push_opt_target: "target w = target w' \<Longrightarrow> push_opt w = push_opt w'"
  using push_target(1) [of w w'] by (auto simp: push_opt_def fun_eq_iff target_def writer_rejects_def split: option.split)

text \<open>A recommender after a step: it is what it was, and its collection is going to be \<open>f\<close> of what it was going to be.\<close>

definition moved :: "('s, 'w) coll_view \<Rightarrow> 's \<Rightarrow> 's \<Rightarrow> (('prog, 'w) neighbours \<Rightarrow> (collection_info \<times> (string \<rightharpoonup> 'w vector)) option \<Rightarrow>
    (collection_info \<times> (string \<rightharpoonup> 'w vector)) option) \<Rightarrow> ('prog, 'w) neighbours \<Rightarrow> ('prog, 'w) neighbours \<Rightarrow> bool" where
  "moved view s s' f r r' \<longleftrightarrow> nb_Feature r' = nb_Feature r \<and> target (nb_Writer r') = target (nb_Writer r) \<and> ready view (nb_Writer r') s' \<and>
     pending view (nb_Writer r') s' = f r (pending view (nb_Writer r) s)"

lemma moved_coll: "moved view s s' f r r' \<Longrightarrow> coll_of r' = coll_of r"
  by (simp add: moved_def target_def)

lemma moved_colls: "list_all2 (moved view s s' f) rs rs' \<Longrightarrow> map coll_of rs' = map coll_of rs"
  by (induction rule: list_all2_induct) (simp_all add: moved_coll)

lemma moved_ready: "list_all2 (moved view s s' f) rs rs' \<Longrightarrow> \<forall>r \<in> set rs'. ready view (nb_Writer r) s'"
  by (induction rule: list_all2_induct) (simp_all add: moved_def)

lemma ready_cong: "view s' (w_collection w) = view s (w_collection w) \<Longrightarrow> ready view w s' = ready view w s \<and> pending view w s' = pending view w s"
  by (simp add: ready_def pending_def)

lemma moved_cong:
  "moved view s s' f r r' \<Longrightarrow> view s0 (coll_of r) = view s (coll_of r) \<Longrightarrow> view s1 (coll_of r) = view s' (coll_of r) \<Longrightarrow> moved view s0 s1 f r r'"
  using moved_coll [of view s s' f r r'] ready_cong [of view s1 "nb_Writer r'" s'] ready_cong [of view s0 "nb_Writer r" s] by (simp add: moved_def)

lemma neighbours_Add_view:
  assumes rel: "reliable view db" and ready: "ready view (nb_Writer r) s"
  obtains r' s' where "neighbours_Add (Some db) r ids (Inr v) s = Inr (None, r', if sorts_feedback (nb_Feature r) then sorted_ids ids else ids, s')"
    "moved view s s' (\<lambda>r. push_opt (nb_Writer r) v) r r'" "\<And>c. c \<noteq> coll_of r \<Longrightarrow> view s' c = view s c"
proof (cases v)
  case None
  then show ?thesis using that [of r s] ready by (simp add: neighbours_Add_def Let_def moved_def push_opt_def)
next
  case (Some x)
  obtain w' s' where a: "writer_Add (Some db) (nb_Writer r) s x = Inr (None, w', s')" "target w' = target (nb_Writer r)" "ready view w' s'"
      "pending view w' s' = (if writer_rejects (nb_Writer r) x then pending view (nb_Writer r) s else push (nb_Writer r) (pending view (nb_Writer r) s) x)"
      "\<And>c. c \<noteq> coll_of r \<Longrightarrow> view s' c = view s c"
    using writer_Add_view [OF rel ready, of x] by metis
  then show ?thesis using that [of "r\<lparr>nb_Writer := w'\<rparr>" s'] Some by (simp add: neighbours_Add_def Let_def moved_def push_opt_def)
qed

text \<open>The vector of an entity depends on the kind of the recommender and its time, and not on whether the row has been sorted.\<close>

definition gives :: "(('prog, 'w) neighbours \<Rightarrow> i32 list \<Rightarrow> go_panic + 'w vector option) \<Rightarrow> i32 list \<Rightarrow> (('prog, 'w) feature \<Rightarrow> time \<Rightarrow> 'w vector option) \<Rightarrow> bool" where
  "gives vector ids V \<longleftrightarrow> (\<forall>r. vector r ids = Inr (V (nb_Feature r) (w_timestamp (nb_Writer r))) \<and>
     vector r (sorted_ids ids) = Inr (V (nb_Feature r) (w_timestamp (nb_Writer r))))"

lemma sorted_ids_idem [simp]: "sorted_ids (sorted_ids ids) = sorted_ids ids"
  by (simp add: sorted_ids_def sorted_sort_id sort_key_id_if_sorted)

definition rows_sorted :: "('prog, 'w) neighbours list \<Rightarrow> i32 list \<Rightarrow> i32 list" where
  "rows_sorted rs ids = (if \<exists>r \<in> set rs. sorts_feedback (nb_Feature r) then sorted_ids ids else ids)"

lemma add_to_each_view:
  assumes rel: "reliable view db"
  shows "gives vector ids V \<Longrightarrow> distinct (map coll_of rs) \<Longrightarrow> \<forall>r \<in> set rs. ready view (nb_Writer r) s \<Longrightarrow>
    \<exists>rs' s'. add_to_each (Some db) vector rs ids s = Inr (rs', rows_sorted rs ids, s') \<and>
      list_all2 (moved view s s' (\<lambda>r. push_opt (nb_Writer r) (V (nb_Feature r) (w_timestamp (nb_Writer r))))) rs rs' \<and>
      (\<forall>c. c \<notin> coll_of ` set rs \<longrightarrow> view s' c = view s c)"
proof (induction rs arbitrary: ids s)
  case Nil
  then show ?case by (simp add: rows_sorted_def)
next
  case (Cons r rs)
  let ?v = "\<lambda>r. V (nb_Feature r) (w_timestamp (nb_Writer r))"
  let ?ids = "if sorts_feedback (nb_Feature r) then sorted_ids ids else ids"
  obtain r' s1 where a: "neighbours_Add (Some db) r ids (Inr (?v r)) s = Inr (None, r', ?ids, s1)"
      "moved view s s1 (\<lambda>r'. push_opt (nb_Writer r') (?v r)) r r'" "\<And>c. c \<noteq> coll_of r \<Longrightarrow> view s1 c = view s c"
    using neighbours_Add_view [OF rel, of r s ids "?v r"] Cons.prems(3) by auto
  have other: "coll_of q \<noteq> coll_of r" if "q \<in> set rs" for q using Cons.prems(2) that by (simp add: image_iff) metis
  have g: "gives vector ?ids V" using Cons.prems(1) by (simp add: gives_def)
  have rd: "\<forall>q \<in> set rs. ready view (nb_Writer q) s1" using Cons.prems(3) a(3) other ready_cong by (metis list.set_intros(2))
  obtain rs' s' where b: "add_to_each (Some db) vector rs ?ids s1 = Inr (rs', rows_sorted rs ?ids, s')"
      "list_all2 (moved view s1 s' (\<lambda>r. push_opt (nb_Writer r) (?v r))) rs rs'" "\<forall>c. c \<notin> coll_of ` set rs \<longrightarrow> view s' c = view s1 c"
    using Cons.IH [OF g _ rd] Cons.prems(2) by auto
  have stay: "view s' (coll_of r) = view s1 (coll_of r)" using b(3) Cons.prems(2) by simp
  have "moved view s s' (\<lambda>r. push_opt (nb_Writer r) (?v r)) r r'"
    using moved_cong [OF a(2) refl stay] by (simp add: moved_def)
  moreover have "list_all2 (moved view s s' (\<lambda>r. push_opt (nb_Writer r) (?v r))) rs rs'"
  proof (rule list.rel_mono_strong [OF b(2)])
    fix q q' assume q: "q \<in> set rs" "q' \<in> set rs'" "moved view s1 s' (\<lambda>r. push_opt (nb_Writer r) (?v r)) q q'"
    have "view s (coll_of q) = view s1 (coll_of q)" using a(3) other [OF q(1)] by simp
    then show "moved view s s' (\<lambda>r. push_opt (nb_Writer r) (?v r)) q q'" by (rule moved_cong [OF q(3) _ refl])
  qed
  moreover have "rows_sorted rs ?ids = rows_sorted (r # rs) ids" by (simp add: rows_sorted_def)
  moreover have "vector r ids = Inr (?v r)" using Cons.prems(1) by (simp add: gives_def)
  ultimately show ?case using a(1,3) b(1,3) by (intro exI [of _ "r' # rs'"] exI [of _ s']) auto
qed

lemma moved_trans:
  assumes f: "\<And>r r'. nb_Feature r' = nb_Feature r \<Longrightarrow> target (nb_Writer r') = target (nb_Writer r) \<Longrightarrow> g r' = g r"
    and a: "list_all2 (moved view s s1 h) rs rs1" and b: "list_all2 (moved view s1 s' g) rs1 rs'"
  shows "list_all2 (moved view s s' (\<lambda>r. g r \<circ> h r)) rs rs'"
proof (rule list_all2_trans [OF _ a b])
  fix r r1 r' assume m: "moved view s s1 h r r1" "moved view s1 s' g r1 r'"
  have "g r1 = g r" using m(1) by (intro f) (simp_all add: moved_def)
  then show "moved view s s' (\<lambda>r. g r \<circ> h r) r r'" using m by (simp add: moved_def)
qed

text \<open>All entities, in any order: each is pushed once to every recommender.\<close>

definition entity_pushes :: "(nat \<Rightarrow> ('prog, 'w) feature \<Rightarrow> time \<Rightarrow> 'w vector option) \<Rightarrow> nat list \<Rightarrow> ('prog, 'w) neighbours \<Rightarrow>
    (collection_info \<times> (string \<rightharpoonup> 'w vector)) option \<Rightarrow> (collection_info \<times> (string \<rightharpoonup> 'w vector)) option" where
  "entity_pushes V order r cell = foldl (\<lambda>c i. push_opt (nb_Writer r) (V i (nb_Feature r) (w_timestamp (nb_Writer r))) c) cell order"

lemma entity_pushes_same:
  "nb_Feature r' = nb_Feature r \<Longrightarrow> target (nb_Writer r') = target (nb_Writer r) \<Longrightarrow> entity_pushes V order r' = entity_pushes V order r"
  using push_opt_target [of "nb_Writer r'" "nb_Writer r"] by (simp add: entity_pushes_def [abs_def] target_def)

lemma rows_sorted_moved: "list_all2 (moved view s s' f) rs rs' \<Longrightarrow> rows_sorted rs' = rows_sorted rs"
proof -
  assume m: "list_all2 (moved view s s' f) rs rs'"
  have "map nb_Feature rs' = map nb_Feature rs" using m by (induction rule: list_all2_induct) (simp_all add: moved_def)
  then have "nb_Feature ` set rs' = nb_Feature ` set rs" by (metis list.set_map)
  then have "(\<exists>r \<in> set rs'. sorts_feedback (nb_Feature r)) = (\<exists>r \<in> set rs. sorts_feedback (nb_Feature r))" by (metis (no_types, lifting) image_iff)
  then show ?thesis by (simp add: rows_sorted_def [abs_def])
qed

lemma add_entities_view:
  assumes rel: "reliable view db"
  shows "distinct order \<Longrightarrow> \<forall>i \<in> set order. i < length rows \<and> gives (vector i) (rows ! i) (V i) \<Longrightarrow> distinct (map coll_of rs) \<Longrightarrow>
    \<forall>r \<in> set rs. ready view (nb_Writer r) s \<Longrightarrow>
    \<exists>rs' rows' s'. add_entities (Some db) vector order rs rows s = Inr (rs', rows', s') \<and> length rows' = length rows \<and>
      (\<forall>i < length rows. rows' ! i = (if i \<in> set order then rows_sorted rs (rows ! i) else rows ! i)) \<and>
      list_all2 (moved view s s' (entity_pushes V order)) rs rs' \<and> (\<forall>c. c \<notin> coll_of ` set rs \<longrightarrow> view s' c = view s c)"
proof (induction order arbitrary: rows rs s)
  case Nil
  have "list_all2 (moved view s s (entity_pushes V [])) rs rs"
    using Nil.prems(4) by (simp add: list.rel_refl_strong moved_def entity_pushes_def)
  then show ?case by simp
next
  case (Cons i order)
  let ?f = "\<lambda>r. push_opt (nb_Writer r) (V i (nb_Feature r) (w_timestamp (nb_Writer r)))"
  obtain rs1 s1 where a: "add_to_each (Some db) (vector i) rs (rows ! i) s = Inr (rs1, rows_sorted rs (rows ! i), s1)"
      "list_all2 (moved view s s1 ?f) rs rs1" "\<forall>c. c \<notin> coll_of ` set rs \<longrightarrow> view s1 c = view s c"
    using add_to_each_view [OF rel, of "vector i" "rows ! i" "V i" rs s] Cons.prems(2-4) by auto
  let ?rows = "rows[i := rows_sorted rs (rows ! i)]"
  have colls: "map coll_of rs1 = map coll_of rs" by (rule moved_colls [OF a(2)])
  have rd: "\<forall>r \<in> set rs1. ready view (nb_Writer r) s1"
    by (rule moved_ready [OF a(2)])
  have same: "\<forall>j \<in> set order. j < length ?rows \<and> gives (vector j) (?rows ! j) (V j)"
    using Cons.prems(1,2) by (auto simp: nth_list_update)
  obtain rs' rows' s' where b: "add_entities (Some db) vector order rs1 ?rows s1 = Inr (rs', rows', s')" "length rows' = length ?rows"
      "\<forall>j < length ?rows. rows' ! j = (if j \<in> set order then rows_sorted rs1 (?rows ! j) else ?rows ! j)"
      "list_all2 (moved view s1 s' (entity_pushes V order)) rs1 rs'" "\<forall>c. c \<notin> coll_of ` set rs1 \<longrightarrow> view s' c = view s1 c"
    using Cons.IH [OF _ same _ rd] Cons.prems(1,3) colls by auto
  have "list_all2 (moved view s s' (\<lambda>r. entity_pushes V order r \<circ> ?f r)) rs rs'"
    by (rule moved_trans [OF entity_pushes_same a(2) b(4)])
  then have m: "list_all2 (moved view s s' (entity_pushes V (i # order))) rs rs'" by (simp add: entity_pushes_def [abs_def] o_def)
  have set1: "coll_of ` set rs1 = coll_of ` set rs" using colls by (metis list.set_map)
  have "\<forall>j < length rows. rows' ! j = (if j \<in> set (i # order) then rows_sorted rs (rows ! j) else rows ! j)"
  proof (intro allI impI)
    fix j assume "j < length rows"
    then show "rows' ! j = (if j \<in> set (i # order) then rows_sorted rs (rows ! j) else rows ! j)"
      by (cases "j = i") (use b(3) Cons.prems(1) rows_sorted_moved [OF a(2)] in simp_all)
  qed
  moreover have "add_entities (Some db) vector (i # order) rs rows s = Inr (rs', rows', s')" using a(1) b(1) Cons.prems(2) by simp
  ultimately show ?case using b(2,5) m a(3) set1 by (intro exI [of _ rs'] exI [of _ rows'] exI [of _ s']) auto
qed

lemma clean_all_view:
  assumes rel: "reliable view db"
  shows "distinct (map coll_of rs) \<Longrightarrow> \<forall>r \<in> set rs. ready view (nb_Writer r) s \<Longrightarrow>
    \<exists>s'. clean_all (Some db) rs s = Inr (None, s') \<and> (\<forall>c. c \<notin> coll_of ` set rs \<longrightarrow> view s' c = view s c) \<and>
      (\<forall>r \<in> set rs. view s' (coll_of r) = map_option (\<lambda>(info, M). (info, fresh (w_timestamp (nb_Writer r)) M)) (pending view (nb_Writer r) s))"
proof (induction rs arbitrary: s)
  case (Cons r rs)
  let ?fresh = "\<lambda>r. map_option (\<lambda>(info, M). (info, fresh (w_timestamp (nb_Writer r)) M))"
  obtain w1 s1 where a: "writer_Clean (Some db) (nb_Writer r) s = Inr (None, w1, s1)"
      "view s1 = (view s)(coll_of r := ?fresh r (pending view (nb_Writer r) s))"
    using writer_Clean_view [OF rel, of "nb_Writer r" s] Cons.prems(2) by auto
  have other: "view s1 (coll_of q) = view s (coll_of q)" if "q \<in> set rs" for q
  proof -
    have "coll_of q \<noteq> coll_of r" using Cons.prems(1) that by (simp add: image_iff) metis
    then show ?thesis using a(2) by simp
  qed
  have rd: "\<forall>q \<in> set rs. ready view (nb_Writer q) s1" using Cons.prems(2) other ready_cong by (metis list.set_intros(2))
  obtain s' where b: "clean_all (Some db) rs s1 = Inr (None, s')" "\<forall>c. c \<notin> coll_of ` set rs \<longrightarrow> view s' c = view s1 c"
      "\<forall>q \<in> set rs. view s' (coll_of q) = ?fresh q (pending view (nb_Writer q) s1)"
    using Cons.IH [OF _ rd] Cons.prems(1) by auto
  have "pending view (nb_Writer q) s1 = pending view (nb_Writer q) s" if "q \<in> set rs" for q
    using ready_cong [of view s1 "nb_Writer q" s] other [OF that] by blast
  then show ?case using a b Cons.prems(1) by (intro exI [of _ s']) auto
qed simp

subsection \<open>The tasks\<close>

lemma appendSparseVector_total:
  assumes "length (vec_Values v) = length (vec_Indices v)"
  obtains x where "appendSparseVector sq v ids idf offset = Inr x" "length (vec_Values x) = length (vec_Indices x)"
  using assms that by (auto simp: appendSparseVector_def pruner_Result_def Let_def)

lemma newSparseVector_total:
  obtains x where "newSparseVector sq ids idf offset = Inr x" "length (vec_Values x) = length (vec_Indices x)"
  by (rule appendSparseVector_total [of zero_vector sq ids idf offset]) (auto simp: newSparseVector_def zero_vector_def)

text \<open>The vectors of items and of users without what says whose they are.\<close>

definition feature_vector :: "('prog, 'w::{linorder, zero}) neighbour_env \<Rightarrow> ('prog, 'w) feature \<Rightarrow> ('prog \<Rightarrow> go_error + label) \<Rightarrow> label \<Rightarrow> i32 list \<Rightarrow>
    go_panic + 'w vector option" where
  "feature_vector E feature result labels feedback =
     (case feature of
        Embedding p \<Rightarrow> Inr (case result p of
            Inl e \<Rightarrow> None
          | Inr v \<Rightarrow> (case ne_FromAny E v of None \<Rightarrow> None | Some xs \<Rightarrow> if xs = [] then None else Some (zero_vector\<lparr>vec_HValues := xs\<rparr>)))
      | Tags p idf \<Rightarrow> (case result p of
            Inl e \<Rightarrow> Inr None
          | Inr v \<Rightarrow> p_bind (newSparseVector (ne_sqrt32 E) (tag_ids v) idf 0) (\<lambda>x. Inr (Some x)))
      | Linked idf \<Rightarrow> p_bind (newSparseVector (ne_sqrt32 E) (sorted_ids feedback) idf 0) (\<lambda>x. Inr (Some x))
      | Auto tags linked \<Rightarrow> p_bind (newSparseVector (ne_sqrt32 E) (tag_ids labels) tags 0) (\<lambda>x.
            p_bind (appendSparseVector (ne_sqrt32 E) x (sorted_ids feedback) linked (of_nat (length tags))) (\<lambda>x. Inr (Some x))))"

lemma item_feature_vector:
  "item_feature E r item feedback =
     p_bind (feature_vector E (nb_Feature r) (\<lambda>p. ne_RunItem E p item) (di_Labels item) feedback) (\<lambda>v. Inr (map_option (of_item (nb_Writer r) item) v))"
  by (simp add: item_feature_def feature_vector_def embedding_item_def ExtractItemEmbedding_def tags_item_def users_item_def auto_item_def p_bind_assoc
      split: feature.split sum.split option.split)

lemma user_feature_vector:
  "user_feature E r user feedback =
     p_bind (feature_vector E (nb_Feature r) (\<lambda>p. ne_RunUser E p user) (du_Labels user) feedback) (\<lambda>v. Inr (map_option (of_user (nb_Writer r) user) v))"
  by (simp add: user_feature_def feature_vector_def embedding_user_def tags_user_def items_user_def auto_user_def p_bind_assoc
      split: feature.split sum.split option.split)

lemma feature_vector_total: "\<exists>v. feature_vector E feature result labels feedback = Inr v"
proof (cases feature)
  case (Embedding p)
  then show ?thesis by (simp add: feature_vector_def)
next
  case (Tags p idf)
  show ?thesis
  proof (cases "result p")
    case (Inr v)
    obtain x where "newSparseVector (ne_sqrt32 E) (tag_ids v) idf 0 = Inr x" by (rule newSparseVector_total)
    then show ?thesis using Inr Tags by (simp add: feature_vector_def)
  qed (simp add: feature_vector_def Tags)
next
  case (Linked idf)
  obtain x where "newSparseVector (ne_sqrt32 E) (sorted_ids feedback) idf 0 = Inr x" by (rule newSparseVector_total)
  then show ?thesis using Linked by (simp add: feature_vector_def)
next
  case (Auto tags linked)
  obtain x where x: "newSparseVector (ne_sqrt32 E) (tag_ids labels) tags 0 = Inr x" "length (vec_Values x) = length (vec_Indices x)"
    by (rule newSparseVector_total)
  obtain y where "appendSparseVector (ne_sqrt32 E) x (sorted_ids feedback) linked (of_nat (length tags)) = Inr y"
    by (rule appendSparseVector_total [OF x(2)])
  then show ?thesis using x(1) Auto by (simp add: feature_vector_def)
qed

lemma feature_vector_sorted: "feature_vector E feature result labels (sorted_ids feedback) = feature_vector E feature result labels feedback"
  by (simp add: feature_vector_def split: feature.split)

text \<open>The vector of the item or the user with a number, for a kind of recommender at a time.\<close>

definition vector_of_item :: "('prog, 'w::{linorder, zero}) neighbour_env \<Rightarrow> dataset \<Rightarrow> nat \<Rightarrow> ('prog, 'w) feature \<Rightarrow> time \<Rightarrow> 'w vector option" where
  "vector_of_item E d i feature t =
     (let item = dt_items d ! i in
      case feature_vector E feature (\<lambda>p. ne_RunItem E p item) (di_Labels item) (dt_itemFeedback d ! i) of
        Inl p \<Rightarrow> None
      | Inr v \<Rightarrow> map_option (\<lambda>x. x\<lparr>vec_Id := di_ItemId item, vec_IsHidden := di_IsHidden item, vec_Categories := di_Categories item, vec_Timestamp := t\<rparr>) v)"

definition vector_of_user :: "('prog, 'w::{linorder, zero}) neighbour_env \<Rightarrow> dataset \<Rightarrow> nat \<Rightarrow> ('prog, 'w) feature \<Rightarrow> time \<Rightarrow> 'w vector option" where
  "vector_of_user E d i feature t =
     (let user = dt_users d ! i in
      case feature_vector E feature (\<lambda>p. ne_RunUser E p user) (du_Labels user) (dt_userFeedback d ! i) of
        Inl p \<Rightarrow> None
      | Inr v \<Rightarrow> map_option (\<lambda>x. x\<lparr>vec_Id := du_UserId user, vec_Timestamp := t\<rparr>) v)"

lemma gives_item:
  assumes "i < length (dt_items d)"
  shows "gives (\<lambda>r ids. p_bind (slice_get (dt_items d) i) (\<lambda>item. item_feature E r item ids)) (dt_itemFeedback d ! i) (vector_of_item E d i)"
proof -
  have "item_feature E r (dt_items d ! i) (dt_itemFeedback d ! i) = Inr (vector_of_item E d i (nb_Feature r) (w_timestamp (nb_Writer r)))" for r
    using feature_vector_total [of E "nb_Feature r" "\<lambda>p. ne_RunItem E p (dt_items d ! i)" "di_Labels (dt_items d ! i)" "dt_itemFeedback d ! i"]
    by (auto simp: item_feature_vector of_item_def [abs_def] vector_of_item_def Let_def)
  then show ?thesis using assms by (simp add: gives_def item_feature_vector feature_vector_sorted)
qed

lemma gives_user:
  assumes "i < length (dt_users d)"
  shows "gives (\<lambda>r ids. p_bind (slice_get (dt_users d) i) (\<lambda>user. user_feature E r user ids)) (dt_userFeedback d ! i) (vector_of_user E d i)"
proof -
  have "user_feature E r (dt_users d ! i) (dt_userFeedback d ! i) = Inr (vector_of_user E d i (nb_Feature r) (w_timestamp (nb_Writer r)))" for r
    using feature_vector_total [of E "nb_Feature r" "\<lambda>p. ne_RunUser E p (dt_users d ! i)" "du_Labels (dt_users d ! i)" "dt_userFeedback d ! i"]
    by (auto simp: user_feature_vector of_user_def [abs_def] vector_of_user_def Let_def)
  then show ?thesis using assms by (simp add: gives_def user_feature_vector feature_vector_sorted)
qed

text \<open>A recommender that is new: nothing is buffered, and the collection has not been looked at.\<close>

definition unused :: "('prog, 'w) neighbours \<Rightarrow> bool" where
  "unused r \<longleftrightarrow> writer_inv (nb_Writer r) \<and> w_sparse (nb_Writer r) \<and> w_dimension (nb_Writer r) = Some 0 \<and>
     \<not> w_collectionExists (nb_Writer r) \<and> w_buffer (nb_Writer r) = []"

lemma unused_ready: "unused r \<Longrightarrow> ready view (nb_Writer r) s \<and> pending view (nb_Writer r) s = view s (coll_of r)"
  by (simp add: unused_def ready_def pending_def)

definition sparse_type :: "similarity_config \<Rightarrow> bool" where
  "sparse_type cfg \<longleftrightarrow> sim_Type cfg \<in> {''tags'', ''users'', ''items'', ''auto''}"

lemma new_writer_unused:
  "unused \<lparr>nb_Writer = newItemToItemVectorWriter cfg t opts True, nb_Feature = f\<rparr>"
  "unused \<lparr>nb_Writer = newUserToUserVectorWriter cfg t opts True, nb_Feature = f\<rparr>"
  by (simp_all add: unused_def newItemToItemVectorWriter_def newUserToUserVectorWriter_def newSimilarityVectorWriter_def writer_inv_def
      defaultSimilarityVectorBatchSize_def)

lemma NewItemToItem_writer:
  "NewItemToItem E cfg t opts = Inr r \<Longrightarrow> sparse_type cfg \<Longrightarrow> \<exists>f. r = \<lparr>nb_Writer = newItemToItemVectorWriter cfg t (the opts) True, nb_Feature = f\<rparr>"
  by (auto simp: NewItemToItem_def newTagsItemToItem_def newUsersItemToItem_def newAutoItemToItem_def sparse_type_def p_bind_Inr split: option.splits if_splits)

lemma NewUserToUser_writer:
  "NewUserToUser E cfg t opts = Inr r \<Longrightarrow> sparse_type cfg \<Longrightarrow> \<exists>f. r = \<lparr>nb_Writer = newUserToUserVectorWriter cfg t (the opts) True, nb_Feature = f\<rparr>"
  by (auto simp: NewUserToUser_def newTagsUserToUser_def newItemsUserToUser_def newAutoUserToUser_def sparse_type_def p_bind_Inr split: option.splits if_splits)

lemma NewItemToItem_unused:
  assumes "NewItemToItem E cfg t opts = Inr r" and "sparse_type cfg"
  shows "unused r \<and> coll_of r = ItemToItemCollection (sim_Name cfg) \<and> w_timestamp (nb_Writer r) = t"
proof -
  obtain f where "r = \<lparr>nb_Writer = newItemToItemVectorWriter cfg t (the opts) True, nb_Feature = f\<rparr>" using NewItemToItem_writer [OF assms] by blast
  then show ?thesis using new_writer_unused(1) [of cfg t "the opts" f] by (simp add: newItemToItemVectorWriter_def newSimilarityVectorWriter_def)
qed

lemma NewUserToUser_unused:
  assumes "NewUserToUser E cfg t opts = Inr r" and "sparse_type cfg"
  shows "unused r \<and> coll_of r = UserToUserCollection (sim_Name cfg) \<and> w_timestamp (nb_Writer r) = t"
proof -
  obtain f where "r = \<lparr>nb_Writer = newUserToUserVectorWriter cfg t (the opts) True, nb_Feature = f\<rparr>" using NewUserToUser_writer [OF assms] by blast
  then show ?thesis using new_writer_unused(2) [of cfg t "the opts" f] by (simp add: newUserToUserVectorWriter_def newSimilarityVectorWriter_def)
qed

lemma p_map_Inr: "p_map f xs = Inr ys \<longleftrightarrow> list_all2 (\<lambda>x y. f x = Inr y) xs ys"
  by (induction xs arbitrary: ys) (auto simp: p_bind_Inr list_all2_Cons1)

lemma all_unused:
  assumes "p_map new cfgs = Inr rs" and "\<forall>cfg \<in> set cfgs. sparse_type cfg"
    and "\<And>cfg r. new cfg = Inr r \<Longrightarrow> sparse_type cfg \<Longrightarrow> unused r \<and> coll_of r = name (sim_Name cfg) \<and> w_timestamp (nb_Writer r) = t"
  shows "\<forall>r \<in> set rs. unused r \<and> w_timestamp (nb_Writer r) = t" "map coll_of rs = map (\<lambda>cfg. name (sim_Name cfg)) cfgs"
proof -
  have "list_all2 (\<lambda>cfg r. new cfg = Inr r) cfgs rs" using assms(1) by (simp add: p_map_Inr)
  then have "(\<forall>r \<in> set rs. unused r \<and> w_timestamp (nb_Writer r) = t) \<and> map coll_of rs = map (\<lambda>cfg. name (sim_Name cfg)) cfgs"
    using assms(2) by (induction rule: list_all2_induct) (use assms(3) in auto)
  then show "\<forall>r \<in> set rs. unused r \<and> w_timestamp (nb_Writer r) = t" "map coll_of rs = map (\<lambda>cfg. name (sim_Name cfg)) cfgs" by blast+
qed

text \<open>
  What an update leaves of a collection: the new vectors, and what is not older of the vectors that were there. The contents of a
  collection of another distance or another quantization are lost; a collection is only made when there is something to put in.
\<close>

definition kept :: "(nat \<Rightarrow> ('prog, 'w) feature \<Rightarrow> time \<Rightarrow> 'w vector option) \<Rightarrow> ('prog, 'w) neighbours \<Rightarrow> nat list \<Rightarrow> 'w vector list" where
  "kept V r is = List.map_filter (\<lambda>i. case V i (nb_Feature r) (w_timestamp (nb_Writer r)) of
     None \<Rightarrow> None | Some x \<Rightarrow> if writer_rejects (nb_Writer r) x then None else Some x) is"

definition by_id :: "'w vector list \<Rightarrow> (string \<rightharpoonup> 'w vector)" where
  "by_id vs = map_of (map (\<lambda>x. (vec_Id x, x)) vs)"

definition index_after :: "'w writer \<Rightarrow> 'w vector list \<Rightarrow> (collection_info \<times> (string \<rightharpoonup> 'w vector)) option \<Rightarrow> (collection_info \<times> (string \<rightharpoonup> 'w vector)) option" where
  "index_after w vs cell =
     (if vs = [] then map_option (\<lambda>(info, M). (info, fresh (w_timestamp w) M)) cell
      else case cell of
        None \<Rightarrow> Some (new_info w, by_id vs)
      | Some (info, M) \<Rightarrow> if same_collection w 0 info then Some (info, fresh (w_timestamp w) M ++ by_id vs) else Some (new_info w, by_id vs))"

lemma entity_pushes_kept: "entity_pushes V is r cell = pushes (nb_Writer r) cell (kept V r is)"
  by (induction "is" arbitrary: cell) (simp_all add: entity_pushes_def kept_def push_opt_def List.map_filter_simps split: option.split)

lemma by_id_append: "by_id (xs @ ys) = by_id ys ++ by_id xs"
  by (simp add: by_id_def)

lemma upserts_by_id: "upserts M vs = M ++ by_id (rev vs)"
  by (induction vs arbitrary: M) (simp_all add: upserts_def by_id_def map_add_assoc flip: fun_upd_def)

lemma by_id_dom: "by_id vs i = Some x \<Longrightarrow> x \<in> set vs"
  by (auto simp: by_id_def dest!: map_of_SomeD)

lemma fresh_add: "\<forall>x \<in> set vs. vec_Timestamp x = t \<Longrightarrow> fresh t (M ++ by_id vs) = fresh t M ++ by_id vs"
  by (rule ext) (auto simp: fresh_def map_add_def dest: by_id_dom split: option.split)

lemma by_id_perm: "distinct (map vec_Id xs) \<Longrightarrow> distinct (map vec_Id ys) \<Longrightarrow> set xs = set ys \<Longrightarrow> by_id xs = by_id ys"
  by (simp add: by_id_def map_of_inject_set comp_def)

lemma index_after_pushes:
  assumes t: "\<forall>x \<in> set vs. vec_Timestamp x = w_timestamp w" and d: "distinct (map vec_Id vs)"
  shows "map_option (\<lambda>(info, M). (info, fresh (w_timestamp w) M)) (pushes w cell vs) = index_after w vs cell"
proof (cases "vs = []")
  case False
  have ups: "fresh (w_timestamp w) (upserts M vs) = fresh (w_timestamp w) M ++ by_id vs" for M
  proof -
    have "by_id (rev vs) = by_id vs" using d by (intro by_id_perm) (simp_all flip: rev_map)
    then show ?thesis using fresh_add [OF t] by (simp add: upserts_by_id)
  qed
  have none: "fresh (w_timestamp w) Map.empty ++ by_id vs = by_id vs" by (simp add: fresh_def)
  show ?thesis
  proof (cases "cell = None \<or> (\<exists>info M. cell = Some (info, M) \<and> \<not> same_collection w 0 info)")
    case True
    then show ?thesis using pushes_new [OF False True] False ups none by (auto simp: index_after_def)
  next
    case other: False
    then obtain info M where "cell = Some (info, M)" "same_collection w 0 info" by (cases cell) auto
    then show ?thesis using pushes_same [of w info M vs] False ups by (simp add: index_after_def)
  qed
qed (simp add: index_after_def)

lemma index_after_perm:
  assumes "set xs = set ys" and "distinct (map vec_Id xs)" and "distinct (map vec_Id ys)"
  shows "index_after w xs = index_after w ys"
proof -
  have "xs = [] \<longleftrightarrow> ys = []" using assms(1) by (metis set_empty)
  then show ?thesis unfolding index_after_def [abs_def] by_id_perm [OF assms(2,3,1)] by simp
qed

lemma set_kept: "set (kept V r is) = {x. \<exists>i \<in> set is. V i (nb_Feature r) (w_timestamp (nb_Writer r)) = Some x \<and> \<not> writer_rejects (nb_Writer r) x}"
  by (induction "is") (auto simp: kept_def List.map_filter_simps split: option.splits)

text \<open>A vector belongs to one entity and has the time of the update.\<close>

definition identifies :: "nat list \<Rightarrow> (nat \<Rightarrow> ('prog, 'w) feature \<Rightarrow> time \<Rightarrow> 'w vector option) \<Rightarrow> bool" where
  "identifies is V \<longleftrightarrow> (\<forall>f t. \<forall>i \<in> set is. \<forall>j \<in> set is. \<forall>x y. V i f t = Some x \<longrightarrow> V j f t = Some y \<longrightarrow>
     vec_Timestamp x = t \<and> (vec_Id x = vec_Id y \<longrightarrow> i = j))"

lemma identifies_Cons: "identifies (i # is) V \<Longrightarrow> identifies is V"
  unfolding identifies_def by (meson list.set_intros(2))

lemma distinct_kept: "distinct is \<Longrightarrow> identifies is V \<Longrightarrow> distinct (map vec_Id (kept V r is))"
proof (induction "is")
  case (Cons i "is")
  have rest: "distinct (map vec_Id (kept V r is))" using Cons.IH Cons.prems identifies_Cons by (metis distinct.simps(2))
  show ?case
  proof (cases "\<exists>x. V i (nb_Feature r) (w_timestamp (nb_Writer r)) = Some x \<and> \<not> writer_rejects (nb_Writer r) x")
    case True
    then obtain x where x: "V i (nb_Feature r) (w_timestamp (nb_Writer r)) = Some x" "\<not> writer_rejects (nb_Writer r) x" by blast
    have "vec_Id y \<noteq> vec_Id x" if y: "y \<in> set (kept V r is)" for y
    proof -
      obtain j where j: "j \<in> set is" "V j (nb_Feature r) (w_timestamp (nb_Writer r)) = Some y" using y unfolding set_kept by blast
      then have "vec_Id x = vec_Id y \<longrightarrow> i = j" using Cons.prems(2) x(1) unfolding identifies_def by (meson list.set_intros)
      then show ?thesis using j(1) Cons.prems(1) by auto
    qed
    then have "vec_Id x \<notin> vec_Id ` set (kept V r is)" by (metis imageE)
    moreover have "kept V r (i # is) = x # kept V r is" using x by (simp add: kept_def List.map_filter_simps)
    ultimately show ?thesis using rest by simp
  next
    case False
    then show ?thesis using rest by (auto simp: kept_def List.map_filter_simps split: option.split)
  qed
qed (simp add: kept_def List.map_filter_simps)

lemma kept_time: "identifies is V \<Longrightarrow> \<forall>x \<in> set (kept V r is). vec_Timestamp x = w_timestamp (nb_Writer r)"
  unfolding set_kept identifies_def by blast

subsection \<open>The collections after an update\<close>

lemma vector_of_item_identifies:
  assumes "distinct (map di_ItemId (dt_items d))" and "\<forall>i \<in> set is. i < length (dt_items d)"
  shows "identifies is (vector_of_item E d)"
proof -
  have v: "vec_Id x = di_ItemId (dt_items d ! i) \<and> vec_Timestamp x = t" if "vector_of_item E d i f t = Some x" for i f t x
    using that by (auto simp: vector_of_item_def Let_def split: sum.splits)
  have "i = j" if "i \<in> set is" "j \<in> set is" "di_ItemId (dt_items d ! i) = di_ItemId (dt_items d ! j)" for i j
    using assms that nth_eq_iff_index_eq [OF assms(1), of i j] by simp
  then show ?thesis unfolding identifies_def by (metis v)
qed

lemma vector_of_user_identifies:
  assumes "distinct (map du_UserId (dt_users d))" and "\<forall>i \<in> set is. i < length (dt_users d)"
  shows "identifies is (vector_of_user E d)"
proof -
  have v: "vec_Id x = du_UserId (dt_users d ! i) \<and> vec_Timestamp x = t" if "vector_of_user E d i f t = Some x" for i f t x
    using that by (auto simp: vector_of_user_def Let_def split: sum.splits)
  have "i = j" if "i \<in> set is" "j \<in> set is" "du_UserId (dt_users d ! i) = du_UserId (dt_users d ! j)" for i j
    using assms that nth_eq_iff_index_eq [OF assms(1), of i j] by simp
  then show ?thesis unfolding identifies_def by (metis v)
qed

text \<open>Both updates at once: new recommenders, all entities in some order, and the end of the update.\<close>

lemma index_all:
  assumes rel: "reliable view db" and unused: "\<forall>r \<in> set rs. unused r" and colls: "distinct (map coll_of rs)"
    and order: "distinct order" "set order = set is" "distinct is" and rows: "\<forall>i \<in> set order. i < length rows \<and> gives (vector i) (rows ! i) (V i)"
    and V: "identifies is V"
  obtains rs' rows' s1 s' where "add_entities (Some db) vector order rs rows s = Inr (rs', rows', s1)" "clean_all (Some db) rs' s1 = Inr (None, s')"
    "\<forall>r \<in> set rs. view s' (coll_of r) = index_after (nb_Writer r) (kept V r is) (view s (coll_of r))"
    "\<forall>c. c \<notin> coll_of ` set rs \<longrightarrow> view s' c = view s c"
    "\<forall>i < length rows. rows' ! i = (if i \<in> set order then rows_sorted rs (rows ! i) else rows ! i)"
proof -
  have rd: "\<forall>r \<in> set rs. ready view (nb_Writer r) s" 
  proof
    fix r assume "r \<in> set rs"
    then have "unused r" using unused by (rule bspec [rotated])
    then have "ready view (nb_Writer r) s \<and> pending view (nb_Writer r) s = view s (coll_of r)" by (rule unused_ready)
    then show "ready view (nb_Writer r) s" by (rule conjunct1)
  qed
  have added: "\<exists>rs' rows' s'. add_entities (Some db) vector order rs rows s = Inr (rs', rows', s') \<and> length rows' = length rows \<and>
      (\<forall>i < length rows. rows' ! i = (if i \<in> set order then rows_sorted rs (rows ! i) else rows ! i)) \<and>
      list_all2 (moved view s s' (entity_pushes V order)) rs rs' \<and> (\<forall>c. c \<notin> coll_of ` set rs \<longrightarrow> view s' c = view s c)"
    by (rule add_entities_view [OF rel order(1) rows colls rd])
  obtain rs' rows' s1 where a: "add_entities (Some db) vector order rs rows s = Inr (rs', rows', s1)"
      "\<forall>i < length rows. rows' ! i = (if i \<in> set order then rows_sorted rs (rows ! i) else rows ! i)"
      "list_all2 (moved view s s1 (entity_pushes V order)) rs rs'" "\<forall>c. c \<notin> coll_of ` set rs \<longrightarrow> view s1 c = view s c"
    using added by metis
  have colls': "map coll_of rs' = map coll_of rs" by (rule moved_colls [OF a(3)])
  have set': "coll_of ` set rs' = coll_of ` set rs" using colls' by (metis list.set_map)
  have "distinct (map coll_of rs')" using colls colls' by simp
  then obtain s' where b: "clean_all (Some db) rs' s1 = Inr (None, s')" "\<forall>c. c \<notin> coll_of ` set rs' \<longrightarrow> view s' c = view s1 c"
      "\<forall>r \<in> set rs'. view s' (coll_of r) = map_option (\<lambda>(info, M). (info, fresh (w_timestamp (nb_Writer r)) M)) (pending view (nb_Writer r) s1)"
    using clean_all_view [OF rel _ moved_ready [OF a(3)]] by metis
  have "view s' (coll_of r) = index_after (nb_Writer r) (kept V r is) (view s (coll_of r))" if r: "r \<in> set rs" for r
  proof -
    obtain r' where r': "r' \<in> set rs'" "moved view s s1 (entity_pushes V order) r r'"
      using a(3) r by (metis in_set_conv_nth list_all2_conv_all_nth)
    have same: "coll_of r' = coll_of r" "w_timestamp (nb_Writer r') = w_timestamp (nb_Writer r)" using r'(2) by (simp_all add: moved_def target_def)
    have V': "identifies order V" using V unfolding identifies_def order(2) .
    have "pending view (nb_Writer r') s1 = pushes (nb_Writer r) (view s (coll_of r)) (kept V r order)"
      using r'(2) unused_ready [of r view s] unused r by (simp add: moved_def entity_pushes_kept)
    then have "view s' (coll_of r) = index_after (nb_Writer r) (kept V r order) (view s (coll_of r))"
      using b(3) r'(1) same index_after_pushes [OF kept_time [OF V'] distinct_kept [OF order(1) V']] by metis
    moreover have "set (kept V r order) = set (kept V r is)" using order(2) by (simp add: set_kept)
    ultimately show ?thesis
      using index_after_perm [OF _ distinct_kept [OF order(1) V'] distinct_kept [OF order(3) V]] by metis
  qed
  then show ?thesis using that [OF a(1) b(1)] a(2,4) b(2) set' by simp
qed

lemma collections_distinct:
  "distinct (map sim_Name cfgs) \<Longrightarrow> distinct (map (\<lambda>cfg. ItemToItemCollection (sim_Name cfg)) cfgs)"
  "distinct (map sim_Name cfgs) \<Longrightarrow> distinct (map (\<lambda>cfg. UserToUserCollection (sim_Name cfg)) cfgs)"
  by (auto simp: distinct_map inj_on_def ItemToItemCollection_def UserToUserCollection_def)

text \<open>
  (C11) A successful \<open>updateItemToItem\<close> over a reliable vector database, for recommenders of sparse vectors (the types tags, users
  and auto). Afterwards the collection of each recommender holds the vector of every item of the data set that has one, and what was there
  before that is not older than the data set; no other collection is touched. The order in which the parallel jobs add the items, the batches in which
  vectors are sent, and the moment at which a collection is checked or created make no difference. The rows of feedback are left sorted if one
  of the recommenders reads them. Recommenders of embeddings are not covered: a flush drops the vectors of another dimension than the
  collection's, and when the dimensions differ the order may decide which one is kept (\<open>order_decides_dimension\<close>).
\<close>

theorem updateItemToItem_indexes:
  assumes rel: "reliable view db" and cfgs: "cfgs \<noteq> []" "\<forall>cfg \<in> set cfgs. sparse_type cfg" "distinct (map sim_Name cfgs)"
    and idf: "GetItemColumnValuesIDF E d = Inr tags" "GetUserIDF E d = Inr users"
    and rs: "p_map (\<lambda>cfg. NewItemToItem E cfg (dt_timestamp d) (Some \<lparr>no_VectorClient = Some db, no_VectorConfig = vc, no_BatchSize = neighbour_batch,
        no_TagsIDF = Some tags, no_LinkedIDF = Some users\<rparr>)) cfgs = Inr rs"
    and ids: "distinct (map di_ItemId (dt_items d))" and rows: "length (dt_itemFeedback d) = length (dt_items d)"
    and order: "distinct order" "set order = {..<length (dt_items d)}"
  shows "\<exists>d' s'. updateItemToItem E (Some db) vc cfgs order d s = Inr (None, d', s') \<and>
    (\<forall>r \<in> set rs. view s' (coll_of r) = index_after (nb_Writer r) (kept (vector_of_item E d) r [0..<length (dt_items d)]) (view s (coll_of r))) \<and>
    (\<forall>c. c \<notin> (\<lambda>cfg. ItemToItemCollection (sim_Name cfg)) ` set cfgs \<longrightarrow> view s' c = view s c) \<and>
    (\<forall>i < length (dt_items d). dt_itemFeedback d' ! i = rows_sorted rs (dt_itemFeedback d ! i))"
proof -
  have made: "\<forall>r \<in> set rs. unused r \<and> w_timestamp (nb_Writer r) = dt_timestamp d"
    by (rule all_unused(1) [where name = ItemToItemCollection, OF rs cfgs(2)]) (rule NewItemToItem_unused)
  have names: "map coll_of rs = map (\<lambda>cfg. ItemToItemCollection (sim_Name cfg)) cfgs"
    by (rule all_unused(2) [where t = "dt_timestamp d", OF rs cfgs(2)]) (rule NewItemToItem_unused)
  have new: "\<forall>r \<in> set rs. unused r" using made by blast
  have colls: "distinct (map coll_of rs)" unfolding names by (rule collections_distinct(1) [OF cfgs(3)])
  have targets: "coll_of ` set rs = (\<lambda>cfg. ItemToItemCollection (sim_Name cfg)) ` set cfgs" using names by (metis list.set_map)
  have lt: "\<forall>i \<in> set [0..<length (dt_items d)]. i < length (dt_items d)" by simp
  have gives: "\<forall>i \<in> set order. i < length (dt_itemFeedback d) \<and>
      gives (\<lambda>r ids. p_bind (slice_get (dt_items d) i) (\<lambda>item. item_feature E r item ids)) (dt_itemFeedback d ! i) (vector_of_item E d i)"
    by (intro ballI conjI gives_item) (simp_all add: order(2) rows)
  have set_order: "set order = set [0..<length (dt_items d)]" using order(2) by (simp add: atLeast0LessThan)
  obtain rs' rows' s1 s' where
      "add_entities (Some db) (\<lambda>i r ids. p_bind (slice_get (dt_items d) i) (\<lambda>item. item_feature E r item ids)) order rs (dt_itemFeedback d) s = Inr (rs', rows', s1)"
      "clean_all (Some db) rs' s1 = Inr (None, s')"
      "\<forall>r \<in> set rs. view s' (coll_of r) = index_after (nb_Writer r) (kept (vector_of_item E d) r [0..<length (dt_items d)]) (view s (coll_of r))"
      "\<forall>c. c \<notin> coll_of ` set rs \<longrightarrow> view s' c = view s c"
      "\<forall>i < length (dt_itemFeedback d). rows' ! i = (if i \<in> set order then rows_sorted rs (dt_itemFeedback d ! i) else dt_itemFeedback d ! i)"
    by (rule index_all [OF rel new colls order(1) set_order distinct_upt gives vector_of_item_identifies [OF ids lt]])
  then show ?thesis using cfgs(1) idf rs rows order(2) targets by (simp add: updateItemToItem_def)
qed

text \<open>
  A successful \<open>updateUserToUser\<close> in the same way: the collection of each recommender holds the vector of every user of the data set that
  has one, and what was there before that is not older than the data set, whatever the order and the batches; nothing else changes but the order in the rows of feedback.
\<close>

theorem updateUserToUser_indexes:
  assumes rel: "reliable view db" and cfgs: "cfgs \<noteq> []" "\<forall>cfg \<in> set cfgs. sparse_type cfg" "distinct (map sim_Name cfgs)"
    and idf: "GetUserColumnValuesIDF E d = Inr tags" "GetItemIDF E d = Inr items"
    and rs: "p_map (\<lambda>cfg. NewUserToUser E cfg (dt_timestamp d) (Some \<lparr>no_VectorClient = Some db, no_VectorConfig = vc, no_BatchSize = neighbour_batch,
        no_TagsIDF = Some tags, no_LinkedIDF = Some items\<rparr>)) cfgs = Inr rs"
    and ids: "distinct (map du_UserId (dt_users d))" and rows: "length (dt_userFeedback d) = length (dt_users d)"
    and order: "distinct order" "set order = {..<length (dt_users d)}"
  shows "\<exists>d' s'. updateUserToUser E (Some db) vc cfgs order d s = Inr (None, d', s') \<and>
    (\<forall>r \<in> set rs. view s' (coll_of r) = index_after (nb_Writer r) (kept (vector_of_user E d) r [0..<length (dt_users d)]) (view s (coll_of r))) \<and>
    (\<forall>c. c \<notin> (\<lambda>cfg. UserToUserCollection (sim_Name cfg)) ` set cfgs \<longrightarrow> view s' c = view s c) \<and>
    (\<forall>i < length (dt_users d). dt_userFeedback d' ! i = rows_sorted rs (dt_userFeedback d ! i))"
proof -
  have made: "\<forall>r \<in> set rs. unused r \<and> w_timestamp (nb_Writer r) = dt_timestamp d"
    by (rule all_unused(1) [where name = UserToUserCollection, OF rs cfgs(2)]) (rule NewUserToUser_unused)
  have names: "map coll_of rs = map (\<lambda>cfg. UserToUserCollection (sim_Name cfg)) cfgs"
    by (rule all_unused(2) [where t = "dt_timestamp d", OF rs cfgs(2)]) (rule NewUserToUser_unused)
  have new: "\<forall>r \<in> set rs. unused r" using made by blast
  have colls: "distinct (map coll_of rs)" unfolding names by (rule collections_distinct(2) [OF cfgs(3)])
  have targets: "coll_of ` set rs = (\<lambda>cfg. UserToUserCollection (sim_Name cfg)) ` set cfgs" using names by (metis list.set_map)
  have lt: "\<forall>i \<in> set [0..<length (dt_users d)]. i < length (dt_users d)" by simp
  have gives: "\<forall>i \<in> set order. i < length (dt_userFeedback d) \<and>
      gives (\<lambda>r ids. p_bind (slice_get (dt_users d) i) (\<lambda>user. user_feature E r user ids)) (dt_userFeedback d ! i) (vector_of_user E d i)"
    by (intro ballI conjI gives_user) (simp_all add: order(2) rows)
  have set_order: "set order = set [0..<length (dt_users d)]" using order(2) by (simp add: atLeast0LessThan)
  obtain rs' rows' s1 s' where
      "add_entities (Some db) (\<lambda>i r ids. p_bind (slice_get (dt_users d) i) (\<lambda>user. user_feature E r user ids)) order rs (dt_userFeedback d) s = Inr (rs', rows', s1)"
      "clean_all (Some db) rs' s1 = Inr (None, s')"
      "\<forall>r \<in> set rs. view s' (coll_of r) = index_after (nb_Writer r) (kept (vector_of_user E d) r [0..<length (dt_users d)]) (view s (coll_of r))"
      "\<forall>c. c \<notin> coll_of ` set rs \<longrightarrow> view s' c = view s c"
      "\<forall>i < length (dt_userFeedback d). rows' ! i = (if i \<in> set order then rows_sorted rs (dt_userFeedback d ! i) else dt_userFeedback d ! i)"
    by (rule index_all [OF rel new colls order(1) set_order distinct_upt gives vector_of_user_identifies [OF ids lt]])
  then show ?thesis using cfgs(1) idf rs rows order(2) targets by (simp add: updateUserToUser_def)
qed

subsection \<open>A vector database in memory\<close>

type_synonym mem_index = "string \<rightharpoonup> collection_info \<times> (string \<rightharpoonup> int vector)"

definition mem_index :: "(mem_index, int) vector_db" where
  "mem_index = \<lparr>vdb_Optimize = (\<lambda>s c. (None, s)), vdb_ListCollections = (\<lambda>s. (Inr [], s)),
     vdb_DescribeCollection = (\<lambda>s c. (Inr (map_option fst (s c)), s)),
     vdb_AddCollection = (\<lambda>s c n d q. (None, s(c \<mapsto> (\<lparr>ci_Name = c, ci_Dimension = n, ci_Distance = d, ci_Config = q\<rparr>, Map.empty)))),
     vdb_DeleteCollection = (\<lambda>s c. (None, s(c := None))),
     vdb_AddVectors = (\<lambda>s c vs. case s c of None \<Rightarrow> (Some ErrNotFound, s) | Some (info, M) \<Rightarrow> (None, s(c \<mapsto> (info, upserts M vs)))),
     vdb_GetVectors = (\<lambda>s c is. (Inr [], s)),
     vdb_DeleteVectors = (\<lambda>s c t. case s c of None \<Rightarrow> (Some ErrNotFound, s) | Some (info, M) \<Rightarrow> (None, s(c \<mapsto> (info, fresh t M)))),
     vdb_QueryVectors = (\<lambda>s c q cats n. (Inr [], s))\<rparr>"

lemma mem_index_reliable: "reliable (\<lambda>s. s) mem_index"
proof -
  have "describes (\<lambda>s. s) mem_index" by (auto simp: describes_def mem_index_def split: option.split)
  moreover have "creates (\<lambda>s. s) mem_index" by (auto simp: creates_def mem_index_def)
  moreover have "deletes (\<lambda>s. s) mem_index" by (auto simp: deletes_def mem_index_def)
  moreover have "inserts (\<lambda>s. s) mem_index" by (auto simp: inserts_def mem_index_def)
  moreover have "expires (\<lambda>s. s) mem_index" by (auto simp: expires_def mem_index_def split: option.splits)
  moreover have "optimizes (\<lambda>s. s) mem_index" by (auto simp: optimizes_def mem_index_def)
  ultimately show ?thesis by (simp add: reliable_def)
qed

definition env_w :: "(string, int) neighbour_env" where
  "env_w = \<lparr>ne_CompileItem = Inr, ne_CompileUser = Inr, ne_RunItem = (\<lambda>p item. Inr (di_Labels item)), ne_RunUser = (\<lambda>p user. Inr (du_Labels user)),
     ne_FromAny = (\<lambda>l. None), ne_sqrt32 = (\<lambda>x. x), ne_log32 = (\<lambda>x. x), ne_float = (\<lambda>x. x)\<rparr>"

definition data_w :: dataset where
  "data_w = \<lparr>dt_timestamp = 5, dt_users = [\<lparr>du_UserId = ''u'', du_Labels = LIDs [0], du_Comment = ''''\<rparr>, \<lparr>du_UserId = ''v'', du_Labels = LIDs [0], du_Comment = ''''\<rparr>],
     dt_items = [\<lparr>di_ItemId = ''a'', di_IsHidden = False, di_Categories = [], di_Timestamp = 1, di_Labels = LIDs [0], di_Comment = ''''\<rparr>,
       \<lparr>di_ItemId = ''b'', di_IsHidden = False, di_Categories = [], di_Timestamp = 2, di_Labels = LIDs [0], di_Comment = ''''\<rparr>],
     dt_userLabels = \<lparr>fd_si = [''x'' \<mapsto> 0], fd_is = [''x''], fd_cnt = [2]\<rparr>, dt_itemLabels = \<lparr>fd_si = [''y'' \<mapsto> 0], fd_is = [''y''], fd_cnt = [2]\<rparr>,
     dt_userFeedback = [[0, 1], [0]], dt_itemFeedback = [[1, 0], [0]], dt_timestamps = [[3, 4], [4]], dt_negatives = [],
     dt_userDict = \<lparr>fd_si = [''u'' \<mapsto> 0, ''v'' \<mapsto> 1], fd_is = [''u'', ''v''], fd_cnt = [2, 1]\<rparr>,
     dt_itemDict = \<lparr>fd_si = [''a'' \<mapsto> 0, ''b'' \<mapsto> 1], fd_is = [''a'', ''b''], fd_cnt = [2, 1]\<rparr>, dt_numFeedback = 3, dt_categories = Map.empty\<rparr>"

definition vector_config_w :: vector_config where
  "vector_config_w = \<lparr>vc_Type = '''', vc_Bits = 0\<rparr>"

lemma idf_w: "GetItemColumnValuesIDF env_w data_w = Inr [2]" "GetUserIDF env_w data_w = Inr [2, 3]"
  "GetUserColumnValuesIDF env_w data_w = Inr [2]" "GetItemIDF env_w data_w = Inr [2, 3]"
  by code_simp+

definition similar_w :: similarity_config where
  "similar_w = \<lparr>sim_Name = ''n'', sim_Type = ''auto'', sim_Column = ''''\<rparr>"

text \<open>The collection holds a vector of an item that is gone and of one that is left.\<close>

definition index_w :: "string \<Rightarrow> mem_index" where
  "index_w c = [c \<mapsto> (\<lparr>ci_Name = c, ci_Dimension = 0, ci_Distance = Dot, ci_Config = vector_config_w\<rparr>,
     [''z'' \<mapsto> zero_vector\<lparr>vec_Id := ''z'', vec_Timestamp := 4\<rparr>, ''a'' \<mapsto> zero_vector\<lparr>vec_Id := ''a'', vec_Timestamp := 4\<rparr>])]"

lemma data_w_facts: "distinct (map di_ItemId (dt_items data_w))" "length (dt_itemFeedback data_w) = length (dt_items data_w)"
  "distinct (map du_UserId (dt_users data_w))" "length (dt_userFeedback data_w) = length (dt_users data_w)"
  "set [1, 0] = {..<length (dt_items data_w)}" "set [1, 0] = {..<length (dt_users data_w)}" "distinct [1, 0 :: nat]"
  by (auto simp: data_w_def)

lemma similar_w_facts: "[similar_w] \<noteq> []" "\<forall>cfg \<in> set [similar_w]. sparse_type cfg" "distinct (map sim_Name [similar_w])"
  by (simp_all add: similar_w_def sparse_type_def)

theorem updateItemToItem_indexes_witness: "\<exists>rs d' s'. length rs = 1 \<and>
    updateItemToItem env_w (Some mem_index) vector_config_w [similar_w] [1, 0] data_w (index_w ''item_to_item_n'') = Inr (None, d', s') \<and>
    (\<forall>r \<in> set rs. s' (coll_of r) =
      index_after (nb_Writer r) (kept (vector_of_item env_w data_w) r [0..<length (dt_items data_w)]) (index_w ''item_to_item_n'' (coll_of r)))"
proof -
  obtain rs where rs: "p_map (\<lambda>cfg. NewItemToItem env_w cfg (dt_timestamp data_w) (Some \<lparr>no_VectorClient = Some mem_index, no_VectorConfig = vector_config_w,
      no_BatchSize = neighbour_batch, no_TagsIDF = Some [2], no_LinkedIDF = Some [2, 3]\<rparr>)) [similar_w] = Inr rs" "length rs = 1"
    by (simp add: NewItemToItem_def newAutoItemToItem_def similar_w_def)
  show ?thesis
    using updateItemToItem_indexes [OF mem_index_reliable similar_w_facts idf_w(1,2) rs(1) data_w_facts(1,2,7,5), of "index_w ''item_to_item_n''"] rs(2)
    by blast
qed

theorem updateUserToUser_indexes_witness: "\<exists>rs d' s'. length rs = 1 \<and>
    updateUserToUser env_w (Some mem_index) vector_config_w [similar_w] [1, 0] data_w (index_w ''user_to_user_n'') = Inr (None, d', s') \<and>
    (\<forall>r \<in> set rs. s' (coll_of r) =
      index_after (nb_Writer r) (kept (vector_of_user env_w data_w) r [0..<length (dt_users data_w)]) (index_w ''user_to_user_n'' (coll_of r)))"
proof -
  obtain rs where rs: "p_map (\<lambda>cfg. NewUserToUser env_w cfg (dt_timestamp data_w) (Some \<lparr>no_VectorClient = Some mem_index, no_VectorConfig = vector_config_w,
      no_BatchSize = neighbour_batch, no_TagsIDF = Some [2], no_LinkedIDF = Some [2, 3]\<rparr>)) [similar_w] = Inr rs" "length rs = 1"
    by (simp add: NewUserToUser_def newAutoUserToUser_def similar_w_def)
  show ?thesis
    using updateUserToUser_indexes [OF mem_index_reliable similar_w_facts idf_w(3,4) rs(1) data_w_facts(3,4,7,6), of "index_w ''user_to_user_n''"] rs(2)
    by blast
qed

end
