(* ===== verification/Load_Task.thy ===== *)
theory Load_Task
  imports Load_Data Neighbour_Index Cache_Garbage Master_Models Recommender
begin

text \<open>
  The periodic task of the master: \<open>loadDataset\<close> and \<open>runLoadDatasetTask\<close> of \<open>master/tasks.go\<close>. The data set is loaded, the leaderboards,
  statistics and categories are written to the cache, and the data sets are split; then neighbours and models are updated and
  garbage is collected. The reconciliation of the data store, which runs in the background, and the gauges of the metrics are left out. The data
  store, the cache and the other services are functions of one state.
\<close>

subsection \<open>Environment\<close>

text \<open>
  \<open>te_Now\<close> and \<open>le_Now\<close> are the clock. A map of counts is visited in the order \<open>de_IterCounts\<close>; both splits use a generator with seed 0,
  and \<open>de_TestPart\<close> is the number of test samples of the second.
\<close>

record ('p, 'w, 'g) dataset_env =
  de_Load :: "'w load_env"
  de_Env :: "'w env"
  de_Expr :: "('p, 'w) expr_lib"
  de_Float :: "int \<Rightarrow> 'w"
  de_IterCounts :: "(string \<rightharpoonup> int) \<Rightarrow> string list"
  de_IterSets :: "item_sets \<Rightarrow> item_sets"
  de_IterTypes :: "(string \<times> item_sets) list \<Rightarrow> (string \<times> item_sets) list"
  de_Intn :: "'g \<Rightarrow> nat \<Rightarrow> nat \<times> 'g"
  de_Int31n :: "i32 \<Rightarrow> 'g \<Rightarrow> i32 \<times> 'g"
  de_IntnRange :: "int \<Rightarrow> 'g \<Rightarrow> int \<times> 'g"
  de_TestPart :: "nat \<Rightarrow> int"
  de_Seed0 :: 'g

record 'w datasets =
  ds_ranking :: dataset
  ds_rankingTrain :: dataset
  ds_rankingTest :: dataset
  ds_clickTrain :: "'w ctr_dataset"
  ds_clickTest :: "'w ctr_dataset"

subsection \<open>Writing to the cache\<close>

text \<open>Errors of the three calls are logged, and the next call is made all the same.\<close>

definition save_leaderboard :: "('p, 'w::{linorder, zero}, 'g) dataset_env \<Rightarrow> ('s, 'w) cache \<Rightarrow> non_personalized_config \<times> ('p, 'w) leaderboard \<Rightarrow> 's \<Rightarrow> go_panic + 's" where
  "save_leaderboard E C = (\<lambda>(cfg, recommender) s.
     p_bind (lb_PopAll (de_Env E) recommender) (\<lambda>(scores, recommender').
     let name = lb_name recommender; t = lb_timestamp recommender;
         s1 = snd (cdb_AddScores (ca_Main C) s c_NonPersonalized name scores);
         s2 = snd (cdb_DeleteScores (ca_Main C) s1 [c_NonPersonalized] \<lparr>sc_Subset = Some name, sc_Id = None, sc_Before = Some t\<rparr>)
     in Inr (snd (cdb_Set (ca_Main C) s2
       [kv_Time (env_ShowTime (de_Env E)) (Key [''non-personalized_update_time'', name]) t,
        kv_String (Key [c_NonPersonalizedDigest, name]) (np_Hash (env_MD5 (de_Env E)) cfg)]))))"

definition size_points :: "('p, 'w, 'g) dataset_env \<Rightarrow> 'w ctr_dataset \<Rightarrow> dataset \<Rightarrow> 'w time_series_point list" where
  "size_points E click d = map (\<lambda>(name, n). \<lparr>tp_Name = name, tp_Timestamp = dt_timestamp d, tp_Value = de_Float E n\<rparr>)
     [(''num_users'', int (CountUsers d)), (''num_items'', int (CountItems d)), (''num_feedback'', int (length (cd_Target click))),
      (''num_pos_feedbacks'', cd_PositiveCount click), (''num_neg_feedbacks'', cd_NegativeCount click)]"

definition kv_Integer :: "string \<Rightarrow> int \<Rightarrow> kv_value" where
  "kv_Integer name n = \<lparr>kv_name = name, kv_value = FormatInt n\<rparr>"

definition counters :: "'w ctr_dataset \<Rightarrow> dataset \<Rightarrow> (string \<times> int) list" where
  "counters click d =
     [(''num_users'', int (CountUsers d)), (''num_items'', int (CountItems d)), (''num_total_pos_feedbacks'', CountFeedback d),
      (''num_user_labels'', ctr_CountUserLabels click), (''num_item_labels'', ctr_CountItemLabels click),
      (''num_valid_pos_feedbacks'', cd_PositiveCount click), (''num_valid_neg_feedbacks'', cd_NegativeCount click)]"

definition write_counter :: "('s, 'w) cache \<Rightarrow> string \<times> int \<Rightarrow> 's \<Rightarrow> 's" where
  "write_counter C = (\<lambda>(name, n) s. snd (cdb_Set (ca_Main C) s [kv_Integer (Key [''global_meta'', name]) n]))"

definition category_scores :: "('p, 'w, 'g) dataset_env \<Rightarrow> dataset \<Rightarrow> 'w score list" where
  "category_scores E d = map (\<lambda>c. \<lparr>score_Id = c, score_Score = de_Float E (the (dt_categories d c)), score_IsHidden = False, score_Categories = [],
     score_Timestamp = le_Now (de_Load E)\<rparr>) (de_IterCounts E (dt_categories d))"

text \<open>Statistics after the leaderboards. The last call is the one whose error is left in the named result.\<close>

definition write_statistics :: "('p, 'w::linordered_field, 'g) dataset_env \<Rightarrow> ('s, 'w) cache \<Rightarrow> 'w ctr_dataset \<Rightarrow> dataset \<Rightarrow> 'w online_evaluator \<Rightarrow> 's \<Rightarrow> go_error option \<times> 's" where
  "write_statistics E C click d evaluator s =
     (let s1 = snd (ca_AddTimeSeriesPoints C s (size_points E click d));
          s2 = fold (write_counter C) (counters click d) s1;
          points = oe_Evaluate (le_AddDays (de_Load E)) (de_IterSets E) (de_IterTypes E) evaluator;
          s3 = snd (ca_AddTimeSeriesPoints C s2 points)
      in cdb_AddScores (ca_Main C) s3 ''item_categories'' '''' (category_scores E d))"

subsection \<open>Loading\<close>

text \<open>The data set and what is written, up to the splits; the error is the one of the named result.\<close>

definition load_and_write :: "('p, 'w::linordered_field, 'g) dataset_env \<Rightarrow> ('s, 'w) database \<Rightarrow> ('s, 'w) cache \<Rightarrow> 'w recommend_config \<Rightarrow>
    ('s, 'w ctr_dataset \<times> dataset \<times> go_error option) load" where
  "load_and_write E db C cfg =
     (let L = de_Expr E; ds = DataSource cfg in
     load_bind (\<lambda>s. Inr (p_map (\<lambda>c. NewNonPersonalized L c (CacheSize cfg) (le_Now (de_Load E))) (NonPersonalized cfg), s)) (\<lambda>recommenders.
     let evaluator = NewOnlineEvaluator (le_Now (de_Load E)) (ds_PositiveFeedbackTypes ds) (ds_ReadFeedbackTypes ds) in
     load_bind (LoadDataFromDatabase (de_Load E) db (push_leaderboards L) (ds_PositiveFeedbackTypes ds) (ds_NegativeFeedbackTypes ds) (ds_ReadFeedbackTypes ds)
         (ds_ItemTTL ds) (ds_PositiveFeedbackTTL ds) evaluator recommenders) (\<lambda>(click, d, evaluator', recommenders').
     load_bind (\<lambda>s. p_bind (p_fold (save_leaderboard E C) (zip (NonPersonalized cfg) recommenders') s) (\<lambda>s'. Inr (Inr (), s'))) (\<lambda>_ s.
     case write_statistics E C click d evaluator' s of (e, s') \<Rightarrow> Inr (Inr (click, d, e), s')))))"

text \<open>Both splits; sampling by rejection may not end, which is \<open>None\<close>.\<close>

definition split_datasets :: "('p, 'w::linordered_field, 'g) dataset_env \<Rightarrow> 'w ctr_dataset \<Rightarrow> dataset \<Rightarrow> (go_panic + 'w datasets) option" where
  "split_datasets E click d =
     (case SplitCF (de_Intn E) (de_Int31n E) 0 (de_Seed0 E) d of
        None \<Rightarrow> None
      | Some (Inl p) \<Rightarrow> Some (Inl p)
      | Some (Inr (train, test)) \<Rightarrow>
         (case ctr_Split (de_IntnRange E) (de_TestPart E) (de_Seed0 E) click of
            None \<Rightarrow> None
          | Some (Inl p) \<Rightarrow> Some (Inl p)
          | Some (Inr (clickTrain, clickTest)) \<Rightarrow>
              Some (Inr \<lparr>ds_ranking = d, ds_rankingTrain = train, ds_rankingTest = test, ds_clickTrain = clickTrain, ds_clickTest = clickTest\<rparr>)))"

definition loadDataset :: "('p, 'w::linordered_field, 'g) dataset_env \<Rightarrow> ('s, 'w) database \<Rightarrow> ('s, 'w) cache \<Rightarrow> 'w recommend_config \<Rightarrow> 's \<Rightarrow>
    (go_panic + (go_error + 'w datasets) \<times> 's) option" where
  "loadDataset E db C cfg s =
     (case load_and_write E db C cfg s of
        Inl p \<Rightarrow> Some (Inl p)
      | Inr (Inl e, s') \<Rightarrow> Some (Inr (Inl e, s'))
      | Inr (Inr (click, d, e), s') \<Rightarrow>
          map_option (\<lambda>r. p_bind r (\<lambda>datasets. Inr (case e of None \<Rightarrow> Inr datasets | Some e' \<Rightarrow> Inl e', s'))) (split_datasets E click d))"

subsection \<open>The task\<close>

text \<open>
  The tasks that are not modelled: recommending in the master (when it runs alone) and the searches of hyper-parameters. The fields of the
  master change with them. \<open>lt_UserOrder\<close> and \<open>lt_ItemOrder\<close> are the orders in which jobs add the entities of a data set.
\<close>

record ('x, 'w) later_tasks =
  lt_UpdateRecommend :: "'x \<Rightarrow> go_panic + go_error option \<times> 'x"
  lt_OptimizeCF :: "dataset \<Rightarrow> dataset \<Rightarrow> 'x \<Rightarrow> go_panic + go_error option \<times> 'x"
  lt_OptimizeCTR :: "'w ctr_dataset \<Rightarrow> 'w ctr_dataset \<Rightarrow> 'x \<Rightarrow> go_panic + go_error option \<times> 'x"
  lt_UserOrder :: "dataset \<Rightarrow> nat list"
  lt_ItemOrder :: "dataset \<Rightarrow> nat list"

record task_config =
  tc_Standalone :: bool
  tc_CFOptimizePeriod :: duration
  tc_CTROptimizePeriod :: duration
  tc_Vector :: vector_config

text \<open>Errors of a task are logged; panics are not recovered.\<close>

definition logged :: "('x, unit) io \<Rightarrow> 'x \<Rightarrow> go_panic + 'x" where
  "logged m x = (case m x of (Inl (Panicked p), _) \<Rightarrow> Inl p | (_, x') \<Rightarrow> Inr x')"

definition ignored :: "go_panic + go_error option \<times> 'x \<Rightarrow> go_panic + 'x" where
  "ignored r = p_bind r (\<lambda>(e, x). Inr x)"

definition when_task :: "bool \<Rightarrow> ('x \<Rightarrow> go_panic + 'x) \<Rightarrow> 'x \<Rightarrow> go_panic + 'x" where
  "when_task b m x = (if b then m x else Inr x)"

definition update_tasks :: "('p, 'f::{zero, linorder}, 'w, 'm) train_env \<Rightarrow> ('prog, 'v::{linorder, zero, one, plus, divide}) neighbour_env \<Rightarrow> ('s, 'w) services \<Rightarrow>
    ('s, 'v) vector_db option \<Rightarrow> ('s writer \<Rightarrow> 'm \<Rightarrow> ('s, unit) io) \<Rightarrow> (('p, 'f) models \<times> 's, 'w) later_tasks \<Rightarrow> task_config \<Rightarrow> 'w recommend_config \<Rightarrow>
    'w datasets \<Rightarrow> ('p, 'f) models \<times> 's \<Rightarrow> go_panic + ('p, 'f) models \<times> 's" where
  "update_tasks TE NE S V MarshalModel T tc cfg ds = (\<lambda>(m, s).
     (let useCF = (\<not> is_none (co_Type (Collaborative cfg))); useCTR = (map to_lower (rk_Type (Ranker cfg)) = ''fm'') in
     p_bind (updateUserToUser NE V (tc_Vector tc) (UserToUser cfg) (lt_UserOrder T (ds_ranking ds)) (ds_ranking ds) s) (\<lambda>(_, d1, s1).
     p_bind (updateItemToItem NE V (tc_Vector tc) (ItemToItem cfg) (lt_ItemOrder T d1) d1 s1) (\<lambda>(_, d2, s2).
     p_bind (when_task useCF (logged (trainCollaborativeFiltering TE S (ds_rankingTrain ds) (ds_rankingTest ds))) (m, s2)) (\<lambda>x3.
     p_bind (when_task useCTR (logged (trainClickThroughRatePrediction TE S MarshalModel (ds_clickTrain ds) (ds_clickTest ds))) x3) (\<lambda>x4.
     p_bind (when_task (tc_Standalone tc) (\<lambda>x. ignored (lt_UpdateRecommend T x)) x4) (\<lambda>(m5, s5).
     let s6 = snd (collectGarbage (map np_Name (NonPersonalized cfg)) (sv_Cache S) d2 s5) in
     p_bind (when_task (useCF \<and> tc_CFOptimizePeriod tc > 0) (\<lambda>x. ignored (lt_OptimizeCF T (ds_rankingTrain ds) (ds_rankingTest ds) x)) (m5, s6)) (\<lambda>x7.
     when_task (useCTR \<and> tc_CTROptimizePeriod tc > 0) (\<lambda>x. ignored (lt_OptimizeCTR T (ds_clickTrain ds) (ds_clickTest ds) x)) x7))))))))"

definition runLoadDatasetTask :: "('e, 'w::linordered_field, 'g) dataset_env \<Rightarrow> ('p, 'f::{zero, linorder}, 'w, 'm) train_env \<Rightarrow>
    ('prog, 'v::{linorder, zero, one, plus, divide}) neighbour_env \<Rightarrow> ('s, 'w) database \<Rightarrow> ('s, 'w) services \<Rightarrow> ('s, 'v) vector_db option \<Rightarrow>
    ('s writer \<Rightarrow> 'm \<Rightarrow> ('s, unit) io) \<Rightarrow> (('p, 'f) models \<times> 's, 'w) later_tasks \<Rightarrow> task_config \<Rightarrow> 'w recommend_config \<Rightarrow>
    ('p, 'f) models \<times> 's \<Rightarrow> (go_panic + go_error option \<times> ('p, 'f) models \<times> 's) option" where
  "runLoadDatasetTask E TE NE db S V MarshalModel T tc cfg = (\<lambda>(m, s).
     case loadDataset E db (sv_Cache S) cfg s of
       None \<Rightarrow> None
     | Some (Inl p) \<Rightarrow> Some (Inl p)
     | Some (Inr (Inl e, s')) \<Rightarrow> Some (Inr (Some e, (m, s')))
     | Some (Inr (Inr ds, s')) \<Rightarrow> Some (p_bind (update_tasks TE NE S V MarshalModel T tc cfg ds (m, s')) (\<lambda>x. Inr (None, x))))"

end
