(* ===== verification/Load_Task_Props.thy ===== *)
theory Load_Task_Props
  imports Load_Task Load_Props
begin

text \<open>What a load leaves in the cache, when the cache keeps what it is given, and what happens when it does not.\<close>

subsection \<open>A cache that keeps what it is given\<close>

text \<open>The scores of a collection and a subset by id, and the values of the keys.\<close>

type_synonym ('s, 'w) score_view = "'s \<Rightarrow> string \<Rightarrow> string \<Rightarrow> string \<rightharpoonup> 'w score"

definition scores_by_id :: "'w score list \<Rightarrow> string \<rightharpoonup> 'w score" where
  "scores_by_id xs = map_of (map (\<lambda>x. (score_Id x, x)) xs)"

definition recent :: "time \<Rightarrow> (string \<rightharpoonup> 'w score) \<Rightarrow> string \<rightharpoonup> 'w score" where
  "recent t M = (\<lambda>i. case M i of None \<Rightarrow> None | Some x \<Rightarrow> if score_Timestamp x < t then None else Some x)"

definition adds_scores :: "('s, 'w) score_view \<Rightarrow> ('s \<Rightarrow> string \<rightharpoonup> string) \<Rightarrow> ('s, 'w) cache \<Rightarrow> bool" where
  "adds_scores docs kv C \<longleftrightarrow> (\<forall>s c n xs e s'. cdb_AddScores (ca_Main C) s c n xs = (e, s') \<longrightarrow> distinct (map score_Id xs) \<longrightarrow>
     e = None \<and> kv s' = kv s \<and> docs s' = (docs s)(c := (docs s c)(n := docs s c n ++ scores_by_id xs)))"

definition deletes_scores :: "('s, 'w) score_view \<Rightarrow> ('s \<Rightarrow> string \<rightharpoonup> string) \<Rightarrow> ('s, 'w) cache \<Rightarrow> bool" where
  "deletes_scores docs kv C \<longleftrightarrow> (\<forall>s c n t e s'. cdb_DeleteScores (ca_Main C) s [c] \<lparr>sc_Subset = Some n, sc_Id = None, sc_Before = Some t\<rparr> = (e, s') \<longrightarrow>
     kv s' = kv s \<and> docs s' = (docs s)(c := (docs s c)(n := recent t (docs s c n))))"

definition sets_values :: "('s, 'w) score_view \<Rightarrow> ('s \<Rightarrow> string \<rightharpoonup> string) \<Rightarrow> ('s, 'w) cache \<Rightarrow> bool" where
  "sets_values docs kv C \<longleftrightarrow> (\<forall>s vs e s'. cdb_Set (ca_Main C) s vs = (e, s') \<longrightarrow>
     docs s' = docs s \<and> kv s' = foldl (\<lambda>m v. m(kv_name v \<mapsto> kv_value v)) (kv s) vs)"

definition adds_points :: "('s, 'w) score_view \<Rightarrow> ('s \<Rightarrow> string \<rightharpoonup> string) \<Rightarrow> ('s, 'w) cache \<Rightarrow> bool" where
  "adds_points docs kv C \<longleftrightarrow> (\<forall>s ps e s'. ca_AddTimeSeriesPoints C s ps = (e, s') \<longrightarrow> docs s' = docs s \<and> kv s' = kv s)"

definition cache_keeps :: "('s, 'w) score_view \<Rightarrow> ('s \<Rightarrow> string \<rightharpoonup> string) \<Rightarrow> ('s, 'w) cache \<Rightarrow> bool" where
  "cache_keeps docs kv C \<longleftrightarrow> adds_scores docs kv C \<and> deletes_scores docs kv C \<and> sets_values docs kv C \<and> adds_points docs kv C"

lemma cache_keepsD:
  assumes "cache_keeps docs kv C"
  shows "cdb_AddScores (ca_Main C) s c n xs = (e, s') \<Longrightarrow> distinct (map score_Id xs) \<Longrightarrow>
      e = None \<and> kv s' = kv s \<and> docs s' = (docs s)(c := (docs s c)(n := docs s c n ++ scores_by_id xs))"
    "cdb_DeleteScores (ca_Main C) s [c] \<lparr>sc_Subset = Some n, sc_Id = None, sc_Before = Some t\<rparr> = (e, s') \<Longrightarrow>
      kv s' = kv s \<and> docs s' = (docs s)(c := (docs s c)(n := recent t (docs s c n)))"
    "cdb_Set (ca_Main C) s vs = (e, s') \<Longrightarrow> docs s' = docs s \<and> kv s' = foldl (\<lambda>m v. m(kv_name v \<mapsto> kv_value v)) (kv s) vs"
    "ca_AddTimeSeriesPoints C s ps = (e, s') \<Longrightarrow> docs s' = docs s \<and> kv s' = kv s"
proof -
  have laws: "adds_scores docs kv C" "deletes_scores docs kv C" "sets_values docs kv C" "adds_points docs kv C"
    using assms by (simp_all add: cache_keeps_def)
  show "cdb_AddScores (ca_Main C) s c n xs = (e, s') \<Longrightarrow> distinct (map score_Id xs) \<Longrightarrow>
      e = None \<and> kv s' = kv s \<and> docs s' = (docs s)(c := (docs s c)(n := docs s c n ++ scores_by_id xs))"
    using laws(1) unfolding adds_scores_def by blast
  show "cdb_DeleteScores (ca_Main C) s [c] \<lparr>sc_Subset = Some n, sc_Id = None, sc_Before = Some t\<rparr> = (e, s') \<Longrightarrow>
      kv s' = kv s \<and> docs s' = (docs s)(c := (docs s c)(n := recent t (docs s c n)))"
    using laws(2) unfolding deletes_scores_def by blast
  show "cdb_Set (ca_Main C) s vs = (e, s') \<Longrightarrow> docs s' = docs s \<and> kv s' = foldl (\<lambda>m v. m(kv_name v \<mapsto> kv_value v)) (kv s) vs"
    using laws(3) unfolding sets_values_def by blast
  show "ca_AddTimeSeriesPoints C s ps = (e, s') \<Longrightarrow> docs s' = docs s \<and> kv s' = kv s"
    using laws(4) unfolding adds_points_def by blast
qed

subsection \<open>Saving leaderboards\<close>

definition digest_key :: "string \<Rightarrow> string" where
  "digest_key name = Key [c_NonPersonalizedDigest, name]"

lemma digest_keys:
  "digest_key a = digest_key b \<longleftrightarrow> a = b" "digest_key a \<noteq> Key [''non-personalized_update_time'', b]" "digest_key a \<noteq> Key [''global_meta'', b]"
proof -
  have d: "CHR ''/'' \<notin> set c_NonPersonalizedDigest" by (simp add: cache_names)
  show "digest_key a = digest_key b \<longleftrightarrow> a = b" using Key_inject [OF _ d d] by (auto simp: digest_key_def)
  show "digest_key a \<noteq> Key [''non-personalized_update_time'', b]"
    using Key_inject [OF _ d, of a "''non-personalized_update_time''" b] by (auto simp: digest_key_def cache_names)
  show "digest_key a \<noteq> Key [''global_meta'', b]"
    using Key_inject [OF _ d, of a "''global_meta''" b] by (auto simp: digest_key_def cache_names)
qed

text \<open>What is read back of a saved leaderboard.\<close>

definition saved :: "('s, 'w) score_view \<Rightarrow> ('s \<Rightarrow> string \<rightharpoonup> string) \<Rightarrow> 's \<Rightarrow> 's \<Rightarrow> string \<Rightarrow> time \<Rightarrow> 'w score list \<Rightarrow> string \<Rightarrow> bool" where
  "saved docs kv s s' name t scores hash \<longleftrightarrow>
     docs s' c_NonPersonalized name = recent t (docs s c_NonPersonalized name ++ scores_by_id scores) \<and> kv s' (digest_key name) = Some hash"

lemma save_leaderboard_view:
  assumes keeps: "cache_keeps docs kv C" and pop: "lb_PopAll (de_Env E) r = Inr (scores, r')" and ids: "distinct (map score_Id scores)"
  obtains s' where "save_leaderboard E C (cfg, r) s = Inr s'"
    "saved docs kv s s' (lb_name r) (lb_timestamp r) scores (np_Hash (env_MD5 (de_Env E)) cfg)"
    "\<And>name. name \<noteq> lb_name r \<Longrightarrow> docs s' c_NonPersonalized name = docs s c_NonPersonalized name \<and> kv s' (digest_key name) = kv s (digest_key name)"
proof -
  let ?c = "\<lparr>sc_Subset = Some (lb_name r), sc_Id = None, sc_Before = Some (lb_timestamp r)\<rparr>"
  let ?vs = "[kv_Time (env_ShowTime (de_Env E)) (Key [''non-personalized_update_time'', lb_name r]) (lb_timestamp r),
        kv_String (Key [c_NonPersonalizedDigest, lb_name r]) (np_Hash (env_MD5 (de_Env E)) cfg)]"
  obtain e1 s1 where a: "cdb_AddScores (ca_Main C) s c_NonPersonalized (lb_name r) scores = (e1, s1)" by fastforce
  obtain e2 s2 where d: "cdb_DeleteScores (ca_Main C) s1 [c_NonPersonalized] ?c = (e2, s2)" by fastforce
  obtain e3 s3 where k: "cdb_Set (ca_Main C) s2 ?vs = (e3, s3)" by fastforce
  note A = cache_keepsD(1) [OF keeps a ids] and D = cache_keepsD(2) [OF keeps d] and K = cache_keepsD(3) [OF keeps k]
  have "save_leaderboard E C (cfg, r) s = Inr s3" using pop a d k by (simp add: save_leaderboard_def Let_def)
  moreover have docs: "docs s3 = (docs s)(c_NonPersonalized := (docs s c_NonPersonalized)(lb_name r :=
      recent (lb_timestamp r) (docs s c_NonPersonalized (lb_name r) ++ scores_by_id scores)))"
    using A D K by simp
  moreover have kv: "kv s3 (digest_key name) = (if name = lb_name r then Some (np_Hash (env_MD5 (de_Env E)) cfg) else kv s (digest_key name))" for name
    using A D K digest_keys(1) [of name "lb_name r"] digest_keys(2) [of name "lb_name r"]
    by (auto simp: kv_Time_def kv_String_def digest_key_def)
  ultimately show ?thesis using that [of s3] by (simp add: saved_def)
qed

lemma save_leaderboards_view:
  assumes keeps: "cache_keeps docs kv C"
  shows "distinct (map (\<lambda>p. lb_name (snd p)) ps) \<Longrightarrow>
    \<forall>p \<in> set ps. \<exists>r'. lb_PopAll (de_Env E) (snd p) = Inr (scores p, r') \<and> distinct (map score_Id (scores p)) \<Longrightarrow>
    \<exists>s'. p_fold (save_leaderboard E C) ps s = Inr s' \<and>
      (\<forall>p \<in> set ps. saved docs kv s s' (lb_name (snd p)) (lb_timestamp (snd p)) (scores p) (np_Hash (env_MD5 (de_Env E)) (fst p))) \<and>
      (\<forall>name. name \<notin> (\<lambda>p. lb_name (snd p)) ` set ps \<longrightarrow>
        docs s' c_NonPersonalized name = docs s c_NonPersonalized name \<and> kv s' (digest_key name) = kv s (digest_key name))"
proof (induction ps arbitrary: s)
  case (Cons p ps)
  obtain cfg r where p: "p = (cfg, r)" by fastforce
  obtain r' where pop: "lb_PopAll (de_Env E) r = Inr (scores p, r')" "distinct (map score_Id (scores p))" using Cons.prems(2) p by auto
  obtain s1 where s1: "save_leaderboard E C (cfg, r) s = Inr s1"
      "saved docs kv s s1 (lb_name r) (lb_timestamp r) (scores p) (np_Hash (env_MD5 (de_Env E)) cfg)"
      "\<And>name. name \<noteq> lb_name r \<Longrightarrow> docs s1 c_NonPersonalized name = docs s c_NonPersonalized name \<and> kv s1 (digest_key name) = kv s (digest_key name)"
    using save_leaderboard_view [OF keeps pop, of cfg s] by metis
  have "distinct (map (\<lambda>p. lb_name (snd p)) ps)" "\<forall>p \<in> set ps. \<exists>r'. lb_PopAll (de_Env E) (snd p) = Inr (scores p, r') \<and> distinct (map score_Id (scores p))"
    using Cons.prems by simp_all
  note IH = Cons.IH [OF this, of s1]
  obtain s' where s': "p_fold (save_leaderboard E C) ps s1 = Inr s'"
      "\<forall>q \<in> set ps. saved docs kv s1 s' (lb_name (snd q)) (lb_timestamp (snd q)) (scores q) (np_Hash (env_MD5 (de_Env E)) (fst q))"
      "\<forall>name. name \<notin> (\<lambda>p. lb_name (snd p)) ` set ps \<longrightarrow>
        docs s' c_NonPersonalized name = docs s1 c_NonPersonalized name \<and> kv s' (digest_key name) = kv s1 (digest_key name)"
    using IH by (elim exE conjE)
  have new: "lb_name r \<notin> (\<lambda>p. lb_name (snd p)) ` set ps" using Cons.prems(1) p by simp
  have "saved docs kv s s' (lb_name (snd q)) (lb_timestamp (snd q)) (scores q) (np_Hash (env_MD5 (de_Env E)) (fst q))" if "q \<in> set (p # ps)" for q
  proof (cases "q \<in> set ps")
    case True
    then have "lb_name (snd q) \<noteq> lb_name r" using new imageI [OF True, of "\<lambda>p. lb_name (snd p)"] by metis
    then show ?thesis using s'(2) True s1(3) by (simp add: saved_def)
  next
    case False
    then have "q = (cfg, r)" using that p by simp
    then show ?thesis using s1(2) s'(3) new p by (simp add: saved_def)
  qed
  moreover have "p_fold (save_leaderboard E C) (p # ps) s = Inr s'" using s1(1) s'(1) p by simp
  ultimately show ?case using s'(3) s1(3) p by (intro exI [of _ s']) auto
qed simp

subsection \<open>Statistics\<close>

lemma write_counters_view:
  assumes "cache_keeps docs kv C"
  shows "docs (fold (write_counter C) xs s) = docs s \<and> kv (fold (write_counter C) xs s) (digest_key name) = kv s (digest_key name)"
proof (induction xs arbitrary: s)
  case (Cons x xs)
  obtain k n where x: "x = (k, n)" by fastforce
  obtain e s1 where c: "cdb_Set (ca_Main C) s [kv_Integer (Key [''global_meta'', k]) n] = (e, s1)" by fastforce
  have "docs s1 = docs s \<and> kv s1 (digest_key name) = kv s (digest_key name)"
    using cache_keepsD(3) [OF assms c] digest_keys(3) [of name k] by (simp add: kv_Integer_def)
  then show ?case using Cons.IH [of s1] c x by (simp add: write_counter_def)
qed simp

lemma write_statistics_view:
  assumes keeps: "cache_keeps docs kv C" and cats: "distinct (de_IterCounts E (dt_categories d))"
  obtains s' where "write_statistics E C click d ev s = (None, s')" "docs s' c_NonPersonalized = docs s c_NonPersonalized"
    "\<And>name. kv s' (digest_key name) = kv s (digest_key name)"
proof -
  obtain e1 s1 where p: "ca_AddTimeSeriesPoints C s (size_points E click d) = (e1, s1)" by fastforce
  let ?s2 = "fold (write_counter C) (counters click d) s1"
  obtain e3 s3 where q: "ca_AddTimeSeriesPoints C ?s2 (oe_Evaluate (le_AddDays (de_Load E)) (de_IterSets E) (de_IterTypes E) ev) = (e3, s3)" by fastforce
  obtain e s' where a: "cdb_AddScores (ca_Main C) s3 ''item_categories'' '''' (category_scores E d) = (e, s')" by fastforce
  have ids: "distinct (map score_Id (category_scores E d))" using cats by (simp add: category_scores_def o_def)
  have A: "e = None \<and> kv s' = kv s3 \<and> docs s' c_NonPersonalized = docs s3 c_NonPersonalized"
    using cache_keepsD(1) [OF keeps a ids] by (simp add: cache_names)
  have B: "docs s3 = docs s \<and> kv s3 (digest_key name) = kv s (digest_key name)" for name
    using cache_keepsD(4) [OF keeps p] cache_keepsD(4) [OF keeps q] write_counters_view [OF keeps, of "counters click d" s1 name] by simp
  show ?thesis using that [of s'] A B p q a by (simp add: write_statistics_def Let_def)
qed

subsection \<open>What \<open>PopAll\<close> gives is of the time of the leaderboard\<close>

definition all_at :: "time \<Rightarrow> (string \<times> 'w score) list \<Rightarrow> bool" where
  "all_at t scores \<longleftrightarrow> (\<forall>i x. map_of scores i = Some x \<longrightarrow> score_Timestamp x = t)"

lemma all_at_update: "all_at t scores \<Longrightarrow> score_Timestamp x = t \<Longrightarrow> all_at t (AList.update k x scores)"
  by (simp add: all_at_def update_conv')

lemma merge_elems_at: "all_at t scores \<Longrightarrow> all_at t (merge_elems t c scores es)"
proof (induction es arbitrary: scores)
  case (Cons e es)
  show ?case
  proof (cases "map_of scores (elem_value e)")
    case None
    then show ?thesis using Cons.IH [OF all_at_update [OF Cons.prems]] by simp
  next
    case (Some x)
    then have "score_Timestamp x = t" using Cons.prems by (simp add: all_at_def)
    then show ?thesis using Some Cons.IH [OF all_at_update [OF Cons.prems]] by simp
  qed
qed simp

lemma pop_heaps_at: "all_at t scores \<Longrightarrow> pop_heaps t cs heaps scores = Inr (scores', heaps') \<Longrightarrow> all_at t scores'"
proof (induction cs arbitrary: heaps scores)
  case (Cons c cs)
  show ?case
  proof (cases "map_of heaps c")
    case None
    then show ?thesis using Cons by simp
  next
    case (Some h)
    then obtain es h' where "pop_heaps t cs (AList.update c h' heaps) (merge_elems t c scores es) = Inr (scores', heaps')"
      using Cons.prems(2) by (auto split: sum.splits)
    then show ?thesis using Cons.IH merge_elems_at [OF Cons.prems(1)] by blast
  qed
qed simp

lemma lb_PopAll_at:
  assumes pop: "lb_PopAll W l = Inr (out, l')" and env: "env_ok W"
  shows "\<forall>x \<in> set out. score_Timestamp x = lb_timestamp l"
proof
  fix x assume x: "x \<in> set out"
  obtain scores heaps where h: "pop_heaps (lb_timestamp l) (env_Iter W (map fst (lb_heaps l))) (lb_heaps l) [] = Inr (scores, heaps)"
      "out = env_SortDocuments W (map (\<lambda>i. the (map_of scores i)) (env_Iter W (map fst scores)))"
    using pop by (auto simp: lb_PopAll_def split: sum.splits)
  have "mset out = mset (map (\<lambda>i. the (map_of scores i)) (env_Iter W (map fst scores)))"
    using env unfolding h(2) env_ok_def is_SortDocuments_def by blast
  then have "x \<in> set (map (\<lambda>i. the (map_of scores i)) (env_Iter W (map fst scores)))" using x mset_eq_setD by blast
  then obtain i where i: "i \<in> set (env_Iter W (map fst scores))" "x = the (map_of scores i)" by auto
  have "mset (env_Iter W (map fst scores)) = mset (map fst scores)" using env by (simp add: env_ok_def)
  then have "i \<in> set (map fst scores)" using i(1) mset_eq_setD by blast
  then have "map_of scores i = Some x" using i(2) by (cases "map_of scores i") (auto simp: map_of_eq_None_iff)
  moreover have "all_at (lb_timestamp l) scores" using pop_heaps_at [OF _ h(1)] by (simp add: all_at_def)
  ultimately show "score_Timestamp x = lb_timestamp l" by (simp add: all_at_def)
qed

lemma recent_add: "\<forall>x \<in> set xs. score_Timestamp x = t \<Longrightarrow> recent t (M ++ scores_by_id xs) = recent t M ++ scores_by_id xs"
proof (rule ext)
  fix i assume t: "\<forall>x \<in> set xs. score_Timestamp x = t"
  show "recent t (M ++ scores_by_id xs) i = (recent t M ++ scores_by_id xs) i"
  proof (cases "scores_by_id xs i")
    case None
    then show ?thesis by (simp add: recent_def map_add_def)
  next
    case (Some x)
    then have "x \<in> set xs" by (auto simp: scores_by_id_def dest!: map_of_SomeD)
    then show ?thesis using Some t by (simp add: recent_def map_add_def)
  qed
qed

subsection \<open>A load that succeeds\<close>

lemma New_fields: "NewNonPersonalized L cfg n t = Inr l \<Longrightarrow> lb_name l = np_Name cfg \<and> lb_timestamp l = t"
  by (auto simp: NewNonPersonalized_def Let_def split: sum.splits if_splits)

lemma zip_nth: "p \<in> set (zip xs ys) \<Longrightarrow> length xs = length ys \<Longrightarrow> \<exists>k < length ys. p = (xs ! k, ys ! k)"
  by (auto simp: set_zip)

text \<open>The caches after a load, and what is left to do.\<close>

lemma load_and_write_saves:
  assumes keeps: "cache_keeps docs kv C" and cats: "\<forall>M. distinct (de_IterCounts E M)"
    and new: "p_map (\<lambda>c. NewNonPersonalized (de_Expr E) c (CacheSize cfg) (le_Now (de_Load E))) (NonPersonalized cfg) = Inr ls"
    and names: "distinct (map np_Name (NonPersonalized cfg))"
    and load: "LoadDataFromDatabase (de_Load E) db (push_leaderboards (de_Expr E)) (ds_PositiveFeedbackTypes (DataSource cfg)) (ds_NegativeFeedbackTypes (DataSource cfg))
        (ds_ReadFeedbackTypes (DataSource cfg)) (ds_ItemTTL (DataSource cfg)) (ds_PositiveFeedbackTTL (DataSource cfg))
        (NewOnlineEvaluator (le_Now (de_Load E)) (ds_PositiveFeedbackTypes (DataSource cfg)) (ds_ReadFeedbackTypes (DataSource cfg))) ls s =
      Inr (Inr (click, d, ev, ls'), s)"
    and len: "length ls' = length ls" and fields: "\<forall>k < length ls. lb_name (ls' ! k) = lb_name (ls ! k) \<and> lb_timestamp (ls' ! k) = lb_timestamp (ls ! k)"
    and pop: "\<forall>k < length ls. \<exists>l2. lb_PopAll (de_Env E) (ls' ! k) = Inr (out k, l2) \<and> distinct (map score_Id (out k))"
  obtains s' where "load_and_write E db C cfg s = Inr (Inr (click, d, None), s')"
    "\<forall>k < length ls. saved docs kv s s' (np_Name (NonPersonalized cfg ! k)) (le_Now (de_Load E)) (out k) (np_Hash (env_MD5 (de_Env E)) (NonPersonalized cfg ! k))"
proof -
  let ?cfgs = "NonPersonalized cfg" and ?ps = "zip (NonPersonalized cfg) ls'"
  let ?scores = "\<lambda>p. fst (projr (lb_PopAll (de_Env E) (snd p)))"
  have n: "length ls = length ?cfgs" "\<forall>k < length ?cfgs. NewNonPersonalized (de_Expr E) (?cfgs ! k) (CacheSize cfg) (le_Now (de_Load E)) = Inr (ls ! k)"
    using p_map_nth [OF new] by simp_all
  have name: "lb_name (ls' ! k) = np_Name (?cfgs ! k) \<and> lb_timestamp (ls' ! k) = le_Now (de_Load E)" if "k < length ls" for k
    using fields New_fields n that by metis
  have "map (\<lambda>p. lb_name (snd p)) ?ps = map np_Name ?cfgs"
    by (rule nth_equalityI) (use n(1) len name in simp_all)
  then have dist: "distinct (map (\<lambda>p. lb_name (snd p)) ?ps)" using names by simp
  have nth: "\<exists>k < length ls'. p = (?cfgs ! k, ls' ! k)" if "p \<in> set ?ps" for p
    using zip_nth [OF that] n(1) len by simp
  have pops: "\<forall>p \<in> set ?ps. \<exists>r'. lb_PopAll (de_Env E) (snd p) = Inr (?scores p, r') \<and> distinct (map score_Id (?scores p))"
  proof
    fix p assume "p \<in> set ?ps"
    then obtain k where k: "k < length ls" "p = (?cfgs ! k, ls' ! k)" using nth len by metis
    then show "\<exists>r'. lb_PopAll (de_Env E) (snd p) = Inr (?scores p, r') \<and> distinct (map score_Id (?scores p))"
      using pop by (metis fst_conv snd_conv sum.sel(2))
  qed
  obtain s1 where s1: "p_fold (save_leaderboard E C) ?ps s = Inr s1"
      "\<forall>p \<in> set ?ps. saved docs kv s s1 (lb_name (snd p)) (lb_timestamp (snd p)) (?scores p) (np_Hash (env_MD5 (de_Env E)) (fst p))"
    using save_leaderboards_view [OF keeps dist pops, of s] by (elim exE conjE)
  obtain s' where s': "write_statistics E C click d ev s1 = (None, s')" "docs s' c_NonPersonalized = docs s1 c_NonPersonalized"
      "\<And>name. kv s' (digest_key name) = kv s1 (digest_key name)"
    using write_statistics_view [OF keeps] cats by metis
  have "load_and_write E db C cfg s = Inr (Inr (click, d, None), s')"
    using new load s1(1) s'(1) by (simp add: load_and_write_def load_bind_def Let_def)
  moreover have "saved docs kv s s' (np_Name (?cfgs ! k)) (le_Now (de_Load E)) (out k) (np_Hash (env_MD5 (de_Env E)) (?cfgs ! k))" if k: "k < length ls" for k
  proof -
    have "(?cfgs ! k, ls' ! k) \<in> set ?ps" using k n(1) len by (auto simp: set_zip)
    then have "saved docs kv s s1 (lb_name (ls' ! k)) (lb_timestamp (ls' ! k)) (?scores (?cfgs ! k, ls' ! k)) (np_Hash (env_MD5 (de_Env E)) (?cfgs ! k))"
      using s1(2) by (metis fst_conv snd_conv)
    moreover have "?scores (?cfgs ! k, ls' ! k) = out k" using pop k by (metis fst_conv snd_conv sum.sel(2))
    ultimately show ?thesis using name [OF k] s'(2,3) by (simp add: saved_def)
  qed
  ultimately show ?thesis using that by blast
qed

text \<open>
  (C5) From the data store to the cache: after a load over a store that answers its queries, into a cache that keeps what it is given, the
  cache holds for every configured leaderboard the scores of this load and whatever was there that is not older. These scores are, for every
  category and for all items, the greatest of the scores computed from the items, each with exactly the positive feedback on it that
  counts, as many as the cache size. The digest beside a leaderboard is that of its configuration. What remains of the load is the splits.
\<close>

theorem loadDataset_leaderboards:
  fixes E :: "('p, 'w::linordered_field, 'g) dataset_env"
  assumes keeps: "cache_keeps docs kv C" and env: "env_ok (de_Env E)" and cats: "\<forall>M. distinct (de_IterCounts E M)"
    and ready: "load_ready (de_Load E) db s (days_ago (de_Load E) (ds_ItemTTL (DataSource cfg))) users items F" and items: "\<forall>item \<in> set items. item_ok item"
    and new: "p_map (\<lambda>c. NewNonPersonalized (de_Expr E) c (CacheSize cfg) (le_Now (de_Load E))) (NonPersonalized cfg) = Inr ls"
    and filters: "\<forall>l \<in> set ls. filter_ok (de_Expr E) l" and names: "distinct (map np_Name (NonPersonalized cfg))"
  shows "\<exists>click d evs s'. loadDataset E db C cfg s = map_option (\<lambda>r. p_bind r (\<lambda>ds. Inr (Inr ds, s'))) (split_datasets E click d) \<and>
    mset (map fst evs) = mset (map (loaded_item (de_Load E)) items) \<and>
    (\<forall>e \<in> set evs. mset (snd e) = filter_mset (\<lambda>f. wanted (de_Load E) (days_ago (de_Load E) (ds_PositiveFeedbackTTL (DataSource cfg)))
        (ds_PositiveFeedbackTypes (DataSource cfg)) f \<and> fb_ItemId f = item_ItemId (fst e) \<and>
      accepted (map user_UserId users) (map item_ItemId items) (wanted_negatives (de_Load E) (days_ago (de_Load E) (ds_PositiveFeedbackTTL (DataSource cfg)))
        (ds_NegativeFeedbackTypes (DataSource cfg)) users items F) f) (mset F)) \<and>
    (\<forall>k < length ls. \<exists>out. docs s' c_NonPersonalized (np_Name (NonPersonalized cfg ! k)) =
        recent (le_Now (de_Load E)) (docs s c_NonPersonalized (np_Name (NonPersonalized cfg ! k))) ++ scores_by_id out \<and>
      kv s' (digest_key (np_Name (NonPersonalized cfg ! k))) = Some (np_Hash (env_MD5 (de_Env E)) (NonPersonalized cfg ! k)) \<and>
      distinct (map score_Id out) \<and>
      (\<forall>c. map score_Score (filter (\<lambda>x. c \<in> set (score_Categories x)) out) =
        take (nat (CacheSize cfg)) (rev (sort (map snd (lb_entries (de_Expr E) (ls ! k) c evs))))) \<and>
      (\<forall>x \<in> set out. \<forall>c \<in> set (score_Categories x). (score_Id x, score_Score x) \<in> set (lb_entries (de_Expr E) (ls ! k) c evs)))"
proof -
  have n: "length ls = length (NonPersonalized cfg)"
    "\<forall>k < length (NonPersonalized cfg). NewNonPersonalized (de_Expr E) (NonPersonalized cfg ! k) (CacheSize cfg) (le_Now (de_Load E)) = Inr (ls ! k)"
    using p_map_nth [OF new] by simp_all
  have ls: "\<forall>l \<in> set ls. filter_ok (de_Expr E) l \<and> (\<exists>c. NewNonPersonalized (de_Expr E) c (CacheSize cfg) (le_Now (de_Load E)) = Inr l)"
    using filters n by (metis in_set_conv_nth)
  let ?ev = "NewOnlineEvaluator (le_Now (de_Load E)) (ds_PositiveFeedbackTypes (DataSource cfg)) (ds_ReadFeedbackTypes (DataSource cfg))"
  note fills = load_fills_leaderboards [OF ready items ls env, where posTypes = "ds_PositiveFeedbackTypes (DataSource cfg)" and
      negTypes = "ds_NegativeFeedbackTypes (DataSource cfg)" and readTypes = "ds_ReadFeedbackTypes (DataSource cfg)" and
      feedbackTTL = "ds_PositiveFeedbackTTL (DataSource cfg)" and ev = ?ev]
  obtain click d ev' ls' evs where load: "LoadDataFromDatabase (de_Load E) db (push_leaderboards (de_Expr E)) (ds_PositiveFeedbackTypes (DataSource cfg))
        (ds_NegativeFeedbackTypes (DataSource cfg)) (ds_ReadFeedbackTypes (DataSource cfg)) (ds_ItemTTL (DataSource cfg)) (ds_PositiveFeedbackTTL (DataSource cfg)) ?ev ls s =
      Inr (Inr (click, d, ev', ls'), s)" and len: "length ls' = length ls"
    and fields: "\<forall>k < length ls. lb_name (ls' ! k) = lb_name (ls ! k) \<and> lb_timestamp (ls' ! k) = lb_timestamp (ls ! k)"
    and pushed: "mset (map fst evs) = mset (map (loaded_item (de_Load E)) items)"
    "\<forall>e \<in> set evs. mset (snd e) = filter_mset (\<lambda>f. wanted (de_Load E) (days_ago (de_Load E) (ds_PositiveFeedbackTTL (DataSource cfg)))
        (ds_PositiveFeedbackTypes (DataSource cfg)) f \<and> fb_ItemId f = item_ItemId (fst e) \<and>
      accepted (map user_UserId users) (map item_ItemId items) (wanted_negatives (de_Load E) (days_ago (de_Load E) (ds_PositiveFeedbackTTL (DataSource cfg)))
        (ds_NegativeFeedbackTypes (DataSource cfg)) users items F) f) (mset F)"
    and lists: "\<forall>k < length ls. \<exists>out l2. lb_PopAll (de_Env E) (ls' ! k) = Inr (out, l2) \<and> distinct (map score_Id out) \<and>
      (\<forall>c. map score_Score (filter (\<lambda>x. c \<in> set (score_Categories x)) out) = take (nat (CacheSize cfg)) (rev (sort (map snd (lb_entries (de_Expr E) (ls ! k) c evs))))) \<and>
      (\<forall>x \<in> set out. \<forall>c \<in> set (score_Categories x). (score_Id x, score_Score x) \<in> set (lb_entries (de_Expr E) (ls ! k) c evs))"
    using fills by (elim exE conjE) (rule that, assumption+)
  obtain out where out: "\<forall>k < length ls. \<exists>l2. lb_PopAll (de_Env E) (ls' ! k) = Inr (out k, l2) \<and> distinct (map score_Id (out k)) \<and>
      (\<forall>c. map score_Score (filter (\<lambda>x. c \<in> set (score_Categories x)) (out k)) =
        take (nat (CacheSize cfg)) (rev (sort (map snd (lb_entries (de_Expr E) (ls ! k) c evs))))) \<and>
      (\<forall>x \<in> set (out k). \<forall>c \<in> set (score_Categories x). (score_Id x, score_Score x) \<in> set (lb_entries (de_Expr E) (ls ! k) c evs))"
    using lists by metis
  have pop: "\<forall>k < length ls. \<exists>l2. lb_PopAll (de_Env E) (ls' ! k) = Inr (out k, l2) \<and> distinct (map score_Id (out k))" using out by blast
  obtain s' where s': "load_and_write E db C cfg s = Inr (Inr (click, d, None), s')"
      "\<forall>k < length ls. saved docs kv s s' (np_Name (NonPersonalized cfg ! k)) (le_Now (de_Load E)) (out k) (np_Hash (env_MD5 (de_Env E)) (NonPersonalized cfg ! k))"
    by (rule load_and_write_saves [OF keeps cats new names load len fields pop])
  have saved: "docs s' c_NonPersonalized (np_Name (NonPersonalized cfg ! k)) =
        recent (le_Now (de_Load E)) (docs s c_NonPersonalized (np_Name (NonPersonalized cfg ! k))) ++ scores_by_id (out k) \<and>
      kv s' (digest_key (np_Name (NonPersonalized cfg ! k))) = Some (np_Hash (env_MD5 (de_Env E)) (NonPersonalized cfg ! k))" if k: "k < length ls" for k
  proof -
    obtain l2 where l2: "lb_PopAll (de_Env E) (ls' ! k) = Inr (out k, l2)" using pop k by blast
    have "lb_timestamp (ls' ! k) = le_Now (de_Load E)" using fields New_fields n k by metis
    then show ?thesis using s'(2) k recent_add lb_PopAll_at [OF l2 env] by (simp add: saved_def)
  qed
  have "loadDataset E db C cfg s = map_option (\<lambda>r. p_bind r (\<lambda>ds. Inr (Inr ds, s'))) (split_datasets E click d)"
    by (simp add: loadDataset_def s'(1))
  then show ?thesis using pushed saved out by blast
qed

subsection \<open>A load in memory\<close>

type_synonym mem_cache = "(string \<Rightarrow> string \<Rightarrow> string \<rightharpoonup> rat score) \<times> (string \<rightharpoonup> string)"

definition mem_cache :: "(mem_cache, rat) cache" where
  "mem_cache = NoCache\<lparr>
     ca_Main := ca_Main NoCache\<lparr>
       cdb_Set := (\<lambda>s vs. (None, (fst s, foldl (\<lambda>m v. m(kv_name v \<mapsto> kv_value v)) (snd s) vs))),
       cdb_AddScores := (\<lambda>s c n xs. (None, ((fst s)(c := (fst s c)(n := fst s c n ++ scores_by_id xs)), snd s))),
       cdb_DeleteScores := (\<lambda>s cs q. case (cs, sc_Subset q, sc_Before q) of
           ([c], Some n, Some t) \<Rightarrow> (None, ((fst s)(c := (fst s c)(n := recent t (fst s c n))), snd s))
         | _ \<Rightarrow> (Some ErrNotFound, s))\<rparr>,
     ca_AddTimeSeriesPoints := (\<lambda>s ps. (None, s))\<rparr>"

lemma mem_cache_keeps: "cache_keeps fst snd mem_cache"
proof -
  have "adds_scores fst snd mem_cache" by (auto simp: adds_scores_def mem_cache_def)
  moreover have "deletes_scores fst snd mem_cache" by (auto simp: deletes_scores_def mem_cache_def)
  moreover have "sets_values fst snd mem_cache" by (auto simp: sets_values_def mem_cache_def)
  moreover have "adds_points fst snd mem_cache" by (auto simp: adds_points_def mem_cache_def)
  ultimately show ?thesis by (simp add: cache_keeps_def)
qed

definition lib_w :: "(string, rat) expr_lib" where
  "lib_w = \<lparr>el_Compile = (\<lambda>s. Inr s), el_Kind = (\<lambda>p. if p = ''f'' then KindBool else KindInt),
     el_Run = (\<lambda>p i fs. if p = ''f'' then Inr (VBool True) else Inr (VInt (item_Timestamp i))), el_Float = of_int\<rparr>"

definition dataset_env_w :: "(string, rat, unit) dataset_env" where
  "dataset_env_w = \<lparr>de_Load = example_load_env, de_Env = plain_env 0 of_int, de_Expr = lib_w, de_Float = of_int,
     de_IterCounts = (\<lambda>M. filter (\<lambda>c. M c \<noteq> None) [''x'']), de_IterSets = (\<lambda>s. s), de_IterTypes = (\<lambda>s. s),
     de_Intn = (\<lambda>g n. (0, g)), de_Int31n = (\<lambda>n g. (0, g)), de_IntnRange = (\<lambda>n g. (0, g)), de_TestPart = (\<lambda>n. 0), de_Seed0 = ()\<rparr>"

definition board_w :: non_personalized_config where
  "board_w = \<lparr>np_Name = ''n'', np_Score = ''s'', np_Filter = ''f''\<rparr>"

definition config_w :: "rat recommend_config" where
  "config_w = \<lparr>CacheSize = 1, CacheExpire = 0, ContextSize = 0, ActiveUserTTL = 0,
     DataSource = \<lparr>ds_PositiveFeedbackTypes = [typed ''like''], ds_NegativeFeedbackTypes = [], ds_ReadFeedbackTypes = [typed ''read''],
       ds_PositiveFeedbackTTL = 0, ds_ItemTTL = 0\<rparr>,
     NonPersonalized = [board_w], ItemToItem = [], UserToUser = [], Collaborative = \<lparr>co_Type = ''none''\<rparr>, External = [],
     Replacement = \<lparr>rp_EnableReplacement = False, rp_PositiveReplacementDecay = 0, rp_ReadReplacementDecay = 0\<rparr>,
     Ranker = \<lparr>rk_Type = '''', rk_Recommenders = [], rk_CacheExpire = 0\<rparr>, FallbackRecommenders = []\<rparr>"

lemma one_pushed: "mset (map fst evs) = {#x#} \<Longrightarrow> \<exists>fs. evs = [(x, fs)]"
  by (cases evs) auto

theorem loadDataset_leaderboards_witness:
  "\<exists>click d s' out. loadDataset dataset_env_w (list_store example_users example_items [example_feedback ''like'' 5]) mem_cache config_w (\<lambda>c n. Map.empty, Map.empty) =
      map_option (\<lambda>r. p_bind r (\<lambda>ds. Inr (Inr ds, s'))) (split_datasets dataset_env_w click d) \<and>
    fst s' c_NonPersonalized ''n'' = scores_by_id out \<and> map score_Score (filter (\<lambda>x. ''x'' \<in> set (score_Categories x)) out) = [3]"
proof -
  let ?F = "[example_feedback ''like'' 5] :: rat feedback list" and ?s = "(\<lambda>c n. Map.empty, Map.empty) :: mem_cache"
  obtain l where l: "NewNonPersonalized lib_w board_w 1 10 = Inr l" "lb_scoreFunc l = ''s''" "lb_filterFunc l = Some ''f''"
    by (simp add: NewNonPersonalized_def lib_w_def board_w_def)
  have new: "p_map (\<lambda>c. NewNonPersonalized (de_Expr dataset_env_w) c (CacheSize config_w) (le_Now (de_Load dataset_env_w))) (NonPersonalized config_w) = Inr [l]"
    using l(1) by (simp add: dataset_env_w_def config_w_def example_load_env_def)
  have filters: "\<forall>l' \<in> set [l]. filter_ok (de_Expr dataset_env_w) l'" using l(3) by (auto simp: filter_ok_def lib_w_def dataset_env_w_def)
  have ready: "load_ready (de_Load dataset_env_w) (list_store example_users example_items ?F) ?s (days_ago (de_Load dataset_env_w) (ds_ItemTTL (DataSource config_w)))
      example_users example_items ?F"
    using example_ready [OF example_feedback_sorted(2)] by (simp add: dataset_env_w_def)
  have cats: "\<forall>item \<in> set example_items. item_ok item" by (simp add: example_items_def item_ok_def)
  have env: "env_ok (de_Env dataset_env_w)" using plain_env_ok by (simp add: dataset_env_w_def)
  have iter: "\<forall>M. distinct (de_IterCounts dataset_env_w M)" by (simp add: dataset_env_w_def)
  have names: "distinct (map np_Name (NonPersonalized config_w))" by (simp add: config_w_def)
  have name: "np_Name (NonPersonalized config_w ! 0) = ''n''" by (simp add: config_w_def board_w_def)
  have old: "recent t Map.empty ++ M = M" for t and M :: "string \<rightharpoonup> rat score" by (simp add: recent_def)
  obtain click d evs s' out where r:
      "loadDataset dataset_env_w (list_store example_users example_items ?F) mem_cache config_w ?s =
        map_option (\<lambda>r. p_bind r (\<lambda>ds. Inr (Inr ds, s'))) (split_datasets dataset_env_w click d)"
      "mset (map fst evs) = mset (map (loaded_item (de_Load dataset_env_w)) example_items)"
      "fst s' c_NonPersonalized ''n'' = recent (le_Now (de_Load dataset_env_w)) Map.empty ++ scores_by_id out"
      "\<forall>c. map score_Score (filter (\<lambda>x. c \<in> set (score_Categories x)) out) =
        take (nat (CacheSize config_w)) (rev (sort (map snd (lb_entries (de_Expr dataset_env_w) l c evs))))"
    using loadDataset_leaderboards [OF mem_cache_keeps env iter ready cats new filters names] name by fastforce
  obtain fs where "evs = [(loaded_item (de_Load dataset_env_w) (example_items ! 0), fs)]" using one_pushed [of evs] r(2) by (auto simp: example_items_def)
  then have "map snd (lb_entries (de_Expr dataset_env_w) l ''x'' evs) = [3]"
    using l(2,3) by (simp add: lb_entry_def lb_passes_def lb_score_def lib_w_def dataset_env_w_def example_items_def loaded_item_def)
  then have "map score_Score (filter (\<lambda>x. ''x'' \<in> set (score_Categories x)) out) = [3]" using r(4) by (simp add: config_w_def)
  then show ?thesis using r(1) r(3) [unfolded old] by (intro exI [of _ click] exI [of _ d] exI [of _ s'] exI [of _ out]) simp
qed

subsection \<open>When a write fails\<close>

text \<open>
  A leaderboard whose new scores are refused loses its old scores all the same, and its digest says that it is up to date.
\<close>

lemma refused_leaderboard_is_emptied:
  assumes pop: "lb_PopAll (de_Env E) r = Inr (scores, r')" and refused: "cdb_AddScores (ca_Main C) s c_NonPersonalized (lb_name r) scores = (Some e, s1)" "docs s1 = docs s"
    and laws: "deletes_scores docs kv C" "sets_values docs kv C"
    and old: "\<forall>i x. docs s c_NonPersonalized (lb_name r) i = Some x \<longrightarrow> score_Timestamp x < lb_timestamp r"
  shows "\<exists>s'. save_leaderboard E C (cfg, r) s = Inr s' \<and> docs s' c_NonPersonalized (lb_name r) = Map.empty \<and>
    kv s' (digest_key (lb_name r)) = Some (np_Hash (env_MD5 (de_Env E)) cfg)"
proof -
  let ?c = "\<lparr>sc_Subset = Some (lb_name r), sc_Id = None, sc_Before = Some (lb_timestamp r)\<rparr>"
  let ?vs = "[kv_Time (env_ShowTime (de_Env E)) (Key [''non-personalized_update_time'', lb_name r]) (lb_timestamp r),
        kv_String (Key [c_NonPersonalizedDigest, lb_name r]) (np_Hash (env_MD5 (de_Env E)) cfg)]"
  obtain e2 s2 where d: "cdb_DeleteScores (ca_Main C) s1 [c_NonPersonalized] ?c = (e2, s2)" by fastforce
  obtain e3 s3 where k: "cdb_Set (ca_Main C) s2 ?vs = (e3, s3)" by fastforce
  have D: "docs s2 = (docs s)(c_NonPersonalized := (docs s c_NonPersonalized)(lb_name r := recent (lb_timestamp r) (docs s c_NonPersonalized (lb_name r))))"
    using laws(1) d refused(2) unfolding deletes_scores_def by metis
  have K: "docs s3 = docs s2 \<and> kv s3 = foldl (\<lambda>m v. m(kv_name v \<mapsto> kv_value v)) (kv s2) ?vs"
    using laws(2) k unfolding sets_values_def by blast
  have "recent (lb_timestamp r) (docs s c_NonPersonalized (lb_name r)) = Map.empty"
    using old by (auto simp: recent_def fun_eq_iff split: option.split)
  then have "docs s3 c_NonPersonalized (lb_name r) = Map.empty" using D K by simp
  moreover have "kv s3 (digest_key (lb_name r)) = Some (np_Hash (env_MD5 (de_Env E)) cfg)"
    using K by (simp add: kv_Time_def kv_String_def digest_key_def)
  ultimately show ?thesis using pop refused(1) d k by (simp add: save_leaderboard_def Let_def)
qed

text \<open>An error of the last write, which is only logged where it happens, ends the whole task: no neighbours, no models, no garbage collection.\<close>

lemma unwritten_categories_end_the_task:
  assumes "load_and_write E db (sv_Cache S) cfg s = Inr (Inr (click, d, Some e), s')" and "split_datasets E click d = Some (Inr ds)"
  shows "runLoadDatasetTask E TE NE db S V MarshalModel T tc cfg (m, s) = Some (Inr (Some e, (m, s')))"
  using assms by (simp add: runLoadDatasetTask_def loadDataset_def)

text \<open>Otherwise the task ends without an error, whatever its parts report.\<close>

lemma task_reports_only_load_errors:
  assumes "runLoadDatasetTask E TE NE db S V MarshalModel T tc cfg (m, s) = Some (Inr (Some e, x))"
  obtains s' where "loadDataset E db (sv_Cache S) cfg s = Some (Inr (Inl e, s'))" "x = (m, s')"
  using assms by (auto simp: runLoadDatasetTask_def p_bind_Inr split: option.splits sum.splits)

end
