(* ===== verification/Spec2Isabelle.thy ===== *)
theory Spec2Isabelle
  imports Priority_Queue Pipeline Vector_Writer Sparse_Vector Id_Index Non_Personalized Dataset_Build Detachable Rest_Props Data_Proxy_Props Cache_Proxy Vector_Proxy Byte_Codec Load_Props Memory_World Neighbour_Props Load_Task_Props
begin

text \<open>
  A verification development for gorse, a recommender system written in Go.  A master builds data sets from a data store,
  trains models and fills leaderboards and vector collections; workers compute offline recommendations of every user into a
  cache; servers answer REST requests from the stores and the cache.  All of them share the recommender of
  \<open>logics\<close>, the interfaces of three stores, and the containers of \<open>common\<close>.

  \<^bold>\<open>Parts and theories.\<close>  File names are those under \<open>src/\<close>.
  \<^item> \<open>Prelude\<close>: errors, panics (\<open>go_panic + 'a\<close>), bounded indexing and slicing, 32-bit indices, lemmas on lists and
    folds that the components share.  \<open>Go_Heap\<close>: \<open>container/heap\<close>.  \<open>Go_Env\<close>: the world of a computation as a record
    (clock, parsing and printing of times, MD5, the order in which a map is iterated, sorting).
    \<open>Decimal\<close>: integers as \<open>strconv\<close> prints and reads them.
  \<^item> \<open>Weighted_Heap\<close>, \<open>Priority_Queue\<close>: \<open>common/heap\<close>.  Locales \<open>heap_order\<close> and others state what the heap needs from an order.
  \<^item> \<open>Feedback_Expr\<close>: \<open>common/expression\<close>, feedback type expressions, their syntax and their matching.
  \<^item> \<open>Parallel\<close>, \<open>Detachable\<close>: \<open>common/parallel\<close>; goroutines, channels and semaphores as step relations on a state, one rule
    per action that can interleave; a run is any path of steps.
  \<^item> \<open>Random_Sampling\<close>: sampling without replacement of \<open>common/util/random.go\<close>.
  \<^item> \<open>Storage_Data\<close>, \<open>Storage_Cache\<close>, \<open>Vectors\<close>: the data of \<open>storage/data\<close>, \<open>storage/cache\<close> and \<open>storage/vectors\<close> (users, items,
    feedback, keys, scores, vectors), label validation, and the methods of the stores as records of functions on a store
    state.  A backend is a parameter; what is asked of it is a hypothesis of the theorem that needs it.
  \<^item> \<open>Proxy_Call\<close>, \<open>Data_Proxy\<close>, \<open>Data_Proxy_Props\<close>, \<open>Cache_Proxy\<close>, \<open>Vector_Proxy\<close>: \<open>proxy.go\<close> and \<open>no_database.go\<close> of the three
    stores: client and server stubs of the gRPC services, message by message, and the null databases.
  \<^item> \<open>Byte_Codec\<close>: \<open>common/encoding\<close> with the marshalling of indices and of user factors (\<open>logics/cf.go\<close>) over readers and writers
    that may fail or deliver any chunks; the locales \<open>io_writer\<close> and \<open>io_reader\<close> state the contracts of \<open>io.Writer\<close> and \<open>io.Reader\<close>.
  \<^item> \<open>Recommend_Config\<close>: \<open>config/config.go\<close>, the recommendation part and its digest.
  \<^item> \<open>Similarity\<close>, \<open>Recommender\<close>: \<open>logics/item_to_item.go\<close>, \<open>logics/user_to_user.go\<close> and \<open>logics/recommend.go\<close>: the stages of a
    recommendation with their exclude set, fallbacks and digests.
  \<^item> \<open>Pipeline\<close>: \<open>worker/pipeline.go\<close>, the job that computes the cached recommendations of one user.
  \<^item> \<open>Vector_Writer\<close>, \<open>Sparse_Vector\<close>: \<open>logics/vector_writer.go\<close> and the pruning of sparse similarity vectors.
  \<^item> \<open>Neighbour_Index\<close>, \<open>Neighbour_Props\<close>: the vectors of items and users by tags, feedback or embeddings (\<open>logics/item_to_item.go\<close>,
    \<open>logics/user_to_user.go\<close>, the inverse document frequencies of \<open>dataset/dataset.go\<close>), \<open>updateItemToItem\<close> and \<open>updateUserToUser\<close> of \<open>master/tasks.go\<close>,
    and what they leave in the vector database.
  \<^item> \<open>Non_Personalized\<close>: \<open>logics/non_personalized.go\<close>, leaderboards with one top-k filter per category.
  \<^item> \<open>Id_Index\<close>, \<open>Dataset\<close>, \<open>Dataset_Build\<close>: \<open>dataset/\<close>: the dictionaries of ids, the tables of a data set, label compression and the
    two ways of splitting training from test data.
  \<^item> \<open>Ctr_Data\<close>, \<open>Label_Index\<close>: \<open>model/ctr/data.go\<close>: features and embeddings of labels, the samples and their two splits; the numbering
    of labels while a data set is loaded.  \<open>Online_Evaluator\<close>: \<open>master/metrics.go\<close>.
  \<^item> \<open>Feedback_Load\<close>, \<open>Master_Load\<close>, \<open>Load_Data\<close>, \<open>Load_Steps\<close>, \<open>Load_Props\<close>: \<open>LoadDataFromDatabase\<close> of \<open>master/tasks.go\<close>: the tables of negative,
    positive and read feedback, the item that a stream of feedback is at, the whole load, and what each of its steps does.
  \<^item> \<open>Master_Models\<close>, \<open>Model_Props\<close>, \<open>Train_Props\<close>, \<open>Memory_World\<close>: training, publishing and removing models in \<open>master/tasks.go\<close>, over the
    blob store, the vector database, the meta store and the cache; the laws of these services, and services in memory that
    keep them.  \<open>Cache_Garbage\<close>: \<open>collectGarbage\<close>.
  \<^item> \<open>Load_Task\<close>, \<open>Load_Task_Props\<close>: \<open>loadDataset\<close> and \<open>runLoadDatasetTask\<close> of \<open>master/tasks.go\<close>, which put the load, the leaderboards, the
    statistics, the neighbours, the training and the garbage collection together; what a load leaves in the cache.
  \<^item> \<open>Rest_Core\<close>, \<open>Rest_Read\<close>, \<open>Rest_Write\<close>, \<open>Rest_Props\<close>: \<open>server/rest.go\<close>: every handler as a computation that stops at the first
    response, with its parameters, quotas, and the order in which it calls the stores.

  \<^bold>\<open>How the code is read.\<close>  A struct is a record, an enumeration a datatype, an error an option or the left summand of a sum,
  a panic \<open>Inl\<close> of \<open>go_panic\<close>.  Methods with effects pass the state of the stores.  Indices of the data set are 32-bit words, other
  integers \<open>int\<close>; where a request can overflow a sum it is computed by \<open>add64\<close>.  Numbers that the code only compares and adds (floats)
  are of a type variable with the operations that are used, so that no law of rounding is assumed.  A loop that may not end is
  a \<open>partial_function (option)\<close> (rejection sampling); the others are structural recursions.  Bounds, such as at most \<open>2 ^ 31\<close> ids in
  a dictionary, are hypotheses, and every theorem with a hypothesis is followed by a witness at concrete data.

  \<^bold>\<open>Interfaces.\<close>  A heap needs an order, a codec a writer and a reader, a data set indices that number names without gaps: these contracts
  are the locales \<open>heap_order\<close>, \<open>top_k_selector\<close>, \<open>io_writer\<close>, \<open>io_reader\<close> and \<open>id_index\<close>, interpreted on the models of the code that provides them.  A store is another program; what is asked of it is a predicate
  (\<open>store_holds\<close>, \<open>scan_law\<close>, \<open>service_laws\<close>, \<open>reliable\<close>, \<open>cache_keeps\<close>, \<open>user_cache\<close> and others) that a theorem has as a hypothesis, with a witness where a concrete store
  has it.  \<open>store_holds\<close>: ids are compared character by character, a scan returns what its options select, and an ordered one keeps the feedback of
  an item together.  \<open>service_laws\<close>: a call changes only the blob, the collection or the entry it names; a blob
  whose writer was closed and whose upload has ended holds what was written; a failed call may have been carried out.
  \<open>reliable\<close>: the calls of a vector database succeed and do to its collections what they say.  \<open>cache_keeps\<close> and \<open>user_cache\<close>: the same of a cache and of the part of it
  that belongs to one user.  \<open>item_laws\<close>: an item that was read and is written with other categories is read back, with an update time of the storage's.

  \<^bold>\<open>Simplifications.\<close>  The jobs of the item groups of a load run one after the other, and an error of one ends the load; the entities of
  a data set are added to the recommenders one at a time, in any order; the clock
  stands still during a load and from the end of a fit; a scan of the cache is the list of its documents at its start.  Mutexes
  make the operations they protect atomic.

  \<^bold>\<open>What is shown.\<close>  Heaps and queues: the invariant, the order of removal, top-k.  Concurrency: every job once, bounds on
  running jobs, no deadlock, and that \<open>Parallel\<close> hides panics.  Data: type safety of building a data set, both splits, sampling, the blocks of
  the unified index.  Loading: every pair of a user and an item is classified once, and the leaderboards list the best items with their own
  feedback, up to the cache that holds them.  Recommendation: nothing excluded, hidden or repeated is recommended, online, offline and at the REST interface;
  the digest of a cached recommendation is that of its configuration, and a job leaves a cache that a later check takes for current until it expires.  REST: outcomes of insertions and which effects a
  refused request leaves, categories.  Proxies: a store behind a stub refines the store, up to the errors and the fields that messages lose.
  Neighbours: a collection holds the current vectors whatever the order of the jobs and the batches, and nothing older.
  Models: what is written to a blob is read back, a training publishes a complete model or none, and the removal keeps the models in use and
  removes exactly the others.  Vector writers: a flush makes at most one call, which hands over every vector of the collection's dimension, and keeps them
  when it fails; vectors of another dimension are dropped.  Labels: which are numbered, and the value that each row keeps of them.

  \<^bold>\<open>Not modelled.\<close>  The storage backends (SQL, MongoDB, Redis, vector stores, blobs, the meta store) are queries to third-party services and
  parameters here.  Numerical code (\<open>common/floats\<close>, \<open>common/blas\<close>, \<open>common/nn\<close>, the fits of \<open>model/\<close>) is about rounding and assembly.  Generated code
  (\<open>protocol\<close>), the commands, the client library, the registration of HTTP routes, reading configuration files, logging, tracing, metrics and the
  loops of the master and the worker that only wait and schedule are left out, as are the dashboard of the master
  (\<open>master/rest.go\<close>), the external rankers and the JavaScript engine.
\<close>

end
